(* ===== verification/Prelude.thy ===== *)
theory Prelude
  imports Main "HOL-Library.AList" "HOL-Library.Char_ord" "HOL-Library.List_Lexorder"
begin

text \<open>
  Shared vocabulary of the development: the parts of Python's language and standard library
  that the modelled modules use, and the generic lemmas about them.

  \<^item> A Python \<open>str\<close> is a \<open>string\<close>: a list of characters, each a code point below 256
    (Latin-1). The character predicates below are Python's on that range, so they include the
    non-ASCII spaces 133 and 160, the superscript digits for which \<open>isdigit\<close> holds although
    \<open>int\<close> rejects them, and the non-ASCII letters of identifiers.
  \<^item> A Python \<open>dict\<close> is an association list in insertion order: \<open>map_of\<close> looks a key up,
    \<open>AList.update\<close> stores (keeping the position of an existing key, appending a new one),
    \<open>AList.delete\<close> removes.
  \<^item> A Python \<open>set\<close> whose iteration order never reaches a result is an Isabelle set or a
    list used through \<open>set\<close>.
  \<^item> A \<open>raise\<close> is an \<open>Inl\<close> of a sum.
\<close>

named_theorems py_simps \<open>unfolding rules of the Python string and list operations\<close>
named_theorems reach_simps \<open>facts that turn graph searches into reachability\<close>

type_synonym 'v dict = "(string \<times> 'v) list"

text \<open>A call that returned: its result is not an error.\<close>

abbreviation isr :: "'e + 'a \<Rightarrow> bool" where
  "isr r \<equiv> \<not> isl r"

section \<open>Characters and strings\<close>

abbreviation cp :: "char \<Rightarrow> nat" where
  "cp c \<equiv> of_char c"

definition char_isspace :: "char \<Rightarrow> bool" where
  "char_isspace c = (let n = cp c in (9 \<le> n \<and> n \<le> 13) \<or> (28 \<le> n \<and> n \<le> 32) \<or> n = 133 \<or> n = 160)"

definition char_isdecimal :: "char \<Rightarrow> bool" where
  "char_isdecimal c = (let n = cp c in 48 \<le> n \<and> n \<le> 57)"

text \<open>\<open>str.isdigit\<close> also accepts the superscripts two, three and one (178, 179, 185).\<close>

definition char_isdigit :: "char \<Rightarrow> bool" where
  "char_isdigit c = (let n = cp c in (48 \<le> n \<and> n \<le> 57) \<or> n = 178 \<or> n = 179 \<or> n = 185)"

definition char_isletter :: "char \<Rightarrow> bool" where
  "char_isletter c = (let n = cp c in (65 \<le> n \<and> n \<le> 90) \<or> (97 \<le> n \<and> n \<le> 122)
     \<or> n = 170 \<or> n = 181 \<or> n = 186 \<or> (192 \<le> n \<and> n \<le> 255 \<and> n \<noteq> 215 \<and> n \<noteq> 247))"

definition char_lower :: "char \<Rightarrow> char" where
  "char_lower c = (let n = cp c in
     if (65 \<le> n \<and> n \<le> 90) \<or> (192 \<le> n \<and> n \<le> 222 \<and> n \<noteq> 215) then char_of (n + 32) else c)"

definition py_lower :: "string \<Rightarrow> string" where
  "py_lower s = map char_lower s"

definition py_lstrip :: "string \<Rightarrow> string" where
  "py_lstrip s = dropWhile char_isspace s"

definition py_rstrip :: "string \<Rightarrow> string" where
  "py_rstrip s = rev (dropWhile char_isspace (rev s))"

definition py_strip :: "string \<Rightarrow> string" where
  "py_strip s = py_rstrip (py_lstrip s)"

definition py_isdigit :: "string \<Rightarrow> bool" where
  "py_isdigit s = (s \<noteq> [] \<and> list_all char_isdigit s)"

text \<open>\<open>str.isidentifier\<close>: a letter or underscore, then letters, digits, underscores or the
  middle dot (183), which may continue an identifier.\<close>

fun py_isidentifier :: "string \<Rightarrow> bool" where
  "py_isidentifier [] = False"
| "py_isidentifier (c # cs) = ((char_isletter c \<or> c = CHR ''_'')
     \<and> list_all (\<lambda>d. char_isletter d \<or> char_isdecimal d \<or> d = CHR ''_'' \<or> cp d = 183) cs)"

definition py_startswith :: "string \<Rightarrow> string \<Rightarrow> bool" where
  "py_startswith s p = (take (length p) s = p)"

definition py_endswith :: "string \<Rightarrow> string \<Rightarrow> bool" where
  "py_endswith s p = py_startswith (rev s) (rev p)"

fun py_contains :: "string \<Rightarrow> string \<Rightarrow> bool" where
  "py_contains sub [] = (sub = [])"
| "py_contains sub (c # cs) = (py_startswith (c # cs) sub \<or> py_contains sub cs)"

text \<open>\<open>sep.join(xs)\<close>.\<close>

fun py_join :: "'a list \<Rightarrow> 'a list list \<Rightarrow> 'a list" where
  "py_join sep [] = []"
| "py_join sep [x] = x"
| "py_join sep (x # y # ys) = x @ sep @ py_join sep (y # ys)"

text \<open>\<open>s.split(sep)\<close> for a non-empty separator: scan from the left, \<open>cur\<close> is the piece
  being read, reversed. (Python raises for an empty separator; no caller passes one.)\<close>

function py_split_from :: "string \<Rightarrow> string \<Rightarrow> string \<Rightarrow> string list" where
  "py_split_from sep cur [] = [rev cur]"
| "py_split_from sep cur (c # cs) =
     (if sep \<noteq> [] \<and> py_startswith (c # cs) sep
      then rev cur # py_split_from sep [] (drop (length sep) (c # cs))
      else py_split_from sep (c # cur) cs)"
  by pat_completeness auto
termination
  by (relation "measure (\<lambda>(sep, cur, s). length s)") (auto simp: neq_Nil_conv)

definition py_split :: "string \<Rightarrow> string \<Rightarrow> string list" where
  "py_split s sep = py_split_from sep [] s"

text \<open>\<open>s.split()\<close>: the maximal runs of non-space characters.\<close>

function py_split_ws :: "string \<Rightarrow> string list" where
  "py_split_ws s =
     (case py_lstrip s of [] \<Rightarrow> []
      | c # cs \<Rightarrow> takeWhile (\<lambda>x. \<not> char_isspace x) (c # cs)
                  # py_split_ws (dropWhile (\<lambda>x. \<not> char_isspace x) (c # cs)))"
  by pat_completeness auto
lemma length_py_lstrip_le: "length (py_lstrip s) \<le> length s"
  by (simp add: py_lstrip_def length_dropWhile_le)

lemma py_lstrip_head: "py_lstrip s = c # cs \<Longrightarrow> \<not> char_isspace c"
  by (metis py_lstrip_def hd_dropWhile list.distinct(1) list.sel(1))

termination py_split_ws
proof (relation "measure length", goal_cases)
  case 1
  show ?case by simp
next
  case (2 s c cs)
  from 2 have "\<not> char_isspace c" by (rule py_lstrip_head)
  then have "length (dropWhile (\<lambda>x. \<not> char_isspace x) (c # cs)) \<le> length cs"
    by (simp add: length_dropWhile_le)
  also have "\<dots> < length (py_lstrip s)" using 2 by simp
  also have "\<dots> \<le> length s" by (rule length_py_lstrip_le)
  finally show ?case by simp
qed

declare py_split_ws.simps [simp del]

text \<open>\<open>s.partition(c)\<close> for a one-character separator: what is before it, whether it occurs,
  what is after its first occurrence.\<close>

definition py_partition :: "char \<Rightarrow> string \<Rightarrow> string \<times> bool \<times> string" where
  "py_partition c s = (takeWhile (\<lambda>x. x \<noteq> c) s, c \<in> set s, drop 1 (dropWhile (\<lambda>x. x \<noteq> c) s))"

section \<open>Numbers as text\<close>

definition digit_char :: "nat \<Rightarrow> char" where
  "digit_char d = char_of (48 + d)"

fun nat_str :: "nat \<Rightarrow> string" where
  "nat_str n = (if n < 10 then [digit_char n] else nat_str (n div 10) @ [digit_char (n mod 10)])"

declare nat_str.simps [simp del]

text \<open>\<open>int(s)\<close> on a string without sign: only the decimal digits 0 to 9 are accepted, and
  anything else (an empty string, a superscript digit) raises \<open>ValueError\<close>. Surrounding
  white space and signs are handled by the caller's \<open>py_int\<close>.\<close>

fun digits_value :: "nat \<Rightarrow> string \<Rightarrow> nat option" where
  "digits_value acc [] = Some acc"
| "digits_value acc (c # cs) =
     (if char_isdecimal c then digits_value (10 * acc + (cp c - 48)) cs else None)"

definition nat_of_str :: "string \<Rightarrow> nat option" where
  "nat_of_str s = (if s = [] then None else digits_value 0 s)"

definition int_str :: "int \<Rightarrow> string" where
  "int_str i = (if i < 0 then ''-'' @ nat_str (nat (- i)) else nat_str (nat i))"

lemma digits_value_append:
  "digits_value a (s @ t) = (case digits_value a s of None \<Rightarrow> None | Some v \<Rightarrow> digits_value v t)"
  by (induction s arbitrary: a) auto

lemma digit_char_decimal: "d < 10 \<Longrightarrow> char_isdecimal (digit_char d) \<and> cp (digit_char d) - 48 = d"
  by (simp add: digit_char_def char_isdecimal_def Let_def)

lemma nat_str_nonempty [simp]: "nat_str n \<noteq> []"
  by (subst nat_str.simps) simp

text \<open>Reading back a printed number gives the number; so printing is injective.\<close>

lemma digits_value_nat_str: "digits_value 0 (nat_str n) = Some n"
proof (induction n rule: nat_str.induct)
  case (1 n)
  show ?case
  proof (cases "n < 10")
    case True
    then show ?thesis by (subst nat_str.simps) (simp add: digit_char_decimal)
  next
    case False
    then have "digits_value 0 (nat_str (n div 10)) = Some (n div 10)" by (rule 1)
    with False show ?thesis
      by (subst nat_str.simps) (simp add: digits_value_append digit_char_decimal)
  qed
qed

lemma nat_of_str_nat_str [simp]: "nat_of_str (nat_str n) = Some n"
  by (simp add: nat_of_str_def digits_value_nat_str)

lemma nat_str_inject [simp]: "nat_str m = nat_str n \<longleftrightarrow> m = n"
  by (metis nat_of_str_nat_str option.inject)

text \<open>\<open>a or b\<close> on strings, and \<open>s[-n:]\<close> for a positive \<open>n\<close>.\<close>

text \<open>\<open>f"{n:06d}"\<close> is \<open>pad_zeros 6 (nat_str n)\<close>.\<close>

definition pad_zeros :: "nat \<Rightarrow> string \<Rightarrow> string" where
  "pad_zeros k s = replicate (k - length s) (CHR ''0'') @ s"

definition or_str :: "string \<Rightarrow> string \<Rightarrow> string" where
  "or_str a b = (if a \<noteq> [] then a else b)"

definition py_tail :: "nat \<Rightarrow> 'a list \<Rightarrow> 'a list" where
  "py_tail n s = drop (length s - n) s"

section \<open>Lists and dictionaries\<close>

text \<open>\<open>list(dict.fromkeys(xs))\<close>: each element at its first position.\<close>

fun py_unique :: "'a list \<Rightarrow> 'a list" where
  "py_unique [] = []"
| "py_unique (x # xs) = x # removeAll x (py_unique xs)"

definition dict_get :: "('k \<times> 'v) list \<Rightarrow> 'k \<Rightarrow> 'v \<Rightarrow> 'v" where
  "dict_get d k v = (case map_of d k of None \<Rightarrow> v | Some w \<Rightarrow> w)"

abbreviation dict_set :: "'k \<Rightarrow> 'v \<Rightarrow> ('k \<times> 'v) list \<Rightarrow> ('k \<times> 'v) list" where
  "dict_set \<equiv> AList.update"

abbreviation dict_pop :: "'k \<Rightarrow> ('k \<times> 'v) list \<Rightarrow> ('k \<times> 'v) list" where
  "dict_pop \<equiv> AList.delete"

lemma set_py_unique [simp]: "set (py_unique xs) = set xs"
  by (induction xs) auto

lemma distinct_py_unique [simp]: "distinct (py_unique xs)"
  by (induction xs) (auto simp: distinct_removeAll)

lemma py_unique_id: "distinct xs \<Longrightarrow> py_unique xs = xs"
  by (induction xs) auto

lemma py_unique_empty_iff [simp]: "py_unique xs = [] \<longleftrightarrow> xs = []"
  by (cases xs) auto

lemma sort_Nil_iff [simp]: "sort xs = [] \<longleftrightarrow> xs = []"
  by (metis length_0_conv length_sort)

lemma count_list_distinct: "distinct xs \<Longrightarrow> count_list xs x \<le> 1"
  by (induction xs) auto

lemma concat_map_Nil: "concat (map f xs) = [] \<longleftrightarrow> (\<forall>x\<in>set xs. f x = [])"
  by simp

section \<open>Lemmas on strings\<close>

lemma py_startswith_append [simp]: "py_startswith (p @ s) p"
  by (simp add: py_startswith_def)

lemma py_startswith_iff: "py_startswith s p \<longleftrightarrow> (\<exists>r. s = p @ r)"
  by (metis append_take_drop_id py_startswith_append py_startswith_def)

lemma py_endswith_iff: "py_endswith s p \<longleftrightarrow> (\<exists>r. s = r @ p)"
  unfolding py_endswith_def py_startswith_iff
  by (metis rev_append rev_rev_ident)

lemma py_split_from_nonempty [simp]: "py_split_from sep cur s \<noteq> []"
  by (induction sep cur s rule: py_split_from.induct) auto

lemma py_split_nonempty [simp]: "py_split s sep \<noteq> []"
  by (simp add: py_split_def)

lemma py_join_Cons: "ys \<noteq> [] \<Longrightarrow> py_join sep (x # ys) = x @ sep @ py_join sep ys"
  by (cases ys) auto

lemma py_join_split_from: "py_join sep (py_split_from sep cur s) = rev cur @ s"
proof (induction sep cur s rule: py_split_from.induct)
  case (1 sep cur)
  show ?case by simp
next
  case (2 sep cur c cs)
  show ?case
  proof (cases "sep \<noteq> [] \<and> py_startswith (c # cs) sep")
    case True
    then have "c # cs = sep @ drop (length sep) (c # cs)"
      by (metis append_take_drop_id py_startswith_def)
    with True 2(1) show ?thesis by (simp add: py_join_Cons)
  next
    case False
    with 2(2) show ?thesis by auto
  qed
qed

text \<open>Joining the pieces of a split with the separator gives the text back.\<close>

lemma py_join_split: "py_join sep (py_split s sep) = s"
  by (simp add: py_split_def py_join_split_from)

section \<open>Worklist search\<close>

text \<open>
  The loops of \<open>validate.ancestors\<close> (a queue) and of \<open>affected.TestImports.reached\<close> (a stack)
  are one search over an adjacency dictionary that differs only in where new work goes. The
  worklist's head is the element popped next.
\<close>

datatype worklist_order = FIFO | LIFO

fun extend_work :: "worklist_order \<Rightarrow> 'a list \<Rightarrow> 'a list \<Rightarrow> 'a list" where
  "extend_work FIFO work xs = work @ xs"
| "extend_work LIFO work xs = rev xs @ work"

lemma set_extend_work [simp]: "set (extend_work ord work xs) = set work \<union> set xs"
  by (cases ord) auto

lemma length_extend_work [simp]: "length (extend_work ord work xs) = length work + length xs"
  by (cases ord) auto

abbreviation adj_of :: "('a \<times> 'a list) list \<Rightarrow> 'a \<Rightarrow> 'a list" where
  "adj_of adj x \<equiv> dict_get adj x []"

lemma adj_of_notin [simp]: "x \<notin> fst ` set adj \<Longrightarrow> adj_of adj x = []"
  by (simp add: dict_get_def map_of_eq_None_iff [THEN iffD2])

function search_loop ::
  "worklist_order \<Rightarrow> ('a \<times> 'a list) list \<Rightarrow> 'a list \<Rightarrow> 'a list \<Rightarrow> 'a list" where
  "search_loop ord adj [] seen = seen"
| "search_loop ord adj (x # work) seen =
     (if x \<in> set seen then search_loop ord adj work seen
      else search_loop ord adj (extend_work ord work (adj_of adj x)) (seen @ [x]))"
  by pat_completeness auto

lemma search_loop_measure:
  "x \<notin> set seen \<Longrightarrow>
   card (fst ` set adj - insert x (set seen)) < card (fst ` set adj - set seen)
   \<or> card (fst ` set adj - insert x (set seen)) = card (fst ` set adj - set seen)
     \<and> adj_of adj x = []"
proof (cases "x \<in> fst ` set adj")
  case True
  assume "x \<notin> set seen"
  with True have "fst ` set adj - insert x (set seen) \<subset> fst ` set adj - set seen" by blast
  then show ?thesis by (simp add: psubset_card_mono)
next
  case False
  then show ?thesis by (simp add: Diff_insert0)
qed

termination search_loop
proof (relation "measures [\<lambda>(ord, adj, work, seen). card (fst ` set adj - set seen),
    \<lambda>(ord, adj, work, seen). length work]", goal_cases)
  case 1
  show ?case by simp
next
  case (2 ord adj x work seen)
  then show ?case by simp
next
  case (3 ord adj x work seen)
  from search_loop_measure[OF 3, of adj] show ?case by auto
qed

text \<open>The relation an adjacency dictionary denotes.\<close>

definition adj_rel :: "('a \<times> 'a list) list \<Rightarrow> ('a \<times> 'a) set" where
  "adj_rel adj = {(x, y). y \<in> set (adj_of adj x)}"

lemma search_loop_mono: "set seen \<subseteq> set (search_loop ord adj work seen)"
  by (induction ord adj work seen rule: search_loop.induct) auto

lemma search_loop_sound:
  "set (search_loop ord adj work seen) \<subseteq> set seen \<union> (adj_rel adj)\<^sup>* `` set work"
proof (induction ord adj work seen rule: search_loop.induct)
  case (1 ord adj seen)
  show ?case by simp
next
  case (2 ord adj x work seen)
  show ?case
  proof (cases "x \<in> set seen")
    case True
    with 2(1) show ?thesis by auto
  next
    case False
    have "(adj_rel adj)\<^sup>* `` set (adj_of adj x) \<subseteq> (adj_rel adj)\<^sup>* `` {x}"
      by (auto simp: adj_rel_def intro: converse_rtrancl_into_rtrancl)
    with 2(2)[OF False] False show ?thesis by auto
  qed
qed

lemma search_loop_work: "set work \<subseteq> set (search_loop ord adj work seen)"
proof (induction ord adj work seen rule: search_loop.induct)
  case (1 ord adj seen)
  show ?case by simp
next
  case (2 ord adj x work seen)
  show ?case
  proof (cases "x \<in> set seen")
    case True
    then have "x \<in> set (search_loop ord adj work seen)"
      using search_loop_mono by fastforce
    with True 2(1) show ?thesis by simp
  next
    case False
    let ?work = "extend_work ord work (adj_of adj x)"
    have "set (seen @ [x]) \<subseteq> set (search_loop ord adj ?work (seen @ [x]))"
      by (rule search_loop_mono)
    with False 2(2)[OF False] show ?thesis by auto
  qed
qed

lemma search_loop_closed:
  "adj_rel adj `` set seen \<subseteq> set seen \<union> set work \<Longrightarrow>
   adj_rel adj `` set (search_loop ord adj work seen) \<subseteq> set (search_loop ord adj work seen)"
proof (induction ord adj work seen rule: search_loop.induct)
  case (1 ord adj seen)
  then show ?case by simp
next
  case (2 ord adj x work seen)
  show ?case
  proof (cases "x \<in> set seen")
    case True
    with 2(1) 2(3) show ?thesis by auto
  next
    case False
    have "adj_rel adj `` set (seen @ [x])
        \<subseteq> set (seen @ [x]) \<union> set (extend_work ord work (adj_of adj x))"
      using 2(3) by (auto simp: adj_rel_def)
    from 2(2)[OF False this] False show ?thesis by simp
  qed
qed

lemma rtrancl_Image_closed: "r `` X \<subseteq> X \<Longrightarrow> r\<^sup>* `` X = X"
proof
  assume closed: "r `` X \<subseteq> X"
  have "y \<in> X" if "(x, y) \<in> r\<^sup>*" "x \<in> X" for x y
    using that by (induction rule: rtrancl_induct) (use closed in auto)
  then show "r\<^sup>* `` X \<subseteq> X" by blast
qed auto

text \<open>A search from nothing seen finds exactly what the worklist reaches.\<close>

theorem search_loop_reach [reach_simps]:
  "set (search_loop ord adj work []) = (adj_rel adj)\<^sup>* `` set work"
proof
  show "set (search_loop ord adj work []) \<subseteq> (adj_rel adj)\<^sup>* `` set work"
    using search_loop_sound[of ord adj work "[]"] by simp
next
  let ?R = "set (search_loop ord adj work [])"
  have "adj_rel adj `` ?R \<subseteq> ?R"
    by (rule search_loop_closed) simp
  then have "(adj_rel adj)\<^sup>* `` ?R = ?R"
    by (rule rtrancl_Image_closed)
  then show "(adj_rel adj)\<^sup>* `` set work \<subseteq> ?R"
    using search_loop_work[of work ord adj "[]"] by blast
qed

lemma search_loop_distinct: "distinct seen \<Longrightarrow> distinct (search_loop ord adj work seen)"
  by (induction ord adj work seen rule: search_loop.induct) auto

end
