(* ===== verification/Schema.thy ===== *)
theory Schema
  imports Prelude
begin

text \<open>
  The task graph data model of \<open>taskgraph/schema.py\<close>: paths, symbols and their validators, and
  the graph's classes as records. Pydantic's parsing of JSON is outside the repository; what the
  classes add to it (the field validators, the model validators, the pattern, the bounds) is
  modelled as the functions and the \<open>..._valid\<close> predicates below. A \<open>ValueError\<close> is its
  message, an \<open>Inl\<close>.
\<close>

section \<open>Text of error messages\<close>

text \<open>\<open>repr(s)\<close> of a string: single quotes unless the text holds a single quote and no double
  quote; backslash, the quote, tab, newline and return are escaped, other unprintable
  characters are written in hexadecimal.\<close>

definition hex_char :: "nat \<Rightarrow> char" where
  "hex_char d = (if d < 10 then char_of (48 + d) else char_of (87 + d))"

definition char_printable :: "char \<Rightarrow> bool" where
  "char_printable c = (let n = cp c in (32 \<le> n \<and> n \<le> 126) \<or> (161 \<le> n \<and> n \<noteq> 173))"

definition repr_char :: "char \<Rightarrow> char \<Rightarrow> string" where
  "repr_char q c = (let n = cp c in
     if c = q \<or> n = 92 then [char_of (92::nat), c]
     else if n = 9 then [char_of (92::nat), CHR ''t'']
     else if n = 10 then [char_of (92::nat), CHR ''n'']
     else if n = 13 then [char_of (92::nat), CHR ''r'']
     else if char_printable c then [c]
     else [char_of (92::nat), CHR ''x'', hex_char (n div 16), hex_char (n mod 16)])"

definition repr_str :: "string \<Rightarrow> string" where
  "repr_str s = (let q = (if char_of (39::nat) \<in> set s \<and> char_of (34::nat) \<notin> set s
                          then char_of (34::nat) else char_of (39::nat))
                 in q # concat (map (repr_char q) s) @ [q])"

section \<open>Paths\<close>

definition drive_prefix :: "string \<Rightarrow> bool" where
  "drive_prefix v = (case v of c # d # _ \<Rightarrow> d = CHR '':'' \<and>
      (let n = cp c in (65 \<le> n \<and> n \<le> 90) \<or> (97 \<le> n \<and> n \<le> 122)) | _ \<Rightarrow> False)"

fun check_segments :: "string \<Rightarrow> string list \<Rightarrow> string + string" where
  "check_segments value [] = Inr value"
| "check_segments value (part # parts) =
     (if part = [] \<or> part = ''.'' \<or> part = ''..''
      then Inl (''path must not contain empty, '' @ repr_str ''.'' @ '' or '' @ repr_str ''..''
                @ '' segments: '' @ repr_str value)
      else if part \<noteq> py_strip part
      then Inl (''path segments must not start or end with whitespace: '' @ repr_str value)
      else check_segments value parts)"

definition validate_repo_path :: "string \<Rightarrow> string + string" where
  "validate_repo_path value =
     (if value = [] then Inl ''path must not be empty''
      else if char_of (92::nat) \<in> set value
      then Inl (''path must use '' @ repr_str ''/'' @ '' separators: '' @ repr_str value)
      else if py_startswith value ''/'' \<or> drive_prefix value
      then Inl (''path must be relative to the repository root: '' @ repr_str value)
      else if list_ex (\<lambda>c. cp c < 32 \<or> cp c = 127) value
      then Inl (''path must not contain control characters: '' @ repr_str value)
      else check_segments value (py_split value ''/''))"

section \<open>Symbols\<close>

record symbol_ref =
  path :: string
  qualname :: string

definition symbol_parts :: "symbol_ref \<Rightarrow> string list" where
  "symbol_parts r = py_split (qualname r) ''.''"

definition symbol_str :: "symbol_ref \<Rightarrow> string" where
  "symbol_str r = path r @ ''::'' @ qualname r"

definition parse_symbol :: "string \<Rightarrow> string + symbol_ref" where
  "parse_symbol str =
     (case py_split str ''::'' of
        [p, q] \<Rightarrow>
          (case validate_repo_path p of
             Inl e \<Rightarrow> Inl (''invalid file path in symbol '' @ repr_str str @ '': '' @ e)
           | Inr _ \<Rightarrow>
               if \<not> py_endswith p ''.py'' then Inl (''symbol file must be a .py file: '' @ repr_str str)
               else if \<not> list_all py_isidentifier (py_split q ''.'')
               then Inl (''qualified name must be dot-separated Python identifiers: '' @ repr_str str)
               else Inr \<lparr>path = p, qualname = q\<rparr>)
      | _ \<Rightarrow> Inl (''symbol must contain exactly one '' @ repr_str ''::'' @ '': '' @ repr_str str))"

definition validate_symbol :: "string \<Rightarrow> string + string" where
  "validate_symbol str = (case parse_symbol str of Inl e \<Rightarrow> Inl e | Inr _ \<Rightarrow> Inr str)"

section \<open>Context references\<close>

definition split_context_ref :: "string \<Rightarrow> string + (string \<times> string option)" where
  "split_context_ref value =
     (case py_partition (CHR ''#'') value of (p, found, title) \<Rightarrow>
       (case validate_repo_path p of Inl e \<Rightarrow> Inl e | Inr _ \<Rightarrow>
         if found \<and> \<not> (py_endswith (py_lower p) ''.md'' \<or> py_endswith (py_lower p) ''.markdown'')
         then Inl ''heading references require a Markdown file''
         else if found \<and> (title = [] \<or> title \<noteq> py_strip title \<or> list_ex (\<lambda>c. cp c < 32) title)
         then Inl ''context heading must be non-empty without surrounding whitespace''
         else Inr (p, if found then Some title else None)))"

definition validate_context_ref :: "string \<Rightarrow> string + string" where
  "validate_context_ref value = (case split_context_ref value of Inl e \<Rightarrow> Inl e | Inr _ \<Rightarrow> Inr value)"

section \<open>Lists without duplicates\<close>

definition reject_duplicates :: "string list \<Rightarrow> string \<Rightarrow> string + string list" where
  "reject_duplicates vals kind =
     (let duplicates = sort (py_unique (filter (\<lambda>v. 1 < count_list vals v) vals))
      in if duplicates \<noteq> [] then Inl (''duplicate '' @ kind @ '': '' @ py_join '', '' duplicates)
         else Inr vals)"

definition reject_duplicate_paths :: "string list \<Rightarrow> string + string list" where
  "reject_duplicate_paths paths = reject_duplicates paths ''paths''"

definition reject_duplicate_symbols :: "string list \<Rightarrow> string + string list" where
  "reject_duplicate_symbols symbols = reject_duplicates symbols ''symbols''"

section \<open>The classes of a graph\<close>

datatype generator_kind = Manual_gen | Planner_gen
datatype revision_mode = Rev_llm | Rev_rule_assisted | Rev_none

record generator =
  gen_kind :: generator_kind
  planner_version :: "string option"
  gen_model :: "string option"
  revision_mode :: "revision_mode option"
  ablate :: "string list option"

datatype revision_action =
  Act_merge | Act_split | Act_add_edge | Act_remove_edge | Act_add_node | Act_other

record revision_entry =
  rev_action :: revision_action
  rev_nodes :: "string list"
  rev_into :: "string option"
  rev_reason :: string

record edit_set =
  any_file :: bool
  modify :: "string list"
  create :: "string list"
  es_symbols :: "string list"
  shared :: "string list"

record check =
  commands :: "string list"
  timeout_s :: int
  post_merge_commands :: "string list option"

datatype node_kind = Contract | Implement
datatype node_size = Small | Medium | Large

record node =
  node_id :: string
  title :: string
  kind :: node_kind
  goal :: string
  node_edit_set :: edit_set
  requires :: "string list"
  requires_impl :: "string list"
  provides :: "string list"
  node_check :: check
  context_files :: "string list"
  node_size :: "node_size option"
  run_after_failed_upstream :: bool

datatype edge_type = Interface | Full | Order
datatype edge_source = From_manual | From_llm | From_derived

record edge =
  e_from :: string
  e_to :: string
  edge_type :: edge_type
  edge_source :: edge_source
  edge_reason :: string

record graph =
  request_id :: string
  request :: string
  repo :: string
  base_commit :: string
  final_checks :: "string list"
  generator :: generator
  nodes :: "node list"
  edges :: "edge list"
  revision_log :: "revision_entry list"

section \<open>What the classes accept\<close>

definition unique_paths_valid :: "string list \<Rightarrow> bool" where
  "unique_paths_valid ps =
     (list_all (\<lambda>p. isr (validate_repo_path p)) ps \<and> isr (reject_duplicate_paths ps))"

definition unique_symbols_valid :: "string list \<Rightarrow> bool" where
  "unique_symbols_valid ss =
     (list_all (\<lambda>s. isr (validate_symbol s)) ss \<and> isr (reject_duplicate_symbols ss))"

definition modify_and_create_disjoint :: "edit_set \<Rightarrow> string + edit_set" where
  "modify_and_create_disjoint es =
     (let both = sort (py_unique (filter (\<lambda>p. p \<in> set (create es)) (modify es)))
      in if both \<noteq> [] then Inl (''paths listed in both modify and create: '' @ py_join '', '' both)
         else Inr es)"

definition edit_set_valid :: "edit_set \<Rightarrow> bool" where
  "edit_set_valid es =
     (unique_paths_valid (modify es) \<and> unique_paths_valid (create es)
      \<and> unique_symbols_valid (es_symbols es) \<and> unique_paths_valid (shared es)
      \<and> isr (modify_and_create_disjoint es))"

definition check_valid :: "check \<Rightarrow> bool" where
  "check_valid c = (0 < timeout_s c)"

definition node_id_valid :: "string \<Rightarrow> bool" where
  "node_id_valid i = (i \<noteq> [] \<and> list_all (\<lambda>c. let n = cp c in
     (65 \<le> n \<and> n \<le> 90) \<or> (97 \<le> n \<and> n \<le> 122) \<or> (48 \<le> n \<and> n \<le> 57) \<or> c = CHR ''_'' \<or> c = CHR ''-'') i)"

definition goal_not_blank :: "string \<Rightarrow> string + string" where
  "goal_not_blank value = (if py_strip value = [] then Inl ''goal must not be empty'' else Inr value)"

definition requires_and_requires_impl_disjoint :: "node \<Rightarrow> string + node" where
  "requires_and_requires_impl_disjoint n =
     (let both = sort (py_unique (filter (\<lambda>s. s \<in> set (requires_impl n)) (requires n)))
      in if both \<noteq> []
         then Inl (''symbols listed in both requires and requires_impl: '' @ py_join '', '' both)
         else Inr n)"

definition node_valid :: "node \<Rightarrow> bool" where
  "node_valid n =
     (node_id_valid (node_id n) \<and> isr (goal_not_blank (goal n)) \<and> edit_set_valid (node_edit_set n)
      \<and> unique_symbols_valid (requires n) \<and> unique_symbols_valid (requires_impl n)
      \<and> unique_symbols_valid (provides n) \<and> check_valid (node_check n)
      \<and> list_all (\<lambda>r. isr (validate_context_ref r)) (context_files n)
      \<and> isr (reject_duplicate_paths (context_files n))
      \<and> isr (requires_and_requires_impl_disjoint n))"

definition graph_valid :: "graph \<Rightarrow> bool" where
  "graph_valid g = (nodes g \<noteq> [] \<and> list_all node_valid (nodes g))"

section \<open>Lemmas\<close>

lemma reject_duplicates_isr [simp]: "isr (reject_duplicates vals k) \<longleftrightarrow> distinct vals"
proof -
  have "(filter (\<lambda>v. 1 < count_list vals v) vals = []) = (\<forall>v\<in>set vals. count_list vals v \<le> 1)"
    by (auto simp: filter_empty_conv not_less)
  also have "\<dots> = distinct vals"
  proof
    assume le: "\<forall>v\<in>set vals. count_list vals v \<le> 1"
    show "distinct vals"
    proof (rule ccontr)
      assume "\<not> distinct vals"
      then obtain xs ys zs y where "vals = xs @ [y] @ ys @ [y] @ zs"
        using not_distinct_decomp by blast
      then have "2 \<le> count_list vals y" "y \<in> set vals" by auto
      with le show False by force
    qed
  next
    assume "distinct vals"
    then show "\<forall>v\<in>set vals. count_list vals v \<le> 1"
      using count_list_distinct[of vals] by blast
  qed
  finally show ?thesis by (auto simp: reject_duplicates_def Let_def)
qed

lemma modify_and_create_disjoint_isr [simp]:
  "isr (modify_and_create_disjoint es) \<longleftrightarrow> set (modify es) \<inter> set (create es) = {}"
  by (auto simp: modify_and_create_disjoint_def Let_def filter_empty_conv)

lemma requires_disjoint_isr [simp]:
  "isr (requires_and_requires_impl_disjoint n) \<longleftrightarrow> set (requires n) \<inter> set (requires_impl n) = {}"
  by (auto simp: requires_and_requires_impl_disjoint_def Let_def filter_empty_conv)

lemma check_segments_Inr:
  "check_segments v parts = Inr w \<longleftrightarrow>
   w = v \<and> (\<forall>p\<in>set parts. p \<notin> {[], ''.'', ''..''} \<and> p = py_strip p)"
  by (induction parts) auto

lemma validate_repo_path_Inr:
  "validate_repo_path v = Inr w \<longleftrightarrow>
   w = v \<and> v \<noteq> [] \<and> char_of (92::nat) \<notin> set v \<and> \<not> py_startswith v ''/'' \<and> \<not> drive_prefix v
   \<and> (\<forall>c\<in>set v. 32 \<le> cp c \<and> cp c \<noteq> 127)
   \<and> (\<forall>p\<in>set (py_split v ''/''). p \<notin> {[], ''.'', ''..''} \<and> p = py_strip p)"
  by (auto simp: validate_repo_path_def check_segments_Inr list_ex_iff not_less Ball_def Bex_def)

lemma parse_symbol_InrD:
  assumes "parse_symbol str = Inr r"
  shows "str = symbol_str r" "validate_repo_path (path r) = Inr (path r)"
    "py_endswith (path r) ''.py''" "list_all py_isidentifier (symbol_parts r)"
proof -
  from assms obtain p q where pq: "py_split str ''::'' = [p, q]"
    by (auto simp: parse_symbol_def split: list.splits)
  with assms have ok: "isr (validate_repo_path p)" "py_endswith p ''.py''"
    "list_all py_isidentifier (py_split q ''.'')" "r = \<lparr>path = p, qualname = q\<rparr>"
    by (auto simp: parse_symbol_def split: sum.splits if_splits)
  have "str = p @ ''::'' @ q"
    using py_join_split[of "''::''" str] pq by simp
  with ok show "str = symbol_str r" "py_endswith (path r) ''.py''"
    "list_all py_isidentifier (symbol_parts r)"
    by (auto simp: symbol_str_def symbol_parts_def)
  from ok show "validate_repo_path (path r) = Inr (path r)"
    by (cases "validate_repo_path p") (auto simp: validate_repo_path_Inr)
qed

end
