(* ===== verification/Graph_Ops.thy ===== *)
theory Graph_Ops
  imports Schema
begin

text \<open>
  The graph helpers of \<open>taskgraph/validate.py\<close> that validation, edge derivation, revision and
  the coordinator share: the nodes and edges that count, direct successors, ancestors, the files
  a node edits, who implements a symbol, and the cycles of a graph.

  The main fact is that \<open>ancestors\<close> computes reachability along the usable edges. Clients use
  it through the locale \<open>ancestry\<close>.
\<close>

section \<open>Nodes and edges\<close>

fun unique_nodes_from :: "string set \<Rightarrow> node list \<Rightarrow> node list" where
  "unique_nodes_from seen [] = []"
| "unique_nodes_from seen (n # ns) =
     (if node_id n \<notin> seen then n # unique_nodes_from (insert (node_id n) seen) ns
      else unique_nodes_from seen ns)"

definition unique_nodes :: "graph \<Rightarrow> node list" where
  "unique_nodes g = unique_nodes_from {} (nodes g)"

definition node_ids :: "graph \<Rightarrow> string list" where
  "node_ids g = map node_id (nodes g)"

definition usable_edges :: "graph \<Rightarrow> edge list" where
  "usable_edges g =
     (let ids = set (node_ids g)
      in filter (\<lambda>e. e_from e \<in> ids \<and> e_to e \<in> ids \<and> e_from e \<noteq> e_to e) (edges g))"

text \<open>\<open>{node.id: [] for node in graph.nodes}\<close>\<close>

definition empty_adj :: "graph \<Rightarrow> string list dict" where
  "empty_adj g = map (\<lambda>i. (i, [])) (py_unique (node_ids g))"

definition add_to_adj :: "string \<Rightarrow> string \<Rightarrow> string list dict \<Rightarrow> string list dict" where
  "add_to_adj k v d = (let vs = dict_get d k [] in if v \<in> set vs then d else dict_set k (vs @ [v]) d)"

definition successors :: "graph \<Rightarrow> string list dict" where
  "successors g = fold (\<lambda>e. add_to_adj (e_from e) (e_to e)) (usable_edges g) (empty_adj g)"

definition predecessors :: "graph \<Rightarrow> string list dict" where
  "predecessors g = fold (\<lambda>e. add_to_adj (e_to e) (e_from e)) (usable_edges g) (empty_adj g)"

definition ancestors :: "graph \<Rightarrow> string list dict" where
  "ancestors g = (let preds = predecessors g
     in map (\<lambda>(i, ps). (i, search_loop FIFO preds ps [])) preds)"

text \<open>\<open>ancestors(graph)[node_id]\<close>; every id the code looks up is a key (\<open>dom_ancestors\<close>).\<close>

definition anc :: "graph \<Rightarrow> string \<Rightarrow> string set" where
  "anc g i = set (dict_get (ancestors g) i [])"

definition by_id :: "graph \<Rightarrow> node dict" where
  "by_id g = map (\<lambda>n. (node_id n, n)) (unique_nodes g)"

section \<open>Files and symbols of a node\<close>

definition edit_files :: "node \<Rightarrow> string set" where
  "edit_files n = set (modify (node_edit_set n)) \<union> set (create (node_edit_set n))"

definition conflicting_files :: "node \<Rightarrow> node \<Rightarrow> string set" where
  "conflicting_files a b =
     (edit_files a \<inter> edit_files b) - (set (shared (node_edit_set a)) \<inter> set (shared (node_edit_set b)))"

definition changes_symbol :: "node \<Rightarrow> string \<Rightarrow> bool" where
  "changes_symbol n s = (s \<in> set (provides n) \<or> s \<in> set (es_symbols (node_edit_set n)))"

definition implementers :: "node list \<Rightarrow> string \<Rightarrow> string \<Rightarrow> node list" where
  "implementers ns s exclude =
     filter (\<lambda>n. node_id n \<noteq> exclude \<and> kind n = Implement \<and> changes_symbol n s) ns"

definition declarers :: "node list \<Rightarrow> string \<Rightarrow> string \<Rightarrow> node list" where
  "declarers ns s exclude =
     filter (\<lambda>n. node_id n \<noteq> exclude \<and> kind n = Contract \<and> s \<in> set (provides n)) ns"

definition modifiers :: "node list \<Rightarrow> string \<Rightarrow> string \<Rightarrow> node list" where
  "modifiers ns s exclude = filter (\<lambda>n. node_id n \<noteq> exclude \<and> changes_symbol n s) ns"

section \<open>Cycles\<close>

text \<open>The inner \<open>for nxt in adjacency[current]\<close> of \<open>_cycle_path\<close>: \<open>Inl parents\<close> when
  \<open>start\<close> is reached (the function then returns), else the extended parents and queue.\<close>

fun cycle_scan :: "string \<Rightarrow> string list \<Rightarrow> string \<Rightarrow> string list \<Rightarrow> string dict \<Rightarrow> string list \<Rightarrow>
    string dict + (string dict \<times> string list)" where
  "cycle_scan start component current [] parents queue = Inr (parents, queue)"
| "cycle_scan start component current (nxt # rest) parents queue =
     (if nxt \<notin> set component then cycle_scan start component current rest parents queue
      else if nxt = start then Inl parents
      else if nxt \<notin> fst ` set parents
      then cycle_scan start component current rest (dict_set nxt current parents) (queue @ [nxt])
      else cycle_scan start component current rest parents queue)"

text \<open>\<open>while path[-1] != start: path.append(parents[path[-1]])\<close>. Each parent was entered into
  the dictionary before its child, so as many steps as there are entries are enough
  (\<open>trace_back_Some\<close>); running out of fuel or a missing key is \<open>None\<close>.\<close>

fun trace_back :: "nat \<Rightarrow> string \<Rightarrow> string dict \<Rightarrow> string \<Rightarrow> string list option" where
  "trace_back 0 start parents current = (if current = start then Some [current] else None)"
| "trace_back (Suc fuel) start parents current =
     (if current = start then Some [current]
      else case map_of parents current of
             None \<Rightarrow> None
           | Some p \<Rightarrow> map_option ((#) current) (trace_back fuel start parents p))"

lemma keys_dict_set [simp]: "fst ` set (dict_set k v d) = insert k (fst ` set d)"
  by (simp add: AList.dom_update)

lemma cycle_scan_decreases:
  "cycle_scan start component current nexts parents queue = Inr (parents', queue') \<Longrightarrow>
   length queue' + card (set component - fst ` set parents')
   \<le> length queue + card (set component - fst ` set parents)"
proof (induction start component current nexts parents queue rule: cycle_scan.induct)
  case (1 start component current parents queue)
  then show ?case by simp
next
  case (2 start component current nxt rest parents queue)
  show ?case
  proof (cases "nxt \<in> set component \<and> nxt \<noteq> start \<and> nxt \<notin> fst ` set parents")
    case True
    then have "card (set component - insert nxt (fst ` set parents))
        < card (set component - fst ` set parents)"
      by (intro psubset_card_mono) auto
    with 2 True show ?thesis by fastforce
  next
    case False
    with 2 show ?thesis by (auto split: if_splits)
  qed
qed

text \<open>The \<open>while queue\<close> loop; the first equation is the fall-through \<open>return [start]\<close>.\<close>

function cycle_bfs :: "string \<Rightarrow> string list \<Rightarrow> string list dict \<Rightarrow> string dict \<Rightarrow> string list \<Rightarrow>
    string list option" where
  "cycle_bfs start component adjacency parents [] = Some [start]"
| "cycle_bfs start component adjacency parents (current # queue) =
     (case cycle_scan start component current (adj_of adjacency current) parents queue of
        Inl parents' \<Rightarrow> map_option rev (trace_back (length parents') start parents' current)
      | Inr (parents', queue') \<Rightarrow> cycle_bfs start component adjacency parents' queue')"
  by pat_completeness auto
termination
proof (relation "measure (\<lambda>(start, component, adjacency, parents, queue).
    length queue + card (set component - fst ` set parents))", goal_cases)
  case 1
  show ?case by simp
next
  case (2 start component adjacency parents current queue p parents' queue')
  then show ?case by (auto dest: cycle_scan_decreases)
qed

definition cycle_path :: "string \<Rightarrow> string list \<Rightarrow> string list dict \<Rightarrow> string list option" where
  "cycle_path start component adjacency = cycle_bfs start component adjacency [] [start]"

text \<open>The loop of \<open>_find_cycles\<close> over the ids in node order. The component of an id is the id and
  its ancestors that have it as an ancestor; its start is the member listed first.\<close>

definition scc_of :: "graph \<Rightarrow> string \<Rightarrow> string list" where
  "scc_of g i = i # filter (\<lambda>j. i \<in> anc g j) (dict_get (ancestors g) i [])"

fun find_cycles_loop :: "graph \<Rightarrow> string list \<Rightarrow> string set \<Rightarrow> string list \<Rightarrow> string list list" where
  "find_cycles_loop g order assigned [] = []"
| "find_cycles_loop g order assigned (i # is) =
     (if i \<in> assigned \<or> i \<notin> anc g i then find_cycles_loop g order assigned is
      else let component = scc_of g i;
               start = hd (filter (\<lambda>j. j \<in> set component) order)
           in (case cycle_path start component (successors g) of None \<Rightarrow> [] | Some c \<Rightarrow> c)
              # find_cycles_loop g order (assigned \<union> set component) is)"

definition find_cycles :: "graph \<Rightarrow> string list list" where
  "find_cycles g = (let order = map node_id (unique_nodes g) in find_cycles_loop g order {} order)"

section \<open>Reachability\<close>

definition edge_rel :: "graph \<Rightarrow> (string \<times> string) set" where
  "edge_rel g = (\<lambda>e. (e_from e, e_to e)) ` set (usable_edges g)"

lemma unique_nodes_from_ids:
  "node_id ` set (unique_nodes_from seen ns) = node_id ` set ns - seen"
  by (induction ns arbitrary: seen) auto

lemma unique_nodes_from_distinct: "distinct (map node_id (unique_nodes_from seen ns))"
  by (induction ns arbitrary: seen) (auto simp: unique_nodes_from_ids)

lemma unique_nodes_from_subset: "set (unique_nodes_from seen ns) \<subseteq> set ns"
  by (induction seen ns rule: unique_nodes_from.induct) auto

lemma unique_nodes_from_id:
  "distinct (map node_id ns) \<Longrightarrow> node_id ` set ns \<inter> seen = {} \<Longrightarrow> unique_nodes_from seen ns = ns"
  by (induction ns arbitrary: seen) auto

lemma unique_nodes_ids [simp]: "node_id ` set (unique_nodes g) = set (node_ids g)"
  by (simp add: unique_nodes_def unique_nodes_from_ids node_ids_def)

lemma distinct_unique_nodes: "distinct (map node_id (unique_nodes g))"
  by (simp add: unique_nodes_def unique_nodes_from_distinct)

lemma unique_nodes_subset: "set (unique_nodes g) \<subseteq> set (nodes g)"
  by (simp add: unique_nodes_def unique_nodes_from_subset)

lemma unique_nodes_id: "distinct (node_ids g) \<Longrightarrow> unique_nodes g = nodes g"
  by (simp add: unique_nodes_def unique_nodes_from_id node_ids_def)

lemma unique_nodes_inj: "a \<in> set (unique_nodes g) \<Longrightarrow> b \<in> set (unique_nodes g) \<Longrightarrow>
    node_id a = node_id b \<Longrightarrow> a = b"
  using distinct_unique_nodes[of g] by (auto simp: distinct_map inj_on_def)

lemma usable_edges_iff: "e \<in> set (usable_edges g) \<longleftrightarrow>
    e \<in> set (edges g) \<and> e_from e \<in> set (node_ids g) \<and> e_to e \<in> set (node_ids g) \<and> e_from e \<noteq> e_to e"
  by (simp add: usable_edges_def Let_def)

lemma edge_rel_ids: "edge_rel g \<subseteq> set (node_ids g) \<times> set (node_ids g)"
  by (auto simp: edge_rel_def usable_edges_iff)

lemma edge_rel_irrefl: "(x, x) \<notin> edge_rel g"
  by (auto simp: edge_rel_def usable_edges_iff)

lemma finite_edge_rel [simp]: "finite (edge_rel g)"
  by (simp add: edge_rel_def)

lemma dict_get_set: "dict_get (dict_set k v d) x w = (if x = k then v else dict_get d x w)"
  by (simp add: dict_get_def update_conv')

lemma adj_of_add_to_adj:
  "set (adj_of (add_to_adj k v d) x) = (if x = k then insert v (set (adj_of d x)) else set (adj_of d x))"
  by (auto simp: add_to_adj_def dict_get_set Let_def)

lemma adj_of_fold_add:
  "set (adj_of (fold (\<lambda>e. add_to_adj (f e) (t e)) es d) x) = set (adj_of d x) \<union> {t e |e. e \<in> set es \<and> f e = x}"
  by (induction es arbitrary: d) (auto simp: adj_of_add_to_adj)

lemma distinct_adj_of_fold_add:
  "distinct (adj_of d x) \<Longrightarrow> distinct (adj_of (fold (\<lambda>e. add_to_adj (f e) (t e)) es d) x)"
proof (induction es arbitrary: d)
  case (Cons e es)
  from Cons.prems have "distinct (adj_of (add_to_adj (f e) (t e) d) x)"
    by (auto simp: add_to_adj_def dict_get_set Let_def)
  with Cons show ?case by simp
qed simp

lemma keys_fold_add:
  "f ` set es \<subseteq> fst ` set d \<Longrightarrow> fst ` set (fold (\<lambda>e. add_to_adj (f e) (t e)) es d) = fst ` set d"
proof (induction es arbitrary: d)
  case (Cons e es)
  from Cons.prems have "fst ` set (add_to_adj (f e) (t e) d) = fst ` set d"
    by (auto simp: add_to_adj_def Let_def insert_absorb)
  with Cons show ?case by simp
qed simp

lemma adj_of_empty_adj [simp]: "adj_of (empty_adj g) x = []"
  by (auto simp: empty_adj_def dict_get_def split: option.splits dest!: map_of_SomeD)

lemma keys_empty_adj [simp]: "fst ` set (empty_adj g) = set (node_ids g)"
  by (force simp: empty_adj_def)

lemma keys_successors: "fst ` set (successors g) = set (node_ids g)"
  unfolding successors_def by (subst keys_fold_add) (auto simp: usable_edges_iff)

lemma keys_predecessors: "fst ` set (predecessors g) = set (node_ids g)"
  unfolding predecessors_def by (subst keys_fold_add) (auto simp: usable_edges_iff)

lemma adj_of_successors: "set (adj_of (successors g) x) = {y. (x, y) \<in> edge_rel g}"
  by (auto simp: successors_def adj_of_fold_add edge_rel_def)

lemma adj_of_predecessors: "set (adj_of (predecessors g) x) = {y. (y, x) \<in> edge_rel g}"
  by (auto simp: predecessors_def adj_of_fold_add edge_rel_def)

lemma distinct_successors: "distinct (adj_of (successors g) x)"
  by (simp add: successors_def distinct_adj_of_fold_add)

lemma adj_rel_predecessors: "adj_rel (predecessors g) = (edge_rel g)\<inverse>"
  by (auto simp: adj_rel_def adj_of_predecessors)

lemma keys_ancestors: "fst ` set (ancestors g) = set (node_ids g)"
  by (force simp: ancestors_def Let_def keys_predecessors[symmetric])

text \<open>\<open>ancestors(graph)[i]\<close> is the set of nodes with a path to \<open>i\<close> along the usable edges.\<close>

lemma anc_trancl [reach_simps]: "anc g i = {a. (a, i) \<in> (edge_rel g)\<^sup>+}"
proof (cases "map_of (predecessors g) i")
  case None
  then have "i \<notin> set (node_ids g)"
    by (simp add: map_of_eq_None_iff keys_predecessors)
  then have "(a, i) \<notin> (edge_rel g)\<^sup>+" for a
    using edge_rel_ids[of g] by (auto elim: tranclE)
  moreover have "anc g i = {}"
    using None by (auto simp: anc_def ancestors_def dict_get_def Let_def map_of_map)
  ultimately show ?thesis by auto
next
  case (Some ps)
  then have "anc g i = set (search_loop FIFO (predecessors g) (adj_of (predecessors g) i) [])"
    by (auto simp: anc_def ancestors_def dict_get_def Let_def map_of_map)
  also have "\<dots> = ((edge_rel g)\<inverse>)\<^sup>* `` {p. (p, i) \<in> edge_rel g}"
    by (simp only: search_loop_reach adj_rel_predecessors adj_of_predecessors)
  also have "\<dots> = {a. (a, i) \<in> (edge_rel g)\<^sup>+}"
    by (auto simp: rtrancl_converse intro: rtrancl_into_trancl1 dest: tranclD2)
  finally show ?thesis .
qed

text \<open>Every ancestor is the id of a node, so \<open>by_id[a]\<close> never raises.\<close>

lemma anc_ids: "anc g i \<subseteq> set (node_ids g)"
  using edge_rel_ids[of g] by (auto simp: anc_trancl dest: tranclD)

lemma map_of_by_id: "map_of (by_id g) i = Some n \<longleftrightarrow> n \<in> set (unique_nodes g) \<and> node_id n = i"
proof -
  have "distinct (map fst (by_id g))"
    by (simp add: by_id_def distinct_unique_nodes comp_def)
  then have "map_of (by_id g) i = Some n \<longleftrightarrow> (i, n) \<in> set (by_id g)" by simp
  then show ?thesis by (auto simp: by_id_def)
qed

lemma by_id_anc: "a \<in> anc g i \<Longrightarrow> \<exists>n. map_of (by_id g) a = Some n"
proof -
  assume "a \<in> anc g i"
  then have "a \<in> node_id ` set (unique_nodes g)" using anc_ids[of g i] by auto
  then obtain n where "n \<in> set (unique_nodes g)" "a = node_id n" by (rule imageE)
  then have "map_of (by_id g) a = Some n" by (simp add: map_of_by_id)
  then show ?thesis ..
qed

section \<open>The contract of ancestry\<close>

text \<open>
  What the clients of \<open>ancestors\<close> rely on: it is the strict reachability of a relation over the
  graph's nodes. Validation, derivation and revision use the consequences below.
\<close>

locale ancestry =
  fixes rel :: "'g \<Rightarrow> ('a \<times> 'a) set"
    and ancs :: "'g \<Rightarrow> 'a \<Rightarrow> 'a set"
  assumes ancs_reach: "ancs g i = {a. (a, i) \<in> (rel g)\<^sup>+}"
begin

lemma step_anc: "(a, b) \<in> rel g \<Longrightarrow> a \<in> ancs g b"
  by (auto simp: ancs_reach)

lemma anc_trans: "a \<in> ancs g b \<Longrightarrow> b \<in> ancs g c \<Longrightarrow> a \<in> ancs g c"
  by (auto simp: ancs_reach intro: trancl_trans)

lemma acyclic_iff: "acyclic (rel g) \<longleftrightarrow> (\<forall>i. i \<notin> ancs g i)"
  by (simp add: ancs_reach acyclic_def)

lemma anc_antisym: "acyclic (rel g) \<Longrightarrow> a \<in> ancs g b \<Longrightarrow> b \<notin> ancs g a"
  using anc_trans acyclic_iff by blast

lemma anc_mono: "rel g \<subseteq> rel h \<Longrightarrow> ancs g i \<subseteq> ancs h i"
  by (auto simp: ancs_reach intro: trancl_mono)

text \<open>Adding an edge keeps the graph acyclic exactly when the target does not already reach the
  source: the test of \<open>_try_add_edge\<close>.\<close>

lemma insert_edge_acyclic:
  "rel h = insert (a, b) (rel g) \<Longrightarrow> acyclic (rel g) \<Longrightarrow> a \<noteq> b \<Longrightarrow>
   acyclic (rel h) \<longleftrightarrow> b \<notin> ancs g a"
  by (simp add: ancs_reach acyclic_insert rtrancl_eq_or_trancl)

lemma insert_edge_anc:
  "rel h = insert (a, b) (rel g) \<Longrightarrow>
   ancs h i = ancs g i \<union> (if i = b \<or> b \<in> ancs g i then insert a (ancs g a) else {})"
  by (auto simp: ancs_reach trancl_insert rtrancl_eq_or_trancl)

end

interpretation anc_ops: ancestry edge_rel anc
  by unfold_locales (rule anc_trancl)

section \<open>Cycles are found, and what is found is a cycle\<close>

definition is_cycle :: "graph \<Rightarrow> string list \<Rightarrow> bool" where
  "is_cycle g c = (c \<noteq> [] \<and> successively (\<lambda>x y. (x, y) \<in> edge_rel g) c \<and> (last c, hd c) \<in> edge_rel g)"

text \<open>The parents dictionary of the breadth-first search: entries are only appended, each child
  is a member of the component other than the start, and its parent is the start or an earlier
  child.\<close>

inductive parents_ok :: "(string \<times> string) set \<Rightarrow> string \<Rightarrow> string set \<Rightarrow> string dict \<Rightarrow> bool"
  for R start C where
  parents_nil: "parents_ok R start C []"
| parents_snoc: "parents_ok R start C ps \<Longrightarrow> k \<notin> fst ` set ps \<Longrightarrow> k \<in> C \<Longrightarrow> k \<noteq> start \<Longrightarrow>
    (p, k) \<in> R \<Longrightarrow> p = start \<or> p \<in> fst ` set ps \<Longrightarrow> parents_ok R start C (ps @ [(k, p)])"

lemma update_fresh: "k \<notin> fst ` set d \<Longrightarrow> dict_set k v d = d @ [(k, v)]"
  by (induction d) auto

lemma trace_back_extend:
  "trace_back n start ps c = Some pth \<Longrightarrow> trace_back n start (ps @ qs) c = Some pth"
  by (induction n arbitrary: c pth) (fastforce split: if_splits option.splits simp: map_add_def)+

lemma trace_back_fuel: "trace_back n start ps c = Some pth \<Longrightarrow> trace_back (Suc n) start ps c = Some pth"
proof (induction n arbitrary: c pth)
  case (Suc n)
  show ?case
  proof (cases "c = start")
    case False
    with Suc.prems obtain p z where "map_of ps c = Some p" "trace_back n start ps p = Some z" "pth = c # z"
      by (auto split: option.splits)
    with False Suc.IH[of p z] show ?thesis by (simp del: trace_back.simps(2) add: trace_back.simps(2)[of "Suc n"])
  qed (use Suc.prems in simp)
qed (simp split: if_splits)

lemma trace_back_Some:
  assumes "parents_ok R start C ps" "c = start \<or> c \<in> fst ` set ps"
  shows "\<exists>pth. trace_back (length ps) start ps c = Some pth \<and> pth \<noteq> [] \<and> hd pth = c \<and> last pth = start
    \<and> successively (\<lambda>x y. (y, x) \<in> R) pth"
  using assms
proof (induction arbitrary: c rule: parents_ok.induct)
  case parents_nil
  then show ?case by simp
next
  case (parents_snoc ps k p)
  show ?case
  proof (cases "c = k")
    case True
    from parents_snoc.IH[of p] parents_snoc.hyps obtain pth where
      pth: "trace_back (length ps) start ps p = Some pth" "pth \<noteq> []" "hd pth = p" "last pth = start"
        "successively (\<lambda>x y. (y, x) \<in> R) pth" by blast
    have "map_of (ps @ [(k, p)]) k = Some p"
      using parents_snoc.hyps by (simp add: map_add_def map_of_eq_None_iff[THEN iffD2])
    with True parents_snoc.hyps pth trace_back_extend[OF pth(1)] show ?thesis
      by (auto simp: successively_Cons)
  next
    case False
    with parents_snoc.prems have "c = start \<or> c \<in> fst ` set ps" by auto
    from parents_snoc.IH[OF this] show ?thesis
      using trace_back_fuel trace_back_extend by fastforce
  qed
qed

text \<open>What one scan of a node's successors leaves, and the whole search.\<close>

definition scan_post where
  "scan_post R start C nexts ps queue ps' queue' \<longleftrightarrow>
     parents_ok R start (set C) ps' \<and> fst ` set ps \<subseteq> fst ` set ps'
     \<and> fst ` set ps' \<subseteq> fst ` set ps \<union> set queue' \<and> set queue \<subseteq> set queue'
     \<and> set queue' \<subseteq> set queue \<union> fst ` set ps'
     \<and> (\<forall>y\<in>set nexts \<inter> set C. y \<noteq> start \<and> y \<in> fst ` set ps')"

lemma cycle_scan_Inr:
  "cycle_scan start C current nexts ps queue = Inr (ps', queue') \<Longrightarrow>
   parents_ok R start (set C) ps \<Longrightarrow> current = start \<or> current \<in> fst ` set ps \<Longrightarrow>
   set nexts \<subseteq> R `` {current} \<Longrightarrow> scan_post R start C nexts ps queue ps' queue'"
proof (induction start C current nexts ps queue rule: cycle_scan.induct)
  case (1 start C current ps queue)
  then show ?case by (auto simp: scan_post_def)
next
  case (2 start C current nxt rest ps queue)
  show ?case
  proof (cases "nxt \<in> set C \<and> nxt \<noteq> start \<and> nxt \<notin> fst ` set ps")
    case True
    let ?ps = "dict_set nxt current ps"
    have "parents_ok R start (set C) ?ps"
      using True "2.prems"(2-4) by (auto simp: update_fresh intro!: parents_snoc)
    with True 2 have "scan_post R start C rest ?ps (queue @ [nxt]) ps' queue'" by auto
    with True show ?thesis by (auto simp: scan_post_def)
  next
    case False
    with 2 have "scan_post R start C rest ps queue ps' queue'" by (auto split: if_splits)
    with False "2.prems"(1) show ?thesis by (auto simp: scan_post_def split: if_splits)
  qed
qed

lemma cycle_scan_Inl:
  "cycle_scan start C current nexts ps queue = Inl ps' \<Longrightarrow>
   parents_ok R start (set C) ps \<Longrightarrow> current = start \<or> current \<in> fst ` set ps \<Longrightarrow>
   set nexts \<subseteq> R `` {current} \<Longrightarrow>
   parents_ok R start (set C) ps' \<and> fst ` set ps \<subseteq> fst ` set ps' \<and> start \<in> set nexts"
proof (induction start C current nexts ps queue rule: cycle_scan.induct)
  case (2 start C current nxt rest ps queue)
  show ?case
  proof (cases "nxt \<in> set C \<and> nxt \<noteq> start \<and> nxt \<notin> fst ` set ps")
    case True
    have "parents_ok R start (set C) (dict_set nxt current ps)"
      using True "2.prems"(2-4) by (auto simp: update_fresh intro!: parents_snoc)
    with True 2 show ?thesis by auto
  next
    case False
    with 2 show ?thesis by (auto split: if_splits)
  qed
qed simp

lemma trancl_into_closed: "(x, y) \<in> r\<^sup>+ \<Longrightarrow> x \<in> S \<Longrightarrow> r `` S \<subseteq> T \<Longrightarrow> T \<subseteq> S \<Longrightarrow> y \<in> T"
  by (induction rule: trancl_induct) blast+

lemma cycle_bfs_finds:
  assumes "parents_ok R start (set C) ps" "set queue \<subseteq> insert start (fst ` set ps)"
    and "\<forall>x \<in> insert start (fst ` set ps) - set queue. \<forall>y \<in> R `` {x} \<inter> set C. y \<noteq> start \<and> y \<in> fst ` set ps"
    and "\<And>x. set (adj_of adj x) = R `` {x}" "(start, start) \<in> (R \<inter> UNIV \<times> set C)\<^sup>+"
  shows "\<exists>c. cycle_bfs start C adj ps queue = Some c \<and> c \<noteq> [] \<and> hd c = start
    \<and> successively (\<lambda>x y. (x, y) \<in> R) c \<and> (last c, start) \<in> R"
  using assms
proof (induction start C adj ps queue rule: cycle_bfs.induct)
  case (1 start C adj ps)
  then have "start \<in> fst ` set ps - {start}"
    by (intro trancl_into_closed[OF 1(5) insertI1, of "fst ` set ps"]) auto
  then show ?case by simp
next
  case (2 start C adj ps current queue)
  have nexts: "set (adj_of adj current) \<subseteq> R `` {current}" using 2(5) by simp
  have cur: "current = start \<or> current \<in> fst ` set ps" using 2(3) by auto
  show ?case
  proof (cases "cycle_scan start C current (adj_of adj current) ps queue")
    case (Inl ps')
    from cycle_scan_Inl[OF Inl 2(2) cur nexts] nexts
    have ps': "parents_ok R start (set C) ps'" "current = start \<or> current \<in> fst ` set ps'"
      "(current, start) \<in> R" using cur by auto
    from trace_back_Some[OF ps'(1,2)] obtain pth where
      pth: "trace_back (length ps') start ps' current = Some pth" "pth \<noteq> []" "hd pth = current"
        "last pth = start" "successively (\<lambda>x y. (y, x) \<in> R) pth" by blast
    with Inl ps'(3) show ?thesis
      by (auto simp: hd_rev last_rev successively_rev)
  next
    case (Inr pq)
    obtain ps' queue' where pq: "pq = (ps', queue')" by (cases pq)
    from cycle_scan_Inr[OF Inr[unfolded pq] 2(2) cur nexts]
    have post: "scan_post R start C (adj_of adj current) ps queue ps' queue'" .
    have "\<exists>c. cycle_bfs start C adj ps' queue' = Some c \<and> c \<noteq> [] \<and> hd c = start
      \<and> successively (\<lambda>x y. (x, y) \<in> R) c \<and> (last c, start) \<in> R"
    proof (rule 2(1)[OF Inr pq[symmetric] _ _ _ 2(5,6)])
      show "parents_ok R start (set C) ps'" using post by (simp add: scan_post_def)
      show "set queue' \<subseteq> insert start (fst ` set ps')"
      proof -
        have "set queue \<subseteq> insert start (fst ` set ps)" using 2(3) by simp
        also have "\<dots> \<subseteq> insert start (fst ` set ps')" using post by (auto simp: scan_post_def)
        finally have "set queue \<union> fst ` set ps' \<subseteq> insert start (fst ` set ps')" by (simp add: subset_insertI)
        moreover have "set queue' \<subseteq> set queue \<union> fst ` set ps'" using post by (simp add: scan_post_def)
        ultimately show ?thesis by (rule order.trans[rotated])
      qed
      show "\<forall>x \<in> insert start (fst ` set ps') - set queue'. \<forall>y \<in> R `` {x} \<inter> set C.
          y \<noteq> start \<and> y \<in> fst ` set ps'"
      proof (intro ballI)
        fix x y
        assume x: "x \<in> insert start (fst ` set ps') - set queue'" and y: "y \<in> R `` {x} \<inter> set C"
        show "y \<noteq> start \<and> y \<in> fst ` set ps'"
        proof (cases "x = current")
          case True
          with y post 2(5) show ?thesis by (auto simp: scan_post_def)
        next
          case False
          with x post have "x \<in> insert start (fst ` set ps) - set (current # queue)"
            by (auto simp: scan_post_def)
          with 2(4) y have "y \<noteq> start \<and> y \<in> fst ` set ps" by blast
          with post show ?thesis by (auto simp: scan_post_def)
        qed
      qed
    qed
    with Inr pq show ?thesis by simp
  qed
qed

lemma set_scc_of: "set (scc_of g i) = insert i {j. j \<in> anc g i \<and> i \<in> anc g j}"
  by (auto simp: scc_of_def anc_def)

lemma trancl_within_scc:
  "(x, y) \<in> r\<^sup>+ \<Longrightarrow> (i, x) \<in> r\<^sup>* \<Longrightarrow> (y, i) \<in> r\<^sup>* \<Longrightarrow> {z. (i, z) \<in> r\<^sup>* \<and> (z, i) \<in> r\<^sup>*} \<subseteq> C \<Longrightarrow>
   (x, y) \<in> (r \<inter> UNIV \<times> C)\<^sup>+"
proof (induction rule: trancl_induct)
  case (base y)
  then have "y \<in> C" by (auto intro: rtrancl_into_rtrancl)
  with base show ?case by (auto intro: r_into_trancl)
next
  case (step y z)
  then have "(y, i) \<in> r\<^sup>*" "(i, z) \<in> r\<^sup>*"
    by (auto intro: converse_rtrancl_into_rtrancl dest: trancl_into_rtrancl rtrancl_trans)
  with step show ?case by (auto intro: trancl_into_trancl)
qed

lemma scc_loop:
  assumes "i \<in> anc g i" "s \<in> set (scc_of g i)"
  shows "(s, s) \<in> (edge_rel g \<inter> UNIV \<times> set (scc_of g i))\<^sup>+"
proof (rule trancl_within_scc)
  from assms have si: "(s, i) \<in> (edge_rel g)\<^sup>+" "(i, s) \<in> (edge_rel g)\<^sup>+"
    by (auto simp: set_scc_of anc_trancl)
  then show "(s, s) \<in> (edge_rel g)\<^sup>+" "(i, s) \<in> (edge_rel g)\<^sup>*" "(s, i) \<in> (edge_rel g)\<^sup>*"
    by (auto intro: trancl_trans trancl_into_rtrancl)
  show "{z. (i, z) \<in> (edge_rel g)\<^sup>* \<and> (z, i) \<in> (edge_rel g)\<^sup>*} \<subseteq> set (scc_of g i)"
    using assms by (auto simp: set_scc_of anc_trancl rtrancl_eq_or_trancl)
qed

lemma cycle_path_is_cycle:
  assumes "i \<in> anc g i" "s \<in> set (scc_of g i)"
  shows "\<exists>c. cycle_path s (scc_of g i) (successors g) = Some c \<and> hd c = s \<and> is_cycle g c"
proof -
  have adj: "set (adj_of (successors g) x) = edge_rel g `` {x}" for x
    by (auto simp: adj_of_successors)
  have "\<exists>c. cycle_bfs s (scc_of g i) (successors g) [] [s] = Some c \<and> c \<noteq> [] \<and> hd c = s
      \<and> successively (\<lambda>x y. (x, y) \<in> edge_rel g) c \<and> (last c, s) \<in> edge_rel g"
    by (rule cycle_bfs_finds[OF parents_nil _ _ adj scc_loop[OF assms]]) auto
  then show ?thesis by (auto simp: cycle_path_def is_cycle_def)
qed

lemma find_cycles_loop_cycles:
  "set is \<subseteq> set order \<Longrightarrow> c \<in> set (find_cycles_loop g order assigned is) \<Longrightarrow> is_cycle g c"
proof (induction g order assigned "is" rule: find_cycles_loop.induct)
  case (2 g order assigned i "is")
  show ?case
  proof (cases "i \<in> assigned \<or> i \<notin> anc g i")
    case True
    with 2 show ?thesis by auto
  next
    case False
    let ?start = "hd (filter (\<lambda>j. j \<in> set (scc_of g i)) order)"
    have "filter (\<lambda>j. j \<in> set (scc_of g i)) order \<noteq> []"
      using "2.prems" by (auto simp: filter_empty_conv set_scc_of)
    then have "?start \<in> set (scc_of g i)"
      using hd_in_set[of "filter (\<lambda>j. j \<in> set (scc_of g i)) order"] by simp
    with False obtain d where d: "cycle_path ?start (scc_of g i) (successors g) = Some d" "is_cycle g d"
      using cycle_path_is_cycle by blast
    from False d(1) "2.prems" have "c = d \<or> c \<in> set (find_cycles_loop g order (assigned \<union> set (scc_of g i)) is)"
      by (auto simp: Let_def)
    then show ?thesis
      using "2.IH"(2)[OF False refl refl] "2.prems" d(2) by auto
  qed
qed simp

lemma find_cycles_loop_empty:
  "find_cycles_loop g order {} is = [] \<longleftrightarrow> (\<forall>i\<in>set is. i \<notin> anc g i)"
  by (induction "is") (auto simp: Let_def)

text \<open>\<open>_find_cycles\<close> reports only real cycles, and reports one whenever there is one.\<close>

lemma find_cycles_sound: "c \<in> set (find_cycles g) \<Longrightarrow> is_cycle g c"
  unfolding find_cycles_def Let_def by (erule find_cycles_loop_cycles[OF order.refl])

lemma find_cycles_empty_iff: "find_cycles g = [] \<longleftrightarrow> acyclic (edge_rel g)"
proof -
  have "find_cycles g = [] \<longleftrightarrow> (\<forall>i\<in>set (node_ids g). i \<notin> anc g i)"
    using unique_nodes_ids[of g] by (simp add: find_cycles_def Let_def find_cycles_loop_empty)
  also have "\<dots> \<longleftrightarrow> (\<forall>i. i \<notin> anc g i)"
    using anc_ids by blast
  finally show ?thesis by (simp add: anc_ops.acyclic_iff)
qed

section \<open>Property\<close>

text \<open>\<open>_find_cycles\<close> returns nothing exactly when the usable edges form no cycle, and every list
  it returns is a cycle: each entry has an edge to the next and the last has an edge to the first.\<close>

theorem find_cycles_correct:
  "(find_cycles g = [] \<longleftrightarrow> acyclic (edge_rel g)) \<and> list_all (is_cycle g) (find_cycles g)"
  by (simp add: find_cycles_empty_iff list_all_iff find_cycles_sound)

end
