(* ===== verification/Repo_Index.thy ===== *)
theory Repo_Index
  imports Schema
begin

text \<open>
  \<open>taskgraph/repo_index.py\<close>: the files, symbols and Markdown headings of a repository at one
  commit, as the validator and the edge derivation query them. Reading the commit with git is
  outside the model.
\<close>

record repo_index =
  commit :: string
  files :: "string set"
  symbols :: "string set"
  index_warnings :: "string list"
  markdown_titles :: "string list dict"

definition has_file :: "repo_index \<Rightarrow> string \<Rightarrow> bool" where
  "has_file idx p = (p \<in> files idx)"

definition has_symbol :: "repo_index \<Rightarrow> string \<Rightarrow> bool" where
  "has_symbol idx s = (s \<in> symbols idx)"

end
