(* ===== verification/Validate.thy ===== *)
theory Validate
  imports Graph_Ops Repo_Index
begin

text \<open>
  \<open>taskgraph/validate.py\<close>: the rules V1 to V14 and the warnings W1 to W5. Each \<open>_check_...\<close> and
  \<open>_warn_...\<close> appends issues to the report in a fixed order; here each returns the list it
  appends and \<open>validate\<close> concatenates them in the order of the calls.

  The second part states what each rule means and proves that the rule reports nothing exactly
  when that holds, so that \<open>validate\<close> accepts exactly the graphs that satisfy all the rules.
\<close>

section \<open>Reports\<close>

record issue =
  code :: string
  issue_nodes :: "string list"
  message :: string

definition issue_format :: "issue \<Rightarrow> string" where
  "issue_format i =
     (if issue_nodes i \<noteq> []
      then ''['' @ code i @ ''] '' @ py_join '', '' (issue_nodes i) @ '': '' @ message i
      else ''['' @ code i @ ''] '' @ message i)"

record validation_report =
  errors :: "issue list"
  warnings :: "issue list"

definition report_ok :: "validation_report \<Rightarrow> bool" where
  "report_ok r = (errors r = [])"

definition codes :: "validation_report \<Rightarrow> string list" where
  "codes r = map code (errors r)"

definition warning_codes :: "validation_report \<Rightarrow> string list" where
  "warning_codes r = map code (warnings r)"

definition report_format :: "validation_report \<Rightarrow> string" where
  "report_format r = py_join [CHR 0x0A]
     ((''errors ('' @ nat_str (length (errors r)) @ ''):'') # map issue_format (errors r)
      @ (''warnings ('' @ nat_str (length (warnings r)) @ ''):'') # map issue_format (warnings r))"

abbreviation Issue :: "string \<Rightarrow> string list \<Rightarrow> string \<Rightarrow> issue" where
  "Issue c ns m \<equiv> \<lparr>code = c, issue_nodes = ns, message = m\<rparr>"

fun kind_str :: "node_kind \<Rightarrow> string" where
  "kind_str Contract = ''contract''"
| "kind_str Implement = ''implement''"

fun edge_type_str :: "edge_type \<Rightarrow> string" where
  "edge_type_str Interface = ''interface''"
| "edge_type_str Full = ''full''"
| "edge_type_str Order = ''order''"

section \<open>Rules\<close>

fun check_edges_from :: "string set \<Rightarrow> (string \<times> string \<times> edge_type) set \<Rightarrow> edge list \<Rightarrow> issue list" where
  "check_edges_from ids seen [] = []"
| "check_edges_from ids seen (e # es) =
     (let missing = filter (\<lambda>i. i \<notin> ids) [e_from e, e_to e];
          key = (e_from e, e_to e, edge_type e)
      in if missing \<noteq> []
         then Issue ''V1'' [e_from e, e_to e]
                (''edge references unknown node(s): '' @ py_join '', '' (py_unique missing))
              # check_edges_from ids seen es
         else if e_from e = e_to e
         then Issue ''V1'' [e_from e] (''self-loop '' @ edge_type_str (edge_type e) @ '' edge'')
              # check_edges_from ids seen es
         else (if key \<in> seen
               then [Issue ''V1'' [e_from e, e_to e] (''duplicate '' @ edge_type_str (edge_type e)
                       @ '' edge '' @ e_from e @ '' -> '' @ e_to e)]
               else [])
              @ check_edges_from ids (insert key seen) es)"

definition check_structure :: "graph \<Rightarrow> issue list" where
  "check_structure g =
     concat (map (\<lambda>i. let n = count_list (node_ids g) i in
       if 1 < n then [Issue ''V1'' [i] (''node id is used by '' @ nat_str n @ '' nodes'')] else [])
       (py_unique (node_ids g)))
     @ check_edges_from (set (node_ids g)) {} (edges g)"

definition check_acyclic :: "graph \<Rightarrow> issue list" where
  "check_acyclic g = map (\<lambda>c. Issue ''V2'' c
     (''dependency cycle: '' @ py_join '' -> '' (c @ [hd c]))) (find_cycles g)"

definition file_creators :: "graph \<Rightarrow> string \<Rightarrow> string list" where
  "file_creators g p = map node_id (filter (\<lambda>m. p \<in> set (create (node_edit_set m))) (unique_nodes g))"

definition check_modify :: "graph \<Rightarrow> repo_index \<Rightarrow> node \<Rightarrow> string \<Rightarrow> issue list" where
  "check_modify g idx n p =
     (let creators = filter (\<lambda>c. c \<noteq> node_id n) (file_creators g p) in
      if has_file idx p then []
      else if list_ex (\<lambda>c. c \<in> anc g (node_id n)) creators then []
      else if creators \<noteq> []
      then let names = py_join '', '' creators; verb = (if length creators = 1 then ''is'' else ''are'')
           in [Issue ''V3'' (node_id n # creators)
                (''modifies '' @ p @ '', which is created by '' @ names @ '', but '' @ names @ '' ''
                 @ verb @ '' not an ancestor of '' @ node_id n @ '' (missing edge?)'')]
      else [Issue ''V3'' [node_id n] (''modifies '' @ p @ '', which does not exist at the base commit'')])"

definition check_create :: "repo_index \<Rightarrow> node \<Rightarrow> string \<Rightarrow> issue list" where
  "check_create idx n p =
     (if has_file idx p
      then [Issue ''V3'' [node_id n] (''creates '' @ p @ '', which already exists at the base commit'')]
      else [])"

text \<open>One context reference. A graph's \<open>context_files\<close> passed \<open>validate_context_ref\<close> when the graph
  was built (\<open>node_valid\<close>), so \<open>split_context_ref\<close> does not raise here.\<close>

definition check_context :: "graph \<Rightarrow> repo_index \<Rightarrow> node \<Rightarrow> string \<Rightarrow> issue list" where
  "check_context g idx n ref =
     (case split_context_ref ref of Inl _ \<Rightarrow> [] | Inr (p, heading) \<Rightarrow>
       (case heading of None \<Rightarrow> []
        | Some t \<Rightarrow> if t \<in> set (dict_get (markdown_titles idx) p []) then []
                    else [Issue ''V3'' [node_id n]
                           (''context heading '' @ ref @ '' does not exist at the base commit'')])
       @ (if has_file idx p then []
          else if p \<notin> (\<Union>m\<in>set (nodes g). set (create (node_edit_set m)))
          then [Issue ''V3'' [node_id n] (''context file '' @ p
                 @ '' neither exists at the base commit nor is created by any node'')]
          else let creators = file_creators g p in
            if list_ex (\<lambda>c. c \<in> anc g (node_id n)) creators then []
            else if creators = [node_id n]
            then [Issue ''V3'' [node_id n] (''context file '' @ p @ '' is created by '' @ node_id n
                   @ '' itself, so it does not exist when '' @ node_id n @ '' starts'')]
            else let which = (if length creators = 1 then ''which is not an ancestor''
                              else ''which are not ancestors'')
                 in [Issue ''V3'' (node_id n # filter (\<lambda>c. c \<noteq> node_id n) creators)
                      (''context file '' @ p @ '' is created by '' @ py_join '', '' creators @ '', ''
                       @ which @ '' of '' @ node_id n @ '' (missing edge?)'')]))"

definition check_files :: "graph \<Rightarrow> repo_index \<Rightarrow> issue list" where
  "check_files g idx = concat (map (\<lambda>n.
     concat (map (check_modify g idx n) (modify (node_edit_set n)))
     @ concat (map (check_create idx n) (create (node_edit_set n)))
     @ concat (map (check_context g idx n) (context_files n))) (nodes g))"

definition has_command :: "string list \<Rightarrow> bool" where
  "has_command cs = list_ex (\<lambda>c. py_strip c \<noteq> []) cs"

definition check_commands :: "graph \<Rightarrow> issue list" where
  "check_commands g = concat (map (\<lambda>n.
     (if \<not> has_command (commands (node_check n))
      then [Issue ''V4'' [node_id n] ''check.commands has no non-empty command''] else [])
     @ (case post_merge_commands (node_check n) of None \<Rightarrow> []
        | Some cs \<Rightarrow> if \<not> has_command cs
            then [Issue ''V4'' [node_id n] ''check.post_merge_commands has no non-empty command'']
            else [])) (nodes g))"

text \<open>The pairs \<open>(nodes[i], nodes[j])\<close> with \<open>i < j\<close>, in the order of the nested loops.\<close>

fun pairs :: "'a list \<Rightarrow> ('a \<times> 'a) list" where
  "pairs [] = []"
| "pairs (x # xs) = map (Pair x) xs @ pairs xs"

definition ordered :: "graph \<Rightarrow> string \<Rightarrow> string \<Rightarrow> bool" where
  "ordered g a b = (a \<in> anc g b \<or> b \<in> anc g a)"

definition check_edit_conflicts :: "graph \<Rightarrow> issue list" where
  "check_edit_conflicts g = concat (map (\<lambda>(a, b).
     let overlap = conflicting_files a b in
     if overlap = {} then []
     else if ordered g (node_id a) (node_id b) then []
     else [Issue ''V5'' [node_id a, node_id b] (''both edit '' @ py_join '', '' (sorted_list_of_set overlap)
            @ '' but neither is an ancestor of the other'')]) (pairs (unique_nodes g)))"

text \<open>\<open>any(symbol in by_id[a].provides for a in ancestor_map[i])\<close>; \<open>by_id_anc\<close> shows that the
  lookup never fails.\<close>

definition provided_upstream :: "graph \<Rightarrow> string \<Rightarrow> string \<Rightarrow> bool" where
  "provided_upstream g i s =
     (\<exists>a\<in>anc g i. case map_of (by_id g) a of None \<Rightarrow> False | Some m \<Rightarrow> s \<in> set (provides m))"

definition check_requires :: "graph \<Rightarrow> repo_index \<Rightarrow> issue list" where
  "check_requires g idx = concat (map (\<lambda>n. concat (map (\<lambda>s.
     if has_symbol idx s then []
     else if provided_upstream g (node_id n) s then []
     else let providers = map node_id (filter (\<lambda>m. node_id m \<noteq> node_id n \<and> s \<in> set (provides m))
                (unique_nodes g))
          in if providers \<noteq> []
             then [Issue ''V6'' (node_id n # providers) (''requires '' @ s @ '', provided by ''
                    @ py_join '', '' providers @ '' which is not an ancestor of '' @ node_id n
                    @ '' (missing dependency edge?)'')]
             else [Issue ''V6'' [node_id n] (''requires '' @ s
                    @ '', which is neither defined at the base commit nor provided by another node'')])
     (requires n))) (unique_nodes g))"

definition check_shared_files :: "graph \<Rightarrow> issue list" where
  "check_shared_files g = concat (map (\<lambda>n.
     let outside = filter (\<lambda>p. p \<notin> set (modify (node_edit_set n))) (shared (node_edit_set n))
     in if outside \<noteq> []
        then [Issue ''V14'' [node_id n] (''edit_set.shared lists '' @ py_join '', '' outside @ '', which ''
               @ (if length outside = 1 then ''is'' else ''are'') @ '' not in edit_set.modify'')]
        else []) (nodes g))"

definition check_edit_set_nonempty :: "graph \<Rightarrow> issue list" where
  "check_edit_set_nonempty g = concat (map (\<lambda>n.
     (if any_file (node_edit_set n) \<and> length (nodes g) \<noteq> 1
      then [Issue ''V13'' [node_id n] ''edit_set.any_file is allowed only in a single-node graph''] else [])
     @ (if \<not> any_file (node_edit_set n) \<and> edit_files n = {}
        then [Issue ''V7'' [node_id n] ''edit_set.modify and edit_set.create are both empty''] else []))
     (nodes g))"

definition check_symbol_format :: "graph \<Rightarrow> issue list" where
  "check_symbol_format g = concat (map (\<lambda>n. concat (map (\<lambda>(field_name, vals).
     concat (map (\<lambda>v. case parse_symbol v of
        Inl e \<Rightarrow> [Issue ''V8'' [node_id n] (''invalid symbol in '' @ field_name @ '': '' @ e)]
      | Inr _ \<Rightarrow> []) vals))
     [(''requires'', requires n), (''requires_impl'', requires_impl n), (''provides'', provides n),
      (''edit_set.symbols'', es_symbols (node_edit_set n))])) (nodes g))"

definition check_interface_sources :: "graph \<Rightarrow> issue list" where
  "check_interface_sources g = concat (map (\<lambda>e.
     case map_of (by_id g) (e_from e) of None \<Rightarrow> [] | Some upstream \<Rightarrow>
       if edge_type e = Interface \<and> kind upstream \<noteq> Contract
       then [Issue ''V9'' [e_from e, e_to e] (''interface edge '' @ e_from e @ '' -> '' @ e_to e
              @ '' starts at a '' @ kind_str (kind upstream)
              @ '' node; interface edges must start at a contract node'')]
       else []) (usable_edges g))"

definition check_symbol_files :: "graph \<Rightarrow> issue list" where
  "check_symbol_files g = concat (map (\<lambda>n.
     if any_file (node_edit_set n) then []
     else concat (map (\<lambda>(label, syms). concat (map (\<lambda>s.
       case parse_symbol s of Inl _ \<Rightarrow> []
       | Inr r \<Rightarrow> if path r \<notin> edit_files n
           then [Issue ''V10'' [node_id n] (label @ '' '' @ s @ '', but '' @ path r
                  @ '' is not in edit_set.modify or edit_set.create'')]
           else []) syms))
       [(''edit_set.symbols lists'', es_symbols (node_edit_set n)), (''provides'', provides n)])) (nodes g))"

definition creators_dict :: "graph \<Rightarrow> string list dict" where
  "creators_dict g = fold (\<lambda>n d. fold (\<lambda>p d. dict_set p (dict_get d p [] @ [node_id n]) d)
     (create (node_edit_set n)) d) (unique_nodes g) []"

definition check_single_creator :: "graph \<Rightarrow> issue list" where
  "check_single_creator g = concat (map (\<lambda>(p, ids).
     if 1 < length ids
     then [Issue ''V11'' ids (p @ '' is created by '' @ nat_str (length ids)
            @ '' nodes; each new file must have exactly one creator'')]
     else []) (creators_dict g))"

definition check_required_implementations :: "graph \<Rightarrow> repo_index \<Rightarrow> issue list" where
  "check_required_implementations g idx = concat (map (\<lambda>n. concat (map (\<lambda>s.
     let imps = implementers (unique_nodes g) s (node_id n);
         missing = filter (\<lambda>i. i \<notin> anc g (node_id n)) (map node_id imps);
         contracts = map node_id (declarers (unique_nodes g) s (node_id n))
     in if imps \<noteq> []
        then if missing \<noteq> []
             then [Issue ''V12'' (node_id n # missing) (''requires the implementation of '' @ s @ '', but ''
                    @ py_join '', '' missing @ '' '' @ (if length missing = 1 then ''is not an ancestor''
                        else ''are not ancestors'') @ '' of '' @ node_id n @ '' (missing edge?)'')]
             else []
        else if has_symbol idx s then []
        else if contracts \<noteq> []
        then [Issue ''V12'' (node_id n # contracts) (''requires the implementation of '' @ s @ '', but '' @ s
               @ '' is only declared by contract '' @ py_join '', '' contracts
               @ ''; no implement node implements it'')]
        else [Issue ''V12'' [node_id n] (''requires the implementation of '' @ s
               @ '', which is neither defined at the base commit nor implemented by any node'')])
     (requires_impl n))) (unique_nodes g))"

section \<open>Warnings\<close>

definition warn_changed_existing_symbols :: "graph \<Rightarrow> repo_index \<Rightarrow> issue list" where
  "warn_changed_existing_symbols g idx = concat (map (\<lambda>n. concat (map (\<lambda>s.
     if \<not> has_symbol idx s then []
     else let changers = filter (\<lambda>i. i \<notin> anc g (node_id n))
                (map node_id (modifiers (unique_nodes g) s (node_id n)))
          in if changers \<noteq> []
             then [Issue ''W5'' (node_id n # changers) (''requires '' @ s @ ''; '' @ s
                    @ '' exists at the base commit but is changed by '' @ py_join '', '' changers @ '' ''
                    @ (if length changers = 1 then ''which is not an ancestor''
                       else ''which are not ancestors'') @ '' of '' @ node_id n)]
             else []) (requires n))) (unique_nodes g))"

definition edge_types :: "graph \<Rightarrow> ((string \<times> string) \<times> edge_type set) list" where
  "edge_types g = fold (\<lambda>e d. dict_set (e_from e, e_to e)
     (insert (edge_type e) (dict_get d (e_from e, e_to e) {})) d) (usable_edges g) []"

definition warn_order_edge_for_required_symbols :: "graph \<Rightarrow> issue list" where
  "warn_order_edge_for_required_symbols g = concat (map (\<lambda>((u, d), types).
     if types \<noteq> {Order} then []
     else (case (map_of (by_id g) u, map_of (by_id g) d) of
        (Some upstream, Some downstream) \<Rightarrow>
          let shared_syms = filter (\<lambda>s. s \<in> set (provides upstream)) (requires downstream);
              shared_impl = filter (\<lambda>s. kind upstream = Implement \<and> changes_symbol upstream s)
                (requires_impl downstream);
              needs = (if shared_syms \<noteq> [] then [''requires '' @ py_join '', '' shared_syms] else [])
                @ (if shared_impl \<noteq> []
                   then [''requires the implementation of '' @ py_join '', '' shared_impl] else [])
          in if needs \<noteq> []
             then [Issue ''W4'' [u, d] (d @ '' '' @ py_join '' and '' needs @ '' from '' @ u @ '', but '' @ u
                    @ '' -> '' @ d @ '' is only an order edge; use interface or full'')]
             else []
      | _ \<Rightarrow> [])) (edge_types g))"

definition warn_small_single_successor :: "graph \<Rightarrow> issue list" where
  "warn_small_single_successor g = concat (map (\<lambda>n.
     case adj_of (successors g) (node_id n) of
       [d] \<Rightarrow> if node_size n = Some Small
              then [Issue ''W1'' [node_id n, d]
                     (''small node with a single downstream node; consider merging it into '' @ d)]
              else []
     | _ \<Rightarrow> []) (unique_nodes g))"

definition warn_unused_provides :: "graph \<Rightarrow> issue list" where
  "warn_unused_provides g = concat (map (\<lambda>n. concat (map (\<lambda>s.
     if list_ex (\<lambda>m. node_id m \<noteq> node_id n \<and> (s \<in> set (requires m) \<or> s \<in> set (requires_impl m))) (nodes g)
     then [] else [Issue ''W2'' [node_id n] (''provides '' @ s @ '', which no other node requires'')])
     (provides n))) (nodes g))"

section \<open>Validation\<close>

definition validate :: "graph \<Rightarrow> repo_index option \<Rightarrow> validation_report" where
  "validate g index =
     \<lparr>errors =
        check_structure g @ check_acyclic g
        @ (case index of None \<Rightarrow> [] | Some idx \<Rightarrow> check_files g idx)
        @ check_commands g @ check_edit_conflicts g
        @ (case index of None \<Rightarrow> [] | Some idx \<Rightarrow> check_requires g idx)
        @ check_edit_set_nonempty g @ check_shared_files g @ check_symbol_format g
        @ check_interface_sources g @ check_symbol_files g @ check_single_creator g
        @ (case index of None \<Rightarrow> [] | Some idx \<Rightarrow> check_required_implementations g idx),
      warnings =
        (case index of
           None \<Rightarrow> map (\<lambda>c. Issue c [] ''skipped: no repository index was provided'')
                     [''V3'', ''V6'', ''V12'', ''W5'']
         | Some _ \<Rightarrow> [])
        @ warn_small_single_successor g @ warn_unused_provides g
        @ (if has_command (final_checks g) then [] else [Issue ''W3'' [] ''final_checks is empty''])
        @ warn_order_edge_for_required_symbols g
        @ (case index of None \<Rightarrow> [] | Some idx \<Rightarrow> warn_changed_existing_symbols g idx)\<rparr>"

section \<open>What the rules mean\<close>

abbreviation edge_key :: "edge \<Rightarrow> string \<times> string \<times> edge_type" where
  "edge_key e \<equiv> (e_from e, e_to e, edge_type e)"

definition structure_ok :: "graph \<Rightarrow> bool" where
  "structure_ok g \<longleftrightarrow> distinct (node_ids g)
     \<and> (\<forall>e\<in>set (edges g). e_from e \<in> set (node_ids g) \<and> e_to e \<in> set (node_ids g) \<and> e_from e \<noteq> e_to e)
     \<and> distinct (map edge_key (edges g))"

text \<open>A file is there for node \<open>i\<close> when it exists at the base commit or an ancestor of \<open>i\<close>
  creates it.\<close>

definition available :: "graph \<Rightarrow> repo_index \<Rightarrow> string \<Rightarrow> string \<Rightarrow> bool" where
  "available g idx i p \<longleftrightarrow> has_file idx p
     \<or> (\<exists>m\<in>set (unique_nodes g). p \<in> set (create (node_edit_set m)) \<and> node_id m \<in> anc g i)"

definition context_ok :: "graph \<Rightarrow> repo_index \<Rightarrow> string \<Rightarrow> string \<Rightarrow> bool" where
  "context_ok g idx i ref \<longleftrightarrow> (\<forall>p heading. split_context_ref ref = Inr (p, heading) \<longrightarrow>
     (\<forall>t. heading = Some t \<longrightarrow> t \<in> set (dict_get (markdown_titles idx) p [])) \<and> available g idx i p)"

definition files_ok :: "graph \<Rightarrow> repo_index \<Rightarrow> bool" where
  "files_ok g idx \<longleftrightarrow> (\<forall>n\<in>set (nodes g).
     (\<forall>p\<in>set (modify (node_edit_set n)). available g idx (node_id n) p)
     \<and> (\<forall>p\<in>set (create (node_edit_set n)). \<not> has_file idx p)
     \<and> (\<forall>ref\<in>set (context_files n). context_ok g idx (node_id n) ref))"

definition commands_ok :: "graph \<Rightarrow> bool" where
  "commands_ok g \<longleftrightarrow> (\<forall>n\<in>set (nodes g). has_command (commands (node_check n))
     \<and> (\<forall>cs. post_merge_commands (node_check n) = Some cs \<longrightarrow> has_command cs))"

definition conflicts_ordered :: "graph \<Rightarrow> bool" where
  "conflicts_ordered g \<longleftrightarrow> (\<forall>a\<in>set (unique_nodes g). \<forall>b\<in>set (unique_nodes g).
     a \<noteq> b \<longrightarrow> conflicting_files a b \<noteq> {} \<longrightarrow> ordered g (node_id a) (node_id b))"

definition requires_ok :: "graph \<Rightarrow> repo_index \<Rightarrow> bool" where
  "requires_ok g idx \<longleftrightarrow> (\<forall>n\<in>set (unique_nodes g). \<forall>s\<in>set (requires n).
     has_symbol idx s \<or> (\<exists>m\<in>set (unique_nodes g). node_id m \<in> anc g (node_id n) \<and> s \<in> set (provides m)))"

definition edit_sets_ok :: "graph \<Rightarrow> bool" where
  "edit_sets_ok g \<longleftrightarrow> (\<forall>n\<in>set (nodes g).
     (if any_file (node_edit_set n) then length (nodes g) = 1 else edit_files n \<noteq> {})
     \<and> set (shared (node_edit_set n)) \<subseteq> set (modify (node_edit_set n)))"

definition symbols_ok :: "graph \<Rightarrow> bool" where
  "symbols_ok g \<longleftrightarrow> (\<forall>n\<in>set (nodes g).
     (\<forall>s \<in> set (requires n) \<union> set (requires_impl n) \<union> set (provides n) \<union> set (es_symbols (node_edit_set n)).
        isr (parse_symbol s))
     \<and> (\<not> any_file (node_edit_set n) \<longrightarrow>
        (\<forall>s \<in> set (provides n) \<union> set (es_symbols (node_edit_set n)). \<forall>r.
           parse_symbol s = Inr r \<longrightarrow> path r \<in> edit_files n)))"

definition interfaces_ok :: "graph \<Rightarrow> bool" where
  "interfaces_ok g \<longleftrightarrow> (\<forall>e\<in>set (usable_edges g). \<forall>m\<in>set (unique_nodes g).
     edge_type e = Interface \<longrightarrow> node_id m = e_from e \<longrightarrow> kind m = Contract)"

definition created_files :: "graph \<Rightarrow> string list" where
  "created_files g = concat (map (\<lambda>n. create (node_edit_set n)) (unique_nodes g))"

definition implementations_ok :: "graph \<Rightarrow> repo_index \<Rightarrow> bool" where
  "implementations_ok g idx \<longleftrightarrow> (\<forall>n\<in>set (unique_nodes g). \<forall>s\<in>set (requires_impl n).
     (let imps = implementers (unique_nodes g) s (node_id n) in
        (imps = [] \<longrightarrow> has_symbol idx s) \<and> (\<forall>m\<in>set imps. node_id m \<in> anc g (node_id n))))"

section \<open>Each rule reports nothing exactly when it holds\<close>

named_theorems rule_meaning \<open>what it means that a rule reports nothing\<close>

lemma check_edges_from_empty:
  "check_edges_from ids seen es = [] \<longleftrightarrow>
   (\<forall>e\<in>set es. e_from e \<in> ids \<and> e_to e \<in> ids \<and> e_from e \<noteq> e_to e)
   \<and> distinct (map edge_key es) \<and> edge_key ` set es \<inter> seen = {}"
proof (induction es arbitrary: seen)
  case (Cons e es)
  show ?case
  proof (cases "e_from e \<in> ids \<and> e_to e \<in> ids \<and> e_from e \<noteq> e_to e \<and> edge_key e \<notin> seen")
    case True
    then have "check_edges_from ids seen (e # es) = check_edges_from ids (insert (edge_key e) seen) es"
      by (simp add: Let_def)
    with True Cons show ?thesis by auto
  next
    case False
    then show ?thesis by (auto simp: Let_def)
  qed
qed simp

lemma check_structure_empty [rule_meaning]: "check_structure g = [] \<longleftrightarrow> structure_ok g"
proof -
  have "(\<forall>i\<in>set (node_ids g). \<not> 1 < count_list (node_ids g) i) \<longleftrightarrow> distinct (node_ids g)"
    using reject_duplicates_isr[of "node_ids g" "[]"]
    by (auto simp: reject_duplicates_def Let_def filter_empty_conv split: if_splits)
  then show ?thesis
    by (auto simp: check_structure_def structure_ok_def check_edges_from_empty Let_def)
qed

lemma check_acyclic_empty [rule_meaning]: "check_acyclic g = [] \<longleftrightarrow> acyclic (edge_rel g)"
  by (simp add: check_acyclic_def find_cycles_empty_iff)

lemma set_file_creators:
  "set (file_creators g p) = {node_id m |m. m \<in> set (unique_nodes g) \<and> p \<in> set (create (node_edit_set m))}"
  by (auto simp: file_creators_def)

lemma check_create_empty: "check_create idx n p = [] \<longleftrightarrow> \<not> has_file idx p"
  by (simp add: check_create_def)

lemma check_modify_empty:
  "acyclic (edge_rel g) \<Longrightarrow> check_modify g idx n p = [] \<longleftrightarrow> available g idx (node_id n) p"
  by (auto simp: check_modify_def available_def Let_def list_ex_iff set_file_creators anc_ops.acyclic_iff)

lemma check_context_empty: "check_context g idx n ref = [] \<longleftrightarrow> context_ok g idx (node_id n) ref"
proof (cases "split_context_ref ref")
  case (Inr q)
  obtain p h where q: "q = (p, h)" by (cases q)
  have created: "m \<in> set (unique_nodes g) \<Longrightarrow> p \<in> set (create (node_edit_set m)) \<Longrightarrow>
      p \<in> (\<Union>m\<in>set (nodes g). set (create (node_edit_set m)))" for m
    using unique_nodes_subset[of g] by auto
  show ?thesis
    using Inr q created
    by (auto simp: check_context_def context_ok_def available_def Let_def list_ex_iff set_file_creators
        split: option.splits)
qed (simp add: check_context_def context_ok_def)

lemma check_files_empty [rule_meaning]:
  "acyclic (edge_rel g) \<Longrightarrow> check_files g idx = [] \<longleftrightarrow> files_ok g idx"
  by (auto simp: check_files_def files_ok_def check_create_empty check_modify_empty check_context_empty)

lemma check_commands_empty [rule_meaning]: "check_commands g = [] \<longleftrightarrow> commands_ok g"
  by (auto simp: check_commands_def commands_ok_def split: option.splits)

lemma pairs_all:
  "distinct xs \<Longrightarrow> (\<And>a b. P a b = P b a) \<Longrightarrow>
   (\<forall>(a, b)\<in>set (pairs xs). P a b) \<longleftrightarrow> (\<forall>a\<in>set xs. \<forall>b\<in>set xs. a \<noteq> b \<longrightarrow> P a b)"
proof (induction xs)
  case (Cons x xs)
  have "(\<forall>(a, b)\<in>set (pairs (x # xs)). P a b) \<longleftrightarrow> (\<forall>b\<in>set xs. P x b) \<and> (\<forall>(a, b)\<in>set (pairs xs). P a b)"
    by auto
  also have "\<dots> \<longleftrightarrow> (\<forall>b\<in>set xs. P x b) \<and> (\<forall>a\<in>set xs. \<forall>b\<in>set xs. a \<noteq> b \<longrightarrow> P a b)"
    using Cons by simp
  also have "\<dots> \<longleftrightarrow> (\<forall>a\<in>set (x # xs). \<forall>b\<in>set (x # xs). a \<noteq> b \<longrightarrow> P a b)"
    using Cons.prems by auto
  finally show ?case .
qed simp

lemma conflicting_files_sym: "conflicting_files a b = conflicting_files b a"
  by (auto simp: conflicting_files_def)

lemma ordered_sym: "ordered g a b = ordered g b a"
  by (auto simp: ordered_def)

lemma check_edit_conflicts_empty [rule_meaning]: "check_edit_conflicts g = [] \<longleftrightarrow> conflicts_ordered g"
proof -
  let ?P = "\<lambda>a b. conflicting_files a b \<noteq> {} \<longrightarrow> ordered g (node_id a) (node_id b)"
  have "check_edit_conflicts g = [] \<longleftrightarrow> (\<forall>(a, b)\<in>set (pairs (unique_nodes g)). ?P a b)"
    unfolding check_edit_conflicts_def concat_map_Nil
    by (intro ball_cong refl) (auto simp: Let_def split: if_splits)
  also have "\<dots> \<longleftrightarrow> (\<forall>a\<in>set (unique_nodes g). \<forall>b\<in>set (unique_nodes g). a \<noteq> b \<longrightarrow> ?P a b)"
  proof (rule pairs_all)
    show "distinct (unique_nodes g)" using distinct_unique_nodes[of g] by (simp add: distinct_map)
    show "?P a b = ?P b a" for a b by (simp only: conflicting_files_sym[of a b] ordered_sym[of g "node_id a"])
  qed
  finally show ?thesis by (simp add: conflicts_ordered_def)
qed

lemma provided_upstream_iff:
  "provided_upstream g i s \<longleftrightarrow> (\<exists>m\<in>set (unique_nodes g). node_id m \<in> anc g i \<and> s \<in> set (provides m))"
proof -
  have "(case map_of (by_id g) a of None \<Rightarrow> False | Some m \<Rightarrow> s \<in> set (provides m))
      \<longleftrightarrow> (\<exists>m\<in>set (unique_nodes g). node_id m = a \<and> s \<in> set (provides m))" for a
  proof (cases "map_of (by_id g) a")
    case None
    then show ?thesis using map_of_by_id[of g a] by auto
  next
    case (Some n)
    then have "n \<in> set (unique_nodes g)" "node_id n = a" by (simp_all add: map_of_by_id)
    with Some show ?thesis by (auto dest: unique_nodes_inj)
  qed
  then show ?thesis by (auto simp: provided_upstream_def)
qed

lemma check_requires_empty [rule_meaning]: "check_requires g idx = [] \<longleftrightarrow> requires_ok g idx"
  unfolding check_requires_def requires_ok_def concat_map_Nil provided_upstream_iff
  by (intro ball_cong refl) (auto simp: Let_def)

lemma check_edit_sets_empty:
  "check_edit_set_nonempty g = [] \<and> check_shared_files g = [] \<longleftrightarrow> edit_sets_ok g"
  by (auto simp: check_edit_set_nonempty_def check_shared_files_def edit_sets_ok_def Let_def filter_empty_conv)

lemma case_isr_Nil: "(case r of Inl e \<Rightarrow> [f e] | Inr _ \<Rightarrow> []) = [] \<longleftrightarrow> isr r"
  by (cases r) auto

lemma case_path_Nil:
  "(case r of Inl _ \<Rightarrow> [] | Inr x \<Rightarrow> if P x then [f x] else []) = [] \<longleftrightarrow> (\<forall>x. r = Inr x \<longrightarrow> \<not> P x)"
  by (cases r) auto

lemma check_symbols_empty:
  "check_symbol_format g = [] \<and> check_symbol_files g = [] \<longleftrightarrow> symbols_ok g"
  by (simp add: check_symbol_format_def check_symbol_files_def symbols_ok_def concat_map_Nil ball_Un
      case_isr_Nil case_path_Nil del: concat_eq_Nil_conv) blast

lemma by_id_edge_source:
  assumes "e \<in> set (usable_edges g)"
  obtains m where "m \<in> set (unique_nodes g)" "node_id m = e_from e" "map_of (by_id g) (e_from e) = Some m"
proof -
  from assms have "e_from e \<in> node_id ` set (unique_nodes g)" by (simp add: usable_edges_iff)
  then obtain m where "m \<in> set (unique_nodes g)" "node_id m = e_from e" by (metis imageE)
  then show ?thesis using that map_of_by_id by blast
qed

lemma check_interface_sources_empty [rule_meaning]: "check_interface_sources g = [] \<longleftrightarrow> interfaces_ok g"
  unfolding check_interface_sources_def interfaces_ok_def concat_map_Nil
proof (intro ball_cong refl)
  fix e
  assume "e \<in> set (usable_edges g)"
  then obtain m where m: "m \<in> set (unique_nodes g)" "node_id m = e_from e"
    "map_of (by_id g) (e_from e) = Some m" by (rule by_id_edge_source)
  then have "\<forall>k\<in>set (unique_nodes g). node_id k = e_from e \<longrightarrow> k = m"
    using unique_nodes_inj by metis
  with m(1,2) have "(\<forall>k\<in>set (unique_nodes g). edge_type e = Interface \<longrightarrow> node_id k = e_from e \<longrightarrow> kind k = Contract)
      \<longleftrightarrow> (edge_type e = Interface \<longrightarrow> kind m = Contract)" by metis
  with m(3) show "((case map_of (by_id g) (e_from e) of None \<Rightarrow> [] | Some upstream \<Rightarrow>
       if edge_type e = Interface \<and> kind upstream \<noteq> Contract
       then [Issue ''V9'' [e_from e, e_to e] (''interface edge '' @ e_from e @ '' -> '' @ e_to e
              @ '' starts at a '' @ kind_str (kind upstream)
              @ '' node; interface edges must start at a contract node'')]
       else []) = []) = (\<forall>m\<in>set (unique_nodes g). edge_type e = Interface \<longrightarrow> node_id m = e_from e \<longrightarrow> kind m = Contract)"
    by simp
qed

text \<open>The creators dictionary collects, per file, the ids of the nodes that create it.\<close>

lemma dict_get_append_fold:
  "dict_get (fold (\<lambda>x d. dict_set (f x) (dict_get d (f x) [] @ [t x]) d) xs d) k []
   = dict_get d k [] @ map t (filter (\<lambda>x. f x = k) xs)"
  by (induction xs arbitrary: d) (auto simp: dict_get_set)

lemma distinct_keys_append_fold:
  "distinct (map fst d) \<Longrightarrow>
   distinct (map fst (fold (\<lambda>x d. dict_set (f x) (dict_get d (f x) [] @ [t x]) d) xs d))"
  by (induction xs arbitrary: d) (auto simp: distinct_update)

lemma fold_concat_map: "fold f (concat (map h xs)) d = fold (\<lambda>x. fold f (h x)) xs d"
  by (induction xs arbitrary: d) auto

lemma creators_dict_fold:
  "creators_dict g = fold (\<lambda>x d. dict_set (fst x) (dict_get d (fst x) [] @ [snd x]) d)
     (concat (map (\<lambda>n. map (\<lambda>p. (p, node_id n)) (create (node_edit_set n))) (unique_nodes g))) []"
  by (simp add: creators_dict_def fold_concat_map fold_map comp_def)

lemma length_filter_fst: "length (filter (\<lambda>x. fst x = p) xs) = count_list (map fst xs) p"
  by (induction xs) auto

lemma distinct_count_iff: "distinct xs \<longleftrightarrow> (\<forall>x. count_list xs x \<le> 1)"
proof
  assume "distinct xs"
  then show "\<forall>x. count_list xs x \<le> 1" using count_list_distinct[of xs] by blast
next
  assume "\<forall>x. count_list xs x \<le> 1"
  then show "distinct xs"
  proof (induction xs)
    case (Cons x xs)
    then have "count_list xs x = 0" by (auto dest: spec[of _ x])
    moreover have "\<forall>y. count_list xs y \<le> 1"
    proof
      fix y
      show "count_list xs y \<le> 1"
        using spec[OF Cons.prems, of y] by (auto split: if_splits)
    qed
    ultimately show ?case using Cons.IH by (simp add: count_list_0_iff)
  qed simp
qed

text \<open>Grouping pairs by their key gives groups of at most one exactly if no key occurs twice.\<close>

lemma grouping_at_most_one:
  assumes "d = fold (\<lambda>x d. dict_set (fst x) (dict_get d (fst x) [] @ [snd x]) d) xs []"
  shows "(\<forall>(k, vs)\<in>set d. length vs \<le> 1) \<longleftrightarrow> distinct (map fst xs)"
proof -
  have dist: "distinct (map fst d)" unfolding assms by (rule distinct_keys_append_fold) simp
  then have entry: "(k, vs) \<in> set d \<Longrightarrow> vs = dict_get d k []" for k vs
    by (simp add: dict_get_def map_of_eq_Some_iff[THEN iffD2])
  have count: "length (dict_get d k []) = count_list (map fst xs) k" for k
    unfolding assms dict_get_append_fold by (simp add: dict_get_def length_filter_fst)
  have "(\<forall>(k, vs)\<in>set d. length vs \<le> 1) \<longleftrightarrow> (\<forall>k. length (dict_get d k []) \<le> 1)"
  proof
    assume all: "\<forall>(k, vs)\<in>set d. length vs \<le> 1"
    show "\<forall>k. length (dict_get d k []) \<le> 1"
    proof
      fix k
      show "length (dict_get d k []) \<le> 1"
        using all by (cases "map_of d k") (auto simp: dict_get_def dest!: map_of_SomeD)
    qed
  qed (use entry in fastforce)
  then show ?thesis by (simp add: count distinct_count_iff)
qed

lemma check_single_creator_empty [rule_meaning]:
  "check_single_creator g = [] \<longleftrightarrow> distinct (created_files g)"
proof -
  have "check_single_creator g = [] \<longleftrightarrow> (\<forall>(p, ids)\<in>set (creators_dict g). length ids \<le> 1)"
    unfolding check_single_creator_def concat_map_Nil by (intro ball_cong refl) (auto split: if_splits)
  also have "\<dots> \<longleftrightarrow> distinct (created_files g)"
    unfolding grouping_at_most_one[OF creators_dict_fold] by (simp add: created_files_def map_concat comp_def)
  finally show ?thesis .
qed

lemma check_required_implementations_empty [rule_meaning]:
  "check_required_implementations g idx = [] \<longleftrightarrow> implementations_ok g idx"
  unfolding check_required_implementations_def implementations_ok_def concat_map_Nil
  by (intro ball_cong refl) (auto simp: Let_def filter_empty_conv)

section \<open>Acceptance\<close>

text \<open>The rules that need no repository index.\<close>

definition plan_ok :: "graph \<Rightarrow> bool" where
  "plan_ok g \<longleftrightarrow> structure_ok g \<and> acyclic (edge_rel g) \<and> commands_ok g \<and> conflicts_ordered g
     \<and> edit_sets_ok g \<and> symbols_ok g \<and> interfaces_ok g \<and> distinct (created_files g)"

text \<open>The rules against a repository.\<close>

definition plan_fits :: "graph \<Rightarrow> repo_index \<Rightarrow> bool" where
  "plan_fits g idx \<longleftrightarrow> files_ok g idx \<and> requires_ok g idx \<and> implementations_ok g idx"

lemmas two_part_rules = check_edit_sets_empty check_symbols_empty

lemma validate_ok_None: "report_ok (validate g None) \<longleftrightarrow> plan_ok g"
  by (auto simp: report_ok_def validate_def plan_ok_def rule_meaning two_part_rules[symmetric])

lemma validate_ok_Some: "report_ok (validate g (Some idx)) \<longleftrightarrow> plan_ok g \<and> plan_fits g idx"
proof (cases "acyclic (edge_rel g)")
  case True
  then show ?thesis
    by (auto simp: report_ok_def validate_def plan_ok_def plan_fits_def rule_meaning
        two_part_rules[symmetric])
next
  case False
  then show ?thesis
    by (simp add: report_ok_def validate_def plan_ok_def check_acyclic_empty)
qed

section \<open>Property\<close>

text \<open>C1: With a repository index, \<open>validate\<close> reports no error exactly when the plan satisfies the
  meaning of every rule: sound structure, no cycle, runnable checks, ordered edit conflicts, proper
  edit sets and symbols, contract interfaces, one creator per file, and files, symbols and
  implementations that exist at the base commit or come from an ancestor.\<close>

theorem validate_accepts_iff:
  "report_ok (validate g (Some idx)) \<longleftrightarrow>
     structure_ok g \<and> acyclic (edge_rel g) \<and> commands_ok g \<and> conflicts_ordered g
     \<and> edit_sets_ok g \<and> symbols_ok g \<and> interfaces_ok g \<and> distinct (created_files g)
     \<and> files_ok g idx \<and> requires_ok g idx \<and> implementations_ok g idx"
  by (simp add: validate_ok_Some plan_ok_def plan_fits_def)

end
