(* ===== verification/Derive.thy ===== *)
theory Derive
  imports Validate
begin

text \<open>
  \<open>taskgraph/derive.py\<close>: rule-based derivation of missing dependency and ordering edges. The
  Python functions mutate one graph and one list of revision entries; here both are passed and
  returned. The ids and nodes a step reads are those of \<open>unique_nodes\<close>, which no step changes.

  The lemmas show that a derivation only appends edges, each of which keeps the graph acyclic and
  duplicates no edge (\<open>grows\<close>), what holds of every requirement and every pair of nodes
  afterwards, and that a second derivation adds nothing.
\<close>

section \<open>Adding an edge\<close>

definition try_add_edge ::
  "graph \<Rightarrow> edge \<Rightarrow> revision_entry list \<Rightarrow> string \<Rightarrow> bool \<times> graph \<times> revision_entry list" where
  "try_add_edge g e entries description =
     (if e_from e = e_to e \<or> e_to e \<in> anc g (e_from e)
      then (False, g, entries @ [\<lparr>rev_action = Act_other, rev_nodes = [e_from e, e_to e], rev_into = None,
             rev_reason = ''skipped derived '' @ edge_type_str (edge_type e) @ '' edge '' @ e_from e @ '' -> ''
               @ e_to e @ '' ('' @ description @ ''): it would create a cycle''\<rparr>])
      else (True, g\<lparr>edges := edges g @ [e]\<rparr>, entries @ [\<lparr>rev_action = Act_add_edge,
             rev_nodes = [e_from e, e_to e], rev_into = None,
             rev_reason = ''derived '' @ edge_type_str (edge_type e) @ '' edge '' @ e_from e @ '' -> ''
               @ e_to e @ '': '' @ description\<rparr>]))"

definition derived_edge :: "string \<Rightarrow> string \<Rightarrow> edge_type \<Rightarrow> string \<Rightarrow> edge" where
  "derived_edge a b t reason = \<lparr>e_from = a, e_to = b, edge_type = t, edge_source = From_derived,
     edge_reason = reason\<rparr>"

section \<open>Dependency edges\<close>

type_synonym pending_providers = "(string \<times> string \<times> string list) list"

text \<open>Step 1a. \<open>requires_candidates\<close>: the contract providers, or all providers when there is no
  contract among them.\<close>

definition requires_candidates :: "node list \<Rightarrow> node \<Rightarrow> string \<Rightarrow> node list" where
  "requires_candidates ns n s =
     (let providers = filter (\<lambda>m. node_id m \<noteq> node_id n \<and> s \<in> set (provides m)) ns;
          contracts = filter (\<lambda>m. kind m = Contract) providers
      in if contracts \<noteq> [] then contracts else providers)"

definition provider_type :: "node \<Rightarrow> edge_type" where
  "provider_type m = (if kind m = Contract then Interface else Full)"

definition interface_step ::
  "repo_index \<Rightarrow> node list \<Rightarrow> node \<Rightarrow> string \<Rightarrow> graph \<times> revision_entry list \<times> pending_providers \<Rightarrow>
   graph \<times> revision_entry list \<times> pending_providers" where
  "interface_step idx ns n s st = (case st of (g, entries, pending) \<Rightarrow>
     if has_symbol idx s then st
     else if provided_upstream g (node_id n) s then st
     else (case requires_candidates ns n s of
        [] \<Rightarrow> st
      | [m] \<Rightarrow> let description = node_id n @ '' requires '' @ s @ '' provided by '' @ node_id m
               in (case try_add_edge g (derived_edge (node_id m) (node_id n) (provider_type m) description)
                         entries description of (_, g', entries') \<Rightarrow> (g', entries', pending))
      | ms \<Rightarrow> let item = (node_id n, s, map node_id ms)
              in (g, entries, if item \<in> set pending then pending else pending @ [item])))"

definition derive_interface_edges ::
  "repo_index \<Rightarrow> graph \<Rightarrow> revision_entry list \<Rightarrow> graph \<times> revision_entry list \<times> pending_providers" where
  "derive_interface_edges idx g entries =
     fold (\<lambda>n. fold (interface_step idx (unique_nodes g) n) (requires n)) (unique_nodes g) (g, entries, [])"

text \<open>Step 1b.\<close>

definition implementation_step ::
  "node \<Rightarrow> string \<Rightarrow> node \<Rightarrow> graph \<times> revision_entry list \<Rightarrow> graph \<times> revision_entry list" where
  "implementation_step n s m st = (case st of (g, entries) \<Rightarrow>
     if node_id m \<in> anc g (node_id n) then st
     else let description = node_id n @ '' requires implementation of '' @ s @ '' by '' @ node_id m
          in snd (try_add_edge g (derived_edge (node_id m) (node_id n) Full description) entries description))"

definition derive_implementation_edges ::
  "graph \<Rightarrow> revision_entry list \<Rightarrow> graph \<times> revision_entry list" where
  "derive_implementation_edges g entries =
     fold (\<lambda>n. fold (\<lambda>s. fold (implementation_step n s) (implementers (unique_nodes g) s (node_id n)))
       (requires_impl n)) (unique_nodes g) (g, entries)"

text \<open>Step 1c. \<open>ref.split("#", 1)[0]\<close> is the text before the first \<open>#\<close>.\<close>

definition context_step ::
  "repo_index \<Rightarrow> node list \<Rightarrow> node \<Rightarrow> string \<Rightarrow> graph \<times> revision_entry list \<Rightarrow>
   graph \<times> revision_entry list" where
  "context_step idx ns n ref st = (case st of (g, entries) \<Rightarrow>
     let p = takeWhile (\<lambda>c. c \<noteq> CHR ''#'') ref in
     if has_file idx p then st
     else (case filter (\<lambda>m. p \<in> set (create (node_edit_set m))) ns of
        [m] \<Rightarrow> if node_id m = node_id n then st
               else if node_id m \<in> anc g (node_id n) then st
               else let description = node_id n @ '' reads context file '' @ p @ '' created by '' @ node_id m
                    in snd (try_add_edge g (derived_edge (node_id m) (node_id n) (provider_type m) description)
                              entries description)
      | _ \<Rightarrow> st))"

definition derive_context_file_edges ::
  "repo_index \<Rightarrow> graph \<Rightarrow> revision_entry list \<Rightarrow> graph \<times> revision_entry list" where
  "derive_context_file_edges idx g entries =
     fold (\<lambda>n. fold (context_step idx (unique_nodes g) n) (context_files n)) (unique_nodes g) (g, entries)"

definition derive_dependency_edges ::
  "repo_index \<Rightarrow> graph \<Rightarrow> revision_entry list \<Rightarrow> graph \<times> revision_entry list \<times> pending_providers" where
  "derive_dependency_edges idx g entries =
     (case derive_interface_edges idx g entries of (g1, entries1, pending) \<Rightarrow>
      case derive_implementation_edges g1 entries1 of (g2, entries2) \<Rightarrow>
      case derive_context_file_edges idx g2 entries2 of (g3, entries3) \<Rightarrow> (g3, entries3, pending))"

definition unresolved_provider_entries :: "graph \<Rightarrow> pending_providers \<Rightarrow> revision_entry list" where
  "unresolved_provider_entries g pending =
     map (\<lambda>(i, s, providers). \<lparr>rev_action = Act_other, rev_nodes = i # providers, rev_into = None,
            rev_reason = i @ '' requires '' @ s @ '': multiple providers, edge not derived''\<rparr>)
       (filter (\<lambda>(i, s, providers). \<not> provided_upstream g i s) pending)"

section \<open>Order edges\<close>

definition creates_what_other_modifies :: "node \<Rightarrow> node \<Rightarrow> string set \<Rightarrow> string list" where
  "creates_what_other_modifies creator modifier overlap =
     sorted_list_of_set {p \<in> overlap. p \<in> set (create (node_edit_set creator))
       \<and> p \<in> set (modify (node_edit_set modifier))}"

definition ordered_pair :: "node \<Rightarrow> node \<Rightarrow> string set \<Rightarrow> (node \<times> node) option" where
  "ordered_pair a b overlap =
     (let first_creates = creates_what_other_modifies a b overlap;
          second_creates = creates_what_other_modifies b a overlap
      in if first_creates \<noteq> [] \<and> second_creates \<noteq> [] then None
         else if first_creates \<noteq> [] then Some (a, b)
         else if second_creates \<noteq> [] then Some (b, a)
         else if kind b = Contract \<and> kind a \<noteq> Contract then Some (b, a)
         else Some (a, b))"

definition order_step ::
  "node \<times> node \<Rightarrow> graph \<times> revision_entry list \<Rightarrow> graph \<times> revision_entry list" where
  "order_step ab st = (case ab of (a, b) \<Rightarrow> case st of (g, entries) \<Rightarrow>
     let overlap = conflicting_files a b in
     if overlap = {} then st
     else if ordered g (node_id a) (node_id b) then st
     else (case ordered_pair a b overlap of
        None \<Rightarrow> (g, entries @ [\<lparr>rev_action = Act_other, rev_nodes = [node_id a, node_id b], rev_into = None,
          rev_reason = ''order edge between '' @ node_id a @ '' and '' @ node_id b
            @ '' not derived: conflicting creation direction ('' @ node_id a @ '' creates ''
            @ py_join '', '' (creates_what_other_modifies a b overlap) @ '' modified by '' @ node_id b @ ''; ''
            @ node_id b @ '' creates '' @ py_join '', '' (creates_what_other_modifies b a overlap)
            @ '' modified by '' @ node_id a @ '')''\<rparr>])
      | Some (up, down) \<Rightarrow>
          let description = node_id up @ '' and '' @ node_id down @ '' both edit ''
                @ py_join '', '' (sorted_list_of_set overlap)
          in snd (try_add_edge g (derived_edge (node_id up) (node_id down) Order description)
                    entries description)))"

definition derive_order_edges :: "graph \<Rightarrow> revision_entry list \<Rightarrow> graph \<times> revision_entry list" where
  "derive_order_edges g entries = fold order_step (pairs (unique_nodes g)) (g, entries)"

section \<open>Derivation\<close>

definition derive_edges :: "graph \<Rightarrow> repo_index \<Rightarrow> graph \<times> revision_entry list" where
  "derive_edges g idx =
     (case derive_dependency_edges idx g [] of (g1, entries1, pending) \<Rightarrow>
      case derive_order_edges g1 entries1 of (g2, entries2) \<Rightarrow>
      let entries = entries2 @ unresolved_provider_entries g2 pending
      in (g2\<lparr>revision_log := revision_log g2 @ entries\<rparr>, entries))"

section \<open>A derivation only grows the graph\<close>

text \<open>One good step appends an edge between two nodes that were not ordered, so that it closes no
  cycle and repeats no edge; an interface edge starts at a contract.\<close>

inductive grows :: "graph \<Rightarrow> graph \<Rightarrow> bool" for g where
  grows_refl: "grows g g"
| grows_add: "grows g h \<Longrightarrow> a \<in> set (node_ids g) \<Longrightarrow> b \<in> set (node_ids g) \<Longrightarrow> a \<noteq> b \<Longrightarrow>
    \<not> ordered h a b \<Longrightarrow> (\<forall>m\<in>set (unique_nodes g). t = Interface \<longrightarrow> node_id m = a \<longrightarrow> kind m = Contract) \<Longrightarrow>
    grows g (h\<lparr>edges := edges h @ [derived_edge a b t r]\<rparr>)"

lemma same_nodes: "nodes g = nodes h \<Longrightarrow> node_ids g = node_ids h \<and> unique_nodes g = unique_nodes h
    \<and> by_id g = by_id h"
  by (simp add: node_ids_def unique_nodes_def by_id_def)

lemma same_edges: "nodes g = nodes h \<Longrightarrow> edges g = edges h \<Longrightarrow> edge_rel g = edge_rel h"
  by (simp add: edge_rel_def usable_edges_def node_ids_def)

lemma node_ids_edges [simp]: "node_ids (g\<lparr>edges := es\<rparr>) = node_ids g"
  by (simp add: node_ids_def)

lemma unique_nodes_edges [simp]: "unique_nodes (g\<lparr>edges := es\<rparr>) = unique_nodes g"
  by (simp add: unique_nodes_def)

lemma usable_edges_append:
  "set (usable_edges (g\<lparr>edges := edges g @ [e]\<rparr>)) = set (usable_edges g)
     \<union> (if e_from e \<in> set (node_ids g) \<and> e_to e \<in> set (node_ids g) \<and> e_from e \<noteq> e_to e then {e} else {})"
  by (auto simp: usable_edges_iff)

lemma edge_rel_log [simp]: "edge_rel (g\<lparr>revision_log := l\<rparr>) = edge_rel g"
  by (rule same_edges) simp_all

lemma anc_log [simp]: "anc (g\<lparr>revision_log := l\<rparr>) = anc g"
  by (rule ext) (simp add: anc_trancl)

lemma edge_rel_append:
  "a \<in> set (node_ids g) \<Longrightarrow> b \<in> set (node_ids g) \<Longrightarrow> a \<noteq> b \<Longrightarrow>
   edge_rel (g\<lparr>edges := edges g @ [derived_edge a b t r]\<rparr>) = insert (a, b) (edge_rel g)"
  by (simp add: edge_rel_def usable_edges_append derived_edge_def)

lemma grows_frame: "grows g h \<Longrightarrow> h = g\<lparr>edges := edges h\<rparr> \<and> (\<exists>es. edges h = edges g @ es)"
  by (induction rule: grows.induct) auto

lemma grows_nodes: "grows g h \<Longrightarrow> nodes h = nodes g"
  using grows_frame by (metis graph.select_convs(7) graph.surjective graph.update_convs(8))

lemma grows_same: "grows g h \<Longrightarrow> node_ids h = node_ids g" "grows g h \<Longrightarrow> unique_nodes h = unique_nodes g"
  by (auto dest: grows_nodes same_nodes)

lemma grows_rel:
  "grows g h \<Longrightarrow> a \<in> set (node_ids g) \<Longrightarrow> b \<in> set (node_ids g) \<Longrightarrow> a \<noteq> b \<Longrightarrow>
   edge_rel (h\<lparr>edges := edges h @ [derived_edge a b t r]\<rparr>) = insert (a, b) (edge_rel h)"
  by (simp add: edge_rel_append grows_same)

lemma grows_trans: "grows h k \<Longrightarrow> grows g h \<Longrightarrow> grows g k"
  by (induction rule: grows.induct) (auto simp: grows_same intro: grows_add)

lemma grows_mono: "grows g h \<Longrightarrow> edge_rel g \<subseteq> edge_rel h"
  by (induction rule: grows.induct) (auto simp: grows_rel)

lemma grows_anc: "grows g h \<Longrightarrow> anc g i \<subseteq> anc h i"
  by (rule anc_ops.anc_mono) (rule grows_mono)

lemma grows_acyclic: "grows g h \<Longrightarrow> acyclic (edge_rel g) \<Longrightarrow> acyclic (edge_rel h)"
proof (induction rule: grows.induct)
  case (grows_add h a b t r)
  then show ?case
    using anc_ops.insert_edge_acyclic[OF grows_rel[OF grows_add(1-4)]] by (simp add: ordered_def)
qed

lemma grows_ordered: "grows g h \<Longrightarrow> ordered g a b \<Longrightarrow> ordered h a b"
  using grows_anc[of g h] by (auto simp: ordered_def)

lemma grows_structure: "grows g h \<Longrightarrow> structure_ok g \<Longrightarrow> structure_ok h"
proof (induction rule: grows.induct)
  case (grows_add h a b t r)
  have "(a, b) \<notin> edge_rel h"
    using grows_add.hyps(5) anc_ops.step_anc by (auto simp: ordered_def)
  moreover have ok: "structure_ok h" by (rule grows_add.IH[OF grows_add.prems])
  ultimately have "(a, b, t) \<notin> edge_key ` set (edges h)"
    by (force simp: edge_rel_def usable_edges_iff structure_ok_def)
  with ok grows_add.hyps(2-4) grows_same[OF grows_add.hyps(1)] show ?case
    by (simp add: structure_ok_def derived_edge_def)
qed

lemma grows_interfaces: "grows g h \<Longrightarrow> interfaces_ok g \<Longrightarrow> interfaces_ok h"
proof (induction rule: grows.induct)
  case (grows_add h a b t r)
  from grows_add.IH[OF grows_add.prems] grows_add.hyps(6) grows_same[OF grows_add.hyps(1)]
  show ?case
    unfolding interfaces_ok_def usable_edges_append ball_Un by (simp add: derived_edge_def)
qed

section \<open>The contract of a derivation pass\<close>

text \<open>
  The four passes share a contract. A step on an item of the graph's nodes grows the graph and
  settles the item; a settled item stays settled while the graph grows, and a step on a settled
  item leaves the graph alone.
\<close>

locale derivation_pass =
  fixes step :: "'x \<Rightarrow> graph \<times> 'e \<Rightarrow> graph \<times> 'e"
    and item :: "node list \<Rightarrow> 'x \<Rightarrow> bool"
    and settled :: "'x \<Rightarrow> graph \<Rightarrow> bool"
  assumes step_grows: "item (unique_nodes g) x \<Longrightarrow> grows g (fst (step x (g, e)))"
    and step_settles: "item (unique_nodes g) x \<Longrightarrow> settled x (fst (step x (g, e)))"
    and settled_grows: "settled x g \<Longrightarrow> grows g h \<Longrightarrow> settled x h"
    and settled_stays: "settled x g \<Longrightarrow> fst (step x (g, e)) = g"
begin

lemma pass_grows: "\<forall>x\<in>set xs. item (unique_nodes g) x \<Longrightarrow> grows g (fst (fold step xs (g, e)))"
proof (induction xs arbitrary: g e)
  case (Cons x xs)
  obtain h e' where h: "step x (g, e) = (h, e')" by (cases "step x (g, e)")
  have gh: "grows g h" using step_grows[of g x e] Cons.prems h by simp
  then have "unique_nodes h = unique_nodes g" by (rule grows_same)
  with Cons have "grows h (fst (fold step xs (h, e')))" by simp
  then show ?case using gh h by (simp add: grows_trans)
qed (simp add: grows_refl)

lemma pass_settles:
  "\<forall>x\<in>set xs. item (unique_nodes g) x \<Longrightarrow> x \<in> set xs \<Longrightarrow> settled x (fst (fold step xs (g, e)))"
proof (induction xs arbitrary: g e)
  case (Cons y xs)
  obtain h e' where h: "step y (g, e) = (h, e')" by (cases "step y (g, e)")
  have "grows g h" using step_grows[of g y e] Cons.prems h by simp
  then have same: "unique_nodes h = unique_nodes g" by (rule grows_same)
  show ?case
  proof (cases "x = y")
    case True
    have "settled x h" using step_settles[of g y e] Cons.prems h True by simp
    then have "settled x (fst (fold step xs (h, e')))"
      using pass_grows[of xs h e'] Cons.prems same by (simp add: settled_grows)
    then show ?thesis using h by simp
  next
    case False
    with Cons same h show ?thesis by simp
  qed
qed simp

lemma pass_stays: "\<forall>x\<in>set xs. settled x g \<Longrightarrow> fst (fold step xs (g, e)) = g"
proof (induction xs arbitrary: e)
  case (Cons x xs)
  obtain e' where "step x (g, e) = (g, e')"
    using settled_stays[of x g e] Cons.prems by (metis list.set_intros(1) prod.collapse)
  with Cons show ?case by simp
qed simp

end

lemma try_add_edge_graph:
  "fst (snd (try_add_edge g (derived_edge a b t r) entries d)) =
   (if a = b \<or> b \<in> anc g a then g else g\<lparr>edges := edges g @ [derived_edge a b t r]\<rparr>)"
  by (simp add: try_add_edge_def derived_edge_def)

lemma try_add_edge_grows:
  assumes "a \<in> set (node_ids g)" "b \<in> set (node_ids g)" "a \<notin> anc g b"
    and "\<forall>m\<in>set (unique_nodes g). t = Interface \<longrightarrow> node_id m = a \<longrightarrow> kind m = Contract"
  shows "grows g (fst (snd (try_add_edge g (derived_edge a b t r) entries d)))"
  using assms grows_add[OF grows_refl, of a g b t r]
  by (auto simp: try_add_edge_graph ordered_def intro: grows_refl)

lemma try_add_edge_settles:
  assumes "a \<in> set (node_ids g)" "b \<in> set (node_ids g)" "a \<noteq> b"
  shows "ordered (fst (snd (try_add_edge g (derived_edge a b t r) entries d))) a b"
  using assms edge_rel_append[of a g b t r] anc_ops.step_anc[of a b]
  by (auto simp: try_add_edge_graph ordered_def)

lemma unique_node_id: "n \<in> set (unique_nodes g) \<Longrightarrow> node_id n \<in> set (node_ids g)"
  using unique_nodes_ids[of g] by blast

lemma provider_type_contract:
  "m \<in> set (unique_nodes g) \<Longrightarrow>
   \<forall>k\<in>set (unique_nodes g). provider_type m = Interface \<longrightarrow> node_id k = node_id m \<longrightarrow> kind k = Contract"
  by (auto simp: provider_type_def dest: unique_nodes_inj split: if_splits)

lemma provided_upstream_grows: "grows g h \<Longrightarrow> provided_upstream g i s \<Longrightarrow> provided_upstream h i s"
  using grows_anc[of g h i] by (auto simp: provided_upstream_iff grows_same)

section \<open>The four passes\<close>

definition interface_settled :: "repo_index \<Rightarrow> node list \<Rightarrow> node \<times> string \<Rightarrow> graph \<Rightarrow> bool" where
  "interface_settled idx ns = (\<lambda>(n, s) g. has_symbol idx s \<or> provided_upstream g (node_id n) s
     \<or> (\<forall>m. requires_candidates ns n s = [m] \<longrightarrow> node_id n \<in> anc g (node_id m)))"

lemma requires_candidates_set:
  "m \<in> set (requires_candidates ns n s) \<Longrightarrow> m \<in> set ns \<and> node_id m \<noteq> node_id n \<and> s \<in> set (provides m)"
  by (auto simp: requires_candidates_def Let_def split: if_splits)

lemma interface_step_cases:
  obtains (same) "fst (interface_step idx ns n s (g, e)) = g"
      "has_symbol idx s \<or> provided_upstream g (node_id n) s \<or> (\<forall>m. requires_candidates ns n s \<noteq> [m])"
  | (edge) m r d where "requires_candidates ns n s = [m]" "\<not> provided_upstream g (node_id n) s" "\<not> has_symbol idx s"
      "fst (interface_step idx ns n s (g, e)) =
         fst (snd (try_add_edge g (derived_edge (node_id m) (node_id n) (provider_type m) r) (fst e) d))"
proof (cases "has_symbol idx s \<or> provided_upstream g (node_id n) s \<or> (\<forall>m. requires_candidates ns n s \<noteq> [m])")
  case True
  then show ?thesis
    by (intro same) (auto simp: interface_step_def Let_def split: prod.splits list.splits)
next
  case False
  then obtain m where "requires_candidates ns n s = [m]" by blast
  with False show ?thesis
    by (intro edge[of m]) (auto simp: interface_step_def Let_def split_beta intro!: arg_cong[of _ _ fst])
qed

lemma interface_not_upstream:
  assumes "requires_candidates (unique_nodes g) n s = [m]" "\<not> provided_upstream g (node_id n) s"
  shows "m \<in> set (unique_nodes g)" "node_id m \<noteq> node_id n" "node_id m \<notin> anc g (node_id n)"
  using assms requires_candidates_set[of m "unique_nodes g" n s] by (auto simp: provided_upstream_iff)

interpretation interface_pass: derivation_pass
  "\<lambda>(n, s). interface_step idx ns n s" "\<lambda>us (n, s). us = ns \<and> n \<in> set ns" "interface_settled idx ns"
  for idx ns
proof (unfold_locales, goal_cases)
  case (1 g x e)
  obtain n s where x: "x = (n, s)" by (cases x)
  with 1 have ns: "ns = unique_nodes g" "n \<in> set (unique_nodes g)" by auto
  show ?case
  proof (cases rule: interface_step_cases[of idx ns n s g e])
    case (edge m r d)
    note nu = interface_not_upstream[OF edge(1)[unfolded ns(1)] edge(2)]
    show ?thesis
      using try_add_edge_grows[OF unique_node_id[OF nu(1)] unique_node_id[OF ns(2)] nu(3)
          provider_type_contract[OF nu(1)]] by (simp add: x edge(4))
  qed (simp add: x grows_refl)
next
  case (2 g x e)
  obtain n s where x: "x = (n, s)" by (cases x)
  with 2 have ns: "ns = unique_nodes g" "n \<in> set (unique_nodes g)" by auto
  show ?case
  proof (cases rule: interface_step_cases[of idx ns n s g e])
    case (edge m r d)
    let ?h = "fst (interface_step idx ns n s (g, e))"
    note nu = interface_not_upstream[OF edge(1)[unfolded ns(1)] edge(2)]
    have "grows g ?h"
      using try_add_edge_grows[OF unique_node_id[OF nu(1)] unique_node_id[OF ns(2)] nu(3)
          provider_type_contract[OF nu(1)]] by (simp add: edge(4))
    moreover have "ordered ?h (node_id m) (node_id n)"
      using try_add_edge_settles[OF unique_node_id[OF nu(1)] unique_node_id[OF ns(2)] nu(2)] by (simp add: edge(4))
    ultimately show ?thesis
      using nu(1) requires_candidates_set[of m ns n s] edge(1)
      by (auto simp: x interface_settled_def ordered_def provided_upstream_iff grows_same)
  qed (auto simp: x interface_settled_def)
next
  case (3 x g h)
  then show ?case
    using provided_upstream_grows grows_anc[OF 3(2)] by (fastforce simp: interface_settled_def split: prod.splits)
next
  case (4 x g e)
  obtain n s where x: "x = (n, s)" by (cases x)
  show ?case
  proof (cases rule: interface_step_cases[of idx ns n s g e])
    case (edge m r d)
    with 4 show ?thesis by (auto simp: x interface_settled_def try_add_edge_graph)
  qed (simp add: x)
qed

text \<open>The other passes add an edge between two nodes unless they are already ordered.\<close>

lemma guarded_add:
  assumes "m \<in> set (unique_nodes g)" "n \<in> set (unique_nodes g)" "node_id m \<noteq> node_id n"
    and "node_id m \<notin> anc g (node_id n)" "t = provider_type m \<or> t \<noteq> Interface"
  shows "grows g (fst (snd (try_add_edge g (derived_edge (node_id m) (node_id n) t r) e d)))"
    and "ordered (fst (snd (try_add_edge g (derived_edge (node_id m) (node_id n) t r) e d))) (node_id m) (node_id n)"
  using assms provider_type_contract[OF assms(1)]
  by (auto intro!: try_add_edge_grows try_add_edge_settles unique_node_id)

lemma ordered_skips:
  "ordered g a b \<Longrightarrow> a \<notin> anc g b \<Longrightarrow> fst (snd (try_add_edge g (derived_edge a b t r) e d)) = g"
  by (simp add: try_add_edge_graph ordered_def)

definition implementation_settled :: "node \<times> string \<times> node \<Rightarrow> graph \<Rightarrow> bool" where
  "implementation_settled = (\<lambda>(n, s, m) g. ordered g (node_id m) (node_id n))"

interpretation implementation_pass: derivation_pass
  "\<lambda>(n, s, m). implementation_step n s m"
  "\<lambda>us (n, s, m). n \<in> set us \<and> m \<in> set us \<and> node_id m \<noteq> node_id n" implementation_settled
proof (unfold_locales, goal_cases)
  case (1 g x e)
  then show ?case
    by (auto simp: implementation_step_def Let_def split: prod.splits intro: grows_refl guarded_add(1))
next
  case (2 g x e)
  then show ?case
    by (auto simp: implementation_step_def implementation_settled_def Let_def split: prod.splits
        intro: guarded_add(2)) (simp add: ordered_def)
next
  case (3 x g h)
  then show ?case by (auto simp: implementation_settled_def grows_ordered)
next
  case (4 x g e)
  then show ?case
    by (auto simp: implementation_step_def implementation_settled_def Let_def ordered_skips)
qed

definition context_creators :: "node list \<Rightarrow> string \<Rightarrow> node list" where
  "context_creators ns ref =
     filter (\<lambda>m. takeWhile (\<lambda>c. c \<noteq> CHR ''#'') ref \<in> set (create (node_edit_set m))) ns"

definition context_settled :: "repo_index \<Rightarrow> node list \<Rightarrow> node \<times> string \<Rightarrow> graph \<Rightarrow> bool" where
  "context_settled idx ns = (\<lambda>(n, ref) g. has_file idx (takeWhile (\<lambda>c. c \<noteq> CHR ''#'') ref)
     \<or> (\<forall>m. context_creators ns ref = [m] \<longrightarrow> node_id m = node_id n \<or> ordered g (node_id m) (node_id n)))"

lemma context_step_cases:
  obtains (same) "fst (context_step idx ns n ref (g, e)) = g" "context_settled idx ns (n, ref) g"
  | (edge) m r d where "context_creators ns ref = [m]" "node_id m \<noteq> node_id n" "node_id m \<notin> anc g (node_id n)"
      "fst (context_step idx ns n ref (g, e)) =
         fst (snd (try_add_edge g (derived_edge (node_id m) (node_id n) (provider_type m) r) e d))"
proof (cases "has_file idx (takeWhile (\<lambda>c. c \<noteq> CHR ''#'') ref)
    \<or> (\<forall>m. context_creators ns ref = [m] \<longrightarrow> node_id m = node_id n \<or> node_id m \<in> anc g (node_id n))")
  case True
  then show ?thesis
    by (intro same) (auto simp: context_step_def context_settled_def context_creators_def ordered_def Let_def
        split: list.splits)
next
  case False
  then obtain m where "context_creators ns ref = [m]" "node_id m \<noteq> node_id n" "node_id m \<notin> anc g (node_id n)"
    by blast
  with False show ?thesis
    by (intro edge[of m]) (auto simp: context_step_def context_creators_def Let_def)
qed

lemma context_creators_in: "context_creators ns ref = [m] \<Longrightarrow> m \<in> set ns"
  unfolding context_creators_def by (metis filter_is_subset list.set_intros(1) subsetD)

interpretation context_pass: derivation_pass
  "\<lambda>(n, ref). context_step idx ns n ref" "\<lambda>us (n, ref). us = ns \<and> n \<in> set ns" "context_settled idx ns"
  for idx ns
proof (unfold_locales, goal_cases)
  case (1 g x e)
  obtain n ref where x: "x = (n, ref)" by (cases x)
  show ?case
    by (cases rule: context_step_cases[of idx ns n ref g e])
      (use 1 x in \<open>auto intro!: grows_refl guarded_add(1) dest: context_creators_in\<close>)
next
  case (2 g x e)
  obtain n ref where x: "x = (n, ref)" by (cases x)
  show ?case
  proof (cases rule: context_step_cases[of idx ns n ref g e])
    case (edge m r d)
    with 2 x guarded_add(2)[of m g n "provider_type m"] show ?thesis
      by (auto simp: context_settled_def dest: context_creators_in)
  qed (simp add: x)
next
  case (3 x g h)
  then show ?case by (auto simp: context_settled_def grows_ordered)
next
  case (4 x g e)
  obtain n ref where x: "x = (n, ref)" by (cases x)
  show ?case
  proof (cases "has_file idx (takeWhile (\<lambda>c. c \<noteq> CHR ''#'') ref)")
    case True
    then show ?thesis by (simp add: x context_step_def Let_def)
  next
    case False
    then show ?thesis
      using 4 by (cases rule: context_step_cases[of idx ns n ref g e])
        (auto simp: x context_settled_def ordered_skips)
  qed
qed

definition order_settled :: "node \<times> node \<Rightarrow> graph \<Rightarrow> bool" where
  "order_settled = (\<lambda>(a, b) g. conflicting_files a b = {} \<or> ordered g (node_id a) (node_id b)
     \<or> ordered_pair a b (conflicting_files a b) = None)"

lemma ordered_pair_cases: "ordered_pair a b overlap = Some (u, d) \<Longrightarrow> (u, d) = (a, b) \<or> (u, d) = (b, a)"
  by (auto simp: ordered_pair_def Let_def split: if_splits)

lemma order_step_cases:
  obtains (same) "fst (order_step (a, b) (g, e)) = g" "order_settled (a, b) g"
  | (edge) u d r i where "(u, d) = (a, b) \<or> (u, d) = (b, a)" "\<not> ordered g (node_id a) (node_id b)"
      "fst (order_step (a, b) (g, e)) = fst (snd (try_add_edge g (derived_edge (node_id u) (node_id d) Order r) e i))"
proof (cases "order_settled (a, b) g")
  case True
  then show ?thesis
    by (intro same) (auto simp: order_step_def order_settled_def Let_def)
next
  case False
  then obtain u d where "ordered_pair a b (conflicting_files a b) = Some (u, d)"
    by (auto simp: order_settled_def)
  with False ordered_pair_cases show ?thesis
    by (intro edge[of u d]) (auto simp: order_step_def order_settled_def Let_def)
qed

interpretation order_pass: derivation_pass
  order_step "\<lambda>us (a, b). a \<in> set us \<and> b \<in> set us \<and> node_id a \<noteq> node_id b" order_settled
proof (unfold_locales, goal_cases)
  case (1 g x e)
  obtain a b where x: "x = (a, b)" by (cases x)
  show ?case
    unfolding x by (cases rule: order_step_cases[of a b g e])
      (use 1 x in \<open>auto intro!: grows_refl guarded_add(1) simp: ordered_def\<close>)
next
  case (2 g x e)
  obtain a b where x: "x = (a, b)" by (cases x)
  show ?case
    unfolding x
  proof (cases rule: order_step_cases[of a b g e])
    case (edge u d r i)
    then have "node_id u \<notin> anc g (node_id d)" by (auto simp: ordered_def)
    with 2 x edge have "ordered (fst (order_step (a, b) (g, e))) (node_id u) (node_id d)"
      by (auto intro!: guarded_add(2))
    with edge(1) show "order_settled (a, b) (fst (order_step (a, b) (g, e)))"
      by (auto simp: order_settled_def ordered_sym)
  qed simp
next
  case (3 x g h)
  then show ?case by (auto simp: order_settled_def grows_ordered)
next
  case (4 x g e)
  then show ?case by (cases x) (auto simp: order_step_def order_settled_def Let_def)
qed

section \<open>The whole derivation\<close>

lemma fold_flatten: "fold (\<lambda>n. fold (f n) (h n)) ns st = fold (\<lambda>(n, x). f n x) (concat (map (\<lambda>n. map (Pair n) (h n)) ns)) st"
  by (induction ns arbitrary: st) (auto simp: fold_map comp_def)

lemma fold_flatten3:
  "fold (\<lambda>n. fold (\<lambda>s. fold (f n s) (k n s)) (h n)) ns st
   = fold (\<lambda>(n, s, x). f n s x) (concat (map (\<lambda>n. concat (map (\<lambda>s. map (\<lambda>x. (n, s, x)) (k n s)) (h n))) ns)) st"
proof -
  have "fold (\<lambda>s. fold (f n s) (k n s)) xs st
      = fold (\<lambda>(n, s, x). f n s x) (concat (map (\<lambda>s. map (\<lambda>x. (n, s, x)) (k n s)) xs)) st" for n xs st
    by (induction xs arbitrary: st) (auto simp: fold_map comp_def)
  then show ?thesis by (induction ns arbitrary: st) auto
qed

lemma pairs_items: "(a, b) \<in> set (pairs (unique_nodes g)) \<Longrightarrow>
    a \<in> set (unique_nodes g) \<and> b \<in> set (unique_nodes g) \<and> node_id a \<noteq> node_id b"
proof -
  have "distinct (map node_id ns) \<Longrightarrow> (a, b) \<in> set (pairs ns) \<Longrightarrow>
      a \<in> set ns \<and> b \<in> set ns \<and> node_id a \<noteq> node_id b" for ns
    by (induction ns) auto
  then show "(a, b) \<in> set (pairs (unique_nodes g)) \<Longrightarrow> ?thesis" using distinct_unique_nodes by blast
qed

text \<open>What every step of the derivation leaves settled in the final graph.\<close>

definition all_settled :: "repo_index \<Rightarrow> graph \<Rightarrow> bool" where
  "all_settled idx h \<longleftrightarrow>
     (\<forall>n\<in>set (unique_nodes h). \<forall>s\<in>set (requires n). interface_settled idx (unique_nodes h) (n, s) h)
     \<and> (\<forall>n\<in>set (unique_nodes h). \<forall>s\<in>set (requires_impl n).
          \<forall>m\<in>set (implementers (unique_nodes h) s (node_id n)). implementation_settled (n, s, m) h)
     \<and> (\<forall>n\<in>set (unique_nodes h). \<forall>r\<in>set (context_files n). context_settled idx (unique_nodes h) (n, r) h)
     \<and> (\<forall>(a, b)\<in>set (pairs (unique_nodes h)). order_settled (a, b) h)"

lemma implementers_in:
  "m \<in> set (implementers ns s i) \<Longrightarrow> m \<in> set ns \<and> node_id m \<noteq> i"
  by (auto simp: implementers_def)

lemma derive_interface_edges_pass:
  assumes "derive_interface_edges idx g es = (h, st)"
  shows "grows g h" "n \<in> set (unique_nodes g) \<Longrightarrow> s \<in> set (requires n) \<Longrightarrow>
    interface_settled idx (unique_nodes g) (n, s) h"
proof -
  let ?xs = "concat (map (\<lambda>n. map (Pair n) (requires n)) (unique_nodes g))"
  have items: "\<forall>x\<in>set ?xs. case x of (n, s) \<Rightarrow> unique_nodes g = unique_nodes g \<and> n \<in> set (unique_nodes g)" by auto
  have h: "h = fst (fold (\<lambda>(n, s). interface_step idx (unique_nodes g) n s) ?xs (g, es, []))"
    using assms by (simp add: derive_interface_edges_def fold_flatten)
  show "grows g h" using interface_pass.pass_grows[OF items] h by simp
  show "interface_settled idx (unique_nodes g) (n, s) h" if "n \<in> set (unique_nodes g)" "s \<in> set (requires n)"
    unfolding h by (rule interface_pass.pass_settles[OF items]) (use that in auto)
qed

lemma derive_implementation_edges_pass:
  assumes "derive_implementation_edges g es = (h, st)"
  shows "grows g h" "n \<in> set (unique_nodes g) \<Longrightarrow> s \<in> set (requires_impl n) \<Longrightarrow>
    m \<in> set (implementers (unique_nodes g) s (node_id n)) \<Longrightarrow> implementation_settled (n, s, m) h"
proof -
  let ?xs = "concat (map (\<lambda>n. concat (map (\<lambda>s. map (\<lambda>m. (n, s, m))
    (implementers (unique_nodes g) s (node_id n))) (requires_impl n))) (unique_nodes g))"
  have items: "\<forall>x\<in>set ?xs. case x of (n, s, m) \<Rightarrow>
      n \<in> set (unique_nodes g) \<and> m \<in> set (unique_nodes g) \<and> node_id m \<noteq> node_id n"
    by (auto dest: implementers_in)
  have h: "h = fst (fold (\<lambda>(n, s, m). implementation_step n s m) ?xs (g, es))"
    using assms by (simp add: derive_implementation_edges_def fold_flatten3)
  show "grows g h" using implementation_pass.pass_grows[OF items] h by simp
  show "implementation_settled (n, s, m) h"
    if "n \<in> set (unique_nodes g)" "s \<in> set (requires_impl n)" "m \<in> set (implementers (unique_nodes g) s (node_id n))"
    unfolding h by (rule implementation_pass.pass_settles[OF items]) (use that in auto)
qed

lemma derive_context_file_edges_pass:
  assumes "derive_context_file_edges idx g es = (h, st)"
  shows "grows g h" "n \<in> set (unique_nodes g) \<Longrightarrow> r \<in> set (context_files n) \<Longrightarrow>
    context_settled idx (unique_nodes g) (n, r) h"
proof -
  let ?xs = "concat (map (\<lambda>n. map (Pair n) (context_files n)) (unique_nodes g))"
  have items: "\<forall>x\<in>set ?xs. case x of (n, s) \<Rightarrow> unique_nodes g = unique_nodes g \<and> n \<in> set (unique_nodes g)" by auto
  have h: "h = fst (fold (\<lambda>(n, s). context_step idx (unique_nodes g) n s) ?xs (g, es))"
    using assms by (simp add: derive_context_file_edges_def fold_flatten)
  show "grows g h" using context_pass.pass_grows[OF items] h by simp
  show "context_settled idx (unique_nodes g) (n, r) h" if "n \<in> set (unique_nodes g)" "r \<in> set (context_files n)"
    unfolding h by (rule context_pass.pass_settles[OF items]) (use that in auto)
qed

lemma derive_order_edges_pass:
  assumes "derive_order_edges g es = (h, st)"
  shows "grows g h" "(a, b) \<in> set (pairs (unique_nodes g)) \<Longrightarrow> order_settled (a, b) h"
proof -
  have items: "\<forall>x\<in>set (pairs (unique_nodes g)). case x of (a, b) \<Rightarrow>
      a \<in> set (unique_nodes g) \<and> b \<in> set (unique_nodes g) \<and> node_id a \<noteq> node_id b"
    using pairs_items by blast
  have h: "h = fst (fold order_step (pairs (unique_nodes g)) (g, es))"
    using assms by (simp add: derive_order_edges_def)
  show "grows g h" using order_pass.pass_grows[OF items] h by simp
  show "order_settled (a, b) h" if "(a, b) \<in> set (pairs (unique_nodes g))"
    unfolding h by (rule order_pass.pass_settles[OF items that])
qed

lemma derive_edges_final:
  obtains g1 es1 pend g2 es2 g3 es3 h es4 where
    "derive_interface_edges idx g [] = (g1, es1, pend)" "derive_implementation_edges g1 es1 = (g2, es2)"
    "derive_context_file_edges idx g2 es2 = (g3, es3)" "derive_order_edges g3 es3 = (h, es4)"
    "derive_edges g idx = (h\<lparr>revision_log := revision_log h @ es4 @ unresolved_provider_entries h pend\<rparr>,
       es4 @ unresolved_provider_entries h pend)"
proof -
  obtain g1 es1 pend where 1: "derive_interface_edges idx g [] = (g1, es1, pend)"
    by (cases "derive_interface_edges idx g []")
  obtain g2 es2 where 2: "derive_implementation_edges g1 es1 = (g2, es2)"
    by (cases "derive_implementation_edges g1 es1")
  obtain g3 es3 where 3: "derive_context_file_edges idx g2 es2 = (g3, es3)"
    by (cases "derive_context_file_edges idx g2 es2")
  obtain h es4 where 4: "derive_order_edges g3 es3 = (h, es4)" by (cases "derive_order_edges g3 es3")
  show ?thesis
    by (rule that[OF 1 2 3 4]) (simp add: 1 2 3 4 derive_edges_def derive_dependency_edges_def Let_def)
qed

lemma derive_edges_grows:
  obtains h l where "grows g h" "all_settled idx h" "fst (derive_edges g idx) = h\<lparr>revision_log := l\<rparr>"
proof -
  obtain g1 es1 pend g2 es2 g3 es3 h es4 where
    d: "derive_interface_edges idx g [] = (g1, es1, pend)" "derive_implementation_edges g1 es1 = (g2, es2)"
       "derive_context_file_edges idx g2 es2 = (g3, es3)" "derive_order_edges g3 es3 = (h, es4)"
    and f: "fst (derive_edges g idx) = h\<lparr>revision_log := revision_log h @ es4 @ unresolved_provider_entries h pend\<rparr>"
    by (rule derive_edges_final[of idx g]) auto
  note p1 = derive_interface_edges_pass[OF d(1)] and p2 = derive_implementation_edges_pass[OF d(2)]
    and p3 = derive_context_file_edges_pass[OF d(3)] and p4 = derive_order_edges_pass[OF d(4)]
  have g: "grows g3 h" "grows g2 h" "grows g1 h" "grows g h"
    using p1(1) p2(1) p3(1) p4(1) by (blast intro: grows_trans)+
  have u: "unique_nodes g = unique_nodes h" "unique_nodes g1 = unique_nodes h"
    "unique_nodes g2 = unique_nodes h" "unique_nodes g3 = unique_nodes h"
    using g by (auto dest: grows_same)
  have "all_settled idx h"
    unfolding all_settled_def
    using p1(2) p2(2) p3(2) p4(2) g(1-3) unfolding u
    by (blast intro: interface_pass.settled_grows implementation_pass.settled_grows context_pass.settled_grows)
  with g(4) f show ?thesis using that by blast
qed

lemma log_frame [simp]:
  "node_ids (g\<lparr>revision_log := l\<rparr>) = node_ids g" "unique_nodes (g\<lparr>revision_log := l\<rparr>) = unique_nodes g"
  "usable_edges (g\<lparr>revision_log := l\<rparr>) = usable_edges g" "by_id (g\<lparr>revision_log := l\<rparr>) = by_id g"
  by (simp_all add: node_ids_def unique_nodes_def usable_edges_def by_id_def)

lemma structure_ok_log [simp]: "structure_ok (g\<lparr>revision_log := l\<rparr>) = structure_ok g"
  by (simp add: structure_ok_def)

lemma interfaces_ok_log [simp]: "interfaces_ok (g\<lparr>revision_log := l\<rparr>) = interfaces_ok g"
  by (simp add: interfaces_ok_def)

lemma ordered_log [simp]: "ordered (g\<lparr>revision_log := l\<rparr>) = ordered g"
  by (simp add: ordered_def fun_eq_iff)

lemma all_settled_log [simp]: "all_settled idx (g\<lparr>revision_log := l\<rparr>) = all_settled idx g"
  by (simp add: all_settled_def interface_settled_def implementation_settled_def context_settled_def
      order_settled_def provided_upstream_def)

lemma grows_derived:
  "grows g h \<Longrightarrow> \<exists>es. edges h = edges g @ es \<and> (\<forall>e\<in>set es. edge_source e = From_derived)"
  by (induction rule: grows.induct) (auto simp: derived_edge_def)

lemma derive_stays:
  assumes "all_settled idx g"
  shows "edges (fst (derive_edges g idx)) = edges g"
proof -
  obtain g1 es1 pend g2 es2 g3 es3 h es4 where
    d: "derive_interface_edges idx g [] = (g1, es1, pend)" "derive_implementation_edges g1 es1 = (g2, es2)"
       "derive_context_file_edges idx g2 es2 = (g3, es3)" "derive_order_edges g3 es3 = (h, es4)"
    and f: "fst (derive_edges g idx) = h\<lparr>revision_log := revision_log h @ es4 @ unresolved_provider_entries h pend\<rparr>"
    by (rule derive_edges_final[of idx g]) auto
  note st = assms[unfolded all_settled_def]
  have 1: "g1 = g"
    using d(1) interface_pass.pass_stays[of "concat (map (\<lambda>n. map (Pair n) (requires n)) (unique_nodes g))"
        idx "unique_nodes g" g "([], [])"] st
    by (simp add: derive_interface_edges_def fold_flatten)
  have 2: "g2 = g"
    using d(2)[unfolded 1] implementation_pass.pass_stays[of "concat (map (\<lambda>n. concat (map (\<lambda>s. map (\<lambda>m. (n, s, m))
        (implementers (unique_nodes g) s (node_id n))) (requires_impl n))) (unique_nodes g))" g es1] st
    by (simp add: derive_implementation_edges_def fold_flatten3)
  have 3: "g3 = g"
    using d(3)[unfolded 2] context_pass.pass_stays[of "concat (map (\<lambda>n. map (Pair n) (context_files n)) (unique_nodes g))"
        idx "unique_nodes g" g es2] st
    by (simp add: derive_context_file_edges_def fold_flatten)
  have 4: "h = g"
    using d(4)[unfolded 3] order_pass.pass_stays[of "pairs (unique_nodes g)" g es3] st
    by (simp add: derive_order_edges_def)
  show ?thesis using f 4 by simp
qed

lemma ordered_pair_None: "ordered_pair a b (conflicting_files a b) = None \<longleftrightarrow>
    (\<exists>p\<in>conflicting_files a b. p \<in> set (create (node_edit_set a)) \<and> p \<in> set (modify (node_edit_set b)))
    \<and> (\<exists>q\<in>conflicting_files a b. q \<in> set (create (node_edit_set b)) \<and> q \<in> set (modify (node_edit_set a)))"
proof -
  have "finite (conflicting_files a b)" by (simp add: conflicting_files_def edit_files_def)
  then show ?thesis
    by (auto simp: ordered_pair_def creates_what_other_modifies_def Let_def)
qed

section \<open>Properties\<close>

text \<open>C2: Deriving edges never damages a plan: the nodes stay, the given edges stay in front and
  only derived edges are appended, and a graph with sound structure (V1), without cycles (V2) and
  with interface edges only from contracts (V9) still has these properties.\<close>

theorem derive_edges_safe:
  assumes "structure_ok g" "acyclic (edge_rel g)" "interfaces_ok g"
  shows "nodes (fst (derive_edges g idx)) = nodes g
    \<and> (\<exists>es. edges (fst (derive_edges g idx)) = edges g @ es \<and> (\<forall>e\<in>set es. edge_source e = From_derived))
    \<and> structure_ok (fst (derive_edges g idx)) \<and> acyclic (edge_rel (fst (derive_edges g idx)))
    \<and> interfaces_ok (fst (derive_edges g idx))"
proof -
  obtain h l where h: "grows g h" "fst (derive_edges g idx) = h\<lparr>revision_log := l\<rparr>"
    by (rule derive_edges_grows[of g idx])
  with assms show ?thesis
    using grows_derived[OF h(1)] grows_nodes[OF h(1)] grows_structure[OF h(1)] grows_acyclic[OF h(1)]
      grows_interfaces[OF h(1)] by simp
qed

text \<open>C3: After derivation two nodes that edit a common file in conflict are ordered, unless each
  creates a conflicting file that the other modifies (the one case the derivation reports instead).\<close>

theorem derive_edges_orders_conflicts:
  assumes "a \<in> set (unique_nodes g)" "b \<in> set (unique_nodes g)" "a \<noteq> b" "conflicting_files a b \<noteq> {}"
  shows "ordered (fst (derive_edges g idx)) (node_id a) (node_id b)
    \<or> (\<exists>p\<in>conflicting_files a b. p \<in> set (create (node_edit_set a)) \<and> p \<in> set (modify (node_edit_set b)))
      \<and> (\<exists>q\<in>conflicting_files a b. q \<in> set (create (node_edit_set b)) \<and> q \<in> set (modify (node_edit_set a)))"
proof -
  obtain h l where h: "grows g h" "all_settled idx h" "fst (derive_edges g idx) = h\<lparr>revision_log := l\<rparr>"
    by (rule derive_edges_grows[of g idx])
  let ?P = "\<lambda>a b. conflicting_files a b \<noteq> {} \<longrightarrow> ordered h (node_id a) (node_id b)
    \<or> (\<exists>p\<in>conflicting_files a b. p \<in> set (create (node_edit_set a)) \<and> p \<in> set (modify (node_edit_set b)))
      \<and> (\<exists>q\<in>conflicting_files a b. q \<in> set (create (node_edit_set b)) \<and> q \<in> set (modify (node_edit_set a)))"
  have "\<forall>(a, b)\<in>set (pairs (unique_nodes g)). ?P a b"
    using h(2) grows_same(2)[OF h(1)] by (auto simp: all_settled_def order_settled_def ordered_pair_None)
  then have "\<forall>a\<in>set (unique_nodes g). \<forall>b\<in>set (unique_nodes g). a \<noteq> b \<longrightarrow> ?P a b"
    by (subst (asm) pairs_all) (use distinct_unique_nodes[of g] in
        \<open>auto simp: distinct_map conflicting_files_sym ordered_sym\<close>)
  with assms h(3) show ?thesis by simp
qed

text \<open>After derivation every implementer of a symbol that a node needs implemented is an
  ancestor of the node, unless the node is an ancestor of the implementer (a dependency the plan
  already had the other way round).\<close>

theorem derive_edges_orders_implementers:
  assumes "n \<in> set (unique_nodes g)" "s \<in> set (requires_impl n)"
    and "m \<in> set (implementers (unique_nodes g) s (node_id n))"
  shows "node_id m \<in> anc (fst (derive_edges g idx)) (node_id n)
    \<or> node_id n \<in> anc (fst (derive_edges g idx)) (node_id m)"
proof -
  obtain h l where h: "grows g h" "all_settled idx h" "fst (derive_edges g idx) = h\<lparr>revision_log := l\<rparr>"
    by (rule derive_edges_grows[of g idx])
  with assms have "implementation_settled (n, s, m) h"
    using grows_same(2)[OF h(1)] by (auto simp: all_settled_def)
  then show ?thesis using h(3) by (simp add: implementation_settled_def ordered_def)
qed

text \<open>Derivation is complete: running it again on its own result adds no edge.\<close>

theorem derive_edges_idempotent:
  "edges (fst (derive_edges (fst (derive_edges g idx)) idx)) = edges (fst (derive_edges g idx))"
proof -
  obtain h l where "all_settled idx h" "fst (derive_edges g idx) = h\<lparr>revision_log := l\<rparr>"
    by (rule derive_edges_grows[of g idx])
  then show ?thesis using derive_stays[of idx "h\<lparr>revision_log := l\<rparr>"] by simp
qed

end
