(* ===== verification/Fixtures.thy ===== *)
theory Fixtures
  imports Derive
begin

text \<open>
  Small concrete plans on which the properties are evaluated: a contract \<open>A\<close> that creates
  \<open>a.py\<close>, an implementer \<open>B\<close> that modifies it, and a node \<open>C\<close> that needs the implementation.
\<close>

definition mk_node :: "string \<Rightarrow> node_kind \<Rightarrow> string list \<Rightarrow> string list \<Rightarrow> string list \<Rightarrow> string list \<Rightarrow>
    string list \<Rightarrow> node" where
  "mk_node i k mods creates reqs impls provs =
     \<lparr>node_id = i, title = i, kind = k, goal = ''g'',
      node_edit_set = \<lparr>any_file = False, modify = mods, create = creates, es_symbols = [], shared = []\<rparr>,
      requires = reqs, requires_impl = impls, provides = provs,
      node_check = \<lparr>commands = [''t''], timeout_s = 300, post_merge_commands = None\<rparr>,
      context_files = [], node_size = None, run_after_failed_upstream = False\<rparr>"

definition mk_graph :: "node list \<Rightarrow> edge list \<Rightarrow> graph" where
  "mk_graph ns es = \<lparr>request_id = ''r'', request = ''r'', repo = ''r'', base_commit = ''c'',
     final_checks = [''t''],
     generator = \<lparr>gen_kind = Manual_gen, planner_version = None, gen_model = None, revision_mode = None,
       ablate = None\<rparr>,
     nodes = ns, edges = es, revision_log = []\<rparr>"

definition toy_index :: repo_index where
  "toy_index = \<lparr>commit = ''c'', files = {}, symbols = {}, index_warnings = [], markdown_titles = []\<rparr>"

definition toy_A :: node where
  "toy_A = mk_node ''A'' Contract [] [''a.py''] [] [] [''a.py::f'']"

definition toy_B :: node where
  "toy_B = mk_node ''B'' Implement [''a.py''] [] [''a.py::f''] [] [''a.py::f'']"

definition toy_C :: node where
  "toy_C = mk_node ''C'' Implement [] [''c.py''] [] [''a.py::f''] []"

definition toy_graph :: graph where
  "toy_graph = mk_graph [toy_A, toy_B, toy_C] []"

lemmas toy_defs = toy_graph_def toy_A_def toy_B_def toy_C_def mk_graph_def mk_node_def toy_index_def

lemma toy_structure: "structure_ok toy_graph"
  by (simp add: structure_ok_def toy_defs node_ids_def)

lemma toy_edge_rel: "edge_rel toy_graph = {}"
  by (simp add: edge_rel_def usable_edges_def toy_defs)

lemma toy_interfaces: "interfaces_ok toy_graph"
  by (simp add: interfaces_ok_def usable_edges_def toy_defs)

lemma toy_unique: "unique_nodes toy_graph = [toy_A, toy_B, toy_C]"
  by (simp add: unique_nodes_def toy_defs)

lemma toy_derived: "report_ok (validate (fst (derive_edges toy_graph toy_index)) (Some toy_index))"
  by code_simp

end
