(* ===== verification/Effects.thy ===== *)
theory Effects
  imports Prelude
begin

text \<open>
  Code that changes state and may raise: an action takes a state and gives the value or the
  exception together with the new state. \<open>bind_act\<close> is sequencing (an exception skips the rest),
  \<open>finally_act\<close> is \<open>try ... finally\<close>, \<open>catch_act\<close> is \<open>try ... except Exception\<close>.

  \<open>wp m Q E s\<close> says that \<open>m\<close> started in \<open>s\<close> ends normally in a state with \<open>Q\<close> or raises in a
  state with \<open>E\<close>; every action is total. The equations of \<open>wp_simps\<close> push it through the
  combinators, so that a proof about a routine is a proof about its primitive calls.
\<close>

datatype exn = Exn (exn_type: string) (exn_text: string)

type_synonym ('s, 'a) act = "'s \<Rightarrow> (exn + 'a) \<times> 's"

named_theorems wp_simps \<open>equations of wp for the combinators and the state primitives\<close>

definition ret :: "'a \<Rightarrow> ('s, 'a) act" where
  "ret a = (\<lambda>s. (Inr a, s))"

definition raise_exn :: "exn \<Rightarrow> ('s, 'a) act" where
  "raise_exn e = (\<lambda>s. (Inl e, s))"

definition bind_act :: "('s, 'a) act \<Rightarrow> ('a \<Rightarrow> ('s, 'b) act) \<Rightarrow> ('s, 'b) act" where
  "bind_act m f = (\<lambda>s. case m s of (Inl e, s') \<Rightarrow> (Inl e, s') | (Inr a, s') \<Rightarrow> f a s')"

definition seq_act :: "('s, 'a) act \<Rightarrow> ('s, 'b) act \<Rightarrow> ('s, 'b) act" where
  "seq_act m k = bind_act m (\<lambda>_. k)"

definition get_act :: "('s \<Rightarrow> 'a) \<Rightarrow> ('s, 'a) act" where
  "get_act f = (\<lambda>s. (Inr (f s), s))"

definition upd_act :: "('s \<Rightarrow> 's) \<Rightarrow> ('s, unit) act" where
  "upd_act f = (\<lambda>s. (Inr (), f s))"

definition when_act :: "bool \<Rightarrow> ('s, unit) act \<Rightarrow> ('s, unit) act" where
  "when_act b m = (if b then m else ret ())"

text \<open>A block of statements.\<close>

definition do_all :: "('s, unit) act list \<Rightarrow> ('s, unit) act" where
  "do_all ms = foldr seq_act ms (ret ())"

text \<open>The exception of the clean-up replaces the one of the body.\<close>

definition finally_act :: "('s, 'a) act \<Rightarrow> ('s, unit) act \<Rightarrow> ('s, 'a) act" where
  "finally_act m k = (\<lambda>s. case m s of (r, s') \<Rightarrow>
     (case k s' of (Inl e, s'') \<Rightarrow> (Inl e, s'') | (Inr _, s'') \<Rightarrow> (r, s'')))"

definition catch_act :: "('s, 'a) act \<Rightarrow> (exn \<Rightarrow> ('s, 'a) act) \<Rightarrow> ('s, 'a) act" where
  "catch_act m h = (\<lambda>s. case m s of (Inl e, s') \<Rightarrow> h e s' | (Inr a, s') \<Rightarrow> (Inr a, s'))"

definition wp :: "('s, 'a) act \<Rightarrow> ('a \<Rightarrow> 's \<Rightarrow> bool) \<Rightarrow> (exn \<Rightarrow> 's \<Rightarrow> bool) \<Rightarrow> 's \<Rightarrow> bool" where
  "wp m Q E s = (case m s of (Inl e, s') \<Rightarrow> E e s' | (Inr a, s') \<Rightarrow> Q a s')"

lemma wp_ret [wp_simps]: "wp (ret a) Q E = Q a"
  by (simp add: wp_def ret_def fun_eq_iff)

lemma wp_raise [wp_simps]: "wp (raise_exn e) Q E s = E e s"
  by (simp add: wp_def raise_exn_def)

lemma wp_bind [wp_simps]: "wp (bind_act m f) Q E s = wp m (\<lambda>a. wp (f a) Q E) E s"
  by (simp add: wp_def bind_act_def split: prod.splits sum.splits)

lemma wp_seq [wp_simps]: "wp (seq_act m k) Q E s = wp m (\<lambda>_. wp k Q E) E s"
  by (simp add: seq_act_def wp_bind)

lemma wp_get [wp_simps]: "wp (get_act f) Q E s = Q (f s) s"
  by (simp add: wp_def get_act_def)

lemma wp_upd [wp_simps]: "wp (upd_act f) Q E s = Q () (f s)"
  by (simp add: wp_def upd_act_def)

lemma wp_when [wp_simps]: "wp (when_act b m) Q E s = (if b then wp m Q E s else Q () s)"
  by (simp add: when_act_def wp_ret)

lemma wp_do_all [wp_simps]:
  "wp (do_all []) Q E s = Q () s" "wp (do_all (m # ms)) Q E s = wp m (\<lambda>_. wp (do_all ms) Q E) E s"
  by (simp_all add: do_all_def wp_ret wp_seq)

lemma wp_finally [wp_simps]:
  "wp (finally_act m k) Q E s = wp m (\<lambda>a. wp k (\<lambda>_. Q a) E) (\<lambda>e. wp k (\<lambda>_. E e) E) s"
  by (simp add: wp_def finally_act_def split: prod.splits sum.splits)

lemma wp_catch [wp_simps]: "wp (catch_act m h) Q E s = wp m Q (\<lambda>e. wp (h e) Q E) s"
  by (simp add: wp_def catch_act_def split: prod.splits sum.splits)

lemma wp_if [wp_simps]: "wp (if b then m else k) Q E s = (if b then wp m Q E s else wp k Q E s)"
  by simp

lemma wp_mono:
  "wp m Q E s \<Longrightarrow> (\<And>a t. Q a t \<Longrightarrow> Q' a t) \<Longrightarrow> (\<And>e t. E e t \<Longrightarrow> E' e t) \<Longrightarrow> wp m Q' E' s"
  by (auto simp: wp_def split: prod.splits sum.splits)

lemma wp_conj: "wp m Q E s \<Longrightarrow> wp m Q' E' s \<Longrightarrow> wp m (\<lambda>a t. Q a t \<and> Q' a t) (\<lambda>e t. E e t \<and> E' e t) s"
  by (auto simp: wp_def split: prod.splits sum.splits)

lemma wp_True [simp]: "wp m (\<lambda>_ _. True) (\<lambda>_ _. True) s"
  by (auto simp: wp_def split: prod.splits sum.splits)

lemma wp_any: "(\<And>a t. Q a t) \<Longrightarrow> (\<And>e t. E e t) \<Longrightarrow> wp m Q E s"
  by (auto simp: wp_def split: prod.splits sum.splits)

lemma wp_state: "wp m (\<lambda>_. P) (\<lambda>_. P) s \<longleftrightarrow> P (snd (m s))"
  by (auto simp: wp_def split: prod.splits sum.splits)

text \<open>An action keeps a predicate, whether it ends or raises.\<close>

definition keeps :: "('s \<Rightarrow> bool) \<Rightarrow> ('s, 'a) act \<Rightarrow> bool" where
  "keeps P m = (\<forall>s. P s \<longrightarrow> wp m (\<lambda>_. P) (\<lambda>_. P) s)"

lemma keepsD: "keeps P m \<Longrightarrow> P s \<Longrightarrow> (\<And>a t. P t \<Longrightarrow> Q a t) \<Longrightarrow> (\<And>e t. P t \<Longrightarrow> E e t) \<Longrightarrow> wp m Q E s"
  unfolding keeps_def by (rule wp_mono[where Q = "\<lambda>_. P" and E = "\<lambda>_. P"]) simp_all

lemma keeps_wp: "keeps P m \<Longrightarrow> P s \<Longrightarrow> wp m (\<lambda>_. P) (\<lambda>_. P) s"
  by (simp add: keeps_def)

lemma wp_bind_keeps: "wp m (\<lambda>_. P) (\<lambda>_. P) s \<Longrightarrow> (\<And>a. keeps P (f a)) \<Longrightarrow> wp (bind_act m f) (\<lambda>_. P) (\<lambda>_. P) s"
  unfolding wp_bind by (erule wp_mono) (simp_all add: keeps_def)

lemma keeps_ret: "keeps P (ret a)"
  by (simp add: keeps_def wp_simps)

lemma keeps_raise: "keeps P (raise_exn e)"
  by (simp add: keeps_def wp_simps)

lemma keeps_bind: "keeps P m \<Longrightarrow> (\<And>a. keeps P (f a)) \<Longrightarrow> keeps P (bind_act m f)"
  unfolding keeps_def wp_bind by (auto elim!: wp_mono)

lemma keeps_seq: "keeps P m \<Longrightarrow> keeps P k \<Longrightarrow> keeps P (seq_act m k)"
  by (simp add: seq_act_def keeps_bind)

lemma keeps_when: "(b \<Longrightarrow> keeps P m) \<Longrightarrow> keeps P (when_act b m)"
  by (simp add: when_act_def keeps_ret)

lemma keeps_if: "(b \<Longrightarrow> keeps P m) \<Longrightarrow> (\<not> b \<Longrightarrow> keeps P k) \<Longrightarrow> keeps P (if b then m else k)"
  by auto

lemma keeps_get: "keeps P (get_act f)"
  by (simp add: keeps_def wp_simps)

lemma keeps_upd: "(\<And>s. P s \<Longrightarrow> P (f s)) \<Longrightarrow> keeps P (upd_act f)"
  by (simp add: keeps_def wp_simps)

lemma keeps_prod: "(\<And>x y. keeps P (f x y)) \<Longrightarrow> keeps P (case p of (x, y) \<Rightarrow> f x y)"
  by (cases p) simp

lemma keeps_catch: "keeps P m \<Longrightarrow> (\<And>e. keeps P (h e)) \<Longrightarrow> keeps P (catch_act m h)"
  unfolding keeps_def wp_catch by (auto elim!: wp_mono)

lemma keeps_finally: "keeps P m \<Longrightarrow> keeps P k \<Longrightarrow> keeps P (finally_act m k)"
  unfolding keeps_def wp_finally by (auto elim!: wp_mono)

lemma keeps_do_all: "keeps P (do_all [])" "keeps P m \<Longrightarrow> keeps P (do_all ms) \<Longrightarrow> keeps P (do_all (m # ms))"
  by (simp_all add: do_all_def keeps_ret keeps_seq)

text \<open>The rules that take a routine apart, for \<open>intro\<close>; what is left are its primitive calls.\<close>

lemmas keeps_rules = keeps_ret keeps_raise keeps_bind keeps_seq keeps_when keeps_if keeps_get keeps_upd
  keeps_catch keeps_finally keeps_do_all keeps_prod

end
