(* ===== verification/Gitops.thy ===== *)
theory Gitops
  imports Effects
begin

text \<open>
  The git operations of \<open>taskgraph/gitops.py\<close> that a run uses. The \<open>git\<close> program is a
  parameter: \<open>run_git\<close> takes the directory and the arguments and gives the completed process, or
  the text of the \<open>OSError\<close> when it could not be started, and changes the world.

  \<open>git_laws\<close> states what git's documentation says these commands do to the integration branch,
  whose commits (newest first) are \<open>hist\<close> of the world. Over it, a squash merge adds one commit
  or leaves the branch as it is, and an undo takes the last commit away.
\<close>

record git_proc =
  returncode :: int
  stdout :: string
  stderr :: string

type_synonym 'w git_program = "string \<Rightarrow> string list \<Rightarrow> 'w \<Rightarrow> (string + git_proc) \<times> 'w"

abbreviation nul_char :: string where
  "nul_char \<equiv> [CHR 0x00]"

definition INTEGRATION_BRANCH :: string where
  "INTEGRATION_BRANCH = ''tg/integration''"

definition NODE_BRANCH_PREFIX :: string where
  "NODE_BRANCH_PREFIX = ''tg/node/''"

definition GitError :: "string \<Rightarrow> exn" where
  "GitError m = Exn ''GitError'' m"

definition git_error_text :: "string \<Rightarrow> string list \<Rightarrow> git_proc \<Rightarrow> string" where
  "git_error_text cwd args p =
     ''git '' @ py_join '' '' args @ '' failed in '' @ cwd @ '': ''
     @ or_str (py_strip (or_str (stderr p) (stdout p))) (''exit code '' @ int_str (returncode p))"

definition git :: "'w git_program \<Rightarrow> bool \<Rightarrow> string \<Rightarrow> string list \<Rightarrow> ('w, git_proc) act" where
  "git run_git chk cwd args = (\<lambda>w. case run_git cwd args w of
      (Inl err, w') \<Rightarrow> (Inl (GitError (''cannot run git: '' @ err)), w')
    | (Inr p, w') \<Rightarrow> if chk \<and> returncode p \<noteq> 0 then (Inl (GitError (git_error_text cwd args p)), w')
                    else (Inr p, w'))"

definition head_commit :: "'w git_program \<Rightarrow> string \<Rightarrow> string \<Rightarrow> ('w, string) act" where
  "head_commit run_git cwd ref =
     bind_act (git run_git True cwd [''rev-parse'', ''--verify'', ref @ ''^{commit}''])
       (\<lambda>p. ret (py_strip (stdout p)))"

definition add_node_worktree :: "'w git_program \<Rightarrow> string \<Rightarrow> string \<Rightarrow> string \<Rightarrow> string \<Rightarrow> ('w, unit) act" where
  "add_node_worktree run_git repo nid path start =
     seq_act (git run_git True repo
       [''worktree'', ''add'', ''-q'', ''-b'', NODE_BRANCH_PREFIX @ nid, path, start]) (ret ())"

text \<open>\<open>remove_worktree\<close>: the directory left behind by a failed removal is deleted by
  \<open>rmtree\<close>, the parameter that changes only files.\<close>

definition remove_worktree :: "'w git_program \<Rightarrow> (string \<Rightarrow> 'w \<Rightarrow> 'w) \<Rightarrow> string \<Rightarrow> string \<Rightarrow> ('w, unit) act" where
  "remove_worktree run_git rmtree repo path =
     bind_act (git run_git False repo [''worktree'', ''remove'', ''--force'', path]) (\<lambda>p.
     seq_act (when_act (returncode p \<noteq> 0) (upd_act (rmtree path)))
     (seq_act (git run_git False repo [''worktree'', ''prune'']) (ret ())))"

definition commit_all :: "'w git_program \<Rightarrow> string \<Rightarrow> string \<Rightarrow> ('w, bool) act" where
  "commit_all run_git wt msg =
     seq_act (git run_git True wt [''add'', ''-A''])
     (bind_act (git run_git False wt [''diff'', ''--cached'', ''--quiet'']) (\<lambda>p.
      if returncode p = 0 then ret False
      else seq_act (git run_git True wt [''commit'', ''-q'', ''--no-verify'', ''-m'', msg]) (ret True)))"

text \<open>The non-empty names of a NUL separated listing, sorted.\<close>

definition nul_names :: "string \<Rightarrow> string list" where
  "nul_names out = sort (filter (\<lambda>n. n \<noteq> []) (py_split out nul_char))"

definition changed_files :: "'w git_program \<Rightarrow> string \<Rightarrow> string \<Rightarrow> string \<Rightarrow> ('w, string list) act" where
  "changed_files run_git cwd start stop =
     bind_act (git run_git True cwd
       [''-c'', ''core.quotepath=off'', ''diff'', ''--name-only'', ''-z'', start, stop])
       (\<lambda>p. ret (nul_names (stdout p)))"

definition diff_patch :: "'w git_program \<Rightarrow> string \<Rightarrow> string \<Rightarrow> string \<Rightarrow> ('w, string) act" where
  "diff_patch run_git cwd start stop =
     bind_act (git run_git True cwd [''diff'', ''--binary'', start, stop]) (\<lambda>p. ret (stdout p))"

definition squash_merge :: "'w git_program \<Rightarrow> string \<Rightarrow> string \<Rightarrow> string \<Rightarrow> ('w, string option) act" where
  "squash_merge run_git repo branch msg =
     bind_act (git run_git False repo [''merge'', ''--squash'', branch]) (\<lambda>p.
      if returncode p \<noteq> 0
      then seq_act (git run_git True repo [''reset'', ''-q'', ''--hard'', ''HEAD'']) (ret None)
      else seq_act (git run_git True repo [''commit'', ''-q'', ''--no-verify'', ''--allow-empty'', ''-m'', msg])
           (bind_act (head_commit run_git repo ''HEAD'') (\<lambda>c. ret (Some c))))"

definition merge_commit_into :: "'w git_program \<Rightarrow> string \<Rightarrow> string \<Rightarrow> string \<Rightarrow> ('w, bool) act" where
  "merge_commit_into run_git wt commit msg =
     bind_act (git run_git False wt [''merge'', ''-q'', ''--no-ff'', ''--no-verify'', ''-m'', msg, commit]) (\<lambda>p.
      if returncode p \<noteq> 0
      then seq_act (git run_git False wt [''merge'', ''--abort''])
           (seq_act (git run_git True wt [''reset'', ''-q'', ''--hard'', ''HEAD'']) (ret False))
      else ret True)"

definition merge_keep_conflicts :: "'w git_program \<Rightarrow> string \<Rightarrow> string \<Rightarrow> ('w, string list) act" where
  "merge_keep_conflicts run_git wt commit =
     bind_act (git run_git False wt [''merge'', ''--no-ff'', ''--no-commit'', ''--no-verify'', commit]) (\<lambda>p.
     bind_act (git run_git True wt
       [''-c'', ''core.quotepath=off'', ''diff'', ''--name-only'', ''--diff-filter=U'', ''-z'']) (\<lambda>d.
     let conflicts = nul_names (stdout d) in
     if returncode p \<noteq> 0 \<and> conflicts = []
     then raise_exn (GitError (''git merge '' @ commit @ '' failed in '' @ wt @ '': ''
            @ or_str (py_strip (or_str (stderr p) (stdout p))) (''exit code '' @ int_str (returncode p))))
     else ret conflicts))"

definition commit_merge :: "'w git_program \<Rightarrow> string \<Rightarrow> string \<Rightarrow> ('w, unit) act" where
  "commit_merge run_git wt msg =
     seq_act (git run_git True wt [''add'', ''-A''])
     (seq_act (git run_git True wt [''commit'', ''-q'', ''--no-verify'', ''--allow-empty'', ''-m'', msg]) (ret ()))"

definition undo_last_commit :: "'w git_program \<Rightarrow> string \<Rightarrow> ('w, unit) act" where
  "undo_last_commit run_git repo =
     seq_act (git run_git True repo [''reset'', ''-q'', ''--hard'', ''HEAD~1'']) (ret ())"

section \<open>What git does to the integration branch\<close>

text \<open>
  \<open>repo\<close> is the clone whose checked-out branch is the integration branch. A command that could
  not be started changes nothing; a command in another directory (a node's worktree, which has a
  branch of its own checked out) leaves the integration branch alone; so do the listing commands,
  \<open>worktree\<close>, \<open>merge --squash\<close> (it stops before the commit) and \<open>reset --hard HEAD\<close>. A successful
  \<open>commit\<close> adds one commit, a successful \<open>reset --hard HEAD~1\<close> drops the newest, \<open>rev-parse\<close>
  prints the newest, and a failed command adds or drops nothing.
\<close>

definition quiet_command :: "string list \<Rightarrow> bool" where
  "quiet_command args = (case args of [] \<Rightarrow> False | a # rest \<Rightarrow>
     a \<in> {''worktree'', ''diff'', ''-c'', ''rev-parse''} \<or> (a = ''merge'' \<and> rest \<noteq> [] \<and> hd rest = ''--squash'')
     \<or> args = [''reset'', ''-q'', ''--hard'', ''HEAD''])"

definition git_laws :: "'w git_program \<Rightarrow> ('w \<Rightarrow> string list) \<Rightarrow> string \<Rightarrow> bool" where
  "git_laws run_git hist repo = (\<forall>cwd args w.
     (let r = fst (run_git cwd args w); h = hist w; h' = hist (snd (run_git cwd args w)) in
      (isl r \<or> cwd \<noteq> repo \<or> quiet_command args \<longrightarrow> h' = h)
      \<and> (\<forall>p rest. r = Inr p \<longrightarrow> cwd = repo \<longrightarrow> args = ''commit'' # rest \<longrightarrow>
           (if returncode p = 0 then \<exists>c. h' = c # h else h' = h))
      \<and> (\<forall>p. r = Inr p \<longrightarrow> cwd = repo \<longrightarrow> args = [''reset'', ''-q'', ''--hard'', ''HEAD~1''] \<longrightarrow>
           h' = (if returncode p = 0 then tl h else h))
      \<and> (\<forall>p. r = Inr p \<longrightarrow> cwd = repo \<longrightarrow> args = [''rev-parse'', ''--verify'', ''HEAD^{commit}''] \<longrightarrow>
           returncode p = 0 \<longrightarrow> h \<noteq> [] \<longrightarrow> py_strip (stdout p) = hd h)))"

lemma git_keeps:
  assumes "git_laws run_git hist repo" "cwd \<noteq> repo \<or> quiet_command args"
  shows "keeps (\<lambda>w. P (hist w)) (git run_git chk cwd args)"
  unfolding keeps_def
proof (intro allI impI)
  fix w assume "P (hist w)"
  moreover have "hist (snd (run_git cwd args w)) = hist w"
    using assms unfolding git_laws_def Let_def by blast
  ultimately show "wp (git run_git chk cwd args) (\<lambda>_ w. P (hist w)) (\<lambda>_ w. P (hist w)) w"
    by (auto simp: wp_def git_def split: prod.splits sum.splits)
qed

lemma quiet_commands [simp]:
  "quiet_command (''worktree'' # a)" "quiet_command (''diff'' # a)" "quiet_command (''-c'' # a)"
  "quiet_command (''rev-parse'' # a)" "quiet_command (''merge'' # ''--squash'' # a)"
  "quiet_command [''reset'', ''-q'', ''--hard'', ''HEAD'']"
  by (simp_all add: quiet_command_def)

lemma git_commit:
  assumes "git_laws run_git hist repo"
  shows "wp (git run_git True repo (''commit'' # rest))
    (\<lambda>_ w'. \<exists>c. hist w' = c # hist w) (\<lambda>_ w'. hist w' = hist w) w"
proof (cases "run_git repo (''commit'' # rest) w")
  case (Pair r w')
  then show ?thesis
    using assms[unfolded git_laws_def Let_def, rule_format, of repo "''commit'' # rest" w]
    by (cases r) (auto simp: wp_def git_def split: if_splits)
qed

lemma undo_hist:
  assumes "git_laws run_git hist repo"
  shows "wp (undo_last_commit run_git repo) (\<lambda>_ w'. hist w' = tl (hist w)) (\<lambda>_ w'. hist w' = hist w) w"
proof (cases "run_git repo [''reset'', ''-q'', ''--hard'', ''HEAD~1''] w")
  case (Pair r w')
  then show ?thesis
    using assms[unfolded git_laws_def Let_def, rule_format, of repo "[''reset'', ''-q'', ''--hard'', ''HEAD~1'']" w]
    by (cases r) (auto simp: undo_last_commit_def seq_act_def bind_act_def ret_def wp_def git_def split: if_splits)
qed

lemma head_hist:
  assumes "git_laws run_git hist repo" "hist w \<noteq> []"
  shows "wp (head_commit run_git repo ''HEAD'') (\<lambda>c w'. hist w' = hist w \<and> c = hd (hist w)) (\<lambda>_ w'. hist w' = hist w) w"
proof (cases "run_git repo [''rev-parse'', ''--verify'', ''HEAD^{commit}''] w")
  case (Pair r w')
  have "hist w' = hist w"
    using assms(1)[unfolded git_laws_def Let_def, rule_format, of repo "[''rev-parse'', ''--verify'', ''HEAD^{commit}'']" w]
      Pair by simp
  moreover have "py_strip (stdout p) = hd (hist w)" if "r = Inr p" "returncode p = 0" for p
    using assms(1)[unfolded git_laws_def Let_def, rule_format, of repo "[''rev-parse'', ''--verify'', ''HEAD^{commit}'']" w]
      Pair that assms(2) by simp
  ultimately show ?thesis using Pair
    by (cases r) (auto simp: head_commit_def bind_act_def ret_def wp_def git_def)
qed

text \<open>A squash merge adds exactly the commit it returns, or nothing when it returns none.\<close>

lemma squash_merge_hist:
  assumes laws: "git_laws run_git hist repo"
  shows "wp (squash_merge run_git repo branch msg)
    (\<lambda>r w'. hist w' = (case r of None \<Rightarrow> hist w | Some c \<Rightarrow> c # hist w))
    (\<lambda>_ w'. hist w' = hist w \<or> (\<exists>c. hist w' = c # hist w)) w"
  unfolding squash_merge_def wp_simps
proof (rule keepsD[OF git_keeps[OF laws, where P = "\<lambda>h. h = hist w"]], goal_cases)
  case (3 p t)
  have "wp (git run_git True repo [''reset'', ''-q'', ''--hard'', ''HEAD''])
      (\<lambda>_ u. hist u = hist w) (\<lambda>_ u. hist u = hist w \<or> (\<exists>c. hist u = c # hist w)) t"
    by (rule keepsD[OF git_keeps[OF laws, where P = "\<lambda>h. h = hist w"]]) (simp_all add: 3)
  moreover have "wp (git run_git True repo [''commit'', ''-q'', ''--no-verify'', ''--allow-empty'', ''-m'', msg])
      (\<lambda>_. wp (head_commit run_git repo ''HEAD'') (\<lambda>c u. hist u = c # hist w)
          (\<lambda>_ u. hist u = hist w \<or> (\<exists>c. hist u = c # hist w)))
      (\<lambda>_ u. hist u = hist w \<or> (\<exists>c. hist u = c # hist w)) t"
  proof (rule wp_mono[OF git_commit[OF laws]], goal_cases)
    case (1 a u)
    then obtain c where c: "hist u = c # hist w" using 3 by auto
    then have "hist u \<noteq> []" by simp
    from head_hist[OF laws this] show ?case
      by (rule wp_mono) (use c in auto)
  qed (simp add: 3)
  ultimately show ?case by simp
qed simp_all

lemma worktree_keeps:
  assumes "git_laws run_git hist repo" "wt \<noteq> repo"
  shows "keeps (\<lambda>w. P (hist w)) (commit_all run_git wt msg)"
    and "keeps (\<lambda>w. P (hist w)) (merge_commit_into run_git wt commit msg)"
    and "keeps (\<lambda>w. P (hist w)) (merge_keep_conflicts run_git wt commit)"
    and "keeps (\<lambda>w. P (hist w)) (commit_merge run_git wt msg)"
  unfolding commit_all_def merge_commit_into_def merge_keep_conflicts_def commit_merge_def Let_def
  by (intro keeps_rules git_keeps[OF assms(1)]; simp add: assms)+

lemma repo_keeps:
  assumes "git_laws run_git hist repo"
  shows "keeps (\<lambda>w. P (hist w)) (changed_files run_git cwd start stop)"
    and "keeps (\<lambda>w. P (hist w)) (diff_patch run_git cwd start stop)"
    and "keeps (\<lambda>w. P (hist w)) (add_node_worktree run_git repo nid path start)"
    and "(\<And>w. hist (rmtree path w) = hist w) \<Longrightarrow> keeps (\<lambda>w. P (hist w)) (remove_worktree run_git rmtree repo path)"
  unfolding changed_files_def diff_patch_def add_node_worktree_def remove_worktree_def
  by (intro keeps_rules git_keeps[OF assms]; simp)+

end
