(* ===== verification/Checks.thy ===== *)
theory Checks
  imports Effects Schema Complex_Main
begin

text \<open>
  The checks of \<open>taskgraph/checks.py\<close>: a list of shell commands run in order
  (\<open>run_checks\<close>), once more after a timeout (\<open>run_checks_with_retry\<close>), and how a sandboxed command's
  result is read. How one command is run is the parameter \<open>run\<close>: it may raise and changes the world.
  Wall-clock durations are not modelled; a duration is only the text that \<open>format\<close> prints.

  A check that passes has run every non-blank command successfully; a check that timed out is run
  exactly once more, and the second run decides.
\<close>

section \<open>Results\<close>

record process_result =
  pr_command :: string
  pr_exit_code :: "int option"
  pr_output :: string
  pr_timed_out :: bool
  pr_duration :: string

definition process_ok :: "process_result \<Rightarrow> bool" where
  "process_ok r = (pr_exit_code r = Some 0 \<and> \<not> pr_timed_out r)"

record command_report =
  cr_command :: string
  cr_ok :: bool
  cr_exit_code :: "int option"
  cr_timed_out :: bool

record check_outcome =
  co_ok :: bool
  co_text :: string
  co_results :: "command_report list"
  co_timed_out :: bool
  co_timeout_retries :: nat

definition CHECK_OUTPUT_LIMIT :: nat where
  "CHECK_OUTPUT_LIMIT = 200000"

definition RETRY_NOTE :: string where
  "RETRY_NOTE = ''[a check command timed out; the check is run once more, unchanged]''"

section \<open>Sandboxed commands\<close>

definition SANDBOX_TIMEOUT_MARGIN_S :: rat where
  "SANDBOX_TIMEOUT_MARGIN_S = 15"

definition TIMEOUT_EXIT_CODES :: "int list" where
  "TIMEOUT_EXIT_CODES = [124, 137]"

definition sandbox_timeout :: "rat \<Rightarrow> rat" where
  "sandbox_timeout timeout = max (timeout - SANDBOX_TIMEOUT_MARGIN_S) (timeout / 2)"

text \<open>What \<open>SandboxChecks.session\<close>'s \<open>run\<close> makes of an executor result: the exit code, the two
  output streams and whether the host stopped the command. \<open>inner\<close> is the printed limit.\<close>

definition end_line :: "string \<Rightarrow> string" where
  "end_line part = (if py_endswith part [CHR 0x0A] \<or> part = [] then part else part @ [CHR 0x0A])"

definition sandbox_result ::
  "string \<Rightarrow> string \<Rightarrow> string \<Rightarrow> int option \<Rightarrow> string \<Rightarrow> string \<Rightarrow> bool \<Rightarrow> process_result" where
  "sandbox_result line inner dur code out err stopped =
     (let output = end_line out @ end_line err;
          inside = \<not> stopped \<and> (\<exists>c\<in>set TIMEOUT_EXIT_CODES. code = Some c);
          timed = stopped \<or> inside
      in \<lparr>pr_command = line, pr_exit_code = (if timed then None else code),
          pr_output = (if inside then output @ ''[timed out after '' @ inner @ '' s inside the sandbox]'' @ [CHR 0x0A]
                       else output),
          pr_timed_out = timed, pr_duration = dur\<rparr>)"

section \<open>Running a list of commands\<close>

definition exit_text :: "process_result \<Rightarrow> string" where
  "exit_text r = (if pr_timed_out r then ''timeout''
     else ''exit '' @ (case pr_exit_code r of None \<Rightarrow> ''None'' | Some c \<Rightarrow> int_str c))"

definition command_part :: "string \<Rightarrow> process_result \<Rightarrow> string" where
  "command_part command r = ''$ '' @ command @ [CHR 0x0A] @ ''['' @ exit_text r @ '', '' @ pr_duration r @ ''s]''
     @ [CHR 0x0A] @ pr_output r"

definition report_of :: "string \<Rightarrow> process_result \<Rightarrow> command_report" where
  "report_of command r = \<lparr>cr_command = command, cr_ok = process_ok r, cr_exit_code = pr_exit_code r,
     cr_timed_out = pr_timed_out r\<rparr>"

fun run_commands :: "(string \<Rightarrow> ('w, process_result) act) \<Rightarrow> bool \<Rightarrow> string list \<Rightarrow>
    string list \<Rightarrow> command_report list \<Rightarrow> bool \<Rightarrow> ('w, string list \<times> command_report list \<times> bool) act" where
  "run_commands run stop [] parts results ok = ret (parts, results, ok)"
| "run_commands run stop (command # rest) parts results ok =
     (if py_strip command = [] then run_commands run stop rest parts results ok
      else bind_act (run command) (\<lambda>r.
        if process_ok r
        then run_commands run stop rest (parts @ [command_part command r]) (results @ [report_of command r]) ok
        else if stop then ret (parts @ [command_part command r], results @ [report_of command r], False)
        else run_commands run stop rest (parts @ [command_part command r]) (results @ [report_of command r]) False))"

definition run_checks :: "(string \<Rightarrow> ('w, process_result) act) \<Rightarrow> bool \<Rightarrow> string list \<Rightarrow> ('w, check_outcome) act" where
  "run_checks run stop cmds =
     bind_act (run_commands run stop cmds [] [] True) (\<lambda>(parts, results, ok).
       ret \<lparr>co_ok = ok, co_text = py_tail CHECK_OUTPUT_LIMIT (py_join [CHR 0x0A] parts), co_results = results,
            co_timed_out = list_ex cr_timed_out results, co_timeout_retries = 0\<rparr>)"

definition run_checks_with_retry ::
  "(string \<Rightarrow> ('w, process_result) act) \<Rightarrow> bool \<Rightarrow> string list \<Rightarrow> ('w, check_outcome) act" where
  "run_checks_with_retry run stop cmds =
     bind_act (run_checks run stop cmds) (\<lambda>first.
     if \<not> co_timed_out first then ret first
     else bind_act (run_checks run stop cmds) (\<lambda>second.
       ret \<lparr>co_ok = co_ok second,
            co_text = py_tail CHECK_OUTPUT_LIMIT
              (co_text first @ [CHR 0x0A] @ RETRY_NOTE @ [CHR 0x0A] @ co_text second),
            co_results = co_results second, co_timed_out = co_timed_out second, co_timeout_retries = 1\<rparr>))"

text \<open>\<open>node.check.post_merge_commands or node.check.commands\<close>: an absent or empty list falls back.\<close>

definition post_merge_commands_of :: "node \<Rightarrow> string list" where
  "post_merge_commands_of n = (case post_merge_commands (node_check n) of
     Some (c # cs) \<Rightarrow> c # cs | _ \<Rightarrow> commands (node_check n))"

section \<open>Properties\<close>

definition real_commands :: "string list \<Rightarrow> string list" where
  "real_commands cs = filter (\<lambda>c. py_strip c \<noteq> []) cs"

text \<open>Every reported command was run in order; the outcome is success exactly when no command is
  missing from the report and none failed.\<close>

definition ran_commands :: "bool \<Rightarrow> string list \<Rightarrow> string list \<Rightarrow> command_report list \<Rightarrow> bool \<Rightarrow> bool" where
  "ran_commands stop before cs results ok =
     ((\<exists>k. map cr_command results = before @ take k cs \<and> (\<not> stop \<or> ok \<longrightarrow> k = length cs))
      \<and> ok = list_all cr_ok results)"

lemma ran_commands_Cons:
  "ran_commands stop (before @ [c]) cs results ok \<Longrightarrow> ran_commands stop before (c # cs) results ok"
proof -
  assume a: "ran_commands stop (before @ [c]) cs results ok"
  then obtain k where "map cr_command results = (before @ [c]) @ take k cs" "\<not> stop \<or> ok \<longrightarrow> k = length cs"
    unfolding ran_commands_def by blast
  then have "map cr_command results = before @ take (Suc k) (c # cs)" "\<not> stop \<or> ok \<longrightarrow> Suc k = length (c # cs)"
    by simp_all
  with a show ?thesis unfolding ran_commands_def by blast
qed

lemma run_commands_wp:
  "ok = list_all cr_ok results \<Longrightarrow>
   wp (run_commands run stop cs parts results ok)
    (\<lambda>(_, results', ok') _. ran_commands stop (map cr_command results) (real_commands cs) results' ok')
    (\<lambda>_ _. True) w"
proof (induction run stop cs parts results ok arbitrary: w rule: run_commands.induct)
  case (1 run stop parts results ok)
  then show ?case by (simp add: wp_simps real_commands_def ran_commands_def)
next
  case (2 run stop command rest parts results ok)
  let ?pre = "map cr_command results" and ?cs = "real_commands (command # rest)"
  show ?case
  proof (cases "py_strip command = []")
    case True
    with 2(1)[OF True 2(4)] show ?thesis by (simp add: real_commands_def)
  next
    case False
    then have cs: "?cs = command # real_commands rest" by (simp add: real_commands_def)
    have tail: "wp (run_commands run stop rest p (results @ [report_of command r]) ok')
        (\<lambda>(_, results', ok') _. ran_commands stop ?pre ?cs results' ok') (\<lambda>_ _. True) t"
      if "wp (run_commands run stop rest p (results @ [report_of command r]) ok')
        (\<lambda>(_, results', ok') _. ran_commands stop (map cr_command (results @ [report_of command r]))
          (real_commands rest) results' ok') (\<lambda>_ _. True) t" for p r ok' t
      by (rule wp_mono[OF that])
        (use ran_commands_Cons[of stop ?pre command "real_commands rest"] cs in \<open>auto simp: report_of_def split_beta\<close>)
    have "wp (if process_ok r
        then run_commands run stop rest (parts @ [command_part command r]) (results @ [report_of command r]) ok
        else if stop then ret (parts @ [command_part command r], results @ [report_of command r], False)
        else run_commands run stop rest (parts @ [command_part command r]) (results @ [report_of command r]) False)
        (\<lambda>(_, results', ok') _. ran_commands stop ?pre ?cs results' ok') (\<lambda>_ _. True) t" for r t
    proof (cases "process_ok r")
      case True
      with 2(4) have "ok = list_all cr_ok (results @ [report_of command r])" by (simp add: report_of_def)
      from tail[OF 2(2)[OF False True this]] True show ?thesis by simp
    next
      case nok: False
      then have bad: "False = list_all cr_ok (results @ [report_of command r])" by (simp add: report_of_def)
      show ?thesis
      proof (cases stop)
        case True
        have "ran_commands stop ?pre ?cs (results @ [report_of command r]) False"
          using True bad by (auto simp: cs report_of_def ran_commands_def intro!: exI[of _ 1])
        with True nok show ?thesis by (simp add: wp_ret)
      next
        case False
        from tail[OF 2(3)[OF \<open>py_strip command \<noteq> []\<close> nok False bad]] False nok show ?thesis by simp
      qed
    qed
    then have "wp (run command) (\<lambda>r. wp (if process_ok r
        then run_commands run stop rest (parts @ [command_part command r]) (results @ [report_of command r]) ok
        else if stop then ret (parts @ [command_part command r], results @ [report_of command r], False)
        else run_commands run stop rest (parts @ [command_part command r]) (results @ [report_of command r]) False)
        (\<lambda>(_, results', ok') _. ran_commands stop ?pre ?cs results' ok') (\<lambda>_ _. True)) (\<lambda>_ _. True) v" for v
      by (auto intro: wp_mono[OF wp_True])
    with False show ?thesis by (simp add: wp_bind)
  qed
qed

definition check_complete :: "bool \<Rightarrow> string list \<Rightarrow> check_outcome \<Rightarrow> bool" where
  "check_complete stop cs c =
     (ran_commands stop [] (real_commands cs) (co_results c) (co_ok c)
      \<and> co_timed_out c = list_ex cr_timed_out (co_results c) \<and> length (co_text c) \<le> CHECK_OUTPUT_LIMIT)"

text \<open>The second run, if there was one, decides: an outcome that still timed out is that of a second run.\<close>

definition retried_once :: "check_outcome \<Rightarrow> bool" where
  "retried_once c = (co_timeout_retries c \<le> 1 \<and> (co_timed_out c \<longrightarrow> co_timeout_retries c = 1))"

lemma length_py_tail [simp]: "length (py_tail n s) = min n (length s)"
  by (simp add: py_tail_def)

lemma run_checks_wp:
  "wp (run_checks run stop cs) (\<lambda>c _. check_complete stop cs c \<and> co_timeout_retries c = 0) (\<lambda>_ _. True) w"
  unfolding run_checks_def wp_bind
  by (rule wp_mono[OF run_commands_wp]) (auto simp: wp_ret split_beta check_complete_def)


lemma keeps_run_commands:
  "(\<And>c. keeps P (run c)) \<Longrightarrow> keeps P (run_commands run stop cs parts results ok)"
proof (induction cs arbitrary: parts results ok)
  case Nil
  show ?case by (simp add: keeps_ret)
next
  case (Cons c cs)
  show ?case unfolding run_commands.simps by (intro keeps_rules Cons)
qed

lemma keeps_run_checks: "(\<And>c. keeps P (run c)) \<Longrightarrow> keeps P (run_checks_with_retry run stop cs)"
  unfolding run_checks_with_retry_def run_checks_def
  by (intro keeps_rules keeps_run_commands)

text \<open>A sandboxed command is stopped inside the sandbox strictly before the host's own limit, and after
  no less than half of it.\<close>

lemma sandbox_timeout_bounds: "0 < t \<Longrightarrow> t / 2 \<le> sandbox_timeout t \<and> sandbox_timeout t < t"
  by (auto simp: sandbox_timeout_def SANDBOX_TIMEOUT_MARGIN_S_def max_def)

text \<open>A command stopped by either limit never counts as successful, whatever its exit code.\<close>

lemma sandbox_result_timeout: "pr_timed_out (sandbox_result l i d code out err stopped) \<Longrightarrow>
    \<not> process_ok (sandbox_result l i d code out err stopped)"
  by (simp add: process_ok_def)

lemma sandbox_result_ok: "process_ok (sandbox_result l i d code out err stopped) \<longleftrightarrow> \<not> stopped \<and> code = Some 0"
  by (auto simp: process_ok_def sandbox_result_def TIMEOUT_EXIT_CODES_def Let_def)

end
