(* ===== verification/Node_Run.thy ===== *)
theory Node_Run
  imports Gitops Checks Graph_Ops
begin

text \<open>
  One node of a run, as \<open>taskgraph/coordinator.py\<close> drives it in a worker thread
  (\<open>_run_node_safely\<close>): attempts until the node's check passes, the squash merge with its post-merge
  check, one resolution of a merge conflict and the repair rounds on the merged state.

  The state is the part of the Coordinator this thread reads and writes: the integration head it
  shares with the other threads, the node's base commit, its \<open>NodeRecord\<close>, the events it emits, and
  the world outside Python (git's data, files, processes). The record \<open>host\<close> holds what the world
  does: the git program, the worker, a check command, the context pack and prompt builders, file
  writes. Each may raise. \<open>others\<close> is what the other threads did since this one last held the lock
  it now takes: any change of the integration head and the world.

  Not modelled: wall-clock times, the JSON contents of the log files (a write is an operation that may
  raise), the context metadata list and the escape and context audits that run after the nodes. An event is
  recorded without its time and without the node id, which is that of the node being run.
\<close>

section \<open>Data\<close>

datatype node_status = Pending | Running | Merged | Failed | Skipped

record node_record =
  nr_status :: node_status
  nr_reason :: string
  nr_attempts :: nat
  nr_worker_reasons :: "string list"
  nr_model_calls :: nat
  nr_input_tokens :: nat
  nr_output_tokens :: nat
  nr_changed_files :: "string list"
  nr_out_of_scope_files :: "string list"
  nr_merge_commit :: "string option"
  nr_error :: string
  nr_context_chars :: nat
  nr_merge_repairs :: nat
  nr_merge_repair_ok :: "bool option"
  nr_merge_conflicts :: nat
  nr_conflict_resolved :: "bool option"
  nr_removed_reserved_files :: "string list"
  nr_check_timeout_retries :: nat
  nr_normalized_line_endings :: "string list"

definition new_record :: node_record where
  "new_record = \<lparr>nr_status = Pending, nr_reason = [], nr_attempts = 0, nr_worker_reasons = [],
     nr_model_calls = 0, nr_input_tokens = 0, nr_output_tokens = 0, nr_changed_files = [],
     nr_out_of_scope_files = [], nr_merge_commit = None, nr_error = [], nr_context_chars = 0,
     nr_merge_repairs = 0, nr_merge_repair_ok = None, nr_merge_conflicts = 0, nr_conflict_resolved = None,
     nr_removed_reserved_files = [], nr_check_timeout_retries = 0, nr_normalized_line_endings = []\<rparr>"

record run_options =
  opt_workers :: int
  opt_max_attempts :: int
  opt_merge_repairs :: int
  opt_conflict_repairs :: int

record attempt_failure =
  af_reason :: string
  af_output :: string
  af_after_merge :: bool
  af_timed_out :: bool
  af_conflict_files :: "string list option"

definition failure :: "string \<Rightarrow> string \<Rightarrow> attempt_failure" where
  "failure r out = \<lparr>af_reason = r, af_output = out, af_after_merge = False, af_timed_out = False,
     af_conflict_files = None\<rparr>"

record context_pack =
  pack_text :: string
  pack_own_files :: "string list"
  pack_full_files :: "string list"

record worker_request =
  wr_node_id :: string
  wr_attempt :: nat
  wr_prompt :: string
  wr_workspace :: string
  wr_soft_wall_enabled :: bool
  wr_own_files :: "string list"
  wr_full_files :: "string list"

record worker_result =
  wk_ok :: bool
  wk_reason :: string
  wk_model_calls :: nat
  wk_input_tokens :: nat
  wk_output_tokens :: nat
  wk_final_answer :: string
  wk_error :: string

datatype run_event =
    Node_start
  | Worker_start nat
  | Worker_end nat bool string
  | Reserved_files_removed nat "string list"
  | Line_endings_normalized nat "string list"
  | Check_timeout_retry string bool
  | Check_start nat
  | Check_end nat bool
  | Merge_start
  | Merge_end "string option"
  | Merge_conflict "string list"
  | Merge_conflict_resolved bool
  | Post_merge_check_end bool
  | Merge_repair_start nat
  | Merge_repair_end bool
  | Node_merged string nat
  | Node_failed string nat string

record 'w host =
  run_git :: "'w git_program"
  run_command :: "string \<Rightarrow> int \<Rightarrow> string \<Rightarrow> ('w, process_result) act"
  worker_run :: "worker_request \<Rightarrow> ('w, worker_result) act"
  build_pack :: "node \<Rightarrow> string \<Rightarrow> ('w, context_pack) act"
  node_prompt :: "node \<Rightarrow> nat \<Rightarrow> attempt_failure option \<Rightarrow> context_pack \<Rightarrow> string"
  make_log_dir :: "('w, unit) act"
  write_log :: "string \<Rightarrow> ('w, unit) act"
  remove_reserved :: "string \<Rightarrow> ('w, string list) act"
  restore_line_endings :: "string \<Rightarrow> string \<Rightarrow> ('w, string list) act"
  has_conflict_marker :: "string \<Rightarrow> string \<Rightarrow> 'w \<Rightarrow> bool"
  rmtree :: "string \<Rightarrow> 'w \<Rightarrow> 'w"
  others :: "string \<times> 'w \<Rightarrow> string \<times> 'w"

record 'w run_state =
  world :: 'w
  integration_head :: string
  base_of :: string
  rc :: node_record
  ev :: "run_event list"

section \<open>Primitives\<close>

definition REPO :: string where
  "REPO = ''repo''"

definition worktree_of :: "node \<Rightarrow> string" where
  "worktree_of n = ''wt/'' @ node_id n"

definition on_world :: "('w, 'a) act \<Rightarrow> ('w run_state, 'a) act" where
  "on_world m = (\<lambda>s. case m (world s) of (r, w) \<Rightarrow> (r, s\<lparr>world := w\<rparr>))"

definition emit :: "run_event \<Rightarrow> ('w run_state, unit) act" where
  "emit e = upd_act (\<lambda>s. s\<lparr>ev := ev s @ [e]\<rparr>)"

definition upd_rec :: "(node_record \<Rightarrow> node_record) \<Rightarrow> ('w run_state, unit) act" where
  "upd_rec f = upd_act (\<lambda>s. s\<lparr>rc := f (rc s)\<rparr>)"

definition get_rec :: "(node_record \<Rightarrow> 'a) \<Rightarrow> ('w run_state, 'a) act" where
  "get_rec f = get_act (\<lambda>s. f (rc s))"

text \<open>Taking a lock that other threads may have held in the meantime.\<close>

definition acquire :: "'w host \<Rightarrow> ('w run_state, unit) act" where
  "acquire hs = upd_act (\<lambda>s. case others hs (integration_head s, world s) of
     (h, w) \<Rightarrow> s\<lparr>integration_head := h, world := w\<rparr>)"

text \<open>\<open>xs.extend(y for y in ys if y not in xs)\<close>: the test sees what was appended before.\<close>

definition extend_new :: "'a list \<Rightarrow> 'a list \<Rightarrow> 'a list" where
  "extend_new ys xs = fold (\<lambda>y zs. if y \<in> set zs then zs else zs @ [y]) ys xs"

definition exn_str :: "exn \<Rightarrow> string" where
  "exn_str e = exn_type e @ '': '' @ exn_text e"

section \<open>One worker attempt\<close>

text \<open>\<open>failed\<close> is what \<open>failed_upstream\<close> returns; the note is added only for a node that runs after
  failed upstream nodes.\<close>

definition skip_note :: "string \<Rightarrow> string list \<Rightarrow> string" where
  "skip_note prompt failed =
     rev (dropWhile (\<lambda>c. c = CHR 0x0A) (rev prompt)) @ [CHR 0x0A, CHR 0x0A]
     @ ''Skip the registrations of these failed sub-tasks: '' @ py_join '', '' failed @ [CHR 0x0A]"

definition prompt_of :: "'w host \<Rightarrow> node \<Rightarrow> string list \<Rightarrow> nat \<Rightarrow> attempt_failure option \<Rightarrow> context_pack \<Rightarrow> string" where
  "prompt_of hs n failed attempt fl pack =
     (let prompt = node_prompt hs n attempt fl pack;
          failed' = (if run_after_failed_upstream n then failed else [])
      in if failed' \<noteq> [] then skip_note prompt failed' else prompt)"

definition log_file :: "'w host \<Rightarrow> string \<Rightarrow> nat \<Rightarrow> string \<Rightarrow> ('w run_state, unit) act" where
  "log_file hs stem attempt ext = on_world (write_log hs (stem @ nat_str attempt @ ext))"

definition broken_worker :: "exn \<Rightarrow> worker_result" where
  "broken_worker e = \<lparr>wk_ok = False, wk_reason = ''worker_error'', wk_model_calls = 0, wk_input_tokens = 0,
     wk_output_tokens = 0, wk_final_answer = [], wk_error = exn_str e\<rparr>"

definition reason_of :: "worker_result \<Rightarrow> string" where
  "reason_of r = (if wk_ok r then [] else or_str (wk_reason r) ''worker_error'')"

definition count_usage :: "worker_result \<Rightarrow> node_record \<Rightarrow> node_record" where
  "count_usage w r = r\<lparr>nr_model_calls := nr_model_calls r + wk_model_calls w,
     nr_input_tokens := nr_input_tokens r + wk_input_tokens w,
     nr_output_tokens := nr_output_tokens r + wk_output_tokens w\<rparr>"

definition request_of :: "'w host \<Rightarrow> graph \<Rightarrow> node \<Rightarrow> string list \<Rightarrow> nat \<Rightarrow> attempt_failure option \<Rightarrow>
    context_pack \<Rightarrow> worker_request" where
  "request_of hs g n failed attempt fl pack =
     \<lparr>wr_node_id = node_id n, wr_attempt = attempt, wr_prompt = prompt_of hs n failed attempt fl pack,
      wr_workspace = worktree_of n, wr_soft_wall_enabled = (1 < length (nodes g)),
      wr_own_files = pack_own_files pack, wr_full_files = pack_full_files pack\<rparr>"

definition run_worker :: "'w host \<Rightarrow> graph \<Rightarrow> node \<Rightarrow> string list \<Rightarrow> nat \<Rightarrow> attempt_failure option \<Rightarrow>
    ('w run_state, worker_result) act" where
  "run_worker hs g n failed attempt fl =
     seq_act (upd_rec (\<lambda>r. r\<lparr>nr_attempts := attempt\<rparr>))
     (bind_act (on_world (build_pack hs n (worktree_of n))) (\<lambda>pack.
      seq_act (do_all [
        log_file hs ''context_'' attempt ''.md'',
        log_file hs ''context_'' attempt ''.json'',
        upd_rec (\<lambda>r. r\<lparr>nr_context_chars := nr_context_chars r + length (pack_text pack)\<rparr>),
        log_file hs ''prompt_'' attempt ''.md'',
        emit (Worker_start attempt)])
     (bind_act (catch_act (on_world (worker_run hs (request_of hs g n failed attempt fl pack)))
                          (\<lambda>e. ret (broken_worker e))) (\<lambda>result.
      seq_act (do_all [
        log_file hs ''worker_'' attempt ''.json'',
        upd_rec (count_usage result),
        emit (Worker_end attempt (wk_ok result) (wk_reason result)),
        upd_rec (\<lambda>r. r\<lparr>nr_worker_reasons := nr_worker_reasons r @ [reason_of result]\<rparr>)])
     (bind_act (on_world (remove_reserved hs (worktree_of n))) (\<lambda>removed.
      seq_act (when_act (removed \<noteq> []) (do_all [
        upd_rec (\<lambda>r. r\<lparr>nr_removed_reserved_files := extend_new removed (nr_removed_reserved_files r)\<rparr>),
        emit (Reserved_files_removed attempt removed)]))
     (bind_act (bind_act (get_act base_of) (\<lambda>b. on_world (restore_line_endings hs (worktree_of n) b))) (\<lambda>restored.
      seq_act (when_act (restored \<noteq> []) (do_all [
        upd_rec (\<lambda>r. r\<lparr>nr_normalized_line_endings := extend_new restored (nr_normalized_line_endings r)\<rparr>),
        emit (Line_endings_normalized attempt restored)]))
      (ret result)))))))))"

definition last_reason :: "('w run_state, string) act" where
  "last_reason = get_rec (\<lambda>r. last (nr_worker_reasons r))"

section \<open>Checks of a node\<close>

definition note_timeout_retry :: "check_outcome \<Rightarrow> string \<Rightarrow> ('w run_state, unit) act" where
  "note_timeout_retry c knd = when_act (co_timeout_retries c \<noteq> 0) (do_all [
     upd_rec (\<lambda>r. r\<lparr>nr_check_timeout_retries := nr_check_timeout_retries r + co_timeout_retries c\<rparr>),
     emit (Check_timeout_retry knd (co_ok c))])"

definition run_node_check :: "'w host \<Rightarrow> node \<Rightarrow> nat \<Rightarrow> ('w run_state, check_outcome) act" where
  "run_node_check hs n attempt =
     seq_act (emit (Check_start attempt))
     (bind_act (on_world (run_checks_with_retry
         (run_command hs (worktree_of n) (timeout_s (node_check n))) True (commands (node_check n)))) (\<lambda>c.
      seq_act (do_all [
        log_file hs ''check_'' attempt ''.txt'',
        note_timeout_retry c ''node'',
        emit (Check_end attempt (co_ok c))])
      (ret c)))"

section \<open>Attempts until the check passes\<close>

fun attempt_loop :: "'w host \<Rightarrow> graph \<Rightarrow> node \<Rightarrow> string list \<Rightarrow> string \<Rightarrow> nat list \<Rightarrow> attempt_failure option \<Rightarrow>
    ('w run_state, bool) act" where
  "attempt_loop hs g n failed start [] fl =
     seq_act (upd_rec (\<lambda>r. r\<lparr>nr_status := Failed\<rparr>)) (ret False)"
| "attempt_loop hs g n failed start (attempt # rest) fl =
     bind_act (run_worker hs g n failed attempt fl) (\<lambda>result.
     seq_act (on_world (commit_all (run_git hs) (worktree_of n) (''attempt '' @ nat_str attempt)))
     (bind_act (on_world (changed_files (run_git hs) (worktree_of n) start ''HEAD'')) (\<lambda>changed.
      bind_act last_reason (\<lambda>wreason.
      if wreason \<noteq> [] \<and> \<not> (wreason = ''worker_timeout'' \<and> changed \<noteq> [])
      then seq_act (upd_rec (\<lambda>r. r\<lparr>nr_reason := wreason\<rparr>))
           (attempt_loop hs g n failed start rest
             (Some (failure wreason (or_str (wk_error result) (wk_final_answer result)))))
      else if changed = []
      then seq_act (upd_rec (\<lambda>r. r\<lparr>nr_reason := ''no_changes''\<rparr>))
           (attempt_loop hs g n failed start rest
             (Some (failure ''no_changes'' ''The attempt finished without changing any file.'')))
      else bind_act (run_node_check hs n attempt) (\<lambda>c.
        if co_ok c then seq_act (upd_rec (\<lambda>r. r\<lparr>nr_reason := []\<rparr>)) (ret True)
        else seq_act (upd_rec (\<lambda>r. r\<lparr>nr_reason := ''check_failed''\<rparr>))
             (attempt_loop hs g n failed start rest
               (Some ((failure ''check_failed'' (co_text c))\<lparr>af_timed_out := co_timed_out c\<rparr>))))))))"

definition attempt_until_checked :: "'w host \<Rightarrow> run_options \<Rightarrow> graph \<Rightarrow> node \<Rightarrow> string list \<Rightarrow> string \<Rightarrow>
    ('w run_state, bool) act" where
  "attempt_until_checked hs opts g n failed start =
     attempt_loop hs g n failed start [1..<nat (opt_max_attempts opts) + 1] None"

section \<open>Merging\<close>

definition squash :: "'w host \<Rightarrow> node \<Rightarrow> ('w run_state, string option) act" where
  "squash hs n =
     seq_act (emit Merge_start)
     (bind_act (on_world (squash_merge (run_git hs) REPO (NODE_BRANCH_PREFIX @ node_id n)
         (''[taskgraph] '' @ node_id n @ '': '' @ title n))) (\<lambda>commit.
      seq_act (emit (Merge_end commit)) (ret commit)))"

definition worker_failed :: "string \<Rightarrow> bool" where
  "worker_failed wreason = (wreason \<noteq> [] \<and> wreason \<noteq> ''worker_timeout'')"

definition record_worker_error :: "worker_result \<Rightarrow> ('w run_state, unit) act" where
  "record_worker_error result =
     upd_rec (\<lambda>r. r\<lparr>nr_error := py_tail 2000 (or_str (wk_error result) (wk_final_answer result))\<rparr>)"

text \<open>The worker's run on the files with conflict markers: the reason it did not resolve them, or none.\<close>

definition resolve_with_worker :: "'w host \<Rightarrow> graph \<Rightarrow> node \<Rightarrow> string list \<Rightarrow> string list \<Rightarrow> ('w run_state, string) act" where
  "resolve_with_worker hs g n failed files =
     bind_act (get_rec nr_attempts) (\<lambda>a.
     bind_act (run_worker hs g n failed (a + 1)
       (Some ((failure ''merge_conflict'' [])\<lparr>af_conflict_files := Some files\<rparr>))) (\<lambda>result.
     bind_act last_reason (\<lambda>wreason.
     if worker_failed wreason then seq_act (record_worker_error result) (ret wreason)
     else bind_act (get_act (\<lambda>s. list_ex (\<lambda>p. has_conflict_marker hs (worktree_of n) p (world s)) files)) (\<lambda>marked.
       if marked then ret ''merge_conflict''
       else bind_act (run_node_check hs n (a + 1)) (\<lambda>c.
         ret (if co_ok c then [] else ''conflict_check_failed''))))))"

definition conclude_resolution :: "'w host \<Rightarrow> node \<Rightarrow> string \<Rightarrow> ('w run_state, string) act" where
  "conclude_resolution hs n reason =
     seq_act (do_all [
       when_act (reason = []) (on_world (commit_merge (run_git hs) (worktree_of n)
         ''resolve conflicts with other nodes' work'')),
       upd_rec (\<lambda>r. r\<lparr>nr_conflict_resolved := Some (reason = [])\<rparr>),
       emit (Merge_conflict_resolved (reason = []))])
     (ret reason)"

definition resolve_files :: "'w host \<Rightarrow> graph \<Rightarrow> node \<Rightarrow> string list \<Rightarrow> string list \<Rightarrow> ('w run_state, string) act" where
  "resolve_files hs g n failed files =
     bind_act (if files \<noteq> [] then resolve_with_worker hs g n failed files else ret []) (conclude_resolution hs n)"

definition resolve_conflict :: "'w host \<Rightarrow> graph \<Rightarrow> node \<Rightarrow> string list \<Rightarrow> ('w run_state, string) act" where
  "resolve_conflict hs g n failed =
     seq_act (upd_rec (\<lambda>r. r\<lparr>nr_merge_conflicts := nr_merge_conflicts r + 1\<rparr>))
     (bind_act (get_act integration_head) (\<lambda>target.
      bind_act (on_world (merge_keep_conflicts (run_git hs) (worktree_of n) target)) (\<lambda>files.
      seq_act (do_all [upd_act (\<lambda>s. s\<lparr>base_of := target\<rparr>), emit (Merge_conflict files)])
      (resolve_files hs g n failed files))))"

text \<open>The squash of \<open>_merge_once\<close> with at most one resolution: the commit, or the reason there is none.\<close>

definition squash_again :: "'w host \<Rightarrow> node \<Rightarrow> ('w run_state, string + string) act" where
  "squash_again hs n =
     bind_act (squash hs n) (\<lambda>commit. case commit of
       Some c \<Rightarrow> ret (Inr c)
     | None \<Rightarrow> seq_act (upd_rec (\<lambda>r. r\<lparr>nr_conflict_resolved := Some False\<rparr>)) (ret (Inl ''merge_conflict'')))"

definition resolve_and_squash :: "'w host \<Rightarrow> run_options \<Rightarrow> graph \<Rightarrow> node \<Rightarrow> string list \<Rightarrow>
    ('w run_state, string + string) act" where
  "resolve_and_squash hs opts g n failed =
     bind_act (get_rec nr_merge_conflicts) (\<lambda>k.
     if int k \<ge> max (opt_conflict_repairs opts) 0 then ret (Inl ''merge_conflict'')
     else bind_act (resolve_conflict hs g n failed) (\<lambda>reason.
       if reason \<noteq> [] then ret (Inl reason) else squash_again hs n))"

definition squash_resolving :: "'w host \<Rightarrow> run_options \<Rightarrow> graph \<Rightarrow> node \<Rightarrow> string list \<Rightarrow>
    ('w run_state, string + string) act" where
  "squash_resolving hs opts g n failed =
     bind_act (squash hs n) (\<lambda>commit. case commit of
       Some c \<Rightarrow> ret (Inr c)
     | None \<Rightarrow> resolve_and_squash hs opts g n failed)"

definition post_merge_check :: "'w host \<Rightarrow> node \<Rightarrow> string \<Rightarrow> ('w run_state, check_outcome) act" where
  "post_merge_check hs n check_file =
     bind_act (on_world (run_checks_with_retry
       (run_command hs REPO (timeout_s (node_check n))) True (post_merge_commands_of n))) (\<lambda>c.
     seq_act (do_all [
       on_world (write_log hs check_file),
       note_timeout_retry c ''post_merge'',
       emit (Post_merge_check_end (co_ok c))])
     (ret c))"

definition merge_once :: "'w host \<Rightarrow> run_options \<Rightarrow> graph \<Rightarrow> node \<Rightarrow> string list \<Rightarrow> string \<Rightarrow>
    ('w run_state, string \<times> string \<times> bool) act" where
  "merge_once hs opts g n failed check_file =
     seq_act (acquire hs)
     (bind_act (squash_resolving hs opts g n failed) (\<lambda>r. case r of
        Inl reason \<Rightarrow> ret (reason, [], False)
      | Inr commit \<Rightarrow> bind_act (post_merge_check hs n check_file) (\<lambda>c.
          if \<not> co_ok c
          then seq_act (on_world (undo_last_commit (run_git hs) REPO))
               (ret (''post_merge_check_failed'', co_text c, co_timed_out c))
          else seq_act (upd_act (\<lambda>s. s\<lparr>integration_head := commit\<rparr>))
               (ret (''merged'', commit, False)))))"

text \<open>The repair attempt in the worktree that now holds the merged state; \<open>k\<close> is the number of the repair.\<close>

definition repair_attempt :: "'w host \<Rightarrow> graph \<Rightarrow> node \<Rightarrow> string list \<Rightarrow> nat \<Rightarrow> nat \<Rightarrow> attempt_failure \<Rightarrow>
    ('w run_state, string) act" where
  "repair_attempt hs g n failed attempt k fl =
     bind_act (run_worker hs g n failed attempt (Some fl)) (\<lambda>result.
     seq_act (on_world (commit_all (run_git hs) (worktree_of n) (''repair '' @ nat_str k)))
     (bind_act last_reason (\<lambda>wreason.
      if worker_failed wreason then seq_act (record_worker_error result) (ret wreason)
      else bind_act (run_node_check hs n attempt) (\<lambda>c.
        ret (if co_ok c then [] else ''repair_check_failed'')))))"

definition repair_merged :: "'w host \<Rightarrow> graph \<Rightarrow> node \<Rightarrow> string list \<Rightarrow> nat \<Rightarrow> attempt_failure \<Rightarrow> ('w run_state, string) act" where
  "repair_merged hs g n failed attempt fl =
     bind_act (get_act integration_head) (\<lambda>target.
     bind_act (get_rec nr_merge_repairs) (\<lambda>k.
     bind_act (on_world (merge_commit_into (run_git hs) (worktree_of n) target
        (''merge integration for repair '' @ nat_str k))) (\<lambda>merged.
     if \<not> merged then ret ''merge_conflict''
     else seq_act (upd_act (\<lambda>s. s\<lparr>base_of := target\<rparr>)) (repair_attempt hs g n failed attempt k fl))))"

definition repair :: "'w host \<Rightarrow> graph \<Rightarrow> node \<Rightarrow> string list \<Rightarrow> string \<Rightarrow> bool \<Rightarrow> ('w run_state, string) act" where
  "repair hs g n failed failure_text timed_out =
     bind_act (get_rec nr_attempts) (\<lambda>a.
     seq_act (do_all [
       upd_rec (\<lambda>r. r\<lparr>nr_merge_repairs := nr_merge_repairs r + 1\<rparr>),
       emit (Merge_repair_start (a + 1)),
       acquire hs])
     (repair_merged hs g n failed (a + 1)
       ((failure ''post_merge_check_failed'' failure_text)\<lparr>af_after_merge := True, af_timed_out := timed_out\<rparr>)))"

definition finish_merged :: "string \<Rightarrow> ('w run_state, unit) act" where
  "finish_merged commit =
     bind_act (get_rec nr_merge_repairs) (\<lambda>k. do_all [
       when_act (k > 0) (do_all [
         upd_rec (\<lambda>r. r\<lparr>nr_merge_repair_ok := Some True\<rparr>),
         emit (Merge_repair_end True)]),
       upd_rec (\<lambda>r. r\<lparr>nr_status := Merged, nr_merge_commit := Some commit\<rparr>),
       bind_act (get_rec nr_attempts) (\<lambda>a. emit (Node_merged commit a))])"

definition finish_failed :: "string \<Rightarrow> ('w run_state, unit) act" where
  "finish_failed reason =
     bind_act (get_rec nr_merge_repairs) (\<lambda>k. do_all [
       when_act (k \<noteq> 0) (do_all [
         upd_rec (\<lambda>r. r\<lparr>nr_merge_repair_ok := Some False\<rparr>),
         emit (Merge_repair_end False)]),
       upd_rec (\<lambda>r. r\<lparr>nr_status := Failed, nr_reason := reason\<rparr>)])"

definition merge_repair_again :: "'w host \<Rightarrow> graph \<Rightarrow> node \<Rightarrow> string list \<Rightarrow> string \<Rightarrow> bool \<Rightarrow> ('w run_state, string) act" where
  "merge_repair_again hs g n failed detail timed_out =
     bind_act (get_rec nr_merge_repairs) (\<lambda>k.
     seq_act (when_act (k > 0) (emit (Merge_repair_end False))) (repair hs g n failed detail timed_out))"

text \<open>The \<open>while True\<close> of \<open>_merge\<close>; each further round uses up one repair.\<close>

fun merge_loop :: "'w host \<Rightarrow> run_options \<Rightarrow> graph \<Rightarrow> node \<Rightarrow> string list \<Rightarrow> nat \<Rightarrow> string \<Rightarrow> ('w run_state, unit) act" where
  "merge_loop hs opts g n failed repairs_left check_file =
     bind_act (merge_once hs opts g n failed check_file) (\<lambda>(outcome, detail, timed_out).
     if outcome = ''merged'' then finish_merged detail
     else if outcome = ''post_merge_check_failed'' \<and> repairs_left > 0
     then bind_act (merge_repair_again hs g n failed detail timed_out) (\<lambda>reason.
       if reason = []
       then bind_act (get_rec nr_merge_repairs) (\<lambda>k.
         merge_loop hs opts g n failed (repairs_left - 1) (''post_merge_check_repair_'' @ nat_str k @ ''.txt''))
       else finish_failed reason)
     else finish_failed outcome)"

declare merge_loop.simps [simp del]

definition merge :: "'w host \<Rightarrow> run_options \<Rightarrow> graph \<Rightarrow> node \<Rightarrow> string list \<Rightarrow> ('w run_state, unit) act" where
  "merge hs opts g n failed = merge_loop hs opts g n failed (nat (opt_merge_repairs opts)) ''post_merge_check.txt''"

section \<open>The node\<close>

definition collect_changes :: "'w host \<Rightarrow> node \<Rightarrow> ('w run_state, unit) act" where
  "collect_changes hs n =
     bind_act (get_act base_of) (\<lambda>base.
     bind_act (on_world (changed_files (run_git hs) REPO base (NODE_BRANCH_PREFIX @ node_id n))) (\<lambda>files. do_all [
       upd_rec (\<lambda>r. r\<lparr>nr_changed_files := files\<rparr>),
       seq_act (on_world (diff_patch (run_git hs) REPO base (NODE_BRANCH_PREFIX @ node_id n)))
         (on_world (write_log hs ''diff.patch'')),
       on_world (remove_worktree (run_git hs) (rmtree hs) REPO (worktree_of n)),
       upd_rec (\<lambda>r. r\<lparr>nr_out_of_scope_files :=
         (if any_file (node_edit_set n) then [] else filter (\<lambda>p. p \<notin> edit_files n) (nr_changed_files r))\<rparr>)]))"

definition run_node :: "'w host \<Rightarrow> run_options \<Rightarrow> graph \<Rightarrow> node \<Rightarrow> string list \<Rightarrow> ('w run_state, unit) act" where
  "run_node hs opts g n failed =
     seq_act (do_all [on_world (make_log_dir hs), emit Node_start, acquire hs])
     (bind_act (get_act integration_head) (\<lambda>start.
      seq_act (do_all [
        on_world (add_node_worktree (run_git hs) REPO (node_id n) (worktree_of n) start),
        upd_act (\<lambda>s. s\<lparr>base_of := start\<rparr>)])
      (finally_act
        (bind_act (attempt_until_checked hs opts g n failed start) (\<lambda>ok.
          when_act ok (merge hs opts g n failed)))
        (collect_changes hs n))))"

definition run_node_safely :: "'w host \<Rightarrow> run_options \<Rightarrow> graph \<Rightarrow> node \<Rightarrow> string list \<Rightarrow> ('w run_state, unit) act" where
  "run_node_safely hs opts g n failed =
     seq_act
       (catch_act (run_node hs opts g n failed)
         (\<lambda>e. upd_rec (\<lambda>r. r\<lparr>nr_status := Failed, nr_reason := ''coordinator_error'', nr_error := exn_str e\<rparr>)))
       (bind_act (get_rec id) (\<lambda>r. when_act (nr_status r = Failed)
         (emit (Node_failed (nr_reason r) (nr_attempts r) (take 2000 (nr_error r))))))"

section \<open>Rules for the primitives\<close>

lemma wp_on_world:
  "wp (on_world m) Q E s = wp m (\<lambda>a w. Q a (s\<lparr>world := w\<rparr>)) (\<lambda>e w. E e (s\<lparr>world := w\<rparr>)) (world s)"
  by (simp add: wp_def on_world_def split: prod.splits sum.splits)

lemma wp_emit [wp_simps]: "wp (emit e) Q E s = Q () (s\<lparr>ev := ev s @ [e]\<rparr>)"
  by (simp add: emit_def wp_upd)

lemma wp_upd_rec [wp_simps]: "wp (upd_rec f) Q E s = Q () (s\<lparr>rc := f (rc s)\<rparr>)"
  by (simp add: upd_rec_def wp_upd)

lemma wp_get_rec [wp_simps]: "wp (get_rec f) Q E s = Q (f (rc s)) s"
  by (simp add: get_rec_def wp_get)

lemma wp_last_reason [wp_simps]: "wp last_reason Q E s = Q (last (nr_worker_reasons (rc s))) s"
  by (simp add: last_reason_def wp_get_rec)

lemma keeps_on_world: "(\<And>s w. P s \<Longrightarrow> P (s\<lparr>world := w\<rparr>)) \<Longrightarrow> keeps P (on_world m)"
  by (auto simp: keeps_def wp_on_world intro!: wp_mono[OF wp_True])

lemma keeps_emit: "(\<And>s. P s \<Longrightarrow> P (s\<lparr>ev := ev s @ [e]\<rparr>)) \<Longrightarrow> keeps P (emit e)"
  by (simp add: keeps_def wp_emit)

lemma keeps_upd_rec: "(\<And>s. P s \<Longrightarrow> P (s\<lparr>rc := f (rc s)\<rparr>)) \<Longrightarrow> keeps P (upd_rec f)"
  by (simp add: keeps_def wp_upd_rec)

lemma keeps_get_rec: "keeps P (get_rec f)"
  by (simp add: keeps_def wp_get_rec)

lemma keeps_last_reason: "keeps P last_reason"
  by (simp add: keeps_def wp_last_reason)

lemma keeps_acquire:
  "(\<And>s h w. P s \<Longrightarrow> others hs (integration_head s, world s) = (h, w) \<Longrightarrow> P (s\<lparr>integration_head := h, world := w\<rparr>)) \<Longrightarrow>
   keeps P (acquire hs)"
  by (simp add: keeps_def acquire_def wp_upd split: prod.splits)

lemma keeps_option: "(x = None \<Longrightarrow> keeps P m) \<Longrightarrow> (\<And>y. x = Some y \<Longrightarrow> keeps P (f y)) \<Longrightarrow>
    keeps P (case x of None \<Rightarrow> m | Some y \<Rightarrow> f y)"
  by (cases x) auto

lemma keeps_sum: "(\<And>y. x = Inl y \<Longrightarrow> keeps P (m y)) \<Longrightarrow> (\<And>y. x = Inr y \<Longrightarrow> keeps P (f y)) \<Longrightarrow>
    keeps P (case x of Inl y \<Rightarrow> m y | Inr y \<Rightarrow> f y)"
  by (cases x) auto

lemmas keeps_run = keeps_rules keeps_emit keeps_upd_rec keeps_get_rec keeps_last_reason keeps_option keeps_sum

end
