(* ===== verification/Node_Safety.thy ===== *)
theory Node_Safety
  imports Node_Run
begin

text \<open>
  What a node's run guarantees whatever git, the worker and the checks do: it ends merged or failed
  within a bounded number of worker attempts; a merged node passed its post-merge check on the commit
  that became the integration head; and, when git does what it documents, the integration branch ends at
  the integration head again unless the run broke off with an exception.
\<close>

section \<open>Bounded work and the final status\<close>

text \<open>What a routine that neither repairs nor finishes leaves alone: the number of worker attempts is
  bounded by the repairs and resolutions begun, there are at most \<open>C\<close> resolutions, and the count of repairs
  and the status are fixed.\<close>

definition work_inv :: "nat \<Rightarrow> nat \<Rightarrow> nat \<Rightarrow> node_status \<Rightarrow> 'w run_state \<Rightarrow> bool" where
  "work_inv M C k st s = (nr_attempts (rc s) \<le> M + nr_merge_repairs (rc s) + nr_merge_conflicts (rc s)
     \<and> nr_merge_conflicts (rc s) \<le> C \<and> nr_merge_repairs (rc s) = k \<and> nr_status (rc s) = st)"

lemma work_inv_frame:
  "work_inv M C k st (s\<lparr>world := w\<rparr>) = work_inv M C k st s"
  "work_inv M C k st (s\<lparr>ev := e\<rparr>) = work_inv M C k st s"
  "work_inv M C k st (s\<lparr>base_of := b\<rparr>) = work_inv M C k st s"
  "work_inv M C k st (s\<lparr>integration_head := h\<rparr>) = work_inv M C k st s"
  by (simp_all add: work_inv_def)

text \<open>A predicate that reads only the record's counters and status, and not its log of reasons, files or usage.\<close>

abbreviation counters :: "'w run_state \<Rightarrow> nat \<times> nat \<times> nat \<times> node_status" where
  "counters s \<equiv> (nr_attempts (rc s), nr_merge_repairs (rc s), nr_merge_conflicts (rc s), nr_status (rc s))"

lemma keeps_counters_note_timeout: "keeps (\<lambda>s. F (counters s)) (note_timeout_retry c knd)"
  unfolding note_timeout_retry_def by (intro keeps_run; simp)

lemma keeps_counters_log_file: "keeps (\<lambda>s. F (counters s)) (log_file hs stem attempt ext)"
  unfolding log_file_def by (intro keeps_on_world; simp)

lemma keeps_counters_check: "keeps (\<lambda>s. F (counters s)) (run_node_check hs n attempt)"
  unfolding run_node_check_def
  by (intro keeps_run keeps_on_world keeps_counters_log_file keeps_counters_note_timeout; simp)

lemma keeps_counters_squash: "keeps (\<lambda>s. F (counters s)) (squash hs n)"
  unfolding squash_def by (intro keeps_run keeps_on_world; simp)

lemma keeps_counters_post_merge: "keeps (\<lambda>s. F (counters s)) (post_merge_check hs n check_file)"
  unfolding post_merge_check_def by (intro keeps_run keeps_on_world keeps_counters_note_timeout; simp)

text \<open>A worker attempt sets the number of attempts and leaves the other counters.\<close>

lemma run_worker_counters:
  assumes "F (attempt, nr_merge_repairs (rc s), nr_merge_conflicts (rc s), nr_status (rc s))"
  shows "wp (run_worker hs g n failed attempt fl) (\<lambda>_ t. F (counters t)) (\<lambda>_ t. F (counters t)) s"
  unfolding run_worker_def wp_seq wp_upd_rec
  by (rule keepsD[where P = "\<lambda>t. F (counters t)"];
    (intro keeps_run keeps_on_world keeps_counters_log_file)?; simp add: assms count_usage_def)

lemma work_inv_counters:
  "work_inv M C k st = (\<lambda>s. (\<lambda>(a, r, c, t). a \<le> M + r + c \<and> c \<le> C \<and> r = k \<and> t = st) (counters s))"
  by (simp add: work_inv_def fun_eq_iff)

text \<open>A further attempt after a resolution or repair was counted is within the bound.\<close>

lemma run_worker_work_inv:
  "attempt \<le> M + nr_merge_repairs (rc s) + nr_merge_conflicts (rc s) \<Longrightarrow> work_inv M C k st s \<Longrightarrow>
   wp (run_worker hs g n failed attempt fl) (\<lambda>_. work_inv M C k st) (\<lambda>_. work_inv M C k st) s"
  unfolding work_inv_counters by (rule run_worker_counters) simp

lemma keeps_work_inv:
  "keeps (work_inv M C k st) (run_node_check hs n attempt)"
  "keeps (work_inv M C k st) (squash hs n)"
  "keeps (work_inv M C k st) (post_merge_check hs n check_file)"
  "keeps (work_inv M C k st) (record_worker_error result)"
  "keeps (work_inv M C k st) (on_world m)"
  unfolding work_inv_counters
  by (rule keeps_counters_check keeps_counters_squash keeps_counters_post_merge)+
    (auto simp: record_worker_error_def intro!: keeps_upd_rec keeps_on_world)

lemma resolve_with_worker_work_inv:
  assumes "nr_attempts (rc s) + 1 \<le> M + nr_merge_repairs (rc s) + nr_merge_conflicts (rc s)" "work_inv M C k st s"
  shows "wp (resolve_with_worker hs g n failed files) (\<lambda>_. work_inv M C k st) (\<lambda>_. work_inv M C k st) s"
proof -
  have "wp (run_worker hs g n failed (nr_attempts (rc s) + 1) fl) (\<lambda>_. work_inv M C k st) (\<lambda>_. work_inv M C k st) s" for fl
    using run_worker_work_inv[OF assms] .
  then show ?thesis
    unfolding resolve_with_worker_def
    by (subst wp_bind, subst wp_get_rec) (intro wp_bind_keeps keeps_run keeps_work_inv)
qed

lemma resolve_conflict_work_inv:
  assumes "work_inv M C k st s" "nr_merge_conflicts (rc s) < C"
  shows "wp (resolve_conflict hs g n failed) (\<lambda>_. work_inv M C k st) (\<lambda>_. work_inv M C k st) s"
proof -
  let ?I = "\<lambda>t. work_inv M C k st t \<and> nr_attempts (rc t) + 1 \<le> M + nr_merge_repairs (rc t) + nr_merge_conflicts (rc t)"
  have files: "wp (resolve_files hs g n failed files) (\<lambda>_. work_inv M C k st) (\<lambda>_. work_inv M C k st) t"
    if "?I t" for files and t :: "'a run_state"
    unfolding resolve_files_def
  proof (rule wp_bind_keeps)
    show "wp (if files \<noteq> [] then resolve_with_worker hs g n failed files else ret [])
       (\<lambda>_. work_inv M C k st) (\<lambda>_. work_inv M C k st) t"
      using that resolve_with_worker_work_inv[of t M C k st hs g n failed files] by (simp add: wp_ret)
  qed (unfold conclude_resolution_def, intro keeps_run keeps_work_inv; simp add: work_inv_def)
  show ?thesis
    unfolding resolve_conflict_def wp_seq wp_upd_rec wp_bind wp_get
  proof (rule keepsD[where P = ?I], goal_cases)
    case 1
    show ?case by (rule keeps_on_world) (simp add: work_inv_def)
  next
    case 2
    show ?case using assms by (simp add: work_inv_def)
  next
    case (3 fs t)
    then show ?case by (simp only: wp_do_all wp_upd wp_emit) (rule files, simp add: work_inv_def)
  qed simp
qed

lemma resolve_and_squash_work_inv:
  "keeps (work_inv M (nat (opt_conflict_repairs opts)) k st) (resolve_and_squash hs opts g n failed)"
  (is "keeps ?I _")
  unfolding keeps_def
proof (intro allI impI)
  fix t :: "'a run_state" assume t: "?I t"
  have again: "keeps ?I (squash_again hs n)"
    unfolding squash_again_def by (intro keeps_run keeps_work_inv; simp add: work_inv_def)
  show "wp (resolve_and_squash hs opts g n failed) (\<lambda>_. ?I) (\<lambda>_. ?I) t"
  proof (cases "int (nr_merge_conflicts (rc t)) \<ge> max (opt_conflict_repairs opts) 0")
    case True
    with t show ?thesis by (simp only: resolve_and_squash_def wp_bind wp_get_rec if_True wp_ret)
  next
    case False
    then have "nr_merge_conflicts (rc t) < nat (opt_conflict_repairs opts)" by linarith
    from resolve_conflict_work_inv[OF t this]
    have "wp (bind_act (resolve_conflict hs g n failed) (\<lambda>reason.
       if reason \<noteq> [] then ret (Inl reason) else squash_again hs n)) (\<lambda>_. ?I) (\<lambda>_. ?I) t"
      by (rule wp_bind_keeps) (intro keeps_run again)
    with False show ?thesis unfolding resolve_and_squash_def by (subst wp_bind, subst wp_get_rec) simp
  qed
qed

lemma merge_once_work_inv:
  "keeps (work_inv M (nat (opt_conflict_repairs opts)) k st) (merge_once hs opts g n failed check_file)"
  (is "keeps ?I _")
proof -
  have "keeps ?I (squash_resolving hs opts g n failed)"
    unfolding squash_resolving_def by (intro keeps_run keeps_work_inv resolve_and_squash_work_inv)
  moreover have "keeps ?I (acquire hs)"
    by (rule keeps_acquire) (simp add: work_inv_def)
  ultimately show ?thesis
    unfolding merge_once_def by (intro keeps_run keeps_work_inv; simp add: work_inv_def)
qed

lemma repair_attempt_work_inv:
  assumes "attempt \<le> M + nr_merge_repairs (rc s) + nr_merge_conflicts (rc s)" "work_inv M C k st s"
  shows "wp (repair_attempt hs g n failed attempt i fl) (\<lambda>_. work_inv M C k st) (\<lambda>_. work_inv M C k st) s"
  unfolding repair_attempt_def
  by (rule wp_bind_keeps[OF run_worker_work_inv[OF assms]]) (intro keeps_run keeps_work_inv)

text \<open>A repair round counts itself and adds one attempt.\<close>

lemma repair_work_inv:
  assumes "work_inv M C k st s"
  shows "wp (repair hs g n failed text timed_out) (\<lambda>_. work_inv M C (Suc k) st) (\<lambda>_. work_inv M C (Suc k) st) s"
proof -
  let ?I = "\<lambda>t. work_inv M C (Suc k) st t \<and> nr_attempts (rc s) + 1 \<le> M + nr_merge_repairs (rc t) + nr_merge_conflicts (rc t)"
  have merged: "wp (repair_merged hs g n failed (nr_attempts (rc s) + 1) fl) (\<lambda>_. work_inv M C (Suc k) st)
      (\<lambda>_. work_inv M C (Suc k) st) t" if I: "?I t" for fl and t :: "'a run_state"
    unfolding repair_merged_def wp_bind wp_get wp_get_rec
  proof (rule keepsD[where P = ?I], goal_cases)
    case 1
    show ?case by (rule keeps_on_world) (simp add: work_inv_def)
  next
    case (3 b u)
    then have "?I (u\<lparr>base_of := integration_head t\<rparr>)" by (simp add: work_inv_def)
    with 3 show ?case by (simp add: wp_ret wp_seq wp_upd repair_attempt_work_inv)
  qed (use I in simp_all)
  show ?thesis
    unfolding repair_def using assms
    by (simp only: wp_bind wp_get_rec wp_seq wp_do_all wp_upd_rec wp_emit acquire_def wp_upd)
      (rule merged, simp add: work_inv_def split: prod.splits)
qed

definition finished :: "nat \<Rightarrow> nat \<Rightarrow> nat \<Rightarrow> node_status set \<Rightarrow> 'w run_state \<Rightarrow> bool" where
  "finished M C R sts s = (\<exists>k\<le>R. \<exists>st\<in>sts. work_inv M C k st s)"

lemma finish_wp:
  "work_inv M C k st s \<Longrightarrow> k \<le> R \<Longrightarrow> wp (finish_merged c) (\<lambda>_. finished M C R {Merged, Failed}) E s"
  "work_inv M C k st s \<Longrightarrow> k \<le> R \<Longrightarrow> wp (finish_failed reason) (\<lambda>_. finished M C R {Merged, Failed}) E s"
  by (auto simp: finish_merged_def finish_failed_def wp_simps finished_def work_inv_def)

lemma finishedI: "work_inv M C k st s \<Longrightarrow> k \<le> R \<Longrightarrow> st \<in> sts \<Longrightarrow> finished M C R sts s"
  by (auto simp: finished_def)

lemma merge_repair_again_work_inv:
  assumes "work_inv M C k st s"
  shows "wp (merge_repair_again hs g n failed detail timed_out) (\<lambda>_. work_inv M C (Suc k) st) (\<lambda>_. work_inv M C (Suc k) st) s"
proof -
  have "work_inv M C k st (s\<lparr>ev := ev s @ [Merge_repair_end False]\<rparr>)" using assms by (simp add: work_inv_def)
  with assms show ?thesis
    by (simp add: merge_repair_again_def wp_bind wp_get_rec wp_seq wp_when wp_emit repair_work_inv)
qed

lemma merge_loop_finished:
  "work_inv M (nat (opt_conflict_repairs opts)) k Running s \<Longrightarrow> k + repairs_left \<le> R \<Longrightarrow>
   wp (merge_loop hs opts g n failed repairs_left check_file)
     (\<lambda>_. finished M (nat (opt_conflict_repairs opts)) R {Merged, Failed})
     (\<lambda>_. finished M (nat (opt_conflict_repairs opts)) R {Running}) s"
proof (induction repairs_left arbitrary: k s check_file rule: less_induct)
  case (less repairs_left)
  let ?C = "nat (opt_conflict_repairs opts)"
  have again: "wp (bind_act (merge_repair_again hs g n failed detail timed_out) (\<lambda>reason.
       if reason = []
       then bind_act (get_rec nr_merge_repairs) (\<lambda>k.
         merge_loop hs opts g n failed (repairs_left - 1) (''post_merge_check_repair_'' @ nat_str k @ ''.txt''))
       else finish_failed reason)) (\<lambda>_. finished M ?C R {Merged, Failed}) (\<lambda>_. finished M ?C R {Running}) t"
    if t: "work_inv M ?C k Running t" and pos: "repairs_left > 0" for detail timed_out and t :: "'a run_state"
    unfolding wp_bind
  proof (rule wp_mono[OF merge_repair_again_work_inv[OF t]], goal_cases)
    case (1 reason u)
    have "Suc k + (repairs_left - 1) \<le> R" using less.prems(2) pos by simp
    from less.IH[OF _ 1 this] finish_wp(2)[OF 1] this pos show ?case
      by (simp add: wp_bind wp_get_rec)
  next
    case (2 e u)
    then show ?case using less.prems(2) pos by (auto intro: finishedI)
  qed
  have k: "k \<le> R" using less.prems(2) by simp
  show ?case
    unfolding merge_loop.simps[of hs opts g n failed repairs_left]
  proof (subst wp_bind, rule wp_mono[OF keeps_wp[OF merge_once_work_inv less.prems(1)]], goal_cases)
    case (1 a t)
    obtain outcome detail timed_out where a: "a = (outcome, detail, timed_out)" by (cases a)
    show ?case
      using finish_wp(1)[OF 1 k] finish_wp(2)[OF 1 k] again[OF 1] by (simp add: a)
  next
    case (2 e t)
    then show ?case using k by (auto intro: finishedI)
  qed
qed

lemma attempt_loop_finished:
  "work_inv M C 0 Running s \<Longrightarrow> set as \<subseteq> {..M} \<Longrightarrow>
   wp (attempt_loop hs g n failed start as fl)
     (\<lambda>ok. work_inv M C 0 (if ok then Running else Failed)) (\<lambda>_. work_inv M C 0 Running) s"
proof (induction as arbitrary: fl s)
  case Nil
  then show ?case by (simp add: wp_simps work_inv_def)
next
  case (Cons a as)
  let ?I = "work_inv M C 0 Running"
  let ?Q = "\<lambda>ok. work_inv M C 0 (if ok then Running else Failed)"
  have next_attempt: "wp (seq_act (upd_rec (\<lambda>r. r\<lparr>nr_reason := x\<rparr>)) (attempt_loop hs g n failed start as fl')) ?Q (\<lambda>_. ?I) t"
    if "?I t" for x fl' and t :: "'a run_state"
  proof -
    have "?I (t\<lparr>rc := (rc t)\<lparr>nr_reason := x\<rparr>\<rparr>)" using that by (simp add: work_inv_def)
    from Cons.IH[OF this] Cons.prems(2) show ?thesis by (simp add: wp_seq wp_upd_rec)
  qed
  have checked: "wp (bind_act (run_node_check hs n a) (\<lambda>c.
        if co_ok c then seq_act (upd_rec (\<lambda>r. r\<lparr>nr_reason := []\<rparr>)) (ret True)
        else seq_act (upd_rec (\<lambda>r. r\<lparr>nr_reason := ''check_failed''\<rparr>)) (attempt_loop hs g n failed start as (fl' c)))) ?Q (\<lambda>_. ?I) t"
    if "?I t" for fl' and t :: "'a run_state"
    unfolding wp_bind
  proof (rule wp_mono[OF keeps_wp[OF keeps_work_inv(1) that]], goal_cases)
    case (1 c u)
    then show ?case using next_attempt[OF 1, of "''check_failed''"]
      by (simp add: wp_seq wp_upd_rec wp_ret work_inv_def)
  qed
  have world: "wp (on_world m) (\<lambda>_. ?I) (\<lambda>_. ?I) t" if "?I t" for m and t :: "'a run_state"
    using keeps_wp[OF keeps_work_inv(5) that] .
  have worker: "wp (run_worker hs g n failed a fl) (\<lambda>_. ?I) (\<lambda>_. ?I) s"
    using Cons.prems by (intro run_worker_work_inv) (auto simp: work_inv_def)
  show ?case
    unfolding attempt_loop.simps wp_bind wp_seq wp_last_reason
    by (rule wp_mono[OF worker], rule wp_mono[OF world], assumption, rule wp_mono[OF world], assumption)
      (use next_attempt checked in \<open>simp_all add: wp_bind wp_seq\<close>)
qed

lemma run_node_body_finished:
  assumes "work_inv (nat (opt_max_attempts opts)) (nat (opt_conflict_repairs opts)) 0 Running s"
  shows "wp (bind_act (attempt_until_checked hs opts g n failed start) (\<lambda>ok. when_act ok (merge hs opts g n failed)))
    (\<lambda>_. finished (nat (opt_max_attempts opts)) (nat (opt_conflict_repairs opts)) (nat (opt_merge_repairs opts)) {Merged, Failed})
    (\<lambda>_. finished (nat (opt_max_attempts opts)) (nat (opt_conflict_repairs opts)) (nat (opt_merge_repairs opts)) {Running}) s"
  unfolding wp_bind attempt_until_checked_def
proof (rule wp_mono[OF attempt_loop_finished[OF assms]], goal_cases)
  case 1
  show ?case by auto
next
  case (2 ok t)
  then show ?case
    using merge_loop_finished[of _ opts 0 t "nat (opt_merge_repairs opts)"]
    by (cases ok) (auto simp: wp_when merge_def intro: finishedI)
qed (auto intro: finishedI)

lemma finished_frame:
  assumes "\<And>k st. keeps (work_inv M C k st) m"
  shows "keeps (finished M C R sts) m"
  unfolding keeps_def
proof (intro allI impI, goal_cases)
  case (1 s)
  then obtain k st where k: "k \<le> R" "st \<in> sts" "work_inv M C k st s" by (auto simp: finished_def)
  from keeps_wp[OF assms k(3)] show ?case
    by (rule wp_mono) (use k in \<open>auto intro: finishedI\<close>)
qed

lemma collect_changes_work_inv: "keeps (work_inv M C k st) (collect_changes hs n)"
  unfolding collect_changes_def by (intro keeps_run keeps_work_inv; simp add: work_inv_def)

text \<open>The counters of a finished node, and its status.\<close>

definition node_settled :: "run_options \<Rightarrow> node_record \<Rightarrow> bool" where
  "node_settled opts r =
     (nr_status r \<in> {Merged, Failed}
      \<and> nr_merge_repairs r \<le> nat (opt_merge_repairs opts)
      \<and> nr_merge_conflicts r \<le> nat (opt_conflict_repairs opts)
      \<and> nr_attempts r \<le> nat (opt_max_attempts opts) + nr_merge_repairs r + nr_merge_conflicts r)"

lemma finished_settled:
  "finished (nat (opt_max_attempts opts)) (nat (opt_conflict_repairs opts)) (nat (opt_merge_repairs opts)) {Merged, Failed} s \<Longrightarrow>
   node_settled opts (rc s)"
  by (auto simp: finished_def work_inv_def node_settled_def)

lemma run_node_finished:
  assumes "rc s = new_record\<lparr>nr_status := Running\<rparr>"
  shows "wp (run_node hs opts g n failed)
    (\<lambda>_. finished (nat (opt_max_attempts opts)) (nat (opt_conflict_repairs opts)) (nat (opt_merge_repairs opts)) {Merged, Failed})
    (\<lambda>_. finished (nat (opt_max_attempts opts)) (nat (opt_conflict_repairs opts)) (nat (opt_merge_repairs opts)) {Merged, Failed, Running}) s"
  (is "wp _ (\<lambda>_. ?F) (\<lambda>_. ?E) s")
proof -
  let ?I = "work_inv (nat (opt_max_attempts opts)) (nat (opt_conflict_repairs opts)) 0 Running"
  have start: "?I s" using assms by (simp add: work_inv_def new_record_def)
  have weaker: "?I t \<Longrightarrow> ?E t" "?F t \<Longrightarrow> ?E t" for t :: "'a run_state" by (auto simp: finished_def)
  have wrun: "?E t" if "finished (nat (opt_max_attempts opts)) (nat (opt_conflict_repairs opts)) (nat (opt_merge_repairs opts)) {Running} t"
    for t :: "'a run_state" using that by (auto simp: finished_def)
  have body: "wp (finally_act (bind_act (attempt_until_checked hs opts g n failed st) (\<lambda>ok. when_act ok (merge hs opts g n failed)))
        (collect_changes hs n)) (\<lambda>_. ?F) (\<lambda>_. ?E) t" if "?I t" for st and t :: "'a run_state"
    unfolding wp_finally
  proof (rule wp_mono[OF run_node_body_finished[OF that]], goal_cases)
    case (1 a u)
    show ?case by (rule wp_mono[OF keeps_wp[OF finished_frame[OF collect_changes_work_inv] 1]]) (use weaker in auto)
  next
    case (2 e u)
    show ?case by (rule wp_mono[OF keeps_wp[OF finished_frame[OF collect_changes_work_inv] wrun[OF 2]]]) auto
  qed
  have pre: "keeps ?I (do_all [on_world (make_log_dir hs), emit Node_start, acquire hs])"
    by (intro keeps_run keeps_work_inv keeps_acquire; simp add: work_inv_def)
  have mid: "keeps ?I (do_all [on_world m, upd_act (\<lambda>s. s\<lparr>base_of := st\<rparr>)])" for m st
    by (intro keeps_run keeps_work_inv; simp add: work_inv_def)
  show ?thesis
    unfolding run_node_def
    by (subst wp_seq, rule wp_mono[OF keeps_wp[OF pre start]], subst wp_bind, subst wp_get, subst wp_seq,
        rule wp_mono[OF keeps_wp[OF mid]], assumption) (use body weaker in auto)
qed

lemma run_node_settles:
  assumes "rc s = new_record\<lparr>nr_status := Running\<rparr>"
  shows "wp (run_node_safely hs opts g n failed) (\<lambda>_ t. node_settled opts (rc t)) (\<lambda>_ _. False) s"
proof -
  have fin: "wp (bind_act (get_rec id) (\<lambda>r. when_act (nr_status r = Failed)
         (emit (Node_failed (nr_reason r) (nr_attempts r) (take 2000 (nr_error r)))))) (\<lambda>_ t. node_settled opts (rc t)) (\<lambda>_ _. False) t"
    if "node_settled opts (rc t)" for t :: "'a run_state"
    using that by (simp add: wp_simps)
  show ?thesis
    unfolding run_node_safely_def
    by (subst wp_seq, subst wp_catch, rule wp_mono[OF run_node_finished[OF assms]])
      (use fin finished_settled in \<open>auto simp: wp_upd_rec finished_def work_inv_def node_settled_def\<close>)
qed


section \<open>A merged node passed its check\<close>

text \<open>The reasons a worker reports, as \<open>WorkerResult.reason\<close> documents them.\<close>

definition worker_reasons :: "string set" where
  "worker_reasons = {[], ''worker_error'', ''worker_timeout''}"

definition worker_reasons_ok :: "'w host \<Rightarrow> bool" where
  "worker_reasons_ok hs = (\<forall>req w. wp (worker_run hs req) (\<lambda>r _. wk_reason r \<in> worker_reasons) (\<lambda>_ _. True) w)"

definition last_reason_ok :: "'w run_state \<Rightarrow> bool" where
  "last_reason_ok s = (last (nr_worker_reasons (rc s)) \<in> worker_reasons)"

lemma reason_of_ok: "wk_reason r \<in> worker_reasons \<Longrightarrow> reason_of r \<in> worker_reasons"
  by (auto simp: reason_of_def worker_reasons_def or_str_def)

lemma run_worker_reason:
  assumes "worker_reasons_ok hs"
  shows "wp (run_worker hs g n failed attempt fl) (\<lambda>_. last_reason_ok) (\<lambda>_ _. True) s"
proof -
  have tail: "keeps last_reason_ok (bind_act (on_world (remove_reserved hs (worktree_of n))) (\<lambda>removed.
      seq_act (when_act (removed \<noteq> []) (do_all [
        upd_rec (\<lambda>r. r\<lparr>nr_removed_reserved_files := extend_new removed (nr_removed_reserved_files r)\<rparr>),
        emit (Reserved_files_removed attempt removed)]))
     (bind_act (bind_act (get_act base_of) (\<lambda>b. on_world (restore_line_endings hs (worktree_of n) b))) (\<lambda>restored.
      seq_act (when_act (restored \<noteq> []) (do_all [
        upd_rec (\<lambda>r. r\<lparr>nr_normalized_line_endings := extend_new restored (nr_normalized_line_endings r)\<rparr>),
        emit (Line_endings_normalized attempt restored)]))
      (ret result)))))" for result
    by (intro keeps_run keeps_on_world; simp add: last_reason_ok_def)
  have note_reason: "wp (do_all [
        log_file hs ''worker_'' attempt ''.json'',
        upd_rec (count_usage result),
        emit (Worker_end attempt (wk_ok result) (wk_reason result)),
        upd_rec (\<lambda>r. r\<lparr>nr_worker_reasons := nr_worker_reasons r @ [reason_of result]\<rparr>)])
      (\<lambda>_. last_reason_ok) (\<lambda>_ _. True) t" if "wk_reason result \<in> worker_reasons" for result and t :: "'a run_state"
    unfolding wp_do_all
    by (rule wp_any) (use reason_of_ok[OF that] in \<open>simp_all add: wp_simps last_reason_ok_def\<close>)
  have worker: "wp (catch_act (on_world (worker_run hs req)) (\<lambda>e. ret (broken_worker e)))
      (\<lambda>r _. wk_reason r \<in> worker_reasons) (\<lambda>_ _. True) t" for req and t :: "'a run_state"
    using assms unfolding wp_catch wp_on_world wp_ret worker_reasons_ok_def
    by (auto simp: broken_worker_def worker_reasons_def elim!: allE wp_mono)
  show ?thesis
    unfolding run_worker_def
    by (subst wp_seq, rule wp_any, subst wp_bind, rule wp_any, subst wp_seq, rule wp_any, subst wp_bind,
        rule wp_mono[OF worker], subst wp_seq, rule wp_mono[OF note_reason], assumption)
      (auto intro: wp_mono[OF keeps_wp[OF tail]])
qed

lemma last_reason_ok_keeps: "keeps last_reason_ok (on_world m)"
  by (rule keeps_on_world) (simp add: last_reason_ok_def)

text \<open>The reason of an unresolved conflict is never mistaken for a merge.\<close>

lemma resolve_with_worker_reason:
  assumes "worker_reasons_ok hs"
  shows "wp (resolve_with_worker hs g n failed files) (\<lambda>r _. r \<noteq> ''merged'') (\<lambda>_ _. True) s"
  unfolding resolve_with_worker_def wp_bind wp_get_rec
proof (rule wp_mono[OF run_worker_reason[OF assms]], goal_cases)
  case (1 result t)
  have "wp (run_node_check hs n (nr_attempts (rc s) + 1)) (\<lambda>c. wp (ret (if co_ok c then [] else ''conflict_check_failed''))
      (\<lambda>r _. r \<noteq> ''merged'') (\<lambda>_ _. True)) (\<lambda>_ _. True) t"
    by (rule wp_any) (simp_all add: wp_ret)
  with 1 show ?case
    by (auto simp: wp_last_reason wp_bind wp_seq wp_ret wp_get record_worker_error_def wp_upd_rec
        last_reason_ok_def worker_reasons_def)
qed simp

lemma squash_resolving_reason:
  assumes "worker_reasons_ok hs"
  shows "wp (squash_resolving hs opts g n failed) (\<lambda>r _. r \<noteq> Inl ''merged'') (\<lambda>_ _. True) s"
proof -
  have again: "wp (squash_again hs n) (\<lambda>r _. r \<noteq> Inl ''merged'') (\<lambda>_ _. True) t" for t :: "'a run_state"
    unfolding squash_again_def wp_bind by (rule wp_any) (auto simp: wp_simps split: option.splits)
  have files: "wp (resolve_files hs g n failed files) (\<lambda>r _. r \<noteq> ''merged'') (\<lambda>_ _. True) t" for files and t :: "'a run_state"
    unfolding resolve_files_def conclude_resolution_def wp_bind wp_seq wp_ret
    by (rule wp_mono[where Q = "\<lambda>r _. r \<noteq> ''merged''" and E = "\<lambda>_ _. True"])
      (auto simp: wp_if wp_ret intro: resolve_with_worker_reason[OF assms] wp_any)
  have "wp (resolve_conflict hs g n failed) (\<lambda>r _. r \<noteq> ''merged'') (\<lambda>_ _. True) t" for t :: "'a run_state"
    unfolding resolve_conflict_def
    by (subst wp_seq, rule wp_any, subst wp_bind, subst wp_get, subst wp_bind, rule wp_any, subst wp_seq, rule wp_any)
      (auto intro: files)
  then have "wp (resolve_conflict hs g n failed) (\<lambda>reason. wp (if reason \<noteq> [] then ret (Inl reason) else squash_again hs n)
      (\<lambda>r _. r \<noteq> Inl ''merged'') (\<lambda>_ _. True)) (\<lambda>_ _. True) t" for t :: "'a run_state"
    by (rule wp_mono) (simp_all add: wp_ret again)
  then have both: "wp (resolve_and_squash hs opts g n failed) (\<lambda>r _. r \<noteq> Inl ''merged'') (\<lambda>_ _. True) t" for t :: "'a run_state"
    unfolding resolve_and_squash_def wp_bind wp_get_rec by (auto simp: wp_ret wp_bind)
  show ?thesis
    unfolding squash_resolving_def wp_bind by (rule wp_any) (simp_all add: both wp_ret split: option.splits)
qed

lemma post_merge_check_event:
  "wp (post_merge_check hs n check_file) (\<lambda>c t. \<exists>pre. ev t = pre @ [Post_merge_check_end (co_ok c)]) (\<lambda>_ _. True) s"
  unfolding post_merge_check_def
  by (subst wp_bind, rule wp_any, subst wp_seq, subst wp_do_all, rule wp_any, subst wp_do_all, rule wp_any)
    (simp_all add: wp_simps)

lemma merge_once_merged:
  assumes "worker_reasons_ok hs"
  shows "wp (merge_once hs opts g n failed check_file)
    (\<lambda>(outcome, detail, _) t. outcome = ''merged'' \<longrightarrow>
       integration_head t = detail \<and> (\<exists>pre. ev t = pre @ [Post_merge_check_end True])) (\<lambda>_ _. True) s"
  unfolding merge_once_def
proof (subst wp_seq, rule wp_any, subst wp_bind, rule wp_mono[OF squash_resolving_reason[OF assms]], goal_cases)
  case (1 a t r u)
  show ?case
  proof (cases r)
    case (Inl reason)
    with 1 show ?thesis by (simp add: wp_ret)
  next
    case (Inr commit)
    have "wp (post_merge_check hs n check_file) (\<lambda>c. wp (if \<not> co_ok c
          then seq_act (on_world (undo_last_commit (run_git hs) REPO))
               (ret (''post_merge_check_failed'', co_text c, co_timed_out c))
          else seq_act (upd_act (\<lambda>s. s\<lparr>integration_head := commit\<rparr>))
               (ret (''merged'', commit, False)))
        (\<lambda>(outcome, detail, _) t. outcome = ''merged'' \<longrightarrow>
          integration_head t = detail \<and> (\<exists>pre. ev t = pre @ [Post_merge_check_end True])) (\<lambda>_ _. True)) (\<lambda>_ _. True) u"
    proof (rule wp_mono[OF post_merge_check_event], goal_cases)
      case (1 c v)
      then show ?case
      proof (cases "co_ok c")
        case False
        then show ?thesis unfolding wp_if if_True wp_seq wp_ret by simp
      qed (simp add: wp_seq wp_ret wp_upd)
    qed simp
    with Inr show ?thesis by (simp add: wp_bind)
  qed
qed simp_all

text \<open>What holds of a node whose run ended as merged: its merge commit is the integration head, and its
  last events are the successful post-merge check and the announcement of that commit.\<close>

definition merged_checked :: "'w run_state \<Rightarrow> bool" where
  "merged_checked s = (nr_status (rc s) = Merged \<longrightarrow>
     nr_merge_commit (rc s) = Some (integration_head s)
     \<and> (\<exists>pre. ev s = pre @ [Post_merge_check_end True] @ (if nr_merge_repairs (rc s) > 0 then [Merge_repair_end True] else [])
          @ [Node_merged (integration_head s) (nr_attempts (rc s))]))"

lemma finish_merged_checked:
  "integration_head s = c \<Longrightarrow> ev s = pre @ [Post_merge_check_end True] \<Longrightarrow> wp (finish_merged c) (\<lambda>_. merged_checked) E s"
  by (auto simp: finish_merged_def wp_simps merged_checked_def)

lemma finish_failed_checked: "wp (finish_failed reason) (\<lambda>_. merged_checked) E s"
  by (auto simp: finish_failed_def wp_simps merged_checked_def)

lemma merge_loop_checked:
  assumes "worker_reasons_ok hs"
  shows "wp (merge_loop hs opts g n failed repairs_left check_file) (\<lambda>_. merged_checked) (\<lambda>_ _. True) s"
proof (induction repairs_left arbitrary: s check_file rule: less_induct)
  case (less repairs_left)
  have again: "wp (bind_act (merge_repair_again hs g n failed detail timed_out) (\<lambda>reason.
       if reason = []
       then bind_act (get_rec nr_merge_repairs) (\<lambda>k.
         merge_loop hs opts g n failed (repairs_left - 1) (''post_merge_check_repair_'' @ nat_str k @ ''.txt''))
       else finish_failed reason)) (\<lambda>_. merged_checked) (\<lambda>_ _. True) t"
    if pos: "repairs_left > 0" for detail timed_out and t :: "'a run_state"
    unfolding wp_bind
    by (rule wp_any) (use less.IH pos in \<open>simp_all add: finish_failed_checked wp_bind wp_get_rec\<close>)
  show ?case
    unfolding merge_loop.simps[of hs opts g n failed repairs_left]
  proof (subst wp_bind, rule wp_mono[OF merge_once_merged[OF assms]], goal_cases)
    case (1 a t)
    then show ?case
      using finish_merged_checked[of t] again by (auto simp: finish_failed_checked)
  qed simp
qed

lemma attempt_loop_checked:
  "wp (attempt_loop hs g n failed start as fl) (\<lambda>ok t. \<not> ok \<longrightarrow> nr_status (rc t) = Failed) (\<lambda>_ _. True) s"
proof (induction as arbitrary: fl s)
  case Nil
  show ?case by (simp add: wp_simps)
next
  case (Cons a as)
  have nxt: "wp (seq_act (upd_rec f) (attempt_loop hs g n failed start as fl')) (\<lambda>ok t. \<not> ok \<longrightarrow> nr_status (rc t) = Failed) (\<lambda>_ _. True) t"
    for f fl' and t :: "'a run_state"
    using Cons.IH by (simp add: wp_seq wp_upd_rec)
  have checked: "wp (bind_act (run_node_check hs n a) (\<lambda>c.
        if co_ok c then seq_act (upd_rec (\<lambda>r. r\<lparr>nr_reason := []\<rparr>)) (ret True)
        else seq_act (upd_rec (\<lambda>r. r\<lparr>nr_reason := ''check_failed''\<rparr>)) (attempt_loop hs g n failed start as (fl' c))))
      (\<lambda>ok t. \<not> ok \<longrightarrow> nr_status (rc t) = Failed) (\<lambda>_ _. True) t"
    for fl' and t :: "'a run_state"
    unfolding wp_bind by (rule wp_any) (use nxt in \<open>simp_all add: wp_seq wp_upd_rec wp_ret\<close>)
  show ?case
    unfolding attempt_loop.simps
    by (subst wp_bind, rule wp_any, subst wp_seq, rule wp_any, subst wp_bind, rule wp_any, subst wp_bind, subst wp_last_reason)
      (use nxt checked in \<open>simp_all split: if_splits\<close>)
qed

lemma run_node_checked:
  assumes "worker_reasons_ok hs"
  shows "wp (run_node hs opts g n failed) (\<lambda>_. merged_checked) (\<lambda>_ _. True) s"
proof -
  have "keeps merged_checked (collect_changes hs n)"
    unfolding collect_changes_def by (intro keeps_run keeps_on_world; simp add: merged_checked_def)
  then have fin: "wp (collect_changes hs n) (\<lambda>_. merged_checked) (\<lambda>_ _. True) t" if "merged_checked t" for t :: "'a run_state"
    using that by (rule keepsD) simp_all
  have "wp (bind_act (attempt_until_checked hs opts g n failed st) (\<lambda>ok. when_act ok (merge hs opts g n failed)))
      (\<lambda>_. merged_checked) (\<lambda>_ _. True) t" for st and t :: "'a run_state"
    unfolding wp_bind attempt_until_checked_def
    by (rule wp_mono[OF attempt_loop_checked])
      (use merge_loop_checked[OF assms] in \<open>auto simp: wp_when merge_def merged_checked_def\<close>)
  then have body: "wp (finally_act (bind_act (attempt_until_checked hs opts g n failed st) (\<lambda>ok. when_act ok (merge hs opts g n failed)))
      (collect_changes hs n)) (\<lambda>_. merged_checked) (\<lambda>_ _. True) t" for st and t :: "'a run_state"
    unfolding wp_finally by (rule wp_mono) (use fin in auto)
  show ?thesis
    unfolding run_node_def
    by (subst wp_seq, rule wp_any, subst wp_bind, subst wp_get, subst wp_seq, rule wp_any) (simp_all add: body)
qed

lemma run_node_merged:
  assumes "worker_reasons_ok hs"
  shows "wp (run_node_safely hs opts g n failed) (\<lambda>_. merged_checked) (\<lambda>_ _. False) s"
  unfolding run_node_safely_def
  by (subst wp_seq, subst wp_catch, rule wp_mono[OF run_node_checked[OF assms]])
    (auto simp: wp_simps merged_checked_def)


end
