(* ===== verification/Integration.thy ===== *)
theory Integration
  imports Node_Safety
begin

text \<open>
  The integration branch. \<open>integration_head\<close> is meant to be the last commit whose post-merge check
  passed; this theory shows that, while git does what \<open>git_laws\<close> says and nothing but the merges moves the
  branch, every node's run leaves the branch exactly at that commit: a merge whose check failed is gone.
  It also shows the one way around it: an exception between the squash and the verdict of the check.
\<close>

section \<open>Assumptions on the world\<close>

text \<open>\<open>hist\<close> reads the commits of the integration branch, newest first.\<close>

definition at_head :: "('w \<Rightarrow> string list) \<Rightarrow> string \<Rightarrow> 'w \<Rightarrow> bool" where
  "at_head hist h w = (hist w \<noteq> [] \<and> hd (hist w) = h)"

text \<open>Workers, commands, file writes and clean-ups do not move the integration branch; the other threads,
  which run the same code, leave it at the integration head when they release the merge lock.\<close>

definition quiet_host :: "'w host \<Rightarrow> ('w \<Rightarrow> string list) \<Rightarrow> bool" where
  "quiet_host hs hist = (\<forall>h.
     (\<forall>cwd t c. keeps (\<lambda>w. hist w = h) (run_command hs cwd t c))
     \<and> (\<forall>r. keeps (\<lambda>w. hist w = h) (worker_run hs r))
     \<and> (\<forall>n wt. keeps (\<lambda>w. hist w = h) (build_pack hs n wt))
     \<and> keeps (\<lambda>w. hist w = h) (make_log_dir hs)
     \<and> (\<forall>f. keeps (\<lambda>w. hist w = h) (write_log hs f))
     \<and> (\<forall>wt. keeps (\<lambda>w. hist w = h) (remove_reserved hs wt))
     \<and> (\<forall>wt b. keeps (\<lambda>w. hist w = h) (restore_line_endings hs wt b))
     \<and> (\<forall>p w. hist (rmtree hs p w) = hist w))"

definition rely_others :: "'w host \<Rightarrow> ('w \<Rightarrow> string list) \<Rightarrow> bool" where
  "rely_others hs hist = (\<forall>h w. at_head hist h w \<longrightarrow>
     at_head hist (fst (others hs (h, w))) (snd (others hs (h, w))))"

definition host_laws :: "'w host \<Rightarrow> ('w \<Rightarrow> string list) \<Rightarrow> bool" where
  "host_laws hs hist = (git_laws (run_git hs) hist REPO \<and> quiet_host hs hist \<and> rely_others hs hist)"

text \<open>Between merges the branch is at the integration head; during a merge its newest commit is on top.\<close>

definition branch_ok :: "('w \<Rightarrow> string list) \<Rightarrow> 'w run_state \<Rightarrow> bool" where
  "branch_ok hist s = at_head hist (integration_head s) (world s)"

definition branch_ahead :: "('w \<Rightarrow> string list) \<Rightarrow> string \<Rightarrow> 'w run_state \<Rightarrow> bool" where
  "branch_ahead hist c s = (\<exists>h. hist (world s) = c # h \<and> h \<noteq> [] \<and> hd h = integration_head s)"

lemma branch_frame:
  "branch_ok hist (s\<lparr>rc := r\<rparr>) = branch_ok hist s" "branch_ok hist (s\<lparr>ev := e\<rparr>) = branch_ok hist s"
  "branch_ok hist (s\<lparr>base_of := b\<rparr>) = branch_ok hist s"
  "branch_ahead hist c (s\<lparr>rc := r\<rparr>) = branch_ahead hist c s" "branch_ahead hist c (s\<lparr>ev := e\<rparr>) = branch_ahead hist c s"
  by (simp_all add: branch_ok_def branch_ahead_def)

lemma keeps_hist_world:
  assumes "\<And>h. keeps (\<lambda>w. hist w = h) m"
  shows "keeps (branch_ok hist) (on_world m)" "keeps (branch_ahead hist c) (on_world m)"
proof -
  have k: "wp m (\<lambda>_ w. hist w = hist v) (\<lambda>_ w. hist w = hist v) v" for v
    using assms[of "hist v"] by (rule keeps_wp) simp
  show "keeps (branch_ok hist) (on_world m)" "keeps (branch_ahead hist c) (on_world m)"
    unfolding keeps_def wp_on_world branch_ok_def branch_ahead_def at_head_def
    by (intro allI impI, rule wp_mono[OF k], simp, simp)+
qed

lemma worktree_not_repo [simp]: "worktree_of n \<noteq> REPO"
  by (simp add: worktree_of_def REPO_def)

lemma quiet_calls:
  assumes "quiet_host hs hist"
  shows "keeps (\<lambda>w. hist w = h) (run_command hs cwd t c)" "keeps (\<lambda>w. hist w = h) (worker_run hs r)"
    "keeps (\<lambda>w. hist w = h) (build_pack hs n wt)" "keeps (\<lambda>w. hist w = h) (write_log hs f)"
    "keeps (\<lambda>w. hist w = h) (remove_reserved hs wt)" "keeps (\<lambda>w. hist w = h) (restore_line_endings hs wt b)"
    "keeps (\<lambda>w. hist w = h) (make_log_dir hs)" "hist (rmtree hs p w) = hist w"
  using assms by (simp_all add: quiet_host_def)

lemma host_lawsD:
  assumes "host_laws hs hist"
  shows "git_laws (run_git hs) hist REPO" "quiet_host hs hist" "rely_others hs hist"
  using assms by (simp_all add: host_laws_def)

section \<open>Routines that do not touch the branch\<close>

lemma branch_ok_routines:
  assumes laws: "host_laws hs hist"
  shows "keeps (branch_ok hist) (run_worker hs g n failed attempt fl)"
    and "keeps (branch_ok hist) (run_node_check hs n attempt)"
    and "keeps (branch_ok hist) (acquire hs)"
    and "keeps (branch_ahead hist c) (post_merge_check hs n check_file)"
    and "keeps (branch_ok hist) (collect_changes hs n)"
proof -
  note q = quiet_calls[OF host_lawsD(2)[OF laws]]
  show "keeps (branch_ok hist) (run_worker hs g n failed attempt fl)"
    unfolding run_worker_def log_file_def
    by (intro keeps_run keeps_hist_world q; simp add: branch_frame)
  show "keeps (branch_ok hist) (run_node_check hs n attempt)"
    unfolding run_node_check_def log_file_def note_timeout_retry_def
    by (intro keeps_run keeps_hist_world keeps_run_checks q; simp add: branch_frame)
  show "keeps (branch_ok hist) (acquire hs)"
  proof (rule keeps_acquire)
    fix s h w assume "branch_ok hist s" "others hs (integration_head s, world s) = (h, w)"
    then show "branch_ok hist (s\<lparr>integration_head := h, world := w\<rparr>)"
      using host_lawsD(3)[OF laws, unfolded rely_others_def, rule_format, of "integration_head s" "world s"]
      by (simp add: branch_ok_def)
  qed
  show "keeps (branch_ahead hist c) (post_merge_check hs n check_file)"
    unfolding post_merge_check_def note_timeout_retry_def
    by (intro keeps_run keeps_hist_world keeps_run_checks q; simp add: branch_frame)
  show "keeps (branch_ok hist) (collect_changes hs n)"
    unfolding collect_changes_def
    by (intro keeps_run keeps_hist_world repo_keeps[OF host_lawsD(1)[OF laws], where P = "\<lambda>x. x = h" for h] q;
        simp add: branch_frame)
qed

section \<open>Merging\<close>

lemma squash_branch:
  assumes "host_laws hs hist" "branch_ok hist s"
  shows "wp (squash hs n) (\<lambda>r t. case r of None \<Rightarrow> branch_ok hist t | Some c \<Rightarrow> branch_ahead hist c t) (\<lambda>_ _. True) s"
  unfolding squash_def wp_seq wp_emit wp_bind wp_on_world
  by (rule wp_mono[OF squash_merge_hist[OF host_lawsD(1)[OF assms(1)]]])
    (use assms(2) in \<open>auto simp: wp_ret branch_ok_def branch_ahead_def at_head_def split: option.splits\<close>)

lemma resolve_conflict_branch:
  assumes laws: "host_laws hs hist"
  shows "keeps (branch_ok hist) (resolve_conflict hs g n failed)"
proof -
  note git = worktree_keeps[OF host_lawsD(1)[OF laws] worktree_not_repo, where P = "\<lambda>x. x = h" for h]
  have "keeps (branch_ok hist) (resolve_with_worker hs g n failed files)" for files
    unfolding resolve_with_worker_def record_worker_error_def
    by (intro keeps_run branch_ok_routines[OF laws]; simp add: branch_frame)
  then have "keeps (branch_ok hist) (resolve_files hs g n failed files)" for files
    unfolding resolve_files_def conclude_resolution_def
    by (intro keeps_run keeps_hist_world git; simp add: branch_frame)
  then show ?thesis
    unfolding resolve_conflict_def by (intro keeps_run keeps_hist_world git; simp add: branch_frame)
qed

abbreviation squashed :: "('w \<Rightarrow> string list) \<Rightarrow> string + string \<Rightarrow> 'w run_state \<Rightarrow> bool" where
  "squashed hist r t \<equiv> (case r of Inl _ \<Rightarrow> branch_ok hist t | Inr c \<Rightarrow> branch_ahead hist c t)"

lemma squash_resolving_branch:
  assumes laws: "host_laws hs hist" and s: "branch_ok hist s"
  shows "wp (squash_resolving hs opts g n failed) (squashed hist) (\<lambda>_ _. True) s"
proof -
  have again: "wp (squash_again hs n) (squashed hist) (\<lambda>_ _. True) t" if "branch_ok hist t" for t
    unfolding squash_again_def wp_bind
    by (rule wp_mono[OF squash_branch[OF laws that]]) (auto simp: wp_simps branch_frame split: option.splits)
  have both: "wp (resolve_and_squash hs opts g n failed) (squashed hist) (\<lambda>_ _. True) t" if t: "branch_ok hist t" for t
  proof -
    have "wp (resolve_conflict hs g n failed) (\<lambda>reason. wp (if reason \<noteq> [] then ret (Inl reason) else squash_again hs n)
        (squashed hist) (\<lambda>_ _. True)) (\<lambda>_ _. True) t"
      by (rule wp_mono[OF keeps_wp[OF resolve_conflict_branch[OF laws] t]]) (simp_all add: wp_ret again)
    with t show ?thesis unfolding resolve_and_squash_def wp_bind wp_get_rec by (simp add: wp_ret wp_bind)
  qed
  show ?thesis
    unfolding squash_resolving_def wp_bind
    by (rule wp_mono[OF squash_branch[OF laws s]]) (auto simp: wp_ret both split: option.splits)
qed

lemma undo_branch:
  assumes "host_laws hs hist" "branch_ahead hist c s"
  shows "wp (on_world (undo_last_commit (run_git hs) REPO)) (\<lambda>_. branch_ok hist) (\<lambda>_ _. True) s"
  unfolding wp_on_world
  by (rule wp_mono[OF undo_hist[OF host_lawsD(1)[OF assms(1)]]])
    (use assms(2) in \<open>auto simp: branch_ok_def branch_ahead_def at_head_def\<close>)

text \<open>A merge that returns, whatever its outcome, leaves the branch at the integration head.\<close>

lemma merge_once_branch:
  assumes laws: "host_laws hs hist" and s: "branch_ok hist s"
  shows "wp (merge_once hs opts g n failed check_file) (\<lambda>_. branch_ok hist) (\<lambda>_ _. True) s"
proof -
  have checked: "wp (bind_act (post_merge_check hs n check_file) (\<lambda>c.
          if \<not> co_ok c
          then seq_act (on_world (undo_last_commit (run_git hs) REPO))
               (ret (''post_merge_check_failed'', co_text c, co_timed_out c))
          else seq_act (upd_act (\<lambda>s. s\<lparr>integration_head := commit\<rparr>))
               (ret (''merged'', commit, False)))) (\<lambda>_. branch_ok hist) (\<lambda>_ _. True) t"
    if t: "branch_ahead hist commit t" for commit t
    unfolding wp_bind
  proof (rule wp_mono[OF keeps_wp[OF branch_ok_routines(4)[OF laws] t]], goal_cases)
    case (1 c u)
    have "branch_ok hist (u\<lparr>integration_head := commit\<rparr>)"
      using 1 by (auto simp: branch_ok_def branch_ahead_def at_head_def)
    with undo_branch[OF laws 1] show ?case
      by (cases "co_ok c") (simp_all add: wp_seq wp_upd wp_ret)
  qed simp
  have acq: "wp (acquire hs) (\<lambda>_. branch_ok hist) (\<lambda>_. branch_ok hist) s"
    by (rule keeps_wp[OF branch_ok_routines(3)[OF laws] s])
  have "wp (bind_act (squash_resolving hs opts g n failed) (\<lambda>r. case r of
        Inl reason \<Rightarrow> ret (reason, [], False)
      | Inr commit \<Rightarrow> bind_act (post_merge_check hs n check_file) (\<lambda>c.
          if \<not> co_ok c
          then seq_act (on_world (undo_last_commit (run_git hs) REPO))
               (ret (''post_merge_check_failed'', co_text c, co_timed_out c))
          else seq_act (upd_act (\<lambda>s. s\<lparr>integration_head := commit\<rparr>))
               (ret (''merged'', commit, False))))) (\<lambda>_. branch_ok hist) (\<lambda>_ _. True) t" if "branch_ok hist t" for t
    unfolding wp_bind[of "squash_resolving hs opts g n failed"]
    by (rule wp_mono[OF squash_resolving_branch[OF laws that]])
      (use checked in \<open>auto simp: wp_ret split: sum.splits\<close>)
  then show ?thesis
    unfolding merge_once_def wp_seq[of "acquire hs"] by (auto intro: wp_mono[OF acq])
qed

lemma merge_repair_again_branch:
  assumes laws: "host_laws hs hist"
  shows "keeps (branch_ok hist) (merge_repair_again hs g n failed detail timed_out)"
proof -
  note git = worktree_keeps[OF host_lawsD(1)[OF laws] worktree_not_repo, where P = "\<lambda>x. x = h" for h]
  have "keeps (branch_ok hist) (repair_attempt hs g n failed attempt k fl)" for attempt k fl
    unfolding repair_attempt_def record_worker_error_def
    by (intro keeps_run branch_ok_routines[OF laws] keeps_hist_world git; simp add: branch_frame)
  then have "keeps (branch_ok hist) (repair_merged hs g n failed attempt fl)" for attempt fl
    unfolding repair_merged_def by (intro keeps_run keeps_hist_world git; simp add: branch_frame)
  then show ?thesis
    unfolding merge_repair_again_def repair_def
    by (intro keeps_run branch_ok_routines[OF laws]; simp add: branch_frame)
qed

lemma merge_loop_branch:
  assumes laws: "host_laws hs hist"
  shows "branch_ok hist s \<Longrightarrow> wp (merge_loop hs opts g n failed repairs_left check_file) (\<lambda>_. branch_ok hist) (\<lambda>_ _. True) s"
proof (induction repairs_left arbitrary: s check_file rule: less_induct)
  case (less repairs_left)
  have fin: "wp (finish_merged c) (\<lambda>_. branch_ok hist) (\<lambda>_ _. True) t" "wp (finish_failed r) (\<lambda>_. branch_ok hist) (\<lambda>_ _. True) t"
    if "branch_ok hist t" for c r t
    using that by (simp_all add: finish_merged_def finish_failed_def wp_simps branch_frame)
  have again: "wp (bind_act (merge_repair_again hs g n failed detail timed_out) (\<lambda>reason.
       if reason = []
       then bind_act (get_rec nr_merge_repairs) (\<lambda>k.
         merge_loop hs opts g n failed (repairs_left - 1) (''post_merge_check_repair_'' @ nat_str k @ ''.txt''))
       else finish_failed reason)) (\<lambda>_. branch_ok hist) (\<lambda>_ _. True) t"
    if pos: "repairs_left > 0" and t: "branch_ok hist t" for detail timed_out t
    unfolding wp_bind
    by (rule wp_mono[OF keeps_wp[OF merge_repair_again_branch[OF laws] t]])
      (use less.IH pos fin in \<open>simp_all add: wp_bind wp_get_rec\<close>)
  show ?case
    unfolding merge_loop.simps[of hs opts g n failed repairs_left]
    by (subst wp_bind, rule wp_mono[OF merge_once_branch[OF laws less.prems]]) (use fin again in auto)
qed

lemma attempt_loop_branch:
  assumes laws: "host_laws hs hist"
  shows "keeps (branch_ok hist) (attempt_loop hs g n failed start as fl)"
proof (induction as arbitrary: fl)
  case Nil
  show ?case unfolding attempt_loop.simps by (intro keeps_run; simp add: branch_frame)
next
  case (Cons a as)
  show ?case
    unfolding attempt_loop.simps
    by (intro keeps_run branch_ok_routines[OF laws] keeps_hist_world Cons
        worktree_keeps[OF host_lawsD(1)[OF laws] worktree_not_repo, where P = "\<lambda>x. x = h" for h]
        repo_keeps[OF host_lawsD(1)[OF laws], where P = "\<lambda>x. x = h" for h]; simp add: branch_frame)
qed

lemma run_node_branch:
  assumes laws: "host_laws hs hist" and s: "branch_ok hist s"
  shows "wp (run_node hs opts g n failed) (\<lambda>_. branch_ok hist) (\<lambda>_ _. True) s"
proof -
  have "wp (bind_act (attempt_until_checked hs opts g n failed st) (\<lambda>ok. when_act ok (merge hs opts g n failed)))
      (\<lambda>_. branch_ok hist) (\<lambda>_ _. True) t" if t: "branch_ok hist t" for st t
    unfolding wp_bind attempt_until_checked_def
    by (rule wp_mono[OF keeps_wp[OF attempt_loop_branch[OF laws] t]])
      (auto simp: wp_when merge_def intro: merge_loop_branch[OF laws])
  then have body: "wp (finally_act (bind_act (attempt_until_checked hs opts g n failed st) (\<lambda>ok. when_act ok (merge hs opts g n failed)))
      (collect_changes hs n)) (\<lambda>_. branch_ok hist) (\<lambda>_ _. True) t" if t: "branch_ok hist t" for st t
    unfolding wp_finally
    by (rule wp_mono) (auto intro: t wp_mono[OF keeps_wp[OF branch_ok_routines(5)[OF laws]]])
  have pre: "keeps (branch_ok hist) (do_all [on_world (make_log_dir hs), emit Node_start, acquire hs])"
    by (intro keeps_run branch_ok_routines[OF laws] keeps_hist_world quiet_calls[OF host_lawsD(2)[OF laws]];
        simp add: branch_frame)
  have mid: "keeps (branch_ok hist) (do_all [on_world (add_node_worktree (run_git hs) REPO i wt st), upd_act (\<lambda>s. s\<lparr>base_of := st\<rparr>)])" for i wt st
    by (intro keeps_run keeps_hist_world repo_keeps[OF host_lawsD(1)[OF laws], where P = "\<lambda>x. x = h" for h];
        simp add: branch_frame)
  show ?thesis
    unfolding run_node_def
    by (subst wp_seq, rule wp_mono[OF keeps_wp[OF pre s]], subst wp_bind, subst wp_get, subst wp_seq,
        rule wp_mono[OF keeps_wp[OF mid]], assumption) (use body in auto)
qed


end
