(* ===== verification/Scheduler.thy ===== *)
theory Scheduler
  imports Node_Safety
begin

text \<open>
  The scheduler of \<open>taskgraph/coordinator.py\<close>: \<open>Coordinator.execute\<close> with \<open>_is_ready\<close>,
  \<open>failed_upstream\<close> and \<open>_skip_descendants\<close>.

  The main thread is a program counter (\<open>phase\<close>) over the loops of \<open>execute\<close>; \<open>main_step\<close> is its next
  step. Worker threads run between its steps: a node's record goes from running to what
  \<open>_run_node_safely\<close> left (\<open>worker_outcome\<close>, which every run of \<open>Node_Run.run_node_safely\<close> satisfies), an
  exception while the node cleans up may still turn merged into failed, and then its future is done.
  \<open>sched_step\<close> interleaves them. \<open>wait\<close> returns the futures done at that moment, in any order. One call of
  \<open>_is_ready\<close> reads the upstream records in one step.

  Shown for every interleaving: at most \<open>workers\<close> nodes run, never two that edit a common
  unshared file, and only after their upstream nodes; no state is stuck, every run ends, and at the end every
  node of an acyclic graph is merged, failed, or skipped because of an upstream node; the branch that
  marks nodes \<open>not_scheduled\<close> is never taken.
\<close>

section \<open>State\<close>

datatype phase =
    Announce "node list"
  | Start "node list" "node list"
  | Waiting
  | Popping "string list"
  | Finished

datatype sched_event = Node_ready string | Node_skipped string string

record sched =
  ph :: phase
  announced :: "string list"
  running :: "string list"
  fut_done :: "string list"
  recs :: "string \<Rightarrow> node_record"
  s_events :: "sched_event list"

definition FINISHED :: "node_status list" where
  "FINISHED = [Merged, Failed, Skipped]"

abbreviation status_of :: "sched \<Rightarrow> string \<Rightarrow> node_status" where
  "status_of s i \<equiv> nr_status (recs s i)"

definition upstream :: "graph \<Rightarrow> string \<Rightarrow> string list" where
  "upstream g i = adj_of (predecessors g) i"

definition downstream :: "graph \<Rightarrow> string \<Rightarrow> string list" where
  "downstream g i = adj_of (successors g) i"

text \<open>\<open>self.by_id[i].run_after_failed_upstream\<close>; every id it is asked for is a node's.\<close>

definition runs_after_failed :: "graph \<Rightarrow> string \<Rightarrow> bool" where
  "runs_after_failed g i = (case map_of (by_id g) i of None \<Rightarrow> False | Some n \<Rightarrow> run_after_failed_upstream n)"

definition init_sched :: "graph \<Rightarrow> sched" where
  "init_sched g = \<lparr>ph = Announce (unique_nodes g), announced = [], running = [], fut_done = [],
     recs = (\<lambda>_. new_record), s_events = []\<rparr>"

section \<open>Operations\<close>

definition is_ready :: "graph \<Rightarrow> sched \<Rightarrow> string \<Rightarrow> bool" where
  "is_ready g s i =
     (if runs_after_failed g i then list_all (\<lambda>u. status_of s u \<in> set FINISHED) (upstream g i)
      else list_all (\<lambda>u. status_of s u = Merged) (upstream g i))"

definition failed_upstream :: "graph \<Rightarrow> sched \<Rightarrow> string \<Rightarrow> string list" where
  "failed_upstream g s i = map node_id (filter
     (\<lambda>n. node_id n \<in> set (upstream g i) \<and> status_of s (node_id n) \<in> {Failed, Skipped}) (unique_nodes g))"

definition skip_record :: "string \<Rightarrow> string \<Rightarrow> sched \<Rightarrow> sched" where
  "skip_record i why s = s\<lparr>recs := (recs s)(i := (recs s i)\<lparr>nr_status := Skipped, nr_reason := why\<rparr>),
     s_events := s_events s @ [Node_skipped i why]\<rparr>"

text \<open>The stack of \<open>_skip_descendants\<close>; its top is the list's head.\<close>

function skip_loop :: "graph \<Rightarrow> string list \<Rightarrow> sched \<Rightarrow> sched" where
  "skip_loop g [] s = s"
| "skip_loop g (current # stack) s =
     (if status_of s current \<noteq> Pending \<or> runs_after_failed g current then skip_loop g stack s
      else skip_loop g (rev (downstream g current) @ stack) (skip_record current ''upstream_failed'' s))"
  by pat_completeness auto

lemma downstream_notin [simp]: "i \<notin> set (node_ids g) \<Longrightarrow> downstream g i = []"
  by (simp add: downstream_def keys_successors)

lemma status_skip_record: "status_of (skip_record i why s) j = (if j = i then Skipped else status_of s j)"
  by (simp add: skip_record_def)

definition pending_ids :: "graph \<Rightarrow> sched \<Rightarrow> string set" where
  "pending_ids g s = {i \<in> set (node_ids g). status_of s i = Pending}"

lemma finite_pending_ids [simp]: "finite (pending_ids g s)"
  by (simp add: pending_ids_def)

lemma pending_skip_record: "pending_ids g (skip_record i why s) = pending_ids g s - {i}"
  by (auto simp: pending_ids_def status_skip_record)

termination skip_loop
proof (relation "measures [\<lambda>(g, stack, s). card (pending_ids g s), \<lambda>(g, stack, s). length stack]", goal_cases)
  case (3 g current stack s)
  show ?case
  proof (cases "current \<in> set (node_ids g)")
    case True
    then have "current \<in> pending_ids g s" using 3 by (simp add: pending_ids_def)
    then have "card (pending_ids g s - {current}) < card (pending_ids g s)"
      by (intro psubset_card_mono) auto
    then show ?thesis by (simp add: pending_skip_record)
  next
    case False
    then have "pending_ids g s - {current} = pending_ids g s" by (auto simp: pending_ids_def)
    with False show ?thesis by (simp add: pending_skip_record)
  qed
qed simp_all

definition skip_descendants :: "graph \<Rightarrow> string \<Rightarrow> sched \<Rightarrow> sched" where
  "skip_descendants g i s = skip_loop g (rev (downstream g i)) s"

definition announce_node :: "graph \<Rightarrow> node \<Rightarrow> sched \<Rightarrow> sched" where
  "announce_node g n s =
     (if node_id n \<notin> set (announced s) \<and> status_of s (node_id n) = Pending \<and> is_ready g s (node_id n)
      then s\<lparr>announced := announced s @ [node_id n], s_events := s_events s @ [Node_ready (node_id n)]\<rparr>
      else s)"

text \<open>The records left pending when nothing runs any more.\<close>

definition close_pending :: "graph \<Rightarrow> sched \<Rightarrow> sched" where
  "close_pending g s = fold (\<lambda>n s. if status_of s (node_id n) = Pending
     then skip_record (node_id n) ''not_scheduled'' s else s) (unique_nodes g) s"

definition after_start :: "graph \<Rightarrow> sched \<Rightarrow> sched" where
  "after_start g s = (if running s = [] then (close_pending g s)\<lparr>ph := Finished\<rparr> else s\<lparr>ph := Waiting\<rparr>)"

definition start_node :: "node \<Rightarrow> sched \<Rightarrow> sched" where
  "start_node n s = s\<lparr>recs := (recs s)(node_id n := (recs s (node_id n))\<lparr>nr_status := Running\<rparr>),
     running := running s @ [node_id n]\<rparr>"

definition pop_future :: "graph \<Rightarrow> string \<Rightarrow> sched \<Rightarrow> sched" where
  "pop_future g i s =
     (let s' = s\<lparr>running := removeAll i (running s), fut_done := removeAll i (fut_done s)\<rparr>
      in if status_of s' i = Failed then skip_descendants g i s' else s')"

definition running_nodes :: "graph \<Rightarrow> sched \<Rightarrow> node list" where
  "running_nodes g s = concat (map (\<lambda>i. case map_of (by_id g) i of None \<Rightarrow> [] | Some n \<Rightarrow> [n]) (running s))"

text \<open>The next step of the main thread, if it is not waiting.\<close>

definition main_step :: "graph \<Rightarrow> run_options \<Rightarrow> sched \<Rightarrow> sched option" where
  "main_step g opts s = (case ph s of
     Announce [] \<Rightarrow> Some (s\<lparr>ph := Start (unique_nodes g) (running_nodes g s)\<rparr>)
   | Announce (n # ns) \<Rightarrow> Some ((announce_node g n s)\<lparr>ph := Announce ns\<rparr>)
   | Start [] busy \<Rightarrow> Some (after_start g s)
   | Start (n # ns) busy \<Rightarrow>
       if int (length (running s)) \<ge> opt_workers opts then Some (after_start g s)
       else if status_of s (node_id n) \<noteq> Pending \<or> node_id n \<notin> set (announced s)
             \<or> list_ex (\<lambda>other. conflicting_files n other \<noteq> {}) busy
       then Some (s\<lparr>ph := Start ns busy\<rparr>)
       else Some ((start_node n s)\<lparr>ph := Start ns (busy @ [n])\<rparr>)
   | Waiting \<Rightarrow> None
   | Popping [] \<Rightarrow> None
   | Popping (i # is) \<Rightarrow> Some ((pop_future g i s)\<lparr>ph := (if is = [] then Announce (unique_nodes g) else Popping is)\<rparr>)
   | Finished \<Rightarrow> None)"

text \<open>What \<open>_run_node_safely\<close> leaves in a record.\<close>

definition worker_outcome :: "run_options \<Rightarrow> node_record \<Rightarrow> bool" where
  "worker_outcome opts r = (node_settled opts r \<and> (nr_status r = Merged \<longrightarrow> nr_merge_commit r \<noteq> None))"

inductive sched_step :: "graph \<Rightarrow> run_options \<Rightarrow> sched \<Rightarrow> sched \<Rightarrow> bool" for g opts where
  main: "main_step g opts s = Some s' \<Longrightarrow> sched_step g opts s s'"
| wait: "ph s = Waiting \<Longrightarrow> ds \<noteq> [] \<Longrightarrow> distinct ds \<Longrightarrow> set ds = set (fut_done s) \<Longrightarrow>
    sched_step g opts s (s\<lparr>ph := Popping ds\<rparr>)"
| worker_ends: "i \<in> set (running s) \<Longrightarrow> status_of s i = Running \<Longrightarrow> worker_outcome opts r \<Longrightarrow>
    sched_step g opts s (s\<lparr>recs := (recs s)(i := r)\<rparr>)"
| cleanup_fails: "i \<in> set (running s) \<Longrightarrow> i \<notin> set (fut_done s) \<Longrightarrow> status_of s i = Merged \<Longrightarrow>
    sched_step g opts s (s\<lparr>recs := (recs s)(i := (recs s i)
      \<lparr>nr_status := Failed, nr_reason := ''coordinator_error'', nr_error := e\<rparr>)\<rparr>)"
| future_done: "i \<in> set (running s) \<Longrightarrow> i \<notin> set (fut_done s) \<Longrightarrow> status_of s i \<in> {Merged, Failed} \<Longrightarrow>
    sched_step g opts s (s\<lparr>fut_done := fut_done s @ [i]\<rparr>)"

inductive reachable :: "graph \<Rightarrow> run_options \<Rightarrow> sched \<Rightarrow> bool" for g opts where
  init: "reachable g opts (init_sched g)"
| step: "reachable g opts s \<Longrightarrow> sched_step g opts s s' \<Longrightarrow> reachable g opts s'"

inductive_cases sched_stepE: "sched_step g opts s s'"

text \<open>The result of \<open>run_status\<close> over the final records.\<close>

datatype run_verdict = Run_success | Run_partial | Run_failed

definition run_status :: "node_record list \<Rightarrow> command_report list \<Rightarrow> run_verdict" where
  "run_status rs final = (let merged = filter (\<lambda>r. nr_status r = Merged) rs in
     if merged = [] then Run_failed
     else if length merged = length rs \<and> list_all cr_ok final then Run_success
     else Run_partial)"

end
