(* ===== verification/Sched_Safety.thy ===== *)
theory Sched_Safety
  imports Scheduler
begin

text \<open>
  The invariant of the scheduler, by rule induction over \<open>reachable\<close>, and what follows: safety of what
  runs together, ordering along the edges, progress, termination, and the meaning of the final records.
\<close>

section \<open>Upstream and downstream\<close>

lemma set_upstream: "set (upstream g i) = {u. (u, i) \<in> edge_rel g}"
  by (simp add: upstream_def adj_of_predecessors)

lemma set_downstream: "set (downstream g i) = {d. (i, d) \<in> edge_rel g}"
  by (simp add: downstream_def adj_of_successors)

lemma upstream_ids: "u \<in> set (upstream g i) \<Longrightarrow> u \<in> set (node_ids g) \<and> i \<in> set (node_ids g)"
  using edge_rel_ids[of g] by (auto simp: set_upstream)

section \<open>Skipping\<close>

abbreviation blocked :: "graph \<Rightarrow> sched \<Rightarrow> string \<Rightarrow> bool" where
  "blocked g s d \<equiv> status_of s d \<noteq> Pending \<or> runs_after_failed g d"

lemma skip_record_frame [simp]:
  "announced (skip_record i why s) = announced s" "running (skip_record i why s) = running s"
  "fut_done (skip_record i why s) = fut_done s" "ph (skip_record i why s) = ph s"
  by (simp_all add: skip_record_def)

lemma skip_loop_frame [simp]:
  "announced (skip_loop g stack s) = announced s" "running (skip_loop g stack s) = running s"
  "fut_done (skip_loop g stack s) = fut_done s" "ph (skip_loop g stack s) = ph s"
  by (induction g stack s rule: skip_loop.induct) simp_all

text \<open>Only pending nodes that do not run after failures are touched, and they become skipped.\<close>

lemma skip_loop_recs:
  "recs (skip_loop g stack s) i = recs s i
   \<or> status_of s i = Pending \<and> \<not> runs_after_failed g i
     \<and> recs (skip_loop g stack s) i = (recs s i)\<lparr>nr_status := Skipped, nr_reason := ''upstream_failed''\<rparr>"
proof (induction g stack s rule: skip_loop.induct)
  case (1 g s)
  show ?case by simp
next
  case (2 g current stack s)
  then show ?case by (auto simp: skip_record_def split: if_splits)
qed

lemma skip_loop_blocked: "blocked g s d \<Longrightarrow> blocked g (skip_loop g stack s) d"
  using skip_loop_recs[of g stack s d] by auto

lemma skip_loop_stack: "x \<in> set stack \<Longrightarrow> blocked g (skip_loop g stack s) x"
proof (induction g stack s rule: skip_loop.induct)
  case (2 g current stack s)
  show ?case
  proof (cases "blocked g s current")
    case True
    with 2(1,3) skip_loop_blocked[OF True] show ?thesis by auto
  next
    case False
    then have "blocked g (skip_record current ''upstream_failed'' s) current" by (simp add: status_skip_record)
    with 2(2,3) False skip_loop_blocked show ?thesis by auto
  qed
qed simp

text \<open>Below every node skipped by the loop, everything is skipped, past its start, or runs anyway.\<close>

lemma skip_loop_closed:
  "status_of s u \<noteq> Skipped \<Longrightarrow> status_of (skip_loop g stack s) u = Skipped \<Longrightarrow> d \<in> set (downstream g u) \<Longrightarrow>
   blocked g (skip_loop g stack s) d"
proof (induction g stack s rule: skip_loop.induct)
  case (2 g current stack s)
  show ?case
  proof (cases "blocked g s current")
    case True
    with 2 show ?thesis by auto
  next
    case False
    show ?thesis
    proof (cases "u = current")
      case True
      with 2(5) False show ?thesis using skip_loop_stack[of d "rev (downstream g current) @ stack"] by simp
    next
      case neq: False
      with 2(2)[OF False] 2(3,4,5) False show ?thesis by (simp add: status_skip_record)
    qed
  qed
qed simp

text \<open>A node is skipped because it was on the stack or is below a skipped node.\<close>

lemma skip_loop_cause:
  "status_of s i \<noteq> Skipped \<Longrightarrow> status_of (skip_loop g stack s) i = Skipped \<Longrightarrow>
   i \<in> set stack \<or> (\<exists>u. i \<in> set (downstream g u) \<and> status_of (skip_loop g stack s) u = Skipped)"
proof (induction g stack s rule: skip_loop.induct)
  case (2 g current stack s)
  show ?case
  proof (cases "blocked g s current")
    case True
    with 2 show ?thesis by auto
  next
    case False
    let ?s = "skip_record current ''upstream_failed'' s"
    have sk: "status_of (skip_loop g (rev (downstream g current) @ stack) ?s) current = Skipped"
      using skip_loop_recs[of g "rev (downstream g current) @ stack" ?s current] by (auto simp: status_skip_record)
    show ?thesis
    proof (cases "i = current")
      case False
      with 2(2)[OF \<open>\<not> blocked g s current\<close>] 2(3,4) \<open>\<not> blocked g s current\<close> sk show ?thesis
        by (auto simp: status_skip_record)
    qed simp
  qed
qed simp

section \<open>The invariant\<close>

text \<open>A record that was merged; an exception in the clean-up may have turned it into failed afterwards.\<close>

definition was_merged :: "node_record \<Rightarrow> bool" where
  "was_merged r = (nr_status r = Merged
     \<or> nr_status r = Failed \<and> nr_reason r = ''coordinator_error'' \<and> nr_merge_commit r \<noteq> None)"

definition upstream_ok :: "graph \<Rightarrow> sched \<Rightarrow> string \<Rightarrow> bool" where
  "upstream_ok g s i = (\<forall>u\<in>set (upstream g i).
     if runs_after_failed g i then status_of s u \<in> set FINISHED else was_merged (recs s u))"

definition run_inv :: "graph \<Rightarrow> run_options \<Rightarrow> sched \<Rightarrow> bool" where
  "run_inv g opts s =
     (distinct (running s) \<and> set (running s) \<subseteq> set (node_ids g)
      \<and> (\<forall>i. status_of s i = Running \<longrightarrow> i \<in> set (running s))
      \<and> (\<forall>i\<in>set (running s). status_of s i \<in> {Running, Merged, Failed})
      \<and> distinct (fut_done s) \<and> set (fut_done s) \<subseteq> set (running s)
      \<and> (\<forall>i\<in>set (fut_done s). status_of s i \<in> {Merged, Failed})
      \<and> (\<forall>i. status_of s i = Merged \<longrightarrow> nr_merge_commit (recs s i) \<noteq> None)
      \<and> int (length (running s)) \<le> opt_workers opts)"

definition conflict_inv :: "graph \<Rightarrow> sched \<Rightarrow> bool" where
  "conflict_inv g s = (\<forall>a\<in>set (unique_nodes g). \<forall>b\<in>set (unique_nodes g).
     node_id a \<in> set (running s) \<longrightarrow> node_id b \<in> set (running s) \<longrightarrow> a \<noteq> b \<longrightarrow> conflicting_files a b = {})"

definition order_inv :: "graph \<Rightarrow> sched \<Rightarrow> bool" where
  "order_inv g s = ((\<forall>i. status_of s i \<in> {Running, Merged, Failed} \<longrightarrow> i \<in> set (announced s))
     \<and> (\<forall>i\<in>set (announced s). upstream_ok g s i))"

definition skip_inv :: "graph \<Rightarrow> sched \<Rightarrow> bool" where
  "skip_inv g s = (\<forall>u. status_of s u \<in> {Failed, Skipped} \<and> u \<notin> set (running s) \<longrightarrow>
     (\<forall>d\<in>set (downstream g u). blocked g s d))"

definition cause_inv :: "graph \<Rightarrow> sched \<Rightarrow> bool" where
  "cause_inv g s = (\<forall>i. status_of s i = Skipped \<longrightarrow> nr_reason (recs s i) = ''upstream_failed'' \<and> \<not> runs_after_failed g i
     \<and> (\<exists>u\<in>set (upstream g i). status_of s u \<in> {Failed, Skipped}))"

definition waiting_ready :: "graph \<Rightarrow> sched \<Rightarrow> node \<Rightarrow> bool" where
  "waiting_ready g s n = (status_of s (node_id n) = Pending \<and> is_ready g s (node_id n))"

definition phase_inv :: "graph \<Rightarrow> sched \<Rightarrow> bool" where
  "phase_inv g s = (case ph s of
     Announce ns \<Rightarrow> set ns \<subseteq> set (unique_nodes g) \<and> (running s = [] \<longrightarrow>
       (\<forall>n\<in>set (unique_nodes g) - set ns. waiting_ready g s n \<longrightarrow> node_id n \<in> set (announced s)))
   | Start ns busy \<Rightarrow> set ns \<subseteq> set (unique_nodes g) \<and> set busy \<subseteq> set (unique_nodes g) \<and> map node_id busy = running s
       \<and> (running s = [] \<longrightarrow>
         (\<forall>n\<in>set (unique_nodes g). waiting_ready g s n \<longrightarrow> node_id n \<in> set (announced s))
         \<and> (\<forall>n\<in>set (unique_nodes g) - set ns. status_of s (node_id n) = Pending \<longrightarrow> node_id n \<notin> set (announced s)))
   | Waiting \<Rightarrow> running s \<noteq> []
   | Popping ds \<Rightarrow> ds \<noteq> [] \<and> distinct ds \<and> set ds \<subseteq> set (fut_done s)
   | Finished \<Rightarrow> running s = [] \<and> (\<forall>i\<in>set (node_ids g). status_of s i \<noteq> Pending))"

definition sched_inv :: "graph \<Rightarrow> run_options \<Rightarrow> sched \<Rightarrow> bool" where
  "sched_inv g opts s = (run_inv g opts s \<and> conflict_inv g s \<and> order_inv g s \<and> skip_inv g s \<and> cause_inv g s
     \<and> phase_inv g s)"

lemmas inv_defs = run_inv_def conflict_inv_def order_inv_def skip_inv_def cause_inv_def

lemma init_inv: "0 \<le> opt_workers opts \<Longrightarrow> sched_inv g opts (init_sched g)"
  by (auto simp: sched_inv_def inv_defs phase_inv_def init_sched_def new_record_def)

subsection \<open>Worker steps\<close>

text \<open>A worker step replaces the record of a running node by one that is merged or failed.\<close>

lemma worker_step_inv:
  assumes inv: "sched_inv g opts s" and i: "i \<in> set (running s)" "i \<notin> set (fut_done s)"
    and r: "nr_status r \<in> {Merged, Failed}" "nr_status r = Merged \<Longrightarrow> nr_merge_commit r \<noteq> None"
      "was_merged (recs s i) \<Longrightarrow> was_merged r" "status_of s i \<noteq> Failed"
  shows "sched_inv g opts (s\<lparr>recs := (recs s)(i := r)\<rparr>)"
proof -
  let ?s = "s\<lparr>recs := (recs s)(i := r)\<rparr>"
  have st: "status_of s i \<in> {Running, Merged, Failed}" using inv i by (auto simp: sched_inv_def run_inv_def)
  have ne: "running s \<noteq> []" using i by auto
  have run: "run_inv g opts ?s" using inv i r by (auto simp: sched_inv_def run_inv_def)
  have up: "upstream_ok g ?s j" if "upstream_ok g s j" for j
    unfolding upstream_ok_def
  proof
    fix u assume "u \<in> set (upstream g j)"
    with that have "if runs_after_failed g j then status_of s u \<in> set FINISHED else was_merged (recs s u)"
      by (simp add: upstream_ok_def)
    then show "if runs_after_failed g j then status_of ?s u \<in> set FINISHED else was_merged (recs ?s u)"
      using r st by (auto simp: FINISHED_def)
  qed
  have ord: "order_inv g ?s" using inv st up by (auto simp: sched_inv_def order_inv_def)
  have skip: "skip_inv g ?s" using inv i st r by (auto simp: sched_inv_def skip_inv_def)
  have cause: "cause_inv g ?s"
    unfolding cause_inv_def
  proof (intro allI impI)
    fix j assume j: "status_of ?s j = Skipped"
    with r(1) have "j \<noteq> i" by auto
    with j inv obtain u where u: "nr_reason (recs s j) = ''upstream_failed''" "\<not> runs_after_failed g j"
      "u \<in> set (upstream g j)" "status_of s u \<in> {Failed, Skipped}"
      by (auto simp: sched_inv_def cause_inv_def)
    with st r(4) have "u \<noteq> i" by auto
    with u \<open>j \<noteq> i\<close> show "nr_reason (recs ?s j) = ''upstream_failed'' \<and> \<not> runs_after_failed g j
        \<and> (\<exists>u\<in>set (upstream g j). status_of ?s u \<in> {Failed, Skipped})" by auto
  qed
  have "phase_inv g ?s"
    using inv ne by (auto simp: sched_inv_def phase_inv_def split: phase.splits)
  with run ord skip cause inv show ?thesis by (simp add: sched_inv_def conflict_inv_def)
qed

lemma future_done_inv:
  assumes "sched_inv g opts s" "i \<in> set (running s)" "i \<notin> set (fut_done s)" "status_of s i \<in> {Merged, Failed}"
  shows "sched_inv g opts (s\<lparr>fut_done := fut_done s @ [i]\<rparr>)"
  using assms by (auto simp: sched_inv_def inv_defs phase_inv_def upstream_ok_def waiting_ready_def is_ready_def
      split: phase.splits)

subsection \<open>Steps of the main thread\<close>

lemma upstream_ok_recs: "recs s = recs t \<Longrightarrow> upstream_ok g s i = upstream_ok g t i"
  by (simp add: upstream_ok_def)

lemma is_ready_recs: "recs s = recs t \<Longrightarrow> is_ready g s i = is_ready g t i"
  by (simp add: is_ready_def)

lemma ready_upstream_ok: "is_ready g s i \<Longrightarrow> upstream_ok g s i"
  by (auto simp: is_ready_def upstream_ok_def was_merged_def list_all_iff split: if_splits)

text \<open>The parts of the invariant that do not look at the program counter.\<close>

definition base_inv :: "graph \<Rightarrow> run_options \<Rightarrow> sched \<Rightarrow> bool" where
  "base_inv g opts s = (run_inv g opts s \<and> conflict_inv g s \<and> order_inv g s \<and> skip_inv g s \<and> cause_inv g s)"

lemma sched_inv_base: "sched_inv g opts s \<longleftrightarrow> base_inv g opts s \<and> phase_inv g s"
  by (simp add: sched_inv_def base_inv_def)

lemma base_inv_ph: "base_inv g opts (s\<lparr>ph := p\<rparr>) = base_inv g opts s"
  by (simp add: base_inv_def inv_defs upstream_ok_def)

lemma announce_base_inv:
  assumes "base_inv g opts s"
  shows "base_inv g opts (announce_node g n s)"
proof -
  have "upstream_ok g s (node_id n)" if "is_ready g s (node_id n)" using that by (rule ready_upstream_ok)
  with assms show ?thesis
    by (auto simp: base_inv_def inv_defs announce_node_def upstream_ok_def)
qed

lemma announce_step:
  assumes inv: "sched_inv g opts s" and p: "ph s = Announce (n # ns)"
  shows "sched_inv g opts ((announce_node g n s)\<lparr>ph := Announce ns\<rparr>)"
proof -
  have "phase_inv g ((announce_node g n s)\<lparr>ph := Announce ns\<rparr>)"
    using inv p by (auto simp: sched_inv_base phase_inv_def announce_node_def waiting_ready_def is_ready_def)
  with inv show ?thesis by (simp add: sched_inv_base base_inv_ph announce_base_inv)
qed

lemma running_nodes_ids:
  assumes "set (running s) \<subseteq> set (node_ids g)"
  shows "map node_id (running_nodes g s) = running s \<and> set (running_nodes g s) \<subseteq> set (unique_nodes g)"
proof -
  have "map node_id (concat (map (\<lambda>i. case map_of (by_id g) i of None \<Rightarrow> [] | Some n \<Rightarrow> [n]) is)) = is
    \<and> set (concat (map (\<lambda>i. case map_of (by_id g) i of None \<Rightarrow> [] | Some n \<Rightarrow> [n]) is)) \<subseteq> set (unique_nodes g)"
    if "set is \<subseteq> set (node_ids g)" for "is"
    using that
  proof (induction "is")
    case (Cons i "is")
    then have "i \<in> node_id ` set (unique_nodes g)" by simp
    then obtain n where "n \<in> set (unique_nodes g)" "i = node_id n" by (rule imageE)
    then have "map_of (by_id g) i = Some n" by (simp add: map_of_by_id)
    with Cons \<open>n \<in> set (unique_nodes g)\<close> \<open>i = node_id n\<close> show ?case by simp
  qed simp
  from this[OF assms] show ?thesis by (simp add: running_nodes_def)
qed

lemma announce_end_step:
  assumes inv: "sched_inv g opts s" and p: "ph s = Announce []"
  shows "sched_inv g opts (s\<lparr>ph := Start (unique_nodes g) (running_nodes g s)\<rparr>)"
proof -
  have "set (running s) \<subseteq> set (node_ids g)" using inv by (simp add: sched_inv_def run_inv_def)
  from running_nodes_ids[OF this] inv p
  have "phase_inv g (s\<lparr>ph := Start (unique_nodes g) (running_nodes g s)\<rparr>)"
    by (simp add: sched_inv_base phase_inv_def waiting_ready_def is_ready_def)
  with inv show ?thesis by (simp add: sched_inv_base base_inv_ph)
qed

lemma start_skip_step:
  assumes inv: "sched_inv g opts s" and p: "ph s = Start (n # ns) busy"
    and c: "status_of s (node_id n) \<noteq> Pending \<or> node_id n \<notin> set (announced s)
             \<or> list_ex (\<lambda>other. conflicting_files n other \<noteq> {}) busy"
  shows "sched_inv g opts (s\<lparr>ph := Start ns busy\<rparr>)"
proof -
  have "phase_inv g (s\<lparr>ph := Start ns busy\<rparr>)"
    using inv p c by (auto simp: sched_inv_base phase_inv_def waiting_ready_def is_ready_def)
  with inv show ?thesis by (simp add: sched_inv_base base_inv_ph)
qed

lemma conflicting_sym: "conflicting_files a b = conflicting_files b a"
  by (auto simp: conflicting_files_def)

lemma start_node_step:
  assumes inv: "sched_inv g opts s" and p: "ph s = Start (n # ns) busy"
    and w: "int (length (running s)) < opt_workers opts"
    and c: "status_of s (node_id n) = Pending" "node_id n \<in> set (announced s)"
      "\<not> list_ex (\<lambda>other. conflicting_files n other \<noteq> {}) busy"
  shows "sched_inv g opts ((start_node n s)\<lparr>ph := Start ns (busy @ [n])\<rparr>)"
proof -
  let ?i = "node_id n"
  let ?s = "start_node n s"
  have ph: "set (n # ns) \<subseteq> set (unique_nodes g)" "set busy \<subseteq> set (unique_nodes g)" "map node_id busy = running s"
    using inv p by (simp_all add: sched_inv_base phase_inv_def)
  have ni: "?i \<notin> set (running s)" using inv c(1) by (auto simp: sched_inv_def run_inv_def)
  have mem: "?i \<in> set (node_ids g)" using ph(1) by (metis image_eqI list.set_intros(1) subsetD unique_nodes_ids)
  have run: "run_inv g opts ?s" using inv w ni mem by (auto simp: sched_inv_def run_inv_def start_node_def)
  have free: "conflicting_files n b = {}" if "b \<in> set (unique_nodes g)" "node_id b \<in> set (running s)" for b
  proof -
    from that(2) obtain b' where b': "b' \<in> set busy" "node_id b' = node_id b" unfolding ph(3)[symmetric] by auto
    then have "b' = b" using that(1) ph(2) unique_nodes_inj by blast
    with b' c(3) show ?thesis by (auto simp: list_ex_iff)
  qed
  have conf: "conflict_inv g ?s"
    unfolding conflict_inv_def
  proof (intro ballI impI)
    fix a b assume ab: "a \<in> set (unique_nodes g)" "b \<in> set (unique_nodes g)"
      "node_id a \<in> set (running ?s)" "node_id b \<in> set (running ?s)" "a \<noteq> b"
    have n: "x = n" if "x \<in> set (unique_nodes g)" "node_id x = ?i" for x
      using that ph(1) unique_nodes_inj[of x g n] by auto
    from ab(3,4) have "node_id a \<in> set (running s) \<or> a = n" "node_id b \<in> set (running s) \<or> b = n"
      using n[OF ab(1)] n[OF ab(2)] by (auto simp: start_node_def)
    then show "conflicting_files a b = {}"
      using ab inv free[OF ab(1)] free[OF ab(2)] conflicting_sym[of a n] by (auto simp: sched_inv_def conflict_inv_def)
  qed
  have up: "upstream_ok g ?s j" if "upstream_ok g s j" for j
    unfolding upstream_ok_def
  proof
    fix u assume "u \<in> set (upstream g j)"
    with that have u: "if runs_after_failed g j then status_of s u \<in> set FINISHED else was_merged (recs s u)"
      by (simp add: upstream_ok_def)
    with c(1) have "u \<noteq> ?i" by (auto simp: was_merged_def FINISHED_def split: if_splits)
    with u show "if runs_after_failed g j then status_of ?s u \<in> set FINISHED else was_merged (recs ?s u)"
      by (simp add: start_node_def)
  qed
  have ord: "order_inv g ?s" using inv c up by (auto simp: sched_inv_def order_inv_def start_node_def)
  have skip: "skip_inv g ?s" using inv c(1) by (auto simp: sched_inv_def skip_inv_def start_node_def)
  have cause: "cause_inv g ?s"
    unfolding cause_inv_def
  proof (intro allI impI)
    fix j assume "status_of ?s j = Skipped"
    then have j: "j \<noteq> ?i" "status_of s j = Skipped" by (auto simp: start_node_def split: if_splits)
    with inv obtain u where u: "nr_reason (recs s j) = ''upstream_failed''" "\<not> runs_after_failed g j"
      "u \<in> set (upstream g j)" "status_of s u \<in> {Failed, Skipped}"
      by (auto simp: sched_inv_def cause_inv_def)
    then have "u \<noteq> ?i" using c(1) by auto
    with u j show "nr_reason (recs ?s j) = ''upstream_failed'' \<and> \<not> runs_after_failed g j
        \<and> (\<exists>u\<in>set (upstream g j). status_of ?s u \<in> {Failed, Skipped})" by (auto simp: start_node_def)
  qed
  have "phase_inv g (?s\<lparr>ph := Start ns (busy @ [n])\<rparr>)"
    using ph by (simp add: phase_inv_def start_node_def)
  moreover have "base_inv g opts ?s" using run conf ord skip cause by (simp add: base_inv_def)
  ultimately show ?thesis by (simp add: sched_inv_base base_inv_ph)
qed

subsection \<open>The end of the run\<close>

text \<open>When nothing runs and no announced node is waiting, no node of an acyclic graph is pending.\<close>

lemma nothing_pending:
  assumes acyc: "acyclic (edge_rel g)" and inv: "base_inv g opts s" and idle: "running s = []"
    and ready: "\<forall>n\<in>set (unique_nodes g). waiting_ready g s n \<longrightarrow> node_id n \<in> set (announced s)"
    and none: "\<forall>n\<in>set (unique_nodes g). status_of s (node_id n) = Pending \<longrightarrow> node_id n \<notin> set (announced s)"
  shows "\<forall>i\<in>set (node_ids g). status_of s i \<noteq> Pending"
proof -
  have wf: "wf (edge_rel g)" using acyc by (simp add: finite_acyclic_wf)
  have "i \<in> set (node_ids g) \<Longrightarrow> status_of s i \<noteq> Pending" for i
    using wf
  proof (induction i rule: wf_induct_rule)
    case (less i)
    show ?case
    proof
      assume pend: "status_of s i = Pending"
      from less.prems have "i \<in> node_id ` set (unique_nodes g)" by simp
      then obtain n where n: "n \<in> set (unique_nodes g)" "i = node_id n" by (rule imageE)
      have "\<not> is_ready g s i" using ready none n pend by (auto simp: waiting_ready_def)
      moreover have fin: "status_of s u \<in> set FINISHED" if "u \<in> set (upstream g i)" for u
      proof -
        from that have "status_of s u \<noteq> Pending" using less.IH upstream_ids[OF that] by (auto simp: set_upstream)
        moreover have "status_of s u \<noteq> Running" using inv idle by (auto simp: base_inv_def run_inv_def)
        ultimately show ?thesis by (cases "status_of s u") (auto simp: FINISHED_def)
      qed
      ultimately obtain u where u: "u \<in> set (upstream g i)" "status_of s u \<noteq> Merged" "\<not> runs_after_failed g i"
        by (auto simp: is_ready_def list_all_iff split: if_splits)
      then have "status_of s u \<in> {Failed, Skipped}" using fin[OF u(1)] by (auto simp: FINISHED_def)
      moreover have "i \<in> set (downstream g u)" using u(1) by (simp add: set_upstream set_downstream)
      ultimately have "blocked g s i" using inv idle by (auto simp: base_inv_def skip_inv_def)
      with u(3) pend show False by simp
    qed
  qed
  then show ?thesis by blast
qed

lemma close_pending_none:
  assumes "\<forall>i\<in>set (node_ids g). status_of s i \<noteq> Pending"
  shows "close_pending g s = s"
proof -
  have "fold (\<lambda>n s. if status_of s (node_id n) = Pending then skip_record (node_id n) ''not_scheduled'' s else s) ns s = s"
    if "set ns \<subseteq> set (unique_nodes g)" for ns
    using that
  proof (induction ns)
    case (Cons n ns)
    then have "node_id n \<in> set (node_ids g)" by (metis image_eqI list.set_intros(1) subsetD unique_nodes_ids)
    with Cons assms show ?case by simp
  qed simp
  then show ?thesis by (simp add: close_pending_def)
qed

lemma after_start_step:
  assumes acyc: "acyclic (edge_rel g)" and inv: "sched_inv g opts s"
    and p: "ph s = Start ns busy" "running s = [] \<Longrightarrow> ns = []"
  shows "sched_inv g opts (after_start g s)"
proof (cases "running s = []")
  case False
  then show ?thesis using inv by (simp add: after_start_def sched_inv_base base_inv_ph phase_inv_def)
next
  case True
  have "\<forall>i\<in>set (node_ids g). status_of s i \<noteq> Pending"
    using inv p True by (intro nothing_pending[OF acyc]) (auto simp: sched_inv_base phase_inv_def)
  with inv True show ?thesis
    by (simp add: after_start_def close_pending_none sched_inv_base base_inv_ph phase_inv_def)
qed

subsection \<open>A finished future\<close>

text \<open>\<open>u\<close> differs from \<open>s\<close> in that some pending nodes are skipped.\<close>

definition skips :: "graph \<Rightarrow> sched \<Rightarrow> sched \<Rightarrow> bool" where
  "skips g s u = (\<forall>j. recs u j = recs s j \<or> status_of s j = Pending \<and> \<not> runs_after_failed g j
     \<and> recs u j = (recs s j)\<lparr>nr_status := Skipped, nr_reason := ''upstream_failed''\<rparr>)"

lemma skipsD:
  assumes "skips g s u"
  shows "status_of s j \<noteq> Pending \<Longrightarrow> recs u j = recs s j"
    and "status_of u j \<noteq> Skipped \<Longrightarrow> recs u j = recs s j"
    and "status_of s j \<noteq> Skipped \<Longrightarrow> status_of u j = Skipped \<Longrightarrow>
      \<not> runs_after_failed g j \<and> nr_reason (recs u j) = ''upstream_failed''"
    and "blocked g s j \<Longrightarrow> blocked g u j"
  using assms[unfolded skips_def, rule_format, of j] by auto

lemma skips_upstream_ok:
  assumes "skips g s u" "upstream_ok g s j"
  shows "upstream_ok g u j"
  unfolding upstream_ok_def
proof
  fix v assume "v \<in> set (upstream g j)"
  with assms(2) have v: "if runs_after_failed g j then status_of s v \<in> set FINISHED else was_merged (recs s v)"
    by (simp add: upstream_ok_def)
  then have "status_of s v \<noteq> Pending" by (auto simp: was_merged_def FINISHED_def split: if_splits)
  with v skipsD(1)[OF assms(1)] show "if runs_after_failed g j then status_of u v \<in> set FINISHED else was_merged (recs u v)"
    by simp
qed

lemma skips_order_inv:
  assumes "skips g s u" "order_inv g s" "announced u = announced s"
  shows "order_inv g u"
  unfolding order_inv_def
proof (intro conjI allI impI ballI)
  fix j assume "status_of u j \<in> {Running, Merged, Failed}"
  then have "recs u j = recs s j" "status_of u j \<in> {Running, Merged, Failed}" using skipsD(2)[OF assms(1), of j] by auto
  then show "j \<in> set (announced u)" using assms(2,3) by (auto simp: order_inv_def)
next
  fix j assume "j \<in> set (announced u)"
  then show "upstream_ok g u j" using assms by (auto simp: order_inv_def intro: skips_upstream_ok)
qed

lemma skips_run_inv:
  assumes sk: "skips g s u" and inv: "run_inv g opts s" and i: "i \<in> set (fut_done s)"
    and fr: "running u = removeAll i (running s)" "fut_done u = removeAll i (fut_done s)"
  shows "run_inv g opts u"
  unfolding run_inv_def fr
proof (intro conjI allI impI ballI)
  note same = skipsD(1,2)[OF sk]
  have sti: "status_of s i \<in> {Merged, Failed}" using inv i by (auto simp: run_inv_def)
  show "j \<in> set (removeAll i (running s))" if "status_of u j = Running" for j
  proof -
    from that have "status_of s j = Running" using same(2)[of j] by simp
    then show ?thesis using inv sti by (auto simp: run_inv_def)
  qed
  show "status_of u j \<in> {Running, Merged, Failed}" if "j \<in> set (removeAll i (running s))" for j
  proof -
    from that have "status_of s j \<in> {Running, Merged, Failed}" using inv by (auto simp: run_inv_def)
    then show ?thesis using same(1)[of j] by auto
  qed
  show "status_of u j \<in> {Merged, Failed}" if "j \<in> set (removeAll i (fut_done s))" for j
  proof -
    from that have "status_of s j \<in> {Merged, Failed}" using inv by (auto simp: run_inv_def)
    then show ?thesis using same(1)[of j] by auto
  qed
  show "nr_merge_commit (recs u j) \<noteq> None" if "status_of u j = Merged" for j
    using that same(2)[of j] inv by (simp add: run_inv_def)
  have "length (removeAll i (running s)) \<le> length (running s)" by (rule length_removeAll_less_eq)
  then show "int (length (removeAll i (running s))) \<le> opt_workers opts"
    using inv unfolding run_inv_def by linarith
qed (use inv in \<open>auto simp: run_inv_def distinct_removeAll\<close>)

lemma skips_skip_inv:
  assumes sk: "skips g s u" and inv: "skip_inv g s"
    and fr: "running u = removeAll i (running s)"
    and below: "\<And>d. status_of s i = Failed \<Longrightarrow> d \<in> set (downstream g i) \<Longrightarrow> blocked g u d"
    and closed: "\<And>v d. status_of s v \<noteq> Skipped \<Longrightarrow> status_of u v = Skipped \<Longrightarrow> d \<in> set (downstream g v) \<Longrightarrow> blocked g u d"
    and sti: "status_of s i \<in> {Merged, Failed}"
  shows "skip_inv g u"
  unfolding skip_inv_def
proof (intro allI impI ballI)
  fix v d assume v: "status_of u v \<in> {Failed, Skipped} \<and> v \<notin> set (running u)" and d: "d \<in> set (downstream g v)"
  show "blocked g u d"
  proof (cases "status_of s v = Skipped \<or> status_of u v \<noteq> Skipped")
    case True
    then have same: "status_of s v \<in> {Failed, Skipped}" using v skipsD(2)[OF sk, of v] by auto
    show ?thesis
    proof (cases "v = i")
      case True
      with same sti below d show ?thesis by auto
    next
      case False
      with v fr have "v \<notin> set (running s)" by auto
      then have "blocked g s d" using inv same d by (auto simp: skip_inv_def)
      then show ?thesis by (rule skipsD(4)[OF sk])
    qed
  next
    case False
    with closed d show ?thesis by blast
  qed
qed

lemma skips_cause_inv:
  assumes sk: "skips g s u" and inv: "cause_inv g s"
    and cause: "\<And>j. status_of s j \<noteq> Skipped \<Longrightarrow> status_of u j = Skipped \<Longrightarrow>
      \<exists>v\<in>set (upstream g j). status_of u v \<in> {Failed, Skipped}"
  shows "cause_inv g u"
  unfolding cause_inv_def
proof (intro allI impI)
  fix j assume j: "status_of u j = Skipped"
  show "nr_reason (recs u j) = ''upstream_failed'' \<and> \<not> runs_after_failed g j
      \<and> (\<exists>v\<in>set (upstream g j). status_of u v \<in> {Failed, Skipped})"
  proof (cases "status_of s j = Skipped")
    case True
    with inv obtain v where v: "nr_reason (recs s j) = ''upstream_failed''" "\<not> runs_after_failed g j"
      "v \<in> set (upstream g j)" "status_of s v \<in> {Failed, Skipped}" by (auto simp: cause_inv_def)
    then have "recs u j = recs s j" "recs u v = recs s v"
      using skipsD(1)[OF sk, of j] skipsD(1)[OF sk, of v] True by auto
    with v show ?thesis by (intro conjI bexI[of _ v]) simp_all
  next
    case False
    from skipsD(3)[OF sk False j] cause[OF False j] show ?thesis by simp
  qed
qed

lemma pop_base_inv:
  assumes inv: "base_inv g opts s" and i: "i \<in> set (fut_done s)"
  shows "base_inv g opts (pop_future g i s)"
proof -
  define t where "t = s\<lparr>running := removeAll i (running s), fut_done := removeAll i (fut_done s)\<rparr>"
  have t: "recs t = recs s" by (simp add: t_def)
  define u where "u = pop_future g i s"
  have u: "u = (if status_of s i = Failed then skip_loop g (rev (downstream g i)) t else t)"
    by (simp add: u_def t_def pop_future_def skip_descendants_def Let_def)
  have fr: "running u = removeAll i (running s)" "fut_done u = removeAll i (fut_done s)" "announced u = announced s"
    by (simp_all add: u t_def)
  have sti: "status_of s i \<in> {Merged, Failed}" using inv i by (auto simp: base_inv_def run_inv_def)
  have sk: "skips g s u"
    unfolding skips_def
  proof
    fix j
    show "recs u j = recs s j \<or> status_of s j = Pending \<and> \<not> runs_after_failed g j
       \<and> recs u j = (recs s j)\<lparr>nr_status := Skipped, nr_reason := ''upstream_failed''\<rparr>"
      using skip_loop_recs[of g "rev (downstream g i)" t j] by (simp add: u t)
  qed
  have below: "blocked g u d" if "status_of s i = Failed" "d \<in> set (downstream g i)" for d
    using skip_loop_stack[of d "rev (downstream g i)" g t] that by (simp add: u)
  have closed: "blocked g u d" if "status_of s v \<noteq> Skipped" "status_of u v = Skipped" "d \<in> set (downstream g v)" for v d
    using skip_loop_closed[of t v g "rev (downstream g i)" d] that by (simp add: u t split: if_splits)
  have cause: "\<exists>v\<in>set (upstream g j). status_of u v \<in> {Failed, Skipped}" if "status_of s j \<noteq> Skipped" "status_of u j = Skipped" for j
  proof -
    have f: "status_of s i = Failed" using that by (auto simp: u t split: if_splits)
    then have "status_of u i = Failed" using skipsD(1)[OF sk, of i] by simp
    moreover have "j \<in> set (downstream g i) \<or> (\<exists>v. j \<in> set (downstream g v) \<and> status_of u v = Skipped)"
      using skip_loop_cause[of t j g "rev (downstream g i)"] that f by (simp add: u t)
    ultimately show ?thesis by (auto simp: set_upstream set_downstream)
  qed
  have "conflict_inv g u" using inv fr by (auto simp: base_inv_def conflict_inv_def)
  moreover have "run_inv g opts u" using inv by (intro skips_run_inv[OF sk _ i fr(1,2)]) (simp add: base_inv_def)
  moreover have "order_inv g u" using inv by (intro skips_order_inv[OF sk _ fr(3)]) (simp add: base_inv_def)
  moreover have "skip_inv g u" using inv by (intro skips_skip_inv[OF sk _ fr(1) below closed sti]) (simp_all add: base_inv_def)
  moreover have "cause_inv g u" using inv by (intro skips_cause_inv[OF sk _ cause]) (simp_all add: base_inv_def)
  ultimately show ?thesis by (simp add: base_inv_def u_def)
qed

lemma pop_step:
  assumes inv: "sched_inv g opts s" and p: "ph s = Popping (i # is)"
  shows "sched_inv g opts ((pop_future g i s)\<lparr>ph := (if is = [] then Announce (unique_nodes g) else Popping is)\<rparr>)"
proof -
  have ds: "distinct (i # is)" "set (i # is) \<subseteq> set (fut_done s)" using inv p by (simp_all add: sched_inv_base phase_inv_def)
  have "fut_done (pop_future g i s) = removeAll i (fut_done s)"
    by (simp add: pop_future_def skip_descendants_def Let_def)
  with ds have "phase_inv g ((pop_future g i s)\<lparr>ph := (if is = [] then Announce (unique_nodes g) else Popping is)\<rparr>)"
    by (auto simp: phase_inv_def)
  with inv ds show ?thesis by (simp add: sched_inv_base base_inv_ph pop_base_inv)
qed

subsection \<open>Every reachable state\<close>

lemma main_step_inv:
  assumes acyc: "acyclic (edge_rel g)" and w: "1 \<le> opt_workers opts"
    and inv: "sched_inv g opts s" and step: "main_step g opts s = Some s'"
  shows "sched_inv g opts s'"
proof (cases "ph s")
  case (Announce ns)
  with step announce_step[OF inv] announce_end_step[OF inv] show ?thesis
    by (cases ns) (auto simp: main_step_def)
next
  case (Start ns busy)
  show ?thesis
  proof (cases ns)
    case Nil
    with step Start after_start_step[OF acyc inv Start] show ?thesis by (auto simp: main_step_def)
  next
    case (Cons n ms)
    note p = Start[unfolded Cons]
    show ?thesis
    proof (cases "int (length (running s)) \<ge> opt_workers opts")
      case True
      with w have "running s \<noteq> []" by auto
      with step Start Cons True after_start_step[OF acyc inv Start] show ?thesis by (auto simp: main_step_def)
    next
      case False
      with step p start_skip_step[OF inv p] start_node_step[OF inv p] show ?thesis
        by (auto simp: main_step_def split: if_splits)
    qed
  qed
next
  case (Popping ds)
  with step pop_step[OF inv] show ?thesis by (cases ds) (auto simp: main_step_def)
qed (use step in \<open>simp_all add: main_step_def\<close>)

lemma worker_outcomeD: "worker_outcome opts r \<Longrightarrow> nr_status r \<in> {Merged, Failed} \<and> (nr_status r = Merged \<longrightarrow> nr_merge_commit r \<noteq> None)"
  by (auto simp: worker_outcome_def node_settled_def)

lemma sched_step_inv:
  assumes acyc: "acyclic (edge_rel g)" and w: "1 \<le> opt_workers opts" and inv: "sched_inv g opts s"
    and step: "sched_step g opts s s'"
  shows "sched_inv g opts s'"
  using step
proof cases
  case main
  then show ?thesis by (rule main_step_inv[OF acyc w inv])
next
  case (wait ds)
  with inv show ?thesis by (simp add: sched_inv_base base_inv_ph phase_inv_def)
next
  case (worker_ends i r)
  then have "i \<notin> set (fut_done s)" using inv by (auto simp: sched_inv_def run_inv_def)
  with worker_ends worker_outcomeD[of opts r] show ?thesis
    by (auto intro!: worker_step_inv[OF inv] simp: was_merged_def)
next
  case (cleanup_fails i e)
  have "nr_merge_commit (recs s i) \<noteq> None" using inv cleanup_fails by (simp add: sched_inv_def run_inv_def)
  with cleanup_fails show ?thesis by (auto intro!: worker_step_inv[OF inv] simp: was_merged_def)
next
  case (future_done i)
  then show ?thesis using future_done_inv[OF inv] by simp
qed

lemma reachable_inv:
  assumes "acyclic (edge_rel g)" "1 \<le> opt_workers opts" "reachable g opts s"
  shows "sched_inv g opts s"
  using assms(3)
proof induction
  case init
  show ?case using assms(2) by (simp add: init_inv)
next
  case (step s s')
  then show ?case using sched_step_inv[OF assms(1,2)] by blast
qed

section \<open>Progress and termination\<close>

lemma failed_outcome: "worker_outcome opts (new_record\<lparr>nr_status := Failed\<rparr>)"
  by (simp add: worker_outcome_def node_settled_def new_record_def)

lemma sched_progress:
  assumes inv: "sched_inv g opts s" and p: "ph s \<noteq> Finished"
  shows "\<exists>s'. sched_step g opts s s'"
proof (cases "main_step g opts s")
  case (Some s')
  then show ?thesis using main by blast
next
  case None
  have "ph s = Waiting"
    using None p inv by (auto simp: main_step_def sched_inv_base phase_inv_def split: phase.splits list.splits if_splits)
  then have "running s \<noteq> []" using inv by (simp add: sched_inv_base phase_inv_def)
  then have "hd (running s) \<in> set (running s)" by simp
  then obtain i where i: "i \<in> set (running s)" by blast
  show ?thesis
  proof (cases "i \<in> set (fut_done s)")
    case True
    then have "fut_done s \<noteq> []" "distinct (fut_done s)" using inv by (auto simp: sched_inv_def run_inv_def)
    with wait[OF \<open>ph s = Waiting\<close>] show ?thesis by blast
  next
    case False
    have "status_of s i \<in> {Running, Merged, Failed}" using inv i by (auto simp: sched_inv_def run_inv_def)
    then show ?thesis
      using worker_ends[OF i _ failed_outcome] future_done[OF i False] by blast
  qed
qed

definition node_weight :: "sched \<Rightarrow> string \<Rightarrow> nat" where
  "node_weight s i =
     (if status_of s i = Pending then 5
      else if i \<notin> set (running s) then 0
      else if i \<in> set (fut_done s) then 1
      else if status_of s i = Failed then 2
      else if status_of s i = Merged then 3
      else 4)"

definition sched_weight :: "graph \<Rightarrow> sched \<Rightarrow> nat" where
  "sched_weight g s = (\<Sum>i\<in>set (node_ids g). node_weight s i)"

definition phase_weight :: "graph \<Rightarrow> sched \<Rightarrow> nat" where
  "phase_weight g s = (case ph s of
     Announce ns \<Rightarrow> 4 + length (unique_nodes g) + length ns
   | Start ns busy \<Rightarrow> 3 + length ns
   | Waiting \<Rightarrow> 2
   | Popping ds \<Rightarrow> 1
   | Finished \<Rightarrow> 0)"

text \<open>The nodes never gain weight, and a step that changes no node advances the program counter.\<close>

lemma sched_weight_less:
  "\<forall>j. node_weight t j \<le> node_weight s j \<Longrightarrow> i \<in> set (node_ids g) \<Longrightarrow> node_weight t i < node_weight s i \<Longrightarrow>
   sched_weight g t < sched_weight g s"
  unfolding sched_weight_def by (rule sum_strict_mono_ex1) auto

lemma sched_weight_le: "\<forall>j. node_weight t j \<le> node_weight s j \<Longrightarrow> sched_weight g t \<le> sched_weight g s"
  unfolding sched_weight_def by (rule sum_mono) simp

lemma sched_weight_cong:
  "recs s = recs t \<Longrightarrow> running s = running t \<Longrightarrow> fut_done s = fut_done t \<Longrightarrow> sched_weight g s = sched_weight g t"
  unfolding sched_weight_def by (rule sum.cong) (simp_all add: node_weight_def cong: if_cong)

lemma weight_ph [simp]: "sched_weight g (s\<lparr>ph := p\<rparr>) = sched_weight g s"
  by (rule sched_weight_cong) simp_all

lemma skips_weight:
  assumes "skips g s u" "set (running u) \<subseteq> set (running s)" "set (fut_done u) = set (fut_done s) \<inter> set (running u)"
  shows "node_weight u j \<le> node_weight s j"
  using assms(1)[unfolded skips_def, rule_format, of j] assms(2,3) by (auto simp: node_weight_def)

lemma pop_weight:
  assumes inv: "sched_inv g opts s" and i: "i \<in> set (fut_done s)"
  shows "sched_weight g ((pop_future g i s)\<lparr>ph := p\<rparr>) < sched_weight g s"
proof -
  define t where "t = s\<lparr>running := removeAll i (running s), fut_done := removeAll i (fut_done s)\<rparr>"
  define u where "u = pop_future g i s"
  have u: "u = (if status_of s i = Failed then skip_loop g (rev (downstream g i)) t else t)"
    by (simp add: u_def t_def pop_future_def skip_descendants_def Let_def)
  have fr: "running u = removeAll i (running s)" "fut_done u = removeAll i (fut_done s)" by (simp_all add: u t_def)
  have sk: "skips g s u"
    unfolding skips_def using skip_loop_recs[of g "rev (downstream g i)" t] by (auto simp: u t_def)
  have sub: "set (fut_done s) \<subseteq> set (running s)" and ids: "set (running s) \<subseteq> set (node_ids g)"
    and sti: "status_of s i \<in> {Merged, Failed}"
    using inv i by (auto simp: sched_inv_def run_inv_def)
  have le: "node_weight u j \<le> node_weight s j" for j
    using skips_weight[OF sk, of j] sub by (auto simp: fr)
  have "status_of u i = status_of s i" using skipsD(1)[OF sk, of i] sti by auto
  then have "node_weight u i < node_weight s i" using i sub sti by (auto simp: node_weight_def fr)
  with le have "sched_weight g u < sched_weight g s" using i sub ids by (intro sched_weight_less[of u s i]) auto
  then show ?thesis by (simp add: u_def)
qed

lemma start_weight:
  assumes "n \<in> set (unique_nodes g)" "status_of s (node_id n) = Pending"
  shows "sched_weight g ((start_node n s)\<lparr>ph := p\<rparr>) < sched_weight g s"
proof (rule sched_weight_less[of _ s "node_id n"])
  show "\<forall>j. node_weight (start_node n s\<lparr>ph := p\<rparr>) j \<le> node_weight s j"
    using assms by (auto simp: node_weight_def start_node_def)
  show "node_id n \<in> set (node_ids g)" using assms(1) by (metis image_eqI unique_nodes_ids)
  show "node_weight (start_node n s\<lparr>ph := p\<rparr>) (node_id n) < node_weight s (node_id n)"
    using assms by (auto simp: node_weight_def start_node_def)
qed

lemma announce_weight: "sched_weight g (announce_node g n s) = sched_weight g s"
  by (rule sched_weight_cong) (simp_all add: announce_node_def)

lemma close_pending_weight: "sched_weight g (close_pending g s) \<le> sched_weight g s"
proof -
  have "sched_weight g (fold (\<lambda>n s. if status_of s (node_id n) = Pending
     then skip_record (node_id n) ''not_scheduled'' s else s) ns s) \<le> sched_weight g s" for ns
  proof (induction ns arbitrary: s)
    case (Cons n ns)
    have "sched_weight g (skip_record (node_id n) ''not_scheduled'' s) \<le> sched_weight g s" if "status_of s (node_id n) = Pending"
      by (rule sched_weight_le) (auto simp: node_weight_def status_skip_record that)
    with Cons show ?case by (auto intro: order_trans)
  qed simp
  then show ?thesis by (simp add: close_pending_def)
qed

definition sched_order :: "graph \<Rightarrow> (sched \<times> sched) set" where
  "sched_order g = measures [sched_weight g, phase_weight g]"

lemma main_step_decreases:
  assumes inv: "sched_inv g opts s" and step: "main_step g opts s = Some s'"
  shows "(s', s) \<in> sched_order g"
proof (cases "ph s")
  case (Announce ns)
  with step show ?thesis
    by (cases ns) (auto simp: main_step_def sched_order_def announce_weight phase_weight_def)
next
  case (Start ns busy)
  have after: "(after_start g s, s) \<in> sched_order g"
    using Start close_pending_weight[of g s] by (auto simp: sched_order_def after_start_def phase_weight_def)
  show ?thesis
  proof (cases ns)
    case Nil
    with step Start after show ?thesis by (auto simp: main_step_def)
  next
    case (Cons n ms)
    have "n \<in> set (unique_nodes g)" using inv Start Cons by (auto simp: sched_inv_base phase_inv_def)
    then have "((start_node n s)\<lparr>ph := p\<rparr>, s) \<in> sched_order g" if "status_of s (node_id n) = Pending" for p
      using start_weight that by (simp add: sched_order_def)
    moreover have "(s\<lparr>ph := Start ms busy\<rparr>, s) \<in> sched_order g"
      using Start Cons by (simp add: sched_order_def phase_weight_def)
    ultimately show ?thesis using step Start Cons after by (auto simp: main_step_def split: if_splits)
  qed
next
  case (Popping ds)
  show ?thesis
  proof (cases ds)
    case Nil
    with step Popping show ?thesis by (simp add: main_step_def)
  next
    case (Cons i "is")
    then have "i \<in> set (fut_done s)" using inv Popping by (simp add: sched_inv_base phase_inv_def)
    from pop_weight[OF inv this] step Popping Cons show ?thesis by (auto simp: main_step_def sched_order_def)
  qed
qed (use step in \<open>simp_all add: main_step_def\<close>)

lemma sched_step_decreases:
  assumes inv: "sched_inv g opts s" and step: "sched_step g opts s s'"
  shows "(s', s) \<in> sched_order g"
  using step
proof cases
  case main
  then show ?thesis by (rule main_step_decreases[OF inv])
next
  case (wait ds)
  then show ?thesis by (simp add: sched_order_def phase_weight_def)
next
  case (worker_ends i r)
  have i: "i \<in> set (node_ids g)" "i \<notin> set (fut_done s)" using inv worker_ends by (auto simp: sched_inv_def run_inv_def)
  have "sched_weight g s' < sched_weight g s"
    using worker_ends worker_outcomeD[of opts r] i by (intro sched_weight_less[of _ s i]) (auto simp: node_weight_def)
  then show ?thesis by (simp add: sched_order_def)
next
  case (cleanup_fails i e)
  have "i \<in> set (node_ids g)" using inv cleanup_fails by (auto simp: sched_inv_def run_inv_def)
  then have "sched_weight g s' < sched_weight g s"
    using cleanup_fails by (intro sched_weight_less[of _ s i]) (auto simp: node_weight_def)
  then show ?thesis by (simp add: sched_order_def)
next
  case (future_done i)
  have "i \<in> set (node_ids g)" using inv future_done by (auto simp: sched_inv_def run_inv_def)
  then have "sched_weight g s' < sched_weight g s"
    using future_done by (intro sched_weight_less[of _ s i]) (auto simp: node_weight_def)
  then show ?thesis by (simp add: sched_order_def)
qed

section \<open>Properties of execute\<close>

text \<open>C17: In every reachable state of the scheduler, whatever the interleaving: at most \<open>workers\<close> nodes run, each
  once; two nodes that run at the same time edit no common file that they do not both share; and a
  node that has started has all its upstream nodes merged, or, if it runs after failed upstream nodes, finished.\<close>

theorem execute_safe:
  assumes "acyclic (edge_rel g)" "1 \<le> opt_workers opts" "reachable g opts s"
  shows "int (length (running s)) \<le> opt_workers opts \<and> distinct (running s)
    \<and> (\<forall>a\<in>set (unique_nodes g). \<forall>b\<in>set (unique_nodes g).
         {node_id a, node_id b} \<subseteq> set (running s) \<longrightarrow> a \<noteq> b \<longrightarrow> conflicting_files a b = {})
    \<and> (\<forall>i. status_of s i \<in> {Running, Merged, Failed} \<longrightarrow> upstream_ok g s i)"
  using reachable_inv[OF assms] by (auto simp: sched_inv_def run_inv_def conflict_inv_def order_inv_def)

text \<open>C18: The scheduler never gets stuck and always ends: from every reachable state that is not final some step of
  the main thread or of a worker thread is possible, and there is no infinite run.\<close>

theorem execute_terminates:
  assumes "acyclic (edge_rel g)" "1 \<le> opt_workers opts"
  shows "(\<forall>s. reachable g opts s \<longrightarrow> ph s \<noteq> Finished \<longrightarrow> (\<exists>s'. sched_step g opts s s'))
    \<and> \<not> (\<exists>run. run 0 = init_sched g \<and> (\<forall>k. sched_step g opts (run k) (run (Suc k))))"
proof
  show "\<forall>s. reachable g opts s \<longrightarrow> ph s \<noteq> Finished \<longrightarrow> (\<exists>s'. sched_step g opts s s')"
    using reachable_inv[OF assms] sched_progress by blast
  show "\<not> (\<exists>run. run 0 = init_sched g \<and> (\<forall>k. sched_step g opts (run k) (run (Suc k))))"
  proof
    assume "\<exists>run. run 0 = init_sched g \<and> (\<forall>k. sched_step g opts (run k) (run (Suc k)))"
    then obtain run where run: "run 0 = init_sched g" "\<forall>k. sched_step g opts (run k) (run (Suc k))" by blast
    have "reachable g opts (run k)" for k
      by (induction k) (use run reachable.init reachable.step in \<open>auto simp: run(1)\<close>)
    then have "(run (Suc k), run k) \<in> sched_order g" for k
      using sched_step_decreases[OF reachable_inv[OF assms]] run(2) by blast
    then have "\<not> wf (sched_order g)" unfolding wf_iff_no_infinite_down_chain by blast
    then show False by (simp add: sched_order_def)
  qed
qed

text \<open>C19: When the scheduler has ended on an acyclic graph, every node is merged, failed or skipped and none was left
  unscheduled; a node is skipped exactly because an upstream node failed or was skipped, never if it runs after
  failed upstream nodes; and a node with an upstream node that was not merged is skipped unless it runs anyway.\<close>

theorem execute_complete:
  assumes "acyclic (edge_rel g)" "1 \<le> opt_workers opts" "reachable g opts s" "ph s = Finished" "i \<in> set (node_ids g)"
  shows "status_of s i \<in> set FINISHED
    \<and> (status_of s i = Skipped \<longrightarrow> nr_reason (recs s i) = ''upstream_failed'' \<and> \<not> runs_after_failed g i
         \<and> (\<exists>u\<in>set (upstream g i). status_of s u \<in> {Failed, Skipped}))
    \<and> ((\<exists>u\<in>set (upstream g i). \<not> was_merged (recs s u)) \<longrightarrow> status_of s i = Skipped \<or> runs_after_failed g i)"
proof -
  have inv: "sched_inv g opts s" by (rule reachable_inv[OF assms(1-3)])
  then have "status_of s i \<noteq> Pending" "status_of s i \<noteq> Running"
    using assms(4,5) by (auto simp: sched_inv_def phase_inv_def run_inv_def)
  then have fin: "status_of s i \<in> set FINISHED" by (cases "status_of s i") (auto simp: FINISHED_def)
  moreover have "status_of s i = Skipped \<or> runs_after_failed g i \<or> (\<forall>u\<in>set (upstream g i). was_merged (recs s u))"
  proof (cases "status_of s i = Skipped")
    case False
    then have "upstream_ok g s i" using inv fin by (auto simp: sched_inv_def order_inv_def FINISHED_def)
    then show ?thesis by (cases "runs_after_failed g i") (simp_all add: upstream_ok_def)
  qed simp
  moreover have "cause_inv g s" using inv by (simp add: sched_inv_def)
  ultimately show ?thesis unfolding cause_inv_def by blast
qed

text \<open>C20: Every behaviour of a worker thread is a step of the scheduler: what \<open>_run_node_safely\<close> leaves in the record of a
  node just started is one of the outcomes the scheduler allows for, so the theorems on \<open>execute\<close> cover it.\<close>

theorem run_node_is_step:
  assumes "worker_reasons_ok hs" "rc t = recs s i" "recs s i = new_record\<lparr>nr_status := Running\<rparr>" "i \<in> set (running s)"
  shows "sched_step g opts s (s\<lparr>recs := (recs s)(i := rc (snd (run_node_safely hs opts g n failed t)))\<rparr>)"
proof (rule worker_ends[OF assms(4)])
  show "status_of s i = Running" by (simp add: assms(3))
  have "wp (run_node_safely hs opts g n failed) (\<lambda>_ u. node_settled opts (rc u) \<and> merged_checked u)
      (\<lambda>_ u. node_settled opts (rc u) \<and> merged_checked u) t"
    by (rule wp_mono[OF wp_conj[OF run_node_settles run_node_merged]])
      (use assms in simp_all)
  then have "node_settled opts (rc (snd (run_node_safely hs opts g n failed t)))" "merged_checked (snd (run_node_safely hs opts g n failed t))"
    by (simp_all add: wp_state)
  then show "worker_outcome opts (rc (snd (run_node_safely hs opts g n failed t)))"
    by (simp add: worker_outcome_def merged_checked_def)
qed

end
