(* ===== verification/Run_Fixtures.thy ===== *)
theory Run_Fixtures
  imports Fixtures Integration Sched_Safety
begin

text \<open>
  A small concrete world for the theorems about runs: a git program over a list of numbered commits, a worker
  that succeeds, checks that pass, and a deterministic interleaving of the scheduler.
\<close>

section \<open>A world\<close>

text \<open>The world is the integration branch: its commits as numbers, newest first.\<close>

definition toy_hist :: "nat list \<Rightarrow> string list" where
  "toy_hist w = map nat_str w"

definition ok_proc :: "string \<Rightarrow> git_proc" where
  "ok_proc out = \<lparr>returncode = 0, stdout = out, stderr = []\<rparr>"

definition toy_git :: "nat list git_program" where
  "toy_git cwd args w =
     (if args = [] then (Inr (ok_proc []), w)
      else if hd args = ''-c'' then (Inr (ok_proc (''a.py'' @ [CHR 0x00])), w)
      else if take 2 args = [''diff'', ''--cached''] then (Inr ((ok_proc [])\<lparr>returncode := 1\<rparr>), w)
      else if cwd \<noteq> REPO then (Inr (ok_proc []), w)
      else if hd args = ''commit'' then (Inr (ok_proc []), length w # w)
      else if args = [''reset'', ''-q'', ''--hard'', ''HEAD~1''] then (Inr (ok_proc []), tl w)
      else if hd args = ''rev-parse'' \<and> w \<noteq> [] then (Inr (ok_proc (nat_str (hd w))), w)
      else (Inr (ok_proc []), w))"

definition toy_process :: "bool \<Rightarrow> process_result" where
  "toy_process ok = \<lparr>pr_command = ''pytest'', pr_exit_code = Some (if ok then 0 else 1), pr_output = [],
     pr_timed_out = False, pr_duration = ''0.10''\<rparr>"

definition toy_worker_result :: worker_result where
  "toy_worker_result = \<lparr>wk_ok = True, wk_reason = [], wk_model_calls = 1, wk_input_tokens = 10,
     wk_output_tokens = 5, wk_final_answer = ''done'', wk_error = []\<rparr>"

definition toy_host :: "nat list host" where
  "toy_host = \<lparr>run_git = toy_git, run_command = (\<lambda>_ _ _. ret (toy_process True)),
     worker_run = (\<lambda>_. ret toy_worker_result),
     build_pack = (\<lambda>_ _. ret \<lparr>pack_text = ''pack'', pack_own_files = [], pack_full_files = []\<rparr>),
     node_prompt = (\<lambda>n _ _ _. goal n), make_log_dir = ret (), write_log = (\<lambda>_. ret ()),
     remove_reserved = (\<lambda>_. ret []), restore_line_endings = (\<lambda>_ _. ret []),
     has_conflict_marker = (\<lambda>_ _ _. False), rmtree = (\<lambda>_ w. w), others = id\<rparr>"

definition toy_run :: "nat list run_state" where
  "toy_run = \<lparr>world = [7], integration_head = nat_str 7, base_of = [], rc = new_record\<lparr>nr_status := Running\<rparr>, ev = []\<rparr>"

definition toy_opts :: run_options where
  "toy_opts = \<lparr>opt_workers = 2, opt_max_attempts = 2, opt_merge_repairs = 1, opt_conflict_repairs = 1\<rparr>"

lemma nat_str_digits: "\<forall>c\<in>set (nat_str n). \<not> char_isspace c"
proof (induction n rule: nat_str.induct)
  case (1 n)
  have d: "\<not> char_isspace (digit_char m)" if "m < 10" for m
    using that by (simp add: digit_char_def char_isspace_def Let_def)
  show ?case
  proof (cases "n < 10")
    case True
    then show ?thesis by (subst nat_str.simps) (simp add: d)
  next
    case False
    with 1 show ?thesis by (subst nat_str.simps) (auto simp: d)
  qed
qed

lemma py_strip_nat_str: "py_strip (nat_str n) = nat_str n"
proof -
  have d: "dropWhile char_isspace xs = xs" if "\<forall>c\<in>set xs. \<not> char_isspace c" for xs
    using that by (cases xs) auto
  have "\<forall>c\<in>set (rev (nat_str n)). \<not> char_isspace c" using nat_str_digits[of n] by simp
  from d[OF this] d[OF nat_str_digits[of n]] show ?thesis by (simp add: py_strip_def py_lstrip_def py_rstrip_def)
qed

lemma toy_git_laws: "git_laws toy_git toy_hist REPO"
  unfolding git_laws_def Let_def
  by (auto simp: toy_git_def toy_hist_def ok_proc_def quiet_command_def py_strip_nat_str map_tl hd_map split: list.splits)

lemma toy_host_laws: "host_laws toy_host toy_hist"
  by (auto simp: host_laws_def quiet_host_def rely_others_def toy_host_def toy_git_laws intro: keeps_ret)

lemma toy_worker_reasons: "worker_reasons_ok toy_host"
  by (simp add: worker_reasons_ok_def toy_host_def wp_simps toy_worker_result_def worker_reasons_def)

lemma toy_branch: "branch_ok toy_hist toy_run"
  by (simp add: branch_ok_def at_head_def toy_hist_def toy_run_def)

section \<open>A run in that world\<close>

lemma wp_git_toy: "wp (git toy_git chk cwd args) Q E w = (case toy_git cwd args w of
    (Inr p, w') \<Rightarrow> if chk \<and> returncode p \<noteq> 0 then E (GitError (git_error_text cwd args p)) w' else Q p w'
  | (Inl e, w') \<Rightarrow> E (GitError (''cannot run git: '' @ e)) w')"
  by (auto simp: wp_def git_def split: prod.splits sum.splits)

lemma toy_names: "nul_names (''a.py'' @ [CHR 0x00]) = [''a.py'']" by code_simp

lemmas run_eval = run_node_safely_def run_node_def wp_simps wp_on_world toy_host_def add_node_worktree_def wp_git_toy toy_git_def
   ok_proc_def acquire_def attempt_until_checked_def toy_opts_def toy_run_def run_worker_def log_file_def REPO_def worktree_of_def
   commit_all_def changed_files_def toy_worker_result_def reason_of_def toy_names[simplified]
    run_node_check_def run_checks_with_retry_def run_checks_def toy_A_def mk_node_def count_usage_def
   toy_process_def process_ok_def report_of_def note_timeout_retry_def merge_def 
   merge_once_def squash_resolving_def squash_def squash_merge_def head_commit_def post_merge_check_def post_merge_commands_of_def finish_merged_def
   py_strip_nat_str  py_strip_def py_lstrip_def py_rstrip_def char_isspace_def collect_changes_def diff_patch_def remove_worktree_def new_record_def

text \<open>In this world the node is merged: one commit on top of the branch.\<close>

lemma toy_run_merged:
  "wp (run_node_safely toy_host toy_opts toy_graph toy_A [])
     (\<lambda>_ t. nr_status (rc t) = Merged \<and> world t = [1, 7]) (\<lambda>_ _. False) toy_run"
  apply (simp add: run_eval upt_rec del: upt_Suc)
  apply (subst merge_loop.simps)
  apply (simp add: run_eval)
  done

section \<open>An interleaving\<close>

text \<open>The main thread runs until it waits; then the oldest running node ends with the record \<open>out\<close> gives
  it, its future is done, and the main thread wakes.\<close>

definition run_once :: "graph \<Rightarrow> run_options \<Rightarrow> (string \<Rightarrow> node_record) \<Rightarrow> sched \<Rightarrow> sched" where
  "run_once g opts out s =
     (case main_step g opts s of
        Some s' \<Rightarrow> s'
      | None \<Rightarrow>
          if ph s \<noteq> Waiting then s
          else if fut_done s \<noteq> [] \<and> distinct (fut_done s) then s\<lparr>ph := Popping (fut_done s)\<rparr>
          else (case running s of
                  [] \<Rightarrow> s
                | i # _ \<Rightarrow>
                    if status_of s i = Running then s\<lparr>recs := (recs s)(i := out i)\<rparr>
                    else if status_of s i \<in> {Merged, Failed} \<and> i \<notin> set (fut_done s)
                    then s\<lparr>fut_done := fut_done s @ [i]\<rparr> else s))"

lemma run_once_reachable:
  assumes "\<And>i. worker_outcome opts (out i)" "reachable g opts s"
  shows "reachable g opts (run_once g opts out s)"
proof (cases "main_step g opts s")
  case (Some s')
  then show ?thesis using assms(2) by (auto simp: run_once_def intro: reachable.step sched_step.main)
next
  case None
  show ?thesis
  proof (cases "ph s = Waiting \<and> \<not> (fut_done s \<noteq> [] \<and> distinct (fut_done s)) \<and> running s \<noteq> []")
    case False
    then show ?thesis using assms(2) None
      by (auto simp: run_once_def split: list.splits intro: reachable.step sched_step.wait)
  next
    case True
    then obtain i js where r: "running s = i # js" by (cases "running s") auto
    then have i: "i \<in> set (running s)" by simp
    show ?thesis
      using True r None assms(2) reachable.step[OF assms(2) sched_step.worker_ends[OF i _ assms(1)]]
        reachable.step[OF assms(2) sched_step.future_done[OF i]]
      by (auto simp: run_once_def)
  qed
qed

lemma run_reachable:
  "(\<And>i. worker_outcome opts (out i)) \<Longrightarrow> reachable g opts ((run_once g opts out ^^ k) (init_sched g))"
  by (induction k) (auto intro: reachable.init run_once_reachable)

definition edge_AB :: edge where
  "edge_AB = \<lparr>e_from = ''A'', e_to = ''B'', edge_type = Full, edge_source = From_manual, edge_reason = []\<rparr>"

definition pair_graph :: graph where
  "pair_graph = mk_graph [toy_A, toy_B] [edge_AB]"

definition fail_A :: "string \<Rightarrow> node_record" where
  "fail_A i = (if i = ''A'' then new_record\<lparr>nr_status := Failed, nr_reason := ''check_failed''\<rparr>
     else new_record\<lparr>nr_status := Merged, nr_merge_commit := Some ''c1''\<rparr>)"

lemma fail_A_outcome: "worker_outcome opts (fail_A i)"
  by (simp add: fail_A_def worker_outcome_def node_settled_def new_record_def)

lemma pair_edge_rel: "edge_rel pair_graph = {(''A'', ''B'')}"
  by (auto simp: edge_rel_def usable_edges_def pair_graph_def edge_AB_def toy_defs node_ids_def)

lemma pair_acyclic: "acyclic (edge_rel pair_graph)"
  by (auto simp: pair_edge_rel acyclic_def trancl_insert)

definition pair_end :: sched where
  "pair_end = (run_once pair_graph toy_opts fail_A ^^ 18) (init_sched pair_graph)"

lemma pair_end_reachable: "reachable pair_graph toy_opts pair_end"
  unfolding pair_end_def by (rule run_reachable) (rule fail_A_outcome)

lemma pair_facts:
  "unique_nodes pair_graph = [toy_A, toy_B]" "node_id toy_A = ''A''" "node_id toy_B = ''B''"
  "upstream pair_graph ''A'' = []" "upstream pair_graph ''B'' = [''A'']"
  "downstream pair_graph ''A'' = [''B'']" "downstream pair_graph ''B'' = []"
  "runs_after_failed pair_graph ''A'' = False" "runs_after_failed pair_graph ''B'' = False"
  "map_of (by_id pair_graph) ''A'' = Some toy_A" "node_ids pair_graph = [''A'', ''B'']"
  by (code_simp+)

lemmas sched_eval = run_once_def main_step_def announce_node_def is_ready_def start_node_def pop_future_def
  skip_descendants_def skip_record_def after_start_def close_pending_def running_nodes_def init_sched_def toy_opts_def
  fail_A_def new_record_def

lemma pair_end_values: "ph pair_end = Finished \<and> status_of pair_end ''A'' = Failed \<and> status_of pair_end ''B'' = Skipped"
  unfolding pair_end_def by (simp add: eval_nat_numeral pair_facts sched_eval)

end
