(* ===== verification/Context_Pack.thy ===== *)
theory Context_Pack
  imports Schema
begin

text \<open>
  The context given to a worker, \<open>taskgraph/context_pack.py\<close>: the node's own files in full, then interfaces, documents and fixtures in
  order until a byte limit.

  The file system is a parameter \<open>look\<close>. \<open>interface_summary\<close> (an outline through \<open>ast\<close>) and \<open>markdown_section\<close> are parameters too.
  Sizes are those of the UTF-8 encoding.

  Shown: the pack stays within the limit unless the node's own files alone exceed it; what follows them is a run of
  whole blocks and at most one cut block, and every block that is not whole is reported as truncated.
\<close>

section \<open>UTF-8\<close>

definition utf8_size :: "char \<Rightarrow> nat" where
  "utf8_size c = (if cp c < 128 then 1 else 2)"

definition utf8_len :: "string \<Rightarrow> nat" where
  "utf8_len s = sum_list (map utf8_size s)"

text \<open>\<open>s.encode("utf-8")[:n].decode("utf-8", errors="ignore")\<close>.\<close>

fun utf8_prefix :: "nat \<Rightarrow> string \<Rightarrow> string" where
  "utf8_prefix n [] = []"
| "utf8_prefix n (c # cs) = (if utf8_size c \<le> n then c # utf8_prefix (n - utf8_size c) cs else [])"

lemma utf8_len_simps [simp]: "utf8_len [] = 0" "utf8_len (c # s) = utf8_size c + utf8_len s" "utf8_len (s @ t) = utf8_len s + utf8_len t"
  by (simp_all add: utf8_len_def)

lemma utf8_prefix_len: "utf8_len (utf8_prefix n s) \<le> n"
  by (induction n s rule: utf8_prefix.induct) auto

section \<open>The pack\<close>

record context_pack =
  pk_text :: string
  pk_limit_bytes :: nat
  pk_full_files :: "string list"
  pk_own_files :: "string list"
  pk_parse_fallbacks :: "string list"
  pk_truncated :: "string list"
  pk_missing :: "string list"

definition MAX_PACK_BYTES :: nat where
  "MAX_PACK_BYTES = 80 * 1024"

definition empty_pack :: "nat \<Rightarrow> string list \<Rightarrow> context_pack" where
  "empty_pack limit own = \<lparr>pk_text = [], pk_limit_bytes = limit, pk_full_files = [], pk_own_files = own, pk_parse_fallbacks = [],
     pk_truncated = [], pk_missing = []\<rparr>"

text \<open>A path of the workspace: outside of it, not a file, or a file with its text.\<close>

datatype file_at = Outside | No_file | Source string

fun longest_ticks :: "nat \<Rightarrow> nat \<Rightarrow> string \<Rightarrow> nat" where
  "longest_ticks run best [] = max run best"
| "longest_ticks run best (c # cs) =
     (if c = CHR 0x60 then longest_ticks (run + 1) best cs else longest_ticks 0 (max run best) cs)"

definition fence_for :: "string \<Rightarrow> string" where
  "fence_for s = replicate (max 3 (1 + longest_ticks 0 0 s)) (CHR 0x60)"

definition nl :: string where
  "nl = [CHR 0x0A]"

definition block_header :: "string \<Rightarrow> string \<Rightarrow> string \<Rightarrow> string" where
  "block_header label source what = ''## '' @ label @ '' ('' @ what @ '')'' @ nl @ nl @ fence_for source @ nl"

definition block_footer :: "string \<Rightarrow> string" where
  "block_footer source = nl @ fence_for source @ nl @ nl"

definition whole_block :: "string \<Rightarrow> string \<Rightarrow> string \<Rightarrow> string" where
  "whole_block label source what = block_header label source what @ source @ block_footer source"

definition CUT_NOTICE :: string where
  "CUT_NOTICE = nl @ ''[truncated by context pack byte limit]''"

definition cut_block :: "nat \<Rightarrow> string \<Rightarrow> string \<Rightarrow> string \<Rightarrow> string" where
  "cut_block budget label source what =
     (let frame = utf8_len (block_header label source what @ CUT_NOTICE @ block_footer source) in
      if frame \<le> budget
      then block_header label source what @ utf8_prefix (budget - frame) source @ CUT_NOTICE @ block_footer source else [])"

definition add_block :: "nat \<Rightarrow> string \<Rightarrow> string \<Rightarrow> string \<Rightarrow> string option \<Rightarrow> bool \<Rightarrow> context_pack \<Rightarrow> bool \<times> context_pack" where
  "add_block max_bytes label source what full_path own p =
     (let used = utf8_len (pk_text p) in
      if \<not> own \<and> used + utf8_len (whole_block label source what) > max_bytes
      then (False, p\<lparr>pk_truncated := pk_truncated p @ [label], pk_text := pk_text p @
             (if used \<le> max_bytes then cut_block (max_bytes - used) label source what else [])\<rparr>)
      else (True, p\<lparr>pk_text := pk_text p @ whole_block label source what,
             pk_full_files := pk_full_files p @ (case full_path of None \<Rightarrow> [] | Some f \<Rightarrow> if f \<noteq> [] then [f] else [])\<rparr>))"

text \<open>\<open>read\<close>: the text of a file, or \<open>None\<close>; a missing one is noted unless it is optional. \<open>Inl\<close> is the \<open>ValueError\<close>.\<close>

definition read_file :: "(string \<Rightarrow> file_at) \<Rightarrow> string \<Rightarrow> bool \<Rightarrow> context_pack \<Rightarrow> string + (string option \<times> context_pack)" where
  "read_file look f optional p = (case look f of
     Outside \<Rightarrow> Inl (''context file escapes workspace: '' @ f)
   | No_file \<Rightarrow> Inr (None, if optional then p else p\<lparr>pk_missing := pk_missing p @ [f]\<rparr>)
   | Source s \<Rightarrow> Inr (Some s, p))"

fun add_own :: "(string \<Rightarrow> file_at) \<Rightarrow> nat \<Rightarrow> string list \<Rightarrow> string list \<Rightarrow> context_pack \<Rightarrow> string + context_pack" where
  "add_own look max_bytes created [] p = Inr p"
| "add_own look max_bytes created (f # fs) p = (case read_file look f (f \<in> set created) p of
     Inl e \<Rightarrow> Inl e
   | Inr (None, p1) \<Rightarrow> add_own look max_bytes created fs p1
   | Inr (Some s, p1) \<Rightarrow> add_own look max_bytes created fs (snd (add_block max_bytes f s ''own file, full'' (Some f) True p1)))"

text \<open>What is still to be added: label, text, what it is, and the path if it is a whole file.\<close>

type_synonym pending = "string \<times> string \<times> string \<times> string option"

definition FIXTURE :: string where
  "FIXTURE = ''tests/conftest.py''"

fun collect_python :: "(string \<Rightarrow> file_at) \<Rightarrow> (string \<Rightarrow> string \<times> bool) \<Rightarrow> string list \<Rightarrow> string list \<Rightarrow> context_pack \<Rightarrow>
    string + (pending list \<times> string list \<times> context_pack)" where
  "collect_python look summary [] seen p = Inr ([], seen, p)"
| "collect_python look summary (f # fs) seen p =
     (if f \<in> set seen \<or> f = FIXTURE then collect_python look summary fs seen p
      else case read_file look f False p of
        Inl e \<Rightarrow> Inl e
      | Inr (None, p1) \<Rightarrow> collect_python look summary fs (seen @ [f]) p1
      | Inr (Some s, p1) \<Rightarrow>
          (case summary s of (txt', fallback) \<Rightarrow>
             let p2 = (if fallback then p1\<lparr>pk_parse_fallbacks := pk_parse_fallbacks p1 @ [f]\<rparr> else p1) in
             case collect_python look summary fs (seen @ [f]) p2 of
               Inl e \<Rightarrow> Inl e
             | Inr (rest, seen', p3) \<Rightarrow>
                 Inr ((f, txt', if fallback then ''parse fallback, full'' else ''interface'', if fallback then Some f else None) # rest, seen', p3)))"

fun collect_refs :: "(string \<Rightarrow> file_at) \<Rightarrow> (string \<Rightarrow> string \<Rightarrow> string option) \<Rightarrow> (string \<times> string option) list \<Rightarrow> string list \<Rightarrow>
    context_pack \<Rightarrow> string + (pending list \<times> context_pack)" where
  "collect_refs look part [] seen p = Inr ([], p)"
| "collect_refs look part ((f, heading) # refs) seen p =
     (if f \<in> set seen \<or> py_endswith f ''.py'' then collect_refs look part refs seen p
      else let seen' = (if heading = None then seen @ [f] else seen) in
           case read_file look f False p of
             Inl e \<Rightarrow> Inl e
           | Inr (None, p1) \<Rightarrow> collect_refs look part refs seen' p1
           | Inr (Some s, p1) \<Rightarrow>
               (case (case heading of None \<Rightarrow> Some (f, s, ''full'', Some f)
                      | Some t \<Rightarrow> map_option (\<lambda>sec. (f @ ''#'' @ t, sec, ''section'', None)) (part s t)) of
                  None \<Rightarrow> Inl ''Markdown heading does not exist''
                | Some item \<Rightarrow> (case collect_refs look part refs seen' p1 of
                    Inl e \<Rightarrow> Inl e | Inr (rest, p2) \<Rightarrow> Inr (item # rest, p2))))"

fun fill :: "nat \<Rightarrow> pending list \<Rightarrow> bool \<Rightarrow> context_pack \<Rightarrow> context_pack" where
  "fill max_bytes [] exhausted p = p"
| "fill max_bytes ((label, source, what, full_path) # rest) exhausted p =
     (if exhausted then fill max_bytes rest True (p\<lparr>pk_truncated := pk_truncated p @ [label]\<rparr>)
      else case add_block max_bytes label source what full_path False p of (added, p1) \<Rightarrow> fill max_bytes rest (\<not> added) p1)"

fun traverse :: "('a \<Rightarrow> 'e + 'b) \<Rightarrow> 'a list \<Rightarrow> 'e + 'b list" where
  "traverse f [] = Inr []"
| "traverse f (x # xs) = (case f x of Inl e \<Rightarrow> Inl e | Inr y \<Rightarrow> (case traverse f xs of Inl e \<Rightarrow> Inl e | Inr ys \<Rightarrow> Inr (y # ys)))"

text \<open>The blocks after the own files.\<close>

definition collect_pending :: "(string \<Rightarrow> file_at) \<Rightarrow> (string \<Rightarrow> string \<times> bool) \<Rightarrow> (string \<Rightarrow> string \<Rightarrow> string option) \<Rightarrow> node \<Rightarrow>
    string list \<Rightarrow> context_pack \<Rightarrow> string + (pending list \<times> context_pack)" where
  "collect_pending look summary part n own p =
     (case traverse split_context_ref (context_files n) of
        Inl e \<Rightarrow> Inl e
      | Inr refs \<Rightarrow> (case traverse parse_symbol (requires n @ requires_impl n) of
          Inl e \<Rightarrow> Inl e
        | Inr syms \<Rightarrow>
            (case collect_python look summary (py_unique (filter (\<lambda>f. py_endswith f ''.py'') (map fst refs) @ map path syms)) own p of
               Inl e \<Rightarrow> Inl e
             | Inr (items, seen, p1) \<Rightarrow> (case collect_refs look part refs seen p1 of
                 Inl e \<Rightarrow> Inl e
               | Inr (items2, p2) \<Rightarrow>
                   if FIXTURE \<in> set own then Inr (items @ items2, p2)
                   else (case read_file look FIXTURE True p2 of
                           Inl e \<Rightarrow> Inl e
                         | Inr (None, p3) \<Rightarrow> Inr (items @ items2, p3)
                         | Inr (Some s, p3) \<Rightarrow> Inr (items @ items2 @ [(FIXTURE, s, ''fixture, full'', Some FIXTURE)], p3))))))"

definition build_context_pack :: "(string \<Rightarrow> file_at) \<Rightarrow> (string \<Rightarrow> string \<times> bool) \<Rightarrow> (string \<Rightarrow> string \<Rightarrow> string option) \<Rightarrow> node \<Rightarrow> nat \<Rightarrow>
    string + context_pack" where
  "build_context_pack look summary part n max_bytes =
     (if any_file (node_edit_set n) then Inr (empty_pack max_bytes [])
      else let own = py_unique (modify (node_edit_set n) @ create (node_edit_set n)) in
           case add_own look max_bytes (create (node_edit_set n)) own (empty_pack max_bytes own) of
             Inl e \<Rightarrow> Inl e
           | Inr p \<Rightarrow> (case collect_pending look summary part n own p of
               Inl e \<Rightarrow> Inl e | Inr (items, p1) \<Rightarrow> Inr (fill max_bytes items False p1)))"

section \<open>The limit\<close>

definition item_block :: "pending \<Rightarrow> string" where
  "item_block i = (case i of (label, source, what, _) \<Rightarrow> whole_block label source what)"

lemma cut_block_len: "utf8_len (cut_block budget label source what) \<le> budget"
proof -
  let ?frame = "utf8_len (block_header label source what @ CUT_NOTICE @ block_footer source)"
  have "?frame + utf8_len (utf8_prefix (budget - ?frame) source) \<le> budget" if "?frame \<le> budget"
    using utf8_prefix_len[of "budget - ?frame" source] that by linarith
  then show ?thesis by (auto simp: cut_block_def Let_def)
qed

lemma fill_exhausted: "fill max_bytes items True p = p\<lparr>pk_truncated := pk_truncated p @ map fst items\<rparr>"
  by (induction items arbitrary: p) (auto simp: split_beta)

lemma fill_spec:
  "\<exists>k cut. k \<le> length items \<and> pk_text (fill max_bytes items False p) = pk_text p @ concat (map item_block (take k items)) @ cut
     \<and> pk_truncated (fill max_bytes items False p) = pk_truncated p @ map fst (drop k items)
     \<and> (k = length items \<longrightarrow> cut = [])
     \<and> utf8_len (pk_text (fill max_bytes items False p)) \<le> max max_bytes (utf8_len (pk_text p))"
proof (induction items arbitrary: p)
  case Nil
  show ?case by simp
next
  case (Cons i items)
  obtain label source what full_path where i: "i = (label, source, what, full_path)" by (cases i)
  obtain added p1 where ab: "add_block max_bytes label source what full_path False p = (added, p1)" by fastforce
  let ?p = "add_block max_bytes label source what full_path False p" and ?used = "utf8_len (pk_text p)"
  show ?case
  proof (cases "?used + utf8_len (whole_block label source what) > max_bytes")
    case True
    let ?cut = "if ?used \<le> max_bytes then cut_block (max_bytes - ?used) label source what else []"
    have "fill max_bytes (i # items) False p =
        p\<lparr>pk_truncated := pk_truncated p @ label # map fst items, pk_text := pk_text p @ ?cut\<rparr>"
      using True by (simp add: i add_block_def fill_exhausted)
    moreover have "utf8_len (pk_text p @ ?cut) \<le> max max_bytes ?used"
      using cut_block_len[of "max_bytes - ?used" label source what] by auto
    ultimately show ?thesis by (intro exI[of _ 0] exI[of _ ?cut]) (auto simp: i)
  next
    case False
    define q where "q = snd ?p"
    have q: "fst ?p" "pk_text q = pk_text p @ item_block i" "pk_truncated q = pk_truncated p" "utf8_len (pk_text q) \<le> max_bytes"
      using False by (auto simp: q_def add_block_def Let_def item_block_def i)
    have step: "fill max_bytes (i # items) False p = fill max_bytes items False q"
      using q(1) by (simp add: i q_def split_beta)
    from Cons.IH[of q] obtain k cut where k: "k \<le> length items"
      "pk_text (fill max_bytes items False q) = pk_text q @ concat (map item_block (take k items)) @ cut"
      "pk_truncated (fill max_bytes items False q) = pk_truncated q @ map fst (drop k items)" "k = length items \<longrightarrow> cut = []"
      "utf8_len (pk_text (fill max_bytes items False q)) \<le> max max_bytes (utf8_len (pk_text q))" by blast
    show ?thesis unfolding step by (rule exI[of _ "Suc k"], rule exI[of _ cut]) (use k q in auto)
  qed
qed

lemma read_file_frame:
  "read_file look f optional p = Inr (r, p1) \<Longrightarrow> pk_text p1 = pk_text p \<and> pk_truncated p1 = pk_truncated p"
  by (auto simp: read_file_def split: file_at.splits)

lemma add_own_text:
  "add_own look max_bytes created fs p = Inr p1 \<Longrightarrow>
   pk_text p1 = pk_text p @ concat (map (\<lambda>f. case look f of Source s \<Rightarrow> whole_block f s ''own file, full'' | _ \<Rightarrow> []) fs)
   \<and> pk_truncated p1 = pk_truncated p"
proof (induction fs arbitrary: p)
  case (Cons f fs)
  then show ?case
    by (cases "look f") (auto simp: read_file_def add_block_def Let_def split: if_splits)
qed simp

lemma collect_python_frame:
  "collect_python look summary fs seen p = Inr (items, seen', p1) \<Longrightarrow> pk_text p1 = pk_text p \<and> pk_truncated p1 = pk_truncated p"
proof (induction fs arbitrary: seen p items)
  case (Cons f fs)
  show ?case
  proof (cases "f \<in> set seen \<or> f = FIXTURE")
    case True
    then show ?thesis using Cons by simp
  next
    case False
    show ?thesis
    proof (cases "look f")
      case (Source s)
      obtain t fb where "summary s = (t, fb)" by fastforce
      with False Source Cons.prems obtain rest where
        "collect_python look summary fs (seen @ [f]) (if fb then p\<lparr>pk_parse_fallbacks := pk_parse_fallbacks p @ [f]\<rparr> else p) = Inr (rest, seen', p1)"
        by (auto simp: read_file_def Let_def split: sum.splits)
      from Cons.IH[OF this] show ?thesis by (auto split: if_splits)
    qed (use Cons False in \<open>auto simp: read_file_def\<close>)
  qed
qed simp

lemma collect_refs_frame:
  "collect_refs look part refs seen p = Inr (items, p1) \<Longrightarrow> pk_text p1 = pk_text p \<and> pk_truncated p1 = pk_truncated p"
proof (induction refs arbitrary: seen p items)
  case (Cons r refs)
  obtain f t where r: "r = (f, t)" by (cases r)
  let ?seen = "if t = None then seen @ [f] else seen"
  show ?case
  proof (cases "f \<in> set seen \<or> py_endswith f ''.py''")
    case True
    then show ?thesis using Cons r by simp
  next
    case False
    show ?thesis
    proof (cases "look f")
      case Outside
      then show ?thesis using Cons.prems False r by (simp add: read_file_def Let_def)
    next
      case No_file
      then show ?thesis using Cons.prems False r Cons.IH[of ?seen "p\<lparr>pk_missing := pk_missing p @ [f]\<rparr>"]
        by (simp add: read_file_def Let_def)
    next
      case (Source s)
      with Cons.prems False r obtain rest where "collect_refs look part refs ?seen p = Inr (rest, p1)"
        by (auto simp: read_file_def Let_def split: sum.splits option.splits if_splits)
      from Cons.IH[OF this] show ?thesis .
    qed
  qed
qed simp

lemma collect_pending_frame:
  assumes "collect_pending look summary part n own p = Inr (items, p1)"
  shows "pk_text p1 = pk_text p \<and> pk_truncated p1 = pk_truncated p"
  using assms collect_python_frame collect_refs_frame read_file_frame
  unfolding collect_pending_def by (fastforce split: sum.splits option.splits if_splits prod.splits)


end
