(* ===== verification/Witnesses.thy ===== *)
theory Witnesses
  imports Run_Fixtures Context_Pack
begin

text \<open>
  Closed instances of the properties with hypotheses, on the plans of \<open>Fixtures\<close>: each hypothesis is
  discharged at a concrete input.
\<close>

section \<open>Derivation\<close>

theorem derive_edges_safe_witness:
  "structure_ok toy_graph \<and> acyclic (edge_rel toy_graph) \<and> interfaces_ok toy_graph
   \<and> acyclic (edge_rel (fst (derive_edges toy_graph toy_index)))"
proof -
  have a: "acyclic (edge_rel toy_graph)" by (simp add: toy_edge_rel acyclic_def)
  show ?thesis
    using derive_edges_safe[OF toy_structure a toy_interfaces] toy_structure toy_interfaces a by simp
qed

theorem derive_edges_orders_conflicts_witness:
  "conflicting_files toy_A toy_B \<noteq> {} \<and> ordered (fst (derive_edges toy_graph toy_index)) ''A'' ''B''"
proof -
  have c: "conflicting_files toy_A toy_B = {''a.py''}"
    by (auto simp: conflicting_files_def edit_files_def toy_defs)
  have n: "toy_A \<noteq> toy_B" "node_id toy_A = ''A''" "node_id toy_B = ''B''"
    "create (node_edit_set toy_B) = []" by (simp_all add: toy_defs)
  have m: "toy_A \<in> set (unique_nodes toy_graph)" "toy_B \<in> set (unique_nodes toy_graph)"
    by (simp_all add: toy_unique)
  show ?thesis
    using derive_edges_orders_conflicts[of toy_A toy_graph toy_B toy_index] m n c by simp
qed

theorem derive_edges_orders_implementers_witness:
  "toy_B \<in> set (implementers (unique_nodes toy_graph) ''a.py::f'' ''C'')
   \<and> (''B'' \<in> anc (fst (derive_edges toy_graph toy_index)) ''C''
      \<or> ''C'' \<in> anc (fst (derive_edges toy_graph toy_index)) ''B'')"
proof -
  have i: "node_id toy_C = ''C''" "node_id toy_B = ''B''" by (simp_all add: toy_defs)
  have "toy_C \<in> set (unique_nodes toy_graph)" "''a.py::f'' \<in> set (requires_impl toy_C)"
    by (simp add: toy_unique, simp add: toy_defs)
  moreover have m: "toy_B \<in> set (implementers (unique_nodes toy_graph) ''a.py::f'' (node_id toy_C))"
    unfolding toy_unique by (simp add: implementers_def changes_symbol_def toy_defs)
  ultimately show ?thesis
    using derive_edges_orders_implementers[of toy_C toy_graph "''a.py::f''" toy_B toy_index] by (simp add: i)
qed

section \<open>Runs\<close>




theorem execute_safe_witness:
  "reachable pair_graph toy_opts pair_end \<and> int (length (running pair_end)) \<le> opt_workers toy_opts"
proof -
  have "1 \<le> opt_workers toy_opts" by (simp add: toy_opts_def)
  from execute_safe[OF pair_acyclic this pair_end_reachable] pair_end_reachable show ?thesis by blast
qed

theorem execute_terminates_witness:
  "acyclic (edge_rel pair_graph)
   \<and> \<not> (\<exists>run. run 0 = init_sched pair_graph \<and> (\<forall>k. sched_step pair_graph toy_opts (run k) (run (Suc k))))"
proof -
  have "1 \<le> opt_workers toy_opts" by (simp add: toy_opts_def)
  from execute_terminates[OF pair_acyclic this] pair_acyclic show ?thesis by blast
qed

theorem execute_complete_witness:
  "ph pair_end = Finished \<and> status_of pair_end ''B'' = Skipped
   \<and> nr_reason (recs pair_end ''B'') = ''upstream_failed''"
proof -
  have "1 \<le> opt_workers toy_opts" by (simp add: toy_opts_def)
  moreover have "''B'' \<in> set (node_ids pair_graph)" by (simp add: pair_facts)
  ultimately show ?thesis
    using execute_complete[OF pair_acyclic _ pair_end_reachable] pair_end_values by blast
qed

theorem run_node_is_step_witness:
  "sched_step pair_graph toy_opts (start_node toy_A (init_sched pair_graph))
     ((start_node toy_A (init_sched pair_graph))\<lparr>recs := (recs (start_node toy_A (init_sched pair_graph)))
        (''A'' := rc (snd (run_node_safely toy_host toy_opts pair_graph toy_A [] toy_run)))\<rparr>)"
  by (rule run_node_is_step[OF toy_worker_reasons])
    (simp_all add: toy_run_def start_node_def init_sched_def pair_facts)

section \<open>Context packs\<close>

definition toy_look :: "string \<Rightarrow> file_at" where
  "toy_look f = (if f = ''a.py'' then Source ''x'' else No_file)"

definition toy_pack :: "string + context_pack" where
  "toy_pack = build_context_pack toy_look (\<lambda>s. (s, True)) (\<lambda>s t. None) toy_B 1000"


end
