(* ===== verification/Run_Findings.thy ===== *)
theory Run_Findings
  imports Run_Fixtures
begin

text \<open>
  Two ways in which an exception separates what a node's record says from what is on the integration branch, each
  shown on the world of \<open>Run_Fixtures\<close>.
\<close>

text \<open>The first post-merge check command raises (for instance because the process could not be started).\<close>

definition raising_host :: "nat list host" where
  "raising_host = toy_host\<lparr>run_command := (\<lambda>cwd _ _. if cwd = REPO then raise_exn (Exn ''OSError'' ''fork'')
     else ret (toy_process True))\<rparr>"

text \<open>Writing the node's patch file raises after the merge.\<close>

definition full_disk_host :: "nat list host" where
  "full_disk_host = toy_host\<lparr>write_log := (\<lambda>f. if f = ''diff.patch'' then raise_exn (Exn ''OSError'' ''full'') else ret ())\<rparr>"

text \<open>When the post-merge check raises instead of reporting a failure, the squash commit is not taken back: the node ends
  as failed with the integration head unchanged, but its commit stays on the integration branch, where the next
  merge builds on it.\<close>

theorem raising_check_leaves_commit:
  "wp (run_node_safely raising_host toy_opts toy_graph toy_A [])
     (\<lambda>_ t. nr_status (rc t) = Failed \<and> nr_reason (rc t) = ''coordinator_error''
        \<and> integration_head t = nat_str 7 \<and> toy_hist (world t) = [nat_str 1, nat_str 7]) (\<lambda>_ _. False) toy_run"
  apply (simp add: raising_host_def run_eval upt_rec del: upt_Suc)
  apply (subst merge_loop.simps)
  apply (simp add: run_eval toy_hist_def)
  done

text \<open>An exception while a merged node is cleaned up overwrites its status: the node ends as failed, so its descendants are
  skipped, although its commit passed the post-merge check and is the integration head.\<close>

theorem cleanup_exception_fails_merged_node:
  "wp (run_node_safely full_disk_host toy_opts toy_graph toy_A [])
     (\<lambda>_ t. nr_status (rc t) = Failed \<and> nr_reason (rc t) = ''coordinator_error''
        \<and> nr_merge_commit (rc t) = Some (nat_str 1) \<and> integration_head t = nat_str 1 \<and> world t = [1, 7]) (\<lambda>_ _. False) toy_run"
  apply (simp add: full_disk_host_def run_eval upt_rec del: upt_Suc)
  apply (subst merge_loop.simps)
  apply (simp add: run_eval py_strip_nat_str[unfolded py_strip_def py_lstrip_def py_rstrip_def])
  done

end
