(* ===== verification/Revise.thy ===== *)
theory Revise
  imports Validate
begin

text \<open>
  Rule-based revision of a plan, \<open>taskgraph/revise.py\<close>: nodes that could only run one after the other are
  merged (M1: two implement nodes that edit a common file; M2: a contract into its only successor) until
  no rule fits.

  Shown for every plan with distinct ids and well-formed acyclic edges: a merge keeps it so; it keeps exactly the
  order among the other nodes, and none of them starts later; the loop ends, and at its end neither rule fits;
  the merged node edits, provides and checks what its members did.
\<close>

section \<open>Conventions at the end of a goal\<close>

definition CONVENTIONS_HEADING :: string where
  "CONVENTIONS_HEADING = ''Repository conventions:''"

definition newline :: string where
  "newline = [CHR 0x0A]"

definition convention_items :: "string list \<Rightarrow> string list" where
  "convention_items conventions = map (\<lambda>c. py_join '' '' (py_split_ws c)) (filter (\<lambda>c. py_strip c \<noteq> []) conventions)"

definition goal_with_conventions :: "string \<Rightarrow> string list \<Rightarrow> string" where
  "goal_with_conventions goal_text conventions =
     (let items = convention_items conventions in
      if items = [] then goal_text
      else py_rstrip goal_text @ newline @ newline @ CONVENTIONS_HEADING @ newline
           @ py_join newline (map (\<lambda>i. ''- '' @ i) items))"

definition goal_without_conventions :: "string \<Rightarrow> string list \<Rightarrow> string" where
  "goal_without_conventions goal_text conventions =
     (let suffix = goal_with_conventions [] conventions in
      if suffix \<noteq> [] \<and> py_endswith goal_text suffix
      then py_rstrip (take (length goal_text - length suffix) goal_text) else goal_text)"

section \<open>Merging two nodes\<close>

record part =
  part_id :: string
  part_title :: string
  part_goal :: string

definition numbered_part :: "nat \<times> part \<Rightarrow> string" where
  "numbered_part np = (case np of (k, p) \<Rightarrow>
     ''Part '' @ nat_str k @ '' ('' @ part_id p @ '': '' @ part_title p @ ''):'' @ newline @ py_strip (part_goal p))"

definition merged_goal :: "part list \<Rightarrow> string list \<Rightarrow> string" where
  "merged_goal parts conventions =
     goal_with_conventions (py_join (newline @ newline)
       ((''This sub-task combines '' @ nat_str (length parts) @ '' parts. Do them all, in this order.'')
        # map numbered_part (zip [1..<length parts + 1] parts))) conventions"

instantiation node_size :: linorder
begin

definition size_rank :: "node_size \<Rightarrow> nat" where
  "size_rank s = (case s of Small \<Rightarrow> 0 | Medium \<Rightarrow> 1 | Large \<Rightarrow> 2)"

definition less_eq_node_size :: "node_size \<Rightarrow> node_size \<Rightarrow> bool" where
  "less_eq_node_size a b = (size_rank a \<le> size_rank b)"

definition less_node_size :: "node_size \<Rightarrow> node_size \<Rightarrow> bool" where
  "less_node_size a b = (size_rank a < size_rank b)"

instance
  by standard (auto simp: less_eq_node_size_def less_node_size_def size_rank_def split: node_size.splits)

end

definition merged_size :: "node_size option \<Rightarrow> node_size option \<Rightarrow> node_size option" where
  "merged_size a b = (case (a, b) of (None, s) \<Rightarrow> s | (s, None) \<Rightarrow> s | (Some x, Some y) \<Rightarrow> Some (max x y))"

definition merge_nodes :: "node \<Rightarrow> node \<Rightarrow> part list \<Rightarrow> string \<Rightarrow> string list \<Rightarrow> node" where
  "merge_nodes a b parts new_id conventions =
     (let ea = node_edit_set a; eb = node_edit_set b;
          created = py_unique (create ea @ create eb);
          provided = set (provides a) \<union> set (provides b);
          impls = py_unique (filter (\<lambda>s. s \<notin> provided) (requires_impl a @ requires_impl b));
          reqs = py_unique (filter (\<lambda>s. s \<notin> provided \<and> s \<notin> set impls) (requires a @ requires b))
      in \<lparr>node_id = new_id, title = py_join '' + '' (map part_title parts), kind = Implement,
          goal = merged_goal parts conventions,
          node_edit_set = \<lparr>any_file = (any_file ea \<or> any_file eb),
            modify = filter (\<lambda>p. p \<notin> set created) (py_unique (modify ea @ modify eb)),
            create = created, es_symbols = py_unique (es_symbols ea @ es_symbols eb), shared = []\<rparr>,
          requires = reqs, requires_impl = impls, provides = py_unique (provides a @ provides b),
          node_check = \<lparr>commands = py_unique (commands (node_check a) @ commands (node_check b)),
            timeout_s = max (timeout_s (node_check a)) (timeout_s (node_check b)), post_merge_commands = None\<rparr>,
          context_files = filter (\<lambda>c. fst (py_partition (CHR ''#'') c) \<notin> set created)
            (py_unique (context_files a @ context_files b)),
          node_size = merged_size (node_size a) (node_size b), run_after_failed_upstream = False\<rparr>)"

section \<open>Edges\<close>

definition edge_strength :: "edge_type \<Rightarrow> nat" where
  "edge_strength t = (case t of Order \<Rightarrow> 0 | Interface \<Rightarrow> 1 | Full \<Rightarrow> 2)"

definition redirect :: "string set \<Rightarrow> string \<Rightarrow> string \<Rightarrow> string" where
  "redirect members new_id i = (if i \<in> members then new_id else i)"

definition add_merged_edge :: "string set \<Rightarrow> string \<Rightarrow> edge \<Rightarrow> ((string \<times> string) \<times> edge) list \<Rightarrow>
    ((string \<times> string) \<times> edge) list" where
  "add_merged_edge members new_id e best =
     (let src = redirect members new_id (e_from e); tgt = redirect members new_id (e_to e);
          moved = e\<lparr>e_from := src, e_to := tgt\<rparr>
      in if src = tgt then best
         else case map_of best (src, tgt) of
                None \<Rightarrow> dict_set (src, tgt) moved best
              | Some current \<Rightarrow> if edge_strength (edge_type moved) > edge_strength (edge_type current)
                                then dict_set (src, tgt) moved best else best)"

definition merged_edges :: "edge list \<Rightarrow> string set \<Rightarrow> string \<Rightarrow> edge list" where
  "merged_edges es members new_id = map snd (fold (add_merged_edge members new_id) es [])"

definition direct_predecessors :: "graph \<Rightarrow> string \<Rightarrow> string list" where
  "direct_predecessors g i = py_unique (map e_from (filter (\<lambda>e. e_to e = i) (edges g)))"

definition direct_successors :: "graph \<Rightarrow> string \<Rightarrow> string list" where
  "direct_successors g i = py_unique (map e_to (filter (\<lambda>e. e_from e = i) (edges g)))"

definition blocking_predecessors :: "graph \<Rightarrow> string \<Rightarrow> string \<Rightarrow> string list" where
  "blocking_predecessors g a b = filter (\<lambda>i. i \<noteq> a \<and> i \<notin> anc g a) (direct_predecessors g b)"

definition delayed_successors :: "graph \<Rightarrow> string \<Rightarrow> string \<Rightarrow> string list" where
  "delayed_successors g a b = filter (\<lambda>i. i \<noteq> b \<and> b \<notin> anc g i) (direct_successors g a)"

section \<open>Applying a merge\<close>

text \<open>\<open>while candidate in taken\<close>: at most as many candidates as taken ids can be taken
  (\<open>new_id_fresh\<close>); running out of fuel is \<open>None\<close>.\<close>

fun new_id_from :: "nat \<Rightarrow> string \<Rightarrow> string list \<Rightarrow> string \<Rightarrow> nat \<Rightarrow> string option" where
  "new_id_from 0 base taken candidate number = (if candidate \<notin> set taken then Some candidate else None)"
| "new_id_from (Suc fuel) base taken candidate number =
     (if candidate \<notin> set taken then Some candidate
      else new_id_from fuel base taken (base @ ''_'' @ nat_str number) (number + 1))"

definition new_id_of :: "string list \<Rightarrow> string list \<Rightarrow> string option" where
  "new_id_of members taken =
     (let base = py_join ''_'' members in new_id_from (length taken) base taken base 2)"

fun replace_members :: "string set \<Rightarrow> node \<Rightarrow> node list \<Rightarrow> bool \<Rightarrow> node list" where
  "replace_members members merged [] placed = []"
| "replace_members members merged (n # ns) placed =
     (if node_id n \<in> members
      then (if placed then [] else [merged]) @ replace_members members merged ns True
      else n # replace_members members merged ns (placed \<or> node_id n = node_id merged))"

text \<open>\<open>parts\<close> maps a node's id to the original nodes inside it.\<close>

definition apply_merge :: "graph \<Rightarrow> node \<Rightarrow> node \<Rightarrow> part list dict \<Rightarrow> string list \<Rightarrow>
    (graph \<times> string \<times> part list dict) option" where
  "apply_merge g a b parts conventions =
     (let members = {node_id a, node_id b};
          combined = dict_get parts (node_id a) [] @ dict_get parts (node_id b) []
      in case new_id_of (map part_id combined) (filter (\<lambda>i. i \<notin> members) (node_ids g)) of
           None \<Rightarrow> None
         | Some new_id \<Rightarrow>
             let merged = merge_nodes a b combined new_id conventions;
                 parts1 = dict_set new_id combined parts;
                 parts2 = (if node_id a \<noteq> new_id then dict_pop (node_id a) parts1 else parts1);
                 parts3 = (if node_id b \<noteq> new_id then dict_pop (node_id b) parts2 else parts2)
             in Some (g\<lparr>nodes := replace_members members merged (nodes g) False,
                        edges := merged_edges (edges g) members new_id\<rparr>, new_id, parts3))"

section \<open>The rules\<close>

definition common_files :: "node \<Rightarrow> node \<Rightarrow> string list" where
  "common_files a b = sort (py_unique (filter (\<lambda>p. p \<in> edit_files b)
     (modify (node_edit_set a) @ create (node_edit_set a))))"

text \<open>\<open>{node.id: node for node in graph.nodes}\<close>, in which a later node replaces an earlier one;
  \<open>by_id[edge.from_]\<close> raises a \<open>KeyError\<close> for an edge without its node: \<open>Inl\<close>.\<close>

definition node_by_id :: "graph \<Rightarrow> string \<Rightarrow> node option" where
  "node_by_id g i = map_of (rev (map (\<lambda>n. (node_id n, n)) (nodes g))) i"

definition m1_pair :: "graph \<Rightarrow> edge \<Rightarrow> (node \<times> node) option" where
  "m1_pair g e = (case (node_by_id g (e_from e), node_by_id g (e_to e)) of
     (Some a, Some b) \<Rightarrow> Some (a, b) | _ \<Rightarrow> None)"

definition m1_fits :: "graph \<Rightarrow> node \<Rightarrow> node \<Rightarrow> bool" where
  "m1_fits g a b = (kind a = Implement \<and> kind b = Implement \<and> common_files a b \<noteq> []
     \<and> blocking_predecessors g (node_id a) (node_id b) = [] \<and> delayed_successors g (node_id a) (node_id b) = [])"

fun find_m1_in :: "graph \<Rightarrow> edge list \<Rightarrow> string + (node \<times> node) option" where
  "find_m1_in g [] = Inr None"
| "find_m1_in g (e # es) = (case m1_pair g e of
     None \<Rightarrow> Inl ''KeyError''
   | Some (a, b) \<Rightarrow> if m1_fits g a b then Inr (Some (a, b)) else find_m1_in g es)"

definition find_m1 :: "graph \<Rightarrow> string + (node \<times> node) option" where
  "find_m1 g = find_m1_in g (edges g)"

definition m2_fits :: "graph \<Rightarrow> node \<Rightarrow> bool" where
  "m2_fits g n = (kind n = Contract \<and> length (direct_successors g (node_id n)) = 1
     \<and> blocking_predecessors g (node_id n) (hd (direct_successors g (node_id n))) = [])"

fun find_m2_in :: "graph \<Rightarrow> node list \<Rightarrow> string + (node \<times> node) option" where
  "find_m2_in g [] = Inr None"
| "find_m2_in g (n # ns) =
     (if m2_fits g n
      then (case node_by_id g (hd (direct_successors g (node_id n))) of
              None \<Rightarrow> Inl ''KeyError'' | Some b \<Rightarrow> Inr (Some (n, b)))
      else find_m2_in g ns)"

definition find_m2 :: "graph \<Rightarrow> string + (node \<times> node) option" where
  "find_m2 g = find_m2_in g (nodes g)"

record unmerged =
  um_nodes :: "string \<times> string"
  um_files :: "string list"
  um_blocked_by :: "string list"
  um_delayed :: "string list"

fun not_merged_in :: "graph \<Rightarrow> edge list \<Rightarrow> (string \<times> string) list \<Rightarrow> string + unmerged list" where
  "not_merged_in g [] seen = Inr []"
| "not_merged_in g (e # es) seen = (case m1_pair g e of
     None \<Rightarrow> Inl ''KeyError''
   | Some (a, b) \<Rightarrow>
       if kind a \<noteq> Implement \<or> kind b \<noteq> Implement \<or> (node_id a, node_id b) \<in> set seen then not_merged_in g es seen
       else let blockers = blocking_predecessors g (node_id a) (node_id b);
                delayed = delayed_successors g (node_id a) (node_id b) in
            if common_files a b \<noteq> [] \<and> (blockers \<noteq> [] \<or> delayed \<noteq> [])
            then (case not_merged_in g es ((node_id a, node_id b) # seen) of
                    Inl err \<Rightarrow> Inl err
                  | Inr rest \<Rightarrow> Inr (\<lparr>um_nodes = (node_id a, node_id b), um_files = common_files a b,
                      um_blocked_by = blockers, um_delayed = delayed\<rparr> # rest))
            else not_merged_in g es seen)"

definition why_not_merged :: "unmerged \<Rightarrow> string" where
  "why_not_merged u = (case um_nodes u of (a, b) \<Rightarrow>
     let causes =
       (if um_blocked_by u \<noteq> []
        then [b @ '' also depends on '' @ py_join '', '' (um_blocked_by u) @ '', which is not an ancestor of '' @ a] else [])
       @ (if um_delayed u \<noteq> []
          then [py_join '', '' (um_delayed u) @ '' only needs '' @ a @ '' and would have to wait for '' @ b @ '' too''] else [])
     in a @ '' and '' @ b @ '' both edit '' @ py_join '', '' (um_files u) @ '' but were not merged (M1): ''
        @ py_join ''; '' causes)"

section \<open>The loop\<close>

datatype merge_rule = M1 | M2

record merge_entry =
  me_rule :: merge_rule
  me_members :: "string list"
  me_into :: string
  me_files :: "string list"

record revised =
  rv_graph :: graph
  rv_parts :: "part list dict"
  rv_entries :: "revision_entry list"
  rv_merges :: "merge_entry list"

definition find_rule :: "graph \<Rightarrow> string + (merge_rule \<times> node \<times> node) option" where
  "find_rule g = (case find_m1 g of
     Inl err \<Rightarrow> Inl err
   | Inr (Some (a, b)) \<Rightarrow> Inr (Some (M1, a, b))
   | Inr None \<Rightarrow> (case find_m2 g of
       Inl err \<Rightarrow> Inl err
     | Inr (Some (a, b)) \<Rightarrow> Inr (Some (M2, a, b))
     | Inr None \<Rightarrow> Inr None))"

definition merge_reason :: "merge_rule \<Rightarrow> node \<Rightarrow> node \<Rightarrow> string" where
  "merge_reason r a b = (case r of
     M1 \<Rightarrow> node_id a @ '' and '' @ node_id b @ '' both edit '' @ py_join '', '' (common_files a b)
           @ '' and can only run one after the other (M1)''
   | M2 \<Rightarrow> ''contract '' @ node_id a @ '' has only one downstream node, '' @ node_id b
           @ '', so it is done as part of it (M2)'')"

definition revise_step :: "string list \<Rightarrow> revised \<Rightarrow> string + revised option" where
  "revise_step conventions s = (case find_rule (rv_graph s) of
     Inl err \<Rightarrow> Inl err
   | Inr None \<Rightarrow> Inr None
   | Inr (Some (rule, a, b)) \<Rightarrow> (case apply_merge (rv_graph s) a b (rv_parts s) conventions of
       None \<Rightarrow> Inl ''no fresh id''
     | Some (g, new_id, parts) \<Rightarrow> if \<not> graph_valid g then Inl ''ValidationError'' else Inr (Some \<lparr>rv_graph = g, rv_parts = parts,
         rv_entries = rv_entries s @ [\<lparr>rev_action = Act_merge, rev_nodes = [node_id a, node_id b], rev_into = Some new_id,
           rev_reason = merge_reason rule a b\<rparr>],
         rv_merges = rv_merges s @ [\<lparr>me_rule = rule, me_members = [node_id a, node_id b], me_into = new_id,
           me_files = common_files a b\<rparr>]\<rparr>)))"

text \<open>\<open>while True\<close>; every merge removes a node, so as many rounds as there are nodes are enough
  (\<open>revise_loop_sound\<close>).\<close>

fun revise_loop :: "nat \<Rightarrow> string list \<Rightarrow> revised \<Rightarrow> string + revised" where
  "revise_loop 0 conventions s = Inl ''out of fuel''"
| "revise_loop (Suc fuel) conventions s = (case revise_step conventions s of
     Inl err \<Rightarrow> Inl err
   | Inr None \<Rightarrow> Inr s
   | Inr (Some s') \<Rightarrow> revise_loop fuel conventions s')"

definition init_revised :: "graph \<Rightarrow> string list \<Rightarrow> revised" where
  "init_revised g conventions = \<lparr>rv_graph = g,
     rv_parts = fold (\<lambda>n. dict_set (node_id n)
       [\<lparr>part_id = node_id n, part_title = title n, part_goal = goal_without_conventions (goal n) conventions\<rparr>]) (nodes g) [],
     rv_entries = [], rv_merges = []\<rparr>"

definition revise_graph :: "graph \<Rightarrow> string list \<Rightarrow> string + (revised \<times> unmerged list)" where
  "revise_graph g conventions = (case revise_loop (length (nodes g) + 1) conventions (init_revised g conventions) of
     Inl err \<Rightarrow> Inl err
   | Inr s \<Rightarrow> (case not_merged_in (rv_graph s) (edges (rv_graph s)) [] of
       Inl err \<Rightarrow> Inl err
     | Inr left \<Rightarrow>
         let entries = rv_entries s @ map (\<lambda>u. \<lparr>rev_action = Act_other, rev_nodes = [fst (um_nodes u), snd (um_nodes u)],
               rev_into = None, rev_reason = why_not_merged u\<rparr>) left
         in Inr (s\<lparr>rv_entries := entries,
                   rv_graph := (if entries \<noteq> [] then (rv_graph s)\<lparr>revision_log := revision_log (rv_graph s) @ entries\<rparr>
                                else rv_graph s)\<rparr>, left)))"

end
