(* ===== verification/Revise_Props.thy ===== *)
theory Revise_Props
  imports Revise
begin

text \<open>
  What a merge does to the order of a plan, and what the revision loop ends with.
\<close>

section \<open>Contracting an edge of an order\<close>

text \<open>The two ends \<open>x\<close> and \<open>y\<close> of an edge become \<open>z\<close>. The order of everything else is untouched when every
  other direct predecessor of \<open>y\<close> is below \<open>x\<close> already.\<close>

definition contract :: "'a \<Rightarrow> 'a \<Rightarrow> 'a \<Rightarrow> 'a \<Rightarrow> 'a" where
  "contract x y z v = (if v \<in> {x, y} then z else v)"

definition contracted :: "'a \<Rightarrow> 'a \<Rightarrow> 'a \<Rightarrow> ('a \<times> 'a) set \<Rightarrow> ('a \<times> 'a) set" where
  "contracted x y z r = {(contract x y z a, contract x y z b) |a b. (a, b) \<in> r \<and> contract x y z a \<noteq> contract x y z b}"

lemma contracted_back:
  assumes xy: "(x, y) \<in> r" and pred: "\<And>p. (p, y) \<in> r \<Longrightarrow> p = x \<or> (p, x) \<in> r\<^sup>+"
    and fresh: "z \<notin> Field r - {x, y}"
    and step: "(u, v) \<in> (contracted x y z r)\<^sup>+"
  shows "((if u = z then x else u), (if v = z then x else v)) \<in> r\<^sup>+"
proof -
  have edge: "((if u = z then x else u), (if v = z then x else v)) \<in> r\<^sup>+" if "(u, v) \<in> contracted x y z r" for u v
  proof -
    from that obtain a b where ab: "(a, b) \<in> r" "u = contract x y z a" "v = contract x y z b" "u \<noteq> v"
      by (auto simp: contracted_def)
    have F: "a \<in> Field r" "b \<in> Field r" using ab(1) by (auto simp: Field_def)
    show ?thesis
    proof (cases "a \<in> {x, y}")
      case True
      then have b: "b \<notin> {x, y}" "u = z" "v = b" "b \<noteq> z" using ab F fresh by (auto simp: contract_def)
      have "(x, b) \<in> r\<^sup>+" using True ab(1) xy by (auto intro: trancl_into_trancl2)
      with b show ?thesis by simp
    next
      case False
      then have a: "u = a" "a \<noteq> z" using ab F fresh by (auto simp: contract_def)
      show ?thesis
      proof (cases "b \<in> {x, y}")
        case True
        then have "(a, x) \<in> r\<^sup>+" using ab(1) pred False by auto
        with True a ab show ?thesis by (auto simp: contract_def)
      next
        case b: False
        then have "v = b" "b \<noteq> z" using ab F fresh by (auto simp: contract_def)
        with a ab(1) show ?thesis by auto
      qed
    qed
  qed
  show ?thesis
    using step
  proof (induction rule: trancl_induct)
    case (base v)
    then show ?case by (rule edge)
  next
    case (step v w)
    from edge[OF step(2)] step(3) show ?case by (rule trancl_trans[rotated])
  qed
qed

lemma contracted_forward:
  "(a, b) \<in> r\<^sup>* \<Longrightarrow> (contract x y z a, contract x y z b) \<in> (contracted x y z r)\<^sup>*"
proof (induction rule: rtrancl_induct)
  case (step b c)
  then show ?case
  proof (cases "contract x y z b = contract x y z c")
    case False
    with step(2) have "(contract x y z b, contract x y z c) \<in> contracted x y z r" by (auto simp: contracted_def)
    with step(3) show ?thesis by (rule rtrancl_into_rtrancl)
  qed simp
qed simp

lemma contracted_forward_trancl:
  "(a, b) \<in> r\<^sup>+ \<Longrightarrow> contract x y z a \<noteq> contract x y z b \<Longrightarrow> (contract x y z a, contract x y z b) \<in> (contracted x y z r)\<^sup>+"
  using contracted_forward[of a b r x y z] by (auto simp: rtrancl_eq_or_trancl dest: trancl_into_rtrancl)

lemma contracted_acyclic:
  assumes "acyclic r" "(x, y) \<in> r" "\<And>p. (p, y) \<in> r \<Longrightarrow> p = x \<or> (p, x) \<in> r\<^sup>+" "z \<notin> Field r - {x, y}"
  shows "acyclic (contracted x y z r)"
  unfolding acyclic_def
proof (intro allI notI)
  fix u assume "(u, u) \<in> (contracted x y z r)\<^sup>+"
  from contracted_back[OF assms(2-4) this] assms(1) show False by (auto simp: acyclic_def split: if_splits)
qed

text \<open>Nodes other than the two keep their order, and the merged node starts when \<open>x\<close> could.\<close>

lemma contracted_order:
  assumes r: "acyclic r" "(x, y) \<in> r" "\<And>p. (p, y) \<in> r \<Longrightarrow> p = x \<or> (p, x) \<in> r\<^sup>+" "z \<notin> Field r - {x, y}"
    and a: "a \<notin> {x, y, z}" and b: "b \<notin> {x, y, z}"
  shows "(a, b) \<in> (contracted x y z r)\<^sup>+ \<longleftrightarrow> (a, b) \<in> r\<^sup>+"
    and "(a, z) \<in> (contracted x y z r)\<^sup>+ \<longleftrightarrow> (a, x) \<in> r\<^sup>+"
proof -
  have ca: "contract x y z a = a" "contract x y z b = b" "contract x y z x = z" using a b by (auto simp: contract_def)
  show "(a, b) \<in> (contracted x y z r)\<^sup>+ \<longleftrightarrow> (a, b) \<in> r\<^sup>+"
  proof
    assume "(a, b) \<in> (contracted x y z r)\<^sup>+"
    from contracted_back[OF r(2-4) this] a b show "(a, b) \<in> r\<^sup>+" by simp
  next
    assume ab: "(a, b) \<in> r\<^sup>+"
    then have "a \<noteq> b" using r(1) by (auto simp: acyclic_def)
    with contracted_forward_trancl[OF ab, of x y z] ca show "(a, b) \<in> (contracted x y z r)\<^sup>+" by simp
  qed
  show "(a, z) \<in> (contracted x y z r)\<^sup>+ \<longleftrightarrow> (a, x) \<in> r\<^sup>+"
  proof
    assume "(a, z) \<in> (contracted x y z r)\<^sup>+"
    from contracted_back[OF r(2-4) this] a show "(a, x) \<in> r\<^sup>+" by simp
  next
    assume "(a, x) \<in> r\<^sup>+"
    from contracted_forward_trancl[OF this, of x y z] ca a show "(a, z) \<in> (contracted x y z r)\<^sup>+" by simp
  qed
qed

text \<open>If every other successor of \<open>x\<close> already waited for \<open>y\<close>, nobody waits for more than before.\<close>

lemma contracted_delay:
  assumes r: "acyclic r" "(x, y) \<in> r" "\<And>p. (p, y) \<in> r \<Longrightarrow> p = x \<or> (p, x) \<in> r\<^sup>+" "z \<notin> Field r - {x, y}"
    and succ: "\<And>w. (x, w) \<in> r \<Longrightarrow> w = y \<or> (y, w) \<in> r\<^sup>+" and b: "b \<notin> {x, y, z}"
  shows "(z, b) \<in> (contracted x y z r)\<^sup>+ \<longleftrightarrow> (y, b) \<in> r\<^sup>+"
proof
  assume "(z, b) \<in> (contracted x y z r)\<^sup>+"
  from contracted_back[OF r(2-4) this] b have "(x, b) \<in> r\<^sup>+" by simp
  then obtain w where w: "(x, w) \<in> r" "(w, b) \<in> r\<^sup>*" by (auto dest: tranclD)
  from succ[OF w(1)] show "(y, b) \<in> r\<^sup>+"
  proof
    assume "w = y"
    with w(2) b show ?thesis by (auto simp: rtrancl_eq_or_trancl)
  next
    assume "(y, w) \<in> r\<^sup>+"
    then show ?thesis using w(2) by (rule trancl_rtrancl_trancl)
  qed
next
  assume "(y, b) \<in> r\<^sup>+"
  from contracted_forward_trancl[OF this, of x y z] b show "(z, b) \<in> (contracted x y z r)\<^sup>+"
    by (auto simp: contract_def)
qed

section \<open>Fresh ids\<close>

definition candidate :: "string \<Rightarrow> nat \<Rightarrow> string" where
  "candidate base k = (if k = 0 then base else base @ ''_'' @ nat_str (k + 1))"

lemma candidate_inj: "candidate base j = candidate base k \<Longrightarrow> j = k"
  by (auto simp: candidate_def split: if_splits)

lemma new_id_from_candidate:
  "new_id_from fuel base taken (candidate base k) (k + 2) = None \<Longrightarrow> \<forall>j\<in>{k..k + fuel}. candidate base j \<in> set taken"
proof (induction fuel arbitrary: k)
  case 0
  then show ?case by (auto split: if_splits)
next
  case (Suc fuel)
  have next_c: "base @ ''_'' @ nat_str (k + 2) = candidate base (Suc k)" by (simp add: candidate_def)
  from Suc.prems have k: "candidate base k \<in> set taken"
    and rest: "new_id_from fuel base taken (candidate base (Suc k)) (Suc k + 2) = None"
    by (auto simp: next_c[simplified] split: if_splits)
  show ?case
  proof
    fix j assume "j \<in> {k..k + Suc fuel}"
    then have "j = k \<or> j \<in> {Suc k..Suc k + fuel}" by auto
    then show "candidate base j \<in> set taken" using Suc.IH[OF rest] k by auto
  qed
qed

lemma new_id_from_fresh: "new_id_from fuel base taken c k = Some i \<Longrightarrow> i \<notin> set taken"
  by (induction fuel arbitrary: c k) (auto split: if_splits)

text \<open>\<open>_new_id\<close> returns, and what it returns is not taken.\<close>

lemma new_id_fresh: "\<exists>i. new_id_of members taken = Some i \<and> i \<notin> set taken"
proof (cases "new_id_of members taken")
  case None
  let ?b = "py_join ''_'' members"
  have "new_id_from (length taken) ?b taken (candidate ?b 0) (0 + 2) = None"
    using None by (simp add: new_id_of_def candidate_def Let_def numeral_2_eq_2)
  from new_id_from_candidate[OF this] have "candidate ?b ` {0..length taken} \<subseteq> set taken" by auto
  then have "card (candidate ?b ` {0..length taken}) \<le> length taken"
    by (meson card_length card_mono finite_set le_trans)
  moreover have "inj_on (candidate ?b) {0..length taken}" by (auto intro: inj_onI candidate_inj)
  ultimately show ?thesis by (simp add: card_image)
next
  case (Some i)
  then show ?thesis by (auto simp: new_id_of_def Let_def dest: new_id_from_fresh)
qed

section \<open>Nodes and edges after a merge\<close>

lemma replace_members_placed:
  "node_id merged \<notin> node_id ` set ns - M \<Longrightarrow>
   replace_members M merged ns True = filter (\<lambda>n. node_id n \<notin> M) ns"
  by (induction ns) auto

lemma replace_members_set:
  "node_id merged \<notin> node_id ` set ns - M \<Longrightarrow>
   set (replace_members M merged ns False)
   = {n \<in> set ns. node_id n \<notin> M} \<union> (if node_id ` set ns \<inter> M = {} then {} else {merged})"
proof (induction ns)
  case (Cons n ns)
  show ?case
  proof (cases "node_id n \<in> M")
    case True
    with Cons.prems show ?thesis by (auto simp: replace_members_placed)
  next
    case False
    then have "node_id n \<noteq> node_id merged" "node_id merged \<notin> node_id ` set ns - M" using Cons.prems by auto
    with Cons.IH False show ?thesis by auto
  qed
qed simp

lemma replace_members_distinct:
  "node_id merged \<notin> node_id ` set ns - M \<Longrightarrow> distinct (map node_id ns) \<Longrightarrow>
   distinct (map node_id (replace_members M merged ns False))"
proof (induction ns)
  case (Cons n ns)
  show ?case
  proof (cases "node_id n \<in> M")
    case True
    have "distinct (map node_id (filter (\<lambda>n. node_id n \<notin> M) ns))" using Cons.prems(2) by (simp add: distinct_map_filter)
    with True Cons.prems show ?thesis by (auto simp: replace_members_placed)
  next
    case False
    then have m: "node_id merged \<noteq> node_id n" "node_id merged \<notin> node_id ` set ns - M" using Cons.prems(1) by auto
    then have "node_id n \<notin> node_id ` set (replace_members M merged ns False)"
      using Cons.prems(2) by (auto simp: replace_members_set)
    with Cons.IH[OF m(2)] Cons.prems(2) False m(1) show ?thesis by auto
  qed
qed simp

lemma replace_members_length:
  assumes "node_id merged \<notin> node_id ` set ns - {x, y}" "distinct (map node_id ns)" "x \<noteq> y" "{x, y} \<subseteq> node_id ` set ns"
  shows "length (replace_members {x, y} merged ns False) + 1 = length ns"
proof -
  let ?ns = "replace_members {x, y} merged ns False"
  have "length ?ns = card (node_id ` set ?ns)"
    using replace_members_distinct[OF assms(1,2)] by (metis distinct_card length_map list.set_map)
  also have "node_id ` set ?ns = (node_id ` set ns - {x, y}) \<union> {node_id merged}"
    using assms(4) by (auto simp: replace_members_set[OF assms(1)])
  also have "card \<dots> = card (node_id ` set ns - {x, y}) + 1"
    using assms(1) by (simp add: card_insert_disjoint)
  also have "card (node_id ` set ns - {x, y}) = card (node_id ` set ns) - 2"
    using assms(3,4) by (subst card_Diff_subset) auto
  also have "card (node_id ` set ns) = length ns"
    using assms(2) by (metis distinct_card length_map list.set_map)
  finally have eq: "length ?ns = length ns - 2 + 1" .
  have "card {x, y} \<le> card (node_id ` set ns)" using assms(4) by (intro card_mono) auto
  then have "2 \<le> length ns" using assms(3) \<open>card (node_id ` set ns) = length ns\<close> by simp
  with eq show ?thesis by simp
qed

text \<open>The dictionary of merged edges: every entry sits under its own ends, and the keys are the redirected
  pairs with different ends.\<close>

definition edges_keyed :: "((string \<times> string) \<times> edge) list \<Rightarrow> bool" where
  "edges_keyed best = (distinct (map fst best) \<and> (\<forall>(k, e)\<in>set best. k = (e_from e, e_to e) \<and> e_from e \<noteq> e_to e))"

lemma dict_set_in: "distinct (map fst d) \<Longrightarrow> set (dict_set k v d) = {kv \<in> set d. fst kv \<noteq> k} \<union> {(k, v)}"
proof (induction d)
  case (Cons kv d)
  then show ?case by (cases kv) (auto simp: image_iff)
qed simp

lemma edges_keyed_set:
  assumes "edges_keyed best" "s \<noteq> t" "e_from e = s" "e_to e = t"
  shows "edges_keyed (dict_set (s, t) e best)" "fst ` set (dict_set (s, t) e best) = insert (s, t) (fst ` set best)"
proof -
  have d: "distinct (map fst best)" using assms(1) by (simp add: edges_keyed_def)
  then have "distinct (map fst (dict_set (s, t) e best))" by (rule distinct_update)
  with assms show "edges_keyed (dict_set (s, t) e best)" by (auto simp: edges_keyed_def dict_set_in[OF d])
  show "fst ` set (dict_set (s, t) e best) = insert (s, t) (fst ` set best)" by simp
qed

lemma add_merged_edge_keyed:
  assumes "edges_keyed best"
  shows "edges_keyed (add_merged_edge M z e best)"
    "fst ` set (add_merged_edge M z e best) = fst ` set best \<union>
       (if redirect M z (e_from e) = redirect M z (e_to e) then {} else {(redirect M z (e_from e), redirect M z (e_to e))})"
proof -
  let ?s = "redirect M z (e_from e)" and ?t = "redirect M z (e_to e)"
  let ?m = "e\<lparr>e_from := ?s, e_to := ?t\<rparr>"
  have some: "(?s, ?t) \<in> fst ` set best" if "map_of best (?s, ?t) = Some c" for c
    using that by (metis fst_conv image_eqI map_of_SomeD)
  show "edges_keyed (add_merged_edge M z e best)"
    using assms edges_keyed_set(1)[OF assms, of ?s ?t ?m] by (auto simp: add_merged_edge_def Let_def split: option.splits)
  show "fst ` set (add_merged_edge M z e best) = fst ` set best \<union>
       (if ?s = ?t then {} else {(?s, ?t)})"
    using edges_keyed_set(2)[OF assms, of ?s ?t ?m] some
    by (auto simp: add_merged_edge_def Let_def insert_absorb split: option.splits)
qed

lemma fold_merged_edges:
  "edges_keyed best \<Longrightarrow> edges_keyed (fold (add_merged_edge M z) es best)
   \<and> fst ` set (fold (add_merged_edge M z) es best) = fst ` set best \<union>
     {(redirect M z (e_from e), redirect M z (e_to e)) |e. e \<in> set es \<and> redirect M z (e_from e) \<noteq> redirect M z (e_to e)}"
proof (induction es arbitrary: best)
  case (Cons e es)
  from Cons.IH[OF add_merged_edge_keyed(1)[OF Cons.prems, of M z e]] add_merged_edge_keyed(2)[OF Cons.prems, of M z e]
  show ?case by auto
qed simp

lemma merged_edges_ends:
  "(\<lambda>e. (e_from e, e_to e)) ` set (merged_edges es M z)
   = {(redirect M z (e_from e), redirect M z (e_to e)) |e. e \<in> set es \<and> redirect M z (e_from e) \<noteq> redirect M z (e_to e)}"
  and merged_edges_distinct: "distinct (map (\<lambda>e. (e_from e, e_to e)) (merged_edges es M z))"
proof -
  let ?d = "fold (add_merged_edge M z) es []"
  have k: "edges_keyed ?d" "fst ` set ?d = {(redirect M z (e_from e), redirect M z (e_to e)) |e. e \<in> set es
      \<and> redirect M z (e_from e) \<noteq> redirect M z (e_to e)}"
    using fold_merged_edges[of "[]" M z es] by (simp_all add: edges_keyed_def)
  have "map (\<lambda>e. (e_from e, e_to e)) (map snd ?d) = map fst ?d"
    using k(1) by (auto simp: edges_keyed_def)
  then have e: "map (\<lambda>e. (e_from e, e_to e)) (merged_edges es M z) = map fst ?d" by (simp add: merged_edges_def)
  show "distinct (map (\<lambda>e. (e_from e, e_to e)) (merged_edges es M z))" using k(1) by (simp add: e edges_keyed_def)
  show "(\<lambda>e. (e_from e, e_to e)) ` set (merged_edges es M z)
     = {(redirect M z (e_from e), redirect M z (e_to e)) |e. e \<in> set es \<and> redirect M z (e_from e) \<noteq> redirect M z (e_to e)}"
    using k(2) e by (metis list.set_map)
qed

section \<open>One merge\<close>

lemma redirect_contract: "redirect {x, y} z = contract x y z"
  by (auto simp: redirect_def contract_def fun_eq_iff)

lemma structure_edge_rel: "structure_ok g \<Longrightarrow> edge_rel g = (\<lambda>e. (e_from e, e_to e)) ` set (edges g)"
  by (auto simp: edge_rel_def usable_edges_iff structure_ok_def)

lemma structure_nodes: "structure_ok g \<Longrightarrow> unique_nodes g = nodes g"
  by (simp add: structure_ok_def unique_nodes_id)

text \<open>A merge of two nodes always succeeds, keeps the structure sound, and contracts the two ids.\<close>

lemma apply_merge_structure:
  assumes st: "structure_ok g" and a: "a \<in> set (nodes g)" and b: "b \<in> set (nodes g)" and ne: "node_id a \<noteq> node_id b"
  obtains z g' parts' where "apply_merge g a b parts conventions = Some (g', z, parts')"
    "z \<notin> set (node_ids g) - {node_id a, node_id b}"
    "nodes g' = replace_members {node_id a, node_id b} (merge_nodes a b (dict_get parts (node_id a) [] @ dict_get parts (node_id b) []) z conventions) (nodes g) False"
    "new_id_of (map part_id (dict_get parts (node_id a) [] @ dict_get parts (node_id b) []))
       (filter (\<lambda>i. i \<notin> {node_id a, node_id b}) (node_ids g)) = Some z"
    "set (node_ids g') = set (node_ids g) - {node_id a, node_id b} \<union> {z}"
    "length (nodes g') + 1 = length (nodes g)" "structure_ok g'"
    "edge_rel g' = contracted (node_id a) (node_id b) z (edge_rel g)" "revision_log g' = revision_log g"
proof -
  let ?x = "node_id a" and ?y = "node_id b"
  let ?M = "{?x, ?y}" and ?c = "dict_get parts (node_id a) [] @ dict_get parts (node_id b) []"
  obtain z where z: "new_id_of (map part_id ?c) (filter (\<lambda>i. i \<notin> ?M) (node_ids g)) = Some z"
    "z \<notin> set (filter (\<lambda>i. i \<notin> ?M) (node_ids g))" using new_id_fresh by blast
  let ?m = "merge_nodes a b ?c z conventions"
  let ?g = "g\<lparr>nodes := replace_members ?M ?m (nodes g) False, edges := merged_edges (edges g) ?M z\<rparr>"
  obtain parts' where ap: "apply_merge g a b parts conventions = Some (?g, z, parts')"
    using z(1) by (auto simp: apply_merge_def Let_def)
  have id: "node_id ?m = z" by (simp add: merge_nodes_def Let_def)
  have ids: "node_id ` set (nodes g) = set (node_ids g)" by (simp add: node_ids_def)
  have fresh: "node_id ?m \<notin> node_id ` set (nodes g) - ?M" using z(2) by (auto simp: id ids)
  have M: "?M \<subseteq> node_id ` set (nodes g)" using a b by auto
  have dist: "distinct (map node_id (nodes g))" using st by (simp add: structure_ok_def node_ids_def)
  have new_ids: "set (node_ids ?g) = set (node_ids g) - ?M \<union> {z}"
    using M by (auto simp: node_ids_def replace_members_set[OF fresh] id)
  have ends: "(\<lambda>e. (e_from e, e_to e)) ` set (edges ?g) = contracted ?x ?y z (edge_rel g)"
    by (auto simp: merged_edges_ends redirect_contract contracted_def structure_edge_rel[OF st])
  have inside: "contract ?x ?y z i \<in> set (node_ids ?g)" if "i \<in> set (node_ids g)" for i
    using that by (auto simp: new_ids contract_def)
  have "e_from e \<in> set (node_ids ?g) \<and> e_to e \<in> set (node_ids ?g) \<and> e_from e \<noteq> e_to e" if "e \<in> set (edges ?g)" for e
  proof -
    from that have "(e_from e, e_to e) \<in> contracted ?x ?y z (edge_rel g)" unfolding ends[symmetric] by (rule imageI)
    then obtain u v where "(u, v) \<in> edge_rel g" "e_from e = contract ?x ?y z u" "e_to e = contract ?x ?y z v" "e_from e \<noteq> e_to e"
      by (auto simp: contracted_def)
    with inside edge_rel_ids[of g] show ?thesis by auto
  qed
  moreover have "distinct (map edge_key (edges ?g))"
    using merged_edges_distinct[of "edges g" ?M z] by (auto simp: distinct_map inj_on_def)
  moreover have "distinct (node_ids ?g)"
    using replace_members_distinct[OF fresh dist] by (simp add: node_ids_def)
  ultimately have st': "structure_ok ?g" by (auto simp: structure_ok_def)
  have len: "length (nodes ?g) + 1 = length (nodes g)"
    using replace_members_length[OF fresh dist ne M] by simp
  show ?thesis
    by (rule that[OF ap _ _ z(1) new_ids len st'])
      (use z(2) ends structure_edge_rel[OF st'] in auto)
qed

lemma node_by_id_Some:
  assumes "structure_ok g"
  shows "node_by_id g i = Some n \<longleftrightarrow> n \<in> set (nodes g) \<and> node_id n = i"
proof -
  have "distinct (map fst (rev (map (\<lambda>n. (node_id n, n)) (nodes g))))"
    using assms by (simp add: structure_ok_def node_ids_def rev_map comp_def flip: rev_map)
  then have "node_by_id g i = Some n \<longleftrightarrow> (i, n) \<in> set (rev (map (\<lambda>n. (node_id n, n)) (nodes g)))"
    unfolding node_by_id_def by (rule map_of_eq_Some_iff)
  then show ?thesis by auto
qed

lemma node_by_id_exists:
  assumes "structure_ok g" "i \<in> set (node_ids g)"
  shows "\<exists>n. node_by_id g i = Some n"
proof -
  from assms(2) obtain n where "n \<in> set (nodes g)" "node_id n = i" by (auto simp: node_ids_def)
  then show ?thesis using node_by_id_Some[OF assms(1)] by blast
qed

lemma direct_neighbours:
  assumes "structure_ok g"
  shows "set (direct_predecessors g i) = {p. (p, i) \<in> edge_rel g}" "set (direct_successors g i) = {s. (i, s) \<in> edge_rel g}"
  by (auto simp: direct_predecessors_def direct_successors_def structure_edge_rel[OF assms])

lemma blocking_guard:
  assumes "structure_ok g" "blocking_predecessors g x y = []" "(p, y) \<in> edge_rel g"
  shows "p = x \<or> (p, x) \<in> (edge_rel g)\<^sup>+"
  using assms(2,3) direct_neighbours[OF assms(1), of y] by (auto simp: blocking_predecessors_def filter_empty_conv anc_trancl)

lemma delayed_guard:
  assumes "structure_ok g" "delayed_successors g x y = []" "(x, w) \<in> edge_rel g"
  shows "w = y \<or> (y, w) \<in> (edge_rel g)\<^sup>+"
  using assms(2,3) direct_neighbours[OF assms(1), of x] by (auto simp: delayed_successors_def filter_empty_conv anc_trancl)

text \<open>What both rules establish about the pair they pick.\<close>

definition mergeable :: "graph \<Rightarrow> node \<Rightarrow> node \<Rightarrow> bool" where
  "mergeable g a b = (a \<in> set (nodes g) \<and> b \<in> set (nodes g) \<and> (node_id a, node_id b) \<in> edge_rel g
     \<and> (\<forall>p. (p, node_id b) \<in> edge_rel g \<longrightarrow> p = node_id a \<or> (p, node_id a) \<in> (edge_rel g)\<^sup>+)
     \<and> (\<forall>w. (node_id a, w) \<in> edge_rel g \<longrightarrow> w = node_id b \<or> (node_id b, w) \<in> (edge_rel g)\<^sup>+))"

lemma m1_pair_Some:
  assumes "structure_ok g" "e \<in> set (edges g)"
  obtains a b where "m1_pair g e = Some (a, b)" "a \<in> set (nodes g)" "b \<in> set (nodes g)" "node_id a = e_from e"
    "node_id b = e_to e"
proof -
  have "e_from e \<in> set (node_ids g)" "e_to e \<in> set (node_ids g)" using assms by (auto simp: structure_ok_def)
  then obtain a b where ab: "node_by_id g (e_from e) = Some a" "node_by_id g (e_to e) = Some b"
    using node_by_id_exists[OF assms(1)] by blast
  show ?thesis
    by (rule that[of a b]) (use ab ab[unfolded node_by_id_Some[OF assms(1)]] in \<open>auto simp: m1_pair_def\<close>)
qed

lemma find_m1_in_spec:
  assumes "structure_ok g"
  shows "set es \<subseteq> set (edges g) \<Longrightarrow>
    (case find_m1_in g es of
       Inl _ \<Rightarrow> False
     | Inr None \<Rightarrow> \<forall>e\<in>set es. \<forall>a b. m1_pair g e = Some (a, b) \<longrightarrow> \<not> m1_fits g a b
     | Inr (Some (a, b)) \<Rightarrow> m1_fits g a b \<and> (\<exists>e\<in>set es. m1_pair g e = Some (a, b)))"
proof (induction es)
  case (Cons e es)
  have "e \<in> set (edges g)" using Cons.prems by simp
  then obtain a b where "m1_pair g e = Some (a, b)" by (rule m1_pair_Some[OF assms])
  with Cons show ?case by (cases "m1_fits g a b") (auto split: sum.splits option.splits)
qed simp

lemma m1_mergeable:
  assumes st: "structure_ok g" and "find_m1 g = Inr (Some (a, b))"
  shows "mergeable g a b"
proof -
  from find_m1_in_spec[OF st, of "edges g"] assms(2) obtain e where e: "m1_fits g a b" "e \<in> set (edges g)" "m1_pair g e = Some (a, b)"
    by (auto simp: find_m1_def)
  obtain a' b' where "m1_pair g e = Some (a', b')" "a' \<in> set (nodes g)" "b' \<in> set (nodes g)" "node_id a' = e_from e" "node_id b' = e_to e"
    by (rule m1_pair_Some[OF st e(2)])
  with e have ab: "a \<in> set (nodes g)" "b \<in> set (nodes g)" "(node_id a, node_id b) \<in> edge_rel g"
    by (auto simp: structure_edge_rel[OF st] image_iff)
  have "blocking_predecessors g (node_id a) (node_id b) = []" "delayed_successors g (node_id a) (node_id b) = []"
    using e(1) by (simp_all add: m1_fits_def)
  with ab show ?thesis using blocking_guard[OF st] delayed_guard[OF st] by (simp add: mergeable_def)
qed

lemma m2_target:
  assumes "structure_ok g" "m2_fits g n"
  obtains b where "node_by_id g (hd (direct_successors g (node_id n))) = Some b" "direct_successors g (node_id n) = [node_id b]"
proof -
  from assms(2) obtain i where i: "direct_successors g (node_id n) = [i]"
    by (auto simp: m2_fits_def length_Suc_conv)
  then have "(node_id n, i) \<in> edge_rel g" using direct_neighbours(2)[OF assms(1), of "node_id n"] by auto
  then have "i \<in> set (node_ids g)" using edge_rel_ids[of g] by auto
  then obtain b where "node_by_id g i = Some b" using node_by_id_exists[OF assms(1)] by blast
  with i node_by_id_Some[OF assms(1)] show ?thesis using that by auto
qed

lemma find_m2_in_spec:
  assumes "structure_ok g"
  shows "case find_m2_in g ns of
       Inl _ \<Rightarrow> False
     | Inr None \<Rightarrow> \<forall>n\<in>set ns. \<not> m2_fits g n
     | Inr (Some (a, b)) \<Rightarrow> a \<in> set ns \<and> m2_fits g a \<and> node_by_id g (hd (direct_successors g (node_id a))) = Some b"
proof (induction ns)
  case (Cons n ns)
  show ?case
  proof (cases "m2_fits g n")
    case True
    obtain b where "node_by_id g (hd (direct_successors g (node_id n))) = Some b" by (rule m2_target[OF assms True])
    with True show ?thesis by simp
  next
    case False
    with Cons show ?thesis by (auto split: sum.splits option.splits)
  qed
qed simp

lemma m2_mergeable:
  assumes st: "structure_ok g" and "find_m2 g = Inr (Some (a, b))"
  shows "mergeable g a b"
proof -
  from find_m2_in_spec[OF st, of "nodes g"] assms(2) have a: "a \<in> set (nodes g)" "m2_fits g a"
      "node_by_id g (hd (direct_successors g (node_id a))) = Some b"
    by (auto simp: find_m2_def)
  obtain b' where "node_by_id g (hd (direct_successors g (node_id a))) = Some b'" "direct_successors g (node_id a) = [node_id b']"
    by (rule m2_target[OF st a(2)])
  with a have succ: "direct_successors g (node_id a) = [node_id b]" by simp
  then have only: "(node_id a, w) \<in> edge_rel g \<longleftrightarrow> w = node_id b" for w
    using direct_neighbours(2)[OF st, of "node_id a"] by auto
  have "blocking_predecessors g (node_id a) (node_id b) = []" using a(2) succ by (simp add: m2_fits_def)
  moreover have "b \<in> set (nodes g)" using a(3) node_by_id_Some[OF st] by blast
  ultimately show ?thesis using a(1) only blocking_guard[OF st] by (auto simp: mergeable_def)
qed

lemma find_rule_spec:
  assumes st: "structure_ok g"
  shows "case find_rule g of
       Inl _ \<Rightarrow> False
     | Inr None \<Rightarrow> (\<forall>e\<in>set (edges g). \<forall>a b. m1_pair g e = Some (a, b) \<longrightarrow> \<not> m1_fits g a b) \<and> (\<forall>n\<in>set (nodes g). \<not> m2_fits g n)
     | Inr (Some (r, a, b)) \<Rightarrow> mergeable g a b"
  using find_m1_in_spec[OF st, of "edges g"] find_m2_in_spec[OF st, of "nodes g"] m1_mergeable[OF st] m2_mergeable[OF st]
  by (auto simp: find_rule_def find_m1_def find_m2_def split: sum.splits option.splits)

lemma apply_merge_keeps_order_aux:
  assumes "structure_ok g" "acyclic (edge_rel g)" "mergeable g a b"
    "apply_merge g a b parts conventions = Some (g', z, parts')"
  shows "structure_ok g' \<and> acyclic (edge_rel g') \<and> set (node_ids g') = set (node_ids g) - {node_id a, node_id b} \<union> {z}
    \<and> (\<forall>i\<in>set (node_ids g) - {node_id a, node_id b}. \<forall>j\<in>set (node_ids g) - {node_id a, node_id b}.
         (j \<in> anc g' i \<longleftrightarrow> j \<in> anc g i) \<and> (j \<in> anc g' z \<longleftrightarrow> j \<in> anc g (node_id a))
         \<and> (z \<in> anc g' j \<longleftrightarrow> node_id b \<in> anc g j))"
proof -
  let ?x = "node_id a" and ?y = "node_id b"
  note m = assms(3)
  then have xy: "(?x, ?y) \<in> edge_rel g" and p: "\<And>p. (p, ?y) \<in> edge_rel g \<Longrightarrow> p = ?x \<or> (p, ?x) \<in> (edge_rel g)\<^sup>+"
    and s: "\<And>w. (?x, w) \<in> edge_rel g \<Longrightarrow> w = ?y \<or> (?y, w) \<in> (edge_rel g)\<^sup>+" by (auto simp: mergeable_def)
  have "a \<in> set (nodes g)" "b \<in> set (nodes g)" "?x \<noteq> ?y" using m edge_rel_irrefl by (auto simp: mergeable_def)
  from apply_merge_structure[OF assms(1) this, of parts conventions] assms(4)
  have g': "z \<notin> set (node_ids g) - {?x, ?y}" "set (node_ids g') = set (node_ids g) - {?x, ?y} \<union> {z}" "structure_ok g'"
    "edge_rel g' = contracted ?x ?y z (edge_rel g)" by auto
  have fresh: "z \<notin> Field (edge_rel g) - {?x, ?y}" using g'(1) edge_rel_ids[of g] by (auto simp: Field_def)
  note c = contracted_order[OF assms(2) xy p fresh] contracted_delay[OF assms(2) xy p fresh s]
  have "acyclic (edge_rel g')" unfolding g'(4) by (rule contracted_acyclic[OF assms(2) xy p fresh])
  moreover have "(j \<in> anc g' i \<longleftrightarrow> j \<in> anc g i) \<and> (j \<in> anc g' z \<longleftrightarrow> j \<in> anc g ?x) \<and> (z \<in> anc g' j \<longleftrightarrow> ?y \<in> anc g j)"
    if "i \<in> set (node_ids g) - {?x, ?y}" "j \<in> set (node_ids g) - {?x, ?y}" for i j
  proof -
    have "i \<notin> {?x, ?y, z}" "j \<notin> {?x, ?y, z}" using that g'(1) by auto
    then show ?thesis using c(1)[of j i] c(2)[of j j] c(3)[of j] by (simp add: anc_trancl g'(4))
  qed
  ultimately show ?thesis using g' by blast
qed

text \<open>C26: A merge that a rule of the revision picks keeps the plan sound and acyclic. Among the other nodes it keeps exactly
  the order there was; the merged node waits for exactly what its first member waited for; and a node waits
  for the merged node exactly if it already waited for the second member, so no other node starts later.\<close>

theorem apply_merge_keeps_order:
  assumes "structure_ok g" "acyclic (edge_rel g)" "find_rule g = Inr (Some (rule, a, b))"
    "apply_merge g a b parts conventions = Some (g', z, parts')"
  shows "structure_ok g' \<and> acyclic (edge_rel g') \<and> set (node_ids g') = set (node_ids g) - {node_id a, node_id b} \<union> {z}
    \<and> (\<forall>i\<in>set (node_ids g) - {node_id a, node_id b}. \<forall>j\<in>set (node_ids g) - {node_id a, node_id b}.
         (j \<in> anc g' i \<longleftrightarrow> j \<in> anc g i) \<and> (j \<in> anc g' z \<longleftrightarrow> j \<in> anc g (node_id a))
         \<and> (z \<in> anc g' j \<longleftrightarrow> node_id b \<in> anc g j))"
proof (rule apply_merge_keeps_order_aux[OF assms(1,2) _ assms(4)])
  show "mergeable g a b" using find_rule_spec[OF assms(1)] assms(3) by simp
qed

section \<open>The merged node\<close>

lemma py_strip_nonempty:
  assumes "c \<in> set s" "\<not> char_isspace c"
  shows "py_strip s \<noteq> []"
proof -
  have l: "\<exists>x\<in>set (dropWhile char_isspace t). \<not> char_isspace x" if "\<exists>x\<in>set t. \<not> char_isspace x" for t
    using that by (induction t) auto
  from assms have "\<exists>x\<in>set (py_lstrip s). \<not> char_isspace x" unfolding py_lstrip_def by (intro l) auto
  then have "\<exists>x\<in>set (rev (py_lstrip s)). \<not> char_isspace x" by simp
  from l[OF this] show ?thesis
    by (cases "dropWhile char_isspace (rev (py_lstrip s))") (auto simp: py_strip_def py_rstrip_def)
qed

lemma merged_goal_not_blank: "py_strip (merged_goal parts conventions) \<noteq> []"
proof -
  let ?t = "py_join (newline @ newline)
       ((''This sub-task combines '' @ nat_str (length parts) @ '' parts. Do them all, in this order.'')
        # map numbered_part (zip [1..<length parts + 1] parts))"
  have T: "\<not> char_isspace (CHR ''T'')" "\<not> char_isspace (CHR ''R'')" by (simp_all add: char_isspace_def)
  have j: "CHR ''T'' \<in> set (py_join sep ((''This'' @ xs) # ys))" for sep xs ys by (cases ys) simp_all
  have "CHR ''T'' \<in> set ?t"
    using j[of "newline @ newline" "'' sub-task combines '' @ nat_str (length parts) @ '' parts. Do them all, in this order.''"] by simp
  then show ?thesis
    using T py_strip_nonempty[of "CHR ''T''" ?t] py_strip_nonempty[of "CHR ''R''" "goal_with_conventions ?t conventions"]
    by (cases "convention_items conventions = []")
      (auto simp: merged_goal_def goal_with_conventions_def CONVENTIONS_HEADING_def Let_def)
qed

lemma unique_valid:
  "unique_paths_valid ps \<longleftrightarrow> list_all (\<lambda>p. isr (validate_repo_path p)) ps \<and> distinct ps"
  "unique_symbols_valid ps \<longleftrightarrow> list_all (\<lambda>p. isr (validate_symbol p)) ps \<and> distinct ps"
  by (simp_all add: unique_paths_valid_def unique_symbols_valid_def reject_duplicate_paths_def reject_duplicate_symbols_def)

text \<open>Merging two valid nodes gives a valid node: \<open>Node(...)\<close> and \<open>Graph.model_validate\<close> do not raise.\<close>

lemma merge_nodes_valid:
  assumes "node_valid a" "node_valid b" "node_id_valid z"
  shows "node_valid (merge_nodes a b parts z conventions)"
  unfolding node_valid_def
proof (intro conjI)
  let ?m = "merge_nodes a b parts z conventions"
  show "node_id_valid (node_id ?m)" using assms(3) by (simp add: merge_nodes_def Let_def)
  show "isr (goal_not_blank (goal ?m))"
    by (simp add: goal_not_blank_def merge_nodes_def Let_def merged_goal_not_blank)
  show "edit_set_valid (node_edit_set ?m)"
    using assms(1,2) by (auto simp: node_valid_def edit_set_valid_def unique_valid merge_nodes_def Let_def list_all_iff)
  show "unique_symbols_valid (requires ?m)" "unique_symbols_valid (requires_impl ?m)" "unique_symbols_valid (provides ?m)"
    using assms(1,2) by (auto simp: node_valid_def unique_valid merge_nodes_def Let_def list_all_iff)
  show "check_valid (node_check ?m)"
    using assms(1,2) by (auto simp: node_valid_def check_valid_def merge_nodes_def Let_def)
  show "list_all (\<lambda>r. isr (validate_context_ref r)) (context_files ?m)" "isr (reject_duplicate_paths (context_files ?m))"
    using assms(1,2) by (auto simp: node_valid_def reject_duplicate_paths_def merge_nodes_def Let_def list_all_iff)
  show "isr (requires_and_requires_impl_disjoint ?m)"
    by (auto simp: merge_nodes_def Let_def)
qed

lemma merge_nodes_files: "edit_files (merge_nodes a b parts z conventions) = edit_files a \<union> edit_files b"
  by (auto simp: edit_files_def merge_nodes_def Let_def)

lemma id_char_digits: "list_all (\<lambda>c. let n = cp c in
     (65 \<le> n \<and> n \<le> 90) \<or> (97 \<le> n \<and> n \<le> 122) \<or> (48 \<le> n \<and> n \<le> 57) \<or> c = CHR ''_'' \<or> c = CHR ''-'') (nat_str n)"
proof (induction n rule: nat_str.induct)
  case (1 n)
  have d: "let m = cp (digit_char k) in (65 \<le> m \<and> m \<le> 90) \<or> (97 \<le> m \<and> m \<le> 122) \<or> (48 \<le> m \<and> m \<le> 57)
      \<or> digit_char k = CHR ''_'' \<or> digit_char k = CHR ''-''" if "k < 10" for k
    using that by (simp add: digit_char_def Let_def)
  show ?case
  proof (cases "n < 10")
    case True
    then show ?thesis by (subst nat_str.simps) (simp add: d[simplified Let_def] Let_def)
  next
    case False
    with 1 show ?thesis by (subst nat_str.simps) (simp add: d[simplified Let_def] Let_def)
  qed
qed

lemma node_id_valid_join: "ids \<noteq> [] \<Longrightarrow> list_all node_id_valid ids \<Longrightarrow> node_id_valid (py_join ''_'' ids)"
proof (induction "''_''" ids rule: py_join.induct)
  case (3 x y ys)
  then have "node_id_valid x" "node_id_valid (py_join ''_'' (y # ys))" by simp_all
  then show ?case by (simp add: node_id_valid_def)
qed simp_all

lemma new_id_from_valid:
  "node_id_valid base \<Longrightarrow> node_id_valid c \<Longrightarrow> new_id_from fuel base taken c k = Some i \<Longrightarrow> node_id_valid i"
proof (induction fuel arbitrary: c k)
  case (Suc fuel)
  have "node_id_valid (base @ ''_'' @ nat_str k)"
    using Suc.prems(1) id_char_digits[of k] by (simp add: node_id_valid_def)
  with Suc show ?case by (auto split: if_splits)
qed (auto split: if_splits)

lemma new_id_valid: "ids \<noteq> [] \<Longrightarrow> list_all node_id_valid ids \<Longrightarrow> new_id_of ids taken = Some i \<Longrightarrow> node_id_valid i"
  unfolding new_id_of_def Let_def by (rule new_id_from_valid[OF node_id_valid_join node_id_valid_join])

section \<open>The loop\<close>

definition parts_ok :: "graph \<Rightarrow> part list dict \<Rightarrow> bool" where
  "parts_ok g parts = (\<forall>i\<in>set (node_ids g). \<exists>ps. map_of parts i = Some ps \<and> ps \<noteq> [] \<and> list_all (\<lambda>p. node_id_valid (part_id p)) ps)"

lemma parts_ok_get:
  assumes "parts_ok g parts" "i \<in> set (node_ids g)"
  shows "dict_get parts i [] \<noteq> []" "list_all (\<lambda>p. node_id_valid (part_id p)) (dict_get parts i [])"
  using assms by (auto simp: parts_ok_def dict_get_def)

definition revising :: "graph \<Rightarrow> revised \<Rightarrow> bool" where
  "revising g s = (structure_ok (rv_graph s) \<and> acyclic (edge_rel (rv_graph s)) \<and> graph_valid (rv_graph s)
     \<and> parts_ok (rv_graph s) (rv_parts s)
     \<and> \<Union> (edit_files ` set (nodes (rv_graph s))) = \<Union> (edit_files ` set (nodes g))
     \<and> length (nodes (rv_graph s)) + length (rv_merges s) = length (nodes g))"

lemma map_of_delete_other: "k \<noteq> j \<Longrightarrow> map_of (dict_pop k d) j = map_of d j"
  by (simp add: delete_conv')

lemma apply_parts:
  assumes "apply_merge g a b parts conventions = Some (g', z, parts')"
  shows "map_of parts' z = Some (dict_get parts (node_id a) [] @ dict_get parts (node_id b) [])"
    "j \<notin> {node_id a, node_id b, z} \<Longrightarrow> map_of parts' j = map_of parts j"
  using assms by (auto simp: apply_merge_def Let_def update_conv' map_of_delete_other split: option.splits)

lemma revise_step_sound:
  assumes inv: "revising g s"
  shows "case revise_step conventions s of
       Inl _ \<Rightarrow> False
     | Inr None \<Rightarrow> find_rule (rv_graph s) = Inr None
     | Inr (Some s') \<Rightarrow> revising g s' \<and> length (nodes (rv_graph s')) < length (nodes (rv_graph s))"
proof -
  let ?g = "rv_graph s"
  have st: "structure_ok ?g" and ac: "acyclic (edge_rel ?g)" and gv: "graph_valid ?g" and po: "parts_ok ?g (rv_parts s)"
    using inv by (auto simp: revising_def)
  show ?thesis
  proof (cases "find_rule ?g")
    case (Inl err)
    then show ?thesis using find_rule_spec[OF st] by simp
  next
    case (Inr r)
    show ?thesis
    proof (cases r)
      case None
      with Inr show ?thesis by (simp add: revise_step_def)
    next
      case (Some t)
      obtain rule a b where t: "t = (rule, a, b)" by (cases t)
      have fr: "find_rule ?g = Inr (Some (rule, a, b))" using Inr Some t by simp
      have m: "mergeable ?g a b" using find_rule_spec[OF st] fr by simp
      then have ab: "a \<in> set (nodes ?g)" "b \<in> set (nodes ?g)" "node_id a \<noteq> node_id b"
        using edge_rel_irrefl by (auto simp: mergeable_def)
      define c where "c = dict_get (rv_parts s) (node_id a) [] @ dict_get (rv_parts s) (node_id b) []"
      obtain z g' parts' where ap: "apply_merge ?g a b (rv_parts s) conventions = Some (g', z, parts')"
        "z \<notin> set (node_ids ?g) - {node_id a, node_id b}"
        "nodes g' = replace_members {node_id a, node_id b} (merge_nodes a b c z conventions) (nodes ?g) False"
        "new_id_of (map part_id c) (filter (\<lambda>i. i \<notin> {node_id a, node_id b}) (node_ids ?g)) = Some z"
        "set (node_ids g') = set (node_ids ?g) - {node_id a, node_id b} \<union> {z}"
        "length (nodes g') + 1 = length (nodes ?g)" "structure_ok g'"
        unfolding c_def by (rule apply_merge_structure[OF st ab, of "rv_parts s" conventions]) blast
      have mem: "node_id a \<in> set (node_ids ?g)" "node_id b \<in> set (node_ids ?g)" using ab by (auto simp: node_ids_def)
      have cv: "c \<noteq> []" "list_all (\<lambda>p. node_id_valid (part_id p)) c"
        using parts_ok_get[OF po mem(1)] parts_ok_get[OF po mem(2)] by (simp_all add: c_def)
      have zv: "node_id_valid z" by (rule new_id_valid[OF _ _ ap(4)]) (use cv in \<open>auto simp: list_all_iff\<close>)
      have mid: "node_id (merge_nodes a b c z conventions) = z" by (simp add: merge_nodes_def Let_def)
      have ids: "node_id ` set (nodes ?g) = set (node_ids ?g)" by (simp add: node_ids_def)
      have ns: "set (nodes g') = {n \<in> set (nodes ?g). node_id n \<notin> {node_id a, node_id b}} \<union> {merge_nodes a b c z conventions}"
        unfolding ap(3) using ap(2) mem by (subst replace_members_set) (auto simp: mid ids)
      have nv: "\<forall>n\<in>set (nodes ?g). node_valid n" using gv by (simp add: graph_valid_def list_all_iff)
      have gv': "graph_valid g'"
        using nv ab merge_nodes_valid[of a b z c conventions] zv ns
        by (auto simp: graph_valid_def list_all_iff)
      have po': "parts_ok g' parts'"
        unfolding parts_ok_def
      proof
        fix i assume "i \<in> set (node_ids g')"
        then consider "i = z" | "i \<noteq> z" "i \<in> set (node_ids ?g)" "i \<notin> {node_id a, node_id b}" using ap(5) by auto
        then show "\<exists>ps. map_of parts' i = Some ps \<and> ps \<noteq> [] \<and> list_all (\<lambda>p. node_id_valid (part_id p)) ps"
        proof cases
          case 1
          then show ?thesis using apply_parts(1)[OF ap(1)] cv by (simp add: c_def)
        next
          case 2
          then have "map_of parts' i = map_of (rv_parts s) i" using apply_parts(2)[OF ap(1), of i] by auto
          then show ?thesis using po 2(2) by (auto simp: parts_ok_def)
        qed
      qed
      have ac': "acyclic (edge_rel g')" using apply_merge_keeps_order_aux[OF st ac m ap(1)] by blast
      have uniq: "n = a" if "n \<in> set (nodes ?g)" "node_id n = node_id a" for n
        using that ab st unfolding structure_ok_def node_ids_def distinct_map by (metis inj_onD)
      have uniqb: "n = b" if "n \<in> set (nodes ?g)" "node_id n = node_id b" for n
        using that ab st unfolding structure_ok_def node_ids_def distinct_map by (metis inj_onD)
      have "\<Union> (edit_files ` set (nodes g')) = \<Union> (edit_files ` set (nodes ?g))"
        unfolding ns using ab uniq uniqb by (auto simp: merge_nodes_files)
      with inv ap(6,7) ac' gv' po' show ?thesis
        by (simp add: revise_step_def fr ap(1) revising_def)
    qed
  qed
qed

lemma revise_loop_sound:
  "revising g s \<Longrightarrow> length (nodes (rv_graph s)) < fuel \<Longrightarrow>
   \<exists>r. revise_loop fuel conventions s = Inr r \<and> revising g r \<and> find_rule (rv_graph r) = Inr None"
proof (induction fuel arbitrary: s)
  case (Suc fuel)
  show ?case
  proof (cases "revise_step conventions s")
    case (Inl err)
    then show ?thesis using revise_step_sound[OF Suc.prems(1), of conventions] by simp
  next
    case (Inr r)
    with revise_step_sound[OF Suc.prems(1), of conventions] Suc.prems Suc.IH show ?thesis
      by (cases r) auto
  qed
qed simp


lemma fold_dict_set_get:
  "map_of (fold (\<lambda>n. dict_set (node_id n) (f n)) ns d) i =
     (case find (\<lambda>n. node_id n = i) (rev ns) of Some n \<Rightarrow> Some (f n) | None \<Rightarrow> map_of d i)"
  by (induction ns rule: rev_induct) (auto simp: update_conv' split: option.splits)

lemma find_hit: "find P xs = Some x \<Longrightarrow> x \<in> set xs \<and> P x"
  by (induction xs) (auto split: if_splits)

lemma init_revising:
  assumes "structure_ok g" "acyclic (edge_rel g)" "graph_valid g"
  shows "revising g (init_revised g conventions)"
proof -
  have "parts_ok g (rv_parts (init_revised g conventions))"
    unfolding parts_ok_def
  proof
    fix i assume i: "i \<in> set (node_ids g)"
    then obtain n where n: "find (\<lambda>n. node_id n = i) (rev (nodes g)) = Some n"
      by (cases "find (\<lambda>n. node_id n = i) (rev (nodes g))") (auto simp: node_ids_def find_None_iff)
    have "n \<in> set (rev (nodes g)) \<and> node_id n = i" using n by (rule find_hit)
    then have "n \<in> set (nodes g)" "node_id n = i" by simp_all
    then have "node_id_valid (node_id n)" using assms(3) by (auto simp: graph_valid_def node_valid_def list_all_iff)
    then show "\<exists>ps. map_of (rv_parts (init_revised g conventions)) i = Some ps \<and> ps \<noteq> [] \<and> list_all (\<lambda>p. node_id_valid (part_id p)) ps"
      using n by (simp add: init_revised_def fold_dict_set_get)
  qed
  then show ?thesis using assms by (simp add: revising_def init_revised_def)
qed

lemma not_merged_in_total:
  assumes "structure_ok g"
  shows "set es \<subseteq> set (edges g) \<Longrightarrow> \<exists>left. not_merged_in g es seen = Inr left"
proof (induction es arbitrary: seen)
  case (Cons e es)
  have "e \<in> set (edges g)" using Cons.prems by simp
  then obtain a b where ab: "m1_pair g e = Some (a, b)" by (rule m1_pair_Some[OF assms])
  have "\<exists>left. not_merged_in g es seen' = Inr left" for seen' using Cons by simp
  then have "\<exists>f. \<forall>seen'. not_merged_in g es seen' = Inr (f seen')" by metis
  then obtain f where "\<And>seen'. not_merged_in g es seen' = Inr (f seen')" by blast
  with ab show ?case by (auto simp: Let_def)
qed simp

lemma revision_log_frame:
  "structure_ok (g\<lparr>revision_log := l\<rparr>) = structure_ok g" "edge_rel (g\<lparr>revision_log := l\<rparr>) = edge_rel g"
  "graph_valid (g\<lparr>revision_log := l\<rparr>) = graph_valid g" "find_rule (g\<lparr>revision_log := l\<rparr>) = find_rule g"
proof -
  let ?h = "g\<lparr>revision_log := l\<rparr>"
  have "usable_edges ?h = usable_edges g" by (simp add: usable_edges_def node_ids_def)
  then show r: "edge_rel ?h = edge_rel g" by (simp add: edge_rel_def)
  show "structure_ok ?h = structure_ok g" by (simp add: structure_ok_def node_ids_def)
  show "graph_valid ?h = graph_valid g" by (simp add: graph_valid_def)
  have a: "anc ?h i = anc g i" for i by (simp add: anc_trancl r)
  have b: "blocking_predecessors ?h i j = blocking_predecessors g i j" "delayed_successors ?h i j = delayed_successors g i j" for i j
    by (simp_all add: blocking_predecessors_def delayed_successors_def direct_predecessors_def direct_successors_def a)
  have n: "node_by_id ?h i = node_by_id g i" for i by (simp add: node_by_id_def)
  have "find_m1_in ?h es = find_m1_in g es" for es
    by (induction es) (simp_all add: m1_pair_def m1_fits_def b n cong: if_cong split: option.splits)
  moreover have "find_m2_in ?h ns = find_m2_in g ns" for ns
    by (induction ns) (simp_all add: m2_fits_def b n direct_successors_def)
  ultimately show "find_rule ?h = find_rule g" by (simp add: find_rule_def find_m1_def find_m2_def split: sum.splits option.splits)
qed

lemma revise_graph_sound_aux:
  assumes "structure_ok g" "acyclic (edge_rel g)" "graph_valid g"
  shows "\<exists>r left. revise_graph g conventions = Inr (r, left) \<and> revising g r \<and> find_rule (rv_graph r) = Inr None"
proof -
  obtain s where s: "revise_loop (length (nodes g) + 1) conventions (init_revised g conventions) = Inr s" "revising g s"
    "find_rule (rv_graph s) = Inr None"
    using revise_loop_sound[OF init_revising[OF assms], of conventions "length (nodes g) + 1" conventions]
    by (auto simp: init_revised_def)
  obtain left where "not_merged_in (rv_graph s) (edges (rv_graph s)) [] = Inr left"
    using not_merged_in_total[of "rv_graph s" "edges (rv_graph s)" "[]"] s(2) by (auto simp: revising_def)
  moreover have "revising g (s\<lparr>rv_entries := es, rv_graph := (rv_graph s)\<lparr>revision_log := l\<rparr>\<rparr>)" for es l
    using s(2) by (simp add: revising_def revision_log_frame parts_ok_def node_ids_def)
  moreover have "revising g (s\<lparr>rv_entries := es\<rparr>)" for es using s(2) by (simp add: revising_def)
  ultimately show ?thesis using s(1,3) by (auto simp: revise_graph_def Let_def revision_log_frame)
qed

text \<open>C25: Revising a sound plan always ends and never raises. The revised plan is sound, acyclic and valid again,
  neither rule fits it any more, every merge removed exactly one node, and together its nodes edit exactly the files
  the nodes of the given plan edited.\<close>

theorem revise_graph_sound:
  assumes "structure_ok g" "acyclic (edge_rel g)" "graph_valid g"
  shows "\<exists>r left. revise_graph g conventions = Inr (r, left)
    \<and> structure_ok (rv_graph r) \<and> acyclic (edge_rel (rv_graph r)) \<and> graph_valid (rv_graph r)
    \<and> find_rule (rv_graph r) = Inr None
    \<and> length (nodes (rv_graph r)) + length (rv_merges r) = length (nodes g)
    \<and> \<Union> (edit_files ` set (nodes (rv_graph r))) = \<Union> (edit_files ` set (nodes g))"
  using revise_graph_sound_aux[OF assms, of conventions] unfolding revising_def by blast

section \<open>Conventions\<close>

lemma py_rstrip_no_tail: "py_rstrip (py_rstrip s) = py_rstrip s"
  by (simp add: py_rstrip_def dropWhile_idem)

text \<open>Taking the conventions off a goal undoes putting them on: it gives the goal back, less
  its trailing white space when there are conventions at all.\<close>

theorem goal_conventions_roundtrip:
  "goal_without_conventions (goal_with_conventions s conventions) conventions
     = (if convention_items conventions = [] then s else py_rstrip s)"
proof (cases "convention_items conventions = []")
  case True
  then show ?thesis by (simp add: goal_without_conventions_def goal_with_conventions_def)
next
  case False
  let ?x = "goal_with_conventions [] conventions"
  have "goal_with_conventions s conventions = py_rstrip s @ ?x" "?x \<noteq> []"
    using False by (simp_all add: goal_with_conventions_def Let_def py_rstrip_def newline_def)
  then show ?thesis using False
    by (simp add: goal_without_conventions_def Let_def py_endswith_def py_startswith_def py_rstrip_no_tail)
qed

end
