(* ===== verification/Revise_Witness.thy ===== *)
theory Revise_Witness
  imports Revise_Props Fixtures
begin

text \<open>
  The revision on a concrete plan: a contract \<open>A\<close> whose only successor is \<open>B\<close>, and an unrelated \<open>C\<close>.
\<close>

definition chain_graph :: graph where
  "chain_graph = mk_graph [toy_A, toy_B, toy_C] [\<lparr>e_from = ''A'', e_to = ''B'', edge_type = Full, edge_source = From_derived, edge_reason = ''r''\<rparr>]"

lemma chain_structure: "structure_ok chain_graph"
  by code_simp

lemma chain_edge_rel: "edge_rel chain_graph = {(''A'', ''B'')}"
  by (simp add: edge_rel_def usable_edges_def chain_graph_def toy_defs node_ids_def)

lemma chain_acyclic: "acyclic (edge_rel chain_graph)"
  unfolding chain_edge_rel by (rule wf_acyclic) (simp add: wf_insert)

lemma chain_valid: "graph_valid chain_graph"
  by code_simp

lemma chain_rule: "find_rule chain_graph = Inr (Some (M2, toy_A, toy_B))"
  by code_simp

theorem apply_merge_keeps_order_witness:
  "\<exists>g' z parts'. apply_merge chain_graph toy_A toy_B [] [] = Some (g', z, parts') \<and> acyclic (edge_rel g')
     \<and> set (node_ids g') = {''C'', z}"
proof -
  have m: "mergeable chain_graph toy_A toy_B" using find_rule_spec[OF chain_structure] chain_rule by simp
  have ab: "toy_A \<in> set (nodes chain_graph)" "toy_B \<in> set (nodes chain_graph)" "node_id toy_A \<noteq> node_id toy_B"
    by (simp_all add: chain_graph_def toy_defs)
  obtain z g' parts' where ap: "apply_merge chain_graph toy_A toy_B [] [] = Some (g', z, parts')"
    by (rule apply_merge_structure[OF chain_structure ab, of "[]" "[]"])
  have ids: "set (node_ids chain_graph) - {node_id toy_A, node_id toy_B} = {''C''}"
    by (auto simp: node_ids_def chain_graph_def toy_defs)
  from apply_merge_keeps_order[OF chain_structure chain_acyclic chain_rule ap] ap show ?thesis
    unfolding ids by auto
qed

theorem revise_graph_sound_witness:
  "structure_ok chain_graph \<and> acyclic (edge_rel chain_graph) \<and> graph_valid chain_graph
   \<and> (\<exists>r left. revise_graph chain_graph [] = Inr (r, left) \<and> graph_valid (rv_graph r) \<and> find_rule (rv_graph r) = Inr None)"
  using revise_graph_sound[OF chain_structure chain_acyclic chain_valid, of "[]"] chain_structure chain_acyclic chain_valid
  by blast

end
