(* ===== verification/Cron.thy ===== *)
theory Cron
  imports Prelude Complex_Main
begin

text \<open>
  The schedule of prompts, \<open>cron.py\<close>: five-field expressions and their validation, the jobs, the two
  durable files, the tick of the scheduler thread and the tools on it.

  \<open>cron_lock\<close> makes each operation one step of \<open>cron_state\<close>; the thread's ticks are steps too. \<open>now\<close>, the
  random number of a new id and the outcome of \<open>float(...)\<close> are arguments. The regular expressions of
  \<open>_looks_like_one_time_request\<close> and \<open>datetime.fromisoformat\<close> are parameters. A durable file holds a list
  of items; an item the class constructor refuses is \<open>None\<close>.
\<close>

section \<open>Integers from text\<close>

text \<open>\<open>int(s)\<close>: white space around, a sign, digits with single underscores between them; more than 4300 digits
  are refused. \<open>None\<close> is the \<open>ValueError\<close>.\<close>

fun int_body :: "bool \<Rightarrow> string \<Rightarrow> string option" where
  "int_body after_digit [] = (if after_digit then Some [] else None)"
| "int_body after_digit (c # cs) =
     (if c = CHR ''_'' then (if after_digit then int_body False cs else None)
      else if char_isdecimal c then map_option (Cons c) (int_body True cs) else None)"

definition int_max_str_digits :: nat where
  "int_max_str_digits = 4300"

definition unsigned_int :: "string \<Rightarrow> int option" where
  "unsigned_int s = (case int_body False s of
     None \<Rightarrow> None
   | Some ds \<Rightarrow> if length ds > int_max_str_digits then None else map_option int (nat_of_str ds))"

definition py_int :: "string \<Rightarrow> int option" where
  "py_int s = (case py_strip s of
     [] \<Rightarrow> None
   | c # cs \<Rightarrow> if c = CHR ''-'' then map_option uminus (unsigned_int cs)
               else if c = CHR ''+'' then unsigned_int cs else unsigned_int (c # cs))"

section \<open>Fields\<close>

text \<open>\<open>s.split(sep, 1)\<close> for a character that is in \<open>s\<close>.\<close>

definition split_once :: "char \<Rightarrow> string \<Rightarrow> string \<times> string" where
  "split_once c s = (takeWhile (\<lambda>x. x \<noteq> c) s, tl (dropWhile (\<lambda>x. x \<noteq> c) s))"

lemma split_from_no_sep: "c \<notin> set cur \<Longrightarrow> p \<in> set (py_split_from [c] cur s) \<Longrightarrow> c \<notin> set p"
proof (induction "[c]" cur s rule: py_split_from.induct)
  case (2 cur x xs)
  then show ?case by (cases "x = c") (auto simp: py_startswith_def)
qed simp

lemma set_py_strip: "set (py_strip s) \<subseteq> set s"
proof
  fix c assume "c \<in> set (py_strip s)"
  then have "c \<in> set (dropWhile char_isspace (rev (py_lstrip s)))" by (simp add: py_strip_def py_rstrip_def)
  then have "c \<in> set (py_lstrip s)" using set_dropWhileD by fastforce
  then show "c \<in> set s" unfolding py_lstrip_def by (rule set_dropWhileD)
qed

lemma split_strip_no_sep: "p \<in> set (py_split s [c]) \<Longrightarrow> c \<notin> set (py_strip p)"
  using split_from_no_sep[of c "[]" p s] set_py_strip[of p] by (auto simp: py_split_def)

text \<open>\<open>any(...)\<close> over calls that may raise: it stops at the first that is true or raises.\<close>

fun any_r :: "('e + bool) list \<Rightarrow> 'e + bool" where
  "any_r [] = Inr False"
| "any_r (r # rs) = (case r of Inl e \<Rightarrow> Inl e | Inr b \<Rightarrow> if b then Inr True else any_r rs)"

lemma any_r_cong [fundef_cong]: "xs = ys \<Longrightarrow> (\<And>x. x \<in> set ys \<Longrightarrow> f x = g x) \<Longrightarrow> any_r (map f xs) = any_r (map g ys)"
  by (metis map_cong)

function cron_field_matches :: "string \<Rightarrow> int \<Rightarrow> string + bool" where
  "cron_field_matches field val =
     (if field = ''*'' then Inr True
      else if py_startswith field ''*/'' then
        (case py_int (drop 2 field) of
           None \<Rightarrow> Inl ''ValueError''
         | Some step \<Rightarrow> Inr (step > 0 \<and> val mod step = 0))
      else if CHR '','' \<in> set field then
        any_r (map (\<lambda>p. cron_field_matches (py_strip p) val) (py_split field '',''))
      else if CHR ''-'' \<in> set field then
        (let (lo, hi) = split_once (CHR ''-'') field in
         case py_int lo of
           None \<Rightarrow> Inl ''ValueError''
         | Some a \<Rightarrow> if \<not> a \<le> val then Inr False
                     else (case py_int hi of None \<Rightarrow> Inl ''ValueError'' | Some b \<Rightarrow> Inr (val \<le> b)))
      else (case py_int field of None \<Rightarrow> Inl ''ValueError'' | Some n \<Rightarrow> Inr (val = n)))"
  by pat_completeness auto
termination
  by (relation "measure (\<lambda>(f, v). if CHR '','' \<in> set f then 1 else 0)") (auto dest: split_strip_no_sep)

declare cron_field_matches.simps [simp del]

text \<open>The first error of a list of checks; \<open>Inl\<close> is an exception.\<close>

fun first_err :: "('e + string option) list \<Rightarrow> 'e + string option" where
  "first_err [] = Inr None"
| "first_err (r # rs) = (case r of Inl e \<Rightarrow> Inl e | Inr (Some m) \<Rightarrow> Inr (Some m) | Inr None \<Rightarrow> first_err rs)"

definition bounds_text :: "int \<Rightarrow> int \<Rightarrow> string" where
  "bounds_text lo hi = '' out of bounds ['' @ int_str lo @ ''-'' @ int_str hi @ '']''"

function validate_cron_field :: "string \<Rightarrow> int \<Rightarrow> int \<Rightarrow> string + string option" where
  "validate_cron_field field lo hi =
     (if field = ''*'' then Inr None
      else if py_startswith field ''*/'' then
        (if \<not> py_isdigit (drop 2 field) then Inr (Some (''Invalid step: '' @ field))
         else case py_int (drop 2 field) of
           None \<Rightarrow> Inl ''ValueError''
         | Some step \<Rightarrow> if step \<le> 0 then Inr (Some (''Invalid step: '' @ field)) else Inr None)
      else if CHR '','' \<in> set field then
        first_err (map (\<lambda>p. validate_cron_field (py_strip p) lo hi) (py_split field '',''))
      else if CHR ''-'' \<in> set field then
        (let (l, r) = split_once (CHR ''-'') field in
         if \<not> py_isdigit l \<or> \<not> py_isdigit r then Inr (Some (''Invalid range: '' @ field))
         else case (py_int l, py_int r) of
           (Some a, Some b) \<Rightarrow>
             if a < lo \<or> a > hi \<or> b < lo \<or> b > hi then Inr (Some (''Range '' @ field @ bounds_text lo hi))
             else if a > b then Inr (Some (''Range start > end: '' @ field)) else Inr None
         | _ \<Rightarrow> Inl ''ValueError'')
      else if \<not> py_isdigit field then Inr (Some (''Invalid field: '' @ field))
      else case py_int field of
        None \<Rightarrow> Inl ''ValueError''
      | Some v \<Rightarrow> if v < lo \<or> v > hi then Inr (Some (''Value '' @ int_str v @ bounds_text lo hi)) else Inr None)"
  by pat_completeness auto
termination
  by (relation "measure (\<lambda>(f, l, h). if CHR '','' \<in> set f then 1 else 0)") (auto dest: split_strip_no_sep)

declare validate_cron_field.simps [simp del]

section \<open>Expressions\<close>

record datetime =
  year :: nat
  month :: nat
  day :: nat
  hour :: nat
  minute :: nat

text \<open>\<open>datetime.weekday()\<close>: the proleptic Gregorian ordinal, Monday is 0.\<close>

definition is_leap :: "nat \<Rightarrow> bool" where
  "is_leap y = (y mod 4 = 0 \<and> (y mod 100 \<noteq> 0 \<or> y mod 400 = 0))"

definition days_before_month :: "nat \<Rightarrow> nat \<Rightarrow> nat" where
  "days_before_month y m = sum_list (take (m - 1) [31, if is_leap y then 29 else 28, 31, 30, 31, 30, 31, 31, 30, 31, 30, 31])"

definition toordinal :: "datetime \<Rightarrow> nat" where
  "toordinal dt = (let y = year dt - 1 in
     y * 365 + y div 4 - y div 100 + y div 400 + days_before_month (year dt) (month dt) + day dt)"

definition weekday :: "datetime \<Rightarrow> nat" where
  "weekday dt = (toordinal dt + 6) mod 7"

definition cron_matches :: "string \<Rightarrow> datetime \<Rightarrow> string + bool" where
  "cron_matches cron_expr dt = (case py_split_ws (py_strip cron_expr) of
     [f_minute, f_hour, f_dom, f_month, f_dow] \<Rightarrow>
       (let dow_val = (weekday dt + 1) mod 7 in
        case cron_field_matches f_minute (int (minute dt)) of Inl e \<Rightarrow> Inl e | Inr m \<Rightarrow>
        (case cron_field_matches f_hour (int (hour dt)) of Inl e \<Rightarrow> Inl e | Inr h \<Rightarrow>
        (case cron_field_matches f_dom (int (day dt)) of Inl e \<Rightarrow> Inl e | Inr dom_ok \<Rightarrow>
        (case cron_field_matches f_month (int (month dt)) of Inl e \<Rightarrow> Inl e | Inr month_ok \<Rightarrow>
        (case cron_field_matches f_dow (int dow_val) of Inl e \<Rightarrow> Inl e | Inr dow_ok \<Rightarrow>
           Inr (if \<not> (m \<and> h \<and> month_ok) then False
                else if f_dom = ''*'' \<and> f_dow = ''*'' then True
                else if f_dom = ''*'' then dow_ok
                else if f_dow = ''*'' then dom_ok
                else dom_ok \<or> dow_ok))))))
   | _ \<Rightarrow> Inr False)"

definition cron_bounds :: "((int \<times> int) \<times> string) list" where
  "cron_bounds = [((0, 59), ''minute''), ((0, 23), ''hour''), ((1, 31), ''day-of-month''), ((1, 12), ''month''),
     ((0, 6), ''day-of-week'')]"

definition validate_named_field :: "string \<times> (int \<times> int) \<times> string \<Rightarrow> string + string option" where
  "validate_named_field x = (case x of (field, (lo, hi), nm) \<Rightarrow>
     case validate_cron_field field lo hi of
       Inr (Some err) \<Rightarrow> Inr (Some (nm @ '': '' @ err)) | r \<Rightarrow> r)"

definition validate_cron :: "string \<Rightarrow> string + string option" where
  "validate_cron cron_expr = (let fields = py_split_ws (py_strip cron_expr) in
     if length fields \<noteq> 5 then Inr (Some (''Expected 5 fields, got '' @ nat_str (length fields)))
     else first_err (map validate_named_field (zip fields cron_bounds)))"

section \<open>Jobs and state\<close>

text \<open>A Python float; arithmetic on finite values is exact here.\<close>

datatype pyfloat = Fin rat | Pos_inf | Neg_inf | Nan

fun fl_le :: "pyfloat \<Rightarrow> pyfloat \<Rightarrow> bool" where
  "fl_le Nan y = False"
| "fl_le x Nan = False"
| "fl_le (Fin a) (Fin b) = (a \<le> b)"
| "fl_le Neg_inf y = True"
| "fl_le x Pos_inf = True"
| "fl_le x y = False"

definition fl_lt :: "pyfloat \<Rightarrow> pyfloat \<Rightarrow> bool" where
  "fl_lt x y = (fl_le x y \<and> \<not> fl_le y x)"

fun fl_add :: "pyfloat \<Rightarrow> pyfloat \<Rightarrow> pyfloat" where
  "fl_add Nan y = Nan"
| "fl_add x Nan = Nan"
| "fl_add (Fin a) (Fin b) = Fin (a + b)"
| "fl_add (Fin a) y = y"
| "fl_add x (Fin b) = x"
| "fl_add Pos_inf Neg_inf = Nan"
| "fl_add Neg_inf Pos_inf = Nan"
| "fl_add x y = x"

record cron_job =
  job_id :: string
  cron :: string
  prompt :: string
  recurring :: bool
  durable :: bool

record once_job =
  once_id :: string
  run_at :: pyfloat
  once_prompt :: string
  once_durable :: bool

datatype queued = Queued_cron cron_job | Queued_once once_job

text \<open>A durable file: absent, not a JSON list, or its items.\<close>

datatype 'j job_file = Missing | Unreadable | Items "'j option list"

record cron_state =
  scheduled_jobs :: "cron_job dict"
  scheduled_once_jobs :: "once_job dict"
  cron_queue :: "queued list"
  last_fired :: "string dict"
  cron_file :: "cron_job job_file"
  once_file :: "once_job job_file"
  disk_writable :: bool
  thread_alive :: bool
  stop_flag :: bool

text \<open>\<open>write_text\<close> raises when the file cannot be opened.\<close>

definition save_durable_jobs :: "cron_state \<Rightarrow> string + cron_state" where
  "save_durable_jobs s = (if disk_writable s
     then Inr (s\<lparr>cron_file := Items (map Some (filter durable (map snd (scheduled_jobs s))))\<rparr>) else Inl ''OSError'')"

definition save_durable_once_jobs :: "cron_state \<Rightarrow> string + cron_state" where
  "save_durable_once_jobs s = (if disk_writable s
     then Inr (s\<lparr>once_file := Items (map Some (filter once_durable (map snd (scheduled_once_jobs s))))\<rparr>) else Inl ''OSError'')"

text \<open>\<open>except Exception: pass\<close> ends the loading at the first item that raises.\<close>

fun load_items :: "cron_job option list \<Rightarrow> cron_job dict \<Rightarrow> cron_job dict" where
  "load_items [] js = js"
| "load_items (None # rest) js = js"
| "load_items (Some job # rest) js = (case validate_cron (cron job) of
     Inl e \<Rightarrow> js
   | Inr None \<Rightarrow> load_items rest (dict_set (job_id job) job js)
   | Inr (Some err) \<Rightarrow> load_items rest js)"

definition load_durable_jobs :: "cron_state \<Rightarrow> cron_state" where
  "load_durable_jobs s = (case cron_file s of
     Items xs \<Rightarrow> s\<lparr>scheduled_jobs := load_items xs (scheduled_jobs s)\<rparr> | _ \<Rightarrow> s)"

text \<open>The jobs, whether one was late, and whether the loop ended without an exception.\<close>

fun load_once_items :: "pyfloat \<Rightarrow> once_job option list \<Rightarrow> once_job dict \<Rightarrow> bool \<Rightarrow> once_job dict \<times> bool \<times> bool" where
  "load_once_items now [] js changed = (js, changed, True)"
| "load_once_items now (None # rest) js changed = (js, changed, False)"
| "load_once_items now (Some job # rest) js changed =
     (if fl_lt now (run_at job) then load_once_items now rest (dict_set (once_id job) job js) changed
      else load_once_items now rest js True)"

definition load_durable_once_jobs :: "pyfloat \<Rightarrow> cron_state \<Rightarrow> cron_state" where
  "load_durable_once_jobs now s = (case once_file s of
     Items xs \<Rightarrow> (case load_once_items now xs (scheduled_once_jobs s) False of (js, changed, ended) \<Rightarrow>
       let s1 = s\<lparr>scheduled_once_jobs := js\<rparr> in
       if ended \<and> changed then (case save_durable_once_jobs s1 of Inl e \<Rightarrow> s1 | Inr s2 \<Rightarrow> s2) else s1)
   | _ \<Rightarrow> s)"

section \<open>Operations\<close>

datatype 'j reply = Refused string | Stored 'j

text \<open>Each operation gives the state it leaves and its reply, or the exception that escapes it
  (the state is as far as it came).\<close>

definition schedule_job :: "nat \<Rightarrow> string \<Rightarrow> string \<Rightarrow> bool \<Rightarrow> bool \<Rightarrow> cron_state \<Rightarrow> cron_state \<times> (string + cron_job reply)" where
  "schedule_job n cron_expr body is_recurring is_durable s = (case validate_cron cron_expr of
     Inl e \<Rightarrow> (s, Inl e)
   | Inr (Some err) \<Rightarrow> (s, Inr (Refused err))
   | Inr None \<Rightarrow>
       let job = \<lparr>job_id = ''cron_'' @ pad_zeros 6 (nat_str n), cron = cron_expr, prompt = body,
                  recurring = is_recurring, durable = is_durable\<rparr>;
           s1 = s\<lparr>scheduled_jobs := dict_set (job_id job) job (scheduled_jobs s)\<rparr>
       in if is_durable then (case save_durable_jobs s1 of Inl e \<Rightarrow> (s1, Inl e) | Inr s2 \<Rightarrow> (s2, Inr (Stored job)))
          else (s1, Inr (Stored job)))"

definition INVALID_RUN_AT :: string where
  "INVALID_RUN_AT = ''Invalid run_at. Use ISO/local format like 2026-07-06 16:30 or 2026-07-06T16:30:00''"

text \<open>\<open>fromisoformat\<close> gives the time stamp, or \<open>None\<close> for its \<open>ValueError\<close>.\<close>

definition parse_run_at :: "(string \<Rightarrow> pyfloat option) \<Rightarrow> string \<Rightarrow> string + pyfloat" where
  "parse_run_at fromisoformat s = (let t = py_strip s in
     if t = [] then Inl ''run_at is empty''
     else case fromisoformat (if py_endswith t ''Z'' then butlast t @ ''+00:00'' else t) of
       None \<Rightarrow> Inl INVALID_RUN_AT | Some v \<Rightarrow> Inr v)"

text \<open>What \<open>float(delay_seconds)\<close> makes of the argument.\<close>

datatype delay_arg = No_delay | Not_a_number | Delay pyfloat

definition once_target :: "(string \<Rightarrow> pyfloat option) \<Rightarrow> pyfloat \<Rightarrow> delay_arg \<Rightarrow> string option \<Rightarrow> string + pyfloat" where
  "once_target fromisoformat now delay at_text =
     (let no_run_at = (case at_text of None \<Rightarrow> True | Some t \<Rightarrow> t = []) in
      case delay of
        No_delay \<Rightarrow> if no_run_at then Inl ''Provide delay_seconds or run_at'' else parse_run_at fromisoformat (the at_text)
      | _ \<Rightarrow> if \<not> no_run_at then Inl ''Provide only one of delay_seconds or run_at''
             else (case delay of
                     Delay d \<Rightarrow> if fl_lt d (Fin 0) then Inl ''delay_seconds must be >= 0'' else Inr (fl_add now d)
                   | _ \<Rightarrow> Inl ''delay_seconds must be a number''))"

text \<open>\<open>now\<close> is read twice; \<open>later\<close> is the second reading.\<close>

definition schedule_once :: "(string \<Rightarrow> pyfloat option) \<Rightarrow> pyfloat \<Rightarrow> pyfloat \<Rightarrow> nat \<Rightarrow> string \<Rightarrow> delay_arg \<Rightarrow> string option \<Rightarrow>
    bool \<Rightarrow> cron_state \<Rightarrow> cron_state \<times> (string + once_job reply)" where
  "schedule_once fromisoformat now later n body delay at_text is_durable s =
     (case once_target fromisoformat now delay at_text of
        Inl err \<Rightarrow> (s, Inr (Refused err))
      | Inr target \<Rightarrow>
          if fl_le target later then (s, Inr (Refused ''Target time is in the past''))
          else let job = \<lparr>once_id = ''once_'' @ pad_zeros 6 (nat_str n), run_at = target, once_prompt = body,
                           once_durable = is_durable\<rparr>;
                   s1 = s\<lparr>scheduled_once_jobs := dict_set (once_id job) job (scheduled_once_jobs s)\<rparr>
               in if is_durable then (case save_durable_once_jobs s1 of Inl e \<Rightarrow> (s1, Inl e) | Inr s2 \<Rightarrow> (s2, Inr (Stored job)))
                  else (s1, Inr (Stored job)))"

definition cancel_job :: "string \<Rightarrow> cron_state \<Rightarrow> cron_state \<times> (string + string)" where
  "cancel_job i s = (case map_of (scheduled_jobs s) i of
     None \<Rightarrow> (s, Inr (''Job '' @ i @ '' not found''))
   | Some job \<Rightarrow>
       let s1 = s\<lparr>scheduled_jobs := dict_pop i (scheduled_jobs s)\<rparr> in
       if durable job then (case save_durable_jobs s1 of Inl e \<Rightarrow> (s1, Inl e) | Inr s2 \<Rightarrow> (s2, Inr (''Cancelled '' @ i)))
       else (s1, Inr (''Cancelled '' @ i)))"

definition cancel_once_job :: "string \<Rightarrow> cron_state \<Rightarrow> cron_state \<times> (string + string)" where
  "cancel_once_job i s = (case map_of (scheduled_once_jobs s) i of
     None \<Rightarrow> (s, Inr (''Job '' @ i @ '' not found''))
   | Some job \<Rightarrow>
       let s1 = s\<lparr>scheduled_once_jobs := dict_pop i (scheduled_once_jobs s)\<rparr> in
       if once_durable job then (case save_durable_once_jobs s1 of Inl e \<Rightarrow> (s1, Inl e) | Inr s2 \<Rightarrow> (s2, Inr (''Cancelled '' @ i)))
       else (s1, Inr (''Cancelled '' @ i)))"

section \<open>The scheduler thread\<close>

text \<open>\<open>now.strftime("%Y-%m-%d %H:%M")\<close>.\<close>

definition marker_of :: "datetime \<Rightarrow> string" where
  "marker_of dt = nat_str (year dt) @ ''-'' @ pad_zeros 2 (nat_str (month dt)) @ ''-'' @ pad_zeros 2 (nat_str (day dt)) @ '' ''
     @ pad_zeros 2 (nat_str (hour dt)) @ '':'' @ pad_zeros 2 (nat_str (minute dt))"

definition saved :: "(cron_state \<Rightarrow> string + cron_state) \<Rightarrow> cron_state \<Rightarrow> cron_state" where
  "saved save s = (case save s of Inl e \<Rightarrow> s | Inr s' \<Rightarrow> s')"

definition tick_cron_job :: "datetime \<Rightarrow> cron_job \<Rightarrow> cron_state \<Rightarrow> cron_state" where
  "tick_cron_job now job s = (case cron_matches (cron job) now of
     Inl e \<Rightarrow> s
   | Inr b \<Rightarrow>
       if b \<and> map_of (last_fired s) (job_id job) \<noteq> Some (marker_of now)
       then let s1 = s\<lparr>cron_queue := cron_queue s @ [Queued_cron job],
                       last_fired := dict_set (job_id job) (marker_of now) (last_fired s)\<rparr>
            in if recurring job then s1
               else let s2 = s1\<lparr>scheduled_jobs := dict_pop (job_id job) (scheduled_jobs s1)\<rparr>
                    in if durable job then saved save_durable_jobs s2 else s2
       else s)"

definition tick_once_job :: "pyfloat \<Rightarrow> once_job \<Rightarrow> cron_state \<Rightarrow> cron_state" where
  "tick_once_job now job s =
     (if fl_le (run_at job) now
      then let s1 = s\<lparr>scheduled_once_jobs := dict_pop (once_id job) (scheduled_once_jobs s),
                      cron_queue := cron_queue s @ [Queued_once job]\<rparr>
           in if once_durable job then saved save_durable_once_jobs s1 else s1
      else s)"

text \<open>One round of \<open>cron_scheduler_loop\<close>; the clock is read once for the once jobs.\<close>

definition cron_tick :: "datetime \<Rightarrow> pyfloat \<Rightarrow> cron_state \<Rightarrow> cron_state" where
  "cron_tick now clock s =
     (let s1 = fold (tick_cron_job now) (map snd (scheduled_jobs s)) s
      in fold (tick_once_job clock) (map snd (scheduled_once_jobs s1)) s1)"

definition start_scheduler :: "bool \<Rightarrow> pyfloat \<Rightarrow> cron_state \<Rightarrow> cron_state" where
  "start_scheduler load now s =
     (if thread_alive s then s
      else let s1 = s\<lparr>stop_flag := False\<rparr>;
               s2 = (if load then load_durable_once_jobs now (load_durable_jobs s1) else s1)
           in s2\<lparr>thread_alive := True\<rparr>)"

text \<open>\<open>exits\<close>: the thread leaves its loop before the join times out.\<close>

definition stop_scheduler :: "bool \<Rightarrow> cron_state \<Rightarrow> cron_state \<times> bool" where
  "stop_scheduler exits s =
     (let s1 = s\<lparr>stop_flag := True\<rparr> in
      if \<not> thread_alive s1 then (s1, True) else if exits then (s1\<lparr>thread_alive := False\<rparr>, True) else (s1, False))"

definition consume_cron_queue :: "cron_state \<Rightarrow> cron_state \<times> queued list" where
  "consume_cron_queue s = (s\<lparr>cron_queue := []\<rparr>, cron_queue s)"

section \<open>Tools\<close>

definition NOT_REPEATING :: string where
  "NOT_REPEATING = ''Error: schedule_cron is only for repeating 5-field cron tasks. Use schedule_once for one-time or seconds-level tasks.''"

definition run_schedule_cron :: "(string \<Rightarrow> bool) \<Rightarrow> nat \<Rightarrow> string \<Rightarrow> string \<Rightarrow> bool \<Rightarrow> bool \<Rightarrow> cron_state \<Rightarrow>
    cron_state \<times> (string + string)" where
  "run_schedule_cron looks_like_one_time n cron_expr body is_recurring is_durable s =
     (if \<not> is_recurring \<or> looks_like_one_time body then (s, Inr NOT_REPEATING)
      else case schedule_job n cron_expr body is_recurring is_durable s of
        (s1, Inl e) \<Rightarrow> (s1, Inl e)
      | (s1, Inr (Refused err)) \<Rightarrow> (s1, Inr (''Error: '' @ err))
      | (s1, Inr (Stored job)) \<Rightarrow> (s1, Inr (''Scheduled '' @ job_id job @ '': '' @ [CHR 0x27] @ cron_expr @ [CHR 0x27] @ '' -> '' @ body)))"

text \<open>\<open>isoformat\<close> is \<open>datetime.fromtimestamp(t).isoformat(timespec="seconds")\<close>, \<open>Inl\<close> the exception where it raises.\<close>

definition run_schedule_once :: "(string \<Rightarrow> pyfloat option) \<Rightarrow> (pyfloat \<Rightarrow> string + string) \<Rightarrow> pyfloat \<Rightarrow> pyfloat \<Rightarrow> nat \<Rightarrow> string \<Rightarrow>
    delay_arg \<Rightarrow> string option \<Rightarrow> bool \<Rightarrow> cron_state \<Rightarrow> cron_state \<times> (string + string)" where
  "run_schedule_once fromisoformat isoformat now later n body delay at_text is_durable s =
     (case schedule_once fromisoformat now later n body delay at_text is_durable s of
        (s1, Inl e) \<Rightarrow> (s1, Inl e)
      | (s1, Inr (Refused err)) \<Rightarrow> (s1, Inr (''Error: '' @ err))
      | (s1, Inr (Stored job)) \<Rightarrow> (case isoformat (run_at job) of
          Inl e \<Rightarrow> (s1, Inl e)
        | Inr when \<Rightarrow> (s1, Inr (''Scheduled '' @ once_id job @ '': once at '' @ when @ '' -> '' @ body))))"

definition list_line :: "cron_job \<Rightarrow> string" where
  "list_line job = ''  '' @ job_id job @ '': '' @ [CHR 0x27] @ cron job @ [CHR 0x27] @ '' -> '' @ take 40 (prompt job) @ '' [''
     @ (if recurring job then ''recurring'' else ''one-shot'') @ '', '' @ (if durable job then ''durable'' else ''session'') @ '']''"

definition run_list_crons :: "cron_state \<Rightarrow> string" where
  "run_list_crons s = (if scheduled_jobs s = [] then ''No cron jobs.''
     else py_join [CHR 0x0A] (map (\<lambda>(i, job). list_line job) (scheduled_jobs s)))"

definition run_cancel_cron :: "string \<Rightarrow> cron_state \<Rightarrow> cron_state \<times> (string + string)" where
  "run_cancel_cron i s =
     (if py_startswith i ''once_'' then cancel_once_job i s
      else case cancel_job i s of
        (s1, Inl e) \<Rightarrow> (s1, Inl e)
      | (s1, Inr result) \<Rightarrow> if py_endswith result ''not found'' then cancel_once_job i s1 else (s1, Inr result))"

end
