(* ===== verification/Cron_Props.thy ===== *)
theory Cron_Props
  imports Cron
begin

text \<open>
  What a cron expression means, and that the code's validation and matching agree with that meaning.
\<close>

section \<open>The meaning of a field\<close>

datatype field_ast = Any | Every int | Exactly int | Between int int | Alternatives "field_ast list"

fun denotes :: "field_ast \<Rightarrow> int \<Rightarrow> bool" where
  "denotes Any v = True"
| "denotes (Every n) v = (v mod n = 0)"
| "denotes (Exactly n) v = (v = n)"
| "denotes (Between a b) v = (a \<le> v \<and> v \<le> b)"
| "denotes (Alternatives fs) v = list_ex (\<lambda>f. denotes f v) fs"

fun field_ok :: "int \<Rightarrow> int \<Rightarrow> field_ast \<Rightarrow> bool" where
  "field_ok lo hi Any = True"
| "field_ok lo hi (Every n) = (n > 0)"
| "field_ok lo hi (Exactly n) = (lo \<le> n \<and> n \<le> hi)"
| "field_ok lo hi (Between a b) = (lo \<le> a \<and> a \<le> b \<and> b \<le> hi)"
| "field_ok lo hi (Alternatives fs) = (fs \<noteq> [] \<and> list_all (field_ok lo hi) fs)"

lemma first_err_None: "first_err rs = Inr None \<longleftrightarrow> list_all (\<lambda>r. r = Inr None) rs"
  by (induction rs) (auto split: sum.splits option.splits)

lemma any_r_Inr: "list_all2 (\<lambda>r b. r = Inr b) rs bs \<Longrightarrow> any_r rs = Inr (list_ex id bs)"
  by (induction rs bs rule: list_all2_induct) auto

lemma list_all_choice: "list_all (\<lambda>x. \<exists>y. P x y) xs \<Longrightarrow> \<exists>ys. list_all2 P xs ys"
  by (induction xs) auto

definition field_means :: "int \<Rightarrow> int \<Rightarrow> string \<Rightarrow> field_ast \<Rightarrow> bool" where
  "field_means lo hi field a = (field_ok lo hi a \<and> (a = Any \<longleftrightarrow> field = ''*'') \<and> (\<forall>v. cron_field_matches field v = Inr (denotes a v)))"

lemma alternatives_mean:
  assumes "py_split field '','' = ps" "list_all2 (field_means lo hi) (map py_strip ps) fs"
    "field \<noteq> ''*''" "\<not> py_startswith field ''*/''" "CHR '','' \<in> set field"
  shows "field_means lo hi field (Alternatives fs)"
proof -
  have "list_all2 (\<lambda>r b. r = Inr b) (map (\<lambda>p. cron_field_matches (py_strip p) v) ps) (map (\<lambda>f. denotes f v) fs)" for v
    using assms(2) by (simp add: list_all2_map1 list_all2_map2 field_means_def list.rel_mono_strong)
  then have "any_r (map (\<lambda>p. cron_field_matches (py_strip p) v) ps) = Inr (list_ex (\<lambda>f. denotes f v) fs)" for v
    using any_r_Inr by (fastforce simp: list_ex_iff)
  then have "cron_field_matches field v = Inr (denotes (Alternatives fs) v)" for v
    using assms(1,3-5) by (subst cron_field_matches.simps) simp
  moreover have "ps \<noteq> []" using assms(1) py_split_nonempty by metis
  then have "fs \<noteq> []" using assms(2) by auto
  moreover have "list_all (field_ok lo hi) fs"
    using assms(2) by (induction "map py_strip ps" fs arbitrary: ps rule: list_all2_induct) (auto simp: field_means_def)
  ultimately show ?thesis using assms(3) by (simp add: field_means_def)
qed

lemma accepted_field_means:
  "validate_cron_field field lo hi = Inr None \<Longrightarrow> \<exists>a. field_means lo hi field a"
proof (induction field lo hi rule: validate_cron_field.induct)
  case (1 field lo hi)
  note acc = 1(2)[unfolded validate_cron_field.simps[of field lo hi]]
  let ?comma = "CHR '','' \<in> set field" and ?dash = "CHR ''-'' \<in> set field"
  consider "field = ''*''" | "field \<noteq> ''*''" "py_startswith field ''*/''"
    | "field \<noteq> ''*''" "\<not> py_startswith field ''*/''" "?comma"
    | "field \<noteq> ''*''" "\<not> py_startswith field ''*/''" "\<not> ?comma" "?dash"
    | "field \<noteq> ''*''" "\<not> py_startswith field ''*/''" "\<not> ?comma" "\<not> ?dash" by blast
  then show ?case
  proof cases
    case 1
    then have "field_means lo hi field Any" by (simp add: field_means_def cron_field_matches.simps)
    then show ?thesis ..
  next
    case 2
    with acc obtain n where "py_int (drop 2 field) = Some n" "n > 0" by (auto split: if_splits option.splits)
    with 2 have "field_means lo hi field (Every n)" by (simp add: field_means_def cron_field_matches.simps)
    then show ?thesis ..
  next
    case 3
    with acc have "list_all (\<lambda>p. validate_cron_field (py_strip p) lo hi = Inr None) (py_split field '','')"
      by (simp add: first_err_None list_all_iff)
    then have "list_all (\<lambda>p. \<exists>a. field_means lo hi p a) (map py_strip (py_split field '',''))"
      using 1(1)[OF 3] by (auto simp: list_all_iff)
    then obtain fs where "list_all2 (field_means lo hi) (map py_strip (py_split field '','')) fs" using list_all_choice by blast
    from alternatives_mean[OF refl this 3] show ?thesis ..
  next
    case 4
    obtain l r where lr: "split_once (CHR ''-'') field = (l, r)" by (cases "split_once (CHR ''-'') field")
    with 4 acc obtain a b where "py_int l = Some a" "py_int r = Some b" "lo \<le> a" "a \<le> b" "b \<le> hi"
      by (auto split: if_splits option.splits)
    with 4 lr have "field_means lo hi field (Between a b)" by (simp add: field_means_def cron_field_matches.simps)
    then show ?thesis ..
  next
    case 5
    with acc obtain n where "py_int field = Some n" "lo \<le> n" "n \<le> hi" by (auto split: if_splits option.splits)
    with 5 have "field_means lo hi field (Exactly n)" by (simp add: field_means_def cron_field_matches.simps)
    then show ?thesis ..
  qed
qed

section \<open>The meaning of an expression\<close>

record cron_ast =
  a_minute :: field_ast
  a_hour :: field_ast
  a_day :: field_ast
  a_month :: field_ast
  a_weekday :: field_ast

definition cron_ast_ok :: "cron_ast \<Rightarrow> bool" where
  "cron_ast_ok a = (field_ok 0 59 (a_minute a) \<and> field_ok 0 23 (a_hour a) \<and> field_ok 1 31 (a_day a)
     \<and> field_ok 1 12 (a_month a) \<and> field_ok 0 6 (a_weekday a))"

text \<open>Both day fields restricted: either is enough; one restricted: that one counts; Sunday is 0.\<close>

definition cron_denotes :: "cron_ast \<Rightarrow> datetime \<Rightarrow> bool" where
  "cron_denotes a dt =
     (let d = denotes (a_day a) (int (day dt)); w = denotes (a_weekday a) (int ((weekday dt + 1) mod 7)) in
      denotes (a_minute a) (int (minute dt)) \<and> denotes (a_hour a) (int (hour dt)) \<and> denotes (a_month a) (int (month dt))
      \<and> (if a_day a \<noteq> Any \<and> a_weekday a \<noteq> Any then d \<or> w else d \<and> w))"

lemma five_fields:
  assumes "length xs = 5"
  obtains a b c d e where "xs = [a, b, c, d, e]"
  using assms by (auto simp: eval_nat_numeral length_Suc_conv)

lemma validate_named_None: "validate_named_field (f, (lo, hi), nm) = Inr None \<longleftrightarrow> validate_cron_field f lo hi = Inr None"
  by (auto simp: validate_named_field_def split: sum.splits option.splits)

lemma cron_accepted_means_aux:
  assumes "validate_cron e = Inr None"
  shows "\<exists>a. cron_ast_ok a \<and> (\<forall>dt. cron_matches e dt = Inr (cron_denotes a dt))"
proof -
  have len: "length (py_split_ws (py_strip e)) = 5" using assms by (auto simp: validate_cron_def Let_def split: if_splits)
  then obtain mi h d mo w where fs: "py_split_ws (py_strip e) = [mi, h, d, mo, w]" by (rule five_fields)
  have "validate_cron_field mi 0 59 = Inr None" "validate_cron_field h 0 23 = Inr None" "validate_cron_field d 1 31 = Inr None"
    "validate_cron_field mo 1 12 = Inr None" "validate_cron_field w 0 6 = Inr None"
    using assms by (simp_all add: validate_cron_def fs cron_bounds_def first_err_None validate_named_None del: first_err.simps)
  then obtain ami ah ad amo aw where a: "field_means 0 59 mi ami" "field_means 0 23 h ah" "field_means 1 31 d ad"
    "field_means 1 12 mo amo" "field_means 0 6 w aw" using accepted_field_means by meson
  let ?a = "\<lparr>a_minute = ami, a_hour = ah, a_day = ad, a_month = amo, a_weekday = aw\<rparr>"
  have "cron_matches e dt = Inr (cron_denotes ?a dt)" for dt
    using a by (auto simp: field_means_def cron_matches_def fs Let_def cron_denotes_def)
  moreover have "cron_ast_ok ?a" using a by (simp add: cron_ast_ok_def field_means_def)
  ultimately show ?thesis by blast
qed

section \<open>Printed expressions\<close>

fun simple_text :: "field_ast \<Rightarrow> string" where
  "simple_text Any = ''*''"
| "simple_text (Every n) = ''*/'' @ nat_str (nat n)"
| "simple_text (Exactly n) = nat_str (nat n)"
| "simple_text (Between a b) = nat_str (nat a) @ ''-'' @ nat_str (nat b)"
| "simple_text (Alternatives fs) = []"

fun field_text :: "field_ast \<Rightarrow> string" where
  "field_text (Alternatives fs) = py_join '','' (map simple_text fs)"
| "field_text a = simple_text a"

definition short_number :: "int \<Rightarrow> bool" where
  "short_number n = (0 \<le> n \<and> length (nat_str (nat n)) \<le> int_max_str_digits)"

fun simple_printable :: "field_ast \<Rightarrow> bool" where
  "simple_printable Any = True"
| "simple_printable (Every n) = short_number n"
| "simple_printable (Exactly n) = short_number n"
| "simple_printable (Between a b) = (short_number a \<and> short_number b)"
| "simple_printable (Alternatives fs) = False"

text \<open>A list must not begin with a step: the code reads \<open>*/5,7\<close> as the step \<open>5,7\<close>.\<close>

fun printable :: "field_ast \<Rightarrow> bool" where
  "printable (Alternatives fs) = (length fs \<ge> 2 \<and> list_all simple_printable fs \<and> \<not> (\<exists>n. hd fs = Every n))"
| "printable a = simple_printable a"

lemma nat_str_decimal: "c \<in> set (nat_str n) \<Longrightarrow> char_isdecimal c"
proof (induction n rule: nat_str.induct)
  case (1 n)
  show ?case
  proof (cases "n < 10")
    case True
    with 1(2) show ?thesis by (subst (asm) nat_str.simps) (simp add: digit_char_decimal)
  next
    case False
    with 1 show ?thesis by (subst (asm) (2) nat_str.simps) (auto simp: digit_char_decimal)
  qed
qed

lemma decimal_other: "char_isdecimal c \<Longrightarrow> \<not> char_isspace c" "char_isdecimal c \<Longrightarrow> char_isdigit c"
  "char_isdecimal c \<Longrightarrow> c \<notin> {CHR '','', CHR ''-'', CHR ''+'', CHR ''_'', CHR ''*'', CHR ''/''}"
  by (auto simp: char_isdecimal_def char_isspace_def char_isdigit_def Let_def)

lemma py_strip_id: "list_all (\<lambda>c. \<not> char_isspace c) s \<Longrightarrow> py_strip s = s"
proof -
  assume a: "list_all (\<lambda>c. \<not> char_isspace c) s"
  have d: "dropWhile char_isspace t = t" if "\<forall>c\<in>set t. \<not> char_isspace c" for t using that by (cases t) auto
  from a show ?thesis by (simp add: py_strip_def py_lstrip_def py_rstrip_def d list_all_iff)
qed

lemma int_body_decimal: "list_all char_isdecimal s \<Longrightarrow> s \<noteq> [] \<or> b \<Longrightarrow> int_body b s = Some s"
  by (induction s arbitrary: b) (auto dest: decimal_other(3))

lemma py_int_nat_str: "length (nat_str n) \<le> int_max_str_digits \<Longrightarrow> py_int (nat_str n) = Some (int n)"
proof -
  assume len: "length (nat_str n) \<le> int_max_str_digits"
  have d: "list_all char_isdecimal (nat_str n)" by (simp add: list_all_iff nat_str_decimal)
  have "py_strip (nat_str n) = nat_str n" by (rule py_strip_id) (use d decimal_other(1) in \<open>auto simp: list_all_iff\<close>)
  moreover obtain c cs where c: "nat_str n = c # cs" by (cases "nat_str n") auto
  moreover have "c \<noteq> CHR ''-''" "c \<noteq> CHR ''+''" using decimal_other(3)[of c] d c by auto
  moreover have "int_body False (nat_str n) = Some (nat_str n)" by (rule int_body_decimal[OF d]) simp
  ultimately show ?thesis
    using len nat_of_str_nat_str[of n] unfolding py_int_def unsigned_int_def by simp
qed

lemma py_isdigit_nat_str: "py_isdigit (nat_str n)"
  by (simp add: py_isdigit_def list_all_iff nat_str_decimal decimal_other)

lemma short_numberD: "short_number n \<Longrightarrow> py_int (nat_str (nat n)) = Some n"
  by (simp add: short_number_def py_int_nat_str)

lemma decimal_start: "\<not> py_startswith (nat_str n @ s) ''*/''" "nat_str n @ s \<noteq> ''*''" "nat_str n \<noteq> ''*''"
  using decimal_other(3)[OF nat_str_decimal[of "hd (nat_str n)" n]]
  by (cases "nat_str n"; auto simp: py_startswith_def)+

lemma not_in_nat_str: "CHR '','' \<notin> set (nat_str n)" "CHR ''-'' \<notin> set (nat_str n)"
  using nat_str_decimal decimal_other(3) by blast+

lemma split_once_append: "c \<notin> set l \<Longrightarrow> split_once c (l @ c # r) = (l, r)"
  unfolding split_once_def by (induction l) auto

lemma simple_text_means:
  assumes "field_ok lo hi a" "simple_printable a"
  shows "validate_cron_field (simple_text a) lo hi = Inr None \<and> field_means lo hi (simple_text a) a
    \<and> CHR '','' \<notin> set (simple_text a) \<and> list_all (\<lambda>c. \<not> char_isspace c) (simple_text a) \<and> simple_text a \<noteq> []"
proof (cases a)
  case Any
  then show ?thesis by (simp add: validate_cron_field.simps field_means_def cron_field_matches.simps char_isspace_def)
next
  case (Every n)
  have s: "py_startswith (''*/'' @ t) ''*/''" for t by (rule py_startswith_append)
  show ?thesis using assms Every s[of "nat_str (nat n)"]
    by (simp add: validate_cron_field.simps field_means_def cron_field_matches.simps py_isdigit_nat_str short_numberD
        not_in_nat_str list_all_iff nat_str_decimal decimal_other) (simp add: char_isspace_def)
next
  case (Exactly n)
  then show ?thesis using assms decimal_start(1)[of "nat n" "[]"]
    by (simp add: validate_cron_field.simps field_means_def cron_field_matches.simps py_isdigit_nat_str short_numberD
        not_in_nat_str decimal_start list_all_iff nat_str_decimal decimal_other)
next
  case (Between x y)
  have "\<not> char_isspace (CHR ''-'')" by (simp add: char_isspace_def)
  then show ?thesis using assms Between
    by (simp add: validate_cron_field.simps field_means_def cron_field_matches.simps py_isdigit_nat_str short_numberD
        not_in_nat_str decimal_start split_once_append list_all_iff) (auto dest!: nat_str_decimal simp: decimal_other)
next
  case (Alternatives fs)
  then show ?thesis using assms by simp
qed

lemma split_from_join:
  "c \<notin> set cur \<Longrightarrow> list_all (\<lambda>p. c \<notin> set p) (p # ps) \<Longrightarrow> py_split_from [c] cur (py_join [c] (p # ps)) = (rev cur @ p) # ps"
proof (induction ps arbitrary: cur p)
  case Nil
  then have "c \<notin> set p" by simp
  then have "py_split_from [c] cur p = [rev cur @ p]" for cur
    by (induction p arbitrary: cur) (auto simp: py_startswith_def)
  then show ?case by simp
next
  case (Cons q ps)
  have scan: "py_split_from [c] cur (p @ c # t) = (rev cur @ p) # py_split_from [c] [] t" if "c \<notin> set p" for p cur t
    using that by (induction p arbitrary: cur) (auto simp: py_startswith_def)
  from Cons.prems Cons.IH[of "[]" q] show ?case by (simp add: scan)
qed

lemma split_join: "list_all (\<lambda>p. c \<notin> set p) ps \<Longrightarrow> ps \<noteq> [] \<Longrightarrow> py_split (py_join [c] ps) [c] = ps"
  using split_from_join[of c "[]"] by (cases ps) (auto simp: py_split_def)

lemma simple_text_start: "simple_printable a \<Longrightarrow> \<not> (\<exists>n. a = Every n) \<Longrightarrow> \<not> py_startswith (simple_text a @ CHR '','' # t) ''*/''"
  by (cases a) (auto simp: py_startswith_def[of "CHR ''*'' # _"] decimal_start)

lemma set_py_join: "set (py_join sep ps) \<subseteq> set sep \<union> \<Union> (set ` set ps)"
  by (induction sep ps rule: py_join.induct) auto

lemma field_text_means:
  assumes ok: "field_ok lo hi a" and pr: "printable a"
  shows "validate_cron_field (field_text a) lo hi = Inr None \<and> field_means lo hi (field_text a) a
    \<and> list_all (\<lambda>c. \<not> char_isspace c) (field_text a) \<and> field_text a \<noteq> []"
proof (cases "\<exists>fs. a = Alternatives fs")
  case False
  then have "field_text a = simple_text a" "simple_printable a" using pr by (cases a; simp)+
  with simple_text_means[OF ok] show ?thesis by simp
next
  case True
  then obtain fs where a: "a = Alternatives fs" by blast
  with pr obtain f g gs where fs: "fs = f # g # gs" by (cases fs; cases "tl fs") (auto simp: neq_Nil_conv)
  have each: "validate_cron_field (simple_text x) lo hi = Inr None \<and> field_means lo hi (simple_text x) x
      \<and> CHR '','' \<notin> set (simple_text x) \<and> list_all (\<lambda>c. \<not> char_isspace c) (simple_text x) \<and> simple_text x \<noteq> []"
    if "x \<in> set fs" for x using that ok pr a by (intro simple_text_means) (auto simp: list_all_iff)
  let ?t = "py_join '','' (map simple_text fs)"
  have t: "?t = simple_text f @ CHR '','' # py_join '','' (map simple_text (g # gs))" by (simp add: fs)
  have start: "\<not> py_startswith ?t ''*/''" unfolding t by (rule simple_text_start) (use pr a fs in auto)
  have comma: "CHR '','' \<in> set ?t" by (simp add: t)
  have star: "?t \<noteq> ''*''" using comma by auto
  have sp: "py_split ?t '','' = map simple_text fs" by (rule split_join) (use each in \<open>auto simp: list_all_iff fs\<close>)
  have st: "py_strip (simple_text x) = simple_text x" if "x \<in> set fs" for x using each[OF that] by (simp add: py_strip_id)
  have st': "map py_strip (map simple_text fs) = map simple_text fs" using st by simp
  have "first_err (map (\<lambda>p. validate_cron_field (py_strip p) lo hi) (map simple_text fs)) = Inr None"
    using each st by (simp add: first_err_None list_all_iff)
  then have "validate_cron_field ?t lo hi = Inr None"
    using start comma star by (subst validate_cron_field.simps) (simp add: sp)
  moreover have "list_all2 (field_means lo hi) (map py_strip (map simple_text fs)) fs"
    unfolding st' using each by (simp add: list_all2_map1 list_all2_same)
  from alternatives_mean[OF sp this star start comma] have "field_means lo hi ?t (Alternatives fs)" .
  moreover have "\<not> char_isspace c" if "c \<in> set ?t" for c
    using that set_py_join[of "'',''" "map simple_text fs"] each by (auto simp: list_all_iff char_isspace_def)
  ultimately show ?thesis using comma by (auto simp: a list_all_iff)
qed

definition cron_text :: "cron_ast \<Rightarrow> string" where
  "cron_text a = py_join '' '' (map field_text [a_minute a, a_hour a, a_day a, a_month a, a_weekday a])"

definition cron_printable :: "cron_ast \<Rightarrow> bool" where
  "cron_printable a = list_all printable [a_minute a, a_hour a, a_day a, a_month a, a_weekday a]"

lemma split_ws_word:
  assumes "list_all (\<lambda>c. \<not> char_isspace c) w" "w \<noteq> []"
  shows "py_split_ws (w @ CHR '' '' # t) = w # py_split_ws (CHR '' '' # t)" "py_split_ws w = [w]"
    "py_split_ws (CHR '' '' # t) = py_split_ws t"
proof -
  have sp: "char_isspace (CHR '' '')" by (simp add: char_isspace_def)
  obtain c cs where w: "w = c # cs" using assms(2) by (cases w) auto
  have tw: "takeWhile (\<lambda>x. \<not> char_isspace x) (w @ CHR '' '' # t) = w" "dropWhile (\<lambda>x. \<not> char_isspace x) (w @ CHR '' '' # t) = CHR '' '' # t"
    using assms(1) sp by (induction w) (auto simp: list_all_iff)
  have dw: "dropWhile char_isspace (w @ s) = w @ s" for s using assms w by simp
  show "py_split_ws (w @ CHR '' '' # t) = w # py_split_ws (CHR '' '' # t)"
    by (subst py_split_ws.simps) (use tw dw w in \<open>simp add: py_lstrip_def\<close>)
  have tw': "takeWhile (\<lambda>x. \<not> char_isspace x) w = w" "dropWhile (\<lambda>x. \<not> char_isspace x) w = []"
    using assms(1) by (auto simp: list_all_iff takeWhile_eq_all_conv)
  have "py_split_ws [] = []" by (subst py_split_ws.simps) (simp add: py_lstrip_def)
  then show "py_split_ws w = [w]" by (subst py_split_ws.simps) (use tw' dw[of "[]"] w in \<open>simp add: py_lstrip_def\<close>)
  show "py_split_ws (CHR '' '' # t) = py_split_ws t"
    by (subst (1 2) py_split_ws.simps) (simp add: py_lstrip_def sp)
qed

lemma split_ws_join:
  "ws \<noteq> [] \<Longrightarrow> list_all (\<lambda>w. list_all (\<lambda>c. \<not> char_isspace c) w \<and> w \<noteq> []) ws \<Longrightarrow> py_split_ws (py_join '' '' ws) = ws"
proof (induction "'' ''" ws rule: py_join.induct)
  case (3 x y ys)
  then show ?case using split_ws_word[of x] by simp
qed (simp_all add: split_ws_word)

lemma py_strip_ends: "s \<noteq> [] \<Longrightarrow> \<not> char_isspace (hd s) \<Longrightarrow> \<not> char_isspace (last s) \<Longrightarrow> py_strip s = s"
proof -
  assume a: "s \<noteq> []" "\<not> char_isspace (hd s)" "\<not> char_isspace (last s)"
  then have "py_lstrip s = s" by (cases s) (auto simp: py_lstrip_def)
  moreover have "dropWhile char_isspace (rev s) = rev s" using a by (cases s rule: rev_cases) auto
  ultimately show ?thesis by (simp add: py_strip_def py_rstrip_def)
qed

lemma join_ends:
  "ws \<noteq> [] \<Longrightarrow> list_all (\<lambda>w. list_all (\<lambda>c. \<not> char_isspace c) w \<and> w \<noteq> []) ws \<Longrightarrow>
   py_join '' '' ws \<noteq> [] \<and> \<not> char_isspace (hd (py_join '' '' ws)) \<and> \<not> char_isspace (last (py_join '' '' ws))"
  by (induction "'' ''" ws rule: py_join.induct) (auto simp: list_all_iff)


text \<open>C28: Every well-formed schedule, written out as an expression, is accepted, and matching the text decides exactly the
  schedule. (Numbers have at most 4300 digits, a list has at least two entries and does not begin with a step.)\<close>

theorem cron_text_accepted:
  assumes "cron_ast_ok a" "cron_printable a"
  shows "validate_cron (cron_text a) = Inr None \<and> (\<forall>dt. cron_matches (cron_text a) dt = Inr (cron_denotes a dt))"
proof -
  let ?fs = "map field_text [a_minute a, a_hour a, a_day a, a_month a, a_weekday a]"
  have m: "validate_cron_field (field_text x) lo hi = Inr None \<and> field_means lo hi (field_text x) x
      \<and> list_all (\<lambda>c. \<not> char_isspace c) (field_text x) \<and> field_text x \<noteq> []"
    if "((lo, hi), x) \<in> set [((0, 59), a_minute a), ((0, 23), a_hour a), ((1, 31), a_day a), ((1, 12), a_month a), ((0, 6), a_weekday a)]"
    for lo hi x using that assms by (intro field_text_means) (auto simp: cron_ast_ok_def cron_printable_def)
  note f = m[of 0 59 "a_minute a"] m[of 0 23 "a_hour a"] m[of 1 31 "a_day a"] m[of 1 12 "a_month a"] m[of 0 6 "a_weekday a"]
  have w: "list_all (\<lambda>w. list_all (\<lambda>c. \<not> char_isspace c) w \<and> w \<noteq> []) ?fs" using f by simp
  have "py_strip (cron_text a) = cron_text a" unfolding cron_text_def using join_ends[OF _ w] by (intro py_strip_ends) auto
  then have fields: "py_split_ws (py_strip (cron_text a)) = ?fs" using split_ws_join[OF _ w] by (simp add: cron_text_def)
  have "validate_cron (cron_text a) = Inr None"
    using f by (simp add: validate_cron_def fields cron_bounds_def first_err_None validate_named_None del: first_err.simps)
  moreover have "cron_matches (cron_text a) dt = Inr (cron_denotes a dt)" for dt
    using f by (auto simp: field_means_def cron_matches_def fields Let_def cron_denotes_def)
  ultimately show ?thesis by blast
qed

section \<open>Witnesses\<close>

definition workdays :: cron_ast where
  "workdays = \<lparr>a_minute = Every 15, a_hour = Alternatives [Exactly 9, Between 13 17], a_day = Any, a_month = Any,
     a_weekday = Between 1 5\<rparr>"


theorem cron_text_accepted_witness:
  "cron_text workdays = ''*/15 9,13-17 * * 1-5'' \<and> validate_cron (cron_text workdays) = Inr None
   \<and> cron_matches (cron_text workdays) \<lparr>year = 2026, month = 7, day = 6, hour = 16, minute = 30\<rparr> = Inr True"
proof -
  have t: "cron_text workdays = ''*/15 9,13-17 * * 1-5''" by code_simp
  have ok: "cron_ast_ok workdays" by (simp add: cron_ast_ok_def workdays_def)
  have pr: "cron_printable workdays"
    by (simp add: cron_printable_def workdays_def short_number_def int_max_str_digits_def nat_str.simps)
  have d: "cron_denotes workdays \<lparr>year = 2026, month = 7, day = 6, hour = 16, minute = 30\<rparr>" 
    by (simp add: cron_denotes_def workdays_def weekday_def toordinal_def days_before_month_def is_leap_def)
  from cron_text_accepted[OF ok pr] t d show ?thesis by simp
qed

end
