(* ===== verification/Cron_Sched.thy ===== *)
theory Cron_Sched
  imports Cron_Props
begin

text \<open>
  The scheduler thread and the durable files: what a tick fires, that no job fires twice in a minute, and
  that what a restart loads is what was scheduled.
\<close>

section \<open>Ticks\<close>

definition due :: "datetime \<Rightarrow> string dict \<Rightarrow> cron_job \<Rightarrow> bool" where
  "due now lf job = (cron_matches (cron job) now = Inr True \<and> map_of lf (job_id job) \<noteq> Some (marker_of now))"

definition spent :: "datetime \<Rightarrow> string dict \<Rightarrow> cron_job \<Rightarrow> bool" where
  "spent now lf job = (due now lf job \<and> \<not> recurring job)"

definition once_due :: "pyfloat \<Rightarrow> once_job \<Rightarrow> bool" where
  "once_due clock job = fl_le (run_at job) clock"

definition keys_ok :: "cron_state \<Rightarrow> bool" where
  "keys_ok s = (list_all (\<lambda>(i, j). job_id j = i) (scheduled_jobs s) \<and> distinct (map fst (scheduled_jobs s))
     \<and> list_all (\<lambda>(i, j). once_id j = i) (scheduled_once_jobs s) \<and> distinct (map fst (scheduled_once_jobs s)))"

lemma saved_frame [simp]:
  "scheduled_jobs (saved save_durable_jobs s) = scheduled_jobs s" "scheduled_once_jobs (saved save_durable_jobs s) = scheduled_once_jobs s"
  "cron_queue (saved save_durable_jobs s) = cron_queue s" "last_fired (saved save_durable_jobs s) = last_fired s"
  "disk_writable (saved save_durable_jobs s) = disk_writable s" "once_file (saved save_durable_jobs s) = once_file s"
  "scheduled_jobs (saved save_durable_once_jobs s) = scheduled_jobs s" "scheduled_once_jobs (saved save_durable_once_jobs s) = scheduled_once_jobs s"
  "cron_queue (saved save_durable_once_jobs s) = cron_queue s" "last_fired (saved save_durable_once_jobs s) = last_fired s"
  "disk_writable (saved save_durable_once_jobs s) = disk_writable s" "cron_file (saved save_durable_once_jobs s) = cron_file s"
  by (simp_all add: saved_def save_durable_jobs_def save_durable_once_jobs_def)

lemma tick_cron_job_effect:
  "cron_queue (tick_cron_job now job s) = cron_queue s @ (if due now (last_fired s) job then [Queued_cron job] else [])"
  "scheduled_jobs (tick_cron_job now job s) = (if spent now (last_fired s) job then dict_pop (job_id job) (scheduled_jobs s) else scheduled_jobs s)"
  "map_of (last_fired (tick_cron_job now job s)) i =
     (if due now (last_fired s) job \<and> i = job_id job then Some (marker_of now) else map_of (last_fired s) i)"
  "scheduled_once_jobs (tick_cron_job now job s) = scheduled_once_jobs s"
  "disk_writable (tick_cron_job now job s) = disk_writable s" "once_file (tick_cron_job now job s) = once_file s"
  by (auto simp: tick_cron_job_def due_def spent_def Let_def update_conv' split: sum.splits)

lemma dict_pop_filter: "dict_pop k d = filter (\<lambda>(i, _). i \<noteq> k) d"
  by (auto simp: AList.delete_eq intro!: filter_cong)

lemma due_other: "map_of lf' (job_id j) = map_of lf (job_id j) \<Longrightarrow> due now lf' j = due now lf j \<and> spent now lf' j = spent now lf j"
  by (simp add: due_def spent_def)

lemma fold_tick_cron_aux:
  assumes "distinct (map job_id js)"
  shows "cron_queue (fold (tick_cron_job now) js s) = cron_queue s @ map Queued_cron (filter (due now (last_fired s)) js)
    \<and> scheduled_jobs (fold (tick_cron_job now) js s) =
        filter (\<lambda>(i, _). i \<notin> job_id ` set (filter (spent now (last_fired s)) js)) (scheduled_jobs s)
    \<and> (\<forall>i. map_of (last_fired (fold (tick_cron_job now) js s)) i =
        (if i \<in> job_id ` set (filter (due now (last_fired s)) js) then Some (marker_of now) else map_of (last_fired s) i))
    \<and> scheduled_once_jobs (fold (tick_cron_job now) js s) = scheduled_once_jobs s
    \<and> disk_writable (fold (tick_cron_job now) js s) = disk_writable s \<and> once_file (fold (tick_cron_job now) js s) = once_file s"
  using assms
proof (induction js arbitrary: s)
  case (Cons j js)
  let ?s = "tick_cron_job now j s"
  have other: "due now (last_fired ?s) x = due now (last_fired s) x \<and> spent now (last_fired ?s) x = spent now (last_fired s) x"
    if "x \<in> set js" for x
  proof (rule due_other)
    have "job_id x \<noteq> job_id j" using that Cons.prems by (metis distinct.simps(2) image_eqI list.set_map list.simps(9))
    then show "map_of (last_fired ?s) (job_id x) = map_of (last_fired s) (job_id x)" by (simp add: tick_cron_job_effect)
  qed
  have same: "filter (due now (last_fired ?s)) js = filter (due now (last_fired s)) js"
    by (rule filter_cong[OF refl]) (simp add: other)
  have same': "filter (spent now (last_fired ?s)) js = filter (spent now (last_fired s)) js"
    by (rule filter_cong[OF refl]) (simp add: other)
  have "distinct (map job_id js)" using Cons.prems by simp
  note IH = Cons.IH[OF this, of ?s, unfolded same same']
  then have "scheduled_jobs (fold (tick_cron_job now) (j # js) s) =
        filter (\<lambda>(i, _). i \<notin> job_id ` set (filter (spent now (last_fired s)) (j # js))) (scheduled_jobs s)"
    by (auto simp: tick_cron_job_effect dict_pop_filter intro!: filter_cong)
  with IH show ?case by (auto simp: tick_cron_job_effect)
qed simp

lemmas fold_tick_cron = fold_tick_cron_aux[THEN conjunct1] fold_tick_cron_aux[THEN conjunct2, THEN conjunct1]
  fold_tick_cron_aux[THEN conjunct2, THEN conjunct2, THEN conjunct1, THEN spec]
  fold_tick_cron_aux[THEN conjunct2, THEN conjunct2, THEN conjunct2, THEN conjunct1]
  fold_tick_cron_aux[THEN conjunct2, THEN conjunct2, THEN conjunct2, THEN conjunct2, THEN conjunct1]
  fold_tick_cron_aux[THEN conjunct2, THEN conjunct2, THEN conjunct2, THEN conjunct2, THEN conjunct2]

lemma tick_once_job_effect:
  "cron_queue (tick_once_job clock job s) = cron_queue s @ (if once_due clock job then [Queued_once job] else [])"
  "scheduled_once_jobs (tick_once_job clock job s) = (if once_due clock job then dict_pop (once_id job) (scheduled_once_jobs s) else scheduled_once_jobs s)"
  "scheduled_jobs (tick_once_job clock job s) = scheduled_jobs s" "last_fired (tick_once_job clock job s) = last_fired s"
  "disk_writable (tick_once_job clock job s) = disk_writable s" "cron_file (tick_once_job clock job s) = cron_file s"
  by (simp_all add: tick_once_job_def once_due_def Let_def)

lemma fold_tick_once:
  "cron_queue (fold (tick_once_job clock) js s) = cron_queue s @ map Queued_once (filter (once_due clock) js)"
  "scheduled_once_jobs (fold (tick_once_job clock) js s) =
     filter (\<lambda>(i, _). i \<notin> once_id ` set (filter (once_due clock) js)) (scheduled_once_jobs s)"
  "scheduled_jobs (fold (tick_once_job clock) js s) = scheduled_jobs s" "last_fired (fold (tick_once_job clock) js s) = last_fired s"
  "disk_writable (fold (tick_once_job clock) js s) = disk_writable s" "cron_file (fold (tick_once_job clock) js s) = cron_file s"
  by (induction js arbitrary: s) (auto simp: tick_once_job_effect dict_pop_filter intro!: filter_cong)

lemma keys_of_ids: "list_all (\<lambda>(i, j). f j = i) d \<Longrightarrow> map f (map snd d) = map fst d"
  by (induction d) auto

lemma filter_by_key:
  assumes "list_all (\<lambda>(i, j). f j = i) d" "distinct (map fst d)"
  shows "filter (\<lambda>(i, _). i \<notin> f ` set (filter P (map snd d))) d = filter (\<lambda>(_, j). \<not> P j) d"
proof (rule filter_cong[OF refl])
  fix x assume x: "x \<in> set d"
  obtain i j where ij: "x = (i, j)" by (cases x)
  have "j' = j" if "(i', j') \<in> set d" "f j' = i" for i' j'
    using that assms x ij by (metis (mono_tags, lifting) case_prodD list_all_iff map_of_eq_Some_iff option.inject)
  moreover have "f j = i" using assms(1) x ij by (auto simp: list_all_iff)
  ultimately have "i \<in> f ` set (filter P (map snd d)) \<longleftrightarrow> P j" using x ij by force
  then show "(case x of (i, _) \<Rightarrow> i \<notin> f ` set (filter P (map snd d))) = (case x of (_, j) \<Rightarrow> \<not> P j)" by (simp add: ij)
qed

lemma cron_tick_effect:
  assumes "keys_ok s"
  shows "cron_queue (cron_tick now clock s) = cron_queue s
      @ map Queued_cron (filter (due now (last_fired s)) (map snd (scheduled_jobs s)))
      @ map Queued_once (filter (once_due clock) (map snd (scheduled_once_jobs s)))"
    "scheduled_jobs (cron_tick now clock s) = filter (\<lambda>(_, j). \<not> spent now (last_fired s) j) (scheduled_jobs s)"
    "scheduled_once_jobs (cron_tick now clock s) = filter (\<lambda>(_, j). \<not> once_due clock j) (scheduled_once_jobs s)"
    "map_of (last_fired (cron_tick now clock s)) i =
       (if i \<in> job_id ` set (filter (due now (last_fired s)) (map snd (scheduled_jobs s))) then Some (marker_of now)
        else map_of (last_fired s) i)"
    "disk_writable (cron_tick now clock s) = disk_writable s"
proof -
  have k: "list_all (\<lambda>(i, j). job_id j = i) (scheduled_jobs s)" "distinct (map fst (scheduled_jobs s))"
    "list_all (\<lambda>(i, j). once_id j = i) (scheduled_once_jobs s)" "distinct (map fst (scheduled_once_jobs s))"
    using assms by (auto simp: keys_ok_def)
  have d: "distinct (map job_id (map snd (scheduled_jobs s)))" unfolding keys_of_ids[OF k(1)] by (rule k(2))
  note f = fold_tick_cron[OF d, of now s] fold_tick_once[of clock]
  show "cron_queue (cron_tick now clock s) = cron_queue s
      @ map Queued_cron (filter (due now (last_fired s)) (map snd (scheduled_jobs s)))
      @ map Queued_once (filter (once_due clock) (map snd (scheduled_once_jobs s)))"
    by (simp only: cron_tick_def Let_def f append_assoc)
  show "scheduled_jobs (cron_tick now clock s) = filter (\<lambda>(_, j). \<not> spent now (last_fired s) j) (scheduled_jobs s)"
    by (simp only: cron_tick_def Let_def f filter_by_key[OF k(1,2)])
  show "scheduled_once_jobs (cron_tick now clock s) = filter (\<lambda>(_, j). \<not> once_due clock j) (scheduled_once_jobs s)"
    by (simp only: cron_tick_def Let_def f filter_by_key[OF k(3,4)])
  show "map_of (last_fired (cron_tick now clock s)) i =
       (if i \<in> job_id ` set (filter (due now (last_fired s)) (map snd (scheduled_jobs s))) then Some (marker_of now)
        else map_of (last_fired s) i)"
    by (simp only: cron_tick_def Let_def f)
  show "disk_writable (cron_tick now clock s) = disk_writable s" by (simp only: cron_tick_def Let_def f)
qed

lemma cron_tick_keys: "keys_ok s \<Longrightarrow> keys_ok (cron_tick now clock s)"
  using cron_tick_effect(2,3)[of s now clock] by (auto simp: keys_ok_def list_all_iff distinct_map_filter)

text \<open>A tick queues, in order, exactly the cron jobs that match the minute and have not fired in it and then exactly
  the once jobs whose time has come; it drops exactly those once jobs and the fired jobs that do not recur.\<close>

theorem cron_tick_exact:
  assumes "keys_ok s"
  shows "cron_queue (cron_tick now clock s) = cron_queue s
      @ map Queued_cron (filter (due now (last_fired s)) (map snd (scheduled_jobs s)))
      @ map Queued_once (filter (once_due clock) (map snd (scheduled_once_jobs s)))
    \<and> scheduled_jobs (cron_tick now clock s) = filter (\<lambda>(_, j). recurring j \<or> \<not> due now (last_fired s) j) (scheduled_jobs s)
    \<and> scheduled_once_jobs (cron_tick now clock s) = filter (\<lambda>(_, j). \<not> once_due clock j) (scheduled_once_jobs s)"
  using cron_tick_effect[OF assms, of now clock] by (auto simp: spent_def intro!: filter_cong)

section \<open>No job fires twice in a minute\<close>

fun cron_ids :: "queued list \<Rightarrow> string list" where
  "cron_ids [] = []"
| "cron_ids (Queued_cron j # q) = job_id j # cron_ids q"
| "cron_ids (Queued_once j # q) = cron_ids q"

fun once_ids :: "queued list \<Rightarrow> string list" where
  "once_ids [] = []"
| "once_ids (Queued_cron j # q) = once_ids q"
| "once_ids (Queued_once j # q) = once_id j # once_ids q"

lemma queued_ids [simp]:
  "cron_ids (q @ r) = cron_ids q @ cron_ids r" "once_ids (q @ r) = once_ids q @ once_ids r"
  "cron_ids (map Queued_cron js) = map job_id js" "once_ids (map Queued_cron js) = []"
  "cron_ids (map Queued_once os) = []" "once_ids (map Queued_once os) = map once_id os"
proof -
  show "cron_ids (q @ r) = cron_ids q @ cron_ids r" by (induction q rule: cron_ids.induct) simp_all
  show "once_ids (q @ r) = once_ids q @ once_ids r" by (induction q rule: once_ids.induct) simp_all
  show "cron_ids (map Queued_cron js) = map job_id js" "once_ids (map Queued_cron js) = []" by (induction js) simp_all
  show "cron_ids (map Queued_once os) = []" "once_ids (map Queued_once os) = map once_id os" by (induction os) simp_all
qed

definition run_ticks :: "(datetime \<times> pyfloat) list \<Rightarrow> cron_state \<Rightarrow> cron_state" where
  "run_ticks ts s = fold (\<lambda>(now, clock). cron_tick now clock) ts s"

lemma distinct_ids_filter: "list_all (\<lambda>(i, j). f j = i) d \<Longrightarrow> distinct (map fst d) \<Longrightarrow> distinct (map f (filter P (map snd d)))"
  by (metis distinct_map_filter keys_of_ids)

lemma filtered_key: "i \<in> fst ` set (filter (\<lambda>(i, _). i \<notin> A) d) \<Longrightarrow> i \<notin> A"
  by auto

lemma run_ticks_fresh:
  assumes "keys_ok s" "\<forall>(now, clock)\<in>set ts. marker_of now = m"
  shows "\<exists>fired. cron_queue (run_ticks ts s) = cron_queue s @ fired
    \<and> distinct (cron_ids fired) \<and> (\<forall>i\<in>set (cron_ids fired). map_of (last_fired s) i \<noteq> Some m)
    \<and> distinct (once_ids fired) \<and> set (once_ids fired) \<subseteq> fst ` set (scheduled_once_jobs s)"
  using assms
proof (induction ts arbitrary: s)
  case Nil
  then show ?case by (simp add: run_ticks_def)
next
  case (Cons t ts)
  obtain now clock where t: "t = (now, clock)" by (cases t)
  have m: "marker_of now = m" "\<forall>(now, clock)\<in>set ts. marker_of now = m" using Cons.prems(2) t by auto
  let ?s = "cron_tick now clock s"
  let ?js = "filter (due now (last_fired s)) (map snd (scheduled_jobs s))"
  let ?os = "filter (once_due clock) (map snd (scheduled_once_jobs s))"
  note eff = cron_tick_effect[OF Cons.prems(1), of now clock]
  obtain fired where f: "cron_queue (run_ticks ts ?s) = cron_queue ?s @ fired" "distinct (cron_ids fired)"
      "\<forall>i\<in>set (cron_ids fired). map_of (last_fired ?s) i \<noteq> Some m" "distinct (once_ids fired)"
      "set (once_ids fired) \<subseteq> fst ` set (scheduled_once_jobs ?s)"
    using Cons.IH[OF cron_tick_keys[OF Cons.prems(1)] m(2)] by blast
  have k: "list_all (\<lambda>(i, j). job_id j = i) (scheduled_jobs s)" "distinct (map fst (scheduled_jobs s))"
    "list_all (\<lambda>(i, j). once_id j = i) (scheduled_once_jobs s)" "distinct (map fst (scheduled_once_jobs s))"
    using Cons.prems(1) by (auto simp: keys_ok_def)
  let ?all = "map Queued_cron ?js @ map Queued_once ?os @ fired"
  have "cron_queue (run_ticks (t # ts) s) = cron_queue s @ ?all" using f(1) eff(1) by (simp add: run_ticks_def t)
  moreover have "i \<notin> job_id ` set ?js" if "i \<in> set (cron_ids fired)" for i using that f(3) eff(4)[of i] m(1) by metis
  then have "distinct (cron_ids ?all)" using distinct_ids_filter[OF k(1,2), of "due now (last_fired s)"] f(2) by auto
  moreover have "\<forall>i\<in>set (cron_ids ?all). map_of (last_fired s) i \<noteq> Some m"
  proof
    fix i assume "i \<in> set (cron_ids ?all)"
    then consider "i \<in> job_id ` set ?js" | "i \<in> set (cron_ids fired)" by auto
    then show "map_of (last_fired s) i \<noteq> Some m"
    proof cases
      case 1 then show ?thesis using m(1) by (auto simp: due_def)
    next
      case 2 then show ?thesis using f(3) eff(4)[of i] m(1) by (auto split: if_splits)
    qed
  qed
  moreover have gone: "i \<notin> once_id ` set ?os" if "i \<in> set (once_ids fired)" for i
  proof -
    have "i \<in> fst ` set (filter (\<lambda>(i, _). i \<notin> once_id ` set ?os) (scheduled_once_jobs s))"
      using that f(5) eff(3) filter_by_key[OF k(3,4), of "once_due clock"] by auto
    then show ?thesis by (rule filtered_key)
  qed
  then have "distinct (once_ids ?all)" using distinct_ids_filter[OF k(3,4), of "once_due clock"] f(4) by auto
  moreover have "set (once_ids ?all) \<subseteq> fst ` set (scheduled_once_jobs s)"
  proof -
    have "once_id ` set ?os \<subseteq> once_id ` set (map snd (scheduled_once_jobs s))" by (intro image_mono) simp
    also have "\<dots> = fst ` set (scheduled_once_jobs s)" using arg_cong[OF keys_of_ids[OF k(3)], of set] by (simp add: image_image)
    finally have "set (map once_id ?os) \<subseteq> fst ` set (scheduled_once_jobs s)" by (simp only: set_map)
    moreover have "set (once_ids fired) \<subseteq> fst ` set (scheduled_once_jobs s)" using f(5) eff(3) by auto
    ultimately show ?thesis by (simp only: queued_ids set_append) simp
  qed
  ultimately show ?case by blast
qed

text \<open>C29: However often the scheduler thread ticks within one minute, it queues no cron job and no once job
  twice.\<close>

theorem cron_fires_once:
  assumes "keys_ok s" "\<forall>(now, clock)\<in>set ts. marker_of now = m"
  shows "\<exists>fired. cron_queue (run_ticks ts s) = cron_queue s @ fired \<and> distinct (cron_ids fired) \<and> distinct (once_ids fired)"
  using run_ticks_fresh[OF assms] by blast

section \<open>Durable files\<close>

definition file_holds :: "'j job_file \<Rightarrow> 'j list \<Rightarrow> bool" where
  "file_holds f js = (f = Items (map Some js) \<or> (f = Missing \<and> js = []))"

definition good :: "cron_state \<Rightarrow> bool" where
  "good s = (keys_ok s \<and> list_all (\<lambda>(i, j). validate_cron (cron j) = Inr None) (scheduled_jobs s) \<and> disk_writable s
     \<and> file_holds (cron_file s) (filter durable (map snd (scheduled_jobs s)))
     \<and> file_holds (once_file s) (filter once_durable (map snd (scheduled_once_jobs s))))"

lemma dict_set_fresh: "k \<notin> fst ` set d \<Longrightarrow> dict_set k v d = d @ [(k, v)]"
  by (induction d) auto

lemma pop_other_list:
  assumes "distinct (map fst d)" "map_of d i = Some j" "\<not> P j"
  shows "filter P (map snd (dict_pop i d)) = filter P (map snd d)"
  using assms
proof (induction d)
  case (Cons x d)
  obtain k w where x: "x = (k, w)" by (cases x)
  show ?case
  proof (cases "k = i")
    case True
    then have "dict_pop i d = d" using Cons.prems(1) x by (auto simp: delete_id)
    with True Cons.prems x show ?thesis by simp
  next
    case False
    with Cons x show ?thesis by simp
  qed
qed simp

lemma keys_ok_changes:
  "keys_ok s \<Longrightarrow> job_id j = i \<Longrightarrow> keys_ok (s\<lparr>scheduled_jobs := dict_set i j (scheduled_jobs s)\<rparr>)"
  "keys_ok s \<Longrightarrow> once_id o' = i \<Longrightarrow> keys_ok (s\<lparr>scheduled_once_jobs := dict_set i o' (scheduled_once_jobs s)\<rparr>)"
  "keys_ok s \<Longrightarrow> keys_ok (s\<lparr>scheduled_jobs := dict_pop i (scheduled_jobs s)\<rparr>)"
  "keys_ok s \<Longrightarrow> keys_ok (s\<lparr>scheduled_once_jobs := dict_pop i (scheduled_once_jobs s)\<rparr>)"
proof -
  have u: "list_all (\<lambda>(i, j). f j = i) (dict_set i j d)" if "list_all (\<lambda>(i, j). f j = i) d" "f j = i" for f i j d
    using that by (induction d) auto
  have p: "list_all P (dict_pop i d)" if "list_all P d" for P i d
    using that by (auto simp: list_all_iff dict_pop_filter)
  show "keys_ok s \<Longrightarrow> job_id j = i \<Longrightarrow> keys_ok (s\<lparr>scheduled_jobs := dict_set i j (scheduled_jobs s)\<rparr>)"
    "keys_ok s \<Longrightarrow> once_id o' = i \<Longrightarrow> keys_ok (s\<lparr>scheduled_once_jobs := dict_set i o' (scheduled_once_jobs s)\<rparr>)"
    "keys_ok s \<Longrightarrow> keys_ok (s\<lparr>scheduled_jobs := dict_pop i (scheduled_jobs s)\<rparr>)"
    "keys_ok s \<Longrightarrow> keys_ok (s\<lparr>scheduled_once_jobs := dict_pop i (scheduled_once_jobs s)\<rparr>)"
    by (auto simp: keys_ok_def u p distinct_update distinct_delete)
qed

lemma keys_ok_files [simp]: "keys_ok (s\<lparr>cron_file := f\<rparr>) = keys_ok s" "keys_ok (s\<lparr>once_file := g\<rparr>) = keys_ok s"
  by (simp_all add: keys_ok_def)

lemma schedule_job_good:
  assumes "good s" "''cron_'' @ pad_zeros 6 (nat_str n) \<notin> fst ` set (scheduled_jobs s)"
  shows "good (fst (schedule_job n e p r d s))"
proof (cases "validate_cron e = Inr None")
  case True
  let ?j = "\<lparr>job_id = ''cron_'' @ pad_zeros 6 (nat_str n), cron = e, prompt = p, recurring = r, durable = d\<rparr>"
  have k: "keys_ok (s\<lparr>scheduled_jobs := dict_set (job_id ?j) ?j (scheduled_jobs s)\<rparr>)"
    using assms(1) by (intro keys_ok_changes(1)) (auto simp: good_def)
  from assms True k show ?thesis
    by (auto simp: schedule_job_def Let_def good_def save_durable_jobs_def dict_set_fresh file_holds_def)
next
  case False
  with assms show ?thesis by (auto simp: schedule_job_def split: sum.splits option.splits)
qed

lemma schedule_once_good:
  assumes "good s" "''once_'' @ pad_zeros 6 (nat_str n) \<notin> fst ` set (scheduled_once_jobs s)"
  shows "good (fst (schedule_once fromiso now later n p dl at_text d s))"
proof (cases "once_target fromiso now dl at_text")
  case (Inr target)
  let ?j = "\<lparr>once_id = ''once_'' @ pad_zeros 6 (nat_str n), run_at = target, once_prompt = p, once_durable = d\<rparr>"
  have k: "keys_ok (s\<lparr>scheduled_once_jobs := dict_set (once_id ?j) ?j (scheduled_once_jobs s)\<rparr>)"
    using assms(1) by (intro keys_ok_changes(2)) (auto simp: good_def)
  from assms Inr k show ?thesis
    by (auto simp: schedule_once_def Let_def good_def save_durable_once_jobs_def dict_set_fresh file_holds_def)
qed (use assms in \<open>simp add: schedule_once_def\<close>)

lemma popped_valid: "list_all P d \<Longrightarrow> list_all P (dict_pop i d)"
  by (auto simp: list_all_iff dict_pop_filter)

lemma cancel_good:
  assumes "good s"
  shows "good (fst (cancel_job i s))" "good (fst (cancel_once_job i s))"
proof -
  have k: "distinct (map fst (scheduled_jobs s))" "distinct (map fst (scheduled_once_jobs s))" "keys_ok s"
    using assms by (auto simp: good_def keys_ok_def)
  show "good (fst (cancel_job i s))"
    using assms keys_ok_changes(3)[OF k(3), of i] pop_other_list[OF k(1), of i _ durable]
    by (auto simp: cancel_job_def Let_def good_def save_durable_jobs_def popped_valid file_holds_def split: option.splits)
  show "good (fst (cancel_once_job i s))"
    using assms keys_ok_changes(4)[OF k(3), of i] pop_other_list[OF k(2), of i _ once_durable]
    by (auto simp: cancel_once_job_def Let_def good_def save_durable_once_jobs_def popped_valid file_holds_def split: option.splits)
qed

lemma tick_cron_job_good:
  assumes "good s" "map_of (scheduled_jobs s) (job_id j) = Some j"
  shows "good (tick_cron_job now j s)"
proof -
  have d: "distinct (map fst (scheduled_jobs s))" and k: "keys_ok s" using assms by (auto simp: good_def keys_ok_def)
  have "keys_ok (tick_cron_job now j s)"
    using keys_ok_changes(3)[OF k, of "job_id j"] k by (simp add: keys_ok_def tick_cron_job_effect)
  then show ?thesis
    using assms pop_other_list[OF d assms(2), of durable]
    by (auto simp: tick_cron_job_def Let_def good_def popped_valid saved_def save_durable_jobs_def file_holds_def split: sum.splits)
qed

lemma tick_once_job_good:
  assumes "good s" "map_of (scheduled_once_jobs s) (once_id j) = Some j"
  shows "good (tick_once_job clock j s)"
proof -
  have d: "distinct (map fst (scheduled_once_jobs s))" and k: "keys_ok s" using assms by (auto simp: good_def keys_ok_def)
  have "keys_ok (tick_once_job clock j s)"
    using keys_ok_changes(4)[OF k, of "once_id j"] k by (simp add: keys_ok_def tick_once_job_effect)
  then show ?thesis
    using assms pop_other_list[OF d assms(2), of once_durable]
    by (auto simp: tick_once_job_def Let_def good_def popped_valid saved_def save_durable_once_jobs_def file_holds_def)
qed

lemma fold_tick_cron_good:
  "good s \<Longrightarrow> distinct (map job_id js) \<Longrightarrow> (\<forall>j\<in>set js. map_of (scheduled_jobs s) (job_id j) = Some j) \<Longrightarrow>
   good (fold (tick_cron_job now) js s)"
proof (induction js arbitrary: s)
  case (Cons j js)
  have "map_of (scheduled_jobs (tick_cron_job now j s)) (job_id x) = Some x" if "x \<in> set js" for x
  proof -
    have "job_id x \<noteq> job_id j" using that Cons.prems(2) by (metis distinct.simps(2) image_eqI list.set_map list.simps(9))
    with that Cons.prems(3) show ?thesis by (simp add: tick_cron_job_effect delete_conv')
  qed
  with Cons tick_cron_job_good show ?case by simp
qed simp

lemma fold_tick_once_good:
  "good s \<Longrightarrow> distinct (map once_id js) \<Longrightarrow> (\<forall>j\<in>set js. map_of (scheduled_once_jobs s) (once_id j) = Some j) \<Longrightarrow>
   good (fold (tick_once_job clock) js s)"
proof (induction js arbitrary: s)
  case (Cons j js)
  have "map_of (scheduled_once_jobs (tick_once_job clock j s)) (once_id x) = Some x" if "x \<in> set js" for x
  proof -
    have "once_id x \<noteq> once_id j" using that Cons.prems(2) by (metis distinct.simps(2) image_eqI list.set_map list.simps(9))
    with that Cons.prems(3) show ?thesis by (simp add: tick_once_job_effect delete_conv')
  qed
  with Cons tick_once_job_good show ?case by simp
qed simp

lemma own_keys:
  assumes "list_all (\<lambda>(i, j). f j = i) d" "distinct (map fst d)"
  shows "distinct (map f (map snd d))" "j \<in> set (map snd d) \<Longrightarrow> map_of d (f j) = Some j"
proof -
  show "distinct (map f (map snd d))" unfolding keys_of_ids[OF assms(1)] by (rule assms(2))
  show "j \<in> set (map snd d) \<Longrightarrow> map_of d (f j) = Some j" using assms by (auto simp: list_all_iff)
qed

lemma cron_tick_good: "good s \<Longrightarrow> good (cron_tick now clock s)"
proof -
  assume g: "good s"
  let ?s = "fold (tick_cron_job now) (map snd (scheduled_jobs s)) s"
  have "good ?s"
    using own_keys[of job_id "scheduled_jobs s"] g by (intro fold_tick_cron_good) (auto simp: good_def keys_ok_def)
  then show ?thesis unfolding cron_tick_def Let_def
    using own_keys[of once_id "scheduled_once_jobs ?s"] by (intro fold_tick_once_good) (auto simp: good_def keys_ok_def)
qed

text \<open>A new process: the memory is empty and the files are loaded.\<close>

definition restart :: "pyfloat \<Rightarrow> cron_state \<Rightarrow> cron_state" where
  "restart now s = start_scheduler True now (s\<lparr>scheduled_jobs := [], scheduled_once_jobs := [], cron_queue := [], last_fired := [],
     thread_alive := False, stop_flag := False\<rparr>)"

lemma load_items_valid:
  "list_all (\<lambda>j. validate_cron (cron j) = Inr None) js \<Longrightarrow>
   load_items (map Some js) d = fold (\<lambda>j. dict_set (job_id j) j) js d"
  by (induction js arbitrary: d) auto

lemma load_once_items_fold:
  "load_once_items now (map Some js) d c =
     (fold (\<lambda>j. dict_set (once_id j) j) (filter (\<lambda>j. fl_lt now (run_at j)) js) d, c \<or> (\<exists>j\<in>set js. \<not> fl_lt now (run_at j)), True)"
  by (induction js arbitrary: d c) auto

lemma fold_set_new:
  "distinct (map f js) \<Longrightarrow> f ` set js \<inter> fst ` set d = {} \<Longrightarrow> fold (\<lambda>j. dict_set (f j) j) js d = d @ map (\<lambda>j. (f j, j)) js"
  by (induction js arbitrary: d) (auto simp: dict_set_fresh)

lemma fold_set_same: "(\<forall>j\<in>set js. map_of d (f j) = Some j) \<Longrightarrow> fold (\<lambda>j. dict_set (f j) j) js d = d"
  by (induction js) (auto simp: update_triv)

lemma relist: "list_all (\<lambda>(i, j). f j = i) d \<Longrightarrow> map (\<lambda>j. (f j, j)) (filter P (map snd d)) = filter (\<lambda>(_, j). P j) d"
  by (induction d) auto

lemma filter_snd: "filter P (map snd (filter (\<lambda>(_, j). Q j) d)) = filter (\<lambda>j. Q j \<and> P j) (map snd d)"
  by (induction d) auto

lemma file_items: "file_holds f js \<Longrightarrow> f = Items (map Some js) \<or> f = Missing \<and> js = []"
  by (simp add: file_holds_def)

lemma reload_cron:
  assumes "good s"
  shows "load_durable_jobs (s\<lparr>stop_flag := b\<rparr>) = s\<lparr>stop_flag := b\<rparr>"
    "cron_file t = cron_file s \<Longrightarrow> scheduled_jobs t = [] \<Longrightarrow>
     load_durable_jobs t = t\<lparr>scheduled_jobs := filter (\<lambda>(_, j). durable j) (scheduled_jobs s)\<rparr>"
proof -
  let ?js = "filter durable (map snd (scheduled_jobs s))"
  have k: "list_all (\<lambda>(i, j). job_id j = i) (scheduled_jobs s)" "distinct (map fst (scheduled_jobs s))"
    using assms by (auto simp: good_def keys_ok_def)
  have v: "list_all (\<lambda>j. validate_cron (cron j) = Inr None) ?js" using assms by (auto simp: good_def list_all_iff)
  have "load_items (map Some ?js) (scheduled_jobs s) = scheduled_jobs s"
    unfolding load_items_valid[OF v] using own_keys(2)[OF k] by (intro fold_set_same) auto
  moreover have "load_items (map Some ?js) [] = filter (\<lambda>(_, j). durable j) (scheduled_jobs s)"
    unfolding load_items_valid[OF v] relist[OF k(1), symmetric]
    using own_keys(1)[OF k] by (subst fold_set_new) (auto simp: distinct_map_filter)
  moreover have "filter (\<lambda>(_, j). durable j) (scheduled_jobs s) = []" if "?js = []"
    using that relist[OF k(1), of durable] by simp
  moreover have "cron_file s = Items (map Some ?js) \<or> cron_file s = Missing \<and> ?js = []"
    using assms by (auto simp: good_def file_holds_def)
  ultimately show "load_durable_jobs (s\<lparr>stop_flag := b\<rparr>) = s\<lparr>stop_flag := b\<rparr>"
    "cron_file t = cron_file s \<Longrightarrow> scheduled_jobs t = [] \<Longrightarrow>
     load_durable_jobs t = t\<lparr>scheduled_jobs := filter (\<lambda>(_, j). durable j) (scheduled_jobs s)\<rparr>"
    by (auto simp: load_durable_jobs_def)
qed

lemma conj_again: "(a \<and> b \<and> a) \<longleftrightarrow> a \<and> b"
  by blast

lemma reload_once:
  assumes "good s" "once_file t = once_file s" "scheduled_once_jobs t = []" "disk_writable t"
  obtains f where "load_durable_once_jobs now t =
      t\<lparr>scheduled_once_jobs := filter (\<lambda>(_, j). once_durable j \<and> fl_lt now (run_at j)) (scheduled_once_jobs s), once_file := f\<rparr>"
    "file_holds f (filter (\<lambda>j. once_durable j \<and> fl_lt now (run_at j)) (map snd (scheduled_once_jobs s)))"
proof -
  let ?d = "scheduled_once_jobs s"
  let ?js = "filter once_durable (map snd ?d)" and ?P = "\<lambda>j. once_durable j \<and> fl_lt now (run_at j)"
  let ?d' = "filter (\<lambda>(_, j). ?P j) ?d"
  have k: "list_all (\<lambda>(i, j). once_id j = i) ?d" "distinct (map fst ?d)" using assms(1) by (auto simp: good_def keys_ok_def)
  have fut: "filter (\<lambda>j. fl_lt now (run_at j)) ?js = filter ?P (map snd ?d)" by (simp add: conj_commute)
  have "fold (\<lambda>j. dict_set (once_id j) j) (filter ?P (map snd ?d)) [] = ?d'"
    unfolding relist[OF k(1), of ?P, symmetric] using own_keys(1)[OF k] by (subst fold_set_new) (auto simp: distinct_map_filter)
  then have load: "load_once_items now (map Some ?js) [] False = (?d', \<exists>j\<in>set ?js. \<not> fl_lt now (run_at j), True)"
    unfolding load_once_items_fold fut by simp
  have dur: "filter once_durable (map snd ?d') = filter ?P (map snd ?d)"
    unfolding filter_snd by (rule filter_cong) auto
  have same: "filter ?P (map snd ?d) = ?js" if "\<not> (\<exists>j\<in>set ?js. \<not> fl_lt now (run_at j))"
    unfolding fut[symmetric] using that by (intro filter_True) blast
  from file_items[of "once_file s" ?js] assms(1) consider "once_file s = Items (map Some ?js)" | "once_file s = Missing" "?js = []"
    by (auto simp: good_def)
  then show ?thesis
  proof cases
    case 1
    show ?thesis
    proof (cases "\<exists>j\<in>set ?js. \<not> fl_lt now (run_at j)")
      case True
      have "load_durable_once_jobs now t = t\<lparr>scheduled_once_jobs := ?d', once_file := Items (map Some (filter ?P (map snd ?d)))\<rparr>"
        unfolding load_durable_once_jobs_def assms(2,3) 1 job_file.case load using True assms(4) dur
        by (simp only: prod.case Let_def if_True simp_thms save_durable_once_jobs_def) (simp add: conj_again)
      then show ?thesis by (rule that) (simp add: file_holds_def)
    next
      case False
      have "load_durable_once_jobs now t = t\<lparr>scheduled_once_jobs := ?d', once_file := once_file s\<rparr>"
        unfolding load_durable_once_jobs_def assms(2,3) 1 job_file.case load using False assms(2) 1
        by (simp only: prod.case Let_def simp_thms if_False) simp
      then show ?thesis by (rule that) (use 1 same[OF False] in \<open>simp add: file_holds_def\<close>)
    qed
  next
    case 2
    have e: "filter ?P (map snd ?d) = []" using 2(2) unfolding fut[symmetric] by simp
    then have "?d' = []" using relist[OF k(1), of ?P] by simp
    then have "load_durable_once_jobs now t = t\<lparr>scheduled_once_jobs := ?d', once_file := Missing\<rparr>"
      using 2 assms(2,3) by (simp add: load_durable_once_jobs_def)
    then show ?thesis by (rule that) (use e in \<open>simp add: file_holds_def\<close>)
  qed
qed

lemma restart_effect:
  assumes "good s"
  shows "scheduled_jobs (restart now s) = filter (\<lambda>(_, j). durable j) (scheduled_jobs s)"
    "scheduled_once_jobs (restart now s) = filter (\<lambda>(_, j). once_durable j \<and> fl_lt now (run_at j)) (scheduled_once_jobs s)"
    "good (restart now s)"
proof -
  let ?t = "s\<lparr>scheduled_jobs := [], scheduled_once_jobs := [], cron_queue := [], last_fired := [], thread_alive := False, stop_flag := False\<rparr>"
  let ?c = "filter (\<lambda>(_, j). durable j) (scheduled_jobs s)"
  let ?o = "filter (\<lambda>(_, j). once_durable j \<and> fl_lt now (run_at j)) (scheduled_once_jobs s)"
  have c: "load_durable_jobs ?t = ?t\<lparr>scheduled_jobs := ?c\<rparr>" by (rule reload_cron(2)[OF assms]) simp_all
  obtain f where o: "load_durable_once_jobs now (?t\<lparr>scheduled_jobs := ?c\<rparr>) = ?t\<lparr>scheduled_jobs := ?c, scheduled_once_jobs := ?o, once_file := f\<rparr>"
    "file_holds f (filter (\<lambda>j. once_durable j \<and> fl_lt now (run_at j)) (map snd (scheduled_once_jobs s)))"
    by (rule reload_once[OF assms, of "?t\<lparr>scheduled_jobs := ?c\<rparr>" now]) (use assms in \<open>auto simp: good_def\<close>)
  have r: "restart now s = ?t\<lparr>scheduled_jobs := ?c, scheduled_once_jobs := ?o, once_file := f, thread_alive := True\<rparr>"
    unfolding restart_def start_scheduler_def Let_def using c o(1) by simp
  show "scheduled_jobs (restart now s) = ?c" "scheduled_once_jobs (restart now s) = ?o" by (simp_all add: r)
  have "filter durable (map snd ?c) = filter durable (map snd (scheduled_jobs s))" unfolding filter_snd by simp
  moreover have "filter once_durable (map snd ?o) = filter (\<lambda>j. once_durable j \<and> fl_lt now (run_at j)) (map snd (scheduled_once_jobs s))"
    unfolding filter_snd by (rule filter_cong) auto
  moreover have "keys_ok (restart now s)" using assms by (auto simp: r good_def keys_ok_def list_all_iff distinct_map_filter)
  ultimately show "good (restart now s)"
    using assms o(2) by (auto simp: good_def r list_all_iff conj_again)
qed

section \<open>Reachable schedules\<close>

text \<open>Every operation as a step; the random number of a new job gives an id that is not in use.\<close>

inductive cron_step :: "(string \<Rightarrow> pyfloat option) \<Rightarrow> cron_state \<Rightarrow> cron_state \<Rightarrow> bool" for fromiso where
  step_schedule: "''cron_'' @ pad_zeros 6 (nat_str n) \<notin> fst ` set (scheduled_jobs s) \<Longrightarrow>
    cron_step fromiso s (fst (schedule_job n e p r d s))"
| step_once: "''once_'' @ pad_zeros 6 (nat_str n) \<notin> fst ` set (scheduled_once_jobs s) \<Longrightarrow>
    cron_step fromiso s (fst (schedule_once fromiso now later n p dl at_text d s))"
| step_cancel: "cron_step fromiso s (fst (run_cancel_cron i s))"
| step_tick: "cron_step fromiso s (cron_tick dt clock s)"
| step_consume: "cron_step fromiso s (fst (consume_cron_queue s))"
| step_stop: "cron_step fromiso s (fst (stop_scheduler exits s))"
| step_restart: "cron_step fromiso s (restart now s)"

definition no_jobs :: cron_state where
  "no_jobs = \<lparr>scheduled_jobs = [], scheduled_once_jobs = [], cron_queue = [], last_fired = [], cron_file = Missing,
     once_file = Missing, disk_writable = True, thread_alive = False, stop_flag = False\<rparr>"

lemma run_cancel_good: "good s \<Longrightarrow> good (fst (run_cancel_cron i s))"
  using cancel_good[of s i] cancel_good(2)[of "fst (cancel_job i s)" i]
  by (auto simp: run_cancel_cron_def split: prod.splits sum.splits)

lemma cron_step_good: "cron_step fromiso s t \<Longrightarrow> good s \<Longrightarrow> good t"
proof (induction rule: cron_step.induct)
  case (step_consume s)
  then show ?case by (simp add: consume_cron_queue_def good_def keys_ok_def)
next
  case (step_stop s exits)
  then show ?case by (simp add: stop_scheduler_def Let_def good_def keys_ok_def)
qed (simp_all add: schedule_job_good schedule_once_good run_cancel_good cron_tick_good restart_effect)

lemma reachable_good: "(cron_step fromiso)\<^sup>*\<^sup>* no_jobs s \<Longrightarrow> good s"
proof (induction rule: rtranclp_induct)
  case base
  show ?case by (simp add: good_def no_jobs_def keys_ok_def file_holds_def)
qed (rule cron_step_good)


section \<open>What is refused late or not at all\<close>

lemma superscript_not_int:
  assumes "py_isdigit f" "c \<in> set f" "\<not> char_isdecimal c"
  shows "py_int f = None"
proof -
  have d: "char_isdigit x" if "x \<in> set f" for x using assms(1) that by (auto simp: py_isdigit_def list_all_iff)
  have sp: "\<not> char_isspace x \<and> x \<notin> {CHR ''-'', CHR ''+'', CHR ''_''}" if "x \<in> set f" for x
    using d[OF that] by (auto simp: char_isdigit_def char_isspace_def Let_def)
  have "int_body b f' = None" if "c \<in> set f'" "set f' \<subseteq> set f" for b f'
    using that
  proof (induction f' arbitrary: b)
    case (Cons x xs)
    then show ?case using assms(3) sp[of x] by (cases "x = c") auto
  qed simp
  then have "unsigned_int f = None" using assms(2) by (simp add: unsigned_int_def)
  moreover have "py_strip f = f" by (rule py_strip_id) (use sp in \<open>auto simp: list_all_iff\<close>)
  moreover obtain x xs where "f = x # xs" using assms(2) by (cases f) auto
  ultimately show ?thesis using sp[of x] by (simp add: py_int_def)
qed

text \<open>A field of digits in the sense of \<open>str.isdigit\<close> that holds a digit \<open>int\<close> does not read, such as a superscript two,
  is not refused with a message: validating it raises \<open>ValueError\<close>.\<close>

theorem validate_cron_field_raises:
  assumes "py_isdigit f" "c \<in> set f" "\<not> char_isdecimal c"
  shows "validate_cron_field f lo hi = Inl ''ValueError''"
proof -
  have "\<forall>x\<in>set f. char_isdigit x" using assms(1) by (simp add: py_isdigit_def list_all_iff)
  then have d: "CHR ''*'' \<notin> set f" "CHR '','' \<notin> set f" "CHR ''-'' \<notin> set f" by (auto simp: char_isdigit_def Let_def)
  then have "f \<noteq> ''*''" "\<not> py_startswith f ''*/''" by (auto simp: py_startswith_iff)
  with d superscript_not_int[OF assms] assms(1) show ?thesis by (subst validate_cron_field.simps) simp
qed

text \<open>A delay that is infinite or not a number is accepted; the job it stores is never due.\<close>

theorem schedule_once_never_due:
  assumes "d = Nan \<or> d = Pos_inf" "disk_writable s"
  shows "\<exists>job s'. schedule_once fromiso (Fin a) (Fin b) n p (Delay d) None dur s = (s', Inr (Stored job))
    \<and> map_of (scheduled_once_jobs s') (once_id job) = Some job \<and> (\<forall>c. \<not> once_due (Fin c) job)"
  using assms
  by (auto simp: schedule_once_def once_target_def fl_lt_def Let_def save_durable_once_jobs_def once_due_def update_conv')

section \<open>Examples\<close>

definition sample_now :: datetime where
  "sample_now = \<lparr>year = 2026, month = 7, day = 6, hour = 16, minute = 30\<rparr>"

definition sample_jobs :: cron_state where
  "sample_jobs = fst (schedule_job 7 ''30 * * * *'' ''p'' True True no_jobs)"

lemma sample_valid: "validate_cron ''30 * * * *'' = Inr None"
  by code_simp

lemma sample_id: "pad_zeros 6 (nat_str 7) = ''000007''"
  by code_simp

lemma sample_reachable: "(cron_step (\<lambda>_. None))\<^sup>*\<^sup>* no_jobs sample_jobs"
  unfolding sample_jobs_def by (rule r_into_rtranclp, rule step_schedule) (simp add: no_jobs_def)

lemma sample_job: "scheduled_jobs sample_jobs =
    [(''cron_000007'', \<lparr>job_id = ''cron_000007'', cron = ''30 * * * *'', prompt = ''p'', recurring = True, durable = True\<rparr>)]"
  by (simp add: sample_jobs_def schedule_job_def sample_valid no_jobs_def save_durable_jobs_def sample_id Let_def)

lemma sample_last: "last_fired sample_jobs = []"
  by (simp add: sample_jobs_def schedule_job_def sample_valid no_jobs_def save_durable_jobs_def Let_def)

lemma sample_keys: "keys_ok sample_jobs"
  using reachable_good[OF sample_reachable] by (simp add: good_def)

lemma sample_matches: "cron_matches ''30 * * * *'' sample_now = Inr True"
proof -
  have "py_split_ws (py_strip ''30 * * * *'') = [''30'', ''*'', ''*'', ''*'', ''*'']" by code_simp
  moreover have "cron_field_matches ''30'' 30 = Inr True" by code_simp
  moreover have "cron_field_matches ''*'' v = Inr True" for v by (simp add: cron_field_matches.simps)
  ultimately show ?thesis by (simp add: cron_matches_def sample_now_def Let_def)
qed

theorem cron_tick_exact_witness:
  "keys_ok sample_jobs \<and> cron_ids (cron_queue (cron_tick sample_now (Fin 0) sample_jobs)) \<noteq> []"
proof -
  have "filter (due sample_now (last_fired sample_jobs)) (map snd (scheduled_jobs sample_jobs)) = map snd (scheduled_jobs sample_jobs)"
    by (simp add: sample_job sample_last due_def sample_matches)
  with cron_tick_exact[OF sample_keys, of sample_now "Fin 0"] show ?thesis
    using sample_keys by (simp add: sample_job)
qed

theorem cron_fires_once_witness:
  "\<exists>fired. cron_queue (run_ticks [(sample_now, Fin 0), (sample_now, Fin 1)] sample_jobs) = cron_queue sample_jobs @ fired
     \<and> distinct (cron_ids fired)"
  using cron_fires_once[OF sample_keys, of "[(sample_now, Fin 0), (sample_now, Fin 1)]" "marker_of sample_now"] by auto


theorem validate_cron_field_raises_witness:
  "py_isdigit [CHR 0xB2] \<and> validate_cron_field [CHR 0xB2] 0 59 = Inl ''ValueError''"
proof -
  have "py_isdigit [CHR 0xB2]" "\<not> char_isdecimal (CHR 0xB2)" by (simp_all add: py_isdigit_def char_isdigit_def char_isdecimal_def)
  then show ?thesis using validate_cron_field_raises[of "[CHR 0xB2]" "CHR 0xB2" 0 59] by simp
qed

theorem schedule_once_never_due_witness:
  "\<exists>job s'. schedule_once (\<lambda>_. None) (Fin 0) (Fin 0) 1 ''p'' (Delay Nan) None True no_jobs = (s', Inr (Stored job))
     \<and> (\<forall>c. \<not> once_due (Fin c) job)"
  using schedule_once_never_due[of Nan no_jobs "\<lambda>_. None" 0 0 1 "''p''" True] by (auto simp: no_jobs_def)

end
