(* ===== verification/Bus.thy ===== *)
theory Bus
  imports Prelude
begin

text \<open>
  Team messages: the mailboxes of \<open>message_bus.py\<close> and the request protocol of \<open>protocol.py\<close>.

  A mailbox is a JSONL file, here the list of its messages (\<open>json.dumps\<close> keeps a message on one line); time stamps and
  recorded events are left out. \<open>read_inbox\<close> reads the file and then unlinks it: two steps,
  between which another thread may append.

  Shown: as long as the two steps are not separated, every message is delivered once and in order; a message sent between
  them is lost; and after the lead's inbox is routed a request has the verdict of the last response of its own kind.
\<close>

section \<open>Mailboxes\<close>

record message =
  m_from :: string
  m_to :: string
  m_content :: string
  m_type :: string
  m_request_id :: "string option"
  m_approve :: "bool option"

type_synonym mailboxes = "message list dict"

definition send :: "message \<Rightarrow> mailboxes \<Rightarrow> mailboxes" where
  "send msg boxes = dict_set (m_to msg) (dict_get boxes (m_to msg) [] @ [msg]) boxes"

text \<open>The two halves of \<open>read_inbox\<close>.\<close>

definition inbox_text :: "string \<Rightarrow> mailboxes \<Rightarrow> message list" where
  "inbox_text agent boxes = (case map_of boxes agent of None \<Rightarrow> [] | Some msgs \<Rightarrow> msgs)"

definition inbox_unlink :: "string \<Rightarrow> mailboxes \<Rightarrow> mailboxes" where
  "inbox_unlink agent boxes = dict_pop agent boxes"

definition read_inbox :: "string \<Rightarrow> mailboxes \<Rightarrow> message list \<times> mailboxes" where
  "read_inbox agent boxes = (inbox_text agent boxes, inbox_unlink agent boxes)"

section \<open>Requests\<close>

datatype verdict = Pending | Approved | Rejected

record protocol_state =
  ps_request_id :: string
  ps_type :: string
  ps_sender :: string
  ps_target :: string
  ps_status :: verdict
  ps_payload :: string

record team_state =
  mailboxes :: mailboxes
  pending_requests :: "protocol_state dict"

definition new_request_id :: "nat \<Rightarrow> string" where
  "new_request_id n = ''req_'' @ pad_zeros 6 (nat_str n)"

definition verdict_of :: "bool \<Rightarrow> verdict" where
  "verdict_of approve = (if approve then Approved else Rejected)"

definition match_response :: "string \<Rightarrow> string \<Rightarrow> bool \<Rightarrow> protocol_state dict \<Rightarrow> protocol_state dict" where
  "match_response response_type request_id approve reqs = (case map_of reqs request_id of
     None \<Rightarrow> reqs
   | Some st \<Rightarrow>
       if ps_type st = ''shutdown'' \<and> response_type \<noteq> ''shutdown_response'' then reqs
       else if ps_type st = ''plan_approval'' \<and> response_type \<noteq> ''plan_approval_response'' then reqs
       else dict_set request_id (st\<lparr>ps_status := verdict_of approve\<rparr>) reqs)"

definition route_message :: "message \<Rightarrow> protocol_state dict \<Rightarrow> protocol_state dict" where
  "route_message msg reqs =
     (let req_id = (case m_request_id msg of None \<Rightarrow> [] | Some i \<Rightarrow> i) in
      if req_id \<noteq> [] \<and> py_endswith (m_type msg) ''_response''
      then match_response (m_type msg) req_id (case m_approve msg of None \<Rightarrow> False | Some a \<Rightarrow> a) reqs else reqs)"

definition consume_lead_inbox :: "bool \<Rightarrow> team_state \<Rightarrow> message list \<times> team_state" where
  "consume_lead_inbox route_protocol s = (case read_inbox ''lead'' (mailboxes s) of (msgs, boxes) \<Rightarrow>
     let s1 = s\<lparr>mailboxes := boxes\<rparr> in
     (msgs, if route_protocol then s1\<lparr>pending_requests := fold route_message msgs (pending_requests s1)\<rparr> else s1))"

section \<open>The lead's and the teammates' tools\<close>

definition run_request_shutdown :: "nat \<Rightarrow> string \<Rightarrow> team_state \<Rightarrow> string \<times> team_state" where
  "run_request_shutdown n teammate s =
     (let req_id = new_request_id n;
          req = \<lparr>ps_request_id = req_id, ps_type = ''shutdown'', ps_sender = ''lead'', ps_target = teammate,
                 ps_status = Pending, ps_payload = []\<rparr>;
          msg = \<lparr>m_from = ''lead'', m_to = teammate, m_content = ''Shut down.'', m_type = ''shutdown_request'',
                 m_request_id = Some req_id, m_approve = None\<rparr>
      in (''Shutdown request sent to '' @ teammate,
          s\<lparr>pending_requests := dict_set req_id req (pending_requests s), mailboxes := send msg (mailboxes s)\<rparr>))"

definition run_request_plan :: "string \<Rightarrow> string \<Rightarrow> team_state \<Rightarrow> string \<times> team_state" where
  "run_request_plan teammate task s =
     (''Asked '' @ teammate @ '' to submit a plan'',
      s\<lparr>mailboxes := send \<lparr>m_from = ''lead'', m_to = teammate, m_content = ''Submit plan for: '' @ task,
        m_type = ''message'', m_request_id = None, m_approve = None\<rparr> (mailboxes s)\<rparr>)"

definition run_review_plan :: "string \<Rightarrow> bool \<Rightarrow> string \<Rightarrow> team_state \<Rightarrow> string \<times> team_state" where
  "run_review_plan request_id approve feedback s = (case map_of (pending_requests s) request_id of
     None \<Rightarrow> (''Request '' @ request_id @ '' not found'', s)
   | Some st \<Rightarrow>
       (''Plan '' @ (if approve then ''approved'' else ''rejected''),
        s\<lparr>pending_requests := dict_set request_id (st\<lparr>ps_status := verdict_of approve\<rparr>) (pending_requests s),
          mailboxes := send \<lparr>m_from = ''lead'', m_to = ps_sender st,
            m_content = or_str feedback (if approve then ''Approved'' else ''Rejected''),
            m_type = ''plan_approval_response'', m_request_id = Some request_id, m_approve = Some approve\<rparr> (mailboxes s)\<rparr>))"

definition teammate_submit_plan :: "nat \<Rightarrow> string \<Rightarrow> string \<Rightarrow> team_state \<Rightarrow> string \<times> team_state" where
  "teammate_submit_plan n from_name plan s =
     (let req_id = new_request_id n;
          req = \<lparr>ps_request_id = req_id, ps_type = ''plan_approval'', ps_sender = from_name, ps_target = ''lead'',
                 ps_status = Pending, ps_payload = plan\<rparr>;
          msg = \<lparr>m_from = from_name, m_to = ''lead'', m_content = plan, m_type = ''plan_approval_request'',
                 m_request_id = Some req_id, m_approve = None\<rparr>
      in (''Plan submitted ('' @ req_id @ '')'',
          s\<lparr>pending_requests := dict_set req_id req (pending_requests s), mailboxes := send msg (mailboxes s)\<rparr>))"

section \<open>Delivery\<close>

text \<open>A mailbox as its users see it: what is in an agent's box after a send and after a read.\<close>

locale mailbox =
  fixes contents :: "'b \<Rightarrow> string \<Rightarrow> 'm list"
    and put :: "'m \<Rightarrow> 'b \<Rightarrow> 'b"
    and receiver :: "'m \<Rightarrow> string"
    and take_all :: "string \<Rightarrow> 'b \<Rightarrow> 'm list \<times> 'b"
  assumes put_contents: "contents (put m b) a = contents b a @ (if a = receiver m then [m] else [])"
    and take_result: "fst (take_all a b) = contents b a"
    and take_contents: "contents (snd (take_all a b)) c = (if c = a then [] else contents b c)"
begin

text \<open>A history: \<open>Inl m\<close> sends \<open>m\<close>, \<open>Inr a\<close> reads the box of \<open>a\<close>. What \<open>c\<close> received, and what was sent to \<open>c\<close>.\<close>

fun received :: "string \<Rightarrow> ('m + string) list \<Rightarrow> 'b \<Rightarrow> 'm list" where
  "received c [] b = []"
| "received c (Inl m # h) b = received c h (put m b)"
| "received c (Inr a # h) b = (if a = c then fst (take_all a b) else []) @ received c h (snd (take_all a b))"

fun after :: "('m + string) list \<Rightarrow> 'b \<Rightarrow> 'b" where
  "after [] b = b"
| "after (Inl m # h) b = after h (put m b)"
| "after (Inr a # h) b = after h (snd (take_all a b))"

fun sent :: "string \<Rightarrow> ('m + string) list \<Rightarrow> 'm list" where
  "sent c [] = []"
| "sent c (Inl m # h) = (if c = receiver m then [m] else []) @ sent c h"
| "sent c (Inr a # h) = sent c h"

lemma delivery: "received c h b @ contents (after h b) c = contents b c @ sent c h"
  by (induction c h b rule: received.induct) (auto simp: put_contents take_result take_contents)

end

interpretation bus: mailbox "\<lambda>boxes agent. inbox_text agent boxes" send m_to read_inbox
proof
  fix m :: message and b a c
  show "inbox_text a (send m b) = inbox_text a b @ (if a = m_to m then [m] else [])"
    by (simp add: inbox_text_def send_def dict_get_def update_conv' split: option.splits)
  show "fst (read_inbox a b) = inbox_text a b" by (simp add: read_inbox_def)
  show "inbox_text c (snd (read_inbox a b)) = (if c = a then [] else inbox_text c b)"
    by (simp add: read_inbox_def inbox_unlink_def inbox_text_def delete_conv')
qed

text \<open>A history of the message bus at the top level: \<open>Inl\<close> a send, \<open>Inr\<close> a whole \<open>read_inbox\<close>.\<close>

fun bus_run :: "string \<Rightarrow> (message + string) list \<Rightarrow> mailboxes \<Rightarrow> message list \<times> mailboxes" where
  "bus_run c [] boxes = ([], boxes)"
| "bus_run c (Inl m # h) boxes = bus_run c h (send m boxes)"
| "bus_run c (Inr a # h) boxes = (case read_inbox a boxes of (msgs, boxes1) \<Rightarrow>
     case bus_run c h boxes1 of (rest, boxes2) \<Rightarrow> ((if a = c then msgs else []) @ rest, boxes2))"

definition sent_to :: "string \<Rightarrow> (message + string) list \<Rightarrow> message list" where
  "sent_to c h = concat (map (\<lambda>e. case e of Inl m \<Rightarrow> if m_to m = c then [m] else [] | Inr a \<Rightarrow> []) h)"

lemma bus_run_locale: "bus_run c h boxes = (bus.received c h boxes, bus.after h boxes)"
proof (induction h arbitrary: boxes)
  case (Cons e h)
  then show ?case by (cases e) (simp_all add: split_beta)
qed simp

lemma sent_to_locale: "sent_to c h = bus.sent c h"
  by (induction c h rule: bus.sent.induct) (auto simp: sent_to_def)

text \<open>C31: Over every sequence of sends and whole reads, what an agent read followed by what is still in its mailbox is
  what was there before followed by what was sent to it: nothing is lost, duplicated, reordered or misdelivered.\<close>

theorem bus_delivers:
  "fst (bus_run c h boxes) @ inbox_text c (snd (bus_run c h boxes)) = inbox_text c boxes @ sent_to c h"
  by (simp add: bus_run_locale sent_to_locale bus.delivery)

text \<open>A message sent to an agent between the two halves of its \<open>read_inbox\<close> is neither returned nor kept.\<close>

theorem read_inbox_race:
  "inbox_text (m_to m) (inbox_unlink (m_to m) (send m boxes)) = []
   \<and> (m \<notin> set (inbox_text (m_to m) boxes) \<longrightarrow>
      m \<notin> set (fst (read_inbox (m_to m) boxes) @ inbox_text (m_to m) (inbox_unlink (m_to m) (send m boxes))))"
  by (simp add: read_inbox_def inbox_unlink_def inbox_text_def delete_conv')

section \<open>Verdicts\<close>

text \<open>A message that decides a request of type \<open>t\<close> with id \<open>i\<close>.\<close>

definition fits :: "string \<Rightarrow> string \<Rightarrow> bool" where
  "fits t response = ((t = ''shutdown'' \<longrightarrow> response = ''shutdown_response'') \<and> (t = ''plan_approval'' \<longrightarrow> response = ''plan_approval_response''))"

definition decides :: "string \<Rightarrow> string \<Rightarrow> message \<Rightarrow> bool" where
  "decides t i m = (m_request_id m = Some i \<and> i \<noteq> [] \<and> py_endswith (m_type m) ''_response'' \<and> fits t (m_type m))"

definition approves :: "message \<Rightarrow> bool" where
  "approves m = (m_approve m = Some True)"

definition decided :: "message list \<Rightarrow> string \<Rightarrow> protocol_state \<Rightarrow> protocol_state" where
  "decided msgs i st = (case rev (filter (decides (ps_type st) i) msgs) of
     [] \<Rightarrow> st | m # _ \<Rightarrow> st\<lparr>ps_status := verdict_of (approves m)\<rparr>)"

lemma match_response_lookup:
  "map_of (match_response t r a reqs) i =
     map_option (\<lambda>st. if i = r \<and> fits (ps_type st) t then st\<lparr>ps_status := verdict_of a\<rparr> else st) (map_of reqs i)"
proof (cases "map_of reqs r")
  case None
  then show ?thesis by (cases "map_of reqs i"; cases "i = r") (simp_all add: match_response_def)
next
  case (Some st)
  then show ?thesis
    by (cases "i = r"; cases "map_of reqs i"; cases "fits (ps_type st) t") (auto simp: match_response_def fits_def update_conv')
qed

lemma decided_one: "decided [m] i st = (if decides (ps_type st) i m then st\<lparr>ps_status := verdict_of (approves m)\<rparr> else st)"
  by (simp add: decided_def)

lemma route_message_one: "map_of (route_message m reqs) i = map_option (decided [m] i) (map_of reqs i)"
proof (cases "m_request_id m")
  case None
  then show ?thesis by (cases "map_of reqs i") (simp_all add: route_message_def decided_one decides_def)
next
  case (Some r)
  have a: "(case m_approve m of None \<Rightarrow> False | Some a \<Rightarrow> a) = approves m" by (cases "m_approve m") (simp_all add: approves_def)
  show ?thesis
  proof (cases "r \<noteq> [] \<and> py_endswith (m_type m) ''_response''")
    case True
    then have "route_message m reqs = match_response (m_type m) r (approves m) reqs"
      using Some a by (simp add: route_message_def)
    with True Some show ?thesis
      by (cases "map_of reqs i") (auto simp: match_response_lookup decided_one decides_def)
  next
    case False
    then have "route_message m reqs = reqs" using Some by (auto simp: route_message_def)
    with False Some show ?thesis by (cases "map_of reqs i") (auto simp: decided_one decides_def)
  qed
qed

lemma decided_type [simp]: "ps_type (decided msgs i st) = ps_type st"
  by (simp add: decided_def split: list.splits)

lemma decided_append: "decided (ms @ [m]) i st = decided [m] i (decided ms i st)"
proof -
  have "ps_type (decided ms i st) = ps_type st" by simp
  then show ?thesis unfolding decided_def[of "ms @ [m]"] decided_def[of "[m]"]
    by (auto simp: decided_def split: list.splits)
qed

lemma route_all: "map_of (fold route_message msgs reqs) i = map_option (decided msgs i) (map_of reqs i)"
proof (induction msgs rule: rev_induct)
  case Nil
  have "decided [] i = (\<lambda>st. st)" by (simp add: decided_def fun_eq_iff)
  then show ?case by (simp add: option.map_ident)
next
  case (snoc m ms)
  have "decided (ms @ [m]) i = (\<lambda>st. decided [m] i (decided ms i st))" using decided_append by blast
  with snoc show ?case by (simp add: route_message_one option.map_comp comp_def)
qed

text \<open>When the lead's inbox is consumed with routing, every pending request gets the verdict of the last message in it
  that is a response to that very request and of the kind its type calls for; without one it
  keeps its state. No request appears or disappears.\<close>

theorem consume_routes_verdicts:
  "map_of (pending_requests (snd (consume_lead_inbox True s))) i
     = map_option (decided (inbox_text ''lead'' (mailboxes s)) i) (map_of (pending_requests s) i)"
  by (simp add: consume_lead_inbox_def read_inbox_def Let_def route_all)

text \<open>A plan approval does not answer a shutdown request when it arrives as a message, but the lead's tool for reviewing
  plans decides whatever request the id names, a shutdown request too.\<close>

theorem review_plan_decides_shutdown:
  assumes "map_of (pending_requests s) i = Some st" "ps_type st = ''shutdown''"
  shows "match_response ''plan_approval_response'' i approve (pending_requests s) = pending_requests s
    \<and> map_of (pending_requests (snd (run_review_plan i approve feedback s))) i = Some (st\<lparr>ps_status := verdict_of approve\<rparr>)"
  using assms by (simp add: match_response_def run_review_plan_def update_conv')

section \<open>Examples\<close>

definition lead_says :: message where
  "lead_says = \<lparr>m_from = ''lead'', m_to = ''ann'', m_content = ''hi'', m_type = ''message'', m_request_id = None, m_approve = None\<rparr>"

theorem read_inbox_race_witness:
  "inbox_text ''ann'' (inbox_unlink ''ann'' (send lead_says [])) = []
   \<and> lead_says \<notin> set (fst (read_inbox ''ann'' []))"
  using read_inbox_race[of lead_says "[]"] by (simp add: lead_says_def inbox_text_def)

theorem review_plan_decides_shutdown_witness:
  "\<exists>i st. map_of (pending_requests (snd (run_review_plan i True [] (snd (run_request_shutdown 5 ''ann'' \<lparr>mailboxes = [], pending_requests = []\<rparr>))))) i
      = Some st \<and> ps_type st = ''shutdown'' \<and> ps_status st = Approved"
proof -
  let ?s = "snd (run_request_shutdown 5 ''ann'' \<lparr>mailboxes = [], pending_requests = []\<rparr>)"
  obtain st where st: "map_of (pending_requests ?s) (new_request_id 5) = Some st" "ps_type st = ''shutdown''"
    by (simp add: run_request_shutdown_def Let_def)
  from review_plan_decides_shutdown[OF st, of True "[]"] st(2) show ?thesis
    by (intro exI[of _ "new_request_id 5"] exI[of _ "st\<lparr>ps_status := Approved\<rparr>"]) (simp add: verdict_of_def)
qed

end
