(* ===== verification/Tasks.thy ===== *)
theory Tasks
  imports Bus
begin

text \<open>
  The shared task list of \<open>task_system.py\<close>, its binding to worktrees (\<open>worktree_system.py\<close>) and the polling of idle
  teammates (\<open>autonomous.py\<close>).

  The directory of task files is a dictionary from ids to tasks; \<open>FileNotFoundError\<close> is \<open>Inl\<close>. A claim reads the task, checks it
  and writes it back: \<open>claim_check\<close> and \<open>claim_save\<close>, which the code runs without a lock. Reply texts are constructors.

  Shown: as long as claims are not interleaved, no task is claimed twice and every task in work has all
  its blockers completed; two interleaved claims both succeed.
\<close>

section \<open>Tasks\<close>

datatype task_status = Task_pending | Task_in_progress | Task_completed

record task =
  task_id :: string
  subject :: string
  description :: string
  task_status :: task_status
  owner :: "string option"
  blockedBy :: "string list"
  worktree :: "string option"

type_synonym tasks = "task dict"

definition truthy :: "string option \<Rightarrow> bool" where
  "truthy o' = (case o' of None \<Rightarrow> False | Some s \<Rightarrow> s \<noteq> [])"

definition save_task :: "task \<Rightarrow> tasks \<Rightarrow> tasks" where
  "save_task t ts = dict_set (task_id t) t ts"

definition load_task :: "string \<Rightarrow> tasks \<Rightarrow> string + task" where
  "load_task i ts = (case map_of ts i of None \<Rightarrow> Inl ''FileNotFoundError'' | Some t \<Rightarrow> Inr t)"

text \<open>\<open>f"task_{int(time.time())}_{random:04d}"\<close>.\<close>

definition new_task_id :: "nat \<Rightarrow> nat \<Rightarrow> string" where
  "new_task_id now n = ''task_'' @ nat_str now @ ''_'' @ pad_zeros 4 (nat_str n)"

definition create_task :: "nat \<Rightarrow> nat \<Rightarrow> string \<Rightarrow> string \<Rightarrow> string list \<Rightarrow> tasks \<Rightarrow> task \<times> tasks" where
  "create_task now n subj descr blockers ts =
     (let t = \<lparr>task_id = new_task_id now n, subject = subj, description = descr, task_status = Task_pending, owner = None,
               blockedBy = blockers, worktree = None\<rparr>
      in (t, save_task t ts))"

text \<open>\<open>sorted(TASKS_DIR.glob("task_*.json"))\<close>.\<close>

definition list_tasks :: "tasks \<Rightarrow> task list" where
  "list_tasks ts = map snd (sort_key (\<lambda>(i, t). i @ ''.json'') (filter (\<lambda>(i, t). py_startswith i ''task_'') ts))"

definition dep_completed :: "tasks \<Rightarrow> string \<Rightarrow> bool" where
  "dep_completed ts d = (case map_of ts d of None \<Rightarrow> False | Some t \<Rightarrow> task_status t = Task_completed)"

definition can_start :: "string \<Rightarrow> tasks \<Rightarrow> string + bool" where
  "can_start i ts = (case load_task i ts of Inl e \<Rightarrow> Inl e | Inr t \<Rightarrow> Inr (list_all (dep_completed ts) (blockedBy t)))"

datatype claim_reply = Not_pending task_status | Already_owned string | Cannot_start "string list" "string list" | Claimed

text \<open>Up to the first write: the task as it was read, or the reply of a rejected claim.\<close>

definition claim_check :: "string \<Rightarrow> tasks \<Rightarrow> string + (claim_reply + task)" where
  "claim_check i ts = (case load_task i ts of
     Inl e \<Rightarrow> Inl e
   | Inr t \<Rightarrow>
       if task_status t \<noteq> Task_pending then Inr (Inl (Not_pending (task_status t)))
       else if truthy (owner t) then Inr (Inl (Already_owned (the (owner t))))
       else case can_start i ts of
         Inl e \<Rightarrow> Inl e
       | Inr startable \<Rightarrow>
           if \<not> startable
           then Inr (Inl (Cannot_start (filter (\<lambda>d. map_of ts d \<noteq> None \<and> \<not> dep_completed ts d) (blockedBy t))
                                       (filter (\<lambda>d. map_of ts d = None) (blockedBy t))))
           else Inr (Inr t))"

definition claim_save :: "task \<Rightarrow> string \<Rightarrow> tasks \<Rightarrow> tasks" where
  "claim_save t own ts = save_task (t\<lparr>owner := Some own, task_status := Task_in_progress\<rparr>) ts"

definition claim_task :: "string \<Rightarrow> string \<Rightarrow> tasks \<Rightarrow> string + (claim_reply \<times> tasks)" where
  "claim_task i own ts = (case claim_check i ts of
     Inl e \<Rightarrow> Inl e
   | Inr (Inl reply) \<Rightarrow> Inr (reply, ts)
   | Inr (Inr t) \<Rightarrow> Inr (Claimed, claim_save t own ts))"

datatype complete_reply = Not_in_progress task_status | Completed "string list"

definition is_unblocked :: "tasks \<Rightarrow> task \<Rightarrow> bool" where
  "is_unblocked ts t = (task_status t = Task_pending \<and> blockedBy t \<noteq> [] \<and> can_start (task_id t) ts = Inr True)"

definition complete_task :: "string \<Rightarrow> tasks \<Rightarrow> string + (complete_reply \<times> tasks)" where
  "complete_task i ts = (case load_task i ts of
     Inl e \<Rightarrow> Inl e
   | Inr t \<Rightarrow>
       if task_status t \<noteq> Task_in_progress then Inr (Not_in_progress (task_status t), ts)
       else let ts1 = save_task (t\<lparr>task_status := Task_completed\<rparr>) ts
            in Inr (Completed (map subject (filter (is_unblocked ts1) (list_tasks ts1))), ts1))"

section \<open>Worktrees\<close>

text \<open>\<open>^[A-Za-z0-9._-]{1,64}$\<close> with \<open>re.match\<close>: the dollar also matches before a final newline.\<close>

definition wt_char :: "char \<Rightarrow> bool" where
  "wt_char c = (let n = cp c in (65 \<le> n \<and> n \<le> 90) \<or> (97 \<le> n \<and> n \<le> 122) \<or> (48 \<le> n \<and> n \<le> 57)
     \<or> c = CHR ''.'' \<or> c = CHR ''_'' \<or> c = CHR ''-'')"

definition VALID_WT_NAME :: "string \<Rightarrow> bool" where
  "VALID_WT_NAME s = (let core = (if s \<noteq> [] \<and> last s = CHR 0x0A then butlast s else s)
     in 1 \<le> length core \<and> length core \<le> 64 \<and> list_all wt_char core)"

definition validate_worktree_name :: "string \<Rightarrow> string option" where
  "validate_worktree_name s =
     (if s = [] then Some ''Worktree name cannot be empty''
      else if s = ''.'' \<or> s = ''..'' then Some ([CHR 0x27] @ s @ [CHR 0x27] @ '' is not a valid worktree name'')
      else if \<not> VALID_WT_NAME s
      then Some (''Invalid worktree name '' @ [CHR 0x27] @ s @ [CHR 0x27] @ '': only letters, digits, dots, underscores, dashes (1-64 chars)'')
      else None)"

definition bind_task_to_worktree :: "string \<Rightarrow> string \<Rightarrow> tasks \<Rightarrow> string + tasks" where
  "bind_task_to_worktree i wt ts = (case load_task i ts of
     Inl e \<Rightarrow> Inl e | Inr t \<Rightarrow> Inr (save_task (t\<lparr>worktree := Some wt\<rparr>) ts))"

text \<open>\<open>exists\<close> is whether the directory is there; \<open>git_add\<close> the outcome of \<open>git worktree add\<close>.\<close>

definition create_worktree :: "string \<Rightarrow> (string \<Rightarrow> bool) \<Rightarrow> (string \<Rightarrow> bool \<times> string) \<Rightarrow> string \<Rightarrow> string \<Rightarrow> tasks \<Rightarrow>
    (string + string) \<times> tasks" where
  "create_worktree root exists git_add nm tid ts =
     (case validate_worktree_name nm of
        Some err \<Rightarrow> (Inr (''Error: '' @ err), ts)
      | None \<Rightarrow>
          if tid \<noteq> [] \<and> isl (load_task tid ts) then (Inr (''Error: task '' @ tid @ '' not found''), ts)
          else let target = root @ ''/'' @ nm in
               if exists target then (Inr (''Worktree '' @ [CHR 0x27] @ nm @ [CHR 0x27] @ '' already exists at '' @ target), ts)
               else case git_add target of
                 (False, result) \<Rightarrow> (Inr (''Git error: '' @ result), ts)
               | (True, _) \<Rightarrow>
                   (case (if tid \<noteq> [] then bind_task_to_worktree tid nm ts else Inr ts) of
                      Inl e \<Rightarrow> (Inl e, ts)
                    | Inr ts1 \<Rightarrow> (Inr (''Worktree '' @ [CHR 0x27] @ nm @ [CHR 0x27] @ '' created at '' @ target), ts1)))"

section \<open>Idle teammates\<close>

definition scan_unclaimed_tasks :: "tasks \<Rightarrow> task list" where
  "scan_unclaimed_tasks ts =
     filter (\<lambda>t. task_status t = Task_pending \<and> \<not> truthy (owner t) \<and> can_start (task_id t) ts = Inr True) (list_tasks ts)"

datatype wake = Woken_by_inbox "message list" | Woken_by_task string string "string option"

datatype idle_result = Idle_shutdown | Idle_work wake

record workspace =
  bus :: mailboxes
  task_files :: tasks

definition shutdown_reply :: "string \<Rightarrow> message \<Rightarrow> message" where
  "shutdown_reply nm msg = \<lparr>m_from = nm, m_to = ''lead'', m_content = ''Shutting down.'', m_type = ''shutdown_response'',
     m_request_id = Some (case m_request_id msg of None \<Rightarrow> [] | Some i \<Rightarrow> i), m_approve = Some True\<rparr>"

text \<open>One round of \<open>idle_poll\<close>; \<open>stopped\<close> is the stop event, \<open>None\<close> goes on polling.\<close>

definition idle_round :: "string \<Rightarrow> bool \<Rightarrow> workspace \<Rightarrow> string + (idle_result option \<times> workspace)" where
  "idle_round nm stopped w =
     (if stopped then Inr (Some Idle_shutdown, w)
      else case read_inbox nm (bus w) of (inbox, boxes) \<Rightarrow>
        let w1 = w\<lparr>bus := boxes\<rparr> in
        if inbox \<noteq> [] then
          (case filter (\<lambda>m. m_type m = ''shutdown_request'') inbox of
             m # _ \<Rightarrow> Inr (Some Idle_shutdown, w1\<lparr>bus := send (shutdown_reply nm m) (bus w1)\<rparr>)
           | [] \<Rightarrow> Inr (Some (Idle_work (Woken_by_inbox inbox)), w1))
        else case scan_unclaimed_tasks (task_files w1) of
          [] \<Rightarrow> Inr (None, w1)
        | t # _ \<Rightarrow> (case claim_task (task_id t) nm (task_files w1) of
            Inl e \<Rightarrow> Inl e
          | Inr (reply, ts) \<Rightarrow>
              Inr (if reply = Claimed then Some (Idle_work (Woken_by_task (task_id t) (subject t)
                     (if truthy (worktree t) then worktree t else None))) else None, w1\<lparr>task_files := ts\<rparr>)))"

section \<open>Runs of the task list\<close>

text \<open>Each operation as one step, with the log of successful claims; a new task gets an id not in use.\<close>

inductive task_step :: "tasks \<times> string list \<Rightarrow> tasks \<times> string list \<Rightarrow> bool" where
  step_create: "new_task_id now n \<notin> fst ` set ts \<Longrightarrow> task_step (ts, log) (snd (create_task now n subj descr bs ts), log)"
| step_claim: "claim_task i own ts = Inr (Claimed, ts') \<Longrightarrow> task_step (ts, log) (ts', log @ [i])"
| step_reject: "claim_task i own ts = Inr (reply, ts') \<Longrightarrow> reply \<noteq> Claimed \<Longrightarrow> task_step (ts, log) (ts', log)"
| step_complete: "complete_task i ts = Inr (creply, ts') \<Longrightarrow> task_step (ts, log) (ts', log)"
| step_bind: "bind_task_to_worktree i wt ts = Inr ts' \<Longrightarrow> task_step (ts, log) (ts', log)"

text \<open>\<open>p\<close> is a task with its id; started tasks have completed blockers, and exactly the claimed ones are started.\<close>

definition started :: "task \<Rightarrow> bool" where
  "started t = (task_status t \<noteq> Task_pending)"

definition tasks_ok :: "tasks \<times> string list \<Rightarrow> bool" where
  "tasks_ok p = (case p of (ts, log) \<Rightarrow>
     (\<forall>i t. map_of ts i = Some t \<longrightarrow> task_id t = i \<and> (started t \<longrightarrow> list_all (dep_completed ts) (blockedBy t)))
     \<and> distinct log \<and> (\<forall>i. i \<in> set log \<longleftrightarrow> (\<exists>t. map_of ts i = Some t \<and> started t)))"

lemma load_task_Inr: "load_task i ts = Inr t \<longleftrightarrow> map_of ts i = Some t"
  by (auto simp: load_task_def split: option.splits)

lemma claim_check_ok:
  "claim_check i ts = Inr (Inr t) \<longleftrightarrow> map_of ts i = Some t \<and> task_status t = Task_pending \<and> \<not> truthy (owner t)
     \<and> list_all (dep_completed ts) (blockedBy t)"
  by (auto simp: claim_check_def load_task_def can_start_def split: option.splits)

lemma claim_task_cases:
  assumes "claim_task i own ts = Inr (reply, ts')"
  obtains t where "reply = Claimed" "claim_check i ts = Inr (Inr t)" "ts' = claim_save t own ts" | "reply \<noteq> Claimed" "ts' = ts"
proof -
  have no: "claim_check i ts \<noteq> Inr (Inl Claimed)"
    by (auto simp: claim_check_def load_task_def can_start_def split: option.splits)
  with assms that show ?thesis
    by (cases "claim_check i ts") (auto simp: claim_task_def split: sum.splits)
qed

text \<open>A completed blocker stays completed under a write that does not take that back.\<close>

lemma dep_completed_set:
  "(\<And>u. map_of ts i = Some u \<Longrightarrow> task_status u = Task_completed \<Longrightarrow> task_status t = Task_completed) \<Longrightarrow> dep_completed ts d
   \<Longrightarrow> dep_completed (dict_set i t ts) d"
  by (auto simp: dep_completed_def update_conv' split: option.splits)

lemma tasks_ok_write:
  assumes ok: "tasks_ok (ts, log)" and id: "task_id t = i"
    and keep: "\<And>u. map_of ts i = Some u \<Longrightarrow> task_status u = Task_completed \<Longrightarrow> task_status t = Task_completed"
    and deps: "started t \<Longrightarrow> list_all (dep_completed ts) (blockedBy t)"
    and log': "distinct log'" "set log' = (if started t then insert i (set log) else set log - {i})"
  shows "tasks_ok (dict_set i t ts, log')"
proof -
  have mono: "list_all (dep_completed (dict_set i t ts)) ds" if "list_all (dep_completed ts) ds" for ds
    using that dep_completed_set[of ts i t] keep by (auto simp: list_all_iff)
  have "task_id u = j \<and> (started u \<longrightarrow> list_all (dep_completed (dict_set i t ts)) (blockedBy u))"
    if "map_of (dict_set i t ts) j = Some u" for j u
    using that ok id deps mono by (cases "j = i") (auto simp: tasks_ok_def update_conv')
  moreover have "j \<in> set log' \<longleftrightarrow> (\<exists>u. map_of (dict_set i t ts) j = Some u \<and> started u)" for j
    using ok log'(2) by (cases "j = i") (auto simp: tasks_ok_def update_conv')
  ultimately show ?thesis using log'(1) by (auto simp: tasks_ok_def)
qed

lemma task_step_ok: "task_step p q \<Longrightarrow> tasks_ok p \<Longrightarrow> tasks_ok q"
proof (induction rule: task_step.induct)
  case (step_create now n ts log subj descr bs)
  then have "map_of ts (new_task_id now n) = None" by (simp add: map_of_eq_None_iff)
  moreover from this step_create.prems have "new_task_id now n \<notin> set log" by (auto simp: tasks_ok_def)
  ultimately show ?case unfolding create_task_def Let_def snd_conv save_task_def
    using step_create.prems by (intro tasks_ok_write) (auto simp: started_def tasks_ok_def)
next
  case (step_claim i own ts ts' log)
  obtain t where t: "claim_check i ts = Inr (Inr t)" "ts' = claim_save t own ts"
    by (rule claim_task_cases[OF step_claim.hyps]) auto
  then have m: "map_of ts i = Some t" "task_status t = Task_pending" "list_all (dep_completed ts) (blockedBy t)" by (auto simp: claim_check_ok)
  then have "task_id t = i" "i \<notin> set log" using step_claim.prems by (auto simp: tasks_ok_def started_def)
  with m t(2) step_claim.prems show ?case unfolding claim_save_def save_task_def
    by (simp, intro tasks_ok_write) (auto simp: started_def tasks_ok_def)
next
  case (step_reject i own ts reply ts' log)
  have "ts' = ts" by (rule claim_task_cases[OF step_reject.hyps(1)]) (use step_reject.hyps(2) in auto)
  with step_reject.prems show ?case by simp
next
  case (step_complete i ts creply ts' log)
  then consider "ts' = ts" | t where "map_of ts i = Some t" "task_status t = Task_in_progress" "ts' = save_task (t\<lparr>task_status := Task_completed\<rparr>) ts"
    by (auto simp: complete_task_def load_task_def Let_def split: option.splits if_splits)
  then show ?case
  proof cases
    case 1 then show ?thesis using step_complete.prems by simp
  next
    case 2
    then have "task_id t = i" "i \<in> set log" "list_all (dep_completed ts) (blockedBy t)"
      using step_complete.prems by (auto simp: tasks_ok_def started_def)
    with 2 step_complete.prems show ?thesis unfolding save_task_def
      by (simp, intro tasks_ok_write) (auto simp: started_def tasks_ok_def)
  qed
next
  case (step_bind i wt ts ts' log)
  then obtain t where t: "map_of ts i = Some t" "ts' = save_task (t\<lparr>worktree := Some wt\<rparr>) ts"
    by (auto simp: bind_task_to_worktree_def load_task_def split: option.splits)
  then have m: "task_id t = i" "started t \<Longrightarrow> list_all (dep_completed ts) (blockedBy t)" "i \<in> set log \<longleftrightarrow> started t"
    using step_bind.prems by (auto simp: tasks_ok_def)
  with t step_bind.prems show ?case unfolding save_task_def
    by (simp, intro tasks_ok_write) (auto simp: started_def tasks_ok_def)
qed

lemma tasks_reachable_ok: "task_step\<^sup>*\<^sup>* ([], []) p \<Longrightarrow> tasks_ok p"
proof (induction rule: rtranclp_induct)
  case base
  show ?case by (simp add: tasks_ok_def)
qed (rule task_step_ok)


text \<open>A second claim of a claimed task is rejected and changes nothing; but when both claims read the task before either writes
  it, both are granted and the second owner replaces the first.\<close>

theorem claim_task_race:
  assumes "claim_task i a ts = Inr (Claimed, ts1)" "\<And>t. map_of ts i = Some t \<Longrightarrow> task_id t = i"
  shows "claim_task i b ts1 = Inr (Not_pending Task_in_progress, ts1)
    \<and> (\<exists>t. claim_check i ts = Inr (Inr t) \<and> claim_save t a ts = ts1
         \<and> map_option owner (map_of (claim_save t b ts1) i) = Some (Some b))"
proof -
  obtain t where t: "claim_check i ts = Inr (Inr t)" "ts1 = claim_save t a ts" by (rule claim_task_cases[OF assms(1)]) auto
  then have "task_id t = i" using assms(2) by (simp add: claim_check_ok)
  with t show ?thesis
    by (auto simp: claim_save_def save_task_def claim_task_def claim_check_def load_task_def update_conv')
qed

lemma in_list_tasks: "t \<in> set (list_tasks ts) \<Longrightarrow> distinct (map fst ts) \<Longrightarrow> \<exists>i. map_of ts i = Some t"
  by (auto simp: list_tasks_def)

lemma scan_claimable:
  assumes "scan_unclaimed_tasks ts = t # rest" "distinct (map fst ts)" "\<And>i t. map_of ts i = Some t \<Longrightarrow> task_id t = i"
  shows "claim_check (task_id t) ts = Inr (Inr t)"
proof -
  have t: "t \<in> set (list_tasks ts)" "task_status t = Task_pending" "\<not> truthy (owner t)" "can_start (task_id t) ts = Inr True"
    using arg_cong[OF assms(1), of set] unfolding scan_unclaimed_tasks_def by auto
  obtain i where "map_of ts i = Some t" using in_list_tasks[OF t(1) assms(2)] by blast
  with assms(3) have "map_of ts (task_id t) = Some t" by metis
  with t show ?thesis by (auto simp: claim_check_ok can_start_def load_task_def)
qed

text \<open>A polling round of an idle teammate never raises. Waiting messages come first: with any, the inbox is emptied and
  no task is touched. Otherwise the first startable unclaimed task is claimed for the teammate, and the round ends in work
  exactly if there is one.\<close>

theorem idle_round_priorities:
  assumes "distinct (map fst (task_files w))" "\<And>i t. map_of (task_files w) i = Some t \<Longrightarrow> task_id t = i"
  shows "\<exists>r w'. idle_round nm False w = Inr (r, w')
    \<and> (inbox_text nm (bus w) \<noteq> [] \<longrightarrow> task_files w' = task_files w \<and> r \<noteq> None)
    \<and> (inbox_text nm (bus w) = [] \<longrightarrow>
        (case scan_unclaimed_tasks (task_files w) of
           [] \<Rightarrow> r = None \<and> task_files w' = task_files w
         | t # _ \<Rightarrow> r \<noteq> None \<and> map_of (task_files w') (task_id t)
               = Some (t\<lparr>owner := Some nm, task_status := Task_in_progress\<rparr>)))"
proof (cases "inbox_text nm (bus w)")
  case Nil
  show ?thesis
  proof (cases "scan_unclaimed_tasks (task_files w)")
    case scan: Nil
    with Nil show ?thesis by (simp add: idle_round_def read_inbox_def Let_def)
  next
    case (Cons t rest)
    have "claim_task (task_id t) nm (task_files w) = Inr (Claimed, claim_save t nm (task_files w))"
      using scan_claimable[OF Cons assms] by (simp add: claim_task_def)
    with Nil Cons show ?thesis
      by (simp add: idle_round_def read_inbox_def Let_def claim_save_def save_task_def update_conv')
  qed
next
  case (Cons m rest)
  then show ?thesis
    by (cases "filter (\<lambda>m. m_type m = ''shutdown_request'') (m # rest)")
      (simp_all add: idle_round_def read_inbox_def Let_def)
qed

text \<open>An accepted worktree name is no path out of the worktree directory: it is not empty, not \<open>.\<close> or \<open>..\<close>, and has
  no slash, backslash or null character.\<close>

theorem worktree_name_stays_inside:
  assumes "validate_worktree_name s = None"
  shows "s \<noteq> [] \<and> s \<noteq> ''.'' \<and> s \<noteq> ''..'' \<and> CHR ''/'' \<notin> set s \<and> CHR 0x5C \<notin> set s \<and> CHR 0x00 \<notin> set s \<and> length s \<le> 65"
proof -
  have s: "s \<noteq> []" "s \<noteq> ''.''" "s \<noteq> ''..''" "VALID_WT_NAME s" using assms by (auto simp: validate_worktree_name_def split: if_splits)
  have ch: "wt_char c \<or> c = CHR 0x0A" if "c \<in> set s" for c
  proof (cases "last s = CHR 0x0A")
    case True
    have "c \<in> set (butlast s @ [last s])" using that s(1) by simp
    moreover have "list_all wt_char (butlast s)" using True s(1,4) by (simp add: VALID_WT_NAME_def Let_def)
    ultimately show ?thesis using True by (auto simp: list_all_iff)
  next
    case False
    with that s show ?thesis by (auto simp: VALID_WT_NAME_def Let_def list_all_iff)
  qed
  have "\<not> wt_char (CHR ''/'')" "\<not> wt_char (CHR 0x5C)" "\<not> wt_char (CHR 0x00)" by (simp_all add: wt_char_def)
  then have "CHR ''/'' \<notin> set s" "CHR 0x5C \<notin> set s" "CHR 0x00 \<notin> set s" using ch by force+
  moreover have "length s \<le> 65" using s(4) by (auto simp: VALID_WT_NAME_def Let_def split: if_splits)
  ultimately show ?thesis using s by blast
qed

text \<open>Every accepted name that does not end in a newline is also accepted with one appended.\<close>

theorem worktree_name_newline:
  assumes "validate_worktree_name s = None" "last s \<noteq> CHR 0x0A"
  shows "validate_worktree_name (s @ [CHR 0x0A]) = None"
  using assms by (auto simp: validate_worktree_name_def VALID_WT_NAME_def Let_def split: if_splits)

section \<open>Examples\<close>

definition one_task :: tasks where
  "one_task = snd (create_task 1 2 ''s'' ''d'' [] [])"

lemma one_task_step: "task_step ([], []) (one_task, [])"
  unfolding one_task_def by (rule step_create) simp

lemma one_task_facts: "distinct (map fst one_task)" "map_of one_task i = Some t \<Longrightarrow> task_id t = i"
  "claim_task (new_task_id 1 2) ''ann'' one_task = Inr (Claimed,
     [(new_task_id 1 2, \<lparr>task_id = new_task_id 1 2, subject = ''s'', description = ''d'', task_status = Task_in_progress, owner = Some ''ann'',
        blockedBy = [], worktree = None\<rparr>)])"
  by (auto simp: one_task_def create_task_def save_task_def claim_task_def claim_check_def load_task_def can_start_def claim_save_def
      truthy_def Let_def split: if_splits)


theorem claim_task_race_witness:
  "\<exists>ts1. claim_task (new_task_id 1 2) ''ann'' one_task = Inr (Claimed, ts1)
     \<and> claim_task (new_task_id 1 2) ''bob'' ts1 = Inr (Not_pending Task_in_progress, ts1)"
  using claim_task_race[OF one_task_facts(3) one_task_facts(2), of "''bob''"] one_task_facts(3) by blast

theorem idle_round_priorities_witness:
  "\<exists>r w'. idle_round ''ann'' False \<lparr>bus = [], task_files = one_task\<rparr> = Inr (r, w')"
  using idle_round_priorities[of "\<lparr>bus = [], task_files = one_task\<rparr>" "''ann''"] one_task_facts(1,2) by fastforce

theorem worktree_name_stays_inside_witness:
  "validate_worktree_name ''fix-1'' = None \<and> CHR ''/'' \<notin> set ''fix-1''"
proof -
  have v: "validate_worktree_name ''fix-1'' = None" by code_simp
  from worktree_name_stays_inside[OF v] v show ?thesis by blast
qed

theorem worktree_name_newline_witness: "validate_worktree_name (''fix-1'' @ [CHR 0x0A]) = None"
proof -
  have v: "validate_worktree_name ''fix-1'' = None" by code_simp
  show ?thesis using worktree_name_newline[OF v] by simp
qed

end
