(* ===== verification/Affected.thy ===== *)
theory Affected
  imports Repo_Index Prelude
begin

text \<open>
  Which tests a change affects, \<open>taskgraph/affected.py\<close>: module names resolved to repository files, the imports of every
  Python file, and the tests that reach a changed file.

  Paths are relative POSIX paths. A Python set is a list that enumerates it. \<open>parse\<close> stands for
  \<open>ast.parse\<close> with \<open>ast.walk\<close>: the import statements of a source text, \<open>None\<close> where it raises. The cache of \<open>reached\<close>
  is left out: the imports do not change after the scan.

  Shown: a test is affected exactly if it is changed, or a changed file is reached from its imports and its conftest
  files through the imports of files that are not tests.
\<close>

section \<open>Paths\<close>

definition TESTS_DIR :: string where
  "TESTS_DIR = ''tests/''"

definition is_test_path :: "string \<Rightarrow> bool" where
  "is_test_path p = py_startswith p TESTS_DIR"

text \<open>The parts of \<open>PurePosixPath(p)\<close>; the empty list is \<open>.\<close>\<close>

definition path_parts :: "string \<Rightarrow> string list" where
  "path_parts p = filter (\<lambda>x. x \<noteq> [] \<and> x \<noteq> ''.'') (py_split p ''/'')"

definition path_name :: "string \<Rightarrow> string" where
  "path_name p = (case rev (path_parts p) of [] \<Rightarrow> [] | n # _ \<Rightarrow> n)"

definition parent_parts :: "string \<Rightarrow> string list" where
  "parent_parts p = butlast (path_parts p)"

definition is_test_file :: "string \<Rightarrow> bool" where
  "is_test_file p = (let nm = path_name p in
     is_test_path p \<and> py_endswith nm ''.py'' \<and> (py_startswith nm ''test_'' \<or> py_endswith nm ''_test.py''))"

text \<open>\<open>is_relative_to\<close> compares the leading parts.\<close>

definition under :: "string \<Rightarrow> string \<Rightarrow> bool" where
  "under test conftest = (let folder = parent_parts conftest in
     folder = [] \<or> take (length folder) (path_parts test) = folder)"

section \<open>Imports\<close>

definition SOURCE_ROOTS :: "string list" where
  "SOURCE_ROOTS = [[], ''src/'']"

definition module_files :: "string \<Rightarrow> string list \<Rightarrow> string set \<Rightarrow> string list" where
  "module_files nm roots fs =
     (let ps = py_split nm ''.'' in
      filter (\<lambda>c. c \<in> fs) (concat (map (\<lambda>k. let stem = py_join ''/'' (take k ps) in
        concat (map (\<lambda>root. [root @ stem @ ''.py'', root @ stem @ ''/__init__.py'']) roots)) [1..<length ps + 1])))"

fun climb :: "nat \<Rightarrow> string list \<Rightarrow> string list option" where
  "climb 0 folder = Some folder"
| "climb (Suc n) folder = (if folder = [] then None else climb n (butlast folder))"

definition folder_prefix :: "string list \<Rightarrow> string" where
  "folder_prefix folder = (if folder = [] then [] else py_join ''/'' folder @ ''/'')"

definition relative_base :: "string \<Rightarrow> nat \<Rightarrow> string option" where
  "relative_base p level = map_option folder_prefix (climb (level - 1) (parent_parts p))"

datatype py_import =
    Import "string list"
  | Import_from nat "string option" "string list"

definition from_names :: "string \<Rightarrow> string list \<Rightarrow> string list \<Rightarrow> string set \<Rightarrow> string list" where
  "from_names prefix names search fs =
     (if prefix \<noteq> [] then module_files prefix search fs else [])
     @ concat (map (\<lambda>a. if a \<noteq> ''*'' then module_files (if prefix \<noteq> [] then prefix @ ''.'' @ a else a) search fs else []) names)"

definition import_statement :: "string \<Rightarrow> string list \<Rightarrow> string set \<Rightarrow> py_import \<Rightarrow> string list" where
  "import_statement p roots fs st = (case st of
     Import names \<Rightarrow> concat (map (\<lambda>a. module_files a roots fs) names)
   | Import_from level module names \<Rightarrow>
       let prefix = (case module of None \<Rightarrow> [] | Some m \<Rightarrow> m) in
       if level \<noteq> 0
       then (case relative_base p level of
               None \<Rightarrow> []
             | Some base \<Rightarrow> (if base @ ''__init__.py'' \<in> fs then [base @ ''__init__.py''] else []) @ from_names prefix names [base] fs)
       else from_names prefix names roots fs)"

definition import_roots :: "string \<Rightarrow> string list" where
  "import_roots p = (if is_test_path p then py_unique (SOURCE_ROOTS @ [folder_prefix (parent_parts p)]) else SOURCE_ROOTS)"

definition imported_files :: "(string \<Rightarrow> py_import list option) \<Rightarrow> string \<Rightarrow> string \<Rightarrow> string set \<Rightarrow> string list option" where
  "imported_files parse p source fs = map_option
     (\<lambda>sts. filter (\<lambda>f. f \<noteq> p) (py_unique (concat (map (import_statement p (import_roots p) fs) sts)))) (parse source)"

section \<open>The scan\<close>

record test_imports =
  ti_imports :: "string list dict"
  ti_sources :: "string list dict"
  ti_conftests :: "string list"
  ti_unresolved :: "string list"

definition scan_file :: "(string \<Rightarrow> py_import list option) \<Rightarrow> string dict \<Rightarrow> string set \<Rightarrow> string \<Rightarrow> test_imports \<Rightarrow> test_imports" where
  "scan_file parse sources fs p r =
     (if \<not> py_endswith p ''.py'' then r
      else case imported_files parse p (dict_get sources p []) fs of
        None \<Rightarrow> r\<lparr>ti_unresolved := ti_unresolved r @ [p]\<rparr>
      | Some imported \<Rightarrow> if is_test_file p then r\<lparr>ti_imports := dict_set p imported (ti_imports r)\<rparr>
                          else r\<lparr>ti_sources := dict_set p imported (ti_sources r)\<rparr>)"

definition scan_sources :: "(string \<Rightarrow> py_import list option) \<Rightarrow> string dict \<Rightarrow> string set \<Rightarrow> test_imports" where
  "scan_sources parse sources fs =
     fold (scan_file parse sources fs) (sort (map fst sources))
       \<lparr>ti_imports = [], ti_sources = [], ti_conftests = sorted_list_of_set {p \<in> fs. path_name p = ''conftest.py''}, ti_unresolved = []\<rparr>"

text \<open>\<open>read_text\<close> gives the text, or \<open>None\<close> where reading or decoding raises.\<close>

definition scan_test_imports :: "(string \<Rightarrow> py_import list option) \<Rightarrow> (string \<Rightarrow> string option) \<Rightarrow> repo_index \<Rightarrow> test_imports" where
  "scan_test_imports parse read_text index =
     (let ps = filter (\<lambda>p. py_endswith p ''.py'') (sorted_list_of_set (files index));
          sources = concat (map (\<lambda>p. case read_text p of None \<Rightarrow> [] | Some t \<Rightarrow> [(p, t)]) ps);
          r = scan_sources parse sources (files index)
      in r\<lparr>ti_unresolved := sort (ti_unresolved r @ filter (\<lambda>p. read_text p = None) ps)\<rparr>)"

section \<open>Affected tests\<close>

definition start_files :: "test_imports \<Rightarrow> string \<Rightarrow> string list" where
  "start_files ti test = py_unique (dict_get (ti_imports ti) test [] @ filter (under test) (ti_conftests ti))"

definition reached :: "test_imports \<Rightarrow> string \<Rightarrow> string list" where
  "reached ti test = filter (\<lambda>f. f \<noteq> test) (search_loop LIFO (ti_sources ti) (rev (start_files ti test)) [])"

definition affected :: "test_imports \<Rightarrow> string list \<Rightarrow> string list" where
  "affected ti changed = sort (filter (\<lambda>t. t \<in> set changed \<or> set (reached ti t) \<inter> set changed \<noteq> {}) (map fst (ti_imports ti)))"

section \<open>What a scan records\<close>

definition scanned :: "(string \<Rightarrow> py_import list option) \<Rightarrow> string dict \<Rightarrow> string set \<Rightarrow> string \<Rightarrow> string list option" where
  "scanned parse sources fs p = (if p \<in> fst ` set sources \<and> py_endswith p ''.py''
     then imported_files parse p (dict_get sources p []) fs else None)"

lemma fold_scan:
  "map_of (ti_imports (fold (scan_file parse sources fs) ps r)) p =
     (if p \<in> set ps \<and> py_endswith p ''.py'' \<and> is_test_file p \<and> imported_files parse p (dict_get sources p []) fs \<noteq> None
      then imported_files parse p (dict_get sources p []) fs else map_of (ti_imports r) p)"
  "map_of (ti_sources (fold (scan_file parse sources fs) ps r)) p =
     (if p \<in> set ps \<and> py_endswith p ''.py'' \<and> \<not> is_test_file p \<and> imported_files parse p (dict_get sources p []) fs \<noteq> None
      then imported_files parse p (dict_get sources p []) fs else map_of (ti_sources r) p)"
  "ti_conftests (fold (scan_file parse sources fs) ps r) = ti_conftests r"
proof -
  let ?I = "\<lambda>p. imported_files parse p (dict_get sources p []) fs"
  have one: "map_of (ti_imports (scan_file parse sources fs q r)) p =
      (if p = q \<and> py_endswith q ''.py'' \<and> is_test_file q \<and> ?I q \<noteq> None then ?I q else map_of (ti_imports r) p)"
    "map_of (ti_sources (scan_file parse sources fs q r)) p =
      (if p = q \<and> py_endswith q ''.py'' \<and> \<not> is_test_file q \<and> ?I q \<noteq> None then ?I q else map_of (ti_sources r) p)"
    "ti_conftests (scan_file parse sources fs q r) = ti_conftests r" for q r p
    by (cases "?I q"; cases "is_test_file q"; cases "py_endswith q ''.py''"; simp add: scan_file_def update_conv')+
  show "map_of (ti_imports (fold (scan_file parse sources fs) ps r)) p =
     (if p \<in> set ps \<and> py_endswith p ''.py'' \<and> is_test_file p \<and> ?I p \<noteq> None then ?I p else map_of (ti_imports r) p)"
    by (induction ps arbitrary: r) (auto simp: one)
  show "map_of (ti_sources (fold (scan_file parse sources fs) ps r)) p =
     (if p \<in> set ps \<and> py_endswith p ''.py'' \<and> \<not> is_test_file p \<and> ?I p \<noteq> None then ?I p else map_of (ti_sources r) p)"
    by (induction ps arbitrary: r) (auto simp: one)
  show "ti_conftests (fold (scan_file parse sources fs) ps r) = ti_conftests r" by (induction ps arbitrary: r) (simp_all add: one)
qed

lemma scan_sources_lookup:
  "map_of (ti_imports (scan_sources parse sources fs)) p = (if is_test_file p then scanned parse sources fs p else None)"
  "map_of (ti_sources (scan_sources parse sources fs)) p = (if is_test_file p then None else scanned parse sources fs p)"
  "ti_conftests (scan_sources parse sources fs) = sorted_list_of_set {p \<in> fs. path_name p = ''conftest.py''}"
  by (auto simp: scan_sources_def fold_scan scanned_def)

lemma reached_set: "set (reached ti t) = ((adj_rel (ti_sources ti))\<^sup>* `` set (start_files ti t)) - {t}"
  by (auto simp: reached_def search_loop_reach)

text \<open>C36: After a scan of the sources, a test file is affected by a change exactly if its imports were read and it is changed itself or
  some changed file is reached from a file it imports or a conftest file above it, through the imports of files that are not tests.\<close>

theorem affected_iff:
  assumes "finite fs"
  shows "t \<in> set (affected (scan_sources parse sources fs) changed) \<longleftrightarrow>
    is_test_file t \<and> scanned parse sources fs t \<noteq> None \<and>
    (\<exists>f\<in>set changed. f = t \<or>
      (\<exists>s. (s \<in> set (the (scanned parse sources fs t)) \<or> s \<in> fs \<and> path_name s = ''conftest.py'' \<and> under t s)
         \<and> (s, f) \<in> {(a, b). \<not> is_test_file a \<and> (\<exists>bs. scanned parse sources fs a = Some bs \<and> b \<in> set bs)}\<^sup>*))"
proof -
  let ?ti = "scan_sources parse sources fs"
  have rel: "adj_rel (ti_sources ?ti) = {(a, b). \<not> is_test_file a \<and> (\<exists>bs. scanned parse sources fs a = Some bs \<and> b \<in> set bs)}"
  proof -
    have "b \<in> set (adj_of (ti_sources ?ti) a) \<longleftrightarrow> \<not> is_test_file a \<and> (\<exists>bs. scanned parse sources fs a = Some bs \<and> b \<in> set bs)" for a b
      by (cases "scanned parse sources fs a") (simp_all add: dict_get_def scan_sources_lookup)
    then show ?thesis by (simp add: adj_rel_def)
  qed
  have keys: "t \<in> fst ` set (ti_imports ?ti) \<longleftrightarrow> is_test_file t \<and> scanned parse sources fs t \<noteq> None"
    using map_of_eq_None_iff[of "ti_imports ?ti" t] by (auto simp: scan_sources_lookup split: if_splits)
  have start: "set (start_files ?ti t) = set (the (scanned parse sources fs t)) \<union> {s \<in> fs. path_name s = ''conftest.py'' \<and> under t s}"
    if "is_test_file t" "scanned parse sources fs t \<noteq> None"
    using that assms by (auto simp: start_files_def dict_get_def scan_sources_lookup)
  have "t \<in> set (affected ?ti changed) \<longleftrightarrow> t \<in> fst ` set (ti_imports ?ti) \<and> (\<exists>f\<in>set changed. f = t \<or> f \<in> set (reached ?ti t))"
    by (auto simp: affected_def)
  also have "\<dots> \<longleftrightarrow> is_test_file t \<and> scanned parse sources fs t \<noteq> None \<and>
      (\<exists>f\<in>set changed. f = t \<or> (\<exists>s\<in>set (start_files ?ti t). (s, f) \<in> (adj_rel (ti_sources ?ti))\<^sup>*))"
    unfolding keys reached_set by auto
  finally show ?thesis using start unfolding rel by auto
qed

section \<open>Example\<close>

definition toy_parse :: "string \<Rightarrow> py_import list option" where
  "toy_parse s = (if s = ''import m'' then Some [Import [''m'']] else Some [])"

definition toy_files :: "string set" where
  "toy_files = {''tests/test_a.py'', ''src/m.py''}"

definition toy_sources :: "string dict" where
  "toy_sources = [(''tests/test_a.py'', ''import m''), (''src/m.py'', [])]"

theorem affected_iff_witness:
  "finite toy_files \<and> ''tests/test_a.py'' \<in> set (affected (scan_sources toy_parse toy_sources toy_files) [''src/m.py''])"
proof -
  have fin: "finite toy_files" by (simp add: toy_files_def)
  have "is_test_file ''tests/test_a.py''" by code_simp
  moreover have "scanned toy_parse toy_sources toy_files ''tests/test_a.py'' = Some [''src/m.py'']" by code_simp
  ultimately show ?thesis
    using fin affected_iff[OF fin, of "''tests/test_a.py''" toy_parse toy_sources "[''src/m.py'']"] by simp blast
qed

end
