(* ===== verification/Compare.thy ===== *)
theory Compare
  imports Validate Affected
begin

text \<open>
  The structural figures of a plan, \<open>taskgraph/compare.py\<close>: the depth of every node by Kahn's algorithm, the critical
  path, the widest layer, and the best match of each hand-written node.

  Shown: \<open>depths\<close> fails exactly on a cyclic plan, and otherwise gives every node the number of nodes on the longest chain that
  ends at it. A similarity is an exact fraction; rounding it and the Markdown table are left out.
\<close>

section \<open>Files\<close>

definition is_test_only :: "node \<Rightarrow> bool" where
  "is_test_only n = (edit_files n \<noteq> {} \<and> (\<forall>p\<in>edit_files n. is_test_path p))"

definition code_files :: "node \<Rightarrow> string set" where
  "code_files n = {p \<in> edit_files n. \<not> is_test_path p}"

section \<open>Depths\<close>

record kahn =
  ready :: "string list"
  depth :: "nat dict"
  remaining :: "int dict"
  done_count :: nat

definition unique_ids :: "graph \<Rightarrow> string list" where
  "unique_ids g = map node_id (unique_nodes g)"

definition pred_list :: "graph \<Rightarrow> string \<Rightarrow> string list" where
  "pred_list g n = py_unique (map e_from (filter (\<lambda>e. e_to e = n) (usable_edges g)))"

definition succ_list :: "graph \<Rightarrow> string \<Rightarrow> string list" where
  "succ_list g p = filter (\<lambda>n. p \<in> set (pred_list g n)) (unique_ids g)"

definition init_kahn :: "graph \<Rightarrow> kahn" where
  "init_kahn g =
     (let rem = map (\<lambda>n. (n, int (length (pred_list g n)))) (unique_ids g);
          rdy = filter (\<lambda>n. dict_get rem n 0 = 0) (unique_ids g)
      in \<lparr>ready = rdy, depth = map (\<lambda>n. (n, 1)) rdy, remaining = rem, done_count = 0\<rparr>)"

definition relax :: "string \<Rightarrow> string \<Rightarrow> kahn \<Rightarrow> kahn" where
  "relax current nxt s =
     (let d = max (dict_get (depth s) nxt 1) (dict_get (depth s) current 1 + 1);
          r = dict_get (remaining s) nxt 0 - 1
      in s\<lparr>depth := dict_set nxt d (depth s), remaining := dict_set nxt r (remaining s),
           ready := (if r = 0 then ready s @ [nxt] else ready s)\<rparr>)"

definition pop_ready :: "graph \<Rightarrow> kahn \<Rightarrow> kahn" where
  "pop_ready g s = (let current = last (ready s) in
     fold (relax current) (succ_list g current) (s\<lparr>ready := butlast (ready s), done_count := done_count s + 1\<rparr>))"

text \<open>\<open>while ready\<close>; no node becomes ready twice, so one round per node is enough (\<open>kahn_loop_end\<close>).\<close>

fun kahn_loop :: "nat \<Rightarrow> graph \<Rightarrow> kahn \<Rightarrow> kahn option" where
  "kahn_loop fuel g s = (if ready s = [] then Some s
     else case fuel of 0 \<Rightarrow> None | Suc fuel' \<Rightarrow> kahn_loop fuel' g (pop_ready g s))"

declare kahn_loop.simps [simp del]

definition depths :: "graph \<Rightarrow> nat dict option" where
  "depths g = (case kahn_loop (length (unique_ids g)) g (init_kahn g) of
     None \<Rightarrow> None
   | Some s \<Rightarrow> if done_count s = length (unique_ids g) then Some (depth s) else None)"

definition max_default :: "nat list \<Rightarrow> nat" where
  "max_default xs = fold max xs 0"

definition critical_path_length :: "graph \<Rightarrow> nat option" where
  "critical_path_length g = map_option (\<lambda>d. max_default (map snd d)) (depths g)"

definition max_parallel_width :: "graph \<Rightarrow> nat option" where
  "max_parallel_width g = map_option (\<lambda>d. max_default (map (count_list (map snd d)) (map snd d))) (depths g)"

section \<open>Matching\<close>

text \<open>The fraction \<open>|A \<inter> B| / |A \<union> B|\<close> as its two numbers; two empty sets are identical.\<close>

definition jaccard :: "string set \<Rightarrow> string set \<Rightarrow> nat \<times> nat" where
  "jaccard A B = (if A = {} \<and> B = {} then (1, 1) else (card (A \<inter> B), card (A \<union> B)))"

definition greater_score :: "nat \<times> nat \<Rightarrow> nat \<times> nat \<Rightarrow> bool" where
  "greater_score x y = (fst x * snd y > fst y * snd x)"

definition better_match :: "string set \<Rightarrow> node \<Rightarrow> node option \<times> (nat \<times> nat) \<Rightarrow> node option \<times> (nat \<times> nat)" where
  "better_match fs other best =
     (let score = jaccard fs (code_files other) in if greater_score score (snd best) then (Some other, score) else best)"

definition best_match :: "string set \<Rightarrow> node list \<Rightarrow> node option \<times> (nat \<times> nat)" where
  "best_match fs candidates = fold (better_match fs) candidates (None, (0, 1))"

definition match_nodes :: "graph \<Rightarrow> graph \<Rightarrow> (string \<times> string option \<times> (nat \<times> nat)) list" where
  "match_nodes planner handwritten =
     map (\<lambda>n. case best_match (code_files n) (unique_nodes planner) of (best, score) \<Rightarrow> (node_id n, map_option node_id best, score))
       (unique_nodes handwritten)"

section \<open>Figures of one plan\<close>

record graph_figures =
  gs_errors :: nat
  gs_error_codes :: "(string \<times> nat) list"
  gs_warning_codes :: "(string \<times> nat) list"
  gs_nodes :: nat
  gs_contract_nodes :: nat
  gs_implement_nodes :: nat
  gs_contract_files :: "string list"
  gs_critical_path :: "nat option"
  gs_max_parallel_width :: "nat option"
  gs_test_only_nodes :: "string list"
  gs_edges :: nat

text \<open>\<open>dict(sorted(Counter(xs).items()))\<close>.\<close>

definition counted :: "string list \<Rightarrow> (string \<times> nat) list" where
  "counted xs = map (\<lambda>x. (x, count_list xs x)) (sort (py_unique xs))"

definition graph_stats :: "graph \<Rightarrow> repo_index option \<Rightarrow> graph_figures" where
  "graph_stats g index =
     (let report = validate g index; ns = unique_nodes g; contracts = filter (\<lambda>n. kind n = Contract) ns
      in \<lparr>gs_errors = length (errors report), gs_error_codes = counted (codes report), gs_warning_codes = counted (warning_codes report),
          gs_nodes = length (nodes g), gs_contract_nodes = length contracts, gs_implement_nodes = length ns - length contracts,
          gs_contract_files = sorted_list_of_set (\<Union> (edit_files ` set contracts)),
          gs_critical_path = critical_path_length g, gs_max_parallel_width = max_parallel_width g,
          gs_test_only_nodes = map node_id (filter is_test_only ns), gs_edges = length (edges g)\<rparr>)"

section \<open>The longest chain\<close>

text \<open>A chain of \<open>k\<close> nodes along the edges that ends at \<open>n\<close>.\<close>

inductive chain_to :: "graph \<Rightarrow> nat \<Rightarrow> string \<Rightarrow> bool" for g where
  chain_one: "n \<in> set (node_ids g) \<Longrightarrow> chain_to g 1 n"
| chain_more: "chain_to g k p \<Longrightarrow> (p, n) \<in> edge_rel g \<Longrightarrow> chain_to g (Suc k) n"

definition longest_chain :: "graph \<Rightarrow> string \<Rightarrow> nat \<Rightarrow> bool" where
  "longest_chain g n k = (chain_to g k n \<and> (\<forall>j. chain_to g j n \<longrightarrow> j \<le> k))"

lemma unique_ids_facts: "distinct (unique_ids g)" "set (unique_ids g) = set (node_ids g)"
  using unique_nodes_ids[of g] distinct_unique_nodes[of g] by (auto simp: unique_ids_def simp del: unique_nodes_ids)

lemma pred_list_facts: "distinct (pred_list g n)" "set (pred_list g n) = {p. (p, n) \<in> edge_rel g}"
  by (auto simp: pred_list_def edge_rel_def image_iff)

lemma succ_list_facts: "distinct (succ_list g p)" "set (succ_list g p) = {n. (p, n) \<in> edge_rel g}"
  using edge_rel_ids[of g] by (auto simp: succ_list_def unique_ids_facts pred_list_facts)

definition depth_at :: "kahn \<Rightarrow> string \<Rightarrow> nat" where
  "depth_at s x = dict_get (depth s) x 1"

definition rem_at :: "kahn \<Rightarrow> string \<Rightarrow> int" where
  "rem_at s x = dict_get (remaining s) x 0"

lemma at_frame [simp]:
  "depth_at (s\<lparr>ready := r\<rparr>) = depth_at s" "rem_at (s\<lparr>ready := r\<rparr>) = rem_at s"
  "depth_at (s\<lparr>done_count := k\<rparr>) = depth_at s" "rem_at (s\<lparr>done_count := k\<rparr>) = rem_at s"
  by (auto simp: depth_at_def rem_at_def)

lemma relax_effect:
  "depth_at (relax c n s) x = (if x = n then max (depth_at s n) (depth_at s c + 1) else depth_at s x)"
  "rem_at (relax c n s) x = (if x = n then rem_at s n - 1 else rem_at s x)"
  "ready (relax c n s) = ready s @ (if rem_at s n = 1 then [n] else [])"
  "fst ` set (depth (relax c n s)) = insert n (fst ` set (depth s))"
  "distinct (map fst (depth s)) \<Longrightarrow> distinct (map fst (depth (relax c n s)))" "done_count (relax c n s) = done_count s"
  by (auto simp: relax_def Let_def dict_get_set dom_update distinct_update depth_at_def rem_at_def)

lemma fold_relax:
  assumes "distinct ns" "c \<notin> set ns"
  shows "(\<forall>x. depth_at (fold (relax c) ns s) x =
      (if x \<in> set ns then max (depth_at s x) (depth_at s c + 1) else depth_at s x))
    \<and> (\<forall>x. rem_at (fold (relax c) ns s) x = (if x \<in> set ns then rem_at s x - 1 else rem_at s x))
    \<and> ready (fold (relax c) ns s) = ready s @ filter (\<lambda>n. rem_at s n = 1) ns
    \<and> fst ` set (depth (fold (relax c) ns s)) = set ns \<union> fst ` set (depth s)
    \<and> (distinct (map fst (depth s)) \<longrightarrow> distinct (map fst (depth (fold (relax c) ns s))))
    \<and> done_count (fold (relax c) ns s) = done_count s"
  using assms
proof (induction ns arbitrary: s)
  case (Cons n ns)
  let ?s = "relax c n s"
  have d: "distinct ns" "c \<notin> set ns" "n \<notin> set ns" "c \<noteq> n" using Cons.prems by auto
  have same: "filter (\<lambda>m. rem_at ?s m = 1) ns = filter (\<lambda>m. rem_at s m = 1) ns"
    using d(3) by (intro filter_cong) (auto simp: relax_effect)
  note IH = Cons.IH[OF d(1,2), of ?s]
  have "depth_at (fold (relax c) (n # ns) s) x =
      (if x \<in> set (n # ns) then max (depth_at s x) (depth_at s c + 1) else depth_at s x)" for x
    using IH d(3,4) by (simp add: relax_effect)
  moreover have "rem_at (fold (relax c) (n # ns) s) x =
      (if x \<in> set (n # ns) then rem_at s x - 1 else rem_at s x)" for x
    using IH d(3) by (simp add: relax_effect)
  moreover have "ready (fold (relax c) (n # ns) s) = ready s @ filter (\<lambda>n. rem_at s n = 1) (n # ns)"
    using IH same by (simp add: relax_effect)
  ultimately show ?case using IH by (auto simp: relax_effect)
qed simp

text \<open>The loop's invariant: \<open>D\<close> are the nodes popped so far.\<close>

definition kahn_inv :: "graph \<Rightarrow> string list \<Rightarrow> kahn \<Rightarrow> bool" where
  "kahn_inv g D s = (let N = set (node_ids g); P = (\<lambda>n. {p. (p, n) \<in> edge_rel g}); get = (\<lambda>x. depth_at s x) in
     distinct (D @ ready s) \<and> set (D @ ready s) = {n \<in> N. P n \<subseteq> set D} \<and> done_count s = length D
     \<and> (\<forall>n\<in>N. rem_at s n = int (card (P n - set D)))
     \<and> (\<forall>n\<in>N. \<forall>p\<in>P n \<inter> set D. get p + 1 \<le> get n)
     \<and> (\<forall>n\<in>N. get n = 1 \<or> (\<exists>p\<in>P n \<inter> set D. get n = get p + 1))
     \<and> distinct (map fst (depth s)) \<and> fst ` set (depth s) = {n \<in> N. P n = {} \<or> P n \<inter> set D \<noteq> {}})"

lemma init_kahn_inv: "kahn_inv g [] (init_kahn g)"
proof -
  let ?ids = "unique_ids g"
  let ?rem = "map (\<lambda>n. (n, int (length (pred_list g n)))) ?ids"
  have len: "length (pred_list g n) = card {p. (p, n) \<in> edge_rel g}" for n
    using distinct_card[OF pred_list_facts(1)] by (simp add: pred_list_facts(2))
  have fin: "finite {p. (p, n) \<in> edge_rel g}" for n
    using pred_list_facts(2)[of g n] by (metis List.finite_set)
  have rem: "dict_get ?rem n 0 = int (card {p. (p, n) \<in> edge_rel g})" if "n \<in> set ?ids" for n
    using that by (simp add: dict_get_def map_of_map_restrict len)
  have r: "filter (\<lambda>n. dict_get ?rem n 0 = 0) ?ids = filter (\<lambda>n. {p. (p, n) \<in> edge_rel g} = {}) ?ids"
    using rem fin by (intro filter_cong) auto
  have g1: "dict_get (map (\<lambda>n. (n, 1::nat)) ns) x 1 = 1" for ns x
    by (simp add: dict_get_def map_of_map_restrict restrict_map_def)
  show ?thesis
    unfolding kahn_inv_def init_kahn_def Let_def r depth_at_def rem_at_def
    using unique_ids_facts[of g] rem g1 by (auto simp: comp_def image_image)
qed

lemma card_one_member: "c \<in> A \<Longrightarrow> int (card A) = 1 \<longleftrightarrow> A = {c}"
  by (auto simp: card_1_singleton_iff)

lemma kahn_inv_step:
  assumes inv: "kahn_inv g D s" and ne: "ready s \<noteq> []"
  shows "kahn_inv g (D @ [last (ready s)]) (pop_ready g s)"
proof -
  let ?N = "set (node_ids g)" and ?P = "\<lambda>n. {p. (p, n) \<in> edge_rel g}" and ?c = "last (ready s)"
  let ?s = "s\<lparr>ready := butlast (ready s), done_count := done_count s + 1\<rparr>" and ?ns = "succ_list g (last (ready s))"
  let ?get = "\<lambda>x. depth_at s x"
  have I: "distinct (D @ ready s)" "set (D @ ready s) = {n \<in> ?N. ?P n \<subseteq> set D}" "done_count s = length D"
    "\<And>n. n \<in> ?N \<Longrightarrow> rem_at s n = int (card (?P n - set D))"
    "\<And>n p. n \<in> ?N \<Longrightarrow> p \<in> ?P n \<inter> set D \<Longrightarrow> ?get p + 1 \<le> ?get n"
    "\<And>n. n \<in> ?N \<Longrightarrow> ?get n = 1 \<or> (\<exists>p\<in>?P n \<inter> set D. ?get n = ?get p + 1)"
    "distinct (map fst (depth s))" "fst ` set (depth s) = {n \<in> ?N. ?P n = {} \<or> ?P n \<inter> set D \<noteq> {}}"
    using inv by (auto simp: kahn_inv_def Let_def)
  have rs: "ready s = butlast (ready s) @ [?c]" using ne by simp
  have c: "?c \<in> ?N" "?P ?c \<subseteq> set D" "?c \<notin> set D"
    using I(1,2) ne last_in_set[OF ne] by auto
  have fin: "finite (?P n)" for n using pred_list_facts(2)[of g n] by (metis List.finite_set)
  have ns: "distinct ?ns" "?c \<notin> set ?ns" "set ?ns = {n. (?c, n) \<in> edge_rel g}"
    using succ_list_facts[of g ?c] edge_rel_irrefl by auto
  have nN: "n \<in> ?N" if "(?c, n) \<in> edge_rel g" for n using that edge_rel_ids[of g] by auto
  have late: "n \<notin> set (D @ ready s)" if "(?c, n) \<in> edge_rel g" for n using that c(3) I(2) by auto
  note F = fold_relax[OF ns(1,2), of ?s]
  have pop: "pop_ready g s = fold (relax ?c) ?ns ?s" by (simp add: pop_ready_def Let_def)
  have get': "depth_at (pop_ready g s) x = (if (?c, x) \<in> edge_rel g then max (?get x) (?get ?c + 1) else ?get x)" for x
    using F ns(3) unfolding pop by simp
  have getD: "depth_at (pop_ready g s) x = ?get x" if "x \<in> set (D @ [?c])" for x
  proof -
    have "set D \<subseteq> set (D @ ready s)" by simp
    with that late[of x] edge_rel_irrefl[of ?c g] have "(?c, x) \<notin> edge_rel g" by auto
    then show ?thesis by (simp add: get')
  qed
  have rem1: "int (card (?P n - set D)) = 1 \<longleftrightarrow> ?P n - set D = {?c}" if "(?c, n) \<in> edge_rel g" for n
    by (rule card_one_member) (use that c(3) in simp)
  have rdy: "ready (pop_ready g s) = butlast (ready s) @ filter (\<lambda>n. ?P n - set D = {?c}) ?ns"
  proof -
    have "filter (\<lambda>n. rem_at ?s n = 1) ?ns = filter (\<lambda>n. ?P n - set D = {?c}) ?ns"
      using rem1 I(4) nN ns(3) by (intro filter_cong) auto
    then show ?thesis using F unfolding pop by simp
  qed
  have nodes: "set (D @ [?c] @ ready (pop_ready g s)) = {n \<in> ?N. ?P n \<subseteq> set (D @ [?c])}"
  proof -
    have "set (D @ [?c] @ ready (pop_ready g s)) = set (D @ ready s) \<union> {n. (?c, n) \<in> edge_rel g \<and> ?P n - set D = {?c}}"
      unfolding rdy using ns(3) arg_cong[OF rs, of set] by auto
    also have "\<dots> = {n \<in> ?N. ?P n \<subseteq> set (D @ [?c])}" unfolding I(2) using nN c(3) by auto
    finally show ?thesis .
  qed
  have dist: "distinct ((D @ [?c]) @ ready (pop_ready g s))"
  proof -
    have "distinct (D @ butlast (ready s) @ [?c])" using I(1) rs by simp
    moreover have "set ?ns \<inter> set (D @ ready s) = {}" using late ns(3) by auto
    moreover have "set (butlast (ready s)) \<subseteq> set (ready s)" by (meson in_set_butlastD subsetI)
    ultimately show ?thesis unfolding rdy using ns(1,2) by auto
  qed
  have remain: "rem_at (pop_ready g s) n = int (card (?P n - set (D @ [?c])))" if n: "n \<in> ?N" for n
  proof (cases "(?c, n) \<in> edge_rel g")
    case True
    have "?P n - set (D @ [?c]) = (?P n - set D) - {?c}" by auto
    moreover have "?c \<in> ?P n - set D" using True c(3) by simp
    ultimately have "card (?P n - set (D @ [?c])) = card (?P n - set D) - 1" "card (?P n - set D) > 0"
      using fin[of n] card_gt_0_iff[of "?P n - set D"] by auto
    then show ?thesis using F ns(3) True I(4)[OF n] unfolding pop by auto
  next
    case False
    then have "?P n - set (D @ [?c]) = ?P n - set D" by auto
    then show ?thesis using F ns(3) False I(4)[OF n] unfolding pop by auto
  qed
  have above: "depth_at (pop_ready g s) p + 1 \<le> depth_at (pop_ready g s) n"
    if "n \<in> ?N" "p \<in> ?P n \<inter> set (D @ [?c])" for n p
  proof -
    have "depth_at (pop_ready g s) p = ?get p" using that(2) by (intro getD) auto
    moreover have "?get p + 1 \<le> depth_at (pop_ready g s) n"
    proof (cases "p = ?c")
      case True
      then show ?thesis using that(2) get'[of n] by auto
    next
      case False
      then have "?get p + 1 \<le> ?get n" using that I(5) by auto
      then show ?thesis using get'[of n] by auto
    qed
    ultimately show ?thesis by simp
  qed
  have reason: "depth_at (pop_ready g s) n = 1 \<or>
      (\<exists>p\<in>?P n \<inter> set (D @ [?c]). depth_at (pop_ready g s) n = depth_at (pop_ready g s) p + 1)" if n: "n \<in> ?N" for n
  proof (cases "(?c, n) \<in> edge_rel g \<and> ?get n < ?get ?c + 1")
    case True
    then have "depth_at (pop_ready g s) n = depth_at (pop_ready g s) ?c + 1" using get'[of n] getD[of ?c] by auto
    with True show ?thesis by auto
  next
    case False
    then have "depth_at (pop_ready g s) n = ?get n" using get'[of n] by auto
    moreover have "depth_at (pop_ready g s) p = ?get p" if "p \<in> set D" for p using that by (intro getD) auto
    moreover from I(6)[OF n] consider "?get n = 1" | p where "p \<in> ?P n" "p \<in> set D" "?get n = ?get p + 1" by blast
    ultimately show ?thesis by cases (simp, metis (no_types, lifting) Int_iff in_set_conv_decomp append_is_Nil_conv set_append UnI1)
  qed
  have dom: "fst ` set (depth (pop_ready g s)) = {n \<in> ?N. ?P n = {} \<or> ?P n \<inter> set (D @ [?c]) \<noteq> {}}"
    using F I(8) ns(3) nN unfolding pop by auto
  have "distinct (map fst (depth (pop_ready g s)))" "done_count (pop_ready g s) = length (D @ [?c])"
    using F I(3,7) unfolding pop by auto
  with dist nodes remain above reason dom show ?thesis unfolding kahn_inv_def Let_def by auto
qed

lemma kahn_loop_end:
  "kahn_inv g D s \<Longrightarrow> card (set (node_ids g)) \<le> length D + fuel \<Longrightarrow>
   \<exists>D' s'. kahn_loop fuel g s = Some s' \<and> kahn_inv g D' s' \<and> ready s' = []"
proof (induction fuel arbitrary: D s)
  case 0
  have "ready s = []"
  proof (rule ccontr)
    assume "ready s \<noteq> []"
    have d: "distinct (D @ ready s)" "set (D @ ready s) \<subseteq> set (node_ids g)" using 0(1) by (auto simp: kahn_inv_def Let_def)
    have "length (D @ ready s) \<le> card (set (node_ids g))"
      using card_mono[OF _ d(2)] distinct_card[OF d(1)] by simp
    with 0(2) \<open>ready s \<noteq> []\<close> show False by (cases "ready s") auto
  qed
  then show ?case using 0 by (subst kahn_loop.simps) auto
next
  case (Suc fuel)
  show ?case
  proof (cases "ready s = []")
    case True
    then show ?thesis using Suc.prems by (subst kahn_loop.simps) auto
  next
    case False
    from Suc.IH[OF kahn_inv_step[OF Suc.prems(1) False]] Suc.prems(2) False show ?thesis
      by (subst kahn_loop.simps) auto
  qed
qed

lemma chain_node: "chain_to g k n \<Longrightarrow> n \<in> set (node_ids g)"
  by (induction rule: chain_to.induct) (use edge_rel_ids[of g] in auto)

lemma kahn_all_longest:
  assumes inv: "kahn_inv g D s" and all: "set D = set (node_ids g)"
  shows "n \<in> set (node_ids g) \<Longrightarrow> longest_chain g n (depth_at s n)" "set (map fst (depth s)) = set (node_ids g)"
proof -
  let ?P = "\<lambda>n. {p. (p, n) \<in> edge_rel g}"
  have PN: "?P n \<inter> set D = ?P n" for n using edge_rel_ids[of g] all by auto
  have up: "depth_at s p + 1 \<le> depth_at s m" if "(p, m) \<in> edge_rel g" for p m
    using inv that PN[of m] edge_rel_ids[of g] by (auto simp: kahn_inv_def Let_def)
  have why: "depth_at s m = 1 \<or> (\<exists>p\<in>?P m. depth_at s m = depth_at s p + 1)" if "m \<in> set (node_ids g)" for m
    using inv that by (auto simp: kahn_inv_def Let_def PN)
  have le: "chain_to g k m \<Longrightarrow> k \<le> depth_at s m" for k m
  proof (induction rule: chain_to.induct)
    case (chain_one m)
    with why[of m] show ?case by auto
  next
    case (chain_more k p m)
    with up[of p m] show ?case by simp
  qed
  have ex: "\<forall>m\<in>set (node_ids g). depth_at s m = d \<longrightarrow> chain_to g d m" for d
  proof (induction d rule: less_induct)
    case (less d)
    show ?case
    proof (intro ballI impI)
      fix m assume m: "m \<in> set (node_ids g)" "depth_at s m = d"
      from why[OF m(1)] consider "d = 1" | p where "(p, m) \<in> edge_rel g" "d = depth_at s p + 1" using m(2) by auto
      then show "chain_to g d m"
      proof cases
        case 1 then show ?thesis using chain_one m(1) by simp
      next
        case 2
        moreover have "p \<in> set (node_ids g)" using 2(1) edge_rel_ids[of g] by auto
        ultimately show ?thesis using less[of "depth_at s p"] chain_more[of g "depth_at s p" p m] by simp
      qed
    qed
  qed
  show "n \<in> set (node_ids g) \<Longrightarrow> longest_chain g n (depth_at s n)" using le ex by (auto simp: longest_chain_def)
  have "fst ` set (depth s) = {n \<in> set (node_ids g). ?P n = {} \<or> ?P n \<noteq> {}}"
    using inv unfolding kahn_inv_def Let_def PN by auto
  then show "set (map fst (depth s)) = set (node_ids g)" by auto
qed

lemma chain_trancl: "(p, n) \<in> (edge_rel g)\<^sup>+ \<Longrightarrow> chain_to g k p \<Longrightarrow> \<exists>j>k. chain_to g j n"
proof (induction rule: trancl_induct)
  case (base n)
  then show ?case using chain_more by blast
next
  case (step m n)
  then show ?case using chain_more by (meson less_SucI)
qed

lemma bounded_acyclic:
  assumes "\<And>n. n \<in> set (node_ids g) \<Longrightarrow> \<exists>k. longest_chain g n k"
  shows "acyclic (edge_rel g)"
proof (rule acyclicI, rule allI, rule notI)
  fix n assume c: "(n, n) \<in> (edge_rel g)\<^sup>+"
  then have "n \<in> Domain (edge_rel g)" by (metis DomainI tranclD)
  then have "n \<in> set (node_ids g)" using edge_rel_ids[of g] by auto
  with assms obtain k where k: "longest_chain g n k" by blast
  with chain_trancl[OF c, of k] show False by (auto simp: longest_chain_def)
qed

lemma stuck_cyclic:
  assumes inv: "kahn_inv g D s" "ready s = []" and n: "n \<in> set (node_ids g)" "n \<notin> set D"
  shows "\<not> acyclic (edge_rel g)"
proof
  assume "acyclic (edge_rel g)"
  then have wf: "wf (edge_rel g)" by (rule finite_acyclic_wf[OF finite_edge_rel])
  have D: "set D = {n \<in> set (node_ids g). {p. (p, n) \<in> edge_rel g} \<subseteq> set D}" using inv by (auto simp: kahn_inv_def Let_def)
  obtain z where z: "z \<in> set (node_ids g) - set D" "\<And>y. (y, z) \<in> edge_rel g \<Longrightarrow> y \<notin> set (node_ids g) - set D"
    using wfE_min[OF wf, of n "set (node_ids g) - set D"] n by blast
  then have "{p. (p, z) \<in> edge_rel g} \<subseteq> set D" using edge_rel_ids[of g] by auto
  with z(1) D show False by blast
qed

text \<open>\<open>depths\<close> ends for every plan. It gives no depths exactly if the usable edges have a cycle; otherwise it gives a depth to exactly
  the nodes of the plan, and each is the number of nodes on the longest chain of edges that ends at the node.\<close>

theorem depths_longest_chain:
  "case depths g of
     None \<Rightarrow> \<not> acyclic (edge_rel g)
   | Some d \<Rightarrow> acyclic (edge_rel g) \<and> distinct (map fst d) \<and> set (map fst d) = set (node_ids g)
       \<and> list_all (\<lambda>(n, k). longest_chain g n k) d"
proof -
  have len: "length (unique_ids g) = card (set (node_ids g))"
    using distinct_card[OF unique_ids_facts(1), of g] by (simp add: unique_ids_facts(2))
  obtain D s where s: "kahn_loop (length (unique_ids g)) g (init_kahn g) = Some s" "kahn_inv g D s" "ready s = []"
    using kahn_loop_end[OF init_kahn_inv[of g], of "length (unique_ids g)"] len by auto
  have D: "distinct D" "set D \<subseteq> set (node_ids g)" "done_count s = length D" "distinct (map fst (depth s))"
    using s(2) by (auto simp: kahn_inv_def Let_def)
  show ?thesis
  proof (cases "done_count s = length (unique_ids g)")
    case True
    then have "card (set D) = card (set (node_ids g))" using D(1,3) len distinct_card by metis
    then have all: "set D = set (node_ids g)" using D(2) by (simp add: card_subset_eq)
    note L = kahn_all_longest[OF s(2) all]
    have "longest_chain g n k" if "(n, k) \<in> set (depth s)" for n k
    proof -
      have "map_of (depth s) n = Some k" using that D(4) by simp
      then have "depth_at s n = k" by (simp add: depth_at_def dict_get_def)
      moreover have "n \<in> set (node_ids g)" using that L(2) by force
      ultimately show ?thesis using L(1)[of n] by simp
    qed
    moreover have "acyclic (edge_rel g)" using L(1) by (intro bounded_acyclic) blast
    ultimately show ?thesis using True s(1) D(4) L(2) by (auto simp: depths_def list_all_iff)
  next
    case False
    then have "set D \<noteq> set (node_ids g)" using D(1,3) len distinct_card by metis
    then obtain n where "n \<in> set (node_ids g)" "n \<notin> set D" using D(2) by blast
    with stuck_cyclic[OF s(2,3)] False s(1) show ?thesis by (simp add: depths_def)
  qed
qed

end
