(* ===== verification/Compact.thy ===== *)
theory Compact
  imports Prelude
begin

text \<open>
  How a long conversation is shortened, the history part of \<open>compact.py\<close>: messages grouped into units that keep a tool call with its
  results, the choice of the recent tail that stays verbatim, and the shortened history.

  A message object has an identity (\<open>uid\<close>, Python's \<open>id\<close>); a copy is the message itself. The serialized size of a message is a
  parameter. Not modelled: the call of the summary model, transcripts, retries and trace events.

  Shown: the old prefix and the tail are the two halves of the conversation without its latest instruction; the cut never separates a tool
  call from its results; results the model has not seen yet stay; otherwise the tail is within its size and its number of exchanges.
\<close>

section \<open>Messages\<close>

datatype content_block = Text_block string | Tool_use string | Tool_result string | Other_block

datatype content = Plain string | Blocks "content_block list" | Other_content string

record chat =
  uid :: nat
  role :: string
  content :: content

fun is_tool_use :: "content_block \<Rightarrow> bool" where
  "is_tool_use (Tool_use i) = True"
| "is_tool_use b = False"

fun is_tool_result :: "content_block \<Rightarrow> bool" where
  "is_tool_result (Tool_result i) = True"
| "is_tool_result b = False"

definition message_has_tool_use :: "chat \<Rightarrow> bool" where
  "message_has_tool_use m = (role m = ''assistant'' \<and> (case content m of Blocks bs \<Rightarrow> list_ex is_tool_use bs | _ \<Rightarrow> False))"

definition is_tool_result_message :: "chat \<Rightarrow> bool" where
  "is_tool_result_message m = (role m = ''user'' \<and> (case content m of Blocks bs \<Rightarrow> list_ex is_tool_result bs | _ \<Rightarrow> False))"

definition use_id :: "content_block \<Rightarrow> string list" where
  "use_id b = (case b of Tool_use i \<Rightarrow> if i \<noteq> [] then [i] else [] | _ \<Rightarrow> [])"

definition result_id :: "content_block \<Rightarrow> string list" where
  "result_id b = (case b of Tool_result i \<Rightarrow> if i \<noteq> [] then [i] else [] | _ \<Rightarrow> [])"

definition tool_use_ids :: "chat \<Rightarrow> string set" where
  "tool_use_ids m = (if \<not> message_has_tool_use m then {}
     else case content m of Blocks bs \<Rightarrow> set (concat (map use_id bs)) | _ \<Rightarrow> {})"

definition tool_result_ids :: "chat \<Rightarrow> string set" where
  "tool_result_ids m = (if \<not> is_tool_result_message m then {}
     else case content m of Blocks bs \<Rightarrow> set (concat (map result_id bs)) | _ \<Rightarrow> {})"

definition enum_from :: "nat \<Rightarrow> 'a list \<Rightarrow> (nat \<times> 'a) list" where
  "enum_from k xs = zip [k..<k + length xs] xs"

definition collect_tool_results :: "chat list \<Rightarrow> (nat \<times> nat \<times> content_block) list" where
  "collect_tool_results ms = concat (map (\<lambda>(i, m). case content m of
       Blocks bs \<Rightarrow> if role m = ''user'' then map (\<lambda>(j, b). (i, j, b)) (filter (\<lambda>(j, b). is_tool_result b) (enum_from 0 bs)) else []
     | _ \<Rightarrow> []) (enum_from 0 ms))"

section \<open>Units\<close>

definition answers :: "chat \<Rightarrow> chat \<Rightarrow> bool" where
  "answers m f = (message_has_tool_use m \<and> tool_result_ids f \<noteq> {} \<and> tool_result_ids f \<subseteq> tool_use_ids m)"

fun history_units :: "chat list \<Rightarrow> chat list list" where
  "history_units [] = []"
| "history_units [m] = [[m]]"
| "history_units (m # f # rest) = (if answers m f then [m, f] # history_units rest else [m] # history_units (f # rest))"

definition is_tool_exchange_unit :: "chat list \<Rightarrow> bool" where
  "is_tool_exchange_unit u = (case u of [a, b] \<Rightarrow> message_has_tool_use a \<and> is_tool_result_message b | _ \<Rightarrow> False)"

definition unit_tool_use_ids :: "chat list \<Rightarrow> string set" where
  "unit_tool_use_ids u = (if is_tool_exchange_unit u then tool_use_ids (hd u) else {})"

text \<open>The messages after the last assistant message, with that message in front.\<close>

fun from_last_assistant :: "chat list \<Rightarrow> chat list" where
  "from_last_assistant [] = []"
| "from_last_assistant (m # ms) = (if list_ex (\<lambda>x. role x = ''assistant'') ms then from_last_assistant ms
     else if role m = ''assistant'' then m # ms else [])"

definition unconsumed_tool_use_ids :: "chat list \<Rightarrow> string set" where
  "unconsumed_tool_use_ids ms = (case from_last_assistant ms of
     a # r # _ \<Rightarrow> if message_has_tool_use a \<and> tool_result_ids r \<noteq> {} \<and> tool_result_ids r = tool_use_ids a then tool_use_ids a else {}
   | _ \<Rightarrow> {})"

section \<open>The latest instruction\<close>

definition CONTEXT_CHECKPOINT_MARKER :: string where
  "CONTEXT_CHECKPOINT_MARKER = ''[Context checkpoint]''"

definition CONTINUATION_PROMPT :: string where
  "CONTINUATION_PROMPT = ''Continue from the previous response. Do not repeat completed work.''"

definition HARNESS_CONTROL_PREFIXES :: "string list" where
  "HARNESS_CONTROL_PREFIXES = [''<task_notification>'', ''<multiagent_policy'', ''<reminder>'', ''<finalization_budget>'',
     ''<finalization_deadline>'', ''<todo_completion_reminder>'']"

definition first_text :: "content_block list \<Rightarrow> string" where
  "first_text bs = (case concat (map (\<lambda>b. case b of Text_block t \<Rightarrow> [t] | _ \<Rightarrow> []) bs) of [] \<Rightarrow> [] | t # _ \<Rightarrow> t)"

definition is_checkpoint_message :: "chat \<Rightarrow> bool" where
  "is_checkpoint_message m = (case content m of
     Plain s \<Rightarrow> py_startswith (py_lstrip s) CONTEXT_CHECKPOINT_MARKER
   | Blocks bs \<Rightarrow> py_startswith (py_lstrip (first_text bs)) CONTEXT_CHECKPOINT_MARKER
   | Other_content s \<Rightarrow> False)"

definition is_harness_control_text :: "string \<Rightarrow> bool" where
  "is_harness_control_text s = (let stripped = py_strip s in
     stripped = CONTINUATION_PROMPT \<or> list_ex (py_startswith stripped) HARNESS_CONTROL_PREFIXES)"

fun has_real_block :: "content_block list \<Rightarrow> bool" where
  "has_real_block [] = False"
| "has_real_block (b # bs) = (case b of
     Tool_result i \<Rightarrow> has_real_block bs
   | Text_block t \<Rightarrow> (let s = py_strip t in if s \<noteq> [] \<and> \<not> is_harness_control_text s then True else has_real_block bs)
   | _ \<Rightarrow> True)"

definition is_user_instruction :: "chat \<Rightarrow> bool" where
  "is_user_instruction m =
     (if role m \<noteq> ''user'' \<or> is_tool_result_message m \<or> is_checkpoint_message m then False
      else case content m of
        Plain s \<Rightarrow> (let t = py_strip s in t \<noteq> [] \<and> \<not> is_harness_control_text t)
      | Other_content s \<Rightarrow> py_strip s \<noteq> []
      | Blocks bs \<Rightarrow> has_real_block bs)"

definition latest_user_message :: "chat list \<Rightarrow> chat option" where
  "latest_user_message ms = find is_user_instruction (rev ms)"

section \<open>The cut\<close>

definition RECENT_TOOL_RESULT_COUNT :: nat where
  "RECENT_TOOL_RESULT_COUNT = 4"

definition tail_limit_chars :: nat where
  "tail_limit_chars = 20000 * 3"

definition is_latest :: "chat option \<Rightarrow> chat \<Rightarrow> bool" where
  "is_latest latest m = (case latest of None \<Rightarrow> False | Some l \<Rightarrow> uid m = uid l)"

definition unit_size :: "(chat \<Rightarrow> nat) \<Rightarrow> chat option \<Rightarrow> chat list \<Rightarrow> nat" where
  "unit_size msize latest u = sum_list (map (\<lambda>m. if is_latest latest m then 0 else msize m) u)"

definition units_size :: "(chat \<Rightarrow> nat) \<Rightarrow> chat option \<Rightarrow> chat list list \<Rightarrow> nat" where
  "units_size msize latest us = sum_list (map (unit_size msize latest) us)"

definition tool_count_of :: "chat list list \<Rightarrow> nat" where
  "tool_count_of us = length (filter is_tool_exchange_unit us)"

text \<open>\<open>for index in range(scan_start, -1, -1)\<close>: the older units, newest first; the index of the first is the number of the others.\<close>

fun scan_back :: "(chat \<Rightarrow> nat) \<Rightarrow> chat option \<Rightarrow> chat list list \<Rightarrow> nat \<Rightarrow> nat \<Rightarrow> nat \<Rightarrow> nat" where
  "scan_back msize latest [] tail_start tail_size tool_count = tail_start"
| "scan_back msize latest (u # older) tail_start tail_size tool_count =
     (if tail_size + unit_size msize latest u > tail_limit_chars
         \<or> is_tool_exchange_unit u \<and> tool_count \<ge> RECENT_TOOL_RESULT_COUNT
      then tail_start
      else scan_back msize latest older (length older) (tail_size + unit_size msize latest u)
             (if is_tool_exchange_unit u then tool_count + 1 else tool_count))"

text \<open>\<open>next((i for i, x in enumerate(xs) if P(x)), -1)\<close>, with \<open>None\<close> for \<open>-1\<close>.\<close>

fun first_index :: "('a \<Rightarrow> bool) \<Rightarrow> 'a list \<Rightarrow> nat option" where
  "first_index P [] = None"
| "first_index P (x # xs) = (if P x then Some 0 else map_option Suc (first_index P xs))"

definition protected_index :: "chat list \<Rightarrow> nat option" where
  "protected_index ms = (let prot = unconsumed_tool_use_ids ms in
     first_index (\<lambda>u. prot \<noteq> {} \<and> unit_tool_use_ids u = prot) (history_units ms))"

definition tail_start_of :: "(chat \<Rightarrow> nat) \<Rightarrow> chat list \<Rightarrow> nat" where
  "tail_start_of msize ms =
     (let us = history_units ms; latest = latest_user_message ms in
      case protected_index ms of
        Some k \<Rightarrow> scan_back msize latest (rev (take k us)) k (units_size msize latest (drop k us)) (tool_count_of (drop k us))
      | None \<Rightarrow>
          let start = scan_back msize latest (rev us) (length us) 0 0 in
          (case first_index (list_ex (is_latest latest)) us of None \<Rightarrow> start | Some i \<Rightarrow> max start i))"

record selection =
  sel_prefix :: "chat list"
  sel_tail :: "chat list"
  sel_latest :: "chat option"
  sel_protected :: "string set"

definition select_prefix_and_recent_tail :: "(chat \<Rightarrow> nat) \<Rightarrow> chat list \<Rightarrow> selection" where
  "select_prefix_and_recent_tail msize ms =
     (let us = history_units ms; latest = latest_user_message ms; boundary = tail_start_of msize ms;
          whole = \<lparr>sel_prefix = [], sel_tail = ms, sel_latest = latest, sel_protected = unconsumed_tool_use_ids ms\<rparr>
      in if length us < 2 then whole
         else if boundary = 0 then whole
         else whole\<lparr>sel_prefix := filter (\<lambda>m. \<not> is_latest latest m) (concat (take boundary us)),
                    sel_tail := filter (\<lambda>m. \<not> is_latest latest m) (concat (drop boundary us))\<rparr>)"

definition checkpoint_message :: "nat \<Rightarrow> string \<Rightarrow> chat" where
  "checkpoint_message i summary = \<lparr>uid = i, role = ''user'', content = Plain (CONTEXT_CHECKPOINT_MARKER @ [CHR 0x0A] @ py_strip summary)\<rparr>"

definition assemble_compacted_history :: "nat \<Rightarrow> string \<Rightarrow> chat list \<Rightarrow> chat option \<Rightarrow> chat list" where
  "assemble_compacted_history i summary tail latest =
     checkpoint_message i summary # (case latest of None \<Rightarrow> [] | Some m \<Rightarrow> [m]) @ tail"

definition estimate_context_tokens :: "int \<Rightarrow> int" where
  "estimate_context_tokens size_chars = (max 0 size_chars + 3 - 1) div 3"

section \<open>The cut respects the units\<close>

lemma concat_units: "concat (history_units ms) = ms"
  by (induction ms rule: history_units.induct) auto

lemma units_nonempty: "u \<in> set (history_units ms) \<Longrightarrow> u \<noteq> []"
  by (induction ms rule: history_units.induct) (auto split: if_splits)

lemma answers_roles: "answers m f \<Longrightarrow> role m = ''assistant'' \<and> role f = ''user''"
  by (auto simp: answers_def message_has_tool_use_def tool_result_ids_def is_tool_result_message_def split: if_splits)

text \<open>No unit boundary lies between a call and the results that answer it.\<close>

lemma boundary_not_inside:
  "concat (take k (history_units ms)) = xs @ [m] \<Longrightarrow> concat (drop k (history_units ms)) = f # ys \<Longrightarrow> \<not> answers m f"
proof (induction ms arbitrary: k xs rule: history_units.induct)
  case (3 a b rest)
  show ?case
  proof (cases k)
    case 0
    then show ?thesis using "3.prems" by simp
  next
    case (Suc j)
    show ?thesis
    proof (cases "answers a b")
      case True
      show ?thesis
      proof (cases "concat (take j (history_units rest))" rule: rev_cases)
        case Nil
        with "3.prems"(1) Suc True have "m = b" by simp
        then show ?thesis using answers_roles[OF True] answers_roles[of m f] by auto
      next
        case (snoc zs z)
        then have "z = m" using arg_cong[OF "3.prems"(1), of last] Suc True by simp
        with "3.IH"(1)[OF True, of j zs] snoc "3.prems"(2) Suc True show ?thesis by simp
      qed
    next
      case False
      show ?thesis
      proof (cases "concat (take j (history_units (b # rest)))" rule: rev_cases)
        case Nil
        then have "j = 0" using units_nonempty[of _ "b # rest"] concat_units[of "b # rest"] by (cases j; cases "history_units (b # rest)") auto
        have "m = a" using "3.prems"(1) by (simp add: Suc False Nil)
        moreover have "f = b" using \<open>j = 0\<close> "3.prems"(2) Suc False concat_units[of "b # rest"] by simp
        ultimately show ?thesis using False by simp
      next
        case (snoc zs z)
        then have "z = m" using arg_cong[OF "3.prems"(1), of last] Suc False by simp
        with "3.IH"(2)[OF False, of j zs] snoc "3.prems"(2) Suc False show ?thesis by simp
      qed
    qed
  qed
next
  case (2 a)
  then show ?case by (cases k) auto
qed simp

lemma measures_mono:
  assumes "i \<le> j"
  shows "units_size msize latest (drop j us) \<le> units_size msize latest (drop i us)" "tool_count_of (drop j us) \<le> tool_count_of (drop i us)"
proof -
  have "drop i us = take (j - i) (drop i us) @ drop j us" using assms by (metis append_take_drop_id drop_drop le_add_diff_inverse2)
  then show "units_size msize latest (drop j us) \<le> units_size msize latest (drop i us)" "tool_count_of (drop j us) \<le> tool_count_of (drop i us)"
    by (metis le_add2 map_append sum_list_append units_size_def, metis filter_append le_add2 length_append tool_count_of_def)
qed

lemma scan_back_bounds:
  assumes "k \<le> length us"
  shows "let s = scan_back msize latest (rev (take k us)) k (units_size msize latest (drop k us)) (tool_count_of (drop k us)) in
    s \<le> k \<and> units_size msize latest (drop s us) \<le> max tail_limit_chars (units_size msize latest (drop k us))
    \<and> tool_count_of (drop s us) \<le> max RECENT_TOOL_RESULT_COUNT (tool_count_of (drop k us))"
  using assms
proof (induction k)
  case (Suc k)
  let ?u = "us ! k" and ?S = "units_size msize latest" and ?T = tool_count_of
  have older: "rev (take (Suc k) us) = ?u # rev (take k us)" using Suc.prems by (simp add: take_Suc_conv_app_nth)
  have dk: "drop k us = ?u # drop (Suc k) us" using Suc.prems by (simp add: Cons_nth_drop_Suc)
  have size: "?S (drop k us) = unit_size msize latest ?u + ?S (drop (Suc k) us)" by (simp add: dk units_size_def)
  have count: "?T (drop k us) = (if is_tool_exchange_unit ?u then ?T (drop (Suc k) us) + 1 else ?T (drop (Suc k) us))"
    by (simp add: dk tool_count_of_def)
  have len: "length (rev (take k us)) = k" using Suc.prems by simp
  show ?case
  proof (cases "?S (drop (Suc k) us) + unit_size msize latest ?u > tail_limit_chars
      \<or> is_tool_exchange_unit ?u \<and> ?T (drop (Suc k) us) \<ge> RECENT_TOOL_RESULT_COUNT")
    case True
    then show ?thesis by (simp add: older)
  next
    case False
    have "scan_back msize latest (rev (take (Suc k) us)) (Suc k) (?S (drop (Suc k) us)) (?T (drop (Suc k) us))
        = scan_back msize latest (rev (take k us)) k (?S (drop k us)) (?T (drop k us))"
      using False len size count by (cases "is_tool_exchange_unit ?u") (auto simp: older add.commute)
    with Suc.IH Suc.prems False size count show ?thesis by (auto simp: Let_def split: if_splits)
  qed
qed simp

lemma first_index_Some: "first_index P xs = Some i \<Longrightarrow> i < length xs \<and> P (xs ! i)"
  by (induction xs arbitrary: i) (auto split: if_splits)

lemma tail_start_bounds:
  "tail_start_of msize ms \<le> length (history_units ms)"
  "protected_index ms = None \<Longrightarrow> units_size msize (latest_user_message ms) (drop (tail_start_of msize ms) (history_units ms)) \<le> tail_limit_chars
     \<and> tool_count_of (drop (tail_start_of msize ms) (history_units ms)) \<le> RECENT_TOOL_RESULT_COUNT"
  "protected_index ms = Some k \<Longrightarrow> tail_start_of msize ms \<le> k"
proof -
  let ?us = "history_units ms" and ?l = "latest_user_message ms"
  let ?start = "scan_back msize ?l (rev ?us) (length ?us) 0 0"
  have b: "?start \<le> length ?us \<and> units_size msize ?l (drop ?start ?us) \<le> tail_limit_chars \<and> tool_count_of (drop ?start ?us) \<le> RECENT_TOOL_RESULT_COUNT"
    using scan_back_bounds[of "length ?us" ?us msize ?l] by (simp add: units_size_def tool_count_of_def Let_def)
  have p: "tail_start_of msize ms \<le> k" if "protected_index ms = Some k" for k
  proof -
    have "k \<le> length ?us" using that[unfolded protected_index_def Let_def] by (auto dest: first_index_Some)
    from scan_back_bounds[OF this, of msize ?l] that show ?thesis by (simp add: tail_start_of_def Let_def)
  qed
  have n: "tail_start_of msize ms = (case first_index (list_ex (is_latest ?l)) ?us of None \<Rightarrow> ?start | Some i \<Rightarrow> max ?start i)"
    if "protected_index ms = None" using that by (simp add: tail_start_of_def Let_def)
  show "protected_index ms = Some k \<Longrightarrow> tail_start_of msize ms \<le> k" by (rule p)
  show "tail_start_of msize ms \<le> length ?us"
  proof (cases "protected_index ms")
    case None
    then show ?thesis using n b first_index_Some[of "list_ex (is_latest ?l)" ?us] by (auto split: option.splits dest: less_imp_le)
  next
    case (Some k)
    moreover have "k \<le> length ?us" using Some[unfolded protected_index_def Let_def] by (auto dest: first_index_Some)
    ultimately show ?thesis using p by fastforce
  qed
  assume none: "protected_index ms = None"
  have "?start \<le> tail_start_of msize ms" using n[OF none] by (auto split: option.splits)
  from measures_mono(1)[OF this, of msize ?l ?us] measures_mono(2)[OF this, of ?us] b
  show "units_size msize ?l (drop (tail_start_of msize ms) ?us) \<le> tail_limit_chars
     \<and> tool_count_of (drop (tail_start_of msize ms) ?us) \<le> RECENT_TOOL_RESULT_COUNT" by simp
qed

lemma latest_is_user: "latest_user_message ms = Some l \<Longrightarrow> l \<in> set ms \<and> is_user_instruction l"
proof -
  have f: "find P xs = Some x \<Longrightarrow> x \<in> set xs \<and> P x" for P and xs :: "chat list" and x by (induction xs) (auto split: if_splits)
  assume "latest_user_message ms = Some l"
  from f[OF this[unfolded latest_user_message_def]] show ?thesis by simp
qed

text \<open>Either nothing is cut, or the two parts are the messages before and after one unit boundary without the latest instruction.\<close>

lemma selection_cases:
  "sel_prefix (select_prefix_and_recent_tail msize ms) = [] \<and> sel_tail (select_prefix_and_recent_tail msize ms) = ms
   \<or> sel_prefix (select_prefix_and_recent_tail msize ms)
        = filter (\<lambda>m. \<not> is_latest (latest_user_message ms) m) (concat (take (tail_start_of msize ms) (history_units ms)))
     \<and> sel_tail (select_prefix_and_recent_tail msize ms)
        = filter (\<lambda>m. \<not> is_latest (latest_user_message ms) m) (concat (drop (tail_start_of msize ms) (history_units ms)))"
  by (simp add: select_prefix_and_recent_tail_def Let_def)

lemma selection_rest:
  "sel_latest (select_prefix_and_recent_tail msize ms) = latest_user_message ms"
  "sel_protected (select_prefix_and_recent_tail msize ms) = unconsumed_tool_use_ids ms"
  by (simp_all add: select_prefix_and_recent_tail_def Let_def)

lemma cut_append: "concat (take k (history_units ms)) @ concat (drop k (history_units ms)) = ms"
  by (metis append_take_drop_id concat_append concat_units)

lemma drop_concat_suffix: "b \<le> k \<Longrightarrow> \<exists>zs. concat (drop b us) = zs @ concat (drop k us)"
  by (metis append_take_drop_id concat_append drop_drop le_add_diff_inverse2)

text \<open>The history is cut at a unit boundary: the summarized prefix and the verbatim tail are the two halves of the conversation without
  its latest user instruction, which is kept apart (or nothing is cut). The cut never separates a tool call from the results that answer it. The
  tail has every unit from the first exchange with the identifiers of the results the model has not seen yet; if there is none, the tail
  has at most four exchanges and its serialized size is within the limit.\<close>

theorem compaction_cut:
  assumes "sel = select_prefix_and_recent_tail msize ms"
  shows "\<exists>b. let us = history_units ms; old = concat (take b us); recent = concat (drop b us) in
    ms = old @ recent
    \<and> (sel_prefix sel = [] \<and> sel_tail sel = ms \<or>
       sel_prefix sel = filter (\<lambda>m. \<not> is_latest (sel_latest sel) m) old \<and> sel_tail sel = filter (\<lambda>m. \<not> is_latest (sel_latest sel) m) recent)
    \<and> (\<forall>xs m f ys. old = xs @ [m] \<and> recent = f # ys \<longrightarrow> \<not> answers m f)
    \<and> (\<forall>l. sel_latest sel = Some l \<longrightarrow> l \<in> set ms \<and> is_user_instruction l)
    \<and> (\<forall>k. protected_index ms = Some k \<longrightarrow> b \<le> k)
    \<and> (protected_index ms = None \<longrightarrow> units_size msize (sel_latest sel) (drop b us) \<le> tail_limit_chars
         \<and> tool_count_of (drop b us) \<le> RECENT_TOOL_RESULT_COUNT)"
proof -
  let ?b = "tail_start_of msize ms"
  have halves: "sel_prefix sel = [] \<and> sel_tail sel = ms \<or>
      sel_prefix sel = filter (\<lambda>m. \<not> is_latest (sel_latest sel) m) (concat (take ?b (history_units ms)))
      \<and> sel_tail sel = filter (\<lambda>m. \<not> is_latest (sel_latest sel) m) (concat (drop ?b (history_units ms)))"
    unfolding assms selection_rest by (rule selection_cases)
  show ?thesis
    unfolding Let_def
    using halves boundary_not_inside[of ?b ms] latest_is_user tail_start_bounds[where msize = msize and ms = ms]
    by (intro exI[of _ ?b] conjI) (auto simp: cut_append assms selection_rest)
qed

end
