(* ===== verification/Model_Limits.thy ===== *)
theory Model_Limits
  imports Prelude
begin

text \<open>
  Model calls under limits: \<open>model_budget.py\<close> (how many calls are left and when optional work may spend them) and
  \<open>recovery.py\<close> (retrying a call that was rate-limited or overloaded).

  Shown: a retried call is made at most \<open>MAX_RETRIES\<close> times and ends with its first result or its first
  exception that is not retried; optional work that is allowed leaves the reserve for finishing.
\<close>

section \<open>The budget of model calls\<close>

text \<open>What the client's \<open>budget_snapshot\<close> gives: no such method, an exception or not a dictionary, or its values, each as what
  \<open>int(...)\<close> makes of it (\<open>None\<close> where that raises).\<close>

record raw_budget =
  raw_max_calls :: "int option"
  raw_call_count :: "int option"
  raw_retries :: "int option"
  raw_source :: string

datatype client_budget = No_budget_method | Budget_unreadable | Budget raw_budget

record budget =
  bg_source :: string
  bg_max_calls :: int
  bg_used_calls :: int
  bg_remaining_calls :: int
  bg_reserve_calls :: int
  bg_max_provider_retries :: int

definition FINALIZATION_RESERVE_MIN :: int where
  "FINALIZATION_RESERVE_MIN = 4"

definition FINALIZATION_RESERVE_MAX :: int where
  "FINALIZATION_RESERVE_MAX = 8"

text \<open>\<open>math.ceil(maximum * 0.20)\<close>; between the two bounds the float product rounds to the exact fifth.\<close>

definition fifth_up :: "int \<Rightarrow> int" where
  "fifth_up n = (n + 4) div 5"

definition model_budget_snapshot :: "client_budget \<Rightarrow> budget option" where
  "model_budget_snapshot c = (case c of
     Budget raw \<Rightarrow> (case (raw_max_calls raw, raw_call_count raw) of
       (Some maximum, Some used) \<Rightarrow>
         if maximum \<le> 0 \<or> used < 0 then None
         else let reserve = max FINALIZATION_RESERVE_MIN (min FINALIZATION_RESERVE_MAX (fifth_up maximum)) in
              Some \<lparr>bg_source = take 40 (raw_source raw), bg_max_calls = maximum, bg_used_calls = used,
                    bg_remaining_calls = max 0 (maximum - used), bg_reserve_calls = min reserve maximum,
                    bg_max_provider_retries = (case raw_retries raw of None \<Rightarrow> 0 | Some r \<Rightarrow> max 0 r)\<rparr>
     | _ \<Rightarrow> None)
   | _ \<Rightarrow> None)"

definition finalization_reserve_active :: "client_budget \<Rightarrow> bool" where
  "finalization_reserve_active c = (case model_budget_snapshot c of
     None \<Rightarrow> False | Some b \<Rightarrow> bg_remaining_calls b \<le> bg_reserve_calls b)"

definition can_spend_optional_calls :: "client_budget \<Rightarrow> int \<Rightarrow> bool \<Rightarrow> bool" where
  "can_spend_optional_calls c estimated retry_margin = (case model_budget_snapshot c of
     None \<Rightarrow> True
   | Some b \<Rightarrow>
       let cost = max 0 estimated + (if retry_margin \<and> bg_max_provider_retries b \<noteq> 0 then 1 else 0)
       in bg_remaining_calls b - cost \<ge> bg_reserve_calls b)"

lemma budget_bounds:
  assumes "model_budget_snapshot c = Some b"
  shows "0 \<le> bg_remaining_calls b" "bg_remaining_calls b \<le> bg_max_calls b" "1 \<le> bg_reserve_calls b" "bg_reserve_calls b \<le> 8"
    "bg_reserve_calls b \<le> bg_max_calls b"
  using assms
  by (auto simp: model_budget_snapshot_def Let_def FINALIZATION_RESERVE_MIN_def FINALIZATION_RESERVE_MAX_def
      split: client_budget.splits option.splits if_splits)

text \<open>Spending what was allowed does not touch the reserve, so the finalization mode is not entered by it alone: it is active exactly
  when nothing optional may be spent any more.\<close>

lemma reserve_active_blocks: "finalization_reserve_active c \<Longrightarrow> 0 < estimated \<Longrightarrow> \<not> can_spend_optional_calls c estimated retry_margin"
  by (auto simp: finalization_reserve_active_def can_spend_optional_calls_def Let_def split: option.splits)

section \<open>Retries\<close>

record recovery_state =
  has_escalated :: bool
  recovery_count :: nat
  consecutive_529 :: nat
  has_attempted_reactive_compact :: bool
  current_model :: string

record py_exception =
  ex_name :: string
  ex_text :: string
  ex_retry_managed :: bool

definition MAX_CONSECUTIVE_529 :: nat where
  "MAX_CONSECUTIVE_529 = 2"

definition BASE_DELAY_MS :: nat where
  "BASE_DELAY_MS = 500"

text \<open>The part of \<open>retry_delay\<close> before the random quarter, in milliseconds.\<close>

definition retry_delay_base :: "nat \<Rightarrow> nat" where
  "retry_delay_base attempt = min (BASE_DELAY_MS * 2 ^ attempt) 32000"

definition rate_limited :: "py_exception \<Rightarrow> bool" where
  "rate_limited e = (py_contains ''ratelimit'' (py_lower (ex_name e)) \<or> py_contains ''429'' (py_lower (ex_text e)))"

definition is_overloaded :: "py_exception \<Rightarrow> bool" where
  "is_overloaded e = (py_contains ''overloaded'' (py_lower (ex_name e)) \<or> py_contains ''529'' (py_lower (ex_text e))
     \<or> py_contains ''overloaded'' (py_lower (ex_text e)))"

definition count_529 :: "string option \<Rightarrow> recovery_state \<Rightarrow> recovery_state" where
  "count_529 fallback s =
     (let s1 = s\<lparr>consecutive_529 := consecutive_529 s + 1\<rparr> in
      case fallback of
        Some m \<Rightarrow> if consecutive_529 s1 \<ge> MAX_CONSECUTIVE_529 \<and> m \<noteq> [] then s1\<lparr>current_model := m, consecutive_529 := 0\<rparr> else s1
      | None \<Rightarrow> s1)"

datatype 'a retry_end = Returned 'a | Raised py_exception | Max_retries nat

text \<open>\<open>fn k s\<close> is the outcome of the call in attempt \<open>k\<close> with the recovery state \<open>s\<close>; the result carries the sleeps.\<close>

fun retry_loop :: "(nat \<Rightarrow> recovery_state \<Rightarrow> py_exception + 'a) \<Rightarrow> string option \<Rightarrow> nat \<Rightarrow> nat \<Rightarrow> recovery_state \<Rightarrow> nat list \<Rightarrow>
    'a retry_end \<times> recovery_state \<times> nat list" where
  "retry_loop fn fallback k 0 s sleeps = (Max_retries k, s, sleeps)"
| "retry_loop fn fallback k (Suc left) s sleeps = (case fn k s of
     Inr result \<Rightarrow> (Returned result, s\<lparr>consecutive_529 := 0\<rparr>, sleeps)
   | Inl e \<Rightarrow>
       if ex_retry_managed e then (Raised e, s, sleeps)
       else if rate_limited e then retry_loop fn fallback (k + 1) left s (sleeps @ [retry_delay_base k])
       else if is_overloaded e then retry_loop fn fallback (k + 1) left (count_529 fallback s) (sleeps @ [retry_delay_base k])
       else (Raised e, s, sleeps))"

definition with_retry :: "(nat \<Rightarrow> recovery_state \<Rightarrow> py_exception + 'a) \<Rightarrow> string option \<Rightarrow> nat \<Rightarrow> recovery_state \<Rightarrow>
    'a retry_end \<times> recovery_state \<times> nat list" where
  "with_retry fn fallback max_retries s = retry_loop fn fallback 0 max_retries s []"

definition is_prompt_too_long_error :: "py_exception \<Rightarrow> bool" where
  "is_prompt_too_long_error e = (let msg = py_lower (ex_text e) in
     (py_contains ''prompt'' msg \<and> py_contains ''long'' msg) \<or> py_contains ''context_length_exceeded'' msg
     \<or> py_contains ''max_context_window'' msg)"

definition retried :: "py_exception \<Rightarrow> bool" where
  "retried e = (\<not> ex_retry_managed e \<and> (rate_limited e \<or> is_overloaded e))"

text \<open>The state in which attempt \<open>k\<close> is made, when all before it failed and were retried.\<close>

fun state_at :: "(nat \<Rightarrow> recovery_state \<Rightarrow> py_exception + 'a) \<Rightarrow> string option \<Rightarrow> recovery_state \<Rightarrow> nat \<Rightarrow> recovery_state" where
  "state_at fn fallback s 0 = s"
| "state_at fn fallback s (Suc k) = (let t = state_at fn fallback s k in
     case fn k t of Inl e \<Rightarrow> if rate_limited e then t else count_529 fallback t | Inr _ \<Rightarrow> t)"

definition fails_retried :: "(nat \<Rightarrow> recovery_state \<Rightarrow> py_exception + 'a) \<Rightarrow> string option \<Rightarrow> recovery_state \<Rightarrow> nat \<Rightarrow> bool" where
  "fails_retried fn fallback s k = (case fn k (state_at fn fallback s k) of Inl e \<Rightarrow> retried e | Inr _ \<Rightarrow> False)"

lemma retry_loop_skip:
  assumes "\<forall>i<k. fails_retried fn fallback s i" "k \<le> n"
  shows "retry_loop fn fallback 0 n s [] = retry_loop fn fallback k (n - k) (state_at fn fallback s k) (map retry_delay_base [0..<k])"
  using assms
proof (induction k)
  case (Suc k)
  let ?t = "state_at fn fallback s k"
  have "fails_retried fn fallback s k" using Suc.prems(1) by simp
  then obtain e where e: "fn k ?t = Inl e" "retried e" by (auto simp: fails_retried_def split: sum.splits)
  obtain m where m: "n - k = Suc m" "n - Suc k = m" using Suc.prems(2) by (cases "n - k") auto
  have "retry_loop fn fallback 0 n s [] = retry_loop fn fallback k (n - k) ?t (map retry_delay_base [0..<k])"
    using Suc by simp
  also have "\<dots> = retry_loop fn fallback (Suc k) (n - Suc k) (state_at fn fallback s (Suc k)) (map retry_delay_base [0..<Suc k])"
    using e m by (auto simp: retried_def)
  finally show ?case .
qed simp

text \<open>A retried model call ends after at most \<open>n\<close> attempts. If an attempt \<open>k < n\<close> is the first whose outcome is not a
  retried failure, exactly the \<open>k\<close> sleeps before it are slept and its result is returned or its exception raised; if all \<open>n\<close> attempts
  fail and are retried, the call ends with the error about \<open>n\<close> retries.\<close>

theorem with_retry_ends:
  "(\<forall>k<n. (\<forall>i<k. fails_retried fn fallback s i) \<longrightarrow> \<not> fails_retried fn fallback s k \<longrightarrow>
      (case with_retry fn fallback n s of (r, t, sleeps) \<Rightarrow>
         r = (case fn k (state_at fn fallback s k) of Inr x \<Rightarrow> Returned x | Inl e \<Rightarrow> Raised e)
         \<and> sleeps = map retry_delay_base [0..<k]))
   \<and> ((\<forall>i<n. fails_retried fn fallback s i) \<longrightarrow> fst (with_retry fn fallback n s) = Max_retries n)"
proof (intro conjI allI impI)
  fix k assume k: "k < n" "\<forall>i<k. fails_retried fn fallback s i" "\<not> fails_retried fn fallback s k"
  let ?t = "state_at fn fallback s k"
  obtain m where "n - k = Suc m" using k(1) by (cases "n - k") auto
  with retry_loop_skip[OF k(2), of n] k have "with_retry fn fallback n s = retry_loop fn fallback k (Suc m) ?t (map retry_delay_base [0..<k])"
    by (simp add: with_retry_def)
  with k(3) show "case with_retry fn fallback n s of (r, t, sleeps) \<Rightarrow>
         r = (case fn k ?t of Inr x \<Rightarrow> Returned x | Inl e \<Rightarrow> Raised e) \<and> sleeps = map retry_delay_base [0..<k]"
    by (auto simp: fails_retried_def retried_def split: sum.splits)
next
  assume "\<forall>i<n. fails_retried fn fallback s i"
  from retry_loop_skip[OF this, of n] show "fst (with_retry fn fallback n s) = Max_retries n" by (simp add: with_retry_def)
qed

definition calm :: recovery_state where
  "calm = \<lparr>has_escalated = False, recovery_count = 0, consecutive_529 = 0, has_attempted_reactive_compact = False, current_model = ''m''\<rparr>"

definition busy_once :: "nat \<Rightarrow> recovery_state \<Rightarrow> py_exception + nat" where
  "busy_once k s = (if k = 0 then Inl \<lparr>ex_name = ''RateLimitError'', ex_text = ''429'', ex_retry_managed = False\<rparr> else Inr 7)"

theorem with_retry_ends_witness:
  "fst (with_retry busy_once None 3 calm) = Returned 7 \<and> snd (snd (with_retry busy_once None 3 calm)) = [500]"
proof -
  have r: "rate_limited \<lparr>ex_name = ''RateLimitError'', ex_text = ''429'', ex_retry_managed = False\<rparr>" by code_simp
  have f: "fails_retried busy_once None calm 0" "\<not> fails_retried busy_once None calm 1"
    using r by (simp_all add: fails_retried_def busy_once_def retried_def)
  have "case with_retry busy_once None 3 calm of (r, t, sleeps) \<Rightarrow>
      r = (case busy_once 1 (state_at busy_once None calm 1) of Inr x \<Rightarrow> Returned x | Inl e \<Rightarrow> Raised e) \<and> sleeps = map retry_delay_base [0..<1]"
    using with_retry_ends[of 3 busy_once None calm] f by (metis less_one one_less_numeral_iff semiring_norm(77))
  then show ?thesis by (auto simp: busy_once_def retry_delay_base_def BASE_DELAY_MS_def split: prod.splits)
qed

end
