(* ===== verification/Compact_Run.thy ===== *)
theory Compact_Run
  imports Compact Model_Limits
begin

text \<open>
  One compaction, \<open>_compact\<close> of \<open>compact.py\<close> with every early return: the trigger, the memory of failed automatic compactions, the cut, the
  loop that moves further units out of the tail until the shortened request fits, the bound on the summary request, the call budget, the
  one call of the summary model and the final size check.

  Parameters are the serialized sizes of a list of messages (\<open>estimate_size\<close>) and of a whole request (\<open>sizer\<close>), the digest of a
  history, and the summary model, which returns text or raises. The settings from \<open>config.py\<close> are a record. The state has the failure
  memory of the runtime (\<open>None\<close> without a runtime), the transcripts, the trace records and the requests sent to the summary model.

  Shown: a compaction returns the conversation itself, or a checkpoint, the latest instruction and a tail that fits; every dropped message
  was in the one summary request; tool results the model has not seen are still there with their call.
\<close>

section \<open>State and parameters\<close>

record compact_config =
  cfg_trigger_tokens :: int
  cfg_summary_input_limit :: int
  cfg_summary_max_tokens :: nat

record compact_calls =
  estimate_size :: "chat list \<Rightarrow> nat"
  request_size :: "chat list \<Rightarrow> nat"
  digest :: "chat list \<Rightarrow> int \<Rightarrow> int \<Rightarrow> string"
  summary_model :: "chat list \<Rightarrow> string + string"
  model_client :: client_budget
  fresh_uid :: nat

record compact_memory =
  failed_signature :: "string option"
  failed_reason :: "string option"
  failed_message_count :: "int option"
  compact_generation :: int

record compact_event =
  ce_reason :: string
  ce_before_messages :: nat
  ce_before_size :: nat
  ce_after_messages :: nat
  ce_after_size :: nat
  ce_summarized_prefix :: nat
  ce_tail :: "chat list"
  ce_summary_length :: nat
  ce_success :: bool
  ce_failure :: string
  ce_summary_calls :: nat

record compact_state =
  memory :: "compact_memory option"
  transcripts :: "chat list list"
  compact_events :: "compact_event list"
  summary_requests :: "chat list list"

definition COMPACT_HEADROOM_TOKENS :: int where
  "COMPACT_HEADROOM_TOKENS = 8000"

definition COMPACT_RETRY_MESSAGE_GROWTH :: int where
  "COMPACT_RETRY_MESSAGE_GROWTH = 4"

definition SUMMARY_INPUT_SAFETY_MARGIN_TOKENS :: int where
  "SUMMARY_INPUT_SAFETY_MARGIN_TOKENS = 1000"

definition summary_output_reserve_chars :: "compact_config \<Rightarrow> nat" where
  "summary_output_reserve_chars cfg = cfg_summary_max_tokens cfg * 3"

text \<open>The length of \<open>_compact_prompt(prefix)\<close>: 1918 characters of instructions, a heading of 43 and the serialized prefix.\<close>

definition compact_prompt_length :: "compact_calls \<Rightarrow> chat list \<Rightarrow> nat" where
  "compact_prompt_length env prefix = 1918 + 43 + estimate_size env prefix"

definition summary_prefix_budget_tokens :: "compact_config \<Rightarrow> compact_calls \<Rightarrow> int" where
  "summary_prefix_budget_tokens cfg env =
     max 0 (cfg_summary_input_limit cfg - estimate_context_tokens (int (compact_prompt_length env [])) - SUMMARY_INPUT_SAFETY_MARGIN_TOKENS)"

section \<open>Effects\<close>

definition write_transcript :: "chat list \<Rightarrow> compact_state \<Rightarrow> compact_state" where
  "write_transcript ms w = w\<lparr>transcripts := transcripts w @ [ms]\<rparr>"

definition remember_failed_compact :: "string \<Rightarrow> string \<Rightarrow> string \<Rightarrow> nat \<Rightarrow> compact_state \<Rightarrow> compact_state" where
  "remember_failed_compact reason signature failure message_count w =
     (case memory w of None \<Rightarrow> w
      | Some mem \<Rightarrow> if reason \<noteq> ''automatic'' then w
          else w\<lparr>memory := Some (mem\<lparr>failed_signature := Some signature, failed_reason := Some (take 500 failure),
                                    failed_message_count := Some (int message_count)\<rparr>)\<rparr>)"

definition clear_failed_compact :: "compact_state \<Rightarrow> compact_state" where
  "clear_failed_compact w = w\<lparr>memory := map_option (\<lambda>mem. mem\<lparr>failed_signature := None, failed_reason := None,
     failed_message_count := None\<rparr>) (memory w)\<rparr>"

definition record_compact :: "compact_event \<Rightarrow> compact_state \<Rightarrow> compact_state" where
  "record_compact ev w = w\<lparr>compact_events := compact_events w @ [ev]\<rparr>"

definition failed_event :: "compact_calls \<Rightarrow> string \<Rightarrow> chat list \<Rightarrow> nat \<Rightarrow> chat list \<Rightarrow> nat \<Rightarrow> string \<Rightarrow> nat \<Rightarrow> compact_event" where
  "failed_event env reason ms summarized tail summary_length failure calls =
     \<lparr>ce_reason = reason, ce_before_messages = length ms, ce_before_size = request_size env ms,
      ce_after_messages = length ms, ce_after_size = request_size env ms, ce_summarized_prefix = summarized, ce_tail = tail,
      ce_summary_length = summary_length, ce_success = False, ce_failure = failure, ce_summary_calls = calls\<rparr>"

text \<open>\<open>_summarize_once\<close>: an exception and an empty text are failures.\<close>

definition summarize_once :: "compact_calls \<Rightarrow> chat list \<Rightarrow> compact_state \<Rightarrow> (string + string) \<times> compact_state" where
  "summarize_once env prefix w =
     (let w = w\<lparr>summary_requests := summary_requests w @ [prefix]\<rparr> in
      case summary_model env prefix of
        Inl e \<Rightarrow> (Inl e, w)
      | Inr answer \<Rightarrow> if py_strip answer = [] then (Inl ''summary model returned empty text'', w) else (Inr (py_strip answer), w))"

section \<open>The compaction\<close>

lemma first_unit: "history_units ms = u # us \<Longrightarrow> u \<noteq> [] \<and> ms = u @ concat us"
  using units_nonempty[of u ms] concat_units[of ms] by auto

text \<open>The loop over the tail: whole oldest units move to the prefix until the request fits, unless the protected exchange would move.\<close>

function shrink_tail :: "(chat list \<Rightarrow> bool) \<Rightarrow> string set \<Rightarrow> chat list \<Rightarrow> chat list \<Rightarrow> bool \<times> chat list \<times> chat list" where
  "shrink_tail fits prot prefix tail =
     (if fits tail then (True, prefix, tail)
      else case history_units tail of
        [] \<Rightarrow> (False, prefix, tail)
      | u # us \<Rightarrow> if prot \<noteq> {} \<and> unit_tool_use_ids u = prot then (False, prefix, tail)
                  else shrink_tail fits prot (prefix @ u) (concat us))"
  by pat_completeness auto

termination
  by (relation "measure (\<lambda>(fits, prot, prefix, tail). length tail)") (auto dest!: first_unit)

declare shrink_tail.simps [simp del]

definition compact_target :: "compact_config \<Rightarrow> int option \<Rightarrow> int" where
  "compact_target cfg target_context_budget = max 1000 (case target_context_budget of
     Some b \<Rightarrow> b | None \<Rightarrow> (cfg_trigger_tokens cfg - COMPACT_HEADROOM_TOKENS) * 3)"

definition retry_blocked :: "string \<Rightarrow> chat list \<Rightarrow> compact_state \<Rightarrow> string option" where
  "retry_blocked signature ms w = (case memory w of
     None \<Rightarrow> None
   | Some mem \<Rightarrow>
       if failed_signature mem = Some signature then Some ''unchanged history matches the last failed compact''
       else case failed_message_count mem of
         Some n \<Rightarrow> if int (length ms) < n + COMPACT_RETRY_MESSAGE_GROWTH
                   then Some ''compact retry cooldown awaiting more message growth'' else None
       | None \<Rightarrow> None)"

definition summary_input_failure :: "compact_config \<Rightarrow> compact_calls \<Rightarrow> chat list \<Rightarrow> string option" where
  "summary_input_failure cfg env prefix =
     (let prefix_tokens = estimate_context_tokens (int (estimate_size env prefix));
          prefix_budget = summary_prefix_budget_tokens cfg env;
          prompt_tokens = estimate_context_tokens (int (compact_prompt_length env prefix));
          safe_prompt = max 0 (cfg_summary_input_limit cfg - SUMMARY_INPUT_SAFETY_MARGIN_TOKENS)
      in if prefix_tokens > prefix_budget \<or> prompt_tokens > safe_prompt
         then Some (''summary request input exceeds safe limit: prefix='' @ int_str prefix_tokens @ '' estimated tokens, prefix_budget=''
                @ int_str prefix_budget @ '', prompt='' @ int_str prompt_tokens @ '', SUMMARY_INPUT_LIMIT_TOKENS=''
                @ int_str (cfg_summary_input_limit cfg) @ '', safety_margin='' @ int_str SUMMARY_INPUT_SAFETY_MARGIN_TOKENS)
         else None)"

definition compact :: "compact_config \<Rightarrow> compact_calls \<Rightarrow> string \<Rightarrow> int option \<Rightarrow> bool \<Rightarrow> bool option \<Rightarrow> chat list \<Rightarrow> compact_state \<Rightarrow>
    chat list \<times> compact_state" where
  "compact cfg env reason target_context_budget force allow_model_summary ms w =
     (let w = write_transcript ms w;
          target = compact_target cfg target_context_budget;
          signature = digest env ms target (int (request_size env []));
          fail = (\<lambda>summarized tail summary_length failure calls w.
            (ms, record_compact (failed_event env reason ms summarized tail summary_length failure calls)
                   (remember_failed_compact reason signature failure (length ms) w)));
          assembled = (\<lambda>summary tail. assemble_compacted_history (fresh_uid env) summary tail (latest_user_message ms))
      in
      if \<not> force \<and> estimate_context_tokens (int (request_size env ms)) < cfg_trigger_tokens cfg
      then (ms, record_compact (failed_event env reason ms 0 ms 0 ''below compact trigger'' 0) w)
      else case (if \<not> force \<and> reason = ''automatic'' then retry_blocked signature ms w else None) of
        Some failure \<Rightarrow> (ms, record_compact (failed_event env reason ms 0 ms 0 failure 0) w)
      | None \<Rightarrow>
      let sel = select_prefix_and_recent_tail (\<lambda>m. estimate_size env [m]) ms in
      if sel_prefix sel = [] then fail 0 ms 0 ''no safe bounded older prefix to summarize'' 0 w
      else case shrink_tail (\<lambda>tail. int (request_size env (assembled (replicate (summary_output_reserve_chars cfg) (CHR ''x'')) tail)) \<le> target)
                 (sel_protected sel) (sel_prefix sel) (sel_tail sel) of
        (False, prefix, tail) \<Rightarrow> fail (length prefix) tail 0 ''checkpoint and protected recent context cannot fit within target'' 0 w
      | (True, prefix, tail) \<Rightarrow>
      (case summary_input_failure cfg env prefix of
        Some failure \<Rightarrow> fail (length prefix) tail 0 failure 0 w
      | None \<Rightarrow>
      if allow_model_summary = Some False \<or> \<not> can_spend_optional_calls (model_client env) 1 True
      then fail 0 ms 0 ''model summary call unavailable'' 0 w
      else case summarize_once env prefix w of
        (Inl failure, w) \<Rightarrow> fail (length prefix) tail 0 failure 1 w
      | (Inr summary, w) \<Rightarrow>
          let candidate = assembled summary tail; candidate_size = request_size env candidate in
          if int candidate_size > target
          then fail (length prefix) tail (length summary)
                 (''assembled request remains '' @ nat_str candidate_size @ '' chars above target '' @ int_str target
                  @ ''; a second summary call is forbidden'') 1 w
          else (candidate,
                (\<lambda>w. w\<lparr>memory := map_option (\<lambda>mem. mem\<lparr>compact_generation := compact_generation mem + 1\<rparr>) (memory w)\<rparr>)
                  (clear_failed_compact (record_compact
                    \<lparr>ce_reason = reason, ce_before_messages = length ms, ce_before_size = request_size env ms,
                     ce_after_messages = length candidate, ce_after_size = candidate_size, ce_summarized_prefix = length prefix,
                     ce_tail = tail, ce_summary_length = length summary, ce_success = True, ce_failure = [], ce_summary_calls = 1\<rparr> w)))))"

definition compact_history :: "compact_config \<Rightarrow> compact_calls \<Rightarrow> string \<Rightarrow> int option \<Rightarrow> bool option \<Rightarrow> chat list \<Rightarrow> compact_state \<Rightarrow>
    chat list \<times> compact_state" where
  "compact_history cfg env reason target_context_budget allow_model_summary ms w =
     compact cfg env (or_str reason ''automatic'') target_context_budget (reason = ''manual'') allow_model_summary ms w"

definition reactive_compact :: "compact_config \<Rightarrow> compact_calls \<Rightarrow> int option \<Rightarrow> chat list \<Rightarrow> compact_state \<Rightarrow> chat list \<times> compact_state" where
  "reactive_compact cfg env target_context_budget ms w = compact cfg env ''reactive'' target_context_budget True None ms w"

section \<open>What the loop keeps\<close>

lemma shrink_tail_keeps: "shrink_tail fits prot prefix tail = (b, prefix', tail') \<Longrightarrow> prefix' @ tail' = prefix @ tail \<and> (b \<longrightarrow> fits tail')"
proof (induction fits prot prefix tail rule: shrink_tail.induct)
  case (1 fits prot prefix tail)
  then show ?case
    by (auto simp: shrink_tail.simps[of fits prot prefix tail] split: if_splits list.splits dest!: first_unit)
qed

lemma shrink_tail_grows: "shrink_tail fits prot prefix tail = (b, prefix', tail') \<Longrightarrow> prefix \<noteq> [] \<Longrightarrow> prefix' \<noteq> []"
proof (induction fits prot prefix tail rule: shrink_tail.induct)
  case (1 fits prot prefix tail)
  then show ?case by (auto simp: shrink_tail.simps[of fits prot prefix tail] split: if_splits list.splits)
qed

lemma history_units_append: "role a = ''assistant'' \<Longrightarrow> history_units (xs @ a # ys) = history_units xs @ history_units (a # ys)"
proof (induction xs rule: history_units.induct)
  case (2 m)
  then show ?case using answers_roles[of m a] by auto
qed auto

lemma exchange_unit: "answers a r \<Longrightarrow> history_units (zs @ a # r # ys) = history_units zs @ [a, r] # history_units ys"
  by (simp add: history_units_append answers_roles)

text \<open>An exchange with the protected identifiers stays in the tail with what follows it.\<close>

lemma shrink_tail_protects:
  assumes "shrink_tail fits prot prefix tail = (b, prefix', tail')" "tail = zs @ a # r # ys"
    and "answers a r" "unit_tool_use_ids [a, r] = prot" "prot \<noteq> {}"
  shows "\<exists>zs'. tail' = zs' @ a # r # ys"
  using assms
proof (induction fits prot prefix tail arbitrary: zs rule: shrink_tail.induct)
  case (1 fits prot prefix tail)
  show ?case
  proof (cases "fits tail")
    case True
    then have "tail' = tail" using "1.prems"(1) by (simp add: shrink_tail.simps[of fits prot prefix tail])
    then show ?thesis using "1.prems"(2) by blast
  next
    case False
    have units: "history_units tail = history_units zs @ [a, r] # history_units ys" using "1.prems" by (simp add: exchange_unit)
    then obtain u us where tail_units: "history_units tail = u # us" by (cases "history_units zs") auto
    show ?thesis
    proof (cases "unit_tool_use_ids u = prot")
      case True
      then have "tail' = tail" using "1.prems"(1,5) False tail_units by (simp add: shrink_tail.simps[of fits prot prefix tail])
      then show ?thesis using "1.prems"(2) by blast
    next
      case moved: False
      then obtain vs where zs_units: "history_units zs = u # vs" using units tail_units "1.prems"(4) by (cases "history_units zs") auto
      then have "concat us = concat vs @ a # r # ys" using units tail_units by (simp add: concat_units)
      moreover have "shrink_tail fits prot (prefix @ u) (concat us) = (b, prefix', tail')"
        using "1.prems"(1) False tail_units moved by (simp add: shrink_tail.simps[of fits prot prefix tail])
      ultimately show ?thesis using "1.IH"[OF False tail_units _ _ _ "1.prems"(3,4,5)] moved by blast
    qed
  qed
qed

section \<open>The results the model has not seen\<close>

lemma from_last_assistant_split:
  "from_last_assistant ms = a # rest \<Longrightarrow> \<exists>pre. ms = pre @ a # rest \<and> role a = ''assistant''"
proof (induction ms)
  case (Cons m ms)
  then show ?case by (auto split: if_splits)
qed simp

lemma first_index_le: "i < length xs \<Longrightarrow> P (xs ! i) \<Longrightarrow> \<exists>k\<le>i. first_index P xs = Some k"
proof (induction xs arbitrary: i)
  case (Cons x xs)
  then show ?case by (cases i) fastforce+
qed simp

text \<open>The last exchange of the conversation, if no later message of the model has consumed it.\<close>

definition unseen_exchange :: "chat list \<Rightarrow> chat \<Rightarrow> chat \<Rightarrow> bool" where
  "unseen_exchange ms a r = (unconsumed_tool_use_ids ms \<noteq> {} \<and> (\<exists>rest. from_last_assistant ms = a # r # rest))"

lemma unseen_exchange_facts:
  assumes "unseen_exchange ms a r"
  shows "\<exists>pre rest. ms = pre @ a # r # rest" "answers a r" "unit_tool_use_ids [a, r] = unconsumed_tool_use_ids ms"
    "\<not> is_user_instruction a" "\<not> is_user_instruction r"
proof -
  from assms obtain rest where f: "from_last_assistant ms = a # r # rest" and ne: "unconsumed_tool_use_ids ms \<noteq> {}"
    by (auto simp: unseen_exchange_def)
  show "\<exists>pre rest. ms = pre @ a # r # rest" using from_last_assistant_split[OF f] by blast
  from f ne have u: "message_has_tool_use a" "tool_result_ids r \<noteq> {}" "tool_result_ids r = tool_use_ids a" "unconsumed_tool_use_ids ms = tool_use_ids a"
    by (auto simp: unconsumed_tool_use_ids_def split: if_splits)
  then show "answers a r" by (simp add: answers_def)
  from u(2) have r: "is_tool_result_message r" by (auto simp: tool_result_ids_def)
  with u show "unit_tool_use_ids [a, r] = unconsumed_tool_use_ids ms" by (simp add: unit_tool_use_ids_def is_tool_exchange_unit_def)
  show "\<not> is_user_instruction r" using r by (simp add: is_user_instruction_def)
  show "\<not> is_user_instruction a" using u(1) by (simp add: is_user_instruction_def message_has_tool_use_def)
qed

lemma not_latest: "inj_on uid (set ms) \<Longrightarrow> m \<in> set ms \<Longrightarrow> \<not> is_user_instruction m \<Longrightarrow> \<not> is_latest (latest_user_message ms) m"
  by (auto simp: is_latest_def split: option.splits dest!: latest_is_user dest: inj_onD)

lemma selection_protects:
  assumes "unseen_exchange ms a r" and "inj_on uid (set ms)"
  shows "\<exists>zs ys. sel_tail (select_prefix_and_recent_tail msize ms) = zs @ a # r # ys"
proof -
  note ex = unseen_exchange_facts[OF assms(1)]
  obtain pre rest where ms: "ms = pre @ a # r # rest" using ex(1) by blast
  let ?us = "history_units ms" and ?keep = "filter (\<lambda>m. \<not> is_latest (latest_user_message ms) m)" and ?b = "tail_start_of msize ms"
  have us: "?us = history_units pre @ [a, r] # history_units rest" using ms ex(2) by (simp add: exchange_unit)
  let ?n = "length (history_units pre)"
  have "\<exists>k\<le>?n. protected_index ms = Some k"
    unfolding protected_index_def Let_def
    using assms(1) by (intro first_index_le) (auto simp: us ex(3) unseen_exchange_def)
  then have "?b \<le> ?n" using tail_start_bounds(3)[of ms _ msize] le_trans by blast
  from drop_concat_suffix[OF this, of ?us] obtain zs where "concat (drop ?b ?us) = zs @ a # r # rest" by (auto simp: us concat_units)
  moreover have "\<not> is_latest (latest_user_message ms) a" "\<not> is_latest (latest_user_message ms) r"
    using not_latest[OF assms(2) _ ex(4)] not_latest[OF assms(2) _ ex(5)] ms by simp_all
  ultimately have "?keep (concat (drop ?b ?us)) = ?keep zs @ a # r # ?keep rest" by simp
  with selection_cases[of msize ms] ms show ?thesis by metis
qed

section \<open>Outcomes of a compaction\<close>

lemma effects_requests [simp]:
  "summary_requests (write_transcript ms w) = summary_requests w"
  "summary_requests (remember_failed_compact reason signature failure n w) = summary_requests w"
  "summary_requests (record_compact ev w) = summary_requests w"
  "summary_requests (clear_failed_compact w) = summary_requests w"
  by (simp_all add: write_transcript_def remember_failed_compact_def record_compact_def clear_failed_compact_def split: option.splits)

lemma effects_events [simp]:
  "compact_events (write_transcript ms w) = compact_events w"
  "compact_events (remember_failed_compact reason signature failure n w) = compact_events w"
  "compact_events (record_compact ev w) = compact_events w @ [ev]"
  "compact_events (clear_failed_compact w) = compact_events w"
  "compact_events (snd (summarize_once env prefix w)) = compact_events w"
  by (simp_all add: write_transcript_def remember_failed_compact_def record_compact_def clear_failed_compact_def summarize_once_def Let_def
      split: option.splits sum.splits)

lemma effects_memory [simp]:
  "memory (write_transcript ms w) = memory w"
  "memory (record_compact ev w) = memory w"
  by (simp_all add: write_transcript_def record_compact_def)

lemma summarize_once_result:
  "summarize_once env prefix w = (out, w') \<Longrightarrow> summary_requests w' = summary_requests w @ [prefix] \<and> compact_events w' = compact_events w \<and> memory w' = memory w
     \<and> (\<forall>s. out = Inr s \<longrightarrow> s \<noteq> [] \<and> (\<exists>answer. summary_model env prefix = Inr answer \<and> s = py_strip answer))"
  by (auto simp: summarize_once_def Let_def split: sum.splits if_splits)

lemma failed_event_not_success [simp]: "\<not> ce_success (failed_event env reason ms n tail k failure calls)"
  by (simp add: failed_event_def)

text \<open>The successful outcome, with the parts the result is made of.\<close>

definition compacted :: "compact_config \<Rightarrow> compact_calls \<Rightarrow> int option \<Rightarrow> chat list \<Rightarrow> chat list \<Rightarrow> chat list \<Rightarrow> string \<Rightarrow> bool" where
  "compacted cfg env target_context_budget ms prefix tail summary =
     (let sel = select_prefix_and_recent_tail (\<lambda>m. estimate_size env [m]) ms;
          size = (\<lambda>s. int (request_size env (assemble_compacted_history (fresh_uid env) s tail (latest_user_message ms))))
      in sel_prefix sel \<noteq> []
         \<and> shrink_tail (\<lambda>tail. int (request_size env (assemble_compacted_history (fresh_uid env)
               (replicate (summary_output_reserve_chars cfg) (CHR ''x'')) tail (latest_user_message ms))) \<le> compact_target cfg target_context_budget)
             (sel_protected sel) (sel_prefix sel) (sel_tail sel) = (True, prefix, tail)
         \<and> summary_input_failure cfg env prefix = None
         \<and> can_spend_optional_calls (model_client env) 1 True
         \<and> summary \<noteq> [] \<and> (\<exists>answer. summary_model env prefix = Inr answer \<and> summary = py_strip answer)
         \<and> size summary \<le> compact_target cfg target_context_budget)"

lemma compact_cases:
  assumes "compact cfg env reason target_context_budget force allow ms w = (result, w')"
  shows "(result = ms \<and> (\<exists>ev. compact_events w' = compact_events w @ [ev] \<and> \<not> ce_success ev)
            \<and> (\<exists>sent. summary_requests w' = summary_requests w @ sent \<and> length sent \<le> 1))
       \<or> (\<exists>prefix tail summary. compacted cfg env target_context_budget ms prefix tail summary
            \<and> result = assemble_compacted_history (fresh_uid env) summary tail (latest_user_message ms)
            \<and> summary_requests w' = summary_requests w @ [prefix]
            \<and> (\<exists>ev. compact_events w' = compact_events w @ [ev] \<and> ce_success ev)
            \<and> allow \<noteq> Some False
            \<and> (force \<or> cfg_trigger_tokens cfg \<le> estimate_context_tokens (int (request_size env ms)))
            \<and> memory w' = map_option (\<lambda>mem. mem\<lparr>failed_signature := None, failed_reason := None, failed_message_count := None,
                 compact_generation := compact_generation mem + 1\<rparr>) (memory w))"
  using assms
  by (auto simp: compact_def Let_def compacted_def clear_failed_compact_def option.map_comp comp_def
      split: if_splits option.splits prod.splits bool.splits sum.splits dest!: summarize_once_result)
lemma compacted_parts:
  assumes "compacted cfg env target_context_budget ms prefix tail summary"
  shows "prefix \<noteq> []" "prefix @ tail = filter (\<lambda>m. \<not> is_latest (latest_user_message ms) m) ms"
    "int (request_size env (assemble_compacted_history (fresh_uid env) summary tail (latest_user_message ms))) \<le> compact_target cfg target_context_budget"
    "estimate_context_tokens (int (compact_prompt_length env prefix)) \<le> max 0 (cfg_summary_input_limit cfg - SUMMARY_INPUT_SAFETY_MARGIN_TOKENS)"
proof -
  let ?sel = "select_prefix_and_recent_tail (\<lambda>m. estimate_size env [m]) ms"
  have ne: "sel_prefix ?sel \<noteq> []" using assms by (simp add: compacted_def Let_def)
  have cut: "prefix @ tail = sel_prefix ?sel @ sel_tail ?sel" using assms by (auto simp: compacted_def Let_def dest: shrink_tail_keeps)
  also have "\<dots> = filter (\<lambda>m. \<not> is_latest (latest_user_message ms) m) ms"
    using selection_cases[of "\<lambda>m. estimate_size env [m]" ms] ne
    by (metis (no_types, lifting) cut_append filter_append)
  finally show "prefix @ tail = filter (\<lambda>m. \<not> is_latest (latest_user_message ms) m) ms" .
  show "prefix \<noteq> []" using assms ne by (auto simp: compacted_def Let_def dest: shrink_tail_grows)
  show "int (request_size env (assemble_compacted_history (fresh_uid env) summary tail (latest_user_message ms))) \<le> compact_target cfg target_context_budget"
    using assms by (simp add: compacted_def Let_def)
  show "estimate_context_tokens (int (compact_prompt_length env prefix)) \<le> max 0 (cfg_summary_input_limit cfg - SUMMARY_INPUT_SAFETY_MARGIN_TOKENS)"
    using assms by (auto simp: compacted_def Let_def summary_input_failure_def split: if_splits)
qed

text \<open>C38: A compaction has two outcomes. Either it returns the conversation it was given, records a failure and has asked the summary
  model at most once; or it returns a checkpoint with the answer of the summary model, the latest user instruction and a tail. In the second
  case the messages that are no longer in the conversation are exactly those in the single summary request, none is lost or reordered, the request
  was within the input limit of the summary model, and the new conversation is within the target size.\<close>

theorem compact_outcome:
  assumes "compact cfg env reason target_context_budget force allow ms w = (result, w')"
  shows "result = ms \<and> (\<exists>ev. compact_events w' = compact_events w @ [ev] \<and> \<not> ce_success ev)
           \<and> (\<exists>sent. summary_requests w' = summary_requests w @ sent \<and> length sent \<le> 1)
       \<or> (\<exists>dropped tail answer. dropped \<noteq> [] \<and> dropped @ tail = filter (\<lambda>m. \<not> is_latest (latest_user_message ms) m) ms
            \<and> summary_requests w' = summary_requests w @ [dropped]
            \<and> summary_model env dropped = Inr answer \<and> py_strip answer \<noteq> []
            \<and> result = checkpoint_message (fresh_uid env) (py_strip answer) # (case latest_user_message ms of None \<Rightarrow> [] | Some m \<Rightarrow> [m]) @ tail
            \<and> int (request_size env result) \<le> compact_target cfg target_context_budget
            \<and> estimate_context_tokens (int (compact_prompt_length env dropped)) \<le> max 0 (cfg_summary_input_limit cfg - SUMMARY_INPUT_SAFETY_MARGIN_TOKENS)
            \<and> (force \<or> cfg_trigger_tokens cfg \<le> estimate_context_tokens (int (request_size env ms))))"
  (is "?same \<or> ?new")
proof (cases ?same)
  case False
  with compact_cases[OF assms] obtain prefix tail summary
    where c: "compacted cfg env target_context_budget ms prefix tail summary"
    and r: "result = assemble_compacted_history (fresh_uid env) summary tail (latest_user_message ms)"
    and s: "summary_requests w' = summary_requests w @ [prefix]"
    and f: "force \<or> cfg_trigger_tokens cfg \<le> estimate_context_tokens (int (request_size env ms))"
    by blast
  from c obtain answer where "summary_model env prefix = Inr answer" "summary = py_strip answer" "summary \<noteq> []"
    by (auto simp: compacted_def Let_def)
  with compacted_parts[OF c] r s f show ?thesis
    by (intro disjI2 exI[of _ prefix] exI[of _ tail] exI[of _ answer]) (simp add: assemble_compacted_history_def)
qed simp

text \<open>C39: The results of the last tool calls, if the model has not answered since, are in the conversation after a compaction, right behind
  their call, whatever the sizes and limits are. (Python's \<open>id\<close> identifies an object: messages of the history with the same identity are the
  same.)\<close>

theorem compact_keeps_unseen_results:
  assumes "inj_on uid (set ms)" and "unseen_exchange ms a r"
  shows "\<exists>xs ys. fst (compact cfg env reason target_context_budget force allow ms w) = xs @ a # r # ys"
proof -
  obtain result w' where run: "compact cfg env reason target_context_budget force allow ms w = (result, w')" by fastforce
  note ex = unseen_exchange_facts[OF assms(2)]
  show ?thesis
  proof (cases "result = ms")
    case True
    then show ?thesis using ex(1) run by simp
  next
    case False
    with compact_cases[OF run] obtain prefix tail summary
      where c: "compacted cfg env target_context_budget ms prefix tail summary"
      and r: "result = assemble_compacted_history (fresh_uid env) summary tail (latest_user_message ms)" by blast
    obtain zs ys where "sel_tail (select_prefix_and_recent_tail (\<lambda>m. estimate_size env [m]) ms) = zs @ a # r # ys"
      using selection_protects[OF assms(2,1)] by blast
    with c ex(2,3) assms(2) obtain zs' where "tail = zs' @ a # r # ys"
      by (auto simp: compacted_def Let_def selection_rest unseen_exchange_def dest: shrink_tail_protects)
    then have "result = (checkpoint_message (fresh_uid env) summary # (case latest_user_message ms of None \<Rightarrow> [] | Some m \<Rightarrow> [m]) @ zs') @ a # r # ys"
      using r by (simp add: assemble_compacted_history_def)
    then show ?thesis unfolding run by (metis fst_conv)
  qed
qed

section \<open>An example\<close>

definition demo_ask :: chat where
  "demo_ask = \<lparr>uid = 1, role = ''user'', content = Plain ''fix it''\<rparr>"

definition demo_note :: "nat \<Rightarrow> chat" where
  "demo_note i = \<lparr>uid = i, role = ''assistant'', content = Blocks [Text_block ''looking'']\<rparr>"

definition demo_call :: chat where
  "demo_call = \<lparr>uid = 4, role = ''assistant'', content = Blocks [Text_block ''run'', Tool_use ''t1'']\<rparr>"

definition demo_result :: chat where
  "demo_result = \<lparr>uid = 5, role = ''user'', content = Blocks [Tool_result ''t1'']\<rparr>"

definition demo_history :: "chat list" where
  "demo_history = [demo_ask, demo_note 2, demo_note 3, demo_call, demo_result]"

definition demo_calls :: compact_calls where
  "demo_calls = \<lparr>estimate_size = (\<lambda>ms. 30000 * length ms), request_size = (\<lambda>ms. 100 * length ms), digest = (\<lambda>ms t f. ''sig''),
     summary_model = (\<lambda>ms. Inr '' done ''), model_client = No_budget_method, fresh_uid = 9\<rparr>"

definition demo_config :: compact_config where
  "demo_config = \<lparr>cfg_trigger_tokens = 1000, cfg_summary_input_limit = 256000, cfg_summary_max_tokens = 2\<rparr>"

definition demo_state :: compact_state where
  "demo_state = \<lparr>memory = Some \<lparr>failed_signature = None, failed_reason = None, failed_message_count = None, compact_generation = 0\<rparr>,
     transcripts = [], compact_events = [], summary_requests = []\<rparr>"

lemmas demo_message_defs = demo_ask_def demo_note_def demo_call_def demo_result_def

lemmas chat_defs = message_has_tool_use_def is_tool_result_message_def tool_use_ids_def tool_result_ids_def use_id_def result_id_def
  answers_def is_tool_exchange_unit_def unit_tool_use_ids_def unconsumed_tool_use_ids_def

lemma demo_units: "history_units demo_history = [[demo_ask], [demo_note 2], [demo_note 3], [demo_call, demo_result]]"
  by (simp add: demo_history_def demo_message_defs chat_defs)

lemma demo_unconsumed: "unconsumed_tool_use_ids demo_history = {''t1''}" "from_last_assistant demo_history = [demo_call, demo_result]"
  by (simp_all add: demo_history_def demo_message_defs chat_defs)

lemma demo_latest: "latest_user_message demo_history = Some demo_ask"
  by code_simp

lemma demo_protected: "protected_index demo_history = Some 3"
  unfolding protected_index_def Let_def demo_units demo_unconsumed
  by (simp add: demo_message_defs chat_defs numeral_3_eq_3)

lemma demo_tail_start: "tail_start_of (\<lambda>m. 30000) demo_history = 3"
  unfolding tail_start_of_def Let_def demo_units demo_latest demo_protected
  by (simp add: units_size_def unit_size_def is_latest_def tool_count_of_def tail_limit_chars_def is_tool_exchange_unit_def
      demo_message_defs chat_defs)

lemma demo_selection: "select_prefix_and_recent_tail (\<lambda>m. 30000) demo_history =
    \<lparr>sel_prefix = [demo_note 2, demo_note 3], sel_tail = [demo_call, demo_result], sel_latest = Some demo_ask, sel_protected = {''t1''}\<rparr>"
  unfolding select_prefix_and_recent_tail_def Let_def demo_units demo_latest demo_tail_start demo_unconsumed
  by (simp add: is_latest_def demo_message_defs)

lemma demo_run: "fst (compact demo_config demo_calls ''manual'' None True None demo_history demo_state) =
    [checkpoint_message 9 ''done'', demo_ask, demo_call, demo_result]"
proof -
  have size: "(\<lambda>m. estimate_size demo_calls [m]) = (\<lambda>m. 30000)" by (simp add: demo_calls_def)
  have strip: "py_strip '' done '' = ''done''" by code_simp
  show ?thesis
    unfolding compact_def Let_def size demo_selection demo_latest
    by (simp add: demo_config_def demo_calls_def compact_target_def COMPACT_HEADROOM_TOKENS_def shrink_tail.simps assemble_compacted_history_def
        summary_input_failure_def estimate_context_tokens_def compact_prompt_length_def summary_prefix_budget_tokens_def
        SUMMARY_INPUT_SAFETY_MARGIN_TOKENS_def can_spend_optional_calls_def model_budget_snapshot_def summarize_once_def strip)
qed

theorem compaction_cut_witness:
  "sel_prefix (select_prefix_and_recent_tail (\<lambda>m. 30000) demo_history) = [demo_note 2, demo_note 3]
   \<and> (\<exists>b. b \<le> 3 \<and> demo_history = concat (take b (history_units demo_history)) @ concat (drop b (history_units demo_history)))"
  using compaction_cut[of _ "\<lambda>m. 30000" demo_history, OF refl] by (auto simp: Let_def demo_selection demo_protected)

theorem compact_outcome_witness:
  "\<exists>w'. compact demo_config demo_calls ''manual'' None True None demo_history demo_state = ([checkpoint_message 9 ''done'', demo_ask, demo_call, demo_result], w')
     \<and> summary_requests w' = [[demo_note 2, demo_note 3]]"
proof -
  obtain w' where run: "compact demo_config demo_calls ''manual'' None True None demo_history demo_state
      = ([checkpoint_message 9 ''done'', demo_ask, demo_call, demo_result], w')"
    using demo_run by (metis fst_conv surj_pair)
  have ne: "[checkpoint_message 9 ''done'', demo_ask, demo_call, demo_result] \<noteq> demo_history" by (simp add: demo_history_def)
  have kept: "filter (\<lambda>m. \<not> is_latest (Some demo_ask) m) demo_history = [demo_note 2, demo_note 3] @ [demo_call, demo_result]"
    by (simp add: demo_history_def is_latest_def demo_message_defs)
  have none: "summary_requests demo_state = []" by (simp add: demo_state_def)
  from compact_outcome[OF run] ne obtain dropped tail where d: "dropped @ tail = [demo_note 2, demo_note 3] @ [demo_call, demo_result]"
      "summary_requests w' = [dropped]" "tail = [demo_call, demo_result]"
    unfolding demo_latest kept none by auto
  then have "summary_requests w' = [[demo_note 2, demo_note 3]]" using append_same_eq[of dropped tail "[demo_note 2, demo_note 3]"] by simp
  with run show ?thesis by blast
qed

theorem compact_keeps_unseen_results_witness:
  "unseen_exchange demo_history demo_call demo_result
   \<and> (\<exists>xs ys. fst (compact demo_config demo_calls ''manual'' None True None demo_history demo_state) = xs @ demo_call # demo_result # ys)"
proof -
  have "unseen_exchange demo_history demo_call demo_result" by (simp add: unseen_exchange_def demo_unconsumed)
  moreover have "inj_on uid (set demo_history)" by (simp add: demo_history_def demo_message_defs)
  ultimately show ?thesis using compact_keeps_unseen_results by blast
qed

end
