(* ===== verification/Tools.thy ===== *)
theory Tools
  imports Prelude
begin

text \<open>
  The tool registry, \<open>tool_registry.py\<close>: tool definitions, which role may use which tool, and the permissions a delegated
  agent ends up with.

  Shown: an agent gets exactly the registered tools of its role that were requested and that every policy allows; a tool outside the
  parent's list needs a policy for the role in the parent's own policy that says so; and binding the handlers of those tools never fails.
\<close>

section \<open>Schemas\<close>

text \<open>Python values in a schema. The first group are the JSON values; a frozen schema has proxies, tuples and frozensets.\<close>

datatype pyval =
    Py_none | Py_bool bool | Py_int int | Py_str string | Py_list "pyval list" | Py_dict "(string \<times> pyval) list"
  | Py_tuple "pyval list" | Py_proxy "(string \<times> pyval) list" | Py_set "pyval list" | Py_frozenset "pyval list"

fun deep_freeze :: "pyval \<Rightarrow> pyval" where
  "deep_freeze (Py_dict d) = Py_proxy (map (\<lambda>(k, v). (k, deep_freeze v)) d)"
| "deep_freeze (Py_list xs) = Py_tuple (map deep_freeze xs)"
| "deep_freeze (Py_tuple xs) = Py_tuple (map deep_freeze xs)"
| "deep_freeze (Py_set xs) = Py_frozenset (map deep_freeze xs)"
| "deep_freeze v = v"

fun deep_thaw :: "pyval \<Rightarrow> pyval" where
  "deep_thaw (Py_dict d) = Py_dict (map (\<lambda>(k, v). (k, deep_thaw v)) d)"
| "deep_thaw (Py_proxy d) = Py_dict (map (\<lambda>(k, v). (k, deep_thaw v)) d)"
| "deep_thaw (Py_tuple xs) = Py_list (map deep_thaw xs)"
| "deep_thaw (Py_frozenset xs) = Py_list (map deep_thaw xs)"
| "deep_thaw v = v"

fun json_value :: "pyval \<Rightarrow> bool" where
  "json_value (Py_list xs) = (\<forall>x\<in>set xs. json_value x)"
| "json_value (Py_dict d) = (\<forall>(k, v)\<in>set d. json_value v)"
| "json_value (Py_tuple xs) = False"
| "json_value (Py_proxy d) = False"
| "json_value (Py_set xs) = False"
| "json_value (Py_frozenset xs) = False"
| "json_value v = True"

lemma thaw_freeze: "json_value v \<Longrightarrow> deep_thaw (deep_freeze v) = v"
proof (induction v)
  case (Py_list xs)
  then show ?case by (simp add: map_idI)
next
  case (Py_dict d)
  have "(\<lambda>(k, v). (k, deep_thaw (deep_freeze v))) x = x" if "x \<in> set d" for x
    using Py_dict that by (cases x) (fastforce simp: snds.simps)
  then show ?case by (auto simp: comp_def split_beta intro!: map_idI)
qed simp_all

section \<open>Tools\<close>

text \<open>A handler as \<open>inspect.signature\<close> sees it: its parameters, whether it takes any keyword, and what it is.\<close>

record handler =
  h_name :: string
  h_params :: "string list"
  h_accepts_extras :: bool

record tool_spec =
  ts_name :: string
  ts_description :: string
  ts_schema :: pyval
  ts_handler :: "handler option"
  ts_safety_policy :: string
  ts_background_policy :: string
  ts_allowed_roles :: "string list"
  ts_runtime_aware :: bool

definition KNOWN_SAFETY_POLICIES :: "string list" where
  "KNOWN_SAFETY_POLICIES = [''standard'', ''command_guard'', ''workspace_write'', ''destructive_confirmation'', ''workspace_integration'']"

definition KNOWN_BACKGROUND_POLICIES :: "string list" where
  "KNOWN_BACKGROUND_POLICIES = [''foreground'', ''explicit'']"

definition make_spec :: "tool_spec \<Rightarrow> string + tool_spec" where
  "make_spec t =
     (if ts_safety_policy t \<notin> set KNOWN_SAFETY_POLICIES
      then Inl (''unknown safety policy for '' @ ts_name t @ '': '' @ ts_safety_policy t)
      else if ts_background_policy t \<notin> set KNOWN_BACKGROUND_POLICIES
      then Inl (''unknown background policy for '' @ ts_name t @ '': '' @ ts_background_policy t)
      else Inr (t\<lparr>ts_schema := deep_freeze (ts_schema t)\<rparr>))"

definition api_schema :: "tool_spec \<Rightarrow> pyval" where
  "api_schema t = Py_dict [(''name'', Py_str (ts_name t)), (''description'', Py_str (ts_description t)), (''input_schema'', deep_thaw (ts_schema t))]"

lemma api_schema_given: "make_spec t = Inr t' \<Longrightarrow> json_value (ts_schema t) \<Longrightarrow>
    api_schema t' = Py_dict [(''name'', Py_str (ts_name t)), (''description'', Py_str (ts_description t)), (''input_schema'', ts_schema t)]"
  by (auto simp: make_spec_def api_schema_def thaw_freeze split: if_splits)

text \<open>A bound handler: the handler with the keywords \<open>partial\<close> fixes; \<open>'r\<close> are the values passed as keywords.\<close>

definition bind_handler :: "'r option \<Rightarrow> 'r dict \<Rightarrow> tool_spec \<Rightarrow> (handler \<times> 'r dict) option" where
  "bind_handler runtime kwargs t = (case ts_handler t of
     None \<Rightarrow> None
   | Some h \<Rightarrow>
       let kept = filter (\<lambda>(k, v). h_accepts_extras h \<or> k \<in> set (h_params h)) kwargs in
       Some (h, case runtime of Some r \<Rightarrow> if ts_runtime_aware t then dict_set ''runtime'' r kept else kept | None \<Rightarrow> kept))"

section \<open>The registry\<close>

type_synonym registry = "tool_spec dict"

fun add_specs :: "tool_spec list \<Rightarrow> registry \<Rightarrow> string + registry" where
  "add_specs [] reg = Inr reg"
| "add_specs (t # ts) reg =
     (if ts_name t \<in> fst ` set reg then Inl (''duplicate tool registration: '' @ ts_name t)
      else add_specs ts (dict_set (ts_name t) t reg))"

definition make_registry :: "tool_spec list \<Rightarrow> string + registry" where
  "make_registry ts = add_specs ts []"

definition get_spec :: "registry \<Rightarrow> string \<Rightarrow> string + tool_spec" where
  "get_spec reg nm = (case map_of reg nm of None \<Rightarrow> Inl (''unknown tool: '' @ nm) | Some t \<Rightarrow> Inr t)"

definition names_for_role :: "registry \<Rightarrow> string \<Rightarrow> string list" where
  "names_for_role reg role = map fst (filter (\<lambda>(nm, t). role \<in> set (ts_allowed_roles t)) reg)"

definition schemas_for_role :: "registry \<Rightarrow> string \<Rightarrow> pyval list" where
  "schemas_for_role reg role = map (\<lambda>(nm, t). api_schema t) (filter (\<lambda>(nm, t). role \<in> set (ts_allowed_roles t)) reg)"

definition schemas_for_names :: "registry \<Rightarrow> string list \<Rightarrow> string \<Rightarrow> pyval list" where
  "schemas_for_names reg requested role =
     map (\<lambda>(nm, t). api_schema t) (filter (\<lambda>(nm, t). ts_name t \<in> set requested \<and> role \<in> set (ts_allowed_roles t)) reg)"

fun handlers_for_names :: "registry \<Rightarrow> string list \<Rightarrow> string \<Rightarrow> 'r option \<Rightarrow> 'r dict \<Rightarrow> (handler \<times> 'r dict) dict \<Rightarrow>
    string + (handler \<times> 'r dict) dict" where
  "handlers_for_names reg [] role runtime kwargs hs = Inr hs"
| "handlers_for_names reg (nm # names) role runtime kwargs hs = (case get_spec reg nm of
     Inl e \<Rightarrow> Inl e
   | Inr t \<Rightarrow>
       handlers_for_names reg names role runtime kwargs
         (if role \<notin> set (ts_allowed_roles t) then hs
          else case bind_handler runtime kwargs t of None \<Rightarrow> hs | Some h \<Rightarrow> dict_set nm h hs))"

definition handlers_for_role :: "registry \<Rightarrow> string \<Rightarrow> 'r option \<Rightarrow> string + (handler \<times> 'r dict) dict" where
  "handlers_for_role reg role runtime = handlers_for_names reg (names_for_role reg role) role runtime [] []"

section \<open>Policies\<close>

text \<open>A policy dictionary: \<open>allowed_tools\<close>, whether \<open>allow_parent_permission_expansion\<close> is \<open>True\<close>, and the policies
  of delegated roles. \<open>None\<close> is a value that is not a dictionary.\<close>

datatype tool_policy = Tool_policy (allowed_tools: "string list option") (expands: bool) (delegated: "(string \<times> tool_policy option) list option")

definition policy_allowed_tools :: "tool_policy option \<Rightarrow> string list option" where
  "policy_allowed_tools p = (case p of None \<Rightarrow> None | Some q \<Rightarrow> allowed_tools q)"

definition delegated_policy_for_role :: "tool_policy option \<Rightarrow> string \<Rightarrow> tool_policy option" where
  "delegated_policy_for_role parent role = (case parent of
     None \<Rightarrow> None
   | Some q \<Rightarrow> (case delegated q of None \<Rightarrow> None | Some configured \<Rightarrow> dict_get configured role None))"

definition within :: "string list option \<Rightarrow> string \<Rightarrow> bool" where
  "within allowed nm = (case allowed of None \<Rightarrow> True | Some names \<Rightarrow> nm \<in> set names)"

definition explicitly_expands :: "tool_policy option \<Rightarrow> bool" where
  "explicitly_expands p = (case p of None \<Rightarrow> False | Some q \<Rightarrow> expands q)"

definition effective_tool_names :: "registry \<Rightarrow> string list \<Rightarrow> string \<Rightarrow> tool_policy option \<Rightarrow> tool_policy option \<Rightarrow>
    tool_policy option \<Rightarrow> string list" where
  "effective_tool_names reg requested role parent environment deleg =
     (let effective = filter (\<lambda>nm. nm \<in> set requested) (names_for_role reg role);
          effective1 = (if policy_allowed_tools parent \<noteq> None \<and> \<not> explicitly_expands deleg
                        then filter (within (policy_allowed_tools parent)) effective else effective);
          effective2 = filter (within (policy_allowed_tools deleg)) effective1;
          effective3 = filter (within (policy_allowed_tools environment)) effective2
      in filter (\<lambda>nm. nm \<in> set effective3) (names_for_role reg role))"

section \<open>Permissions\<close>

lemma add_specs_ok:
  "add_specs ts reg = Inr reg' \<Longrightarrow> distinct (map fst reg) \<Longrightarrow> (\<forall>(nm, t)\<in>set reg. ts_name t = nm) \<Longrightarrow>
   distinct (map fst reg') \<and> (\<forall>(nm, t)\<in>set reg'. ts_name t = nm)"
proof (induction ts arbitrary: reg)
  case (Cons t ts)
  have "set (dict_set (ts_name t) t reg) \<subseteq> insert (ts_name t, t) (set reg)" by (induction reg) auto
  with Cons show ?case by (fastforce simp: distinct_update split: if_splits)
qed auto

lemma registry_lookup:
  assumes "make_registry ts = Inr reg"
  shows "nm \<in> set (names_for_role reg role) \<longleftrightarrow> (\<exists>t. map_of reg nm = Some t \<and> role \<in> set (ts_allowed_roles t))"
    "distinct (names_for_role reg role)"
proof -
  have d: "distinct (map fst reg)" using add_specs_ok assms unfolding make_registry_def by fastforce
  then show "nm \<in> set (names_for_role reg role) \<longleftrightarrow> (\<exists>t. map_of reg nm = Some t \<and> role \<in> set (ts_allowed_roles t))"
    by (force simp: names_for_role_def)
  show "distinct (names_for_role reg role)" unfolding names_for_role_def by (rule distinct_map_filter[OF d])
qed

lemma effective_iff:
  "nm \<in> set (effective_tool_names reg requested role parent environment deleg) \<longleftrightarrow>
   nm \<in> set (names_for_role reg role) \<and> nm \<in> set requested
   \<and> (within (policy_allowed_tools parent) nm \<or> explicitly_expands deleg)
   \<and> within (policy_allowed_tools deleg) nm \<and> within (policy_allowed_tools environment) nm"
  by (auto simp: effective_tool_names_def Let_def within_def)

lemma handlers_bound:
  "(\<forall>nm\<in>set names. \<exists>t. map_of reg nm = Some t \<and> role \<in> set (ts_allowed_roles t)) \<Longrightarrow>
   \<exists>hs'. handlers_for_names reg names role runtime kwargs hs = Inr hs'
     \<and> (\<forall>nm. map_of hs' nm = (if nm \<in> set names \<and> ts_handler (the (map_of reg nm)) \<noteq> None
                              then bind_handler runtime kwargs (the (map_of reg nm)) else map_of hs nm))"
proof (induction names arbitrary: hs)
  case (Cons a names)
  then obtain t where t: "map_of reg a = Some t" "role \<in> set (ts_allowed_roles t)" by auto
  let ?hs = "case bind_handler runtime kwargs t of None \<Rightarrow> hs | Some h \<Rightarrow> dict_set a h hs"
  from Cons.IH[of ?hs] Cons.prems obtain hs' where hs': "handlers_for_names reg names role runtime kwargs ?hs = Inr hs'"
    "\<And>nm. map_of hs' nm = (if nm \<in> set names \<and> ts_handler (the (map_of reg nm)) \<noteq> None
        then bind_handler runtime kwargs (the (map_of reg nm)) else map_of ?hs nm)" by auto
  have none: "bind_handler runtime kwargs t = None \<longleftrightarrow> ts_handler t = None" by (simp add: bind_handler_def Let_def split: option.splits)
  have "map_of hs' nm = (if nm \<in> set (a # names) \<and> ts_handler (the (map_of reg nm)) \<noteq> None
      then bind_handler runtime kwargs (the (map_of reg nm)) else map_of hs nm)" for nm
    using hs'(2)[of nm] none t(1) by (cases "nm = a"; cases "bind_handler runtime kwargs t") (auto simp: update_conv')
  with hs'(1) t show ?case by (simp add: get_spec_def)
qed simp

text \<open>C40: A delegated agent gets exactly the tools that are registered for its role, were requested, and are within the environment's
  policy, the role's policy and the parent's policy. Only the parent's own policy for that role, with the expansion switched on, lifts the
  parent's bound. Binding the handlers of these tools never fails, and it binds every one that has a handler and no other.\<close>

theorem delegated_tools_exact:
  assumes reg: "make_registry ts = Inr reg"
    and eff: "names = effective_tool_names reg requested role parent environment (delegated_policy_for_role parent role)"
  shows "(\<forall>nm. nm \<in> set names \<longleftrightarrow>
      (\<exists>t. map_of reg nm = Some t \<and> role \<in> set (ts_allowed_roles t)) \<and> nm \<in> set requested
      \<and> within (policy_allowed_tools environment) nm \<and> within (policy_allowed_tools (delegated_policy_for_role parent role)) nm
      \<and> (within (policy_allowed_tools parent) nm
         \<or> (\<exists>q configured d. parent = Some q \<and> delegated q = Some configured \<and> map_of configured role = Some (Some d) \<and> expands d)))
    \<and> (\<exists>hs. handlers_for_names reg names role runtime kwargs [] = Inr hs
        \<and> (\<forall>nm. map_of hs nm \<noteq> None \<longleftrightarrow> nm \<in> set names \<and> ts_handler (the (map_of reg nm)) \<noteq> None))"
proof -
  have expand: "explicitly_expands (delegated_policy_for_role parent role) \<longleftrightarrow>
      (\<exists>q configured d. parent = Some q \<and> delegated q = Some configured \<and> map_of configured role = Some (Some d) \<and> expands d)"
    by (auto simp: explicitly_expands_def delegated_policy_for_role_def dict_get_def split: option.splits)
  have names: "\<forall>nm\<in>set names. \<exists>t. map_of reg nm = Some t \<and> role \<in> set (ts_allowed_roles t)"
    unfolding eff using registry_lookup(1)[OF reg, of _ role] by (simp add: effective_iff)
  obtain hs where hs: "handlers_for_names reg names role runtime kwargs [] = Inr hs"
    "\<And>nm. map_of hs nm = (if nm \<in> set names \<and> ts_handler (the (map_of reg nm)) \<noteq> None
        then bind_handler runtime kwargs (the (map_of reg nm)) else map_of [] nm)"
    using handlers_bound[OF names, of runtime kwargs "[]"] by auto
  have "map_of hs nm \<noteq> None \<longleftrightarrow> nm \<in> set names \<and> ts_handler (the (map_of reg nm)) \<noteq> None" for nm
    unfolding hs(2) by (auto simp: bind_handler_def Let_def split: option.splits)
  with hs(1) show ?thesis unfolding eff effective_iff registry_lookup(1)[OF reg] expand by auto
qed

definition bash_tool :: tool_spec where
  "bash_tool = \<lparr>ts_name = ''bash'', ts_description = ''run'', ts_schema = Py_dict [], ts_handler = Some \<lparr>h_name = ''run_bash'', h_params = [], h_accepts_extras = False\<rparr>,
     ts_safety_policy = ''command_guard'', ts_background_policy = ''explicit'', ts_allowed_roles = [''teammate''], ts_runtime_aware = True\<rparr>"

theorem delegated_tools_exact_witness:
  "make_registry [bash_tool] = Inr [(''bash'', bash_tool)]
   \<and> ''bash'' \<notin> set (effective_tool_names [(''bash'', bash_tool)] [''bash''] ''teammate'' (Some (Tool_policy (Some [''read_file'']) False None)) None
       (delegated_policy_for_role (Some (Tool_policy (Some [''read_file'']) False None)) ''teammate''))"
proof -
  have r: "make_registry [bash_tool] = Inr [(''bash'', bash_tool)]" by (simp add: make_registry_def bash_tool_def)
  from delegated_tools_exact[OF r refl, where runtime = "None :: nat option" and requested = "[''bash'']" and role = "''teammate''"
      and parent = "Some (Tool_policy (Some [''read_file'']) False None)" and environment = None and kwargs = "[]"] r
  show ?thesis by (auto simp: within_def policy_allowed_tools_def)
qed

end
