(* ===== verification/Facts.thy ===== *)
theory Facts
  imports Validate
begin

text \<open>
  \<open>taskgraph/facts.py\<close>: the facts about the work that planner v3 asks its model for (units, their edits, what they provide and use), what the
  classes accept, and the checks F1 to F9. Parsing the answer of the model (JSON, pydantic) is outside; the pattern, bounds and validators of
  the classes are the \<open>..._valid\<close> predicates. Symbols and context references of valid facts parse, so \<open>parse_symbol\<close> and
  \<open>split_context_ref\<close> do not raise in the checks.

  The second part says what the checks mean together and proves that they report nothing exactly then.
\<close>

section \<open>Data\<close>

datatype edit_kind = Logic | Registration

fun edit_kind_str :: "edit_kind \<Rightarrow> string" where
  "edit_kind_str Logic = ''logic''"
| "edit_kind_str Registration = ''registration''"

record fact_edit =
  fe_file :: string
  fe_kind :: edit_kind
  fe_symbols :: "string list"
  fe_lines :: int
  fe_standalone :: bool
  fe_note :: string

record fact_use =
  fu_symbol :: string
  fu_need :: string
  fu_why :: string

record fact_unit =
  u_id :: string
  u_item :: string
  u_title :: string
  u_goal :: string
  u_size :: int
  u_edits :: "fact_edit list"
  u_create :: "string list"
  u_provides :: "string list"
  u_uses :: "fact_use list"
  u_tests :: "string list"
  u_context_files :: "string list"

record together =
  tg_units :: "string list"
  tg_reason :: string

record facts =
  conventions :: "string list"
  f_units :: "fact_unit list"
  f_together :: "together list"

record draft_item =
  di_id :: string
  di_title :: string

definition u_edit_files :: "fact_unit \<Rightarrow> string list" where
  "u_edit_files u = map fe_file (u_edits u)"

definition registration_names :: "fact_unit \<Rightarrow> string list" where
  "registration_names u = concat (map fe_symbols (filter (\<lambda>e. fe_kind e = Registration) (u_edits u)))"

text \<open>\<open>parse_symbol(symbol).path\<close> and \<open>.qualname\<close> of a symbol that parses.\<close>

definition sym_path :: "string \<Rightarrow> string" where
  "sym_path s = (case parse_symbol s of Inl _ \<Rightarrow> [] | Inr r \<Rightarrow> path r)"

definition sym_name :: "string \<Rightarrow> string" where
  "sym_name s = (case parse_symbol s of Inl _ \<Rightarrow> [] | Inr r \<Rightarrow> qualname r)"

text \<open>What pydantic accepts.\<close>

definition fact_edit_valid :: "fact_edit \<Rightarrow> bool" where
  "fact_edit_valid e = (isr (validate_repo_path (fe_file e)) \<and> unique_symbols_valid (fe_symbols e) \<and> 0 \<le> fe_lines e)"

definition fact_use_valid :: "fact_use \<Rightarrow> bool" where
  "fact_use_valid u = isr (validate_symbol (fu_symbol u))"

definition fact_unit_valid :: "fact_unit \<Rightarrow> bool" where
  "fact_unit_valid u = (node_id_valid (u_id u) \<and> u_title u \<noteq> [] \<and> u_goal u \<noteq> [] \<and> 0 \<le> u_size u
     \<and> list_all fact_edit_valid (u_edits u) \<and> unique_paths_valid (u_create u) \<and> unique_symbols_valid (u_provides u)
     \<and> list_all fact_use_valid (u_uses u) \<and> unique_paths_valid (u_tests u)
     \<and> list_all (\<lambda>r. isr (validate_context_ref r)) (u_context_files u) \<and> isr (reject_duplicate_paths (u_context_files u)))"

definition facts_valid :: "facts \<Rightarrow> bool" where
  "facts_valid f = (f_units f \<noteq> [] \<and> list_all fact_unit_valid (f_units f) \<and> list_all (\<lambda>t. tg_units t \<noteq> []) (f_together f))"

section \<open>Checks\<close>

definition check_items :: "facts \<Rightarrow> draft_item list \<Rightarrow> issue list" where
  "check_items f items =
     (let known = map di_id items; covered = map u_item (f_units f) in
      map (\<lambda>u. Issue ''F1'' [u_id u] (u_id u @ '' has item '' @ repr_str (u_item u)
             @ '', which is not a draft item. Use one of '' @ py_join '', '' known))
        (filter (\<lambda>u. u_item u \<notin> set known) (f_units f))
      @ map (\<lambda>i. Issue ''F1'' [] (''draft item '' @ di_id i @ '' ('' @ di_title i
             @ '') has no unit. Every draft item needs at least one unit with that `item`''))
        (filter (\<lambda>i. di_id i \<notin> set covered) items))"

definition check_ids :: "facts \<Rightarrow> issue list" where
  "check_ids f =
     (let ids = map u_id (f_units f) in
      map (\<lambda>i. Issue ''F2'' [i] (''unit id '' @ i @ '' is used by '' @ nat_str (count_list ids i) @ '' units; unit ids must be unique''))
        (py_unique (filter (\<lambda>i. 1 < count_list ids i) ids)))"

definition check_unit_edits :: "repo_index \<Rightarrow> fact_unit \<Rightarrow> issue list" where
  "check_unit_edits idx u =
     (if u_edits u = [] \<and> u_create u = []
      then [Issue ''F3'' [u_id u] ''edits no file and creates none: every unit changes at least one file''] else [])
     @ (let fs = u_edit_files u in
        concat (map (\<lambda>p. if 1 < count_list fs p
          then [Issue ''F3'' [u_id u] (''lists '' @ p @ '' in '' @ nat_str (count_list fs p) @ '' edits; give one edit per file'')]
          else []) (py_unique fs)))
     @ concat (map (\<lambda>e.
         (if \<not> has_file idx (fe_file e)
          then [Issue ''F3'' [u_id u] (''edits '' @ fe_file e
                 @ '', which does not exist. `edits` lists changes to existing files; put a new file in `create`'')] else [])
         @ concat (map (\<lambda>s. if sym_path s \<noteq> fe_file e
             then [Issue ''F3'' [u_id u] (''the '' @ edit_kind_str (fe_kind e) @ '' edit of '' @ fe_file e @ '' lists '' @ s
                    @ '', which is in another file; an edit'' @ char_of (39::nat) # ''s symbols are in its own file'')]
             else []) (fe_symbols e))) (u_edits u))"

definition check_fact_edits :: "facts \<Rightarrow> repo_index \<Rightarrow> issue list" where
  "check_fact_edits f idx = concat (map (check_unit_edits idx) (f_units f))"

definition fact_creators :: "facts \<Rightarrow> string list dict" where
  "fact_creators f = fold (\<lambda>u d. fold (\<lambda>p d. dict_set p (dict_get d p [] @ [u_id u]) d) (u_create u) d) (f_units f) []"

definition check_fact_create :: "facts \<Rightarrow> repo_index \<Rightarrow> issue list" where
  "check_fact_create f idx =
     concat (map (\<lambda>u. concat (map (\<lambda>p.
       (if has_file idx p then [Issue ''F4'' [u_id u] (''creates '' @ p @ '', which already exists; put it in `edits` instead'')] else [])
       @ (if p \<in> set (u_edit_files u) then [Issue ''F4'' [u_id u] (''lists '' @ p @ '' both in `edits` and in `create`'')] else []))
       (u_create u))) (f_units f))
     @ concat (map (\<lambda>(p, ids). if 1 < length ids
         then [Issue ''F4'' ids (p @ '' is created by '' @ nat_str (length ids)
                @ '' units; one unit creates it, the others use what it provides'')] else []) (fact_creators f))"

text \<open>\<open>{edit.file: edit for edit in unit.edits}.get(path)\<close>: the last edit of the file.\<close>

definition edit_on :: "fact_unit \<Rightarrow> string \<Rightarrow> fact_edit option" where
  "edit_on u p = map_of (rev (map (\<lambda>e. (fe_file e, e)) (u_edits u))) p"

definition check_unit_provides :: "fact_unit \<Rightarrow> string \<Rightarrow> issue list" where
  "check_unit_provides u s =
     (let p = sym_path s in
      case edit_on u p of
        None \<Rightarrow> if p \<notin> set (u_create u)
          then [Issue ''F5'' [u_id u] (''provides '' @ s @ '', but '' @ p @ '' is neither in its `edits` nor in its `create`'')] else []
      | Some e \<Rightarrow> if fe_kind e = Registration \<and> s \<notin> set (fe_symbols e)
          then [Issue ''F5'' [u_id u] (''provides '' @ s @ '' in '' @ p @ '', where it only registers names (''
                 @ or_str (py_join '', '' (fe_symbols e)) ''none''
                 @ ''); a registered name must be in the `symbols` of that registration edit'')] else [])"

definition check_provides :: "facts \<Rightarrow> issue list" where
  "check_provides f = concat (map (\<lambda>u. concat (map (check_unit_provides u) (u_provides u))) (f_units f))"

definition NEEDS :: "string list" where
  "NEEDS = [''interface'', ''behavior'']"

definition dq :: string where
  "dq = [char_of (34::nat)]"

definition check_uses :: "facts \<Rightarrow> issue list" where
  "check_uses f =
     (let provided = concat (map u_provides (f_units f)) in
      concat (map (\<lambda>u. concat (map (\<lambda>use.
        (if fu_need use \<notin> set NEEDS
         then [Issue ''F6'' [u_id u] (''uses '' @ fu_symbol use @ '' with need '' @ repr_str (fu_need use) @ ''; need is ''
                @ dq @ ''interface'' @ dq @ '' or '' @ dq @ ''behavior'' @ dq @ '' ('' @ dq @ ''behavior'' @ dq @ '' when unsure)'')] else [])
        @ (if fu_symbol use \<notin> set provided
           then [Issue ''F6'' [u_id u] (''uses '' @ fu_symbol use @ '', which no unit provides. List in `uses` only what units provide ''
                  @ ''(also this unit'' @ char_of (39::nat) # ''s registered names); an existing symbol that no unit changes is not listed'')] else []))
        (u_uses u))) (f_units f)))"

definition check_tests :: "facts \<Rightarrow> issue list" where
  "check_tests f = concat (map (\<lambda>u. concat (map (\<lambda>p.
     if p \<notin> set (u_create u) \<and> p \<notin> set (u_edit_files u)
     then [Issue ''F7'' [u_id u] (''lists '' @ p @ '' in `tests`, but it is neither in its `create` nor in its `edits`'')] else [])
     (u_tests u))) (f_units f))"

definition check_together :: "facts \<Rightarrow> issue list" where
  "check_together f = concat (map (\<lambda>t. concat (map (\<lambda>i.
     if i \<notin> set (map u_id (f_units f)) then [Issue ''F8'' [] (''together lists '' @ i @ '', which is not a unit'')] else [])
     (tg_units t))) (f_together f))"

definition check_fact_context :: "facts \<Rightarrow> repo_index \<Rightarrow> issue list" where
  "check_fact_context f idx =
     (let created = concat (map u_create (f_units f)) in
      concat (map (\<lambda>u. concat (map (\<lambda>ref.
        case split_context_ref ref of Inl _ \<Rightarrow> []
        | Inr (p, heading) \<Rightarrow>
            if has_file idx p
            then (case heading of None \<Rightarrow> []
              | Some t \<Rightarrow> if t \<notin> set (dict_get (markdown_titles idx) p [])
                  then [Issue ''F9'' [u_id u] (''context heading '' @ ref @ '' does not exist'')] else [])
            else if p \<notin> set created
            then [Issue ''F9'' [u_id u] (''context file '' @ p @ '' neither exists nor is created by a unit'')] else [])
        (u_context_files u))) (f_units f)))"

definition check_facts :: "facts \<Rightarrow> draft_item list \<Rightarrow> repo_index \<Rightarrow> issue list" where
  "check_facts f items idx = check_items f items @ check_ids f @ check_fact_edits f idx @ check_fact_create f idx
     @ check_provides f @ check_uses f @ check_tests f @ check_together f @ check_fact_context f idx"

section \<open>What the checks mean\<close>

definition unit_edits_ok :: "repo_index \<Rightarrow> fact_unit \<Rightarrow> bool" where
  "unit_edits_ok idx u \<longleftrightarrow> (u_edits u \<noteq> [] \<or> u_create u \<noteq> []) \<and> distinct (u_edit_files u)
     \<and> (\<forall>e\<in>set (u_edits u). has_file idx (fe_file e) \<and> (\<forall>s\<in>set (fe_symbols e). sym_path s = fe_file e))"

definition unit_provides_ok :: "fact_unit \<Rightarrow> bool" where
  "unit_provides_ok u \<longleftrightarrow> (\<forall>s\<in>set (u_provides u).
     (\<exists>e\<in>set (u_edits u). fe_file e = sym_path s \<and> (fe_kind e = Registration \<longrightarrow> s \<in> set (fe_symbols e)))
     \<or> sym_path s \<in> set (u_create u) \<and> sym_path s \<notin> set (u_edit_files u))"

text \<open>Every unit belongs to a draft item and every item has a unit; ids are unique; the edited files exist, once per unit, with symbols of that
  file; the new files do not exist and have one creator; what is provided is edited (a registered name by its registration) or created; needs are known
  and met; tests and context exist.\<close>

definition facts_ok :: "facts \<Rightarrow> draft_item list \<Rightarrow> repo_index \<Rightarrow> bool" where
  "facts_ok f items idx \<longleftrightarrow>
     u_item ` set (f_units f) = di_id ` set items
     \<and> distinct (map u_id (f_units f))
     \<and> (\<forall>u\<in>set (f_units f). unit_edits_ok idx u \<and> unit_provides_ok u
          \<and> (\<forall>p\<in>set (u_create u). \<not> has_file idx p)
          \<and> (\<forall>use\<in>set (u_uses u). fu_need use \<in> {''interface'', ''behavior''} \<and> (\<exists>v\<in>set (f_units f). fu_symbol use \<in> set (u_provides v)))
          \<and> set (u_tests u) \<subseteq> set (u_create u) \<union> set (u_edit_files u)
          \<and> (\<forall>ref\<in>set (u_context_files u). \<forall>p heading. split_context_ref ref = Inr (p, heading) \<longrightarrow>
               (if has_file idx p then \<forall>t. heading = Some t \<longrightarrow> t \<in> set (dict_get (markdown_titles idx) p [])
                else \<exists>v\<in>set (f_units f). p \<in> set (u_create v))))
     \<and> distinct (concat (map u_create (f_units f)))
     \<and> (\<forall>t\<in>set (f_together f). set (tg_units t) \<subseteq> u_id ` set (f_units f))"

lemma reported [simp]: "(if c then [x] else []) = [] \<longleftrightarrow> \<not> c"
  by simp

lemma check_items_empty: "check_items f items = [] \<longleftrightarrow> u_item ` set (f_units f) = di_id ` set items"
  by (auto simp: check_items_def Let_def filter_empty_conv)

lemma duplicates_empty: "py_unique (filter (\<lambda>i. 1 < count_list xs i) xs) = [] \<longleftrightarrow> distinct xs"
proof -
  have "count_list xs i \<le> 1" if "i \<notin> set xs" for i using that by (simp add: count_notin)
  then show ?thesis by (auto simp: filter_empty_conv distinct_count_iff not_less)
qed

lemma check_ids_empty: "check_ids f = [] \<longleftrightarrow> distinct (map u_id (f_units f))"
  unfolding check_ids_def Let_def map_is_Nil_conv duplicates_empty ..

lemma check_unit_edits_empty: "check_unit_edits idx u = [] \<longleftrightarrow> unit_edits_ok idx u"
proof -
  have "(\<forall>p\<in>set (py_unique (u_edit_files u)). \<not> 1 < count_list (u_edit_files u) p) \<longleftrightarrow> distinct (u_edit_files u)"
    using duplicates_empty[of "u_edit_files u"] by (auto simp: filter_empty_conv)
  then show ?thesis
    unfolding check_unit_edits_def unit_edits_ok_def Let_def append_is_Nil_conv concat_map_Nil reported by blast
qed

lemma fact_creators_fold:
  "fact_creators f = fold (\<lambda>x d. dict_set (fst x) (dict_get d (fst x) [] @ [snd x]) d)
     (concat (map (\<lambda>u. map (\<lambda>p. (p, u_id u)) (u_create u)) (f_units f))) []"
  by (simp add: fact_creators_def fold_concat_map fold_map comp_def)

lemma check_fact_create_empty:
  "check_fact_create f idx = [] \<longleftrightarrow>
     (\<forall>u\<in>set (f_units f). \<forall>p\<in>set (u_create u). \<not> has_file idx p \<and> p \<notin> set (u_edit_files u)) \<and> distinct (concat (map u_create (f_units f)))"
proof -
  have "(\<forall>(p, ids)\<in>set (fact_creators f). length ids \<le> 1) \<longleftrightarrow> distinct (concat (map u_create (f_units f)))"
    unfolding grouping_at_most_one[OF fact_creators_fold] by (simp add: map_concat comp_def)
  then show ?thesis by (auto simp: check_fact_create_def not_less split: if_splits)
qed

lemma edit_on_Some: "edit_on u p = Some e \<Longrightarrow> e \<in> set (u_edits u) \<and> fe_file e = p"
  unfolding edit_on_def by (drule map_of_SomeD) auto

lemma edit_on_None: "edit_on u p = None \<longleftrightarrow> p \<notin> set (u_edit_files u)"
  by (force simp: edit_on_def map_of_eq_None_iff u_edit_files_def)

lemma one_edit_per_file:
  "distinct (u_edit_files u) \<Longrightarrow> e \<in> set (u_edits u) \<Longrightarrow> e' \<in> set (u_edits u) \<Longrightarrow> fe_file e = fe_file e' \<Longrightarrow> e = e'"
  unfolding u_edit_files_def by (metis distinct_map inj_onD)

lemma check_unit_provides_empty:
  assumes "distinct (u_edit_files u)"
  shows "(\<forall>s\<in>set (u_provides u). check_unit_provides u s = []) \<longleftrightarrow> unit_provides_ok u"
  unfolding unit_provides_ok_def
proof (intro ball_cong refl)
  fix s
  show "(check_unit_provides u s = []) = ((\<exists>e\<in>set (u_edits u). fe_file e = sym_path s \<and> (fe_kind e = Registration \<longrightarrow> s \<in> set (fe_symbols e)))
      \<or> sym_path s \<in> set (u_create u) \<and> sym_path s \<notin> set (u_edit_files u))"
  proof (cases "edit_on u (sym_path s)")
    case None
    then have "sym_path s \<notin> set (u_edit_files u)" by (simp add: edit_on_None)
    moreover from this have "\<forall>e\<in>set (u_edits u). fe_file e \<noteq> sym_path s" by (force simp: u_edit_files_def)
    ultimately show ?thesis using None unfolding check_unit_provides_def Let_def by (simp only: option.case reported) blast
  next
    case (Some e)
    then have e: "e \<in> set (u_edits u)" "fe_file e = sym_path s" by (auto dest: edit_on_Some)
    then have "sym_path s \<in> set (u_edit_files u)" by (force simp: u_edit_files_def)
    moreover have "(\<exists>e'\<in>set (u_edits u). fe_file e' = sym_path s \<and> Q e') \<longleftrightarrow> Q e" for Q
      using one_edit_per_file[OF assms] e by metis
    ultimately show ?thesis using Some unfolding check_unit_provides_def Let_def by (simp only: option.case reported) simp
  qed
qed

lemma check_uses_empty:
  "check_uses f = [] \<longleftrightarrow> (\<forall>u\<in>set (f_units f). \<forall>use\<in>set (u_uses u).
     fu_need use \<in> {''interface'', ''behavior''} \<and> (\<exists>v\<in>set (f_units f). fu_symbol use \<in> set (u_provides v)))"
  unfolding check_uses_def Let_def concat_map_Nil append_is_Nil_conv reported NEEDS_def by auto

lemma check_tests_empty:
  "check_tests f = [] \<longleftrightarrow> (\<forall>u\<in>set (f_units f). set (u_tests u) \<subseteq> set (u_create u) \<union> set (u_edit_files u))"
  unfolding check_tests_def concat_map_Nil reported by blast

lemma check_together_empty:
  "check_together f = [] \<longleftrightarrow> (\<forall>t\<in>set (f_together f). set (tg_units t) \<subseteq> u_id ` set (f_units f))"
  unfolding check_together_def concat_map_Nil reported by auto

lemma check_fact_context_empty:
  "check_fact_context f idx = [] \<longleftrightarrow> (\<forall>u\<in>set (f_units f). \<forall>ref\<in>set (u_context_files u). \<forall>p heading. split_context_ref ref = Inr (p, heading) \<longrightarrow>
     (if has_file idx p then \<forall>t. heading = Some t \<longrightarrow> t \<in> set (dict_get (markdown_titles idx) p [])
      else \<exists>v\<in>set (f_units f). p \<in> set (u_create v)))"
  unfolding check_fact_context_def Let_def concat_map_Nil
  by (intro ball_cong refl) (auto split: sum.splits option.splits if_splits)

lemmas fact_checks_empty = check_items_empty check_ids_empty check_fact_create_empty check_uses_empty check_tests_empty check_together_empty
  check_fact_context_empty

text \<open>C7: The checks F1 to F9 of planner v3 report nothing exactly if the facts fit the draft items, the repository and each other: units and draft
  items match, ids are unique, each edited file exists and is listed once per unit with symbols of that file, each new file does not exist and has one
  creator, everything provided is edited or created by its unit (a name in a registered file by that registration), every use has a known need and a
  provider, and tests, context files and \<open>together\<close> name what is there.\<close>

theorem check_facts_accepts_iff: "check_facts f items idx = [] \<longleftrightarrow> facts_ok f items idx"
proof -
  have units: "check_fact_edits f idx = [] \<longleftrightarrow> (\<forall>u\<in>set (f_units f). unit_edits_ok idx u)"
    by (simp add: check_fact_edits_def check_unit_edits_empty)
  have "check_provides f = [] \<longleftrightarrow> (\<forall>u\<in>set (f_units f). unit_provides_ok u)" if "check_fact_edits f idx = []"
    using that check_unit_provides_empty by (auto simp: units check_provides_def unit_edits_ok_def)
  moreover have "p \<notin> set (u_edit_files u)" if "unit_edits_ok idx u" "\<not> has_file idx p" for u p
    using that by (auto simp: unit_edits_ok_def u_edit_files_def)
  ultimately show ?thesis
    unfolding check_facts_def facts_ok_def append_is_Nil_conv fact_checks_empty units by blast
qed

end
