(* ===== verification/Synth_Groups.thy ===== *)
theory Synth_Groups
  imports Facts Affected
begin

text \<open>
  The first part of \<open>taskgraph/synthesize.py\<close>: what \<open>_Synthesizer\<close> computes from the facts when it is built, and the four passes that decide which
  units form one node (\<open>merge_mutual\<close>, \<open>merge_together\<close>, \<open>merge_small\<close>, \<open>merge_same_symbol\<close>).

  \<open>synth_ctx\<close> holds the attributes that do not change after \<open>__init__\<close>. The reason texts and numbers of decisions, which only go to the report,
  are not modelled; a decision is its property, rule, units and nodes. A pass that loops until nothing changes is a step that returns \<open>None\<close>
  when it is done, iterated by \<open>repeat_step\<close> with fuel; the locale \<open>shrinking_loop\<close> shows once that as many steps as there are groups are enough.
\<close>

section \<open>Loops\<close>

fun repeat_step :: "nat \<Rightarrow> ('s \<Rightarrow> 's option) \<Rightarrow> 's \<Rightarrow> 's option" where
  "repeat_step 0 step s = (case step s of None \<Rightarrow> Some s | Some _ \<Rightarrow> None)"
| "repeat_step (Suc fuel) step s = (case step s of None \<Rightarrow> Some s | Some s' \<Rightarrow> repeat_step fuel step s')"

locale shrinking_loop =
  fixes step :: "'s \<Rightarrow> 's option" and inv :: "'s \<Rightarrow> bool" and weight :: "'s \<Rightarrow> nat"
  assumes step_inv: "inv s \<Longrightarrow> step s = Some s' \<Longrightarrow> inv s'"
    and step_smaller: "inv s \<Longrightarrow> step s = Some s' \<Longrightarrow> weight s' < weight s"
begin

lemma loop_ends: "inv s \<Longrightarrow> weight s \<le> fuel \<Longrightarrow> \<exists>s'. repeat_step fuel step s = Some s' \<and> inv s' \<and> step s' = None"
proof (induction fuel arbitrary: s)
  case 0
  then have "step s = None" using step_smaller[of s] by (cases "step s") auto
  with 0 show ?case by auto
next
  case (Suc fuel)
  show ?case
  proof (cases "step s")
    case None
    with Suc.prems show ?thesis by auto
  next
    case (Some s')
    with Suc.prems step_smaller[of s s'] step_inv[of s s'] show ?thesis by (auto intro: Suc.IH)
  qed
qed

end

section \<open>Components\<close>

definition reach_from :: "('a \<times> 'a list) list \<Rightarrow> 'a \<Rightarrow> 'a list" where
  "reach_from adj k = search_loop LIFO adj (adj_of adj k) []"

fun components_from :: "'a list \<Rightarrow> ('a \<times> 'a list) list \<Rightarrow> 'a list \<Rightarrow> 'a list \<Rightarrow> 'a list list" where
  "components_from keys adj assigned [] = []"
| "components_from keys adj assigned (k # rest) =
     (if k \<in> set assigned \<or> k \<notin> set (reach_from adj k) then components_from keys adj assigned rest
      else let c = filter (\<lambda>j. j = k \<or> j \<in> set (reach_from adj k) \<and> k \<in> set (reach_from adj j)) keys
           in c # components_from keys adj (assigned @ c) rest)"

definition components :: "'a list \<Rightarrow> ('a \<times> 'a list) list \<Rightarrow> 'a list list" where
  "components keys adj = components_from keys adj [] keys"

text \<open>\<open>edges.setdefault(first, set()).add(second)\<close>\<close>

definition add_pair :: "'a \<times> 'a \<Rightarrow> ('a \<times> 'a list) list \<Rightarrow> ('a \<times> 'a list) list" where
  "add_pair e adj = (case e of (a, b) \<Rightarrow> let bs = dict_get adj a [] in dict_set a (if b \<in> set bs then bs else bs @ [b]) adj)"

definition adjacency :: "('a \<times> 'a) list \<Rightarrow> ('a \<times> 'a list) list" where
  "adjacency es = fold add_pair es []"

section \<open>The context\<close>

definition SMALL_UNIT_LINES :: int where
  "SMALL_UNIT_LINES = 30"

definition WAIT_LINES :: int where
  "WAIT_LINES = 60"

definition SMALL_SHARED_EDIT_LINES :: int where
  "SMALL_SHARED_EDIT_LINES = 20"

definition REGISTRATION_MAX_LINES :: int where
  "REGISTRATION_MAX_LINES = 5"

definition PRE :: string where
  "PRE = ''PRE''"

definition REG :: string where
  "REG = ''REG''"

record decision =
  dc_property :: string
  dc_rule :: string
  dc_units :: "string list"
  dc_nodes :: "string list"

record unit_dep =
  ud_provider :: string
  ud_user :: string
  ud_symbol :: string
  ud_need :: string

record synth_ctx =
  cx_facts :: facts
  cx_index :: repo_index
  cx_full :: "string list"
  cx_tests :: test_imports
  cx_ablate :: "string set"
  cx_order :: "nat dict"
  cx_units :: "fact_unit dict"
  cx_providers :: "string list dict"
  cx_registrar :: "string dict"
  cx_deps :: "unit_dep list"

definition off :: "synth_ctx \<Rightarrow> string \<Rightarrow> bool" where
  "off cx p = (p \<in> cx_ablate cx)"

definition decide :: "string \<Rightarrow> string \<Rightarrow> string list \<Rightarrow> string list \<Rightarrow> decision" where
  "decide prop rule us ns = \<lparr>dc_property = prop, dc_rule = rule, dc_units = py_unique us, dc_nodes = ns\<rparr>"

definition too_large :: "fact_edit \<Rightarrow> bool" where
  "too_large e = (fe_kind e = Registration \<and> fe_lines e > REGISTRATION_MAX_LINES)"

definition normalized :: "fact_unit \<Rightarrow> fact_unit" where
  "normalized u = u\<lparr>u_edits := map (\<lambda>e. if too_large e then e\<lparr>fe_kind := Logic, fe_standalone := False\<rparr> else e) (u_edits u)\<rparr>"

definition normalized_decisions :: "fact_unit \<Rightarrow> decision list" where
  "normalized_decisions u = map (\<lambda>e. decide ''P3'' ''registration_too_large'' [u_id u] []) (filter too_large (u_edits u))"

definition char_isupper :: "char \<Rightarrow> bool" where
  "char_isupper c = (let n = cp c in (65 \<le> n \<and> n \<le> 90) \<or> (192 \<le> n \<and> n \<le> 222 \<and> n \<noteq> 215))"

definition char_islower :: "char \<Rightarrow> bool" where
  "char_islower c = (let n = cp c in (97 \<le> n \<and> n \<le> 122) \<or> n = 170 \<or> n = 181 \<or> n = 186 \<or> (223 \<le> n \<and> n \<noteq> 247))"

definition data_class :: "string list \<Rightarrow> string \<Rightarrow> bool" where
  "data_class listed s =
     (let name = sym_name s in
      if CHR ''.'' \<in> set name \<or> \<not> (case name of [] \<Rightarrow> False | c # _ \<Rightarrow> char_isupper c) \<or> \<not> list_ex char_islower name then False
      else \<not> list_ex (\<lambda>other. py_startswith other (s @ ''.'')) listed)"

definition interface_only :: "string list \<Rightarrow> fact_use \<Rightarrow> bool" where
  "interface_only listed use = (fu_need use = ''behavior'' \<and> data_class listed (fu_symbol use))"

definition class_uses_as_interface :: "string list \<Rightarrow> fact_unit \<Rightarrow> fact_unit" where
  "class_uses_as_interface listed u =
     u\<lparr>u_uses := map (\<lambda>use. if interface_only listed use then use\<lparr>fu_need := ''interface''\<rparr> else use) (u_uses u)\<rparr>"

definition listed_symbols :: "fact_unit list \<Rightarrow> string list" where
  "listed_symbols us = concat (map (\<lambda>u. u_provides u @ concat (map fe_symbols (u_edits u))) us)"

text \<open>\<open>__init__\<close>: the units as the rules see them, and the dictionaries over them.\<close>

definition init_units :: "facts \<Rightarrow> string set \<Rightarrow> fact_unit dict" where
  "init_units f ablated =
     (let us = fold (\<lambda>u. dict_set (u_id u) (normalized u)) (f_units f) [] in
      if ''p2'' \<in> ablated then us
      else map (\<lambda>(i, u). (i, class_uses_as_interface (listed_symbols (map snd us)) u)) us)"

definition init_decisions :: "facts \<Rightarrow> string set \<Rightarrow> decision list" where
  "init_decisions f ablated =
     (let us = fold (\<lambda>u. dict_set (u_id u) (normalized u)) (f_units f) [] in
      concat (map normalized_decisions (f_units f))
      @ (if ''p2'' \<in> ablated then []
         else concat (map (\<lambda>(i, u). map (\<lambda>use. decide ''P2'' ''class_use_interface'' [i] [])
                (filter (interface_only (listed_symbols (map snd us))) (u_uses u))) us)))"

definition symbol_providers :: "fact_unit list \<Rightarrow> string list dict" where
  "symbol_providers us = fold (\<lambda>u. fold (\<lambda>s d. dict_set s (dict_get d s [] @ [u_id u]) d) (u_provides u)) us []"

definition symbol_registrar :: "fact_unit list \<Rightarrow> string dict" where
  "symbol_registrar us = fold (\<lambda>u. fold (\<lambda>s d. if s \<in> fst ` set d then d else dict_set s (u_id u) d) (registration_names u)) us []"

definition unit_deps_of :: "fact_unit list \<Rightarrow> unit_dep list" where
  "unit_deps_of us = concat (map (\<lambda>u. concat (map (\<lambda>use.
     map (\<lambda>p. \<lparr>ud_provider = p, ud_user = u_id u, ud_symbol = fu_symbol use, ud_need = fu_need use\<rparr>)
       (filter (\<lambda>p. p \<noteq> u_id u) (dict_get (symbol_providers us) (fu_symbol use) []))) (u_uses u))) us)"

definition FULL_SUITE_FALLBACK :: "string list" where
  "FULL_SUITE_FALLBACK = [''git diff --check'']"

definition init_ctx :: "facts \<Rightarrow> repo_index \<Rightarrow> string list \<Rightarrow> test_imports \<Rightarrow> string set \<Rightarrow> synth_ctx" where
  "init_ctx f idx checks tests ablated =
     (let us = init_units f ablated;
          kept = filter (\<lambda>c. py_strip c \<noteq> []) checks in
      \<lparr>cx_facts = f, cx_index = idx, cx_full = (if kept \<noteq> [] then kept else FULL_SUITE_FALLBACK), cx_tests = tests, cx_ablate = ablated,
       cx_order = fold (\<lambda>(n, u). dict_set (u_id u) n) (List.enumerate 0 (f_units f)) [],
       cx_units = us, cx_providers = symbol_providers (map snd us), cx_registrar = symbol_registrar (map snd us),
       cx_deps = unit_deps_of (map snd us)\<rparr>)"

text \<open>\<open>self.units[unit_id]\<close>; every id looked up is the id of a unit.\<close>

definition unit_of :: "synth_ctx \<Rightarrow> string \<Rightarrow> fact_unit" where
  "unit_of cx i = (case map_of (cx_units cx) i of Some u \<Rightarrow> u
     | None \<Rightarrow> \<lparr>u_id = i, u_item = [], u_title = [], u_goal = [], u_size = 0, u_edits = [], u_create = [], u_provides = [],
                u_uses = [], u_tests = [], u_context_files = []\<rparr>)"

definition unit_order :: "synth_ctx \<Rightarrow> string \<Rightarrow> nat" where
  "unit_order cx i = dict_get (cx_order cx) i 0"

section \<open>Groups\<close>

type_synonym group_state = "string list list \<times> decision list"

definition group_size :: "synth_ctx \<Rightarrow> string list \<Rightarrow> int" where
  "group_size cx members = sum_list (map (\<lambda>i. u_size (unit_of cx i)) members)"

text \<open>\<open>{unit_id: number for number, group in enumerate(self.groups) for unit_id in group}.get(i)\<close>\<close>

definition group_of :: "string list list \<Rightarrow> string \<Rightarrow> nat option" where
  "group_of gs i = (case filter (\<lambda>n. i \<in> set (gs ! n)) [0..<length gs] of [] \<Rightarrow> None | ns \<Rightarrow> Some (last ns))"

definition merge_groups :: "synth_ctx \<Rightarrow> nat list \<Rightarrow> string list list \<Rightarrow> string list list" where
  "merge_groups cx numbers gs =
     (let members = sort_key (unit_order cx) (concat (map ((!) gs) numbers)) in
      sort_key (\<lambda>g. unit_order cx (hd g)) (map ((!) gs) (filter (\<lambda>n. n \<notin> set numbers) [0..<length gs]) @ [members]))"

definition merged_members :: "synth_ctx \<Rightarrow> nat list \<Rightarrow> string list list \<Rightarrow> string list" where
  "merged_members cx numbers gs = sort_key (unit_order cx) (concat (map ((!) gs) numbers))"

definition files_of :: "synth_ctx \<Rightarrow> string list \<Rightarrow> string list" where
  "files_of cx members = concat (map (\<lambda>i. u_edit_files (unit_of cx i) @ u_create (unit_of cx i)) members)"

definition kinds_on :: "synth_ctx \<Rightarrow> string list \<Rightarrow> string \<Rightarrow> edit_kind set" where
  "kinds_on cx members p = set (map fe_kind (filter (\<lambda>e. fe_file e = p) (concat (map (\<lambda>i. u_edits (unit_of cx i)) members))))"

definition relation :: "synth_ctx \<Rightarrow> string list \<Rightarrow> string list \<Rightarrow> nat" where
  "relation cx one two =
     (let shared_files = filter (\<lambda>p. \<not> (kinds_on cx one p = {Registration} \<and> kinds_on cx two p = {Registration}))
            (filter (\<lambda>p. p \<in> set (files_of cx two)) (files_of cx one));
          syms = map ud_symbol (filter (\<lambda>d. ud_provider d \<in> set one \<and> ud_user d \<in> set two
                                       \<or> ud_provider d \<in> set two \<and> ud_user d \<in> set one) (cx_deps cx))
      in length (py_unique shared_files) + length (py_unique syms))"

text \<open>Step 0. A dependency counts as an edge when its user needs the real result (any use if p2 is off).\<close>

definition waiting_pairs :: "synth_ctx \<Rightarrow> string list list \<Rightarrow> (string \<times> string) list" where
  "waiting_pairs cx gs = concat (map (\<lambda>d. case (group_of gs (ud_provider d), group_of gs (ud_user d)) of
       (Some a, Some b) \<Rightarrow> if a \<noteq> b \<and> (ud_need d = ''behavior'' \<or> off cx ''p2'') then [(hd (gs ! a), hd (gs ! b))] else []
     | _ \<Rightarrow> []) (cx_deps cx))"

text \<open>\<open>keys.index(key)\<close>; the key is there.\<close>

fun index_of :: "'a \<Rightarrow> 'a list \<Rightarrow> nat" where
  "index_of x [] = 0"
| "index_of x (y # ys) = (if x = y then 0 else Suc (index_of x ys))"

definition mutual_step :: "synth_ctx \<Rightarrow> group_state \<Rightarrow> group_state option" where
  "mutual_step cx st = (case st of (gs, ds) \<Rightarrow>
     let keys = map hd gs in
     case components keys (adjacency (waiting_pairs cx gs)) of
       [] \<Rightarrow> None
     | c # _ \<Rightarrow> let numbers = map (\<lambda>k. index_of k keys) c in
         Some (merge_groups cx numbers gs, ds @ [decide ''P1'' ''mutual_behavior_merged'' (merged_members cx numbers gs) []]))"

definition merge_mutual :: "synth_ctx \<Rightarrow> group_state \<Rightarrow> group_state option" where
  "merge_mutual cx st = repeat_step (length (fst st)) (mutual_step cx) st"

definition together_step :: "synth_ctx \<Rightarrow> together \<Rightarrow> group_state \<Rightarrow> group_state" where
  "together_step cx t st = (case st of (gs, ds) \<Rightarrow>
     if off cx ''p1'' then (gs, ds @ [decide ''P1'' ''ablated'' (tg_units t) []])
     else let numbers = py_unique (concat (map (\<lambda>i. case group_of gs i of None \<Rightarrow> [] | Some n \<Rightarrow> [n]) (tg_units t))) in
       if length numbers > 1
       then (merge_groups cx numbers gs, ds @ [decide ''P1'' ''together'' (merged_members cx numbers gs) []])
       else (gs, ds))"

definition merge_together :: "synth_ctx \<Rightarrow> group_state \<Rightarrow> group_state" where
  "merge_together cx st = fold (together_step cx) (f_together (cx_facts cx)) st"

text \<open>The groups a group is related to, with the strength, in the order of the groups.\<close>

definition related_groups :: "synth_ctx \<Rightarrow> string list list \<Rightarrow> nat \<Rightarrow> (nat \<times> nat) list" where
  "related_groups cx gs number =
     filter (\<lambda>(strength, p). strength \<noteq> 0)
       (map (\<lambda>p. (relation cx (gs ! number) (gs ! p), p)) (filter (\<lambda>p. p \<noteq> number) [0..<length gs]))"

definition small_step :: "synth_ctx \<Rightarrow> group_state \<Rightarrow> group_state option" where
  "small_step cx st = (case st of (gs, ds) \<Rightarrow>
     case find (\<lambda>n. group_size cx (gs ! n) < SMALL_UNIT_LINES \<and> \<not> off cx ''p1'' \<and> related_groups cx gs n \<noteq> []) [0..<length gs] of
       None \<Rightarrow> None
     | Some number \<Rightarrow>
         let related = related_groups cx gs number;
             best = Max (set (map fst related));
             target = snd (hd (filter (\<lambda>(strength, p). strength = best) related))
         in Some (merge_groups cx [number, target] gs,
                  ds @ [decide ''P1'' ''small_merged'' (merged_members cx [number, target] gs) []]))"

definition small_left :: "synth_ctx \<Rightarrow> string list list \<Rightarrow> decision list" where
  "small_left cx gs = map (\<lambda>g. decide ''P1'' (if off cx ''p1'' then ''ablated'' else ''small_kept'') g [])
     (filter (\<lambda>g. group_size cx g < SMALL_UNIT_LINES) gs)"

definition merge_small :: "synth_ctx \<Rightarrow> group_state \<Rightarrow> group_state option" where
  "merge_small cx st = map_option (\<lambda>(gs, ds). (gs, ds @ small_left cx gs)) (repeat_step (length (fst st)) (small_step cx) st)"

definition logic_symbols :: "synth_ctx \<Rightarrow> string list \<Rightarrow> string list" where
  "logic_symbols cx members =
     py_unique (concat (map fe_symbols (filter (\<lambda>e. fe_kind e = Logic) (concat (map (\<lambda>i. u_edits (unit_of cx i)) members)))))"

definition index_pairs :: "nat \<Rightarrow> (nat \<times> nat) list" where
  "index_pairs n = concat (map (\<lambda>i. map (Pair i) [i + 1..<n]) [0..<n])"

definition same_symbols :: "synth_ctx \<Rightarrow> string list list \<Rightarrow> nat \<times> nat \<Rightarrow> string list" where
  "same_symbols cx gs p = filter (\<lambda>s. s \<in> set (logic_symbols cx (gs ! snd p))) (logic_symbols cx (gs ! fst p))"

definition same_symbol_step :: "synth_ctx \<Rightarrow> group_state \<Rightarrow> group_state option" where
  "same_symbol_step cx st = (case st of (gs, ds) \<Rightarrow>
     case find (\<lambda>p. same_symbols cx gs p \<noteq> []) (index_pairs (length gs)) of
       None \<Rightarrow> None
     | Some (a, b) \<Rightarrow> Some (merge_groups cx [a, b] gs,
         ds @ [decide ''P3'' ''same_symbol_merged'' (merged_members cx [a, b] gs) []]))"

definition merge_same_symbol :: "synth_ctx \<Rightarrow> group_state \<Rightarrow> group_state option" where
  "merge_same_symbol cx st =
     (if off cx ''p3''
      then (case st of (gs, ds) \<Rightarrow> Some (gs, ds @ map (\<lambda>(a, b). decide ''P3'' ''ablated'' (gs ! a @ gs ! b) [])
             (filter (\<lambda>p. same_symbols cx gs p \<noteq> []) (index_pairs (length gs)))))
      else repeat_step (length (fst st)) (same_symbol_step cx) st)"

text \<open>The first five calls of \<open>synthesize\<close>.\<close>

definition form_groups :: "synth_ctx \<Rightarrow> decision list \<Rightarrow> group_state option" where
  "form_groups cx ds =
     Option.bind (merge_mutual cx (map (\<lambda>u. [u_id u]) (f_units (cx_facts cx)), ds)) (\<lambda>st.
     Option.bind (merge_small cx (merge_together cx st)) (\<lambda>st.
     Option.bind (merge_same_symbol cx st) (merge_mutual cx)))"

end
