(* ===== verification/Synth_Buckets.thy ===== *)
theory Synth_Buckets
  imports Synth_Groups Revise
begin

text \<open>
  The second part of \<open>taskgraph/synthesize.py\<close>: the nodes under construction (buckets), and the steps that move edits, new files and provided symbols
  between them: \<open>make_buckets\<close>, \<open>step2\<close> with the placing of registrations, \<open>share_kept_registrations\<close>, \<open>check_cycles\<close>, \<open>step3\<close>,
  \<open>share_files\<close> and \<open>record_order\<close>, with the check of the program's own invariants.

  The buckets are mutable objects that \<open>by_key\<close>, \<open>self.pre\<close>, \<open>self.reg\<close> and \<open>self.buckets\<close> share: a bucket is a reference into the
  state (\<open>bref\<close>), read by \<open>bucket_at\<close> and changed by \<open>change_at\<close>. \<open>by_key\<close> gives \<open>PRE\<close> and \<open>REG\<close> precedence, as the
  dictionary does. A step that can raise returns a sum. Reasons and numbers of decisions are not modelled.
\<close>

section \<open>Exceptions\<close>

text \<open>\<open>Not_ended\<close> stands for a loop or a recursion that does not end.\<close>

datatype synth_exn = Synthesis_error string "string list" | Facts_conflict "issue list" | Value_error string | Not_ended

definition and_then :: "'e + 'a \<Rightarrow> ('a \<Rightarrow> 'e + 'b) \<Rightarrow> 'e + 'b" where
  "and_then m f = (case m of Inl e \<Rightarrow> Inl e | Inr a \<Rightarrow> f a)"

fun for_each :: "('x \<Rightarrow> 's \<Rightarrow> 'e + 's) \<Rightarrow> 'x list \<Rightarrow> 's \<Rightarrow> 'e + 's" where
  "for_each f [] s = Inr s"
| "for_each f (x # xs) s = and_then (f x s) (for_each f xs)"

text \<open>\<open>xs.remove(x)\<close>\<close>

definition list_remove :: "'a \<Rightarrow> 'a list \<Rightarrow> synth_exn + 'a list" where
  "list_remove x xs = (if x \<in> set xs then Inr (remove1 x xs) else Inl (Value_error ''list.remove(x): x not in list''))"

section \<open>State\<close>

record placed =
  pl_unit :: string
  pl_edit :: fact_edit

record bucket =
  bk_key :: string
  bk_units :: "string list"
  bk_kind :: node_kind
  bk_edits :: "placed list"
  bk_touch :: "string list"
  bk_create :: "string list"
  bk_fill :: "string list"
  bk_provides :: "string list"
  bk_notes :: "string list"
  bk_contributors :: "string list"
  bk_shared :: "string list"

record group_dep =
  gd_provider :: string
  gd_user :: string
  gd_symbol :: string
  gd_need :: string
  gd_provider_units :: "string list"
  gd_user_units :: "string list"

record interface_item =
  if_symbol :: string
  if_path :: string
  if_new_file :: bool
  if_providers :: "string list"
  if_users :: "string list"
  if_registered_as :: "string list"

record registration =
  rg_unit :: string
  rg_edit :: fact_edit
  rg_targets :: "string option dict"
  rg_users :: "string list"

record shared_edit =
  se_unit :: string
  se_edit :: fact_edit
  se_others :: "string list"

record wait =
  wt_provider :: string
  wt_user :: string
  wt_symbol :: string
  wt_need :: string

record synth =
  decisions :: "decision list"
  buckets :: "bucket list"
  pre_bucket :: bucket
  reg_bucket :: bucket
  waits :: "wait list"
  firsts :: "(string \<times> string) list"
  after_pre :: "string list"
  before_reg :: "string list"
  interfaces :: "interface_item dict"
  pre_registrations :: "registration list"
  reg_registrations :: "registration list"
  shared_edits :: "shared_edit list"
  file_reasons :: "string list dict"
  parallel_files :: "string list"

datatype bref = Pre_b | Reg_b | Group_b nat

definition empty_bucket :: "string \<Rightarrow> string list \<Rightarrow> node_kind \<Rightarrow> bucket" where
  "empty_bucket k us knd = \<lparr>bk_key = k, bk_units = us, bk_kind = knd, bk_edits = [], bk_touch = [], bk_create = [], bk_fill = [],
     bk_provides = [], bk_notes = [], bk_contributors = [], bk_shared = []\<rparr>"

definition bk_edit_files :: "bucket \<Rightarrow> string list" where
  "bk_edit_files b = py_unique (map (\<lambda>p. fe_file (pl_edit p)) (bk_edits b))"

definition bk_files :: "bucket \<Rightarrow> string list" where
  "bk_files b = py_unique (bk_edit_files b @ bk_touch b @ bk_fill b @ bk_create b)"

definition bk_is_empty :: "bucket \<Rightarrow> bool" where
  "bk_is_empty b = (bk_files b = [])"

fun bucket_at :: "synth \<Rightarrow> bref \<Rightarrow> bucket" where
  "bucket_at s Pre_b = pre_bucket s"
| "bucket_at s Reg_b = reg_bucket s"
| "bucket_at s (Group_b n) = buckets s ! n"

fun change_at :: "bref \<Rightarrow> (bucket \<Rightarrow> bucket) \<Rightarrow> synth \<Rightarrow> synth" where
  "change_at Pre_b f s = s\<lparr>pre_bucket := f (pre_bucket s)\<rparr>"
| "change_at Reg_b f s = s\<lparr>reg_bucket := f (reg_bucket s)\<rparr>"
| "change_at (Group_b n) f s = s\<lparr>buckets := (buckets s)[n := f (buckets s ! n)]\<rparr>"

definition group_refs :: "synth \<Rightarrow> bref list" where
  "group_refs s = map Group_b [0..<length (buckets s)]"

definition all_refs :: "synth \<Rightarrow> bref list" where
  "all_refs s = Pre_b # group_refs s @ [Reg_b]"

definition all_buckets :: "synth \<Rightarrow> bucket list" where
  "all_buckets s = pre_bucket s # buckets s @ [reg_bucket s]"

text \<open>\<open>self.by_key[k]\<close>; every key looked up is there.\<close>

definition by_key :: "synth \<Rightarrow> string \<Rightarrow> bref" where
  "by_key s k = (if k = PRE then Pre_b else if k = REG then Reg_b
     else Group_b (last (filter (\<lambda>n. bk_key (buckets s ! n) = k) [0..<length (buckets s)])))"

text \<open>\<open>self.bucket_of[unit_id]\<close>; every unit is in a bucket.\<close>

definition bucket_of :: "synth \<Rightarrow> string \<Rightarrow> string" where
  "bucket_of s i = (case filter (\<lambda>b. i \<in> set (bk_units b)) (buckets s) of [] \<Rightarrow> [] | bs \<Rightarrow> bk_key (last bs))"

definition record_decision :: "decision \<Rightarrow> synth \<Rightarrow> synth" where
  "record_decision d s = s\<lparr>decisions := decisions s @ [d]\<rparr>"

definition units_of :: "synth \<Rightarrow> string list \<Rightarrow> string list" where
  "units_of s keys = concat (map (\<lambda>k. bk_units (bucket_at s (by_key s k))) keys)"

definition group_bucket :: "synth_ctx \<Rightarrow> string list \<Rightarrow> bucket" where
  "group_bucket cx g =
     (let us = map (unit_of cx) g in
      (empty_bucket (hd g) g Implement)\<lparr>
        bk_edits := concat (map (\<lambda>u. map (\<lambda>e. \<lparr>pl_unit = u_id u, pl_edit = e\<rparr>) (u_edits u)) us),
        bk_create := py_unique (concat (map u_create us)),
        bk_provides := py_unique (concat (map u_provides us))\<rparr>)"

definition make_buckets :: "synth_ctx \<Rightarrow> string list list \<Rightarrow> decision list \<Rightarrow> synth" where
  "make_buckets cx gs ds =
     \<lparr>decisions = ds, buckets = map (group_bucket cx) gs, pre_bucket = empty_bucket PRE [] Contract, reg_bucket = empty_bucket REG [] Implement,
      waits = [], firsts = [], after_pre = [], before_reg = [], interfaces = [], pre_registrations = [], reg_registrations = [],
      shared_edits = [], file_reasons = [], parallel_files = []\<rparr>"

section \<open>The invariants the program checks\<close>

definition unit_problems :: "synth \<Rightarrow> fact_unit \<Rightarrow> string list" where
  "unit_problems s u =
     (let placements = concat (map (\<lambda>b. map (\<lambda>p. (pl_unit p, fe_file (pl_edit p))) (bk_edits b)) (all_buckets s)) in
      concat (map (\<lambda>e. let n = count_list placements (u_id u, fe_file e) in
        if n = 0 then [''the edit of '' @ u_id u @ '' on '' @ fe_file e @ '' is in no node (nobody is responsible for it)'']
        else if n > 1 then [''the edit of '' @ u_id u @ '' on '' @ fe_file e @ '' is in '' @ nat_str n @ '' nodes''] else []) (u_edits u))
      @ concat (map (\<lambda>p. let creators = filter (\<lambda>b. p \<in> set (bk_create b)) (all_buckets s) in
        if length creators \<noteq> 1 then [''new file '' @ p @ '' is created by '' @ nat_str (length creators) @ '' nodes''] else []) (u_create u)))"

definition bucket_problems :: "synth \<Rightarrow> bucket \<Rightarrow> string list" where
  "bucket_problems s b =
     concat (map (\<lambda>p. if p \<notin> set (bk_create (pre_bucket s))
       then [bk_key b @ '' fills in '' @ p @ '', which PRE does not create''] else []) (bk_fill b))
     @ concat (map (\<lambda>sy. if sym_path sy \<notin> set (bk_files b)
       then [bk_key b @ '' provides '' @ sy @ '' but does not edit '' @ sym_path sy] else []) (bk_provides b))"

definition invariant_problems :: "synth_ctx \<Rightarrow> synth \<Rightarrow> string list" where
  "invariant_problems cx s =
     (let members = concat (map bk_units (buckets s)); provided = concat (map bk_provides (all_buckets s)) in
      concat (map (\<lambda>(i, u). if count_list members i \<noteq> 1
        then [''unit '' @ i @ '' is in '' @ nat_str (count_list members i) @ '' groups''] else []) (cx_units cx))
      @ concat (map (\<lambda>(i, u). unit_problems s u) (cx_units cx))
      @ concat (map (bucket_problems s) (all_buckets s))
      @ concat (map (\<lambda>(i, u). concat (map (\<lambda>sy. if sy \<notin> set provided
          then [sy @ '' of '' @ u_id u @ '' is provided by no node''] else []) (u_provides u))) (cx_units cx))
      @ concat (map (\<lambda>b. if bk_is_empty b then [''group '' @ bk_key b @ '' edits no file''] else []) (buckets s)))"

definition check_invariants :: "synth_ctx \<Rightarrow> string \<Rightarrow> synth \<Rightarrow> synth_exn + synth" where
  "check_invariants cx step s =
     (let problems = invariant_problems cx s in if problems \<noteq> [] then Inl (Synthesis_error step problems) else Inr s)"

section \<open>Moves\<close>

definition move_edit :: "bref \<Rightarrow> bref \<Rightarrow> placed \<Rightarrow> synth \<Rightarrow> synth_exn + synth" where
  "move_edit source target p s =
     and_then (list_remove p (bk_edits (bucket_at s source))) (\<lambda>rest.
       Inr (change_at target (\<lambda>b. b\<lparr>bk_edits := bk_edits b @ [p]\<rparr>) (change_at source (\<lambda>b. b\<lparr>bk_edits := rest\<rparr>) s)))"

definition move_create :: "bref \<Rightarrow> bref \<Rightarrow> string \<Rightarrow> synth \<Rightarrow> synth_exn + synth" where
  "move_create source target p s =
     and_then (list_remove p (bk_create (bucket_at s source))) (\<lambda>rest.
       Inr (change_at source (\<lambda>b. b\<lparr>bk_fill := bk_fill b @ [p]\<rparr>)
         (change_at target (\<lambda>b. b\<lparr>bk_create := bk_create b @ [p]\<rparr>) (change_at source (\<lambda>b. b\<lparr>bk_create := rest\<rparr>) s))))"

section \<open>Step 2: real dependencies first\<close>

definition add_dep :: "synth \<Rightarrow> unit_dep \<Rightarrow> ((string \<times> string \<times> string) \<times> group_dep) list \<Rightarrow> ((string \<times> string \<times> string) \<times> group_dep) list" where
  "add_dep s d found =
     (let a = bucket_of s (ud_provider d); b = bucket_of s (ud_user d) in
      if a = b then found
      else let dep = dict_get found (a, b, ud_symbol d) \<lparr>gd_provider = a, gd_user = b, gd_symbol = ud_symbol d, gd_need = ud_need d,
                                                       gd_provider_units = [], gd_user_units = []\<rparr>
           in dict_set (a, b, ud_symbol d) (dep\<lparr>
                gd_need := (if ud_need d = ''behavior'' then ''behavior'' else gd_need dep),
                gd_provider_units := py_unique (gd_provider_units dep @ [ud_provider d]),
                gd_user_units := py_unique (gd_user_units dep @ [ud_user d])\<rparr>) found)"

text \<open>Sorted by the positions of user and provider: sorting is stable, so by the provider first and then by the user.\<close>

definition group_deps :: "synth_ctx \<Rightarrow> synth \<Rightarrow> group_dep list" where
  "group_deps cx s =
     (let keys = map bk_key (buckets s) in
      sort_key (\<lambda>d. index_of (gd_user d) keys) (sort_key (\<lambda>d. index_of (gd_provider d) keys) (map snd (fold (add_dep s) (cx_deps cx) []))))"

definition last_name :: "string \<Rightarrow> string" where
  "last_name s = last (py_split (sym_name s) ''.'')"

definition target_of :: "synth_ctx \<Rightarrow> string \<Rightarrow> string \<Rightarrow> string option" where
  "target_of cx i name =
     (let u = unit_of cx i in
      find (\<lambda>sy. sym_path sy \<noteq> sym_path name \<and> sy \<notin> set (registration_names u) \<and> last_name sy = last_name name)
        (u_provides u @ logic_symbols cx [i]))"

definition add_interface :: "synth_ctx \<Rightarrow> string \<Rightarrow> string list \<Rightarrow> string option \<Rightarrow> synth \<Rightarrow> synth_exn + synth" where
  "add_interface cx sy users registered_as s =
     (case map_of (interfaces s) sy of
        Some item \<Rightarrow> Inr (s\<lparr>interfaces := dict_set sy (item\<lparr>if_users := py_unique (if_users item @ users),
            if_registered_as := (case registered_as of None \<Rightarrow> if_registered_as item | Some r \<Rightarrow> py_unique (if_registered_as item @ [r]))\<rparr>)
            (interfaces s), after_pre := after_pre s @ users\<rparr>)
      | None \<Rightarrow>
          let p = sym_path sy;
              provs = dict_get (cx_providers cx) sy [];
              provider_keys = py_unique (map (bucket_of s) provs);
              new_file = (\<not> has_file (cx_index cx) p)
          in and_then
              (if new_file
               then (case find (\<lambda>r. p \<in> set (bk_create (bucket_at s r))) (all_refs s) of
                       None \<Rightarrow> Inr s
                     | Some r \<Rightarrow> if r = Pre_b then Inr s else move_create r Pre_b p s)
               else Inr (if p \<in> set (bk_touch (pre_bucket s)) then s else change_at Pre_b (\<lambda>b. b\<lparr>bk_touch := bk_touch b @ [p]\<rparr>) s))
              (\<lambda>s. let s = change_at Pre_b (\<lambda>b. b\<lparr>bk_provides := py_unique (bk_provides b @ [sy]),
                              bk_contributors := py_unique (bk_contributors b @ provs)\<rparr>) s
                   in Inr (s\<lparr>interfaces := dict_set sy \<lparr>if_symbol = sy, if_path = p, if_new_file = new_file, if_providers = provider_keys,
                               if_users = users, if_registered_as = (case registered_as of None \<Rightarrow> [] | Some r \<Rightarrow> [r])\<rparr> (interfaces s),
                             after_pre := after_pre s @ provider_keys @ users\<rparr>)))"

datatype dep_order = Goes_first | Waits_for

type_synonym dep_ordering = "((string \<times> string \<times> string) \<times> dep_order) list"

definition dep_key :: "group_dep \<Rightarrow> string \<times> string \<times> string" where
  "dep_key d = (gd_provider d, gd_user d, gd_symbol d)"

definition wait_of :: "group_dep \<Rightarrow> wait" where
  "wait_of d = \<lparr>wt_provider = gd_provider d, wt_user = gd_user d, wt_symbol = gd_symbol d, wt_need = gd_need d\<rparr>"

definition component_of :: "string list list \<Rightarrow> string \<Rightarrow> nat option" where
  "component_of cs k = (case filter (\<lambda>n. k \<in> set (cs ! n)) [0..<length cs] of [] \<Rightarrow> None | ns \<Rightarrow> Some (last ns))"

definition on_cycle :: "string list list \<Rightarrow> group_dep \<Rightarrow> bool" where
  "on_cycle cs d = (case (component_of cs (gd_provider d), component_of cs (gd_user d)) of (Some a, Some b) \<Rightarrow> a = b | _ \<Rightarrow> False)"

definition registered_dep :: "synth_ctx \<Rightarrow> group_dep \<Rightarrow> bool" where
  "registered_dep cx d = (case map_of (cx_registrar cx) (gd_symbol d) of None \<Rightarrow> False | Some r \<Rightarrow> r \<in> set (gd_provider_units d))"

definition small_dep :: "synth_ctx \<Rightarrow> synth \<Rightarrow> group_dep \<Rightarrow> bool" where
  "small_dep cx s d = (min (group_size cx (bk_units (bucket_at s (by_key s (gd_provider d)))))
     (group_size cx (bk_units (bucket_at s (by_key s (gd_user d))))) < WAIT_LINES)"

text \<open>The rule by which a dependency waits, if it does.\<close>

definition wait_rule :: "synth_ctx \<Rightarrow> synth \<Rightarrow> string list list \<Rightarrow> group_dep \<Rightarrow> string option" where
  "wait_rule cx s cs d =
     (if off cx ''p2'' then Some ''ablated''
      else if gd_need d = ''behavior'' then Some ''wait_for_behavior''
      else if small_dep cx s d \<and> \<not> on_cycle cs d then Some ''wait_small''
      else if registered_dep cx d \<and> target_of cx (the (map_of (cx_registrar cx) (gd_symbol d))) (gd_symbol d) = None
      then Some ''registration_target_unknown''
      else None)"

definition dep_step :: "synth_ctx \<Rightarrow> string list list \<Rightarrow> group_dep \<Rightarrow> synth \<times> dep_ordering \<Rightarrow> synth_exn + synth \<times> dep_ordering" where
  "dep_step cx cs d st = (case st of (s, orders) \<Rightarrow>
     let us = gd_provider_units d @ gd_user_units d in
     case wait_rule cx s cs d of
       Some rule \<Rightarrow> Inr (record_decision (decide ''P2'' rule us []) (s\<lparr>waits := waits s @ [wait_of d]\<rparr>), dict_set (dep_key d) Waits_for orders)
     | None \<Rightarrow>
         let orders = dict_set (dep_key d) Goes_first orders in
         if registered_dep cx d then Inr (s, orders)
         else and_then (add_interface cx (gd_symbol d) [gd_user d] None s) (\<lambda>s.
           Inr ((record_decision (decide ''P2'' ''interface_first'' us [PRE]) s)\<lparr>firsts := firsts s @ [(gd_user d, gd_symbol d)]\<rparr>, orders)))"

text \<open>\<open>_module_name\<close>: the dotted module of a path, without a leading \<open>src\<close> and a final \<open>__init__\<close>.\<close>

definition without_suffix :: "string \<Rightarrow> string" where
  "without_suffix name =
     (let suffix = takeWhile (\<lambda>c. c \<noteq> CHR ''.'') (rev name); stem = drop (length suffix + 1) (rev name)
      in if CHR ''.'' \<in> set name \<and> suffix \<noteq> [] \<and> stem \<noteq> [] then rev stem else name)"

definition module_of :: "string \<Rightarrow> string" where
  "module_of p =
     (let raw = py_split p ''/'';
          parts = butlast raw @ [without_suffix (last raw)];
          parts = (if hd parts = ''src'' then tl parts else parts);
          parts = (if parts \<noteq> [] \<and> last parts = ''__init__'' then butlast parts else parts)
      in or_str (py_join ''.'' parts) p)"

definition is_all_of :: "bucket \<Rightarrow> placed \<Rightarrow> bool" where
  "is_all_of b p = (set (bk_files b) = {fe_file (pl_edit p)}
     \<and> length (filter (\<lambda>q. fe_file (pl_edit q) = fe_file (pl_edit p)) (bk_edits b)) = 1)"

definition targets_of :: "synth_ctx \<Rightarrow> string \<Rightarrow> string list \<Rightarrow> string option dict" where
  "targets_of cx i names = map (\<lambda>n. (n, target_of cx i n)) names"

definition uses_symbol :: "synth_ctx \<Rightarrow> string \<Rightarrow> string list \<Rightarrow> bool" where
  "uses_symbol cx i names = list_ex (\<lambda>use. fu_symbol use \<in> set names) (u_uses (unit_of cx i))"

definition add_note :: "bref \<Rightarrow> string \<Rightarrow> synth \<Rightarrow> synth" where
  "add_note r note s = change_at r (\<lambda>b. b\<lparr>bk_notes := bk_notes b @ [note]\<rparr>) s"

definition drop_provides :: "bref \<Rightarrow> string list \<Rightarrow> synth \<Rightarrow> synth" where
  "drop_provides r names s = change_at r (\<lambda>b. b\<lparr>bk_provides := filter (\<lambda>sy. sy \<notin> set names) (bk_provides b)\<rparr>) s"

definition gain :: "bref \<Rightarrow> string list \<Rightarrow> string \<Rightarrow> synth \<Rightarrow> synth" where
  "gain r names contributor s = change_at r (\<lambda>b. b\<lparr>bk_provides := py_unique (bk_provides b @ names),
     bk_contributors := py_unique (bk_contributors b @ [contributor])\<rparr>) s"

definition register_first :: "synth_ctx \<Rightarrow> bref \<Rightarrow> placed \<Rightarrow> string option dict \<Rightarrow> string list \<Rightarrow> synth \<Rightarrow> synth_exn + synth" where
  "register_first cx home p targets users s =
     (let names = fe_symbols (pl_edit p) in
      and_then (move_edit home Pre_b p s) (\<lambda>s.
      and_then (for_each (\<lambda>(name, target) s. case target of None \<Rightarrow> Inr s | Some sy \<Rightarrow> add_interface cx sy [] (Some name) s) targets
        (drop_provides home names (gain Pre_b names (pl_unit p) s))) (\<lambda>s.
      let key = bk_key (bucket_at s home); members = bk_units (bucket_at s home);
          own = (if list_ex (\<lambda>m. uses_symbol cx m names) members then [key] else [])
      in Inr (add_note home (''An earlier step registers '' @ py_join '', '' names @ '' in '' @ fe_file (pl_edit p) @ ''; do not register it again.'')
           (s\<lparr>after_pre := after_pre s @ [key] @ users,
              firsts := firsts s @ concat (map (\<lambda>m. map (Pair key) (filter (\<lambda>n. uses_symbol cx m [n]) names)) members),
              pre_registrations := pre_registrations s @ [\<lparr>rg_unit = pl_unit p, rg_edit = pl_edit p, rg_targets = targets,
                                                          rg_users = py_unique (users @ own)\<rparr>]\<rparr>)))))"

definition target_symbols :: "string option dict \<Rightarrow> string list" where
  "target_symbols targets = concat (map (\<lambda>(n, t). case t of None \<Rightarrow> [] | Some sy \<Rightarrow> [sy]) targets)"

definition register_last :: "synth_ctx \<Rightarrow> bref \<Rightarrow> placed \<Rightarrow> string option dict \<Rightarrow> synth \<Rightarrow> synth_exn + synth" where
  "register_last cx home p targets s =
     (let names = fe_symbols (pl_edit p); label = or_str (py_join '', '' names) ''(no names)'' in
      and_then (move_edit home Reg_b p s) (\<lambda>s.
      let s = drop_provides home names (gain Reg_b names (pl_unit p) s);
          s = s\<lparr>before_reg := before_reg s @ [bk_key (bucket_at s home)],
                reg_registrations := reg_registrations s @ [\<lparr>rg_unit = pl_unit p, rg_edit = pl_edit p, rg_targets = targets, rg_users = []\<rparr>]\<rparr>;
          modules = py_unique (map (\<lambda>sy. module_of (sym_path sy)) (target_symbols targets));
          modules = (if modules \<noteq> [] then modules else [''the module that defines it'']);
          bare = or_str (py_join '', '' (map sym_name names)) label;
          note = (if fe_file (pl_edit p) \<in> set (bk_files (bucket_at s home))
            then ''Another step registers '' @ bare @ '' in '' @ fe_file (pl_edit p) @ ''; do not register it yourself, and import from ''
                 @ py_join '', '' modules @ '' in your tests.''
            else ''Another step registers '' @ bare @ '' in '' @ fe_file (pl_edit p) @ ''; do not edit that file, and import from ''
                 @ py_join '', '' modules @ '' in your tests.'')
      in Inr (record_decision (decide ''P2'' ''registration_last'' [pl_unit p] [REG]) (add_note home note s))))"

definition dep_users :: "dep_ordering \<Rightarrow> dep_order \<Rightarrow> group_dep list \<Rightarrow> string list" where
  "dep_users orders o' mine = py_unique (map gd_user (filter (\<lambda>d. map_of orders (dep_key d) = Some o') mine))"

definition place_registration :: "synth_ctx \<Rightarrow> group_dep list \<Rightarrow> fact_unit \<times> fact_edit \<Rightarrow> synth \<times> dep_ordering \<Rightarrow> synth_exn + synth \<times> dep_ordering" where
  "place_registration cx deps ue st = (case (ue, st) of ((u, e), (s, orders)) \<Rightarrow>
     let names = fe_symbols e;
         home = by_key s (bucket_of s (u_id u));
         p = \<lparr>pl_unit = u_id u, pl_edit = e\<rparr>;
         mine = filter (\<lambda>d. gd_symbol d \<in> set names \<and> u_id u \<in> set (gd_provider_units d)) deps;
         first = dep_users orders Goes_first mine;
         waiting = dep_users orders Waits_for mine;
         own = filter (\<lambda>m. uses_symbol cx m names) (bk_units (bucket_at s home));
         alone = is_all_of (bucket_at s home) p;
         targets = targets_of cx (u_id u) names;
         unknown = filter (\<lambda>(n, t). t = None) targets
     in
     if off cx ''p2'' then Inr (record_decision (decide ''P2'' ''ablated'' [u_id u] []) s, orders)
     else if first \<noteq> [] \<and> (alone \<or> unknown \<noteq> [])
     then let late = filter (\<lambda>d. map_of orders (dep_key d) = Some Goes_first) mine in
       Inr (record_decision (decide ''P2'' ''registration_kept'' (u_id u # units_of s first) [])
              (s\<lparr>waits := waits s @ map wait_of late\<rparr>), fold (\<lambda>d. dict_set (dep_key d) Waits_for) late orders)
     else if first \<noteq> []
     then and_then (register_first cx home p targets first s) (\<lambda>s.
       let key = bk_key (bucket_at s home) in
       Inr (record_decision (decide ''P2'' ''registration_first'' (u_id u # units_of s first) [PRE])
         (s\<lparr>firsts := firsts s @ concat (map (\<lambda>user. map (Pair user)
              (filter (\<lambda>n. map_of orders (key, user, n) = Some Goes_first) names)) first)\<rparr>), orders))
     else if waiting \<noteq> [] \<or> own \<noteq> []
     then Inr (record_decision (decide ''P2'' ''registration_kept'' (u_id u # units_of s waiting) []) s, orders)
     else if alone
     then Inr (record_decision (decide ''P2'' ''registration_kept'' [u_id u] []) s, orders)
     else and_then (register_last cx home p targets s) (\<lambda>s. Inr (s, orders)))"

definition registration_edits :: "synth_ctx \<Rightarrow> (fact_unit \<times> fact_edit) list" where
  "registration_edits cx = concat (map (\<lambda>(i, u). map (Pair u) (filter (\<lambda>e. fe_kind e = Registration) (u_edits u))) (cx_units cx))"

definition step2 :: "synth_ctx \<Rightarrow> synth \<Rightarrow> synth_exn + synth" where
  "step2 cx s =
     (let deps = group_deps cx s;
          cs = components (map bk_key (buckets s)) (adjacency (map (\<lambda>d. (gd_provider d, gd_user d)) deps)) in
      and_then (for_each (dep_step cx cs) deps (s, [])) (\<lambda>st.
      and_then (for_each (place_registration cx deps) (registration_edits cx) st) (\<lambda>(s, orders). Inr s)))"

section \<open>Step 2c: registrations kept in one file by several nodes\<close>

definition kept_registrations :: "synth \<Rightarrow> (bref \<times> placed) list dict" where
  "kept_registrations s = fold (\<lambda>(r, p) d. dict_set (fe_file (pl_edit p)) (dict_get d (fe_file (pl_edit p)) [] @ [(r, p)]) d)
     (concat (map (\<lambda>r. map (Pair r) (filter (\<lambda>p. fe_kind (pl_edit p) = Registration) (bk_edits (bucket_at s r)))) (group_refs s))) []"

text \<open>One entry: it stays (and is reported afterwards), or it goes into PRE.\<close>

definition share_entry :: "synth_ctx \<Rightarrow> bref \<times> placed \<Rightarrow> synth \<times> (bref \<times> placed) list \<Rightarrow> synth_exn + synth \<times> (bref \<times> placed) list" where
  "share_entry cx entry st = (case (entry, st) of ((r, p), (s, stayed)) \<Rightarrow>
     let names = fe_symbols (pl_edit p); targets = targets_of cx (pl_unit p) names; b = bucket_at s r in
     if list_ex (\<lambda>(n, t). t = None) targets \<or> is_all_of b p then Inr (s, stayed @ [(r, p)])
     else let users = py_unique (map wt_user (filter (\<lambda>w. wt_provider w = bk_key b \<and> wt_symbol w \<in> set names) (waits s))) in
       and_then (register_first cx r p targets users s) (\<lambda>s.
         Inr (record_decision (decide ''P3'' ''registration_first_shared'' [pl_unit p] [PRE]) s, stayed)))"

definition stayed_decision :: "string \<Rightarrow> bref \<times> placed \<Rightarrow> synth \<Rightarrow> synth" where
  "stayed_decision file_path entry s = (case entry of (r, p) \<Rightarrow>
     let others = map (\<lambda>q. bk_key (bucket_at s q)) (filter (\<lambda>q. q \<noteq> r \<and> file_path \<in> set (bk_files (bucket_at s q))) (all_refs s))
     in record_decision (decide ''P3'' ''registration_kept_ordered'' [pl_unit p] (filter (\<lambda>k. k \<in> {PRE, REG}) others)) s)"

definition share_path :: "synth_ctx \<Rightarrow> string \<times> (bref \<times> placed) list \<Rightarrow> synth \<Rightarrow> synth_exn + synth" where
  "share_path cx kept s = (case kept of (file_path, entries) \<Rightarrow>
     if length (py_unique (map (\<lambda>(r, p). bk_key (bucket_at s r)) entries)) < 2 then Inr s
     else and_then (for_each (share_entry cx) entries (s, [])) (\<lambda>(s, stayed). Inr (fold (stayed_decision file_path) stayed s)))"

definition share_kept_registrations :: "synth_ctx \<Rightarrow> synth \<Rightarrow> synth_exn + synth" where
  "share_kept_registrations cx s =
     (if off cx ''p2'' \<or> off cx ''p3'' then Inr s else for_each (share_path cx) (kept_registrations s) s)"

section \<open>Cycles that are left\<close>

definition ref_path :: "string \<Rightarrow> string" where
  "ref_path r = takeWhile (\<lambda>c. c \<noteq> CHR ''#'') r"

definition creator_keys :: "synth \<Rightarrow> string dict" where
  "creator_keys s = fold (\<lambda>b d. fold (\<lambda>p. dict_set p (bk_key b)) (bk_create b) d) (all_buckets s) []"

definition reading_pairs :: "synth_ctx \<Rightarrow> synth \<Rightarrow> (string \<times> string) list" where
  "reading_pairs cx s = concat (map (\<lambda>b. concat (map (\<lambda>i. concat (map (\<lambda>r.
     case map_of (creator_keys s) (ref_path r) of None \<Rightarrow> []
     | Some k \<Rightarrow> if has_file (cx_index cx) (ref_path r) then [] else [(k, bk_key b)])
     (u_context_files (unit_of cx i)))) (bk_units b))) (buckets s))"

definition cycle_pairs :: "synth_ctx \<Rightarrow> synth \<Rightarrow> (string \<times> string) list" where
  "cycle_pairs cx s = filter (\<lambda>(a, b). a \<noteq> b)
     (map (\<lambda>w. (wt_provider w, wt_user w)) (waits s) @ map (Pair PRE) (py_unique (after_pre s))
      @ map (\<lambda>k. (k, REG)) (py_unique (before_reg s)) @ reading_pairs cx s)"

definition check_cycles :: "synth_ctx \<Rightarrow> synth \<Rightarrow> synth_exn + synth" where
  "check_cycles cx s =
     (let cs = components (map bk_key (all_buckets s)) (adjacency (cycle_pairs cx s)) in
      if cs \<noteq> []
      then Inl (Facts_conflict (map (\<lambda>c. Issue ''CONFLICT'' (units_of s c)
        ''the facts contradict each other: these units depend on each other in a cycle that no interface can open'') cs))
      else Inr s)"

section \<open>Step 3: shared edits\<close>

definition move_shared :: "synth_ctx \<Rightarrow> bref \<Rightarrow> placed \<Rightarrow> string list \<Rightarrow> synth \<Rightarrow> synth_exn + synth" where
  "move_shared cx r p others s =
     (let file = fe_file (pl_edit p);
          moved = filter (\<lambda>sy. sym_path sy = file) (u_provides (unit_of cx (pl_unit p))) in
      and_then (move_edit r Pre_b p s) (\<lambda>s.
      let s = gain Pre_b moved (pl_unit p) s;
          s = (if file \<in> set (bk_files (bucket_at s r)) then s
               else change_at r (\<lambda>b. b\<lparr>bk_provides := filter (\<lambda>sy. sym_path sy \<noteq> file) (bk_provides b)\<rparr>) s);
          s = s\<lparr>after_pre := after_pre s @ [bk_key (bucket_at s r)],
                shared_edits := shared_edits s @ [\<lparr>se_unit = pl_unit p, se_edit = pl_edit p, se_others = others\<rparr>]\<rparr>
      in Inr (record_decision (decide ''P3'' ''small_shared_edit_first'' (pl_unit p # units_of s others) [PRE])
           (add_note r (''An earlier step makes '' @ pl_unit p @ [char_of (39::nat)] @ ''s change to '' @ file
              @ '' (see the request and the goal above); do not edit that file for it again.'') s))))"

definition add_reason :: "string \<Rightarrow> string \<Rightarrow> synth \<Rightarrow> synth" where
  "add_reason file reason s = s\<lparr>file_reasons := dict_set file (dict_get (file_reasons s) file [] @ [reason]) (file_reasons s)\<rparr>"

definition step3_edit :: "synth_ctx \<Rightarrow> string \<Rightarrow> string list \<Rightarrow> string \<Rightarrow> placed \<Rightarrow> synth \<Rightarrow> synth_exn + synth" where
  "step3_edit cx file keys k p s =
     (let r = by_key s k; e = pl_edit p in
      if fe_lines e > SMALL_SHARED_EDIT_LINES
      then Inr (add_reason file (pl_unit p @ '' changes '' @ int_str (fe_lines e) @ '' lines (more than '' @ int_str SMALL_SHARED_EDIT_LINES @ '')'') s)
      else if \<not> fe_standalone e
      then Inr (add_reason file (pl_unit p @ [char_of (39::nat)] @ ''s edit cannot be written on its own'') s)
      else if set (bk_files (bucket_at s r)) = {file}
      then Inr (add_reason file (pl_unit p @ [char_of (39::nat)] @ ''s edit is all of '' @ k @ [char_of (39::nat)] @ ''s work'') s)
      else move_shared cx r p (filter (\<lambda>k'. k' \<noteq> k) keys) s)"

definition step3_key :: "synth_ctx \<Rightarrow> string \<Rightarrow> string list \<Rightarrow> string \<Rightarrow> synth \<Rightarrow> synth_exn + synth" where
  "step3_key cx file keys k s =
     for_each (step3_edit cx file keys k)
       (filter (\<lambda>p. fe_file (pl_edit p) = file \<and> fe_kind (pl_edit p) = Logic) (bk_edits (bucket_at s (by_key s k)))) s"

definition group_editors :: "synth \<Rightarrow> string list dict" where
  "group_editors s = fold (\<lambda>b d. fold (\<lambda>p d. dict_set p (dict_get d p [] @ [bk_key b]) d) (bk_edit_files b) d) (buckets s) []"

definition step3_file :: "synth_ctx \<Rightarrow> string \<times> string list \<Rightarrow> synth \<Rightarrow> synth_exn + synth" where
  "step3_file cx editors s = (case editors of (file, keys) \<Rightarrow>
     if length keys < 2 then Inr s
     else let s = s\<lparr>file_reasons := dict_set file (dict_get (file_reasons s) file []) (file_reasons s)\<rparr> in
       if off cx ''p3'' then Inr (record_decision (decide ''P3'' ''ablated'' (units_of s keys) []) s)
       else for_each (step3_key cx file keys) keys s)"

definition step3 :: "synth_ctx \<Rightarrow> synth \<Rightarrow> synth_exn + synth" where
  "step3 cx s = for_each (step3_file cx) (group_editors s) s"

section \<open>Step 3b: different parts of one file\<close>

definition overlap :: "string \<Rightarrow> string \<Rightarrow> bool" where
  "overlap one two = (one = two \<or> py_startswith two (one @ ''.'') \<or> py_startswith one (two @ ''.''))"

definition edits_on :: "string \<Rightarrow> bucket \<Rightarrow> placed list" where
  "edits_on file b = filter (\<lambda>p. fe_file (pl_edit p) = file) (bk_edits b)"

definition symbols_on :: "string \<Rightarrow> bucket \<Rightarrow> string list" where
  "symbols_on file b = concat (map (\<lambda>p. fe_symbols (pl_edit p)) (edits_on file b))"

text \<open>Why the nodes must be ordered on the file; empty if they need not.\<close>

definition why_not_parallel :: "string \<Rightarrow> bucket list \<Rightarrow> string" where
  "why_not_parallel file bs =
     (let registering = map bk_key (filter (\<lambda>b. list_ex (\<lambda>p. fe_kind (pl_edit p) = Registration) (edits_on file b)) bs);
          bare = map pl_unit (filter (\<lambda>p. fe_symbols (pl_edit p) = []) (concat (map (edits_on file) bs)));
          clashes = concat (map (\<lambda>(i, j). concat (map (\<lambda>one. map (\<lambda>two. (bs ! i, bs ! j, one, two)) (filter (overlap one) (symbols_on file (bs ! j))))
                      (symbols_on file (bs ! i)))) (index_pairs (length bs)))
      in if registering \<noteq> [] then py_join '', '' registering @ '' register names there, so the nodes queue''
         else if bare \<noteq> [] then py_join '', '' bare @ '' list no symbols for their edit there, so it is not known which parts they change''
         else case clashes of [] \<Rightarrow> []
           | (b, c, one, two) # _ \<Rightarrow> bk_key b @ '' and '' @ bk_key c @ '' ''
               @ (if one = two then ''both change '' @ sym_name one
                  else ''change '' @ sym_name one @ '' and '' @ sym_name two @ '', which overlap''))"

definition group_editor_refs :: "synth \<Rightarrow> bref list dict" where
  "group_editor_refs s = fold (\<lambda>r d. fold (\<lambda>p d. dict_set p (dict_get d p [] @ [r]) d) (bk_edit_files (bucket_at s r)) d) (group_refs s) []"

definition share_with :: "string \<Rightarrow> (string \<times> string list) list \<Rightarrow> bref \<Rightarrow> synth \<Rightarrow> synth" where
  "share_with file syms r s =
     (let others = map sym_name (concat (map snd (filter (\<lambda>(k, own). k \<noteq> bk_key (bucket_at s r)) syms))) in
      add_note r (''Other nodes change '' @ py_join '', '' others @ '' in '' @ file
        @ '' at the same time. Change only your own parts of it and leave theirs as they are; if your changes conflict with theirs when merging, ''
        @ ''you will be asked to resolve the conflict.'')
        (change_at r (\<lambda>b. b\<lparr>bk_shared := bk_shared b @ [file]\<rparr>) s))"

definition share_file :: "string \<times> bref list \<Rightarrow> synth \<Rightarrow> synth" where
  "share_file editors s = (case editors of (file, rs) \<Rightarrow>
     if length rs < 2 then s
     else let bs = map (bucket_at s) rs; why = why_not_parallel file bs in
       if why \<noteq> [] then add_reason file why s
       else let syms = map (\<lambda>b. (bk_key b, py_unique (symbols_on file b))) bs;
                s = fold (share_with file syms) rs s
            in record_decision (decide ''P3'' ''parallel_different_symbols'' (concat (map bk_units bs)) [])
                 (s\<lparr>parallel_files := parallel_files s @ [file]\<rparr>))"

definition share_files :: "synth_ctx \<Rightarrow> synth \<Rightarrow> synth" where
  "share_files cx s = (if off cx ''p3'' then s else fold share_file (group_editor_refs s) s)"

definition record_order :: "synth_ctx \<Rightarrow> synth \<Rightarrow> synth" where
  "record_order cx s =
     (if off cx ''p3'' then s
      else let bs = filter (\<lambda>b. \<not> bk_is_empty b) (all_buckets s);
               editors = fold (\<lambda>b d. fold (\<lambda>p d. dict_set p (dict_get d p [] @ [b]) d) (bk_files b) d) bs []
           in fold (\<lambda>(file, es) s. if length es < 2 \<or> file \<in> set (parallel_files s) then s
                else record_decision (decide ''P3'' ''ordered'' (concat (map bk_units es)) (filter (\<lambda>k. k \<in> {PRE, REG}) (map bk_key es))) s) editors s)"

text \<open>The calls of \<open>synthesize\<close> from the buckets to the build.\<close>

definition place_work :: "synth_ctx \<Rightarrow> string list list \<Rightarrow> decision list \<Rightarrow> synth_exn + synth" where
  "place_work cx gs ds =
     and_then (check_invariants cx ''step 1 (groups)'' (make_buckets cx gs ds)) (\<lambda>s.
     and_then (step2 cx s) (\<lambda>s.
     and_then (share_kept_registrations cx s) (\<lambda>s.
     and_then (check_invariants cx ''step 2 (real dependencies)'' s) (\<lambda>s.
     and_then (check_cycles cx s) (\<lambda>s.
     and_then (step3 cx s) (\<lambda>s.
     and_then (check_invariants cx ''step 3 (shared edits)'' s) (\<lambda>s.
     Inr (record_order cx (share_files cx s)))))))))"

end
