(* ===== verification/Synth_Groups_Props.thy ===== *)
theory Synth_Groups_Props
  imports Synth_Groups "HOL-Library.Multiset"
begin

text \<open>
  The passes that form groups end, and what they leave: every unit is in exactly one group, units listed together or changing the same function are in one
  group, and the groups do not wait for each other in a cycle.
\<close>

section \<open>Components are the cycles\<close>

lemma set_reach_from: "set (reach_from adj k) = {j. (k, j) \<in> (adj_rel adj)\<^sup>+}"
proof -
  have "set (reach_from adj k) = (adj_rel adj)\<^sup>* `` set (adj_of adj k)" by (simp add: reach_from_def search_loop_reach)
  also have "\<dots> = {j. (k, j) \<in> (adj_rel adj)\<^sup>+}" by (auto simp: adj_rel_def trancl_unfold_left)
  finally show ?thesis .
qed

lemma adj_rel_add_pair: "adj_rel (add_pair e adj) = insert e (adj_rel adj)"
  by (cases e) (auto simp: add_pair_def adj_rel_def Let_def dict_get_set split: if_splits)

lemma adj_rel_adjacency: "adj_rel (adjacency es) = set es"
proof -
  have "adj_rel (fold add_pair es adj) = set es \<union> adj_rel adj" for adj
    by (induction es arbitrary: adj) (auto simp: adj_rel_add_pair)
  then show ?thesis by (simp add: adjacency_def) (simp add: adj_rel_def dict_get_def)
qed

lemma components_from_Nil: "components_from keys adj assigned ks = [] \<longleftrightarrow> (\<forall>k\<in>set ks. k \<in> set assigned \<or> k \<notin> set (reach_from adj k))"
  by (induction ks arbitrary: assigned) (auto simp: Let_def)

lemma components_Nil_acyclic:
  assumes "set es \<subseteq> set keys \<times> set keys"
  shows "components keys (adjacency es) = [] \<longleftrightarrow> acyclic (set es)"
proof -
  have "k \<in> set keys" if "(k, k) \<in> (set es)\<^sup>+" for k using tranclD[OF that] assms by auto
  then show ?thesis by (auto simp: components_def components_from_Nil set_reach_from adj_rel_adjacency acyclic_def)
qed

lemma components_from_first:
  "components_from keys adj assigned ks = c # cs \<Longrightarrow>
     \<exists>k\<in>set ks. k \<in> set (reach_from adj k) \<and> c = filter (\<lambda>j. j = k \<or> j \<in> set (reach_from adj k) \<and> k \<in> set (reach_from adj j)) keys"
  by (induction ks arbitrary: assigned) (auto simp: Let_def split: if_splits)

text \<open>A component of a relation without loops has at least two members.\<close>

lemma component_at_least_two:
  assumes "components keys (adjacency es) = c # cs" "set es \<subseteq> set keys \<times> set keys" "irrefl (set es)" "distinct keys"
  shows "distinct c" "set c \<subseteq> set keys" "2 \<le> length c"
proof -
  from components_from_first[OF assms(1)[unfolded components_def]]
  obtain k where k: "k \<in> set keys" "(k, k) \<in> (set es)\<^sup>+"
    and c: "c = filter (\<lambda>j. j = k \<or> (k, j) \<in> (set es)\<^sup>+ \<and> (j, k) \<in> (set es)\<^sup>+) keys"
    by (auto simp: set_reach_from adj_rel_adjacency)
  show "distinct c" "set c \<subseteq> set keys" using assms(4) by (auto simp: c)
  obtain j where j: "(k, j) \<in> set es" "(j, k) \<in> (set es)\<^sup>*" using k(2) by (metis tranclD)
  then have "j \<noteq> k" using assms(3) by (auto simp: irrefl_def)
  with j have "(j, k) \<in> (set es)\<^sup>+" by (auto simp: rtrancl_eq_or_trancl)
  with j(1) assms(2) k(1) have "{k, j} \<subseteq> set c" by (auto simp: c)
  then have "card {k, j} \<le> card (set c)" by (intro card_mono) auto
  with \<open>j \<noteq> k\<close> show "2 \<le> length c" using card_length[of c] by simp
qed

section \<open>Merging keeps the partition\<close>

definition unit_ids :: "synth_ctx \<Rightarrow> string list" where
  "unit_ids cx = map u_id (f_units (cx_facts cx))"

definition groups_ok :: "synth_ctx \<Rightarrow> string list list \<Rightarrow> bool" where
  "groups_ok cx gs \<longleftrightarrow> mset (concat gs) = mset (unit_ids cx) \<and> [] \<notin> set gs \<and> distinct (unit_ids cx)"

lemma groups_distinct: "groups_ok cx gs \<Longrightarrow> distinct (concat gs) \<and> set (concat gs) = set (unit_ids cx)"
  by (metis groups_ok_def mset_eq_imp_distinct_iff mset_eq_setD)

lemma concat_perm: "mset xs = mset ys \<Longrightarrow> mset (concat xs) = mset (concat ys)"
  by (metis mset_concat mset_map sum_mset_sum_list)

lemma concat_sort_key: "mset (concat (sort_key f xs)) = mset (concat xs)"
  by (rule concat_perm) simp

lemma split_numbers:
  assumes "distinct ns" "set ns \<subseteq> {..<length gs}"
  shows "mset (map ((!) gs) (filter (\<lambda>n. n \<notin> set ns) [0..<length gs])) + mset (map ((!) gs) ns) = mset gs"
proof -
  have "mset ns = mset (filter (\<lambda>n. n \<in> set ns) [0..<length gs])"
    using assms by (intro set_eq_iff_mset_eq_distinct[THEN iffD1]) auto
  then have "mset (filter (\<lambda>n. n \<notin> set ns) [0..<length gs]) + mset ns = mset [0..<length gs]"
    by (metis add.commute mset_filter multiset_partition)
  then have "mset (map ((!) gs) (filter (\<lambda>n. n \<notin> set ns) [0..<length gs])) + mset (map ((!) gs) ns) = mset (map ((!) gs) [0..<length gs])"
    by (metis image_mset_union mset_map)
  then show ?thesis by (simp add: map_nth)
qed

lemma merge_groups_ok:
  assumes "groups_ok cx gs" "distinct ns" "set ns \<subseteq> {..<length gs}" "ns \<noteq> []"
  shows "groups_ok cx (merge_groups cx ns gs)" "length (merge_groups cx ns gs) + length ns = length gs + 1"
proof -
  let ?rest = "map ((!) gs) (filter (\<lambda>n. n \<notin> set ns) [0..<length gs])"
  let ?members = "sort_key (unit_order cx) (concat (map ((!) gs) ns))"
  have parts: "mset ?rest + mset (map ((!) gs) ns) = mset gs" by (rule split_numbers[OF assms(2,3)])
  have "mset (concat (merge_groups cx ns gs)) = mset (concat ?rest) + mset (concat (map ((!) gs) ns))"
    by (simp add: merge_groups_def Let_def concat_sort_key)
  also have "\<dots> = mset (concat (?rest @ map ((!) gs) ns))" by simp
  also have "\<dots> = mset (concat gs)" using parts by (intro concat_perm) simp
  finally have same: "mset (concat (merge_groups cx ns gs)) = mset (concat gs)" .
  have "?members \<noteq> []"
  proof -
    obtain n where "n \<in> set ns" using assms(4) by (cases ns) auto
    moreover from this have "gs ! n \<noteq> []" using assms(1,3) by (auto simp: groups_ok_def) (metis lessThan_iff nth_mem subsetD)
    ultimately have "concat (map ((!) gs) ns) \<noteq> []" by auto
    then show ?thesis by (metis mset_sort mset_zero_iff)
  qed
  moreover have "[] \<notin> set ?rest" using assms(1) by (auto simp: groups_ok_def) (metis nth_mem)
  ultimately show "groups_ok cx (merge_groups cx ns gs)"
    using assms(1) same by (simp add: groups_ok_def merge_groups_def Let_def)
  have "length ?rest + length ns = length gs" using arg_cong[OF parts, of size] by (simp only: size_union size_mset length_map)
  then show "length (merge_groups cx ns gs) + length ns = length gs + 1" by (simp add: merge_groups_def Let_def)
qed

text \<open>Units that were in one group still are.\<close>

definition same_group :: "string list list \<Rightarrow> string \<Rightarrow> string \<Rightarrow> bool" where
  "same_group gs u v \<longleftrightarrow> (\<exists>g\<in>set gs. u \<in> set g \<and> v \<in> set g)"

lemma merge_same_group: "same_group gs u v \<Longrightarrow> same_group (merge_groups cx ns gs) u v"
proof -
  assume "same_group gs u v"
  then obtain n where n: "n < length gs" "u \<in> set (gs ! n)" "v \<in> set (gs ! n)" unfolding same_group_def by (metis in_set_conv_nth)
  show ?thesis
  proof (cases "n \<in> set ns")
    case True
    with n show ?thesis by (auto simp: same_group_def merge_groups_def Let_def)
  next
    case False
    with n have "gs ! n \<in> set (merge_groups cx ns gs)" by (auto simp: merge_groups_def Let_def)
    with n show ?thesis by (auto simp: same_group_def)
  qed
qed

lemma merge_same_group_new:
  "m \<in> set ns \<Longrightarrow> n \<in> set ns \<Longrightarrow> u \<in> set (gs ! m) \<Longrightarrow> v \<in> set (gs ! n) \<Longrightarrow> same_group (merge_groups cx ns gs) u v"
  by (auto simp: same_group_def merge_groups_def Let_def)

section \<open>Where a unit is\<close>

lemma concat_member_unique: "distinct (concat gs) \<Longrightarrow> g \<in> set gs \<Longrightarrow> h \<in> set gs \<Longrightarrow> u \<in> set g \<Longrightarrow> u \<in> set h \<Longrightarrow> g = h"
  by (induction gs) auto

lemma group_of_Some: "group_of gs u = Some n \<Longrightarrow> n < length gs \<and> u \<in> set (gs ! n)"
proof -
  assume g: "group_of gs u = Some n"
  let ?ns = "filter (\<lambda>n. u \<in> set (gs ! n)) [0..<length gs]"
  from g have "?ns \<noteq> [] \<and> n = last ?ns" by (auto simp: group_of_def split: list.splits)
  then have "n \<in> set ?ns" using last_in_set by blast
  then show ?thesis by simp
qed

lemma group_of_None: "group_of gs u = None \<longleftrightarrow> u \<notin> set (concat gs)"
proof -
  have "group_of gs u = None \<longleftrightarrow> filter (\<lambda>n. u \<in> set (gs ! n)) [0..<length gs] = []" by (auto simp: group_of_def split: list.splits)
  also have "\<dots> \<longleftrightarrow> (\<forall>n<length gs. u \<notin> set (gs ! n))" by (auto simp: filter_empty_conv)
  also have "\<dots> \<longleftrightarrow> u \<notin> set (concat gs)" by (metis UN_iff in_set_conv_nth set_concat)
  finally show ?thesis .
qed

lemma keys_distinct: "groups_ok cx gs \<Longrightarrow> distinct (map hd gs)"
proof -
  assume ok: "groups_ok cx gs"
  have "distinct (concat xs) \<Longrightarrow> [] \<notin> set xs \<Longrightarrow> distinct (map hd xs)" for xs :: "string list list"
  proof (induction xs)
    case (Cons x xs)
    have "hd x \<in> set x" using Cons.prems by (cases x) auto
    moreover have "hd y \<in> set y" if "y \<in> set xs" for y using that Cons.prems by (metis hd_in_set list.set_intros(2))
    ultimately have "hd x \<notin> hd ` set xs" using Cons.prems(1) by auto (metis UN_I disjoint_iff)
    then show ?case using Cons by simp
  qed simp
  with ok groups_distinct[OF ok] show ?thesis by (auto simp: groups_ok_def)
qed

lemma waiting_pairs_keys:
  assumes "groups_ok cx gs"
  shows "set (waiting_pairs cx gs) \<subseteq> set (map hd gs) \<times> set (map hd gs)" "irrefl (set (waiting_pairs cx gs))"
proof -
  have key: "hd (gs ! a) \<noteq> hd (gs ! b)" if "a < length gs" "b < length gs" "a \<noteq> b" for a b
    using keys_distinct[OF assms] that by (metis length_map nth_eq_iff_index_eq nth_map)
  have pair: "\<exists>a b. a < length gs \<and> b < length gs \<and> a \<noteq> b \<and> e = (hd (gs ! a), hd (gs ! b))" if "e \<in> set (waiting_pairs cx gs)" for e
    using that by (force simp: waiting_pairs_def split: option.splits if_splits dest: group_of_Some[OF sym] group_of_Some)
  show "set (waiting_pairs cx gs) \<subseteq> set (map hd gs) \<times> set (map hd gs)"
  proof
    fix e assume "e \<in> set (waiting_pairs cx gs)"
    from pair[OF this] show "e \<in> set (map hd gs) \<times> set (map hd gs)" by auto
  qed
  show "irrefl (set (waiting_pairs cx gs))" unfolding irrefl_def using pair key by (metis prod.inject)
qed

lemma index_of_less: "x \<in> set xs \<Longrightarrow> index_of x xs < length xs \<and> xs ! index_of x xs = x"
  by (induction xs) auto

section \<open>The steps merge at least two groups\<close>

definition sound_state :: "synth_ctx \<Rightarrow> group_state \<Rightarrow> bool" where
  "sound_state cx st = groups_ok cx (fst st)"

definition group_count :: "group_state \<Rightarrow> nat" where
  "group_count st = length (fst st)"

text \<open>A step, seen from outside: two or more groups become one.\<close>

definition merges :: "synth_ctx \<Rightarrow> group_state \<Rightarrow> group_state \<Rightarrow> bool" where
  "merges cx st st' \<longleftrightarrow> (\<exists>ns. distinct ns \<and> set ns \<subseteq> {..<length (fst st)} \<and> 2 \<le> length ns \<and> fst st' = merge_groups cx ns (fst st))"

lemma merges_sound: "sound_state cx st \<Longrightarrow> merges cx st st' \<Longrightarrow> sound_state cx st' \<and> group_count st' < group_count st"
proof -
  assume "sound_state cx st" "merges cx st st'"
  then obtain ns where ns: "groups_ok cx (fst st)" "distinct ns" "set ns \<subseteq> {..<length (fst st)}" "2 \<le> length ns"
      "fst st' = merge_groups cx ns (fst st)"
    by (auto simp: merges_def sound_state_def)
  moreover from ns(4) have "ns \<noteq> []" by auto
  ultimately show ?thesis using merge_groups_ok[of cx "fst st" ns] by (simp add: sound_state_def group_count_def)
qed

lemma merges_same_group: "merges cx st st' \<Longrightarrow> same_group (fst st) u v \<Longrightarrow> same_group (fst st') u v"
  by (auto simp: merges_def merge_same_group)

lemma mutual_merges: "sound_state cx st \<Longrightarrow> mutual_step cx st = Some st' \<Longrightarrow> merges cx st st'"
proof -
  assume ok: "sound_state cx st" and step: "mutual_step cx st = Some st'"
  obtain gs ds where st: "st = (gs, ds)" by (cases st)
  let ?keys = "map hd gs"
  obtain c cs where c: "components ?keys (adjacency (waiting_pairs cx gs)) = c # cs"
      and gs': "fst st' = merge_groups cx (map (\<lambda>k. index_of k ?keys) c) gs"
    using step by (auto simp: mutual_step_def st Let_def split: list.splits)
  have g: "groups_ok cx gs" using ok by (simp add: sound_state_def st)
  note two = component_at_least_two[OF c waiting_pairs_keys[OF g] keys_distinct[OF g]]
  have "inj_on (\<lambda>k. index_of k ?keys) (set c)" using two(2) index_of_less[of _ ?keys] 
    by (intro inj_onI) (metis subsetD)
  moreover have "\<forall>k\<in>set c. index_of k ?keys < length gs" using two(2) index_of_less[of _ ?keys] by auto
  ultimately have "distinct (map (\<lambda>k. index_of k ?keys) c) \<and> set (map (\<lambda>k. index_of k ?keys) c) \<subseteq> {..<length gs}"
    using two(1) by (auto simp: distinct_map)
  with gs' two(3) show ?thesis unfolding merges_def st by (intro exI[of _ "map (\<lambda>k. index_of k ?keys) c"]) simp
qed

lemma merges_pair: "a < length gs \<Longrightarrow> b < length gs \<Longrightarrow> a \<noteq> b \<Longrightarrow> merges cx (gs, ds) (merge_groups cx [a, b] gs, ds')"
  by (auto simp: merges_def intro!: exI[of _ "[a, b]"])

lemma find_in: "find P xs = Some x \<Longrightarrow> x \<in> set xs \<and> P x"
  by (induction xs) (auto split: if_splits)

lemma small_merges: "small_step cx st = Some st' \<Longrightarrow> merges cx st st'"
proof -
  assume step: "small_step cx st = Some st'"
  obtain gs ds where st: "st = (gs, ds)" by (cases st)
  let ?related = "related_groups cx gs"
  from step obtain n where n: "n < length gs" "?related n \<noteq> []"
      and st': "fst st' = merge_groups cx [n, snd (hd (filter (\<lambda>(strength, p). strength = Max (set (map fst (?related n)))) (?related n)))] gs"
    by (auto simp: small_step_def st Let_def split: option.splits dest!: find_in)
  let ?best = "filter (\<lambda>(strength, p). strength = Max (set (map fst (?related n)))) (?related n)"
  have "Max (set (map fst (?related n))) \<in> set (map fst (?related n))" using n(2) by (intro Max_in) auto
  then have "?best \<noteq> []" by (auto simp: filter_empty_conv)
  then have "hd ?best \<in> set (?related n)" using hd_in_set[of ?best] by auto
  then have "snd (hd ?best) < length gs \<and> snd (hd ?best) \<noteq> n" by (auto simp: related_groups_def)
  with n(1) st' show ?thesis unfolding st using merges_pair[of n gs "snd (hd ?best)" cx ds "snd st'"] by (metis prod.collapse)
qed

lemma same_symbol_merges: "same_symbol_step cx st = Some st' \<Longrightarrow> merges cx st st'"
  by (cases st) (auto simp: same_symbol_step_def index_pairs_def split: option.splits prod.splits dest!: find_in intro!: merges_pair)

interpretation mutual: shrinking_loop "mutual_step cx" "sound_state cx" group_count for cx
  by unfold_locales (use mutual_merges merges_sound in blast)+

interpretation small: shrinking_loop "small_step cx" "sound_state cx" group_count for cx
  by unfold_locales (use small_merges merges_sound in blast)+

interpretation same_symbol: shrinking_loop "same_symbol_step cx" "sound_state cx" group_count for cx
  by unfold_locales (use same_symbol_merges merges_sound in blast)+

text \<open>What a loop of merging steps keeps.\<close>

lemma repeat_step_keeps:
  assumes "\<And>s s'. P s \<Longrightarrow> step s = Some s' \<Longrightarrow> P s'" "repeat_step fuel step s = Some s'" "P s"
  shows "P s'"
  using assms(2,3) by (induction fuel arbitrary: s) (auto split: option.splits dest: assms(1))

text \<open>A pass: it ends, keeps the partition and never splits a group.\<close>

definition coarsens :: "synth_ctx \<Rightarrow> group_state \<Rightarrow> group_state \<Rightarrow> bool" where
  "coarsens cx st st' \<longleftrightarrow> sound_state cx st' \<and> (\<forall>u v. same_group (fst st) u v \<longrightarrow> same_group (fst st') u v)"

lemma coarsens_trans: "coarsens cx st st' \<Longrightarrow> coarsens cx st' st'' \<Longrightarrow> coarsens cx st st''"
  by (auto simp: coarsens_def)

lemma merging_loop:
  assumes "sound_state cx st" "repeat_step fuel step st = Some st'" "\<And>s s'. sound_state cx s \<Longrightarrow> step s = Some s' \<Longrightarrow> merges cx s s'"
  shows "coarsens cx st st'"
proof -
  let ?P = "\<lambda>s. sound_state cx s \<and> (\<forall>u v. same_group (fst st) u v \<longrightarrow> same_group (fst s) u v)"
  have "?P st'"
    using assms(1,2,3) by (intro repeat_step_keeps[of ?P step fuel st st']) (blast dest: merges_sound merges_same_group)+
  then show ?thesis by (simp add: coarsens_def)
qed

lemma merge_mutual_ends:
  assumes "sound_state cx st"
  shows "\<exists>st'. merge_mutual cx st = Some st' \<and> coarsens cx st st' \<and> acyclic (set (waiting_pairs cx (fst st')))"
proof -
  from mutual.loop_ends[OF assms, of "length (fst st)"] obtain st' where st': "merge_mutual cx st = Some st'" "sound_state cx st'" "mutual_step cx st' = None"
    by (auto simp: merge_mutual_def group_count_def)
  then have "components (map hd (fst st')) (adjacency (waiting_pairs cx (fst st'))) = []"
    by (cases st') (auto simp: mutual_step_def Let_def split: list.splits)
  then have "acyclic (set (waiting_pairs cx (fst st')))"
    using components_Nil_acyclic[OF waiting_pairs_keys(1)] st'(2) by (simp add: sound_state_def)
  with st' merging_loop[OF assms _ mutual_merges] show ?thesis by (auto simp: merge_mutual_def)
qed

lemma merge_small_ends: "sound_state cx st \<Longrightarrow> \<exists>st'. merge_small cx st = Some st' \<and> coarsens cx st st'"
proof -
  assume ok: "sound_state cx st"
  from small.loop_ends[OF this, of "length (fst st)"] obtain gs ds where "repeat_step (length (fst st)) (small_step cx) st = Some (gs, ds)"
    by (auto simp: group_count_def)
  with merging_loop[OF ok this small_merges] show ?thesis by (auto simp: merge_small_def coarsens_def sound_state_def)
qed

lemma index_pairs_in: "a < b \<Longrightarrow> b < n \<Longrightarrow> (a, b) \<in> set (index_pairs n)"
  by (force simp: index_pairs_def)

lemma find_None: "find P xs = None \<longleftrightarrow> (\<forall>x\<in>set xs. \<not> P x)"
  by (induction xs) auto

text \<open>A unit changes a function of another unit.\<close>

definition shares_symbol :: "synth_ctx \<Rightarrow> string \<Rightarrow> string \<Rightarrow> bool" where
  "shares_symbol cx u v \<longleftrightarrow> set (logic_symbols cx [u]) \<inter> set (logic_symbols cx [v]) \<noteq> {}"

lemma logic_symbols_member: "u \<in> set g \<Longrightarrow> set (logic_symbols cx [u]) \<subseteq> set (logic_symbols cx g)"
  by (auto simp: logic_symbols_def)

lemma merge_same_symbol_ends:
  assumes "sound_state cx st"
  shows "\<exists>st'. merge_same_symbol cx st = Some st' \<and> coarsens cx st st'
    \<and> (\<not> off cx ''p3'' \<longrightarrow> (\<forall>u\<in>set (unit_ids cx). \<forall>v\<in>set (unit_ids cx). shares_symbol cx u v \<longrightarrow> same_group (fst st') u v))"
proof (cases "off cx ''p3''")
  case True
  with assms show ?thesis by (cases st) (auto simp: merge_same_symbol_def coarsens_def sound_state_def)
next
  case False
  from same_symbol.loop_ends[OF assms, of "length (fst st)"] obtain st' where st': "repeat_step (length (fst st)) (same_symbol_step cx) st = Some st'"
      "sound_state cx st'" "same_symbol_step cx st' = None"
    by (auto simp: group_count_def)
  let ?gs = "fst st'"
  have none: "same_symbols cx ?gs (a, b) = []" if "a < b" "b < length ?gs" for a b
    using st'(3) index_pairs_in[OF that] by (cases st') (auto simp: same_symbol_step_def find_None split: option.splits prod.splits)
  have "same_group ?gs u v" if "u \<in> set (unit_ids cx)" "v \<in> set (unit_ids cx)" "shares_symbol cx u v" for u v
  proof -
    have "set (concat ?gs) = set (unit_ids cx)" using groups_distinct st'(2) by (simp add: sound_state_def)
    with that obtain a b where a: "a < length ?gs" "u \<in> set (?gs ! a)" and b: "b < length ?gs" "v \<in> set (?gs ! b)"
      by (metis in_set_conv_nth set_concat UN_E)
    have "same_symbols cx ?gs (a, b) \<noteq> []" "same_symbols cx ?gs (b, a) \<noteq> []"
      using that(3) logic_symbols_member[OF a(2), of cx] logic_symbols_member[OF b(2), of cx]
      by (auto simp: same_symbols_def shares_symbol_def filter_empty_conv)
    with none[of a b] none[of b a] a b have "a = b" by (metis linorder_neqE_nat)
    with a b show ?thesis by (auto simp: same_group_def)
  qed
  with False st'(1) merging_loop[OF assms st'(1) same_symbol_merges] show ?thesis by (auto simp: merge_same_symbol_def)
qed

lemma together_step_ends:
  assumes "sound_state cx st" "set (tg_units t) \<subseteq> set (unit_ids cx)"
  shows "coarsens cx st (together_step cx t st)
    \<and> (\<not> off cx ''p1'' \<longrightarrow> (\<forall>u\<in>set (tg_units t). \<forall>v\<in>set (tg_units t). same_group (fst (together_step cx t st)) u v))"
proof (cases "off cx ''p1''")
  case True
  with assms(1) show ?thesis by (cases st) (simp add: together_step_def coarsens_def sound_state_def)
next
  case False
  obtain gs ds where st: "st = (gs, ds)" by (cases st)
  let ?ns = "py_unique (concat (map (\<lambda>i. case group_of gs i of None \<Rightarrow> [] | Some n \<Rightarrow> [n]) (tg_units t)))"
  have in_range: "set ?ns \<subseteq> {..<length gs}" by (auto split: option.splits dest: group_of_Some[OF sym])
  have known: "\<exists>n\<in>set ?ns. u \<in> set (gs ! n)" if "u \<in> set (tg_units t)" for u
  proof -
    have "u \<in> set (concat gs)" using that assms groups_distinct by (auto simp: sound_state_def st)
    then obtain n where n: "group_of gs u = Some n" using group_of_None[of gs u] by (cases "group_of gs u") auto
    with that have "n \<in> set ?ns" by (auto intro!: bexI[of _ u])
    with group_of_Some[OF n] show ?thesis by blast
  qed
  show ?thesis
  proof (cases "length ?ns > 1")
    case True
    then have step: "together_step cx t st = (merge_groups cx ?ns gs, ds @ [decide ''P1'' ''together'' (merged_members cx ?ns gs) []])"
      using False by (simp add: together_step_def st Let_def)
    have "merges cx st (together_step cx t st)"
      unfolding merges_def step using in_range True st by (intro exI[of _ ?ns]) simp
    with assms(1) have "coarsens cx st (together_step cx t st)"
      using merges_sound[OF assms(1)] merges_same_group by (auto simp: coarsens_def)
    moreover have "same_group (merge_groups cx ?ns gs) u v" if "u \<in> set (tg_units t)" "v \<in> set (tg_units t)" for u v
      using known[OF that(1)] known[OF that(2)] merge_same_group_new by blast
    ultimately show ?thesis by (simp add: step)
  next
    case small: False
    then have step: "together_step cx t st = st" using False by (simp add: together_step_def st Let_def)
    have one: "m = n" if "m \<in> set ?ns" "n \<in> set ?ns" for m n
      using small that by (metis One_nat_def Suc_lessI card_length card_le_Suc0_iff_eq distinct_card distinct_py_unique finite_set less_one not_less)
    have "same_group gs u v" if "u \<in> set (tg_units t)" "v \<in> set (tg_units t)" for u v
    proof -
      from known[OF that(1)] known[OF that(2)] one obtain n where n: "n \<in> set ?ns" "u \<in> set (gs ! n)" "v \<in> set (gs ! n)" by metis
      then have "gs ! n \<in> set gs" using in_range by (metis lessThan_iff nth_mem subsetD)
      with n show ?thesis by (auto simp: same_group_def)
    qed
    with assms(1) show ?thesis unfolding step by (simp add: st coarsens_def)
  qed
qed

lemma merge_together_ends:
  assumes "sound_state cx st" "\<forall>t\<in>set ts. set (tg_units t) \<subseteq> set (unit_ids cx)"
  shows "coarsens cx st (fold (together_step cx) ts st)
    \<and> (\<not> off cx ''p1'' \<longrightarrow> (\<forall>t\<in>set ts. \<forall>u\<in>set (tg_units t). \<forall>v\<in>set (tg_units t). same_group (fst (fold (together_step cx) ts st)) u v))"
  using assms
proof (induction ts arbitrary: st)
  case Nil
  then show ?case by (simp add: coarsens_def)
next
  case (Cons t ts)
  have first: "coarsens cx st (together_step cx t st)
      \<and> (\<not> off cx ''p1'' \<longrightarrow> (\<forall>u\<in>set (tg_units t). \<forall>v\<in>set (tg_units t). same_group (fst (together_step cx t st)) u v))"
    using Cons.prems by (intro together_step_ends) auto
  moreover have rest: "coarsens cx (together_step cx t st) (fold (together_step cx) ts (together_step cx t st))
      \<and> (\<not> off cx ''p1'' \<longrightarrow> (\<forall>t'\<in>set ts. \<forall>u\<in>set (tg_units t'). \<forall>v\<in>set (tg_units t').
            same_group (fst (fold (together_step cx) ts (together_step cx t st))) u v))"
    using Cons.prems first by (intro Cons.IH) (auto simp: coarsens_def)
  ultimately show ?case using coarsens_trans[of cx st "together_step cx t st"] by (auto simp: coarsens_def)
qed

lemma singletons_ok:
  assumes "distinct (map u_id (f_units (cx_facts cx)))"
  shows "sound_state cx (map (\<lambda>u. [u_id u]) (f_units (cx_facts cx)), ds)"
proof -
  have "concat (map (\<lambda>u. [u_id u]) us) = map u_id us" for us by (induction us) auto
  with assms show ?thesis by (auto simp: sound_state_def groups_ok_def unit_ids_def)
qed

text \<open>The groups a successful run of the five passes leaves.\<close>

lemma form_groups_result:
  assumes "distinct (unit_ids cx)" "\<forall>t\<in>set (f_together (cx_facts cx)). set (tg_units t) \<subseteq> set (unit_ids cx)"
  shows "\<exists>gs ds'. form_groups cx ds = Some (gs, ds') \<and> groups_ok cx gs \<and> acyclic (set (waiting_pairs cx gs))
    \<and> (\<not> off cx ''p1'' \<longrightarrow> (\<forall>t\<in>set (f_together (cx_facts cx)). \<forall>u\<in>set (tg_units t). \<forall>v\<in>set (tg_units t). same_group gs u v))
    \<and> (\<not> off cx ''p3'' \<longrightarrow> (\<forall>u\<in>set (unit_ids cx). \<forall>v\<in>set (unit_ids cx). shares_symbol cx u v \<longrightarrow> same_group gs u v))"
proof -
  let ?st0 = "(map (\<lambda>u. [u_id u]) (f_units (cx_facts cx)), ds)"
  have "sound_state cx ?st0" using assms(1) by (simp add: singletons_ok unit_ids_def)
  from merge_mutual_ends[OF this] obtain st1 where st1: "merge_mutual cx ?st0 = Some st1" "coarsens cx ?st0 st1" by blast
  let ?st2 = "merge_together cx st1"
  have st2: "coarsens cx st1 ?st2" "\<not> off cx ''p1'' \<longrightarrow> (\<forall>t\<in>set (f_together (cx_facts cx)). \<forall>u\<in>set (tg_units t). \<forall>v\<in>set (tg_units t). same_group (fst ?st2) u v)"
    using merge_together_ends[of cx st1 "f_together (cx_facts cx)"] assms(2) st1(2) by (auto simp: merge_together_def coarsens_def)
  from merge_small_ends[of cx ?st2] st2(1) obtain st3 where st3: "merge_small cx ?st2 = Some st3" "coarsens cx ?st2 st3" by (auto simp: coarsens_def)
  from merge_same_symbol_ends[of cx st3] st3(2) obtain st4 where st4: "merge_same_symbol cx st3 = Some st4" "coarsens cx st3 st4"
      "\<not> off cx ''p3'' \<longrightarrow> (\<forall>u\<in>set (unit_ids cx). \<forall>v\<in>set (unit_ids cx). shares_symbol cx u v \<longrightarrow> same_group (fst st4) u v)"
    by (auto simp: coarsens_def)
  from merge_mutual_ends[of cx st4] st4(2) obtain st5 where st5: "merge_mutual cx st4 = Some st5" "coarsens cx st4 st5"
      "acyclic (set (waiting_pairs cx (fst st5)))" by (auto simp: coarsens_def)
  have "form_groups cx ds = Some st5" using st1(1) st3(1) st4(1) st5(1) by (simp add: form_groups_def)
  moreover have later: "coarsens cx ?st2 st5" using st3(2) st4(2) st5(2) coarsens_trans by blast
  ultimately show ?thesis
    using st2(2) st4(3) st5 by (intro exI[of _ "fst st5"] exI[of _ "snd st5"]) (auto simp: coarsens_def sound_state_def)
qed

text \<open>C6: For facts that pass the checks, deciding which units form one node ends. Every unit is then in exactly one group and no group is empty. Units
  the facts list together are in one group (unless p1 is off), and so are units that change the same function (unless p3 is off). No groups wait
  for each other in a cycle: following the uses that need the real result (all uses if p2 is off) from group to group never returns.\<close>

theorem form_groups_partition:
  assumes "facts_ok f items idx" and "cx = init_ctx f idx checks tests ablated"
  shows "\<exists>gs ds'. form_groups cx ds = Some (gs, ds')
    \<and> mset (concat gs) = mset (map u_id (f_units f)) \<and> [] \<notin> set gs
    \<and> (''p1'' \<notin> ablated \<longrightarrow> (\<forall>t\<in>set (f_together f). \<forall>u\<in>set (tg_units t). \<forall>v\<in>set (tg_units t). \<exists>g\<in>set gs. u \<in> set g \<and> v \<in> set g))
    \<and> (''p3'' \<notin> ablated \<longrightarrow> (\<forall>g\<in>set gs. \<forall>h\<in>set gs. g \<noteq> h \<longrightarrow> set (logic_symbols cx g) \<inter> set (logic_symbols cx h) = {}))
    \<and> acyclic (set (waiting_pairs cx gs))"
proof -
  have facts: "cx_facts cx = f" "unit_ids cx = map u_id (f_units f)" "off cx p \<longleftrightarrow> p \<in> ablated" for p
    using assms(2) by (simp_all add: init_ctx_def unit_ids_def off_def Let_def)
  have "distinct (unit_ids cx)" "\<forall>t\<in>set (f_together (cx_facts cx)). set (tg_units t) \<subseteq> set (unit_ids cx)"
    using assms(1) by (simp_all add: facts facts_ok_def)
  from form_groups_result[OF this, of ds] obtain gs ds' where
    r: "form_groups cx ds = Some (gs, ds')" "groups_ok cx gs" "acyclic (set (waiting_pairs cx gs))"
      "''p1'' \<notin> ablated \<longrightarrow> (\<forall>t\<in>set (f_together f). \<forall>u\<in>set (tg_units t). \<forall>v\<in>set (tg_units t). same_group gs u v)"
      "''p3'' \<notin> ablated \<longrightarrow> (\<forall>u\<in>set (unit_ids cx). \<forall>v\<in>set (unit_ids cx). shares_symbol cx u v \<longrightarrow> same_group gs u v)"
    unfolding facts by blast
  have "g = h" if "g \<in> set gs" "h \<in> set gs" "s \<in> set (logic_symbols cx g)" "s \<in> set (logic_symbols cx h)" "''p3'' \<notin> ablated" for g h s
  proof -
    from that(3,4) obtain u v where uv: "u \<in> set g" "s \<in> set (logic_symbols cx [u])" "v \<in> set h" "s \<in> set (logic_symbols cx [v])"
      by (auto simp: logic_symbols_def)
    moreover from this that(1,2) have "u \<in> set (unit_ids cx)" "v \<in> set (unit_ids cx)" using groups_distinct[OF r(2)] by auto
    ultimately have "same_group gs u v" using r(5) that(5) by (auto simp: shares_symbol_def)
    then obtain k where "k \<in> set gs" "u \<in> set k" "v \<in> set k" by (auto simp: same_group_def)
    then show ?thesis using uv that(1,2) groups_distinct[OF r(2)] concat_member_unique by metis
  qed
  then show ?thesis using r by (intro exI[of _ gs] exI[of _ ds']) (auto simp: groups_ok_def facts same_group_def)
qed

end
