(* ===== verification/Synth_Inv.thy ===== *)
theory Synth_Inv
  imports Synth_Buckets Synth_Groups_Props
begin

text \<open>
  The invariant of the synthesis: what the facts guarantee about the units (\<open>ctx_ok\<close>), what holds of the buckets at every moment
  (\<open>work_ok\<close>), that it gives every invariant the program checks, and that every move of the program keeps it.
\<close>

section \<open>What the facts guarantee\<close>

definition known_units :: "synth_ctx \<Rightarrow> fact_unit list" where
  "known_units cx = map snd (cx_units cx)"

definition ctx_ok :: "synth_ctx \<Rightarrow> bool" where
  "ctx_ok cx \<longleftrightarrow>
     map fst (cx_units cx) = unit_ids cx \<and> map u_id (known_units cx) = unit_ids cx \<and> distinct (unit_ids cx)
     \<and> PRE \<notin> set (unit_ids cx) \<and> REG \<notin> set (unit_ids cx)
     \<and> (\<forall>u\<in>set (known_units cx). unit_edits_ok (cx_index cx) u \<and> unit_provides_ok u \<and> (\<forall>p\<in>set (u_create u). \<not> has_file (cx_index cx) p))
     \<and> distinct (concat (map u_create (known_units cx)))
     \<and> (\<forall>d\<in>set (cx_deps cx). \<exists>u\<in>set (known_units cx). ud_symbol d \<in> set (u_provides u))"

lemma ctx_ok_units:
  assumes "ctx_ok cx" "u \<in> set (known_units cx)"
  shows "unit_of cx (u_id u) = u" "u_id u \<in> set (unit_ids cx)" "unit_edits_ok (cx_index cx) u" "unit_provides_ok u"
proof -
  have dist: "distinct (map fst (cx_units cx))" and keys: "map fst (cx_units cx) = map (\<lambda>kv. u_id (snd kv)) (cx_units cx)"
    using assms(1) by (simp_all add: ctx_ok_def known_units_def comp_def)
  from assms(2) obtain i where i: "(i, u) \<in> set (cx_units cx)" by (auto simp: known_units_def)
  from keys have "\<forall>kv\<in>set (cx_units cx). fst kv = u_id (snd kv)" by simp
  with i have "i = u_id u" by auto
  with i dist have "map_of (cx_units cx) (u_id u) = Some u" by (intro map_of_is_SomeI) auto
  then show "unit_of cx (u_id u) = u" by (simp add: unit_of_def)
  have "set (map u_id (known_units cx)) = set (unit_ids cx)" using assms(1) by (simp only: ctx_ok_def)
  with assms(2) show "u_id u \<in> set (unit_ids cx)" by auto
  show "unit_edits_ok (cx_index cx) u" "unit_provides_ok u" using assms by (simp_all add: ctx_ok_def)
qed

lemma ctx_ok_unit_of:
  assumes "ctx_ok cx" "i \<in> set (unit_ids cx)"
  shows "unit_of cx i \<in> set (known_units cx)" "u_id (unit_of cx i) = i"
proof -
  have "set (map u_id (known_units cx)) = set (unit_ids cx)" using assms(1) by (simp only: ctx_ok_def)
  with assms(2) obtain u where "u \<in> set (known_units cx)" "i = u_id u" by auto
  with ctx_ok_units(1)[OF assms(1)] show "unit_of cx i \<in> set (known_units cx)" "u_id (unit_of cx i) = i" by simp_all
qed

text \<open>A symbol whose file exists or is new in the facts.\<close>

definition located :: "synth_ctx \<Rightarrow> string \<Rightarrow> bool" where
  "located cx sy \<longleftrightarrow> has_file (cx_index cx) (sym_path sy) \<or> (\<exists>u\<in>set (known_units cx). sym_path sy \<in> set (u_create u))"

lemma provided_located: "ctx_ok cx \<Longrightarrow> u \<in> set (known_units cx) \<Longrightarrow> sy \<in> set (u_provides u) \<Longrightarrow> located cx sy"
  using ctx_ok_units(3,4)[of cx u] unfolding located_def unit_provides_ok_def unit_edits_ok_def by metis

lemma edit_symbol_located: "ctx_ok cx \<Longrightarrow> u \<in> set (known_units cx) \<Longrightarrow> e \<in> set (u_edits u) \<Longrightarrow> sy \<in> set (fe_symbols e) \<Longrightarrow> located cx sy"
  using ctx_ok_units(3)[of cx u] by (auto simp: located_def unit_edits_ok_def)

lemma target_located:
  assumes "ctx_ok cx" "i \<in> set (unit_ids cx)" "target_of cx i name = Some sy"
  shows "located cx sy"
proof -
  have u: "unit_of cx i \<in> set (known_units cx)" using ctx_ok_unit_of(1)[OF assms(1,2)] .
  from find_in[OF assms(3)[unfolded target_of_def Let_def]] have "sy \<in> set (u_provides (unit_of cx i) @ logic_symbols cx [i])" by simp
  then show ?thesis using provided_located[OF assms(1) u] edit_symbol_located[OF assms(1) u] by (auto simp: logic_symbols_def)
qed

section \<open>The invariant\<close>

definition all_placed :: "synth_ctx \<Rightarrow> placed list" where
  "all_placed cx = concat (map (\<lambda>u. map (\<lambda>e. \<lparr>pl_unit = u_id u, pl_edit = e\<rparr>) (u_edits u)) (known_units cx))"

text \<open>A unit's part of a bucket still has the file of a symbol it provides.\<close>

definition supported :: "bucket \<Rightarrow> string \<Rightarrow> string \<Rightarrow> bool" where
  "supported b i sy \<longleftrightarrow> (\<exists>p\<in>set (bk_edits b). pl_unit p = i \<and> fe_file (pl_edit p) = sym_path sy) \<or> sym_path sy \<in> set (bk_create b) \<union> set (bk_fill b)"

definition group_shape :: "string list list \<Rightarrow> synth \<Rightarrow> bool" where
  "group_shape gs s \<longleftrightarrow> map bk_units (buckets s) = gs \<and> map bk_key (buckets s) = map hd gs \<and> bk_key (pre_bucket s) = PRE \<and> bk_key (reg_bucket s) = REG
     \<and> bk_units (pre_bucket s) = [] \<and> bk_units (reg_bucket s) = [] \<and> bk_create (reg_bucket s) = []"

definition edits_kept :: "synth_ctx \<Rightarrow> synth \<Rightarrow> bool" where
  "edits_kept cx s \<longleftrightarrow> mset (concat (map bk_edits (all_buckets s))) = mset (all_placed cx)
     \<and> (\<forall>b\<in>set (buckets s). \<forall>p\<in>set (bk_edits b). pl_unit p \<in> set (bk_units b))"

definition creates_kept :: "synth_ctx \<Rightarrow> synth \<Rightarrow> bool" where
  "creates_kept cx s \<longleftrightarrow> mset (concat (map bk_create (all_buckets s))) = mset (concat (map u_create (known_units cx)))
     \<and> (\<forall>b\<in>set (all_buckets s). set (bk_fill b) \<subseteq> set (bk_create (pre_bucket s)))"

definition provides_kept :: "synth_ctx \<Rightarrow> synth \<Rightarrow> bool" where
  "provides_kept cx s \<longleftrightarrow> (\<forall>b\<in>set (all_buckets s). \<forall>sy\<in>set (bk_provides b). sym_path sy \<in> set (bk_files b))
     \<and> (\<forall>u\<in>set (known_units cx). \<forall>sy\<in>set (u_provides u). sy \<in> set (bk_provides (pre_bucket s)) \<union> set (bk_provides (reg_bucket s))
          \<or> (\<exists>b\<in>set (buckets s). u_id u \<in> set (bk_units b) \<and> sy \<in> set (bk_provides b) \<and> supported b (u_id u) sy))"

definition work_ok :: "synth_ctx \<Rightarrow> string list list \<Rightarrow> synth \<Rightarrow> bool" where
  "work_ok cx gs s \<longleftrightarrow> group_shape gs s \<and> edits_kept cx s \<and> creates_kept cx s \<and> provides_kept cx s
     \<and> (\<forall>b\<in>set (buckets s). bk_files b \<noteq> []) \<and> (after_pre s \<noteq> [] \<or> interfaces s \<noteq> [] \<longrightarrow> bk_files (pre_bucket s) \<noteq> [])"

text \<open>During step 2 every symbol a group provides is still supported by one of its units.\<close>

definition all_supported :: "synth_ctx \<Rightarrow> synth \<Rightarrow> bool" where
  "all_supported cx s \<longleftrightarrow> (\<forall>b\<in>set (buckets s). \<forall>sy\<in>set (bk_provides b).
     \<exists>i\<in>set (bk_units b). sy \<in> set (u_provides (unit_of cx i)) \<and> supported b i sy)"

lemmas work_parts = group_shape_def edits_kept_def creates_kept_def provides_kept_def all_buckets_def

lemma work_ok_other_fields [simp]:
  "work_ok cx gs (record_decision d s) = work_ok cx gs s" "work_ok cx gs (s\<lparr>waits := ws\<rparr>) = work_ok cx gs s"
  "work_ok cx gs (s\<lparr>firsts := fs\<rparr>) = work_ok cx gs s" "work_ok cx gs (s\<lparr>before_reg := br\<rparr>) = work_ok cx gs s"
  "work_ok cx gs (s\<lparr>pre_registrations := pr\<rparr>) = work_ok cx gs s"
  "work_ok cx gs (s\<lparr>reg_registrations := rr\<rparr>) = work_ok cx gs s" "work_ok cx gs (s\<lparr>shared_edits := se\<rparr>) = work_ok cx gs s"
  "work_ok cx gs (s\<lparr>file_reasons := fr\<rparr>) = work_ok cx gs s" "work_ok cx gs (s\<lparr>parallel_files := pf\<rparr>) = work_ok cx gs s"
  by (simp_all add: work_ok_def work_parts record_decision_def)

lemma all_supported_other_fields [simp]:
  "all_supported cx (record_decision d s) = all_supported cx s" "all_supported cx (s\<lparr>waits := ws\<rparr>) = all_supported cx s"
  "all_supported cx (s\<lparr>firsts := fs\<rparr>) = all_supported cx s" "all_supported cx (s\<lparr>before_reg := br\<rparr>) = all_supported cx s"
  "all_supported cx (s\<lparr>interfaces := is'\<rparr>) = all_supported cx s" "all_supported cx (s\<lparr>pre_registrations := pr\<rparr>) = all_supported cx s"
  "all_supported cx (s\<lparr>reg_registrations := rr\<rparr>) = all_supported cx s" "all_supported cx (s\<lparr>after_pre := ap\<rparr>) = all_supported cx s"
  "all_supported cx (s\<lparr>file_reasons := fr\<rparr>) = all_supported cx s"
  by (simp_all add: all_supported_def record_decision_def)

section \<open>The invariant gives what the program checks\<close>

lemma count_list_one: "distinct xs \<Longrightarrow> x \<in> set xs \<Longrightarrow> count_list xs x = 1"
  by (induction xs) (auto simp: count_notin)

lemma count_list_mset: "mset xs = mset ys \<Longrightarrow> count_list xs x = count_list ys x"
  by (metis count_mset)

lemma one_owner: "distinct (concat (map f xs)) \<Longrightarrow> p \<in> set (concat (map f xs)) \<Longrightarrow> length (filter (\<lambda>x. p \<in> set (f x)) xs) = 1"
proof (induction xs)
  case (Cons x xs)
  show ?case
  proof (cases "p \<in> set (f x)")
    case True
    then have "filter (\<lambda>x. p \<in> set (f x)) xs = []" using Cons.prems(1) by (auto simp: filter_empty_conv)
    with True show ?thesis by simp
  next
    case False
    with Cons show ?thesis by simp
  qed
qed simp

lemma placements_distinct:
  assumes "ctx_ok cx"
  shows "distinct (map (\<lambda>p. (pl_unit p, fe_file (pl_edit p))) (all_placed cx))"
proof -
  have "distinct (concat (map (\<lambda>u. map (\<lambda>e. (u_id u, fe_file e)) (u_edits u)) us))"
    if "distinct (map u_id us)" "\<forall>u\<in>set us. distinct (u_edit_files u)" for us
    using that
  proof (induction us)
    case (Cons u us)
    have "distinct (map (\<lambda>e. (u_id u, fe_file e)) (u_edits u))"
      using Cons.prems(2) by (auto simp: u_edit_files_def distinct_map inj_on_def)
    with Cons show ?case by auto
  qed simp
  moreover have "map (\<lambda>p. (pl_unit p, fe_file (pl_edit p))) (all_placed cx) = concat (map (\<lambda>u. map (\<lambda>e. (u_id u, fe_file e)) (u_edits u)) (known_units cx))"
    by (simp add: all_placed_def map_concat comp_def)
  moreover have "distinct (map u_id (known_units cx))" "\<forall>u\<in>set (known_units cx). distinct (u_edit_files u)"
    using assms by (simp_all add: ctx_ok_def unit_edits_ok_def)
  ultimately show ?thesis by simp
qed

lemma unit_problems_none:
  assumes "ctx_ok cx" "edits_kept cx s" "creates_kept cx s" "u \<in> set (known_units cx)"
  shows "unit_problems s u = []"
proof -
  let ?at = "\<lambda>p. (pl_unit p, fe_file (pl_edit p))"
  let ?pl = "concat (map (\<lambda>b. map ?at (bk_edits b)) (all_buckets s))"
  have "?pl = map ?at (concat (map bk_edits (all_buckets s)))" by (simp add: map_concat comp_def)
  then have "mset ?pl = mset (map ?at (all_placed cx))" using assms(2) by (simp add: edits_kept_def)
  then have same: "count_list ?pl x = count_list (map ?at (all_placed cx)) x" for x by (rule count_list_mset)
  have once: "count_list ?pl (u_id u, fe_file e) = 1" if "e \<in> set (u_edits u)" for e
  proof -
    have "\<lparr>pl_unit = u_id u, pl_edit = e\<rparr> \<in> set (all_placed cx)" using that assms(4) by (auto simp: all_placed_def)
    then have "?at \<lparr>pl_unit = u_id u, pl_edit = e\<rparr> \<in> set (map ?at (all_placed cx))" unfolding set_map by (rule imageI)
    then show ?thesis using count_list_one[OF placements_distinct[OF assms(1)]] same by simp
  qed
  let ?cr = "concat (map bk_create (all_buckets s))"
  have cr: "mset ?cr = mset (concat (map u_create (known_units cx)))" using assms(3) by (simp add: creates_kept_def)
  have dist: "distinct ?cr" using mset_eq_imp_distinct_iff[OF cr] assms(1) by (simp add: ctx_ok_def)
  have created: "length (filter (\<lambda>b. p \<in> set (bk_create b)) (all_buckets s)) = 1" if "p \<in> set (u_create u)" for p
  proof -
    have "p \<in> set (concat (map u_create (known_units cx)))" using that assms(4) by auto
    then show ?thesis using one_owner[OF dist] mset_eq_setD[OF cr] by blast
  qed
  show ?thesis unfolding unit_problems_def Let_def by (auto simp: once created)
qed

theorem work_ok_no_problems:
  assumes "ctx_ok cx" "groups_ok cx gs" "work_ok cx gs s"
  shows "invariant_problems cx s = []"
proof -
  have gs: "concat (map bk_units (buckets s)) = concat gs" using assms(3) by (simp add: work_ok_def group_shape_def)
  have units: "fst kv \<in> set (unit_ids cx)" "snd kv \<in> set (known_units cx)" if "kv \<in> set (cx_units cx)" for kv
  proof -
    have "map fst (cx_units cx) = unit_ids cx" using assms(1) by (simp only: ctx_ok_def)
    then show "fst kv \<in> set (unit_ids cx)" using that by (metis image_eqI image_set)
    show "snd kv \<in> set (known_units cx)" using that by (simp add: known_units_def)
  qed
  have kept: "edits_kept cx s" "creates_kept cx s" "provides_kept cx s" using assms(3) by (simp_all add: work_ok_def)
  have one: "count_list (concat (map bk_units (buckets s))) i = 1" if "i \<in> set (unit_ids cx)" for i
    using groups_distinct[OF assms(2)] that count_list_one gs by metis
  have prov: "sy \<in> set (concat (map bk_provides (all_buckets s)))" if "u \<in> set (known_units cx)" "sy \<in> set (u_provides u)" for u sy
    using kept(3) that by (fastforce simp: provides_kept_def all_buckets_def)
  have b: "bucket_problems s b = []" if "b \<in> set (all_buckets s)" for b
    using kept(2,3) that unfolding bucket_problems_def append_is_Nil_conv concat_map_Nil reported creates_kept_def provides_kept_def by blast
  have ne: "\<not> bk_is_empty b" if "b \<in> set (buckets s)" for b using assms(3) that by (simp add: work_ok_def bk_is_empty_def)
  show ?thesis
    unfolding invariant_problems_def Let_def append_is_Nil_conv concat_map_Nil split_beta reported
    using one units unit_problems_none[OF assms(1) kept(1,2)] b prov ne by simp blast
qed

section \<open>The first buckets\<close>

lemma set_bk_files: "set (bk_files b) = (\<lambda>p. fe_file (pl_edit p)) ` set (bk_edits b) \<union> set (bk_touch b) \<union> set (bk_fill b) \<union> set (bk_create b)"
  by (auto simp: bk_files_def bk_edit_files_def)

lemma bk_files_Nil: "bk_files b = [] \<longleftrightarrow> set (bk_files b) = {}"
  by simp

lemma map_unit_of_ids:
  assumes "ctx_ok cx"
  shows "map (unit_of cx) (unit_ids cx) = known_units cx"
proof -
  have ids: "unit_ids cx = map u_id (known_units cx)" using assms by (simp add: ctx_ok_def)
  show ?thesis unfolding ids map_map comp_def using ctx_ok_units(1)[OF assms] by (simp add: map_idI)
qed

text \<open>Collecting something of the units group by group gives the same elements as collecting it unit by unit.\<close>

lemma mset_by_groups:
  assumes "ctx_ok cx" "groups_ok cx gs"
  shows "mset (concat (map (\<lambda>g. concat (map (\<lambda>i. f (unit_of cx i)) g)) gs)) = mset (concat (map f (known_units cx)))"
proof -
  have "concat (map (\<lambda>g. concat (map (\<lambda>i. f (unit_of cx i)) g)) gs) = concat (map (\<lambda>i. f (unit_of cx i)) (concat gs))"
    by (induction gs) auto
  moreover have "mset (concat (map (\<lambda>i. f (unit_of cx i)) (concat gs))) = mset (concat (map (\<lambda>i. f (unit_of cx i)) (unit_ids cx)))"
    using assms(2) by (intro concat_perm) (simp add: groups_ok_def)
  moreover have "map (\<lambda>i. f (unit_of cx i)) (unit_ids cx) = map f (known_units cx)"
    using arg_cong[OF map_unit_of_ids[OF assms(1)], of "map f"] by (simp add: comp_def)
  ultimately show ?thesis by simp
qed

lemma group_members:
  assumes "ctx_ok cx" "groups_ok cx gs" "g \<in> set gs" "i \<in> set g"
  shows "unit_of cx i \<in> set (known_units cx)" "u_id (unit_of cx i) = i"
proof -
  have "i \<in> set (unit_ids cx)" using groups_distinct[OF assms(2)] assms(3,4) by auto
  from ctx_ok_unit_of[OF assms(1) this] show "unit_of cx i \<in> set (known_units cx)" "u_id (unit_of cx i) = i" .
qed

lemma group_bucket_simps [simp]:
  "bk_key (group_bucket cx g) = hd g" "bk_units (group_bucket cx g) = g" "bk_fill (group_bucket cx g) = []" "bk_touch (group_bucket cx g) = []"
  "bk_edits (group_bucket cx g) = concat (map (\<lambda>i. map (\<lambda>e. \<lparr>pl_unit = u_id (unit_of cx i), pl_edit = e\<rparr>) (u_edits (unit_of cx i))) g)"
  "bk_create (group_bucket cx g) = py_unique (concat (map (\<lambda>i. u_create (unit_of cx i)) g))"
  "bk_provides (group_bucket cx g) = py_unique (concat (map (\<lambda>i. u_provides (unit_of cx i)) g))"
  by (simp_all add: group_bucket_def empty_bucket_def Let_def comp_def)

lemma empty_bucket_simps [simp]:
  "bk_key (empty_bucket k us knd) = k" "bk_units (empty_bucket k us knd) = us" "bk_edits (empty_bucket k us knd) = []"
  "bk_touch (empty_bucket k us knd) = []" "bk_create (empty_bucket k us knd) = []" "bk_fill (empty_bucket k us knd) = []"
  "bk_provides (empty_bucket k us knd) = []"
  by (simp_all add: empty_bucket_def)

lemma make_buckets_simps [simp]:
  "buckets (make_buckets cx gs ds) = map (group_bucket cx) gs" "pre_bucket (make_buckets cx gs ds) = empty_bucket PRE [] Contract"
  "reg_bucket (make_buckets cx gs ds) = empty_bucket REG [] Implement" "after_pre (make_buckets cx gs ds) = []"
  "interfaces (make_buckets cx gs ds) = []"
  by (simp_all add: make_buckets_def)

lemma group_creates_distinct:
  assumes "ctx_ok cx" "groups_ok cx gs" "g \<in> set gs"
  shows "distinct (concat (map (\<lambda>i. u_create (unit_of cx i)) g))"
proof -
  have "distinct (concat (map (\<lambda>g. concat (map (\<lambda>i. u_create (unit_of cx i)) g)) gs))"
    using mset_eq_imp_distinct_iff[OF mset_by_groups[OF assms(1,2), of u_create]] assms(1) by (simp add: ctx_ok_def)
  moreover have "distinct (concat xss) \<Longrightarrow> xs \<in> set xss \<Longrightarrow> distinct xs" for xs :: "string list" and xss by (induction xss) auto
  ultimately show ?thesis using assms(3) by (metis (no_types, lifting) image_eqI image_set)
qed

lemma group_bucket_supports:
  assumes "ctx_ok cx" "groups_ok cx gs" "g \<in> set gs" "i \<in> set g" "sy \<in> set (u_provides (unit_of cx i))"
  shows "supported (group_bucket cx g) i sy"
proof -
  note m = group_members[OF assms(1-4)]
  have "unit_provides_ok (unit_of cx i)" using ctx_ok_units(4)[OF assms(1) m(1)] .
  with assms(5) consider e where "e \<in> set (u_edits (unit_of cx i))" "fe_file e = sym_path sy" | "sym_path sy \<in> set (u_create (unit_of cx i))"
    unfolding unit_provides_ok_def by blast
  then show ?thesis
  proof cases
    case 1
    then have "\<lparr>pl_unit = i, pl_edit = e\<rparr> \<in> set (bk_edits (group_bucket cx g))" using assms(4) m(2) by force
    with 1 show ?thesis unfolding supported_def by (intro disjI1 bexI[of _ "\<lparr>pl_unit = i, pl_edit = e\<rparr>"]) simp_all
  next
    case 2
    with assms(4) show ?thesis by (auto simp: supported_def)
  qed
qed

lemma supported_file: "supported b i sy \<Longrightarrow> sym_path sy \<in> set (bk_files b)"
  unfolding supported_def set_bk_files by (metis UnCI UnE image_eqI)

lemma group_bucket_nonempty:
  assumes "ctx_ok cx" "groups_ok cx gs" "g \<in> set gs"
  shows "bk_files (group_bucket cx g) \<noteq> []"
proof -
  obtain i where i: "i \<in> set g" using assms(2,3) by (cases g) (auto simp: groups_ok_def)
  have "u_edits (unit_of cx i) \<noteq> [] \<or> u_create (unit_of cx i) \<noteq> []"
    using ctx_ok_units(3)[OF assms(1) group_members(1)[OF assms i]] by (simp add: unit_edits_ok_def)
  with i show ?thesis unfolding bk_files_Nil set_bk_files by (auto simp: neq_Nil_conv)
qed

theorem make_buckets_ok:
  assumes "ctx_ok cx" "groups_ok cx gs"
  shows "work_ok cx gs (make_buckets cx gs ds)" "all_supported cx (make_buckets cx gs ds)"
proof -
  let ?s = "make_buckets cx gs ds"
  have "group_shape gs ?s" by (simp add: group_shape_def map_idI)
  moreover have "edits_kept cx ?s"
  proof -
    have "mset (concat (map bk_edits (all_buckets ?s))) = mset (all_placed cx)"
      using mset_by_groups[OF assms, of "\<lambda>u. map (\<lambda>e. \<lparr>pl_unit = u_id u, pl_edit = e\<rparr>) (u_edits u)"]
      by (simp add: all_buckets_def all_placed_def comp_def)
    then show ?thesis using group_members(2)[OF assms] by (auto simp: edits_kept_def)
  qed
  moreover have "creates_kept cx ?s"
  proof -
    have "map (\<lambda>g. py_unique (concat (map (\<lambda>i. u_create (unit_of cx i)) g))) gs = map (\<lambda>g. concat (map (\<lambda>i. u_create (unit_of cx i)) g)) gs"
      using group_creates_distinct[OF assms] by (simp add: py_unique_id)
    then have "concat (map bk_create (all_buckets ?s)) = concat (map (\<lambda>g. concat (map (\<lambda>i. u_create (unit_of cx i)) g)) gs)"
      unfolding all_buckets_def by (simp only: make_buckets_simps list.map map_append map_map comp_def group_bucket_simps empty_bucket_simps) simp
    then show ?thesis using mset_by_groups[OF assms, of u_create] by (simp add: creates_kept_def all_buckets_def)
  qed
  moreover have "provides_kept cx ?s"
  proof -
    have "sym_path sy \<in> set (bk_files b)" if "b \<in> set (buckets ?s)" "sy \<in> set (bk_provides b)" for b sy
      using that supported_file[OF group_bucket_supports[OF assms]] by auto
    moreover have "\<exists>b\<in>set (buckets ?s). u_id u \<in> set (bk_units b) \<and> sy \<in> set (bk_provides b) \<and> supported b (u_id u) sy"
      if u: "u \<in> set (known_units cx)" "sy \<in> set (u_provides u)" for u sy
    proof -
      have "u_id u \<in> set (concat gs)" using groups_distinct[OF assms(2)] ctx_ok_units(2)[OF assms(1) u(1)] by simp
      then obtain g where g: "g \<in> set gs" "u_id u \<in> set g" by auto
      moreover have "sy \<in> set (u_provides (unit_of cx (u_id u)))" using ctx_ok_units(1)[OF assms(1) u(1)] u(2) by simp
      ultimately show ?thesis using group_bucket_supports[OF assms g] by (intro bexI[of _ "group_bucket cx g"]) auto
    qed
    ultimately show ?thesis by (auto simp: provides_kept_def all_buckets_def)
  qed
  ultimately show "work_ok cx gs ?s" using group_bucket_nonempty[OF assms] by (simp add: work_ok_def)
  show "all_supported cx ?s" using group_bucket_supports[OF assms] by (auto simp: all_supported_def)
qed

end
