(* ===== verification/Synth_Moves.thy ===== *)
theory Synth_Moves
  imports Synth_Inv
begin

text \<open>
  Every move of the synthesis keeps the invariant: an edit that goes from a group into PRE or REG with the names it provides
  (\<open>relocate_ok\<close>), an interface that goes into PRE (\<open>add_interface_ok\<close>), and the steps made of them.
\<close>

section \<open>Moving an edit\<close>

lemma mset_concat_update:
  "n < length xs \<Longrightarrow> mset (concat (map f (xs[n := y]))) + mset (f (xs ! n)) = mset (concat (map f xs)) + mset (f y)"
  by (induction xs arbitrary: n) (auto simp: nth_Cons ac_simps split: nat.splits)

text \<open>A bucket without one edit, and without the provided symbols that \<open>gone\<close> picks.\<close>

definition lighter :: "placed \<Rightarrow> (string \<Rightarrow> bool) \<Rightarrow> bucket \<Rightarrow> bucket" where
  "lighter p gone b = b\<lparr>bk_edits := remove1 p (bk_edits b), bk_provides := filter (\<lambda>sy. \<not> gone sy) (bk_provides b)\<rparr>"

definition heavier :: "placed \<Rightarrow> string list \<Rightarrow> bucket \<Rightarrow> bucket" where
  "heavier p names b = b\<lparr>bk_edits := bk_edits b @ [p], bk_provides := py_unique (bk_provides b @ names),
     bk_contributors := py_unique (bk_contributors b @ [pl_unit p])\<rparr>"

lemma lighter_simps [simp]:
  "bk_key (lighter p gone b) = bk_key b" "bk_units (lighter p gone b) = bk_units b" "bk_edits (lighter p gone b) = remove1 p (bk_edits b)"
  "bk_touch (lighter p gone b) = bk_touch b" "bk_create (lighter p gone b) = bk_create b" "bk_fill (lighter p gone b) = bk_fill b"
  "bk_provides (lighter p gone b) = filter (\<lambda>sy. \<not> gone sy) (bk_provides b)"
  by (simp_all add: lighter_def)

lemma heavier_simps [simp]:
  "bk_key (heavier p names b) = bk_key b" "bk_units (heavier p names b) = bk_units b" "bk_edits (heavier p names b) = bk_edits b @ [p]"
  "bk_touch (heavier p names b) = bk_touch b" "bk_create (heavier p names b) = bk_create b" "bk_fill (heavier p names b) = bk_fill b"
  "bk_provides (heavier p names b) = py_unique (bk_provides b @ names)"
  by (simp_all add: heavier_def)

definition relocate :: "nat \<Rightarrow> bref \<Rightarrow> placed \<Rightarrow> string list \<Rightarrow> (string \<Rightarrow> bool) \<Rightarrow> synth \<Rightarrow> synth" where
  "relocate n t p names gone s = change_at t (heavier p names) (change_at (Group_b n) (lighter p gone) s)"

lemma change_at_other [simp]:
  "t = Pre_b \<or> t = Reg_b \<Longrightarrow> buckets (change_at t f s) = buckets s"
  "after_pre (change_at r f s) = after_pre s" "interfaces (change_at r f s) = interfaces s"
  by (cases t; auto) (cases r; simp)+

lemma relocate_simps:
  assumes "t = Pre_b \<or> t = Reg_b"
  shows "buckets (relocate n t p names gone s) = (buckets s)[n := lighter p gone (buckets s ! n)]"
    "pre_bucket (relocate n t p names gone s) = (if t = Pre_b then heavier p names (pre_bucket s) else pre_bucket s)"
    "reg_bucket (relocate n t p names gone s) = (if t = Reg_b then heavier p names (reg_bucket s) else reg_bucket s)"
    "after_pre (relocate n t p names gone s) = after_pre s" "interfaces (relocate n t p names gone s) = interfaces s"
  using assms by (auto simp: relocate_def)

lemmas in_remove1 = subsetD[OF set_remove1_subset]

lemma cancel_move: "X + add_mset p R = Y + R \<Longrightarrow> add_mset p X = Y" for X :: "'a multiset"
  by simp

lemma heavier_files: "set (bk_files (heavier p names b)) = insert (fe_file (pl_edit p)) (set (bk_files b))"
  by (auto simp: set_bk_files)

lemma heavier_nonempty [simp]: "bk_files (heavier p names b) \<noteq> []"
  by (metis bk_files_Nil heavier_files insert_not_empty)

lemma lighter_files: "set (bk_files (lighter p gone b)) \<subseteq> set (bk_files b)"
  by (auto simp: set_bk_files dest: in_remove1)

lemma update_cases: "x \<in> set (xs[n := y]) \<Longrightarrow> x = y \<or> x \<in> set xs"
  by (meson insertE set_update_subset_insert subsetD)

lemma map_update_same: "f y = f (xs ! n) \<Longrightarrow> map f (xs[n := y]) = map f xs"
  by (metis list_update_id map_update)


lemma relocate_edits:
  assumes "edits_kept cx s" "n < length (buckets s)" "p \<in> set (bk_edits (buckets s ! n))" "t = Pre_b \<or> t = Reg_b"
  shows "edits_kept cx (relocate n t p names gone s)"
proof -
  let ?b = "buckets s ! n" and ?s' = "relocate n t p names gone s"
  have "mset (concat (map bk_edits (buckets ?s'))) + mset (bk_edits ?b) = mset (concat (map bk_edits (buckets s))) + mset (remove1 p (bk_edits ?b))"
    using mset_concat_update[OF assms(2), of bk_edits "lighter p gone ?b"] by (simp add: relocate_simps[OF assms(4)])
  moreover have "mset (bk_edits ?b) = add_mset p (mset (remove1 p (bk_edits ?b)))" using assms(3) by simp
  ultimately have "add_mset p (mset (concat (map bk_edits (buckets ?s')))) = mset (concat (map bk_edits (buckets s)))" by (metis cancel_move)
  then have "mset (concat (map bk_edits (all_buckets ?s'))) = mset (concat (map bk_edits (all_buckets s)))"
    using assms(4) by (auto simp: all_buckets_def relocate_simps[OF assms(4)])
  moreover have "pl_unit q \<in> set (bk_units c)" if "c \<in> set (buckets ?s')" "q \<in> set (bk_edits c)" for c q
  proof -
    have "c = lighter p gone ?b \<or> c \<in> set (buckets s)" using that(1) by (simp add: relocate_simps[OF assms(4)] update_cases)
    moreover have "\<forall>q\<in>set (bk_edits ?b). pl_unit q \<in> set (bk_units ?b)" using assms(1,2) by (simp add: edits_kept_def)
    ultimately show ?thesis using assms(1) that(2) by (auto simp: edits_kept_def dest: in_remove1)
  qed
  ultimately show ?thesis using assms(1) by (simp add: edits_kept_def)
qed

lemma relocate_creates:
  assumes "creates_kept cx s" "n < length (buckets s)" "t = Pre_b \<or> t = Reg_b"
  shows "creates_kept cx (relocate n t p names gone s)"
proof -
  have "map bk_create (buckets (relocate n t p names gone s)) = map bk_create (buckets s)"
    by (simp add: relocate_simps[OF assms(3)] map_update_same)
  then have "map bk_create (all_buckets (relocate n t p names gone s)) = map bk_create (all_buckets s)"
    by (simp add: all_buckets_def relocate_simps[OF assms(3)])
  moreover have "bk_create (pre_bucket (relocate n t p names gone s)) = bk_create (pre_bucket s)" by (simp add: relocate_simps[OF assms(3)])
  moreover have "\<exists>c\<in>set (all_buckets s). bk_fill b = bk_fill c" if "b \<in> set (all_buckets (relocate n t p names gone s))" for b
    using that assms(2) by (auto simp: all_buckets_def relocate_simps[OF assms(3)] split: if_splits dest!: update_cases)
  ultimately show ?thesis using assms(1) unfolding creates_kept_def by metis
qed

lemma relocate_shape:
  assumes "group_shape gs s" "t = Pre_b \<or> t = Reg_b"
  shows "group_shape gs (relocate n t p names gone s)"
  using assms(1) by (simp add: group_shape_def relocate_simps[OF assms(2)] map_update_same)

text \<open>The move keeps the invariant if what the group still provides stays in its files, and what it no longer provides is provided by the target.\<close>

lemma relocate_ok:
  assumes ok: "work_ok cx gs s" and n: "n < length (buckets s)" and p: "p \<in> set (bk_edits (buckets s ! n))" and t: "t = Pre_b \<or> t = Reg_b"
    and names: "\<forall>sy\<in>set names. sym_path sy = fe_file (pl_edit p)"
    and kept: "\<And>sy. sy \<in> set (bk_provides (buckets s ! n)) \<Longrightarrow> \<not> gone sy \<Longrightarrow> sym_path sy \<in> set (bk_files (lighter p gone (buckets s ! n)))"
    and lost: "\<And>u sy. u \<in> set (known_units cx) \<Longrightarrow> u_id u \<in> set (bk_units (buckets s ! n)) \<Longrightarrow> sy \<in> set (u_provides u) \<Longrightarrow>
        sy \<in> set (bk_provides (buckets s ! n)) \<Longrightarrow> supported (buckets s ! n) (u_id u) sy \<Longrightarrow>
        sy \<in> set names \<or> \<not> gone sy \<and> supported (lighter p gone (buckets s ! n)) (u_id u) sy"
    and nonempty: "bk_files (lighter p gone (buckets s ! n)) \<noteq> []"
  shows "work_ok cx gs (relocate n t p names gone s)"
proof -
  let ?b = "buckets s ! n" and ?s' = "relocate n t p names gone s"
  note r = relocate_simps[OF t, of n p names gone s]
  have parts: "group_shape gs s" "edits_kept cx s" "creates_kept cx s" "provides_kept cx s" using ok by (simp_all add: work_ok_def)
  have new: "lighter p gone ?b \<in> set (buckets ?s')" using n by (simp add: r set_update_memI)
  have files: "sym_path sy \<in> set (bk_files b)" if b: "b \<in> set (all_buckets ?s')" and sy: "sy \<in> set (bk_provides b)" for b sy
  proof -
    have "b = lighter p gone ?b \<or> b \<in> set (all_buckets s) \<or> (\<exists>c\<in>set (all_buckets s). b = heavier p names c)"
      using b by (auto simp: all_buckets_def r split: if_splits dest!: update_cases)
    with sy show ?thesis using kept names parts(4) by (auto simp: provides_kept_def heavier_files)
  qed
  have provided: "sy \<in> set (bk_provides (pre_bucket ?s')) \<union> set (bk_provides (reg_bucket ?s'))
      \<or> (\<exists>b\<in>set (buckets ?s'). u_id u \<in> set (bk_units b) \<and> sy \<in> set (bk_provides b) \<and> supported b (u_id u) sy)"
    if u: "u \<in> set (known_units cx)" "sy \<in> set (u_provides u)" for u sy
  proof -
    from parts(4) u consider "sy \<in> set (bk_provides (pre_bucket s)) \<union> set (bk_provides (reg_bucket s))"
      | c where "c \<in> set (buckets s)" "u_id u \<in> set (bk_units c)" "sy \<in> set (bk_provides c)" "supported c (u_id u) sy"
      unfolding provides_kept_def by blast
    then show ?thesis
    proof cases
      case 1
      then show ?thesis by (auto simp: r)
    next
      case (2 c)
      then obtain m where m: "m < length (buckets s)" "buckets s ! m = c" by (auto simp: in_set_conv_nth)
      show ?thesis
      proof (cases "m = n")
        case True
        with 2 m have "sy \<in> set names \<or> \<not> gone sy \<and> supported (lighter p gone ?b) (u_id u) sy" using lost[of u sy] u by auto
        with 2 m True new t show ?thesis by (auto simp: r)
      next
        case False
        then have "c \<in> set (buckets ?s')" using m n by (metis length_list_update nth_list_update_neq nth_mem r(1))
        with 2 show ?thesis by blast
      qed
    qed
  qed
  have ne: "bk_files b \<noteq> []" if "b \<in> set (buckets ?s')" for b
    using that nonempty ok by (auto simp: r work_ok_def dest!: update_cases)
  have "after_pre ?s' \<noteq> [] \<or> interfaces ?s' \<noteq> [] \<Longrightarrow> bk_files (pre_bucket ?s') \<noteq> []"
    using ok by (auto simp: r work_ok_def)
  with files provided ne show ?thesis
    using relocate_shape[OF parts(1) t] relocate_edits[OF parts(2) n p t] relocate_creates[OF parts(3) n t]
    by (auto simp: work_ok_def provides_kept_def)
qed

section \<open>Adding an interface\<close>

text \<open>PRE grows: it keeps its edits and new files, and everything it provides is in its files.\<close>

lemma pre_grows_ok:
  assumes "work_ok cx gs s" and b: "b' = f (pre_bucket s)" and "bk_key b' = bk_key (pre_bucket s)" "bk_units b' = bk_units (pre_bucket s)"
    and "bk_edits b' = bk_edits (pre_bucket s)" "bk_create b' = bk_create (pre_bucket s)" "bk_fill b' = bk_fill (pre_bucket s)"
    and "set (bk_provides (pre_bucket s)) \<subseteq> set (bk_provides b')" "\<forall>sy\<in>set (bk_provides b'). sym_path sy \<in> set (bk_files b')"
    and "set (bk_files (pre_bucket s)) \<subseteq> set (bk_files b')"
  shows "work_ok cx gs (change_at Pre_b f s)"
proof -
  let ?s' = "change_at Pre_b f s"
  have parts: "group_shape gs s" "edits_kept cx s" "creates_kept cx s" "provides_kept cx s" using assms(1) by (simp_all add: work_ok_def)
  have "group_shape gs ?s'" "edits_kept cx ?s'" "creates_kept cx ?s'"
    using parts(1-3) assms(3-7) by (simp_all add: work_parts b)
  moreover have "provides_kept cx ?s'"
    using parts(4) assms(8,9) unfolding provides_kept_def b by (simp add: all_buckets_def) blast
  moreover have "bk_files (pre_bucket s) \<noteq> [] \<Longrightarrow> bk_files b' \<noteq> []" using assms(10) by auto
  ultimately show ?thesis using assms(1) by (auto simp: work_ok_def b)
qed

text \<open>A group's new file that PRE creates and the group fills in.\<close>

definition fills :: "string \<Rightarrow> bucket \<Rightarrow> bucket" where
  "fills p b = b\<lparr>bk_create := remove1 p (bk_create b), bk_fill := bk_fill b @ [p]\<rparr>"

definition creates_too :: "string \<Rightarrow> bucket \<Rightarrow> bucket" where
  "creates_too p b = b\<lparr>bk_create := bk_create b @ [p]\<rparr>"

definition first_created :: "nat \<Rightarrow> string \<Rightarrow> synth \<Rightarrow> synth" where
  "first_created n p s = s\<lparr>buckets := (buckets s)[n := fills p (buckets s ! n)], pre_bucket := creates_too p (pre_bucket s)\<rparr>"

lemma fills_simps [simp]:
  "bk_key (fills p b) = bk_key b" "bk_units (fills p b) = bk_units b" "bk_edits (fills p b) = bk_edits b" "bk_touch (fills p b) = bk_touch b"
  "bk_create (fills p b) = remove1 p (bk_create b)" "bk_fill (fills p b) = bk_fill b @ [p]" "bk_provides (fills p b) = bk_provides b"
  by (simp_all add: fills_def)

lemma creates_too_simps [simp]:
  "bk_key (creates_too p b) = bk_key b" "bk_units (creates_too p b) = bk_units b" "bk_edits (creates_too p b) = bk_edits b"
  "bk_touch (creates_too p b) = bk_touch b" "bk_create (creates_too p b) = bk_create b @ [p]" "bk_fill (creates_too p b) = bk_fill b"
  "bk_provides (creates_too p b) = bk_provides b" "set (bk_files (creates_too p b)) = insert p (set (bk_files b))" "bk_files (creates_too p b) \<noteq> []"
proof -
  show "set (bk_files (creates_too p b)) = insert p (set (bk_files b))" by (auto simp: set_bk_files creates_too_def)
  then show "bk_files (creates_too p b) \<noteq> []" by (metis insert_not_empty set_empty)
qed (simp_all add: creates_too_def)

lemma first_created_simps [simp]:
  "buckets (first_created n p s) = (buckets s)[n := fills p (buckets s ! n)]" "pre_bucket (first_created n p s) = creates_too p (pre_bucket s)"
  "reg_bucket (first_created n p s) = reg_bucket s" "after_pre (first_created n p s) = after_pre s" "interfaces (first_created n p s) = interfaces s"
  by (simp_all add: first_created_def)

lemma fills_same:
  assumes "p \<in> set (bk_create b)"
  shows "set (bk_files (fills p b)) = set (bk_files b)" "supported (fills p b) i sy \<longleftrightarrow> supported b i sy"
proof -
  have all: "set (bk_create (fills p b)) \<union> set (bk_fill (fills p b)) = set (bk_create b) \<union> set (bk_fill b)"
    using assms by (auto dest: in_remove1)
  then show "set (bk_files (fills p b)) = set (bk_files b)" by (auto simp: set_bk_files)
  show "supported (fills p b) i sy \<longleftrightarrow> supported b i sy" using all unfolding supported_def by simp
qed

lemma first_created_creates:
  assumes "creates_kept cx s" "n < length (buckets s)" "p \<in> set (bk_create (buckets s ! n))"
  shows "creates_kept cx (first_created n p s)"
proof -
  let ?b = "buckets s ! n" and ?s' = "first_created n p s"
  have "mset (concat (map bk_create (buckets ?s'))) + mset (bk_create ?b) = mset (concat (map bk_create (buckets s))) + mset (remove1 p (bk_create ?b))"
    using mset_concat_update[OF assms(2), of bk_create "fills p ?b"] by simp
  moreover have "mset (bk_create ?b) = add_mset p (mset (remove1 p (bk_create ?b)))" using assms(3) by simp
  ultimately have "add_mset p (mset (concat (map bk_create (buckets ?s')))) = mset (concat (map bk_create (buckets s)))" by (metis cancel_move)
  then have "mset (bk_create (pre_bucket s)) + add_mset p (mset (concat (map bk_create (buckets ?s')))) + mset (bk_create (reg_bucket s))
      = mset (concat (map bk_create (all_buckets s)))" by (simp add: all_buckets_def)
  then have "mset (concat (map bk_create (all_buckets ?s'))) = mset (concat (map bk_create (all_buckets s)))" by (simp add: all_buckets_def)
  moreover have "set (bk_fill ?b) \<subseteq> set (bk_create (pre_bucket s))" using assms(1) nth_mem[OF assms(2)] by (simp add: creates_kept_def all_buckets_def)
  then have "set (bk_fill c) \<subseteq> set (bk_create (pre_bucket ?s'))" if "c \<in> set (all_buckets ?s')" for c
    using that assms(1) by (auto simp: creates_kept_def all_buckets_def dest!: update_cases)
  ultimately show ?thesis using assms(1) by (simp add: creates_kept_def)
qed

lemma first_created_provides:
  assumes "provides_kept cx s" "n < length (buckets s)" "p \<in> set (bk_create (buckets s ! n))"
  shows "provides_kept cx (first_created n p s)"
proof -
  let ?b = "buckets s ! n" and ?s' = "first_created n p s"
  note same = fills_same[OF assms(3)]
  have "sym_path sy \<in> set (bk_files c)" if "c \<in> set (all_buckets ?s')" "sy \<in> set (bk_provides c)" for c sy
  proof -
    have "c = fills p ?b \<or> c = creates_too p (pre_bucket s) \<or> c \<in> set (all_buckets s)"
      using that(1) by (auto simp: all_buckets_def dest!: update_cases)
    then show ?thesis using that(2) assms(1,2) same(1) by (auto simp: provides_kept_def all_buckets_def)
  qed
  moreover have "\<exists>c'\<in>set (buckets ?s'). bk_units c' = bk_units c \<and> bk_provides c' = bk_provides c \<and> (\<forall>i sy. supported c' i sy = supported c i sy)"
    if c: "c \<in> set (buckets s)" for c
  proof -
    from c obtain m where m: "m < length (buckets s)" "buckets s ! m = c" by (auto simp: in_set_conv_nth)
    show ?thesis
    proof (cases "m = n")
      case True
      then show ?thesis using m same(2) set_update_memI[OF assms(2), of "fills p ?b"] by (intro bexI[of _ "fills p ?b"]) auto
    next
      case False
      then have "c \<in> set (buckets ?s')" using m nth_mem[of m "buckets ?s'"] by simp
      then show ?thesis by blast
    qed
  qed
  ultimately show ?thesis using assms(1) unfolding provides_kept_def by (simp add: all_buckets_def) metis
qed

lemma move_create_ok:
  assumes "work_ok cx gs s" "n < length (buckets s)" "p \<in> set (bk_create (buckets s ! n))"
  shows "move_create (Group_b n) Pre_b p s = Inr (first_created n p s)" "work_ok cx gs (first_created n p s)"
    "all_supported cx s \<Longrightarrow> all_supported cx (first_created n p s)"
proof -
  let ?s' = "first_created n p s"
  show "move_create (Group_b n) Pre_b p s = Inr ?s'"
    using assms(2,3) by (simp add: move_create_def list_remove_def and_then_def first_created_def fills_def creates_too_def)
  have parts: "group_shape gs s" "edits_kept cx s" "creates_kept cx s" "provides_kept cx s" using assms(1) by (simp_all add: work_ok_def)
  have "group_shape gs ?s'" using parts(1) by (simp add: group_shape_def map_update_same)
  moreover have "edits_kept cx ?s'"
    using parts(2) assms(2) by (auto simp: edits_kept_def all_buckets_def map_update_same dest!: update_cases)
  moreover have "bk_files c \<noteq> []" if "c \<in> set (buckets ?s')" for c
  proof -
    have "bk_files (fills p (buckets s ! n)) \<noteq> []"
      using assms(1) nth_mem[OF assms(2)] fills_same(1)[OF assms(3)] unfolding work_ok_def by (metis set_empty)
    with that assms(1) show ?thesis by (auto simp: work_ok_def dest!: update_cases)
  qed
  ultimately show "work_ok cx gs ?s'"
    using first_created_creates[OF parts(3) assms(2,3)] first_created_provides[OF parts(4) assms(2,3)] by (simp add: work_ok_def)
  show "all_supported cx ?s'" if "all_supported cx s"
    using that assms(2) fills_same(2)[OF assms(3)] by (auto simp: all_supported_def dest!: update_cases)
qed

text \<open>What the steps before the placing of registrations keep: the invariants and the edits of the groups.\<close>

definition steady :: "synth_ctx \<Rightarrow> string list list \<Rightarrow> synth \<Rightarrow> synth \<Rightarrow> bool" where
  "steady cx gs s s' \<longleftrightarrow> work_ok cx gs s' \<and> (all_supported cx s \<longrightarrow> all_supported cx s') \<and> map bk_edits (buckets s') = map bk_edits (buckets s)"

lemma steady_refl: "work_ok cx gs s \<Longrightarrow> steady cx gs s s"
  by (simp add: steady_def)

lemma steady_trans: "steady cx gs s s' \<Longrightarrow> steady cx gs s' s'' \<Longrightarrow> steady cx gs s s''"
  by (simp add: steady_def)

definition interface_file :: "synth_ctx \<Rightarrow> string \<Rightarrow> synth \<Rightarrow> synth_exn + synth" where
  "interface_file cx p s =
     (if \<not> has_file (cx_index cx) p
      then (case find (\<lambda>r. p \<in> set (bk_create (bucket_at s r))) (all_refs s) of None \<Rightarrow> Inr s | Some r \<Rightarrow> if r = Pre_b then Inr s else move_create r Pre_b p s)
      else Inr (if p \<in> set (bk_touch (pre_bucket s)) then s else change_at Pre_b (\<lambda>b. b\<lparr>bk_touch := bk_touch b @ [p]\<rparr>) s))"

lemma creator_found:
  assumes "ctx_ok cx" "work_ok cx gs s" "located cx sy" "\<not> has_file (cx_index cx) (sym_path sy)"
  obtains r where "find (\<lambda>r. sym_path sy \<in> set (bk_create (bucket_at s r))) (all_refs s) = Some r" "sym_path sy \<in> set (bk_create (bucket_at s r))"
    "r = Pre_b \<or> (\<exists>n<length (buckets s). r = Group_b n)"
proof -
  let ?P = "\<lambda>r. sym_path sy \<in> set (bk_create (bucket_at s r))"
  have "sym_path sy \<in> set (concat (map u_create (known_units cx)))" using assms(3,4) by (auto simp: located_def)
  then have "sym_path sy \<in> set (concat (map bk_create (all_buckets s)))"
    using assms(2) mset_eq_setD unfolding work_ok_def creates_kept_def by blast
  then have "\<exists>r\<in>set (all_refs s). ?P r" by (auto simp: all_buckets_def all_refs_def group_refs_def in_set_conv_nth)
  then obtain r where r: "find ?P (all_refs s) = Some r" by (cases "find ?P (all_refs s)") (auto simp: find_None)
  moreover from find_in[OF r] assms(2) have "?P r" "r = Pre_b \<or> (\<exists>n<length (buckets s). r = Group_b n)"
    by (auto simp: all_refs_def group_refs_def work_ok_def group_shape_def)
  ultimately show ?thesis using that by blast
qed

lemma interface_file_ok:
  assumes "ctx_ok cx" "work_ok cx gs s" "located cx sy"
  shows "\<exists>s'. interface_file cx (sym_path sy) s = Inr s' \<and> steady cx gs s s' \<and> sym_path sy \<in> set (bk_files (pre_bucket s'))"
proof (cases "has_file (cx_index cx) (sym_path sy)")
  case True
  let ?touch = "\<lambda>b. b\<lparr>bk_touch := bk_touch b @ [sym_path sy]\<rparr>"
  have "work_ok cx gs (change_at Pre_b ?touch s)"
  proof (rule pre_grows_ok[OF assms(2) refl])
    show "\<forall>sy'\<in>set (bk_provides (?touch (pre_bucket s))). sym_path sy' \<in> set (bk_files (?touch (pre_bucket s)))"
      using assms(2) by (auto simp: work_ok_def provides_kept_def all_buckets_def set_bk_files)
  qed (auto simp: set_bk_files)
  then have "steady cx gs s (change_at Pre_b ?touch s)" by (simp add: steady_def all_supported_def)
  moreover have "sym_path sy \<in> set (bk_files (pre_bucket (change_at Pre_b ?touch s)))" by (simp add: set_bk_files)
  ultimately show ?thesis using True steady_refl[OF assms(2)] by (auto simp: interface_file_def set_bk_files)
next
  case False
  from creator_found[OF assms False] obtain r where r: "find (\<lambda>r. sym_path sy \<in> set (bk_create (bucket_at s r))) (all_refs s) = Some r"
      "sym_path sy \<in> set (bk_create (bucket_at s r))" "r = Pre_b \<or> (\<exists>n<length (buckets s). r = Group_b n)" .
  from r(3) show ?thesis
  proof
    assume "r = Pre_b"
    with r False steady_refl[OF assms(2)] show ?thesis by (auto simp: interface_file_def set_bk_files)
  next
    assume "\<exists>n<length (buckets s). r = Group_b n"
    then obtain n where n: "n < length (buckets s)" "r = Group_b n" by blast
    with r(2) have c: "sym_path sy \<in> set (bk_create (buckets s ! n))" by simp
    have "interface_file cx (sym_path sy) s = Inr (first_created n (sym_path sy) s)"
      using False r(1) n move_create_ok(1)[OF assms(2) n(1) c] by (simp add: interface_file_def)
    moreover have "steady cx gs s (first_created n (sym_path sy) s)"
      using move_create_ok(2,3)[OF assms(2) n(1) c] by (simp add: steady_def map_update_same)
    ultimately show ?thesis by simp
  qed
qed

lemma add_interface_cases:
  "add_interface cx sy users registered_as s = (case map_of (interfaces s) sy of
     Some item \<Rightarrow> Inr (s\<lparr>interfaces := dict_set sy (item\<lparr>if_users := py_unique (if_users item @ users),
         if_registered_as := (case registered_as of None \<Rightarrow> if_registered_as item | Some r \<Rightarrow> py_unique (if_registered_as item @ [r]))\<rparr>) (interfaces s),
         after_pre := after_pre s @ users\<rparr>)
   | None \<Rightarrow> and_then (interface_file cx (sym_path sy) s) (\<lambda>s'.
       let provs = dict_get (cx_providers cx) sy []; keys = py_unique (map (bucket_of s) provs);
           s'' = change_at Pre_b (\<lambda>b. b\<lparr>bk_provides := py_unique (bk_provides b @ [sy]), bk_contributors := py_unique (bk_contributors b @ provs)\<rparr>) s'
       in Inr (s''\<lparr>interfaces := dict_set sy \<lparr>if_symbol = sy, if_path = sym_path sy, if_new_file = (\<not> has_file (cx_index cx) (sym_path sy)),
                 if_providers = keys, if_users = users, if_registered_as = (case registered_as of None \<Rightarrow> [] | Some r \<Rightarrow> [r])\<rparr> (interfaces s''),
               after_pre := after_pre s'' @ keys @ users\<rparr>)))"
  by (simp add: add_interface_def interface_file_def Let_def split: option.splits)

lemma parts_pre_fields [simp]:
  "group_shape gs (s\<lparr>interfaces := is'\<rparr>) = group_shape gs s" "group_shape gs (s\<lparr>after_pre := ap\<rparr>) = group_shape gs s"
  "edits_kept cx (s\<lparr>interfaces := is'\<rparr>) = edits_kept cx s" "edits_kept cx (s\<lparr>after_pre := ap\<rparr>) = edits_kept cx s"
  "creates_kept cx (s\<lparr>interfaces := is'\<rparr>) = creates_kept cx s" "creates_kept cx (s\<lparr>after_pre := ap\<rparr>) = creates_kept cx s"
  "provides_kept cx (s\<lparr>interfaces := is'\<rparr>) = provides_kept cx s" "provides_kept cx (s\<lparr>after_pre := ap\<rparr>) = provides_kept cx s"
  by (simp_all add: work_parts)

lemma steady_pre_fields:
  assumes "work_ok cx gs s" "bk_files (pre_bucket s) \<noteq> []"
  shows "steady cx gs s (s\<lparr>interfaces := is', after_pre := ap\<rparr>)" "steady cx gs s (s\<lparr>after_pre := ap\<rparr>)"
  using assms by (simp_all add: steady_def work_ok_def)

lemma add_interface_ok:
  assumes "ctx_ok cx" "work_ok cx gs s" "located cx sy"
  shows "\<exists>s'. add_interface cx sy users registered_as s = Inr s' \<and> steady cx gs s s' \<and> bk_files (pre_bucket s') \<noteq> []"
proof (cases "map_of (interfaces s) sy")
  case (Some item)
  then have "bk_files (pre_bucket s) \<noteq> []" using assms(2) by (auto simp: work_ok_def)
  with Some steady_pre_fields(1)[OF assms(2) this] show ?thesis by (simp add: add_interface_cases)
next
  case None
  obtain s1 where s1: "interface_file cx (sym_path sy) s = Inr s1" "steady cx gs s s1" "sym_path sy \<in> set (bk_files (pre_bucket s1))"
    using interface_file_ok[OF assms] by blast
  let ?provs = "dict_get (cx_providers cx) sy []"
  let ?gain = "\<lambda>b. b\<lparr>bk_provides := py_unique (bk_provides b @ [sy]), bk_contributors := py_unique (bk_contributors b @ ?provs)\<rparr>"
  let ?s2 = "change_at Pre_b ?gain s1"
  have ok1: "work_ok cx gs s1" using s1(2) by (simp add: steady_def)
  have files: "set (bk_files (?gain (pre_bucket s1))) = set (bk_files (pre_bucket s1))" by (simp add: set_bk_files)
  have "work_ok cx gs ?s2"
  proof (rule pre_grows_ok[OF ok1 refl])
    show "\<forall>sy'\<in>set (bk_provides (?gain (pre_bucket s1))). sym_path sy' \<in> set (bk_files (?gain (pre_bucket s1)))"
      unfolding files using ok1 s1(3) by (auto simp: work_ok_def provides_kept_def all_buckets_def)
  qed (auto simp: set_bk_files)
  then have s2: "steady cx gs s ?s2" using s1(2) by (auto simp: steady_def all_supported_def)
  have ne: "bk_files (pre_bucket ?s2) \<noteq> []" using s1(3) files by (auto simp flip: set_empty)
  show ?thesis using None s1(1) steady_trans[OF s2 steady_pre_fields(1)[OF _ ne]] s2 ne
    by (simp add: add_interface_cases and_then_def Let_def steady_def)
qed

section \<open>Notes do not matter\<close>

definition core :: "bucket \<Rightarrow> bucket" where
  "core b = b\<lparr>bk_notes := [], bk_contributors := [], bk_shared := []\<rparr>"

lemma core_simps [simp]:
  "bk_key (core b) = bk_key b" "bk_units (core b) = bk_units b" "bk_edits (core b) = bk_edits b" "bk_touch (core b) = bk_touch b"
  "bk_create (core b) = bk_create b" "bk_fill (core b) = bk_fill b" "bk_provides (core b) = bk_provides b" "bk_files (core b) = bk_files b"
  "supported (core b) i sy = supported b i sy"
  by (simp_all add: core_def bk_files_def bk_edit_files_def supported_def)

definition plain :: "synth \<Rightarrow> synth" where
  "plain s = s\<lparr>buckets := map core (buckets s), pre_bucket := core (pre_bucket s), reg_bucket := core (reg_bucket s)\<rparr>"

lemma work_ok_plain: "work_ok cx gs (plain s) = work_ok cx gs s" "all_supported cx (plain s) = all_supported cx s"
  by (simp_all add: work_ok_def all_supported_def work_parts plain_def comp_def)

lemma plain_cong:
  assumes "map core (buckets s) = map core (buckets s')" "core (pre_bucket s) = core (pre_bucket s')" "core (reg_bucket s) = core (reg_bucket s')"
    and "after_pre s = after_pre s'" "interfaces s = interfaces s'"
  shows "work_ok cx gs s = work_ok cx gs s'" "all_supported cx s = all_supported cx s'"
proof -
  have "work_ok cx gs (plain s) = work_ok cx gs (plain s')" "all_supported cx (plain s) = all_supported cx (plain s')"
    using assms by (simp_all add: work_ok_def all_supported_def work_parts plain_def)
  then show "work_ok cx gs s = work_ok cx gs s'" "all_supported cx s = all_supported cx s'" by (simp_all add: work_ok_plain)
qed

lemma change_at_core:
  assumes "\<And>b. core (f b) = core b"
  shows "work_ok cx gs (change_at r f s) = work_ok cx gs s" "all_supported cx (change_at r f s) = all_supported cx s"
    "map bk_edits (buckets (change_at r f s)) = map bk_edits (buckets s)"
proof -
  have core: "map core (buckets (change_at r f s)) = map core (buckets s)" by (cases r) (simp_all add: map_update_same assms)
  show "work_ok cx gs (change_at r f s) = work_ok cx gs s" "all_supported cx (change_at r f s) = all_supported cx s"
    by (rule plain_cong; cases r; simp add: map_update_same assms)+
  have "map bk_edits (map core (buckets (change_at r f s))) = map bk_edits (map core (buckets s))" unfolding core ..
  then show "map bk_edits (buckets (change_at r f s)) = map bk_edits (buckets s)" by (simp add: comp_def)
qed

lemma add_note_core [simp]:
  "work_ok cx gs (add_note r note s) = work_ok cx gs s" "all_supported cx (add_note r note s) = all_supported cx s"
  "map bk_edits (buckets (add_note r note s)) = map bk_edits (buckets s)"
  unfolding add_note_def by (rule change_at_core; simp add: core_def)+

section \<open>Registrations\<close>

lemma placed_known:
  assumes "edits_kept cx s" "b \<in> set (all_buckets s)" "p \<in> set (bk_edits b)"
  obtains u where "u \<in> set (known_units cx)" "pl_unit p = u_id u" "pl_edit p \<in> set (u_edits u)" "p \<in> set (all_placed cx)"
proof -
  have "p \<in> set (concat (map bk_edits (all_buckets s)))" using assms(2,3) by auto
  then have "p \<in> set (all_placed cx)" using assms(1) mset_eq_setD unfolding edits_kept_def by blast
  with that show ?thesis by (auto simp: all_placed_def)
qed

lemma lighter_supported:
  assumes "supported b i sy" "\<And>q. q \<in> set (bk_edits b) \<Longrightarrow> q = p \<Longrightarrow> pl_unit q = i \<Longrightarrow> fe_file (pl_edit q) = sym_path sy \<Longrightarrow> False"
  shows "supported (lighter p gone b) i sy"
  using assms by (auto simp: supported_def) (metis in_set_remove1)+

text \<open>What a unit provides in a file it only registers names in, it registers there.\<close>

lemma registered_provides:
  assumes "ctx_ok cx" "u \<in> set (known_units cx)" "e \<in> set (u_edits u)" "fe_kind e = Registration" "sy \<in> set (u_provides u)" "sym_path sy = fe_file e"
  shows "sy \<in> set (fe_symbols e)"
proof -
  have u: "unit_edits_ok (cx_index cx) u" "unit_provides_ok u" using ctx_ok_units(3,4)[OF assms(1,2)] by simp_all
  have "sym_path sy \<in> set (u_edit_files u)" using assms(3,6) by (force simp: u_edit_files_def)
  then obtain e' where e': "e' \<in> set (u_edits u)" "fe_file e' = sym_path sy" "fe_kind e' = Registration \<longrightarrow> sy \<in> set (fe_symbols e')"
    using u(2) assms(5) unfolding unit_provides_ok_def by blast
  have "e' = e" using one_edit_per_file[of u e' e] u(1) e'(1,2) assms(3,6) by (simp add: unit_edits_ok_def)
  with e'(3) assms(4) show ?thesis by simp
qed

lemma lighter_nonempty:
  assumes "p \<in> set (bk_edits b)" "\<not> is_all_of b p"
  shows "bk_files (lighter p gone b) \<noteq> []"
proof -
  let ?F = "fe_file (pl_edit p)"
  have "fe_file (pl_edit q) \<in> (\<lambda>p. fe_file (pl_edit p)) ` set (remove1 p (bk_edits b))" if "q \<in> set (bk_edits b)" "fe_file (pl_edit q) \<noteq> ?F" for q
    using that by (intro imageI) (metis in_set_remove1)
  then have keep: "set (bk_files b) - {?F} \<subseteq> set (bk_files (lighter p gone b))" by (auto simp: set_bk_files)
  have F: "?F \<in> set (bk_files b)" using assms(1) by (simp add: set_bk_files)
  show ?thesis
  proof (cases "set (bk_files b) = {?F}")
    case False
    with F obtain F' where "F' \<in> set (bk_files b)" "F' \<noteq> ?F" by blast
    with keep have "F' \<in> set (bk_files (lighter p gone b))" by blast
    then show ?thesis by auto
  next
    case True
    let ?on = "filter (\<lambda>q. fe_file (pl_edit q) = ?F)"
    have "length (?on (bk_edits b)) \<noteq> 1" using assms(2) True by (simp add: is_all_of_def)
    moreover have mem: "p \<in> set (?on (bk_edits b))" using assms(1) by simp
    moreover from this have "length (?on (bk_edits b)) \<noteq> 0" by force
    ultimately have "length (remove1 p (?on (bk_edits b))) \<noteq> 0" by (simp only: length_remove1 if_True)
    then have "remove1 p (?on (bk_edits b)) \<noteq> []" by force
    then have "?on (remove1 p (bk_edits b)) \<noteq> []" unfolding filter_remove1 .
    then have "bk_edits (lighter p gone b) \<noteq> []" by auto
    then have "set (bk_files (lighter p gone b)) \<noteq> {}" unfolding set_bk_files by simp
    then show ?thesis by simp
  qed
qed

text \<open>Moving a registration out of its group, with the names it registers.\<close>

lemma registration_moves:
  assumes cx: "ctx_ok cx" and ok: "work_ok cx gs s" and sup: "all_supported cx s" and n: "n < length (buckets s)"
    and p: "p \<in> set (bk_edits (buckets s ! n))" and reg: "fe_kind (pl_edit p) = Registration" and all: "\<not> is_all_of (buckets s ! n) p"
    and t: "t = Pre_b \<or> t = Reg_b" and s': "s' = relocate n t p (fe_symbols (pl_edit p)) (\<lambda>sy. sy \<in> set (fe_symbols (pl_edit p))) s"
  shows "work_ok cx gs s'" "all_supported cx s'"
proof -
  let ?b = "buckets s ! n" and ?names = "fe_symbols (pl_edit p)"
  let ?gone = "\<lambda>sy. sy \<in> set ?names"
  have kept: "edits_kept cx s" using ok by (simp add: work_ok_def)
  obtain u where u: "u \<in> set (known_units cx)" "pl_unit p = u_id u" "pl_edit p \<in> set (u_edits u)"
    using placed_known[OF kept _ p] n by (auto simp: all_buckets_def)
  have names: "\<forall>sy\<in>set ?names. sym_path sy = fe_file (pl_edit p)"
    using ctx_ok_units(3)[OF cx u(1)] u(3) by (simp add: unit_edits_ok_def)
  have still: "supported (lighter p ?gone ?b) i sy"
    if "i \<in> set (bk_units ?b)" "sy \<in> set (u_provides (unit_of cx i))" "supported ?b i sy" "sy \<notin> set ?names" for i sy
  proof (rule lighter_supported[OF that(3)])
    fix q assume "q = p" "pl_unit q = i" "fe_file (pl_edit q) = sym_path sy"
    moreover from this have "unit_of cx i = u" using u(2) ctx_ok_units(1)[OF cx u(1)] by simp
    ultimately show False using registered_provides[OF cx u(1,3) reg] that(2,4) by simp
  qed
  have supb: "\<exists>i\<in>set (bk_units ?b). sy \<in> set (u_provides (unit_of cx i)) \<and> supported ?b i sy" if "sy \<in> set (bk_provides ?b)" for sy
    using sup n that by (simp add: all_supported_def)
  show "work_ok cx gs s'" unfolding s'
  proof (rule relocate_ok[OF ok n p t names])
    show "sym_path sy \<in> set (bk_files (lighter p ?gone ?b))" if "sy \<in> set (bk_provides ?b)" "\<not> ?gone sy" for sy
      using supb[OF that(1)] still that(2) supported_file by blast
    show "sy \<in> set ?names \<or> \<not> ?gone sy \<and> supported (lighter p ?gone ?b) (u_id v) sy"
      if "v \<in> set (known_units cx)" "u_id v \<in> set (bk_units ?b)" "sy \<in> set (u_provides v)" "supported ?b (u_id v) sy" for v sy
      using still[OF that(2)] ctx_ok_units(1)[OF cx that(1)] that(3,4) by auto
  qed (rule lighter_nonempty[OF p all])
  show "all_supported cx s'"
    unfolding all_supported_def s' relocate_simps[OF t]
  proof (intro ballI)
    fix c sy assume c: "c \<in> set ((buckets s)[n := lighter p ?gone ?b])" and sy: "sy \<in> set (bk_provides c)"
    from update_cases[OF c] show "\<exists>i\<in>set (bk_units c). sy \<in> set (u_provides (unit_of cx i)) \<and> supported c i sy"
    proof
      assume "c = lighter p ?gone ?b"
      with sy supb[of sy] still[of _ sy] show ?thesis by auto
    qed (use sup sy in \<open>auto simp: all_supported_def\<close>)
  qed
qed

end
