(* ===== verification/Synth_Steps.thy ===== *)
theory Synth_Steps
  imports Synth_Moves
begin

text \<open>
  The steps of the synthesis keep the invariant and never raise: dependencies, registrations, shared registrations and shared edits. So the program's own
  checks of its invariants never fail for checked facts; the only exception left is a contradiction in the facts.
\<close>

section \<open>Loops over a snapshot\<close>

lemma for_each_rest:
  assumes "\<And>x xs s. P (x # xs) s \<Longrightarrow> \<exists>s'. f x s = Inr s' \<and> P xs s'"
  shows "P xs s \<Longrightarrow> \<exists>s'. for_each f xs s = Inr s' \<and> P [] s'"
proof (induction xs arbitrary: s)
  case (Cons x xs)
  from assms[OF Cons.prems] obtain s1 where "f x s = Inr s1" "P xs s1" by blast
  with Cons.IH show ?case by (simp add: and_then_def)
qed simp

lemma for_each_keeps:
  assumes "\<And>x s. x \<in> set xs \<Longrightarrow> P s \<Longrightarrow> \<exists>s'. f x s = Inr s' \<and> P s'" "P s"
  shows "\<exists>s'. for_each f xs s = Inr s' \<and> P s'"
  using for_each_rest[of "\<lambda>ys s. set ys \<subseteq> set xs \<and> P s" f xs s] assms by auto

lemma record_decision_simps [simp]:
  "buckets (record_decision d s) = buckets s" "pre_bucket (record_decision d s) = pre_bucket s" "reg_bucket (record_decision d s) = reg_bucket s"
  "interfaces (record_decision d s) = interfaces s" "after_pre (record_decision d s) = after_pre s" "firsts (record_decision d s) = firsts s"
  "waits (record_decision d s) = waits s"
  by (simp_all add: record_decision_def)

section \<open>Homes\<close>

lemma shape_facts:
  assumes "group_shape gs s"
  shows "length (buckets s) = length gs" "n < length gs \<Longrightarrow> bk_units (buckets s ! n) = gs ! n" "n < length gs \<Longrightarrow> bk_key (buckets s ! n) = hd (gs ! n)"
proof -
  have m: "map bk_units (buckets s) = gs" "map bk_key (buckets s) = map hd gs" using assms by (simp_all add: group_shape_def)
  show len: "length (buckets s) = length gs" using arg_cong[OF m(1), of length] by simp
  show "n < length gs \<Longrightarrow> bk_units (buckets s ! n) = gs ! n" using arg_cong[OF m(1), of "\<lambda>xs. xs ! n"] len by simp
  show "n < length gs \<Longrightarrow> bk_key (buckets s ! n) = hd (gs ! n)" using arg_cong[OF m(2), of "\<lambda>xs. xs ! n"] len by simp
qed

lemma distinct_singleton: "distinct xs \<Longrightarrow> set xs = {x} \<Longrightarrow> xs = [x]"
  by (cases xs; cases "tl xs") auto

lemma filter_unique_index:
  assumes "n < k" "P n" "\<And>m. m < k \<Longrightarrow> P m \<Longrightarrow> m = n"
  shows "filter P [0..<k] = [n]"
proof (rule distinct_singleton)
  show "set (filter P [0..<k]) = {n}" using assms(1,2) by (auto dest: assms(3))
qed simp

lemma member_unit:
  assumes "groups_ok cx gs" "n < length gs" "i \<in> set (gs ! n)"
  shows "i \<in> set (unit_ids cx)"
proof -
  have "set (concat gs) = set (unit_ids cx)" using groups_distinct[OF assms(1)] by simp
  moreover have "i \<in> set (concat gs)" using assms(3) nth_mem[OF assms(2)] by auto
  ultimately show ?thesis by simp
qed

lemma same_key:
  assumes "groups_ok cx gs" "n < length gs" "m < length gs" "hd (gs ! m) = hd (gs ! n)"
  shows "m = n"
  using nth_eq_iff_index_eq[OF keys_distinct[OF assms(1)], of m n] assms(2-4) by simp

lemma key_ref:
  assumes "ctx_ok cx" "groups_ok cx gs" "group_shape gs s" "n < length gs"
  shows "by_key s (hd (gs ! n)) = Group_b n" "hd (gs ! n) \<noteq> PRE" "hd (gs ! n) \<noteq> REG"
proof -
  have "gs ! n \<noteq> []" using assms(2) nth_mem[OF assms(4)] by (auto simp: groups_ok_def)
  then have "hd (gs ! n) \<in> set (unit_ids cx)" using member_unit[OF assms(2,4)] by simp
  then show pre: "hd (gs ! n) \<noteq> PRE" and reg: "hd (gs ! n) \<noteq> REG" using assms(1) by (auto simp: ctx_ok_def)
  note shape = shape_facts[OF assms(3)]
  have "filter (\<lambda>m. bk_key (buckets s ! m) = hd (gs ! n)) [0..<length (buckets s)] = [n]"
  proof (rule filter_unique_index)
    fix m assume "m < length (buckets s)" "bk_key (buckets s ! m) = hd (gs ! n)"
    then show "m = n" using same_key[OF assms(2,4)] by (simp add: shape)
  qed (use assms(4) in \<open>simp_all add: shape\<close>)
  with pre reg show "by_key s (hd (gs ! n)) = Group_b n" by (simp add: by_key_def)
qed

lemma unit_group:
  assumes "groups_ok cx gs" "i \<in> set (unit_ids cx)"
  obtains n where "n < length gs" "i \<in> set (gs ! n)"
proof -
  have "i \<in> set (concat gs)" using groups_distinct[OF assms(1)] assms(2) by simp
  then obtain g where "g \<in> set gs" "i \<in> set g" by auto
  with that show ?thesis by (metis in_set_conv_nth)
qed

lemma group_unique:
  assumes "groups_ok cx gs" "n < length gs" "m < length gs" "i \<in> set (gs ! n)" "i \<in> set (gs ! m)"
  shows "m = n"
proof -
  have "distinct (concat gs)" using groups_distinct[OF assms(1)] by simp
  then have "gs ! m = gs ! n" using concat_member_unique assms(2-5) nth_mem by metis
  then show ?thesis using same_key[OF assms(1-3)] by simp
qed

lemma filter_by_index: "filter P xs = map ((!) xs) (filter (\<lambda>m. P (xs ! m)) [0..<length xs])"
proof -
  have "filter P xs = filter P (map ((!) xs) [0..<length xs])" by (simp add: map_nth)
  also have "\<dots> = map ((!) xs) (filter (\<lambda>m. P (xs ! m)) [0..<length xs])" by (simp add: filter_map comp_def)
  finally show ?thesis .
qed

lemma home_ref:
  assumes "ctx_ok cx" "groups_ok cx gs" "group_shape gs s" "n < length gs" "i \<in> set (gs ! n)"
  shows "bucket_of s i = hd (gs ! n)" "by_key s (bucket_of s i) = Group_b n"
proof -
  note shape = shape_facts[OF assms(3)]
  have "filter (\<lambda>m. i \<in> set (bk_units (buckets s ! m))) [0..<length (buckets s)] = [n]"
  proof (rule filter_unique_index)
    fix m assume "m < length (buckets s)" "i \<in> set (bk_units (buckets s ! m))"
    then show "m = n" using group_unique[OF assms(2,4) _ assms(5)] by (simp add: shape)
  qed (use assms(4,5) in \<open>simp_all add: shape\<close>)
  then have "filter (\<lambda>b. i \<in> set (bk_units b)) (buckets s) = [buckets s ! n]" unfolding filter_by_index[of _ "buckets s"] by simp
  then show key: "bucket_of s i = hd (gs ! n)" using shape(3)[OF assms(4)] by (simp add: bucket_of_def)
  show "by_key s (bucket_of s i) = Group_b n" using key_ref(1)[OF assms(1-4)] by (simp add: key)
qed

section \<open>Dependencies\<close>

lemma group_dep_symbol:
  assumes "d \<in> set (group_deps cx s)"
  shows "\<exists>ud\<in>set (cx_deps cx). gd_symbol d = ud_symbol ud"
proof -
  let ?Q = "\<lambda>found. \<forall>(k, d)\<in>set found. snd (snd k) = gd_symbol d \<and> gd_symbol d \<in> ud_symbol ` set (cx_deps cx)"
  have set: "set (dict_set k v found) \<subseteq> insert (k, v) (set found)" for k v and found :: "((string \<times> string \<times> string) \<times> group_dep) list"
    by (induction found) auto
  have step: "?Q (add_dep s ud found)" if Q: "?Q found" and ud: "ud \<in> set (cx_deps cx)" for ud found
  proof (cases "bucket_of s (ud_provider ud) = bucket_of s (ud_user ud)")
    case True
    then show ?thesis using Q by (simp add: add_dep_def)
  next
    case False
    let ?k = "(bucket_of s (ud_provider ud), bucket_of s (ud_user ud), ud_symbol ud)"
    have "gd_symbol (dict_get found ?k dflt) = ud_symbol ud" if "gd_symbol dflt = ud_symbol ud" for dflt
    proof (cases "map_of found ?k")
      case (Some d)
      from Q map_of_SomeD[OF Some] have "ud_symbol ud = gd_symbol d" by auto
      with Some show ?thesis by (simp add: dict_get_def)
    qed (simp add: dict_get_def that)
    then obtain v where v: "add_dep s ud found = dict_set ?k v found" "gd_symbol v = ud_symbol ud"
      using False by (simp add: add_dep_def Let_def)
    show ?thesis unfolding v(1) using set[of ?k v found] Q v(2) ud by auto
  qed
  have "?Q (fold (add_dep s) uds found)" if "?Q found" "set uds \<subseteq> set (cx_deps cx)" for uds found
    using that
  proof (induction uds arbitrary: found)
    case (Cons ud uds)
    have "ud \<in> set (cx_deps cx)" "set uds \<subseteq> set (cx_deps cx)" using Cons.prems(2) by simp_all
    then show ?case using Cons.IH[OF step[OF Cons.prems(1)]] by simp
  qed simp
  from this[of "[]" "cx_deps cx"] have "?Q (fold (add_dep s) (cx_deps cx) [])" by simp
  then have "\<forall>(k, d)\<in>set (fold (add_dep s) (cx_deps cx) []). gd_symbol d \<in> ud_symbol ` set (cx_deps cx)" by auto
  moreover have "d \<in> snd ` set (fold (add_dep s) (cx_deps cx) [])" using assms by (simp add: group_deps_def Let_def)
  ultimately show ?thesis by force
qed

lemma group_dep_located: "ctx_ok cx \<Longrightarrow> d \<in> set (group_deps cx s) \<Longrightarrow> located cx (gd_symbol d)"
  using group_dep_symbol[of d cx s] provided_located[of cx] by (metis ctx_ok_def)

lemma dep_step_ok:
  assumes "ctx_ok cx" "located cx (gd_symbol d)" "steady cx gs s0 (fst st)"
  shows "\<exists>st'. dep_step cx cs d st = Inr st' \<and> steady cx gs s0 (fst st')"
proof -
  obtain s orders where st: "st = (s, orders)" by (cases st)
  have s: "steady cx gs s0 s" and ok: "work_ok cx gs s" using assms(3) by (simp_all add: st steady_def)
  obtain s' where s': "add_interface cx (gd_symbol d) [gd_user d] None s = Inr s'" "steady cx gs s s'"
    using add_interface_ok[OF assms(1) ok assms(2)] by blast
  have "steady cx gs s0 s'" by (rule steady_trans[OF s s'(2)])
  with s'(1) s show ?thesis by (cases "wait_rule cx s cs d") (simp_all add: dep_step_def st Let_def and_then_def steady_def)
qed

section \<open>Placing a registration\<close>

definition group_edits :: "synth \<Rightarrow> placed list list" where
  "group_edits s = map bk_edits (buckets s)"

definition in_group :: "synth \<Rightarrow> nat \<Rightarrow> placed \<Rightarrow> bool" where
  "in_group s n p \<longleftrightarrow> n < length (buckets s) \<and> p \<in> set (bk_edits (buckets s ! n))"

lemma in_group_edits: "in_group s n p \<longleftrightarrow> n < length (group_edits s) \<and> p \<in> set (group_edits s ! n)"
  by (auto simp: in_group_def group_edits_def)

text \<open>What a step of the placing guarantees: the invariants, and that the groups keep their edits but the one that moves.\<close>

definition moved_out :: "synth_ctx \<Rightarrow> string list list \<Rightarrow> nat \<Rightarrow> placed \<Rightarrow> synth \<Rightarrow> synth \<Rightarrow> bool" where
  "moved_out cx gs n p s s' \<longleftrightarrow> work_ok cx gs s' \<and> (all_supported cx s \<longrightarrow> all_supported cx s')
     \<and> group_edits s' = (group_edits s)[n := remove1 p (group_edits s ! n)]"

lemma moved_out_others: "moved_out cx gs n p s s' \<Longrightarrow> in_group s m q \<Longrightarrow> m \<noteq> n \<or> q \<noteq> p \<Longrightarrow> in_group s' m q"
  by (cases "m = n") (auto simp: moved_out_def in_group_edits)

definition lifted :: "nat \<Rightarrow> bref \<Rightarrow> placed \<Rightarrow> synth \<Rightarrow> synth" where
  "lifted n t p s = change_at t (\<lambda>b. b\<lparr>bk_edits := bk_edits b @ [p]\<rparr>) (change_at (Group_b n) (\<lambda>b. b\<lparr>bk_edits := remove1 p (bk_edits b)\<rparr>) s)"

lemma move_edit_group: "in_group s n p \<Longrightarrow> move_edit (Group_b n) t p s = Inr (lifted n t p s)"
  by (simp add: move_edit_def list_remove_def and_then_def in_group_def lifted_def)

lemma lifted_registration:
  assumes "n < length (buckets s)" "t = Pre_b \<or> t = Reg_b"
  shows "drop_provides (Group_b n) names (gain t names (pl_unit p) (lifted n t p s)) = relocate n t p names (\<lambda>sy. sy \<in> set names) s"
  using assms by (auto simp: drop_provides_def gain_def relocate_def lighter_def heavier_def lifted_def)

lemma lifted_shared:
  assumes "n < length (buckets s)"
  shows "(if fl \<in> set (bk_files (bucket_at (gain Pre_b names (pl_unit p) (lifted n Pre_b p s)) (Group_b n))) then gain Pre_b names (pl_unit p) (lifted n Pre_b p s)
        else change_at (Group_b n) (\<lambda>b. b\<lparr>bk_provides := filter (\<lambda>sy. sym_path sy \<noteq> fl) (bk_provides b)\<rparr>) (gain Pre_b names (pl_unit p) (lifted n Pre_b p s)))
      = relocate n Pre_b p names (\<lambda>sy. fl \<notin> set (bk_files (lighter p (\<lambda>_. False) (buckets s ! n))) \<and> sym_path sy = fl) s"
proof -
  let ?b = "(buckets s ! n)\<lparr>bk_edits := remove1 p (bk_edits (buckets s ! n))\<rparr>"
  have light: "lighter p (\<lambda>_. False) (buckets s ! n) = ?b" by (simp add: lighter_def)
  have b: "bucket_at (gain Pre_b names (pl_unit p) (lifted n Pre_b p s)) (Group_b n) = ?b" using assms by (simp add: gain_def lifted_def)
  show ?thesis unfolding b light
    using assms by (simp add: gain_def relocate_def lighter_def heavier_def lifted_def)
qed

lemma relocate_group_edits:
  "in_group s n p \<Longrightarrow> t = Pre_b \<or> t = Reg_b \<Longrightarrow> group_edits (relocate n t p names gone s) = (group_edits s)[n := remove1 p (group_edits s ! n)]"
  by (simp add: group_edits_def relocate_simps map_update in_group_def)

lemma registration_moved_out:
  assumes "ctx_ok cx" "work_ok cx gs s" "all_supported cx s" "in_group s n p" "fe_kind (pl_edit p) = Registration" "\<not> is_all_of (buckets s ! n) p"
    and "t = Pre_b \<or> t = Reg_b"
  shows "moved_out cx gs n p s (relocate n t p (fe_symbols (pl_edit p)) (\<lambda>sy. sy \<in> set (fe_symbols (pl_edit p))) s)"
  using registration_moves[OF assms(1-3) _ _ assms(5-7) refl] relocate_group_edits[OF assms(4,7)] assms(4)
  by (simp add: moved_out_def in_group_def)

lemma moved_out_steady: "moved_out cx gs n p s s1 \<Longrightarrow> steady cx gs s1 s2 \<Longrightarrow> moved_out cx gs n p s s2"
  by (auto simp: moved_out_def steady_def group_edits_def)

lemma placed_unit:
  assumes "ctx_ok cx" "work_ok cx gs s" "in_group s n p"
  shows "pl_unit p \<in> set (unit_ids cx)"
proof -
  have "edits_kept cx s" using assms(2) by (simp add: work_ok_def)
  moreover have "buckets s ! n \<in> set (all_buckets s)" "p \<in> set (bk_edits (buckets s ! n))" using assms(3) by (simp_all add: in_group_def all_buckets_def)
  ultimately obtain u where "u \<in> set (known_units cx)" "pl_unit p = u_id u" using placed_known by blast
  with ctx_ok_units(2)[OF assms(1)] show ?thesis by simp
qed

text \<open>The targets of the registered names become interfaces.\<close>

lemma target_interfaces_ok:
  assumes "ctx_ok cx" "i \<in> set (unit_ids cx)" "work_ok cx gs s" "bk_files (pre_bucket s) \<noteq> []"
  shows "\<exists>s'. for_each (\<lambda>(name, target) s. case target of None \<Rightarrow> Inr s | Some sy \<Rightarrow> add_interface cx sy [] (Some name) s) (targets_of cx i names) s
      = Inr s' \<and> steady cx gs s s' \<and> bk_files (pre_bucket s') \<noteq> []"
proof (rule for_each_keeps)
  fix x s1
  assume x: "x \<in> set (targets_of cx i names)" and s1: "steady cx gs s s1 \<and> bk_files (pre_bucket s1) \<noteq> []"
  from x obtain name where name: "x = (name, target_of cx i name)" by (auto simp: targets_of_def)
  show "\<exists>s'. (case x of (name, target) \<Rightarrow> \<lambda>s. case target of None \<Rightarrow> Inr s | Some sy \<Rightarrow> add_interface cx sy [] (Some name) s) s1 = Inr s'
      \<and> steady cx gs s s' \<and> bk_files (pre_bucket s') \<noteq> []"
  proof (cases "target_of cx i name")
    case None
    with s1 show ?thesis by (simp add: name)
  next
    case (Some sy)
    have "work_ok cx gs s1" using s1 by (simp add: steady_def)
    from add_interface_ok[OF assms(1) this target_located[OF assms(1,2) Some]]
    obtain s' where "add_interface cx sy [] (Some name) s1 = Inr s'" "steady cx gs s1 s'" "bk_files (pre_bucket s') \<noteq> []" by blast
    with s1 steady_trans Some show ?thesis by (auto simp: name)
  qed
qed (use assms in \<open>simp_all add: steady_refl\<close>)

lemma add_note_same [simp]: "interfaces (add_note r note s) = interfaces s" "after_pre (add_note r note s) = after_pre s"
  "group_edits (add_note r note s) = group_edits s"
  unfolding group_edits_def by (simp_all add: add_note_core(3)) (simp_all add: add_note_def)

lemma register_first_ok:
  assumes "ctx_ok cx" "work_ok cx gs s" "all_supported cx s" "in_group s n p" "fe_kind (pl_edit p) = Registration" "\<not> is_all_of (buckets s ! n) p"
    and "targets = targets_of cx (pl_unit p) (fe_symbols (pl_edit p))"
  shows "\<exists>s'. register_first cx (Group_b n) p targets users s = Inr s' \<and> moved_out cx gs n p s s'"
proof -
  let ?names = "fe_symbols (pl_edit p)"
  have s1: "move_edit (Group_b n) Pre_b p s = Inr (lifted n Pre_b p s)"
    and s1': "drop_provides (Group_b n) ?names (gain Pre_b ?names (pl_unit p) (lifted n Pre_b p s)) = relocate n Pre_b p ?names (\<lambda>sy. sy \<in> set ?names) s"
    using move_edit_group lifted_registration assms(4) by (simp_all add: in_group_def)
  let ?s2 = "relocate n Pre_b p ?names (\<lambda>sy. sy \<in> set ?names) s"
  have s2: "moved_out cx gs n p s ?s2" using registration_moved_out[OF assms(1-6)] by blast
  have ok2: "work_ok cx gs ?s2" "bk_files (pre_bucket ?s2) \<noteq> []" using s2 by (simp_all add: moved_out_def relocate_simps)
  obtain s3 where s3: "for_each (\<lambda>(name, target) s. case target of None \<Rightarrow> Inr s | Some sy \<Rightarrow> add_interface cx sy [] (Some name) s) targets ?s2 = Inr s3"
      "steady cx gs ?s2 s3" "bk_files (pre_bucket s3) \<noteq> []"
    using target_interfaces_ok[OF assms(1) placed_unit[OF assms(1,2,4)] ok2] assms(7) by blast
  have m3: "moved_out cx gs n p s s3" using moved_out_steady[OF s2 s3(2)] .
  have "steady cx gs s3 (s3\<lparr>after_pre := ap\<rparr>)" for ap using steady_pre_fields(2)[OF _ s3(3)] m3 by (simp add: moved_out_def)
  then have "moved_out cx gs n p s (s3\<lparr>after_pre := ap\<rparr>)" for ap using moved_out_steady[OF m3] by blast
  then show ?thesis
    by (simp add: register_first_def Let_def s1 s1' s3(1) and_then_def moved_out_def group_edits_def)
qed

lemma register_last_ok:
  assumes "ctx_ok cx" "work_ok cx gs s" "all_supported cx s" "in_group s n p" "fe_kind (pl_edit p) = Registration" "\<not> is_all_of (buckets s ! n) p"
  shows "\<exists>s'. register_last cx (Group_b n) p targets s = Inr s' \<and> moved_out cx gs n p s s'"
proof -
  let ?names = "fe_symbols (pl_edit p)"
  have s1: "move_edit (Group_b n) Reg_b p s = Inr (lifted n Reg_b p s)"
    and s1': "drop_provides (Group_b n) ?names (gain Reg_b ?names (pl_unit p) (lifted n Reg_b p s)) = relocate n Reg_b p ?names (\<lambda>sy. sy \<in> set ?names) s"
    using move_edit_group lifted_registration assms(4) by (simp_all add: in_group_def)
  have "moved_out cx gs n p s (relocate n Reg_b p ?names (\<lambda>sy. sy \<in> set ?names) s)" using registration_moved_out[OF assms] by blast
  then show ?thesis by (simp add: register_last_def Let_def s1 s1' and_then_def moved_out_def group_edits_def)
qed

end
