(* ===== verification/Synth_Run.thy ===== *)
theory Synth_Run
  imports Synth_Steps
begin

text \<open>
  The synthesis from the buckets to the build never raises for checked facts, unless the facts contradict each other: every step keeps the invariant
  of \<open>Synth_Inv\<close>, so the program's own checks of its invariants pass.
\<close>

section \<open>Step 2\<close>

definition all_but :: "synth_ctx \<Rightarrow> string list list \<Rightarrow> nat \<times> placed \<Rightarrow> synth \<Rightarrow> synth \<Rightarrow> bool" where
  "all_but cx gs x s s' \<longleftrightarrow> work_ok cx gs s' \<and> all_supported cx s' \<and> (\<forall>m q. in_group s m q \<longrightarrow> (m, q) \<noteq> x \<longrightarrow> in_group s' m q)"

lemma moved_all_but: "moved_out cx gs n p s s' \<Longrightarrow> all_supported cx s \<Longrightarrow> all_but cx gs (n, p) s s'"
  using moved_out_others[of cx gs n p s s'] by (auto simp: all_but_def moved_out_def)

lemma in_group_other [simp]:
  "in_group (record_decision d s) n p = in_group s n p" "in_group (s\<lparr>waits := ws\<rparr>) n p = in_group s n p" "in_group (s\<lparr>firsts := fs\<rparr>) n p = in_group s n p"
  by (simp_all add: in_group_def)

lemma all_but_other [simp]:
  "all_but cx gs x s (record_decision d s') = all_but cx gs x s s'" "all_but cx gs x s (s'\<lparr>waits := ws\<rparr>) = all_but cx gs x s s'"
  "all_but cx gs x s (s'\<lparr>firsts := fs\<rparr>) = all_but cx gs x s s'"
  by (simp_all add: all_but_def)

lemma place_registration_ok:
  assumes "ctx_ok cx" "groups_ok cx gs" "work_ok cx gs s" "all_supported cx s" "n < length gs" "u_id u \<in> set (gs ! n)"
    and "in_group s n \<lparr>pl_unit = u_id u, pl_edit = e\<rparr>" "fe_kind e = Registration"
  shows "\<exists>st'. place_registration cx deps (u, e) (s, orders) = Inr st' \<and> all_but cx gs (n, \<lparr>pl_unit = u_id u, pl_edit = e\<rparr>) s (fst st')"
proof -
  let ?p = "\<lparr>pl_unit = u_id u, pl_edit = e\<rparr>"
  have "group_shape gs s" using assms(3) by (simp add: work_ok_def)
  then have home: "by_key s (bucket_of s (u_id u)) = Group_b n" using home_ref[OF assms(1,2)] assms(5,6) by blast
  have same: "all_but cx gs (n, ?p) s s" using assms(3,4) by (simp add: all_but_def)
  show ?thesis
  proof (cases "is_all_of (buckets s ! n) ?p")
    case True
    with same show ?thesis by (simp add: place_registration_def Let_def home)
  next
    case False
    have "\<exists>s'. register_first cx (Group_b n) ?p (targets_of cx (u_id u) (fe_symbols e)) users s = Inr s' \<and> all_but cx gs (n, ?p) s s'" for users
      using register_first_ok[OF assms(1,3,4,7) _ False] assms(8) moved_all_but[OF _ assms(4)] by fastforce
    then obtain after_first where first: "\<And>users. register_first cx (Group_b n) ?p (targets_of cx (u_id u) (fe_symbols e)) users s = Inr (after_first users)"
        "\<And>users. all_but cx gs (n, ?p) s (after_first users)" by metis
    obtain after_last where last: "register_last cx (Group_b n) ?p (targets_of cx (u_id u) (fe_symbols e)) s = Inr after_last" "all_but cx gs (n, ?p) s after_last"
      using register_last_ok[OF assms(1,3,4,7) _ False] assms(8) moved_all_but[OF _ assms(4)] by fastforce
    show ?thesis using same first last by (simp add: place_registration_def Let_def home False and_then_def)
  qed
qed

text \<open>The registrations that are still to place are in the groups of their units.\<close>

definition at_home :: "string list list \<Rightarrow> synth \<Rightarrow> placed \<Rightarrow> bool" where
  "at_home gs s p \<longleftrightarrow> (\<exists>n<length gs. pl_unit p \<in> set (gs ! n) \<and> in_group s n p)"

definition placed_of :: "fact_unit \<times> fact_edit \<Rightarrow> placed" where
  "placed_of ue = \<lparr>pl_unit = u_id (fst ue), pl_edit = snd ue\<rparr>"

definition to_place :: "synth_ctx \<Rightarrow> string list list \<Rightarrow> (fact_unit \<times> fact_edit) list \<Rightarrow> synth \<times> dep_ordering \<Rightarrow> bool" where
  "to_place cx gs ues st \<longleftrightarrow> work_ok cx gs (fst st) \<and> all_supported cx (fst st) \<and> distinct (map placed_of ues)
     \<and> (\<forall>ue\<in>set ues. fe_kind (snd ue) = Registration \<and> at_home gs (fst st) (placed_of ue))"

lemma to_place_step:
  assumes "ctx_ok cx" "groups_ok cx gs" "to_place cx gs (ue # ues) st"
  shows "\<exists>st'. place_registration cx deps ue st = Inr st' \<and> to_place cx gs ues st'"
proof -
  obtain u e s orders where eqs: "ue = (u, e)" "st = (s, orders)" by (cases ue; cases st)
  let ?p = "\<lparr>pl_unit = u_id u, pl_edit = e\<rparr>"
  from assms(3) have ok: "work_ok cx gs s" "all_supported cx s" "fe_kind e = Registration" "at_home gs s ?p"
    by (simp_all add: to_place_def eqs placed_of_def)
  from ok(4) obtain n where n: "n < length gs" "u_id u \<in> set (gs ! n)" "in_group s n ?p" by (auto simp: at_home_def)
  from place_registration_ok[OF assms(1,2) ok(1,2) n ok(3)] obtain st' where
    st': "place_registration cx deps ue st = Inr st'" "all_but cx gs (n, ?p) s (fst st')" unfolding eqs by blast
  have "at_home gs (fst st') (placed_of x)" if x: "x \<in> set ues" for x
  proof -
    have "?p \<notin> placed_of ` set ues" using assms(3) by (simp add: to_place_def eqs placed_of_def)
    then have "placed_of x \<noteq> ?p" using x by (metis image_eqI)
    moreover have "at_home gs s (placed_of x)" using assms(3) x by (simp add: to_place_def eqs)
    ultimately show ?thesis using st'(2) by (auto simp: at_home_def all_but_def)
  qed
  with st' assms(3) show ?thesis by (auto simp: to_place_def all_but_def)
qed

lemma registration_edits_placed: "map placed_of (registration_edits cx) = filter (\<lambda>p. fe_kind (pl_edit p) = Registration) (all_placed cx)"
proof -
  have "map placed_of (concat (map (\<lambda>(i, u). map (Pair u) (filter (\<lambda>e. fe_kind e = Registration) (u_edits u))) us))
      = filter (\<lambda>p. fe_kind (pl_edit p) = Registration) (concat (map (\<lambda>u. map (\<lambda>e. \<lparr>pl_unit = u_id u, pl_edit = e\<rparr>) (u_edits u)) (map snd us)))" for us
    by (induction us) (auto simp: placed_of_def filter_map comp_def)
  then show ?thesis by (simp add: registration_edits_def all_placed_def known_units_def)
qed

lemma all_placed_distinct: "ctx_ok cx \<Longrightarrow> distinct (all_placed cx)"
  using placements_distinct[of cx] by (simp add: distinct_map)

lemma all_at_home:
  assumes "work_ok cx gs s" "bk_edits (pre_bucket s) = []" "bk_edits (reg_bucket s) = []" "p \<in> set (all_placed cx)"
  shows "at_home gs s p"
proof -
  have kept: "edits_kept cx s" and shape: "group_shape gs s" using assms(1) by (simp_all add: work_ok_def)
  then have "p \<in> set (concat (map bk_edits (all_buckets s)))" using assms(4) mset_eq_setD unfolding edits_kept_def by blast
  then obtain b where "b \<in> set (buckets s)" "p \<in> set (bk_edits b)" using assms(2,3) by (auto simp: all_buckets_def)
  then obtain n where n: "n < length (buckets s)" "p \<in> set (bk_edits (buckets s ! n))" by (auto simp: in_set_conv_nth)
  moreover from n have "pl_unit p \<in> set (bk_units (buckets s ! n))" using kept by (simp add: edits_kept_def)
  ultimately show ?thesis using shape_facts[OF shape] by (auto simp: at_home_def in_group_def)
qed

lemma step2_ok:
  assumes "ctx_ok cx" "groups_ok cx gs" "work_ok cx gs s" "all_supported cx s" "bk_edits (pre_bucket s) = []" "bk_edits (reg_bucket s) = []"
  shows "\<exists>s'. step2 cx s = Inr s' \<and> work_ok cx gs s' \<and> all_supported cx s'"
proof -
  let ?cs = "components (map bk_key (buckets s)) (adjacency (map (\<lambda>d. (gd_provider d, gd_user d)) (group_deps cx s)))"
  have "\<exists>st. for_each (dep_step cx ?cs) (group_deps cx s) (s, []) = Inr st \<and> steady cx gs s (fst st)"
    by (rule for_each_keeps) (use dep_step_ok[OF assms(1) group_dep_located[OF assms(1)]] steady_refl[OF assms(3)] in auto)
  then obtain st where st: "for_each (dep_step cx ?cs) (group_deps cx s) (s, []) = Inr st" "steady cx gs s (fst st)" by blast
  have edits: "group_edits (fst st) = group_edits s" using st(2) by (simp add: steady_def group_edits_def)
  have "at_home gs (fst st) (placed_of ue)" "fe_kind (snd ue) = Registration" if "ue \<in> set (registration_edits cx)" for ue
  proof -
    have "placed_of ue \<in> set (map placed_of (registration_edits cx))" using that by simp
    then have p: "placed_of ue \<in> set (all_placed cx)" "fe_kind (pl_edit (placed_of ue)) = Registration" unfolding registration_edits_placed by auto
    from all_at_home[OF assms(3,5,6) p(1)] show "at_home gs (fst st) (placed_of ue)" by (simp add: at_home_def in_group_edits edits)
    from p(2) show "fe_kind (snd ue) = Registration" by (simp add: placed_of_def)
  qed
  then have "to_place cx gs (registration_edits cx) st"
    using st(2) assms(4) all_placed_distinct[OF assms(1)] by (simp add: to_place_def steady_def registration_edits_placed)
  from for_each_rest[of "to_place cx gs" "place_registration cx (group_deps cx s)", OF to_place_step[OF assms(1,2)] this]
  obtain st' where "for_each (place_registration cx (group_deps cx s)) (registration_edits cx) st = Inr st'" "to_place cx gs [] st'" by blast
  then show ?thesis using st(1) by (cases st') (auto simp: step2_def Let_def and_then_def to_place_def)
qed

section \<open>Step 2c\<close>

text \<open>Collecting the values of a key under it loses none and adds none.\<close>

lemma mset_concat_append_at: "mset (concat (map snd (dict_set k (dict_get d k [] @ [v]) d))) = add_mset v (mset (concat (map snd d)))"
proof (induction d)
  case (Cons kv d)
  show ?case
  proof (cases "fst kv = k")
    case True
    then show ?thesis by (cases kv) (simp add: dict_get_def)
  next
    case False
    then have "dict_get (kv # d) k [] = dict_get d k []" by (cases kv) (simp add: dict_get_def)
    with False Cons show ?thesis by (cases kv) simp
  qed
qed (simp add: dict_get_def)

lemma mset_collected: "mset (concat (map snd (fold (\<lambda>x d. dict_set (f x) (dict_get d (f x) [] @ [x]) d) xs d))) = mset xs + mset (concat (map snd d))"
  by (induction xs arbitrary: d) (simp_all add: mset_concat_append_at)

lemma kept_registrations_entries:
  "mset (concat (map snd (kept_registrations s)))
     = mset (concat (map (\<lambda>r. map (Pair r) (filter (\<lambda>p. fe_kind (pl_edit p) = Registration) (bk_edits (bucket_at s r)))) (group_refs s)))"
proof -
  have eq: "(\<lambda>(r, p) d. dict_set (fe_file (pl_edit p)) (dict_get d (fe_file (pl_edit p)) [] @ [(r, p)]) d)
      = (\<lambda>x d. dict_set (fe_file (pl_edit (snd x))) (dict_get d (fe_file (pl_edit (snd x))) [] @ [x]) d)" by (auto intro!: ext)
  show ?thesis unfolding kept_registrations_def eq mset_collected by simp
qed

lemma distinct_pairs: "distinct rs \<Longrightarrow> (\<And>r. r \<in> set rs \<Longrightarrow> distinct (f r)) \<Longrightarrow> distinct (concat (map (\<lambda>r. map (Pair r) (f r)) rs))"
  by (induction rs) (auto simp: distinct_map inj_on_def)

lemma group_edits_distinct:
  assumes "ctx_ok cx" "work_ok cx gs s" "b \<in> set (buckets s)"
  shows "distinct (bk_edits b)"
proof -
  have "mset (concat (map bk_edits (all_buckets s))) = mset (all_placed cx)" using assms(2) by (simp add: work_ok_def edits_kept_def)
  from mset_eq_imp_distinct_iff[OF this] have "distinct (concat (map bk_edits (buckets s)))"
    using all_placed_distinct[OF assms(1)] by (simp add: all_buckets_def)
  moreover have "distinct (concat (map f xs)) \<Longrightarrow> x \<in> set xs \<Longrightarrow> distinct (f x)" for f :: "bucket \<Rightarrow> placed list" and x xs by (induction xs) auto
  ultimately show ?thesis using assms(3) by blast
qed

definition to_share :: "synth_ctx \<Rightarrow> string list list \<Rightarrow> (bref \<times> placed) list \<Rightarrow> synth \<Rightarrow> bool" where
  "to_share cx gs es s \<longleftrightarrow> work_ok cx gs s \<and> all_supported cx s \<and> distinct es
     \<and> (\<forall>(r, p)\<in>set es. fe_kind (pl_edit p) = Registration \<and> (\<exists>n. r = Group_b n \<and> in_group s n p))"

lemma to_share_start:
  assumes "ctx_ok cx" "work_ok cx gs s" "all_supported cx s"
  shows "to_share cx gs (concat (map snd (kept_registrations s))) s"
proof -
  let ?es = "concat (map (\<lambda>r. map (Pair r) (filter (\<lambda>p. fe_kind (pl_edit p) = Registration) (bk_edits (bucket_at s r)))) (group_refs s))"
  have "distinct (group_refs s)" by (simp add: group_refs_def distinct_map inj_on_def)
  moreover have "distinct (bk_edits (bucket_at s r))" if "r \<in> set (group_refs s)" for r
    using that group_edits_distinct[OF assms(1,2)] by (auto simp: group_refs_def)
  ultimately have "distinct ?es" by (intro distinct_pairs) simp_all
  then have "distinct (concat (map snd (kept_registrations s)))" using mset_eq_imp_distinct_iff[OF kept_registrations_entries] by blast
  moreover have "fe_kind (pl_edit p) = Registration \<and> (\<exists>n. r = Group_b n \<and> in_group s n p)" if "(r, p) \<in> set ?es" for r p
    using that by (auto simp: group_refs_def in_group_def)
  ultimately show ?thesis using assms(2,3) mset_eq_setD[OF kept_registrations_entries[of s]] unfolding to_share_def by blast
qed

lemma share_entry_ok:
  assumes "ctx_ok cx" "to_share cx gs (x # es) s"
  shows "\<exists>st'. share_entry cx x (s, stayed) = Inr st' \<and> to_share cx gs es (fst st')"
proof -
  obtain r p where x: "x = (r, p)" by (cases x)
  from assms(2) obtain n where n: "r = Group_b n" "in_group s n p" "fe_kind (pl_edit p) = Registration" by (auto simp: to_share_def x)
  have ok: "work_ok cx gs s" "all_supported cx s" "to_share cx gs es s" using assms(2) by (auto simp: to_share_def)
  let ?targets = "targets_of cx (pl_unit p) (fe_symbols (pl_edit p))"
  show ?thesis
  proof (cases "list_ex (\<lambda>(n, t). t = None) ?targets \<or> is_all_of (buckets s ! n) p")
    case True
    then show ?thesis using ok(3) by (auto simp: share_entry_def x n(1) Let_def)
  next
    case False
    let ?users = "py_unique (map wt_user (filter (\<lambda>w. wt_provider w = bk_key (buckets s ! n) \<and> wt_symbol w \<in> set (fe_symbols (pl_edit p))) (waits s)))"
    obtain s' where s': "register_first cx (Group_b n) p ?targets ?users s = Inr s'" "all_but cx gs (n, p) s s'"
      using register_first_ok[OF assms(1) ok(1,2) n(2,3) _ refl] moved_all_but[OF _ ok(2)] False by blast
    have "to_share cx gs es s'"
      unfolding to_share_def
    proof (intro conjI ballI)
      fix y assume y: "y \<in> set es"
      obtain r' q where y': "y = (r', q)" by (cases y)
      from ok(3) y obtain m where m: "fe_kind (pl_edit q) = Registration" "r' = Group_b m" "in_group s m q" by (auto simp: to_share_def y')
      have "(m, q) \<noteq> (n, p)" using assms(2) y by (auto simp: to_share_def x n(1) y' m(2))
      with m s'(2) show "case y of (r, p) \<Rightarrow> fe_kind (pl_edit p) = Registration \<and> (\<exists>n. r = Group_b n \<and> in_group s' n p)" by (auto simp: y' all_but_def)
    qed (use s'(2) ok(3) in \<open>simp_all add: all_but_def to_share_def\<close>)
    then have "to_share cx gs es (record_decision d s')" for d by (simp add: to_share_def)
    with False s'(1) show ?thesis by (simp add: share_entry_def x n(1) Let_def and_then_def)
  qed
qed

lemma share_entries_ok:
  assumes "ctx_ok cx" "to_share cx gs (es @ rest) s"
  shows "\<exists>st'. for_each (share_entry cx) es (s, stayed) = Inr st' \<and> to_share cx gs rest (fst st')"
proof -
  have "\<exists>st'. share_entry cx x st = Inr st' \<and> to_share cx gs (xs @ rest) (fst st')" if "to_share cx gs ((x # xs) @ rest) (fst st)" for x xs st
    using share_entry_ok[OF assms(1), of gs x "xs @ rest" "fst st" "snd st"] that by simp
  from for_each_rest[of "\<lambda>es st. to_share cx gs (es @ rest) (fst st)", OF this] assms(2) show ?thesis by fastforce
qed

lemma to_share_drop: "to_share cx gs (es @ rest) s \<Longrightarrow> to_share cx gs rest s"
  by (auto simp: to_share_def)

lemma stayed_decision_same [simp]: "to_share cx gs es (fold (stayed_decision f) stayed s) = to_share cx gs es s"
proof (induction stayed arbitrary: s)
  case (Cons x xs)
  have "to_share cx gs es (stayed_decision f x s) = to_share cx gs es s" by (cases x) (simp add: stayed_decision_def Let_def to_share_def)
  with Cons show ?case by simp
qed simp

lemma share_kept_ok:
  assumes "ctx_ok cx" "work_ok cx gs s" "all_supported cx s"
  shows "\<exists>s'. share_kept_registrations cx s = Inr s' \<and> work_ok cx gs s'"
proof -
  have "\<exists>s'. share_path cx x s = Inr s' \<and> to_share cx gs (concat (map snd xs)) s'"
    if share: "to_share cx gs (concat (map snd (x # xs))) s" for x xs s
  proof -
    obtain f es where x: "x = (f, es)" by (cases x)
    have share': "to_share cx gs (es @ concat (map snd xs)) s" using share by (simp add: x)
    show ?thesis
    proof (cases "length (py_unique (map (\<lambda>(r, p). bk_key (bucket_at s r)) es)) < 2")
      case True
      then show ?thesis using to_share_drop[OF share'] by (simp add: share_path_def x)
    next
      case False
      from share_entries_ok[OF assms(1) share'] obtain st' where "for_each (share_entry cx) es (s, []) = Inr st'" "to_share cx gs (concat (map snd xs)) (fst st')"
        by blast
      with False show ?thesis by (cases st') (simp add: share_path_def x and_then_def)
    qed
  qed
  from for_each_rest[of "\<lambda>xs. to_share cx gs (concat (map snd xs))" "share_path cx", OF this to_share_start[OF assms]]
  obtain s' where "for_each (share_path cx) (kept_registrations s) s = Inr s'" "to_share cx gs [] s'" by auto
  then show ?thesis using assms(2) by (auto simp: share_kept_registrations_def to_share_def)
qed

section \<open>Step 3\<close>

lemma shared_edit_relocates:
  assumes "ctx_ok cx" "work_ok cx gs s" "in_group s n p" "set (bk_files (buckets s ! n)) \<noteq> {fl}" "fl = fe_file (pl_edit p)"
    and "gone = (\<lambda>sy. fl \<notin> set (bk_files (lighter p (\<lambda>_. False) (buckets s ! n))) \<and> sym_path sy = fl)"
    and "names = filter (\<lambda>sy. sym_path sy = fl) (u_provides (unit_of cx (pl_unit p)))"
  shows "work_ok cx gs (relocate n Pre_b p names gone s)"
proof -
  let ?b = "buckets s ! n"
  have n: "n < length (buckets s)" and p: "p \<in> set (bk_edits ?b)" using assms(3) by (simp_all add: in_group_def)
  have files: "set (bk_files (lighter p g ?b)) = set (bk_files (lighter p (\<lambda>_. False) ?b))" for g by (simp add: set_bk_files)
  have other: "F \<in> set (bk_files (lighter p g ?b))" if "F \<in> set (bk_files ?b)" "F \<noteq> fl" for F g
  proof -
    have "F \<in> (\<lambda>q. fe_file (pl_edit q)) ` set (remove1 p (bk_edits ?b))" if "q \<in> set (bk_edits ?b)" "F = fe_file (pl_edit q)" for q
      using that \<open>F \<noteq> fl\<close> assms(5) by (intro image_eqI[of _ _ q]) (simp, metis in_set_remove1)
    with that(1) show ?thesis by (auto simp: set_bk_files)
  qed
  have provided: "sym_path sy \<in> set (bk_files ?b)" if "sy \<in> set (bk_provides ?b)" for sy
    using assms(2) nth_mem[OF n] that by (simp add: work_ok_def provides_kept_def all_buckets_def)
  have "\<not> is_all_of ?b p" using assms(4,5) by (simp add: is_all_of_def)
  then have nonempty: "bk_files (lighter p gone ?b) \<noteq> []" using lighter_nonempty[OF p] by blast
  show ?thesis
  proof (rule relocate_ok[OF assms(2) n p])
    show "sym_path sy \<in> set (bk_files (lighter p gone ?b))" if "sy \<in> set (bk_provides ?b)" "\<not> gone sy" for sy
      using that provided other files[of gone] by (cases "sym_path sy = fl") (auto simp: assms(6))
    show "sy \<in> set names \<or> \<not> gone sy \<and> supported (lighter p gone ?b) (u_id u) sy"
      if u: "u \<in> set (known_units cx)" "sy \<in> set (u_provides u)" "supported ?b (u_id u) sy" for u sy
    proof (cases "sym_path sy = fl \<and> u_id u = pl_unit p")
      case True
      then show ?thesis using u ctx_ok_units(1)[OF assms(1) u(1)] by (simp add: assms(7))
    next
      case False
      then have "supported (lighter p g ?b) (u_id u) sy" for g using lighter_supported[OF u(3), of p g] assms(5) by fastforce
      with supported_file[of "lighter p (\<lambda>_. False) ?b"] show ?thesis by (auto simp: assms(6))
    qed
  qed (use nonempty in \<open>simp_all add: assms(5,7)\<close>)
qed

lemma move_shared_ok:
  assumes "ctx_ok cx" "work_ok cx gs s" "in_group s n p" "set (bk_files (buckets s ! n)) \<noteq> {fe_file (pl_edit p)}"
  shows "\<exists>s'. move_shared cx (Group_b n) p others s = Inr s' \<and> work_ok cx gs s' \<and> group_edits s' = (group_edits s)[n := remove1 p (group_edits s ! n)]"
proof -
  let ?fl = "fe_file (pl_edit p)"
  let ?names = "filter (\<lambda>sy. sym_path sy = ?fl) (u_provides (unit_of cx (pl_unit p)))"
  let ?s1 = "relocate n Pre_b p ?names (\<lambda>sy. ?fl \<notin> set (bk_files (lighter p (\<lambda>_. False) (buckets s ! n))) \<and> sym_path sy = ?fl) s"
  have n: "n < length (buckets s)" using assms(3) by (simp add: in_group_def)
  have ok: "work_ok cx gs ?s1" by (rule shared_edit_relocates[OF assms refl refl refl])
  have "bk_files (pre_bucket ?s1) \<noteq> []" by (simp add: relocate_simps)
  from steady_pre_fields(2)[OF ok this] have after: "work_ok cx gs (?s1\<lparr>after_pre := ap\<rparr>)" for ap by (simp add: steady_def)
  have edits: "group_edits ?s1 = (group_edits s)[n := remove1 p (group_edits s ! n)]" using relocate_group_edits[OF assms(3)] by blast
  show ?thesis unfolding move_shared_def Let_def move_edit_group[OF assms(3)] and_then_def sum.case lifted_shared[OF n]
    using after edits by (simp add: group_edits_def)
qed

definition to_split :: "synth_ctx \<Rightarrow> string list list \<Rightarrow> string \<Rightarrow> nat \<Rightarrow> placed list \<Rightarrow> synth \<Rightarrow> bool" where
  "to_split cx gs fl n ps s \<longleftrightarrow> work_ok cx gs s \<and> distinct ps \<and> (\<forall>p\<in>set ps. fe_file (pl_edit p) = fl \<and> in_group s n p)"

lemma step3_edit_ok:
  assumes "ctx_ok cx" "groups_ok cx gs" "n < length gs" "to_split cx gs fl n (p # ps) s"
  shows "\<exists>s'. step3_edit cx fl keys (hd (gs ! n)) p s = Inr s' \<and> to_split cx gs fl n ps s'"
proof -
  have ok: "work_ok cx gs s" "fe_file (pl_edit p) = fl" "in_group s n p" using assms(4) by (simp_all add: to_split_def)
  then have key: "by_key s (hd (gs ! n)) = Group_b n" using key_ref(1)[OF assms(1,2) _ assms(3)] by (simp add: work_ok_def)
  have same: "to_split cx gs fl n ps (add_reason f why s)" for f why
    using assms(4) by (auto simp: to_split_def add_reason_def in_group_def)
  show ?thesis
  proof (cases "set (bk_files (buckets s ! n)) = {fl}")
    case True
    with same show ?thesis by (simp add: step3_edit_def key Let_def)
  next
    case False
    have "to_split cx gs fl n ps s'"
      if s': "work_ok cx gs s'" "group_edits s' = (group_edits s)[n := remove1 p (group_edits s ! n)]" for s'
    proof -
      have "in_group s' n q" if "in_group s n q" "q \<noteq> p" for q using that by (auto simp: in_group_edits s'(2))
      with s'(1) assms(4) show ?thesis by (auto simp: to_split_def)
    qed
    with same False move_shared_ok[OF assms(1) ok(1,3)] ok(2) show ?thesis by (simp add: step3_edit_def key Let_def) metis
  qed
qed

lemma step3_key_ok:
  assumes "ctx_ok cx" "groups_ok cx gs" "n < length gs" "work_ok cx gs s"
  shows "\<exists>s'. step3_key cx fl keys (hd (gs ! n)) s = Inr s' \<and> work_ok cx gs s'"
proof -
  have shape: "group_shape gs s" using assms(4) by (simp add: work_ok_def)
  then have n: "n < length (buckets s)" using shape_facts(1)[OF shape] assms(3) by simp
  have key: "by_key s (hd (gs ! n)) = Group_b n" using key_ref(1)[OF assms(1,2) shape assms(3)] .
  let ?ps = "filter (\<lambda>p. fe_file (pl_edit p) = fl \<and> fe_kind (pl_edit p) = Logic) (bk_edits (buckets s ! n))"
  have "to_split cx gs fl n ?ps s"
    using assms(4) n group_edits_distinct[OF assms(1,4) nth_mem[OF n]] by (auto simp: to_split_def in_group_def)
  from for_each_rest[of "to_split cx gs fl n" "step3_edit cx fl keys (hd (gs ! n))", OF step3_edit_ok[OF assms(1-3)] this]
  show ?thesis by (auto simp: step3_key_def key to_split_def)
qed

lemma group_editors_keys:
  assumes "(fl, keys) \<in> set (group_editors s)" "k \<in> set keys"
  shows "k \<in> set (map bk_key (buckets s))"
proof -
  let ?K = "\<lambda>d. set (concat (map snd d)) \<subseteq> set (map bk_key (buckets s))"
  have files: "?K (fold (\<lambda>p d. dict_set p (dict_get d p [] @ [bk_key b]) d) ps d)" if "b \<in> set (buckets s)" "?K d" for b ps and d :: "string list dict"
    using that(2)
  proof (induction ps arbitrary: d)
    case (Cons p ps)
    have "set (concat (map snd (dict_set p (dict_get d p [] @ [bk_key b]) d))) = insert (bk_key b) (set (concat (map snd d)))"
      using arg_cong[OF mset_concat_append_at[of p d "bk_key b"], of set_mset] by simp
    then have "?K (dict_set p (dict_get d p [] @ [bk_key b]) d)" using Cons.prems that(1) by simp
    with Cons.IH show ?case by simp
  qed simp
  have "?K (fold (\<lambda>b d. fold (\<lambda>p d. dict_set p (dict_get d p [] @ [bk_key b]) d) (bk_edit_files b) d) bs d)"
    if "set bs \<subseteq> set (buckets s)" "?K d" for bs and d :: "string list dict"
    using that
  proof (induction bs arbitrary: d)
    case (Cons b bs)
    then show ?case using files[of b d "bk_edit_files b"] by simp
  qed simp
  from this[of "buckets s" "[]"] have "?K (group_editors s)" by (simp add: group_editors_def)
  moreover have "k \<in> set (concat (map snd (group_editors s)))" using assms by force
  ultimately show ?thesis by blast
qed

lemma step3_ok:
  assumes "ctx_ok cx" "groups_ok cx gs" "work_ok cx gs s"
  shows "\<exists>s'. step3 cx s = Inr s' \<and> work_ok cx gs s'"
  unfolding step3_def
proof (rule for_each_keeps[where P = "work_ok cx gs", OF _ assms(3)])
  fix x s1 assume x: "x \<in> set (group_editors s)" and ok: "work_ok cx gs s1"
  obtain fl keys where fk: "x = (fl, keys)" by (cases x)
  have "map bk_key (buckets s) = map hd gs" using assms(3) by (simp add: work_ok_def group_shape_def)
  then have keys: "\<exists>n<length gs. k = hd (gs ! n)" if "k \<in> set keys" for k
    using group_editors_keys[of fl keys s k] x that by (auto simp: fk in_set_conv_nth)
  have "\<exists>s'. for_each (step3_key cx fl keys) keys (s1\<lparr>file_reasons := fr\<rparr>) = Inr s' \<and> work_ok cx gs s'" for fr
  proof (rule for_each_keeps)
    fix k s2 assume "k \<in> set keys" "work_ok cx gs s2"
    with keys[of k] step3_key_ok[OF assms(1,2)] show "\<exists>s'. step3_key cx fl keys k s2 = Inr s' \<and> work_ok cx gs s'" by blast
  qed (simp add: ok)
  then show "\<exists>s'. step3_file cx x s1 = Inr s' \<and> work_ok cx gs s'" using ok by (simp add: step3_file_def fk Let_def)
qed

section \<open>The last steps\<close>

lemma fold_keeps: "P s \<Longrightarrow> (\<And>x s. P s \<Longrightarrow> P (f x s)) \<Longrightarrow> P (fold f xs s)"
  by (induction xs arbitrary: s) auto

lemma share_files_ok:
  assumes "work_ok cx gs s"
  shows "work_ok cx gs (share_files cx s)"
proof -
  have share: "work_ok cx gs (share_with fl syms r s)" if "work_ok cx gs s" for fl syms r s
    using that change_at_core(1)[of "\<lambda>b. b\<lparr>bk_shared := bk_shared b @ [fl]\<rparr>" cx gs r s] by (simp add: share_with_def Let_def core_def)
  have "work_ok cx gs (share_file x s)" if "work_ok cx gs s" for x s
  proof -
    have "work_ok cx gs (fold (share_with fl syms) rs s)" for fl syms rs by (rule fold_keeps[where P = "work_ok cx gs", OF that], rule share)
    with that show ?thesis by (cases x) (simp add: share_file_def Let_def add_reason_def)
  qed
  then have "work_ok cx gs (fold share_file xs s)" for xs by (intro fold_keeps[where P = "work_ok cx gs", OF assms])
  with assms show ?thesis by (simp add: share_files_def)
qed

lemma record_order_ok:
  assumes "work_ok cx gs s"
  shows "work_ok cx gs (record_order cx s)"
proof (cases "off cx ''p3''")
  case False
  show ?thesis unfolding record_order_def Let_def
    by (simp only: False if_False, rule fold_keeps[where P = "work_ok cx gs", OF assms]) (simp split: prod.split)
qed (simp add: record_order_def assms)

lemma placing_keeps_the_invariants:
  assumes "ctx_ok cx" "groups_ok cx gs"
  shows "(\<exists>s. place_work cx gs ds = Inr s \<and> work_ok cx gs s) \<or> (\<exists>issues. place_work cx gs ds = Inl (Facts_conflict issues))"
proof -
  let ?s0 = "make_buckets cx gs ds"
  have check: "check_invariants cx step s = Inr s" if "work_ok cx gs s" for step s
    using work_ok_no_problems[OF assms that] by (simp add: check_invariants_def)
  note s0 = make_buckets_ok[OF assms, of ds]
  obtain s1 where s1: "step2 cx ?s0 = Inr s1" "work_ok cx gs s1" "all_supported cx s1" using step2_ok[OF assms s0] by auto
  obtain s2 where s2: "share_kept_registrations cx s1 = Inr s2" "work_ok cx gs s2" using share_kept_ok[OF assms(1) s1(2,3)] by blast
  obtain s3 where s3: "step3 cx s2 = Inr s3" "work_ok cx gs s3" using step3_ok[OF assms s2(2)] by blast
  have "work_ok cx gs (record_order cx (share_files cx s3))" using record_order_ok[OF share_files_ok[OF s3(2)]] .
  then show ?thesis by (simp add: place_work_def and_then_def check s0(1) s1 s2 s3 check_cycles_def Let_def)
qed

section \<open>Checked facts\<close>

lemma fold_dict_set_new:
  "distinct (map k xs) \<Longrightarrow> k ` set xs \<inter> fst ` set d = {} \<Longrightarrow> fold (\<lambda>x. dict_set (k x) (v x)) xs d = d @ map (\<lambda>x. (k x, v x)) xs"
  by (induction xs arbitrary: d) (auto simp: update_fresh)

text \<open>How the context sees a unit: a registration that is too large counts as logic, and uses of plain classes need their interface only.\<close>

definition seen_unit :: "facts \<Rightarrow> string set \<Rightarrow> fact_unit \<Rightarrow> fact_unit" where
  "seen_unit f ablated u =
     (if ''p2'' \<in> ablated then normalized u
      else class_uses_as_interface (listed_symbols (map normalized (f_units f))) (normalized u))"

lemma init_units_map:
  assumes "distinct (map u_id (f_units f))"
  shows "init_units f ablated = map (\<lambda>u. (u_id u, seen_unit f ablated u)) (f_units f)"
proof -
  have "fold (\<lambda>u. dict_set (u_id u) (normalized u)) (f_units f) [] = map (\<lambda>u. (u_id u, normalized u)) (f_units f)"
    using fold_dict_set_new[OF assms, of "[]" normalized] by simp
  then show ?thesis unfolding init_units_def seen_unit_def Let_def by (simp add: comp_def)
qed

lemma normalized_edit_files [simp]: "u_edit_files (normalized u) = u_edit_files u"
  by (simp add: normalized_def u_edit_files_def comp_def if_distrib cong: if_cong)

lemma seen_unit_simps [simp]:
  "u_id (seen_unit f ablated u) = u_id u" "u_create (seen_unit f ablated u) = u_create u" "u_provides (seen_unit f ablated u) = u_provides u"
  "u_edits (seen_unit f ablated u) = u_edits (normalized u)" "u_edit_files (seen_unit f ablated u) = u_edit_files u"
  by (simp_all add: seen_unit_def class_uses_as_interface_def normalized_def u_edit_files_def comp_def if_distrib cong: if_cong)

lemma seen_unit_ok:
  assumes "unit_edits_ok idx u" "unit_provides_ok u"
  shows "unit_edits_ok idx (seen_unit f ablated u)" "unit_provides_ok (seen_unit f ablated u)"
proof -
  have edits: "u_edits (seen_unit f ablated u) = map (\<lambda>e. if too_large e then e\<lparr>fe_kind := Logic, fe_standalone := False\<rparr> else e) (u_edits u)"
    by (simp add: normalized_def)
  show "unit_edits_ok idx (seen_unit f ablated u)" using assms(1) unfolding unit_edits_ok_def edits by auto
  show "unit_provides_ok (seen_unit f ablated u)" unfolding unit_provides_ok_def
  proof
    fix sy assume "sy \<in> set (u_provides (seen_unit f ablated u))"
    with assms(2) consider e where "e \<in> set (u_edits u)" "fe_file e = sym_path sy" "fe_kind e = Registration \<longrightarrow> sy \<in> set (fe_symbols e)"
      | "sym_path sy \<in> set (u_create u)" "sym_path sy \<notin> set (u_edit_files u)" by (auto simp: unit_provides_ok_def)
    then show "(\<exists>e\<in>set (u_edits (seen_unit f ablated u)). fe_file e = sym_path sy \<and> (fe_kind e = Registration \<longrightarrow> sy \<in> set (fe_symbols e)))
        \<or> sym_path sy \<in> set (u_create (seen_unit f ablated u)) \<and> sym_path sy \<notin> set (u_edit_files (seen_unit f ablated u))"
    proof cases
      case (1 e)
      let ?e = "if too_large e then e\<lparr>fe_kind := Logic, fe_standalone := False\<rparr> else e"
      have "?e \<in> set (u_edits (seen_unit f ablated u))" "fe_file ?e = sym_path sy" "fe_kind ?e = Registration \<longrightarrow> sy \<in> set (fe_symbols ?e)"
        using 1 unfolding edits by auto
      then show ?thesis by blast
    qed simp
  qed
qed

lemma symbol_providers_sound: "map_of (symbol_providers us) sy \<noteq> None \<Longrightarrow> \<exists>u\<in>set us. sy \<in> set (u_provides u)"
proof -
  have one: "fst ` set (fold (\<lambda>s d. dict_set s (dict_get d s [] @ [i]) d) ss d) = set ss \<union> fst ` set d" for i ss and d :: "string list dict"
    by (induction ss arbitrary: d) auto
  have "fst ` set (fold (\<lambda>u. fold (\<lambda>s d. dict_set s (dict_get d s [] @ [u_id u]) d) (u_provides u)) us d)
      = (\<Union>u\<in>set us. set (u_provides u)) \<union> fst ` set d" for d by (induction us arbitrary: d) (auto simp: one)
  from this[of "[]"] have "fst ` set (symbol_providers us) = (\<Union>u\<in>set us. set (u_provides u))" by (simp add: symbol_providers_def)
  then show "map_of (symbol_providers us) sy \<noteq> None \<Longrightarrow> \<exists>u\<in>set us. sy \<in> set (u_provides u)" by (auto simp: map_of_eq_None_iff)
qed

lemma unit_deps_provided: "d \<in> set (unit_deps_of us) \<Longrightarrow> \<exists>u\<in>set us. ud_symbol d \<in> set (u_provides u)"
proof -
  assume "d \<in> set (unit_deps_of us)"
  then have "dict_get (symbol_providers us) (ud_symbol d) [] \<noteq> []" by (auto simp: unit_deps_of_def)
  then have "map_of (symbol_providers us) (ud_symbol d) \<noteq> None" by (auto simp: dict_get_def split: option.splits)
  then show ?thesis by (rule symbol_providers_sound)
qed

lemma init_ctx_ok:
  assumes "facts_ok f items idx" "PRE \<notin> u_id ` set (f_units f)" "REG \<notin> u_id ` set (f_units f)"
  shows "ctx_ok (init_ctx f idx checks tests ablated)"
proof -
  let ?cx = "init_ctx f idx checks tests ablated"
  have d: "distinct (map u_id (f_units f))" using assms(1) by (simp add: facts_ok_def)
  have units: "cx_units ?cx = map (\<lambda>u. (u_id u, seen_unit f ablated u)) (f_units f)" by (simp add: init_ctx_def Let_def init_units_map[OF d])
  have known: "known_units ?cx = map (seen_unit f ablated) (f_units f)" by (simp add: known_units_def units)
  have rest: "unit_ids ?cx = map u_id (f_units f)" "cx_index ?cx = idx" "cx_deps ?cx = unit_deps_of (known_units ?cx)"
    by (simp_all add: init_ctx_def unit_ids_def Let_def known_units_def)
  have "unit_edits_ok idx u" "unit_provides_ok u" "\<forall>p\<in>set (u_create u). \<not> has_file idx p" if "u \<in> set (known_units ?cx)" for u
    using that assms(1) seen_unit_ok[of idx] by (auto simp: known facts_ok_def)
  moreover have "distinct (concat (map u_create (known_units ?cx)))" using assms(1) by (simp add: known facts_ok_def comp_def)
  moreover have "\<forall>d\<in>set (cx_deps ?cx). \<exists>u\<in>set (known_units ?cx). ud_symbol d \<in> set (u_provides u)" using unit_deps_provided unfolding rest by blast
  moreover have "map fst (cx_units ?cx) = unit_ids ?cx" "map u_id (known_units ?cx) = unit_ids ?cx" by (simp_all add: units known rest comp_def)
  ultimately show ?thesis using d assms(2,3) unfolding ctx_ok_def rest by auto
qed

text \<open>C5: For facts that pass the checks and whose units are not called PRE or REG, the synthesis places the work without an internal error: its own checks of
  its invariants never fail and no edit it moves is missing. It either reports that the facts contradict each other, or it returns a state in which every
  edit of every unit is in exactly one node, every new file is created by exactly one node, every symbol a unit provides is provided by some node,
  a node provides only symbols of files it edits or creates, what a node fills in is created by PRE, and no group is left without a file.\<close>

theorem placing_checked_facts:
  assumes "facts_ok f items idx" "PRE \<notin> u_id ` set (f_units f)" "REG \<notin> u_id ` set (f_units f)"
    and "cx = init_ctx f idx checks tests ablated"
  shows "\<exists>gs ds. form_groups cx (init_decisions f ablated) = Some (gs, ds) \<and>
    (case place_work cx gs ds of
       Inl e \<Rightarrow> \<exists>issues. e = Facts_conflict issues
     | Inr s \<Rightarrow> map bk_units (buckets s) = gs
         \<and> mset (concat (map bk_edits (all_buckets s)))
             = mset (concat (map (\<lambda>u. map (\<lambda>e. \<lparr>pl_unit = u_id u, pl_edit = e\<rparr>) (u_edits (normalized u))) (f_units f)))
         \<and> mset (concat (map bk_create (all_buckets s))) = mset (concat (map u_create (f_units f)))
         \<and> (\<forall>u\<in>set (f_units f). \<forall>sy\<in>set (u_provides u). \<exists>b\<in>set (all_buckets s). sy \<in> set (bk_provides b))
         \<and> (\<forall>b\<in>set (all_buckets s). (\<forall>sy\<in>set (bk_provides b). sym_path sy \<in> set (bk_files b)) \<and> set (bk_fill b) \<subseteq> set (bk_create (pre_bucket s)))
         \<and> (\<forall>b\<in>set (buckets s). bk_files b \<noteq> [])
         \<and> invariant_problems cx s = [])"
proof -
  have cx: "ctx_ok cx" unfolding assms(4) using init_ctx_ok[OF assms(1-3)] .
  have d: "distinct (map u_id (f_units f))" using assms(1) by (simp add: facts_ok_def)
  have known: "known_units cx = map (seen_unit f ablated) (f_units f)"
    unfolding assms(4) by (simp add: known_units_def init_ctx_def Let_def init_units_map[OF d])
  have "distinct (unit_ids cx)" "\<forall>t\<in>set (f_together (cx_facts cx)). set (tg_units t) \<subseteq> set (unit_ids cx)"
    using assms(1) by (simp_all add: assms(4) init_ctx_def unit_ids_def Let_def facts_ok_def)
  from form_groups_result[OF this, of "init_decisions f ablated"] obtain gs ds where
    gs: "form_groups cx (init_decisions f ablated) = Some (gs, ds)" "groups_ok cx gs" by blast
  have placed: "all_placed cx = concat (map (\<lambda>u. map (\<lambda>e. \<lparr>pl_unit = u_id u, pl_edit = e\<rparr>) (u_edits (normalized u))) (f_units f))"
    "concat (map u_create (known_units cx)) = concat (map u_create (f_units f))"
    by (simp_all add: all_placed_def known comp_def)
  from placing_keeps_the_invariants[OF cx gs(2), of ds] show ?thesis
  proof
    assume "\<exists>s. place_work cx gs ds = Inr s \<and> work_ok cx gs s"
    then obtain s where s: "place_work cx gs ds = Inr s" "work_ok cx gs s" by blast
    have "\<exists>b\<in>set (all_buckets s). sy \<in> set (bk_provides b)" if "u \<in> set (f_units f)" "sy \<in> set (u_provides u)" for u sy
    proof -
      have "seen_unit f ablated u \<in> set (known_units cx)" "sy \<in> set (u_provides (seen_unit f ablated u))" using that by (simp_all add: known)
      with s(2) show ?thesis unfolding work_ok_def provides_kept_def all_buckets_def by fastforce
    qed
    with s work_ok_no_problems[OF cx gs(2) s(2)] gs(1) show ?thesis
      by (auto simp: work_ok_def group_shape_def edits_kept_def creates_kept_def provides_kept_def placed)
  qed (use gs(1) in auto)
qed

end
