(* ===== verification/Parallelism.thy ===== *)
theory Parallelism
  imports Derive Synth_Groups
begin

text \<open>
  How parallel a plan is, \<open>measure_parallelism\<close> of \<open>taskgraph/synthesize.py\<close>: the heaviest chain of nodes along the edges, by a search that remembers
  the best chain ending at every node, and the share of the work that lies on it.

  The share is a float rounded to four decimals. The quotient of two integers is the double nearest to it, and rounding is exact on that double, so
  both steps are computed on integers here and the share is given in ten-thousandths. Python stops a recursion of about a thousand calls; that bound is not
  modelled. A search in a cyclic plan does not end; it runs out of fuel here.

  Shown: on an acyclic plan the search ends, the path it reports is a chain of edges that carries the reported work, and no chain carries more.
\<close>

section \<open>Shares\<close>

definition round_half_even :: "int \<Rightarrow> int \<Rightarrow> int" where
  "round_half_even n d = (let q = n div d; r = n mod d in if 2 * r < d \<or> 2 * r = d \<and> even q then q else q + 1)"

text \<open>How often \<open>a\<close> is doubled until it reaches \<open>b\<close>.\<close>

function doublings :: "int \<Rightarrow> int \<Rightarrow> nat" where
  "doublings a b = (if a \<le> 0 \<or> b \<le> a then 0 else Suc (doublings (2 * a) b))"
  by pat_completeness auto
termination by (relation "measure (\<lambda>(a, b). nat (b - a))") auto

declare doublings.simps [simp del]

text \<open>\<open>round(a / b, 4)\<close> for \<open>a\<close> at most \<open>b\<close>, in ten-thousandths: the quotient has 53 significant bits.\<close>

definition rounded_share :: "int \<Rightarrow> int \<Rightarrow> int" where
  "rounded_share a b =
     (let scale = 2 ^ (52 + doublings a b); mantissa = round_half_even (a * scale) b in round_half_even (mantissa * 10000) scale)"

section \<open>The heaviest chain\<close>

type_synonym memo = "(int \<times> string option) dict"

text \<open>\<open>max\<close> over the tuples of a weight and the negated position of a node in the plan.\<close>

definition better :: "string list \<Rightarrow> int \<times> string \<Rightarrow> int \<times> string \<Rightarrow> bool" where
  "better order x y = (fst x > fst y \<or> fst x = fst y \<and> index_of (snd x) order < index_of (snd y) order)"

fun top_from :: "string list \<Rightarrow> int \<times> string \<Rightarrow> (int \<times> string) list \<Rightarrow> int \<times> string" where
  "top_from order x [] = x"
| "top_from order x (y # ys) = top_from order (if better order y x then y else x) ys"

fun top_of :: "string list \<Rightarrow> (int \<times> string) list \<Rightarrow> int \<times> string option" where
  "top_of order [] = (0, None)"
| "top_of order (x # xs) = (case top_from order x xs of (h, p) \<Rightarrow> (h, Some p))"

fun visit_all :: "(string \<Rightarrow> memo \<Rightarrow> (int \<times> memo) option) \<Rightarrow> string list \<Rightarrow> memo \<Rightarrow> ((int \<times> string) list \<times> memo) option" where
  "visit_all visit [] m = Some ([], m)"
| "visit_all visit (p # ps) m =
     Option.bind (visit p m) (\<lambda>(h, m). Option.bind (visit_all visit ps m) (\<lambda>(rest, m). Some ((h, p) # rest, m)))"

fun heaviest :: "nat \<Rightarrow> string list dict \<Rightarrow> string list \<Rightarrow> int dict \<Rightarrow> string \<Rightarrow> memo \<Rightarrow> (int \<times> memo) option" where
  "heaviest 0 preds order work i m = None"
| "heaviest (Suc fuel) preds order work i m =
     (case map_of m i of
        Some (h, prev) \<Rightarrow> Some (h, m)
      | None \<Rightarrow> Option.bind (visit_all (heaviest fuel preds order work) (dict_get preds i []) m) (\<lambda>(previous, m).
          let top = top_of order previous; h = dict_get work i 0 + fst top in Some (h, dict_set i (h, snd top) m)))"

text \<open>\<open>while before[path[-1]] is not None\<close>, the path in the order of the result.\<close>

fun walk_back :: "nat \<Rightarrow> memo \<Rightarrow> string list \<Rightarrow> string list option" where
  "walk_back 0 m trail = None"
| "walk_back (Suc fuel) m trail =
     (case snd (dict_get m (hd trail) (0, None)) of None \<Rightarrow> Some trail | Some p \<Rightarrow> walk_back fuel m (p # trail))"

record parallelism =
  node_work :: "int dict"
  total_work :: int
  critical_work :: int
  work_share :: int
  critical_path :: "string list"
  collapsed :: bool

definition measure_parallelism :: "graph \<Rightarrow> int dict \<Rightarrow> parallelism option" where
  "measure_parallelism g work =
     (let order = node_ids g; fuel = length order in
      Option.bind (visit_all (heaviest (Suc fuel) (predecessors g) order work) order []) (\<lambda>(found, m).
      case top_of order (map (\<lambda>i. (fst (dict_get m i (0, None)), i)) order) of
        (h, None) \<Rightarrow> None
      | (h, Some last_node) \<Rightarrow> Option.bind (walk_back (Suc fuel) m [last_node]) (\<lambda>trail.
          let total = sum_list (map (\<lambda>i. dict_get work i 0) order) in
          Some \<lparr>node_work = map (\<lambda>i. (i, dict_get work i 0)) (py_unique order), total_work = total, critical_work = h,
                work_share = (if total = 0 then 0 else rounded_share h total),
                critical_path = trail, collapsed = False\<rparr>)))"

section \<open>The best of a list\<close>

lemma top_from_in: "top_from order x ys \<in> set (x # ys)"
proof (induction ys arbitrary: x)
  case (Cons y ys)
  from Cons[of "if better order y x then y else x"] show ?case by (auto split: if_splits)
qed simp

lemma top_from_max: "y \<in> set (x # ys) \<Longrightarrow> fst y \<le> fst (top_from order x ys)"
proof (induction ys arbitrary: x y)
  case (Cons z ys)
  let ?w = "if better order z x then z else x"
  have "fst x \<le> fst ?w" "fst z \<le> fst ?w" by (auto simp: better_def)
  moreover have "fst ?w \<le> fst (top_from order ?w ys)" by (rule Cons.IH) simp
  moreover have "y = x \<or> y = z \<or> y \<in> set ys" using Cons.prems by simp
  moreover have "y \<in> set ys \<Longrightarrow> fst y \<le> fst (top_from order ?w ys)" by (rule Cons.IH) simp
  ultimately show ?case unfolding top_from.simps by (elim disjE) simp_all
qed simp

lemma top_of_None: "snd (top_of order xs) = None \<longleftrightarrow> xs = []"
  by (cases xs) (auto split: prod.splits)

lemma top_of_Some: "top_of order xs = (h, Some p) \<Longrightarrow> (h, p) \<in> set xs \<and> (\<forall>y\<in>set xs. fst y \<le> h)"
  using top_from_in[of order "hd xs" "tl xs"] top_from_max[of _ "hd xs" "tl xs" order] by (cases xs) (auto split: prod.splits)

section \<open>What the search remembers\<close>

definition best :: "memo \<Rightarrow> string \<Rightarrow> int" where
  "best m i = fst (dict_get m i (0, None))"

definition before :: "memo \<Rightarrow> string \<Rightarrow> string option" where
  "before m i = snd (dict_get m i (0, None))"

definition known :: "memo \<Rightarrow> string set" where
  "known m = dom (map_of m)"

abbreviation work_at :: "int dict \<Rightarrow> string \<Rightarrow> int" where
  "work_at work i \<equiv> dict_get work i 0"

text \<open>The nodes a node waits for.\<close>

definition ahead_of :: "graph \<Rightarrow> string \<Rightarrow> string set" where
  "ahead_of g i = {x. (x, i) \<in> (edge_rel g)\<^sup>+}"

definition entry_ok :: "graph \<Rightarrow> int dict \<Rightarrow> memo \<Rightarrow> string \<Rightarrow> bool" where
  "entry_ok g work m i \<longleftrightarrow> (\<forall>p. (p, i) \<in> edge_rel g \<longrightarrow> p \<in> known m \<and> best m p + work_at work i \<le> best m i)
     \<and> (case before m i of None \<Rightarrow> best m i = work_at work i
        | Some p \<Rightarrow> (p, i) \<in> edge_rel g \<and> best m i = best m p + work_at work i)"

definition memo_ok :: "graph \<Rightarrow> int dict \<Rightarrow> memo \<Rightarrow> bool" where
  "memo_ok g work m \<longleftrightarrow> (\<forall>i\<in>known m. entry_ok g work m i)"

text \<open>A search from the nodes \<open>is\<close> adds entries for nodes above them only and changes none.\<close>

definition extends :: "graph \<Rightarrow> string set \<Rightarrow> memo \<Rightarrow> memo \<Rightarrow> bool" where
  "extends g new m m' \<longleftrightarrow> known m \<subseteq> known m' \<and> known m' \<subseteq> known m \<union> new \<and> (\<forall>i\<in>known m. best m' i = best m i \<and> before m' i = before m i)"

lemma extends_refl: "extends g {} m m"
  by (simp add: extends_def)

lemma extends_trans: "extends g A m m' \<Longrightarrow> extends g B m' m'' \<Longrightarrow> extends g (A \<union> B) m m''"
  by (auto simp: extends_def)

lemma known_set: "known (dict_set i v m) = insert i (known m)"
  by (auto simp: known_def update_conv')

lemma best_set: "best (dict_set i (h, prev) m) j = (if j = i then h else best m j)" "before (dict_set i (h, prev) m) j = (if j = i then prev else before m j)"
  by (simp_all add: best_def before_def dict_get_set)

lemma extends_set: "extends g A m m' \<Longrightarrow> A \<subseteq> B \<Longrightarrow> i \<notin> known m \<Longrightarrow> extends g (insert i B) m (dict_set i v m')"
  using best_set[of i "fst v" "snd v" m'] unfolding extends_def known_set by auto

lemma ahead_step: "acyclic (edge_rel g) \<Longrightarrow> (p, i) \<in> edge_rel g \<Longrightarrow> insert p (ahead_of g p) \<subseteq> ahead_of g i \<and> p \<notin> ahead_of g p \<and> i \<notin> insert p (ahead_of g p)"
  by (auto simp: ahead_of_def acyclic_def intro: trancl_into_trancl r_into_trancl dest: trancl_into_trancl)

lemma finite_ahead [simp]: "finite (ahead_of g i)"
proof -
  have "ahead_of g i \<subseteq> set (node_ids g)" using trancl_subset_Sigma[OF edge_rel_ids[of g]] by (auto simp: ahead_of_def)
  then show ?thesis using finite_subset by blast
qed

lemma card_ahead_step: "acyclic (edge_rel g) \<Longrightarrow> (p, i) \<in> edge_rel g \<Longrightarrow> card (ahead_of g p) < card (ahead_of g i)"
  using ahead_step[of g p i] by (intro psubset_card_mono) auto

text \<open>What a search from one node gives, and from several in turn.\<close>

definition visits :: "graph \<Rightarrow> int dict \<Rightarrow> (string \<Rightarrow> memo \<Rightarrow> (int \<times> memo) option) \<Rightarrow> string \<Rightarrow> bool" where
  "visits g work visit i \<longleftrightarrow> (\<forall>m. memo_ok g work m \<longrightarrow>
     (\<exists>m'. visit i m = Some (best m' i, m') \<and> memo_ok g work m' \<and> extends g (insert i (ahead_of g i)) m m' \<and> i \<in> known m'))"

lemma visit_all_visits:
  assumes "\<forall>p\<in>set ps. visits g work visit p" "memo_ok g work m"
  shows "\<exists>m'. visit_all visit ps m = Some (map (\<lambda>p. (best m' p, p)) ps, m') \<and> memo_ok g work m'
    \<and> extends g (\<Union>p\<in>set ps. insert p (ahead_of g p)) m m' \<and> set ps \<subseteq> known m'"
  using assms
proof (induction ps arbitrary: m)
  case (Cons p ps)
  from Cons.prems obtain m1 where m1: "visit p m = Some (best m1 p, m1)" "memo_ok g work m1" "extends g (insert p (ahead_of g p)) m m1" "p \<in> known m1"
    by (auto simp: visits_def)
  from Cons.IH[OF _ m1(2)] Cons.prems(1) obtain m2 where
    m2: "visit_all visit ps m1 = Some (map (\<lambda>p. (best m2 p, p)) ps, m2)" "memo_ok g work m2"
      "extends g (\<Union>p\<in>set ps. insert p (ahead_of g p)) m1 m2" "set ps \<subseteq> known m2" by auto
  have "best m1 p = best m2 p" "p \<in> known m2" using m1(4) m2(3) by (auto simp: extends_def)
  then show ?case using m1 m2 extends_trans[OF m1(3) m2(3)] by simp
qed (simp add: extends_def)

lemma heaviest_visits:
  assumes "acyclic (edge_rel g)"
  shows "card (ahead_of g i) < fuel \<Longrightarrow> visits g work (heaviest fuel (predecessors g) order work) i"
proof (induction fuel arbitrary: i)
  case (Suc fuel)
  let ?ps = "dict_get (predecessors g) i []"
  have preds: "set ?ps = {p. (p, i) \<in> edge_rel g}" by (rule adj_of_predecessors)
  have ih: "\<forall>p\<in>set ?ps. visits g work (heaviest fuel (predecessors g) order work) p"
  proof
    fix p assume "p \<in> set ?ps"
    then have "card (ahead_of g p) < card (ahead_of g i)" using preds card_ahead_step[OF assms] by blast
    with Suc.prems show "visits g work (heaviest fuel (predecessors g) order work) p" by (intro Suc.IH) simp
  qed
  show ?case unfolding visits_def
  proof (intro allI impI)
    fix m assume ok: "memo_ok g work m"
    show "\<exists>m'. heaviest (Suc fuel) (predecessors g) order work i m = Some (best m' i, m') \<and> memo_ok g work m'
        \<and> extends g (insert i (ahead_of g i)) m m' \<and> i \<in> known m'"
    proof (cases "map_of m i")
      case (Some e)
      then have "i \<in> known m" "best m i = fst e" by (auto simp: known_def best_def dict_get_def)
      with Some ok show ?thesis by (auto simp: extends_def split: prod.splits)
    next
      case None
      from visit_all_visits[OF ih ok] obtain m1 where
        m1: "visit_all (heaviest fuel (predecessors g) order work) ?ps m = Some (map (\<lambda>p. (best m1 p, p)) ?ps, m1)" "memo_ok g work m1"
          "extends g (\<Union>p\<in>set ?ps. insert p (ahead_of g p)) m m1" "set ?ps \<subseteq> known m1" by blast
      have "i \<notin> known m" using None by (simp add: known_def domIff)
      moreover have "i \<notin> (\<Union>p\<in>set ?ps. insert p (ahead_of g p))" using ahead_step[OF assms] preds by blast
      ultimately have new: "i \<notin> known m1" using m1(3) by (auto simp: extends_def)
      let ?top = "top_of order (map (\<lambda>p. (best m1 p, p)) ?ps)"
      let ?m' = "dict_set i (work_at work i + fst ?top, snd ?top) m1"
      have old: "entry_ok g work ?m' j" if "j \<in> known m1" for j
        using m1(2) that new unfolding memo_ok_def entry_ok_def known_set best_set
        by (auto simp: entry_ok_def split: option.splits)
      have here: "entry_ok g work ?m' i"
      proof (cases "snd ?top")
        case None
        then have "?ps = []" by (simp add: top_of_None)
        moreover from this have "(p, i) \<notin> edge_rel g" for p using preds by auto
        ultimately show ?thesis by (simp add: entry_ok_def best_set)
      next
        case (Some p)
        then have "?top = (fst ?top, Some p)" by (metis prod.collapse)
        from top_of_Some[OF this] have top: "p \<in> set ?ps" "fst ?top = best m1 p" "\<forall>q\<in>set ?ps. best m1 q \<le> fst ?top" by auto
        have "q \<in> set ?ps \<longleftrightarrow> (q, i) \<in> edge_rel g" for q using preds by simp
        moreover have "q \<noteq> i" if "(q, i) \<in> edge_rel g" for q using that edge_rel_irrefl by blast
        ultimately show ?thesis using top m1(4) Some unfolding entry_ok_def known_set best_set by auto
      qed
      have "(\<Union>p\<in>set ?ps. insert p (ahead_of g p)) \<subseteq> ahead_of g i"
      proof (rule UN_least)
        fix p assume "p \<in> set ?ps"
        then show "insert p (ahead_of g p) \<subseteq> ahead_of g i" using ahead_step[OF assms] preds by blast
      qed
      from extends_set[OF m1(3) this \<open>i \<notin> known m\<close>] have "extends g (insert i (ahead_of g i)) m ?m'" by blast
      with old here m1(1) None show ?thesis by (simp add: memo_ok_def known_set best_set Let_def)
    qed
  qed
qed simp

section \<open>Chains\<close>

fun chain :: "graph \<Rightarrow> string list \<Rightarrow> bool" where
  "chain g [] = False"
| "chain g [i] = (i \<in> set (node_ids g))"
| "chain g (i # j # js) = ((i, j) \<in> edge_rel g \<and> chain g (j # js))"

definition chain_work :: "int dict \<Rightarrow> string list \<Rightarrow> int" where
  "chain_work work c = sum_list (map (work_at work) c)"

lemma chain_nodes: "chain g c \<Longrightarrow> set c \<subseteq> set (node_ids g)"
  using edge_rel_ids[of g] by (induction g c rule: chain.induct) auto

lemma chain_distinct:
  assumes "acyclic (edge_rel g)"
  shows "chain g (i # js) \<Longrightarrow> distinct (i # js) \<and> (\<forall>j\<in>set js. (i, j) \<in> (edge_rel g)\<^sup>+)"
proof (induction js arbitrary: i)
  case (Cons j js)
  from Cons.prems have step: "(i, j) \<in> edge_rel g" "chain g (j # js)" by simp_all
  then have "\<forall>k\<in>set (j # js). (i, k) \<in> (edge_rel g)\<^sup>+" using Cons.IH[of j] by (auto intro: trancl_into_trancl2)
  with Cons.IH[OF step(2)] assms show ?case by (auto simp: acyclic_def)
qed simp

lemma best_low:
  assumes "acyclic (edge_rel g)" "\<forall>i\<in>set (node_ids g). entry_ok g work m i" "\<forall>i. 0 \<le> work_at work i"
  shows "i \<in> set (node_ids g) \<longrightarrow> work_at work i \<le> best m i"
proof -
  have "wf (edge_rel g)" using assms(1) by (simp add: finite_acyclic_wf)
  then show ?thesis
  proof (induction i rule: wf_induct_rule)
    case (less i)
    have "0 \<le> best m p" if "(p, i) \<in> edge_rel g" for p
    proof -
      have "work_at work p \<le> best m p" using that less edge_rel_ids by blast
      with assms(3) show ?thesis by (meson order_trans)
    qed
    then show ?case using assms(2) by (auto simp: entry_ok_def split: option.splits)
  qed
qed

lemma chain_from:
  assumes "\<forall>i\<in>set (node_ids g). entry_ok g work m i"
  shows "chain g (i # js) \<Longrightarrow> best m i + chain_work work js \<le> best m (last (i # js))"
proof (induction js arbitrary: i)
  case (Cons j js)
  then have "(i, j) \<in> edge_rel g" "chain g (j # js)" by simp_all
  moreover from this have "j \<in> set (node_ids g)" using edge_rel_ids by blast
  ultimately show ?case using Cons.IH[of j] assms by (force simp: entry_ok_def chain_work_def)
qed (simp add: chain_work_def)

lemma chain_work_bound:
  assumes "acyclic (edge_rel g)" "\<forall>i\<in>set (node_ids g). entry_ok g work m i" "\<forall>i. 0 \<le> work_at work i" "chain g c"
  shows "chain_work work c \<le> best m (last c)"
proof (cases c)
  case (Cons i js)
  with assms(4) chain_nodes have "i \<in> set (node_ids g)" by fastforce
  with best_low[OF assms(1-3), of i] chain_from[OF assms(2), of i js] assms(4) Cons show ?thesis by (simp add: chain_work_def)
qed (use assms(4) in simp)

lemma walk_back_chain:
  assumes "acyclic (edge_rel g)" "\<forall>i\<in>set (node_ids g). entry_ok g work m i"
  shows "card (ahead_of g i) < fuel \<Longrightarrow> chain g (i # js) \<Longrightarrow>
    \<exists>c. walk_back fuel m (i # js) = Some c \<and> chain g c \<and> last c = last (i # js) \<and> chain_work work c = best m i + chain_work work js"
proof (induction fuel arbitrary: i js)
  case (Suc fuel)
  have i: "i \<in> set (node_ids g)" using Suc.prems(2) chain_nodes by fastforce
  show ?case
  proof (cases "before m i")
    case None
    then show ?thesis using Suc.prems(2) assms(2) i by (auto simp: before_def entry_ok_def chain_work_def)
  next
    case (Some p)
    with assms(2) i have p: "(p, i) \<in> edge_rel g" "best m i = best m p + work_at work i" by (auto simp: entry_ok_def)
    with Suc.prems have "card (ahead_of g p) < fuel" "chain g (p # i # js)" using card_ahead_step[OF assms(1) p(1)] by simp_all
    from Suc.IH[OF this] Some p(2) show ?thesis by (auto simp: before_def chain_work_def)
  qed
qed simp

section \<open>The measure\<close>

lemma card_ahead_nodes: "card (ahead_of g i) \<le> length (node_ids g)"
proof -
  have "ahead_of g i \<subseteq> set (node_ids g)" using trancl_subset_Sigma[OF edge_rel_ids[of g]] by (auto simp: ahead_of_def)
  then have "card (ahead_of g i) \<le> card (set (node_ids g))" by (intro card_mono) simp_all
  also have "\<dots> \<le> length (node_ids g)" by (rule card_length)
  finally show ?thesis .
qed

lemma chain_within_total:
  assumes "distinct (node_ids g)" "acyclic (edge_rel g)" "\<forall>i. 0 \<le> work_at work i" "chain g c"
  shows "chain_work work c \<le> sum_list (map (work_at work) (node_ids g))"
proof -
  have c: "distinct c" "set c \<subseteq> set (node_ids g)" using chain_distinct[OF assms(2), of "hd c" "tl c"] chain_nodes[OF assms(4)] assms(4) by (cases c; auto)+
  then have "chain_work work c = (\<Sum>i\<in>set c. work_at work i)" by (simp add: chain_work_def sum_list_distinct_conv_sum_set)
  also have "\<dots> \<le> (\<Sum>i\<in>set (node_ids g). work_at work i)" using c(2) assms(3) by (intro sum_mono2) auto
  finally show ?thesis using assms(1) by (simp add: sum_list_distinct_conv_sum_set)
qed

lemma measure_parallelism_result:
  assumes "distinct (node_ids g)" "acyclic (edge_rel g)" "nodes g \<noteq> []" "\<forall>i. 0 \<le> work_at work i"
  shows "\<exists>r. measure_parallelism g work = Some r \<and> chain g (critical_path r) \<and> chain_work work (critical_path r) = critical_work r
    \<and> (\<forall>c. chain g c \<longrightarrow> chain_work work c \<le> critical_work r)
    \<and> total_work r = sum_list (map (work_at work) (node_ids g)) \<and> critical_work r \<le> total_work r
    \<and> work_share r = (if total_work r = 0 then 0 else rounded_share (critical_work r) (total_work r)) \<and> \<not> collapsed r"
proof -
  let ?order = "node_ids g"
  let ?visit = "heaviest (Suc (length ?order)) (predecessors g) ?order work"
  have fuel: "card (ahead_of g i) < Suc (length ?order)" for i using card_ahead_nodes[of g i] by simp
  have "\<forall>p\<in>set ?order. visits g work ?visit p" using heaviest_visits[OF assms(2) fuel] by blast
  moreover have "memo_ok g work []" by (simp add: memo_ok_def known_def)
  ultimately obtain m where m: "visit_all ?visit ?order [] = Some (map (\<lambda>p. (best m p, p)) ?order, m)" "memo_ok g work m" "set ?order \<subseteq> known m"
    using visit_all_visits by blast
  have ok: "\<forall>i\<in>set ?order. entry_ok g work m i" using m(2,3) by (auto simp: memo_ok_def)
  let ?all = "map (\<lambda>i. (best m i, i)) ?order"
  have "?order \<noteq> []" using assms(3) by (simp add: node_ids_def)
  then have "snd (top_of ?order ?all) \<noteq> None" by (simp add: top_of_None)
  then obtain h e where top: "top_of ?order ?all = (h, Some e)" by (cases "top_of ?order ?all") auto
  from top_of_Some[OF this] have e: "e \<in> set ?order" "h = best m e" "\<forall>i\<in>set ?order. best m i \<le> h" by auto
  have "chain g [e]" using e(1) by simp
  from walk_back_chain[OF assms(2) ok fuel this] obtain c where
    c: "walk_back (Suc (length ?order)) m [e] = Some c" "chain g c" "chain_work work c = h" by (auto simp: e(2) chain_work_def)
  have "chain_work work c' \<le> h" if "chain g c'" for c'
  proof -
    have "last c' \<in> set ?order" using that chain_nodes[OF that] by (cases c') auto
    with chain_work_bound[OF assms(2) ok assms(4) that] e(3) show ?thesis by fastforce
  qed
  moreover have "h \<le> sum_list (map (work_at work) ?order)" using chain_within_total[OF assms(1,2,4) c(2)] c(3) by simp
  ultimately show ?thesis
    using m(1) top c unfolding measure_parallelism_def Let_def best_def by simp
qed

section \<open>How exact the share is\<close>

lemma round_half_even_near:
  assumes "0 < d"
  shows "2 * (d * round_half_even n d) \<le> 2 * n + d" "2 * n \<le> 2 * (d * round_half_even n d) + d"
proof -
  define q r where "q = n div d" and "r = n mod d"
  have "n = d * q + r" "0 \<le> r" "r < d" using assms by (simp_all add: q_def r_def)
  moreover have "round_half_even n d = q \<and> 2 * r \<le> d \<or> round_half_even n d = q + 1 \<and> d \<le> 2 * r"
    by (auto simp: round_half_even_def Let_def q_def r_def)
  ultimately show "2 * (d * round_half_even n d) \<le> 2 * n + d" "2 * n \<le> 2 * (d * round_half_even n d) + d"
    by (elim disjE conjE; simp add: distrib_left)+
qed

lemma rounded_share_near:
  assumes "0 < b"
  shows "10 * a \<le> 7 * b \<Longrightarrow> rounded_share a b \<le> 7000" "rounded_share a b \<le> 7000 \<Longrightarrow> 10000 * a \<le> 7001 * b"
proof -
  define S :: int where "S = 2 ^ (52 + doublings a b)"
  define M where "M = round_half_even (a * S) b"
  define R where "R = round_half_even (M * 10000) S"
  have R: "rounded_share a b = R" unfolding rounded_share_def R_def M_def S_def Let_def ..
  have "(2::int) ^ 52 \<le> S" unfolding S_def by (rule power_increasing) simp_all
  then have S: "10000 < S" by simp
  have big: "10000 * b < b * S" using mult_strict_left_mono[OF S assms] by (simp add: mult.commute)
  have m: "2 * (b * M) \<le> 2 * (a * S) + b" "2 * (a * S) \<le> 2 * (b * M) + b" using round_half_even_near[OF assms, of "a * S"] by (simp_all add: M_def)
  have r: "2 * (S * R) \<le> 20000 * M + S" "20000 * M \<le> 2 * (S * R) + S" using round_half_even_near[of S "M * 10000"] S by (simp_all add: R_def)
  show "rounded_share a b \<le> 7000" if "10 * a \<le> 7 * b"
  proof (rule ccontr)
    assume "\<not> rounded_share a b \<le> 7000"
    then have "S * 7001 \<le> S * R" using S by (simp add: R)
    then have "14001 * S \<le> 20000 * M" using r(1) by linarith
    then have "b * (14001 * S) \<le> b * (20000 * M)" using assms by simp
    moreover have "S * (10 * a) \<le> S * (7 * b)" using that S by simp
    ultimately show False using m(1) big by (simp add: algebra_simps)
  qed
  show "10000 * a \<le> 7001 * b" if "rounded_share a b \<le> 7000"
  proof -
    have "S * R \<le> S * 7000" using that S by (simp add: R)
    then have "20000 * M \<le> 14001 * S" using r(2) by linarith
    then have "b * (20000 * M) \<le> b * (14001 * S)" using assms by simp
    then have "S * (10000 * a) \<le> S * (7001 * b)" using m(2) big by (simp add: algebra_simps)
    then show ?thesis using S by simp
  qed
qed

lemma share_decides:
  assumes "0 \<le> c" "c \<le> t" "k = (if t = 0 then 0 else rounded_share c t)"
  shows "10 * c \<le> 7 * t \<longrightarrow> k \<le> 7000" "k \<le> 7000 \<longrightarrow> 10000 * c \<le> 7001 * t"
  using assms rounded_share_near[of t c] by (cases "t = 0"; simp)+

section \<open>Property\<close>

text \<open>C33: On an acyclic plan with unique ids and work that is not negative, the search for the heaviest chain ends: the path is a chain of nodes along the
  edges that carries the reported work, and no chain of the plan carries more. The work on it is at most the whole work, and the rounded share decides
  the limit of 0.7 up to one ten-thousandth.\<close>

theorem measure_parallelism_heaviest:
  assumes "distinct (node_ids g)" "acyclic (edge_rel g)" "nodes g \<noteq> []" "\<forall>i. 0 \<le> work_at work i"
  shows "\<exists>r. measure_parallelism g work = Some r \<and> chain g (critical_path r) \<and> chain_work work (critical_path r) = critical_work r
    \<and> (\<forall>c. chain g c \<longrightarrow> chain_work work c \<le> critical_work r)
    \<and> total_work r = sum_list (map (work_at work) (node_ids g)) \<and> critical_work r \<le> total_work r
    \<and> (10 * critical_work r \<le> 7 * total_work r \<longrightarrow> work_share r \<le> 7000) \<and> (work_share r \<le> 7000 \<longrightarrow> 10000 * critical_work r \<le> 7001 * total_work r)"
proof -
  from measure_parallelism_result[OF assms] obtain r where r: "measure_parallelism g work = Some r" "chain g (critical_path r)"
    "chain_work work (critical_path r) = critical_work r" "\<forall>c. chain g c \<longrightarrow> chain_work work c \<le> critical_work r"
    "total_work r = sum_list (map (work_at work) (node_ids g))" "critical_work r \<le> total_work r"
    "work_share r = (if total_work r = 0 then 0 else rounded_share (critical_work r) (total_work r))" by blast
  note share = share_decides[OF _ r(6,7)]
  have "0 \<le> critical_work r" unfolding r(3)[symmetric] chain_work_def using assms(4) by (intro sum_list_nonneg) auto
  with share r show ?thesis by blast
qed

end
