(* ===== verification/Synth_Build.thy ===== *)
theory Synth_Build
  imports Synth_Run Parallelism
begin

text \<open>
  The last part of \<open>taskgraph/synthesize.py\<close> with \<open>taskgraph/single.py\<close>: the checks of the nodes (P4), their goals, the nodes and edges of the graph,
  its validation, the decision between the split graph and a single agent (P1), and \<open>synthesize\<close>, the composition of all the steps.

  Pydantic's \<open>Graph.model_validate\<close> raises when the graph is not \<open>graph_valid\<close>; its \<open>ValidationError\<close> is a \<open>ValueError\<close>, whose text is not modelled.
  Every key that is looked up in \<open>ids\<close> is the key of a bucket. The reasons and numbers of decisions are not modelled.
\<close>

section \<open>Constants and data\<close>

definition AFFECTED_TESTS_MAX :: nat where
  "AFFECTED_TESTS_MAX = 30"

definition INTERFACE_LINES :: int where
  "INTERFACE_LINES = 5"

text \<open>\<open>PARALLEL_PATH_MAX\<close>, in ten-thousandths.\<close>

definition PARALLEL_PATH_MAX :: int where
  "PARALLEL_PATH_MAX = 7000"

definition PROPERTIES :: "string list" where
  "PROPERTIES = [''p1'', ''p2'', ''p3'', ''p4'']"

definition PLANNER_VERSION :: string where
  "PLANNER_VERSION = ''planner-v3.1''"

definition SINGLE_INSTRUCTION :: string where
  "SINGLE_INSTRUCTION = ''Keep the existing tests passing and add tests for the new behaviour.''"

definition DEFAULT_TIMEOUT :: int where
  "DEFAULT_TIMEOUT = 300"

record graph_info =
  gi_request_id :: string
  gi_request :: string
  gi_repo :: string
  gi_base_commit :: string
  gi_final_checks :: "string list"
  gi_model :: "string option"

record synthesis =
  sy_graph :: graph
  sy_decisions :: "decision list"
  sy_node_units :: "string list dict"
  sy_pre :: "string option"
  sy_reg :: "string option"
  sy_ablate :: "string list"
  sy_parallelism :: "parallelism option"

definition dict_of :: "('k \<times> 'v) list \<Rightarrow> ('k \<times> 'v) list" where
  "dict_of kvs = fold (\<lambda>(k, v). dict_set k v) kvs []"

abbreviation ticked :: "string \<Rightarrow> string" where
  "ticked s \<equiv> ''`'' @ s @ ''`''"

abbreviation quoted_title :: "string \<Rightarrow> string" where
  "quoted_title s \<equiv> [CHR 0x22] @ s @ [CHR 0x22]"

section \<open>P4: the checks of a node\<close>

definition quote_path :: "string \<Rightarrow> string" where
  "quote_path p = (if list_ex char_isspace p then [CHR 0x22] @ p @ [CHR 0x22] else p)"

definition marker :: "bucket \<Rightarrow> string list" where
  "marker b = (if bk_key b \<in> {PRE, REG} then [bk_key b] else [])"

text \<open>The commands of the check before merging, and the rule that chose them.\<close>

definition check_commands_for :: "synth_ctx \<Rightarrow> bucket \<Rightarrow> string list \<times> string" where
  "check_commands_for cx b =
     (let changed = bk_files b;
          own = py_unique (concat (map (\<lambda>i. u_tests (unit_of cx i)) (bk_units b)));
          py_files = filter (\<lambda>p. py_endswith p ''.py'') changed;
          aff = filter (\<lambda>p. p \<notin> set own) (affected (cx_tests cx) changed)
      in if ti_unresolved (cx_tests cx) \<noteq> [] then (cx_full cx, ''full_suite_fallback'')
         else if length aff > AFFECTED_TESTS_MAX then (cx_full cx, ''full_suite_fallback'')
         else if own \<noteq> [] \<or> aff \<noteq> [] then ([''python -m pytest -q '' @ py_join '' '' (map quote_path (own @ aff))], ''affected_tests'')
         else if py_files \<noteq> [] then ([''python -m compileall -q '' @ py_join '' '' (map quote_path py_files)], ''compile_only'')
         else (cx_full cx, ''full_suite_fallback''))"

definition check_for :: "synth_ctx \<Rightarrow> nat dict \<Rightarrow> bucket \<Rightarrow> check \<times> decision list" where
  "check_for cx counts b =
     (if off cx ''p4''
      then (\<lparr>commands = cx_full cx, timeout_s = DEFAULT_TIMEOUT, post_merge_commands = Some (cx_full cx)\<rparr>, [decide ''P4'' ''ablated'' (bk_units b) (marker b)])
      else case check_commands_for cx b of (cmds, rule) \<Rightarrow>
        if bk_key b \<in> {PRE, REG} \<or> list_ex (\<lambda>p. dict_get counts p 0 > 1) (bk_files b)
        then (\<lparr>commands = cmds, timeout_s = DEFAULT_TIMEOUT, post_merge_commands = Some (cx_full cx)\<rparr>,
              [decide ''P4'' rule (bk_units b) (marker b), decide ''P4'' ''shared_file_full_check'' (bk_units b) (marker b)])
        else (\<lparr>commands = cmds, timeout_s = DEFAULT_TIMEOUT, post_merge_commands = None\<rparr>, [decide ''P4'' rule (bk_units b) (marker b)]))"

section \<open>Step 5: goals\<close>

definition id_at :: "string dict \<Rightarrow> string \<Rightarrow> string" where
  "id_at ids k = dict_get ids k []"

definition names_of :: "string list \<Rightarrow> string dict \<Rightarrow> string" where
  "names_of keys ids = or_str (py_join '', '' (map (id_at ids) (py_unique keys))) ''none''"

definition ticked_list :: "string list \<Rightarrow> string" where
  "ticked_list ss = py_join '', '' (map (\<lambda>s. ticked s) ss)"

definition bracketed_note :: "fact_edit \<Rightarrow> string" where
  "bracketed_note e = (if fe_note e \<noteq> [] then '' ('' @ fe_note e @ '')'' else [])"

definition interface_line :: "string dict \<Rightarrow> interface_item \<Rightarrow> string" where
  "interface_line ids item =
     (let loc = (if if_new_file item
            then ''create '' @ if_path item @ '' with only this interface; '' @ names_of (if_providers item) ids @ '' fills in the module later''
            else ''in '' @ if_path item);
          used = (if if_users item \<noteq> [] then [''used by '' @ names_of (if_users item) ids] else [])
            @ (if if_registered_as item \<noteq> [] then [''registered below as '' @ ticked_list (if_registered_as item)] else [])
      in ''The interface of '' @ ticked (if_symbol item) @ '' ('' @ loc @ ''): its name and signature (for a field: its type and default) with a docstring, ''
         @ ''and a body that runs but does nothing useful (return an empty value or raise NotImplementedError). Implemented by ''
         @ names_of (if_providers item) ids @ ''; '' @ or_str (py_join ''; '' used) ''used by none'' @ ''.'')"

definition registration_line :: "synth_ctx \<Rightarrow> string dict \<Rightarrow> registration \<Rightarrow> string" where
  "registration_line cx ids r =
     (let syms = target_symbols (rg_targets r);
          made = (if syms \<noteq> [] then '' The interface of '' @ ticked_list syms @ '' above makes the name exist.'' else [])
      in ''In '' @ fe_file (rg_edit r) @ '', register '' @ ticked_list (fe_symbols (rg_edit r)) @ bracketed_note (rg_edit r) @ '', as '' @ rg_unit r
         @ '' ('' @ quoted_title (u_title (unit_of cx (rg_unit r))) @ '') would. Used by '' @ names_of (rg_users r) ids @ ''.'' @ made)"

definition shared_edit_line :: "synth_ctx \<Rightarrow> string dict \<Rightarrow> shared_edit \<Rightarrow> string" where
  "shared_edit_line cx ids se =
     (let u = unit_of cx (se_unit se); e = se_edit se;
          syms = (if fe_symbols e \<noteq> [] then ''; symbols: '' @ py_join '', '' (fe_symbols e) else []);
          extra = (if fe_note e \<noteq> [] then ''; '' @ fe_note e else [])
      in se_unit se @ [CHR 0x27] @ ''s ('' @ quoted_title (u_title u) @ '') change to '' @ fe_file e @ '', in full (about '' @ int_str (fe_lines e) @ '' lines''
         @ syms @ extra @ ''); '' @ names_of (se_others se) ids @ '' also edit that file. '' @ se_unit se @ [CHR 0x27] @ ''s goal: '' @ py_strip (u_goal u))"

definition pre_goal :: "synth_ctx \<Rightarrow> synth \<Rightarrow> string dict \<Rightarrow> string" where
  "pre_goal cx s ids = py_join (newline @ newline)
     ((''Prepare what other sub-tasks build on, before they start. Do exactly the items below and nothing else: no stubs for other symbols, ''
       @ ''no feature logic beyond these items, no tests.'')
      # map (\<lambda>(n, line). nat_str n @ ''. '' @ line) (List.enumerate 1
          (map (\<lambda>(k, item). interface_line ids item) (interfaces s) @ map (registration_line cx ids) (pre_registrations s)
           @ map (shared_edit_line cx ids) (shared_edits s))))"

definition reg_line :: "synth_ctx \<Rightarrow> synth \<Rightarrow> string dict \<Rightarrow> registration \<Rightarrow> string" where
  "reg_line cx s ids r =
     (let syms = target_symbols (rg_targets r);
          source = (if syms \<noteq> [] then '', defined as '' @ ticked_list syms else [])
      in ''- In '' @ fe_file (rg_edit r) @ '': register '' @ ticked_list (fe_symbols (rg_edit r)) @ bracketed_note (rg_edit r) @ '', from ''
         @ id_at ids (bucket_of s (rg_unit r)) @ '' ('' @ quoted_title (u_title (unit_of cx (rg_unit r))) @ '')'' @ source @ ''.'')"

definition reg_goal :: "synth_ctx \<Rightarrow> synth \<Rightarrow> string dict \<Rightarrow> string" where
  "reg_goal cx s ids = py_join newline
     ((''Register names that other sub-tasks defined, after they have finished. Make only these registrations; change nothing else and write no tests.'')
      # map (reg_line cx s ids) (reg_registrations s))"

definition goal_of :: "synth_ctx \<Rightarrow> synth \<Rightarrow> string dict \<Rightarrow> bucket \<Rightarrow> string" where
  "goal_of cx s ids b =
     (let body = (if bk_key b = PRE then pre_goal cx s ids
                  else if bk_key b = REG then reg_goal cx s ids
                  else case bk_units b of
                    [i] \<Rightarrow> py_strip (u_goal (unit_of cx i))
                  | is' \<Rightarrow> merged_goal (map (\<lambda>i. \<lparr>part_id = i, part_title = u_title (unit_of cx i), part_goal = u_goal (unit_of cx i)\<rparr>) is') []);
          body = (if bk_notes b \<noteq> [] then py_rstrip body @ newline @ newline @ py_join '' '' (bk_notes b) else body)
      in goal_with_conventions body (conventions (cx_facts cx)))"

section \<open>Step 5: nodes and edges\<close>

definition needed_impl :: "synth \<Rightarrow> string set \<Rightarrow> bucket \<Rightarrow> string list" where
  "needed_impl s implemented b = map wt_symbol (filter (\<lambda>w. wt_user w = bk_key b \<and> wt_need w = ''behavior'' \<and> wt_symbol w \<in> implemented) (waits s))"

definition needed :: "synth \<Rightarrow> string set \<Rightarrow> bucket \<Rightarrow> string list" where
  "needed s implemented b =
     map wt_symbol (filter (\<lambda>w. wt_user w = bk_key b \<and> \<not> (wt_need w = ''behavior'' \<and> wt_symbol w \<in> implemented)) (waits s))
     @ map snd (filter (\<lambda>(user, sy). user = bk_key b) (firsts s))"

definition context_of :: "synth_ctx \<Rightarrow> bucket \<Rightarrow> string list" where
  "context_of cx b =
     (let sources = (if bk_units b \<noteq> [] then bk_units b else bk_contributors b);
          refs = py_unique (filter (\<lambda>r. ref_path r \<notin> set (bk_create b)) (concat (map (\<lambda>i. u_context_files (unit_of cx i)) sources)))
      in if bk_key b \<in> {PRE, REG} then filter (\<lambda>r. has_file (cx_index cx) (ref_path r)) refs else refs)"

definition changed_symbols :: "bucket \<Rightarrow> string list" where
  "changed_symbols b = py_unique (filter (\<lambda>sy. sym_path sy \<in> set (bk_files b))
     (concat (map (\<lambda>p. fe_symbols (pl_edit p)) (filter (\<lambda>p. fe_kind (pl_edit p) = Logic) (bk_edits b)))))"

definition title_of :: "synth_ctx \<Rightarrow> bucket \<Rightarrow> string" where
  "title_of cx b =
     (if bk_key b = PRE then ''Shared interfaces and edits, first''
      else if bk_key b = REG then ''Registrations, last''
      else py_join '' + '' (map (\<lambda>i. u_title (unit_of cx i)) (bk_units b)))"

definition node_of :: "synth_ctx \<Rightarrow> synth \<Rightarrow> string dict \<Rightarrow> check dict \<Rightarrow> string set \<Rightarrow> bucket \<Rightarrow> node" where
  "node_of cx s ids checks implemented b =
     (let impls = filter (\<lambda>sy. sy \<notin> set (bk_provides b)) (py_unique (needed_impl s implemented b)) in
      \<lparr>node_id = id_at ids (bk_key b), title = title_of cx b, kind = bk_kind b, goal = goal_of cx s ids b,
       node_edit_set = \<lparr>any_file = False, modify = py_unique (bk_edit_files b @ bk_touch b @ bk_fill b), create = bk_create b,
                        es_symbols = changed_symbols b, shared = bk_shared b\<rparr>,
       requires = filter (\<lambda>sy. sy \<notin> set (bk_provides b) \<and> sy \<notin> set impls) (py_unique (needed s implemented b)),
       requires_impl = impls, provides = bk_provides b,
       node_check = dict_get checks (bk_key b) \<lparr>commands = [], timeout_s = DEFAULT_TIMEOUT, post_merge_commands = None\<rparr>,
       context_files = context_of cx b, node_size = None, run_after_failed_upstream = (bk_key b = REG)\<rparr>)"

definition add_edge :: "string dict \<Rightarrow> string \<times> string \<times> edge_type \<times> string \<Rightarrow> ((string \<times> string) \<times> edge) list \<Rightarrow> ((string \<times> string) \<times> edge) list" where
  "add_edge ids x found = (case x of (first, second, t, reason) \<Rightarrow>
     let key = (id_at ids first, id_at ids second) in
     if first = second then found
     else if (case map_of found key of None \<Rightarrow> True | Some current \<Rightarrow> edge_strength t > edge_strength (edge_type current))
     then dict_set key \<lparr>e_from = fst key, e_to = snd key, edge_type = t, edge_source = From_derived, edge_reason = reason\<rparr> found
     else found)"

definition graph_edges :: "synth \<Rightarrow> string dict \<Rightarrow> edge list" where
  "graph_edges s ids = map snd (fold (add_edge ids)
     (map (\<lambda>k. (PRE, k, Interface, ''P2/P3: '' @ id_at ids k @ '' starts after PRE, which makes what it builds on'')) (py_unique (after_pre s))
      @ map (\<lambda>w. (wt_provider w, wt_user w, Full, ''P2: '' @ id_at ids (wt_user w) @ '' uses '' @ wt_symbol w @ '' ('' @ wt_need w @ '') and waits for ''
          @ id_at ids (wt_provider w))) (waits s)
      @ map (\<lambda>k. (k, REG, Full, ''P2: REG registers names '' @ id_at ids k @ '' defines'')) (py_unique (before_reg s))) [])"

section \<open>P1: is the graph parallel enough\<close>

definition lines_of :: "bucket \<Rightarrow> int" where
  "lines_of b = sum_list (map (\<lambda>p. fe_lines (pl_edit p)) (bk_edits b))"

definition work_of :: "synth_ctx \<Rightarrow> synth \<Rightarrow> bref \<Rightarrow> int" where
  "work_of cx s r = (case r of
     Pre_b \<Rightarrow> lines_of (pre_bucket s) + INTERFACE_LINES * int (length (interfaces s))
   | Reg_b \<Rightarrow> lines_of (reg_bucket s)
   | Group_b n \<Rightarrow>
       let b = buckets s ! n;
           moved = sum_list (map (\<lambda>p. fe_lines (pl_edit p))
             (filter (\<lambda>p. pl_unit p \<in> set (bk_units b)) (bk_edits (pre_bucket s) @ bk_edits (reg_bucket s))))
       in max (group_size cx (bk_units b) - moved) 0)"

text \<open>Whether one agent does it all, and the decision.\<close>

definition judge_parallelism :: "synth_ctx \<Rightarrow> parallelism \<Rightarrow> bool \<times> parallelism \<times> decision" where
  "judge_parallelism cx p =
     (if off cx ''p1'' then (False, p, decide ''P1'' ''ablated'' [] (critical_path p))
      else if work_share p > PARALLEL_PATH_MAX then (True, p\<lparr>collapsed := True\<rparr>, decide ''P1'' ''low_parallelism_single'' [] [''solve''])
      else (False, p, decide ''P1'' ''parallel_enough'' [] (critical_path p)))"

section \<open>The single-agent graph\<close>

definition single_node :: "string \<Rightarrow> string list \<Rightarrow> node" where
  "single_node req checks =
     \<lparr>node_id = ''solve'', title = ''Implement the whole request'', kind = Implement, goal = req @ newline @ newline @ SINGLE_INSTRUCTION,
      node_edit_set = \<lparr>any_file = True, modify = [], create = [], es_symbols = [], shared = []\<rparr>, requires = [], requires_impl = [], provides = [],
      node_check = \<lparr>commands = (if checks \<noteq> [] then checks else [''git diff --check'']), timeout_s = DEFAULT_TIMEOUT, post_merge_commands = None\<rparr>,
      context_files = [], node_size = None, run_after_failed_upstream = False\<rparr>"

text \<open>\<open>single_graph\<close>: the name of the repository's directory and its head commit are arguments.\<close>

definition single_graph :: "string \<Rightarrow> string \<Rightarrow> string \<Rightarrow> string list \<Rightarrow> string + graph" where
  "single_graph req repo_name head_commit checks =
     (if py_strip req = [] then Inl ''request must not be empty''
      else Inr \<lparr>request_id = ''single'', request = req, repo = repo_name, base_commit = head_commit, final_checks = checks,
        generator = \<lparr>gen_kind = Manual_gen, planner_version = None, gen_model = None, revision_mode = None, ablate = None\<rparr>,
        nodes = [single_node req checks], edges = [],
        revision_log = [\<lparr>rev_action = Act_other, rev_nodes = [''solve''], rev_into = None,
          rev_reason = ''Generated by the single command from the original request and repository HEAD.''\<rparr>]\<rparr>)"

definition generator_of :: "graph_info \<Rightarrow> bool \<Rightarrow> string list \<Rightarrow> generator" where
  "generator_of info revised ablated =
     \<lparr>gen_kind = Planner_gen, planner_version = Some PLANNER_VERSION, gen_model = gi_model info,
      revision_mode = Some (if revised then Rev_llm else Rev_none), ablate = (if ablated \<noteq> [] then Some ablated else None)\<rparr>"

definition plan_of :: "graph_info \<Rightarrow> bool \<Rightarrow> string list \<Rightarrow> node list \<Rightarrow> edge list \<Rightarrow> revision_entry list \<Rightarrow> synth_exn + graph" where
  "plan_of info revised ablated ns es log =
     (let g = \<lparr>request_id = gi_request_id info, request = gi_request info, repo = gi_repo info, base_commit = gi_base_commit info,
               final_checks = gi_final_checks info, generator = generator_of info revised ablated, nodes = ns, edges = es, revision_log = log\<rparr>
      in if graph_valid g then Inr g else Inl (Value_error ''validation error for Graph''))"

definition sorted_ablate :: "synth_ctx \<Rightarrow> string list" where
  "sorted_ablate cx = sort (filter (off cx) PROPERTIES)"

definition single_plan :: "synth_ctx \<Rightarrow> graph_info \<Rightarrow> bool \<Rightarrow> string list \<Rightarrow> string \<Rightarrow> decision list \<Rightarrow> parallelism option \<Rightarrow> synth_exn + synthesis" where
  "single_plan cx info revised members why ds par =
     and_then (plan_of info revised (sorted_ablate cx) [single_node (gi_request info) (gi_final_checks info)] []
         [\<lparr>rev_action = Act_other, rev_nodes = [''solve''], rev_into = None, rev_reason = ''planner v3: '' @ why @ '' ('' @ py_join '', '' members @ '')''\<rparr>]) (\<lambda>g.
       Inr \<lparr>sy_graph = g, sy_decisions = ds, sy_node_units = [(''solve'', members)], sy_pre = None, sy_reg = None, sy_ablate = sorted_ablate cx,
            sy_parallelism = par\<rparr>)"

text \<open>\<open>single(info, revised)\<close> without and with \<open>parallelism\<close>.\<close>

definition single_group :: "synth_ctx \<Rightarrow> graph_info \<Rightarrow> bool \<Rightarrow> string list \<Rightarrow> decision list \<Rightarrow> synth_exn + synthesis" where
  "single_group cx info revised members ds =
     single_plan cx info revised members ''all units form one group''
       (map (\<lambda>d. d\<lparr>dc_nodes := [''solve'']\<rparr>) (ds @ [decide ''P1'' ''single_unit'' members [''solve'']])) None"

definition single_collapsed :: "synth_ctx \<Rightarrow> graph_info \<Rightarrow> bool \<Rightarrow> parallelism \<Rightarrow> decision list \<Rightarrow> synth_exn + synthesis" where
  "single_collapsed cx info revised p ds =
     single_plan cx info revised (map u_id (f_units (cx_facts cx)))
       (''the split graph is not parallel enough (longest chain '' @ int_str (critical_work p) @ '' of '' @ int_str (total_work p) @ '' lines)'') ds (Some p)"

section \<open>Step 5: the graph\<close>

text \<open>\<open>_new_id\<close> always finds a free id (\<open>new_id_fresh\<close>).\<close>

definition fresh_id :: "string list \<Rightarrow> string list \<Rightarrow> string" where
  "fresh_id members taken = (case new_id_of members taken of None \<Rightarrow> [] | Some i \<Rightarrow> i)"

definition group_id :: "string list \<Rightarrow> bucket \<Rightarrow> string dict \<Rightarrow> string dict" where
  "group_id taken b ids = dict_set (bk_key b)
     (case bk_units b of [i] \<Rightarrow> i | members \<Rightarrow> fresh_id members (filter (\<lambda>i. i \<notin> set members) taken @ map snd ids)) ids"

definition all_ids :: "synth_ctx \<Rightarrow> synth \<Rightarrow> string dict" where
  "all_ids cx s =
     (let taken = map fst (cx_units cx); ids = fold (group_id taken) (buckets s) [] in
      fold (\<lambda>k ids. dict_set k (fresh_id [k] (taken @ map snd ids)) ids) [PRE, REG] ids)"

definition node_refs :: "synth \<Rightarrow> bref list" where
  "node_refs s = filter (\<lambda>r. \<not> bk_is_empty (bucket_at s r)) (all_refs s)"

definition file_counts :: "bucket list \<Rightarrow> nat dict" where
  "file_counts bs = fold (\<lambda>b d. fold (\<lambda>p d. dict_set p (dict_get d p 0 + 1) d) (bk_files b) d) bs []"

definition implemented_symbols :: "bucket list \<Rightarrow> string set" where
  "implemented_symbols bs = (\<Union>b\<in>set (filter (\<lambda>b. bk_kind b = Implement) bs). set (bk_provides b)
     \<union> (\<Union>p\<in>set (filter (\<lambda>p. fe_kind (pl_edit p) = Logic) (bk_edits b)). set (fe_symbols (pl_edit p))))"

definition build_log :: "synth \<Rightarrow> string dict \<Rightarrow> revision_entry list" where
  "build_log s ids =
     map (\<lambda>b. \<lparr>rev_action = Act_merge, rev_nodes = bk_units b, rev_into = Some (id_at ids (bk_key b)),
        rev_reason = ''units '' @ py_join '', '' (bk_units b) @ '' form one node (planner v3, see the decisions)''\<rparr>)
       (filter (\<lambda>b. length (bk_units b) > 1) (buckets s))
     @ map (\<lambda>(b, role). \<lparr>rev_action = Act_add_node, rev_nodes = [id_at ids (bk_key b)], rev_into = None,
        rev_reason = id_at ids (bk_key b) @ '' added by planner v3 ('' @ role @ '')''\<rparr>)
       (filter (\<lambda>(b, role). \<not> bk_is_empty b) [(pre_bucket s, ''shared interfaces and edits first''), (reg_bucket s, ''registrations last'')])"

definition conflict_issue :: "synth \<Rightarrow> string dict \<Rightarrow> issue list \<Rightarrow> revision_entry \<Rightarrow> issue" where
  "conflict_issue s ids errs entry =
     (let us = dict_of (map (\<lambda>(k, i). (i, units_of s [k])) ids) in
      Issue ''CONFLICT'' (concat (map (\<lambda>i. dict_get us i [i]) (rev_nodes entry)))
        (''the facts contradict each other: '' @ rev_reason entry @ '' (validation: '' @ py_join ''; '' (map issue_format errs)
         @ ''). Check the `need`, `uses` and `context_files` of these units''))"

definition checked_graph :: "synth_ctx \<Rightarrow> synth \<Rightarrow> string dict \<Rightarrow> graph \<Rightarrow> synth_exn + graph" where
  "checked_graph cx s ids g =
     (case derive_edges g (cx_index cx) of (derived, entries) \<Rightarrow>
      let errs = errors (validate derived (Some (cx_index cx)));
          skipped = filter (\<lambda>e. py_contains ''would create a cycle'' (rev_reason e)) entries
      in if errs = [] then Inr derived
         else if skipped \<noteq> [] then Inl (Facts_conflict (map (conflict_issue s ids errs) skipped))
         else Inl (Synthesis_error ''step 5'' (map (\<lambda>i. ''the graph is invalid: '' @ issue_format i) errs)))"

definition named_decision :: "synth \<Rightarrow> string dict \<Rightarrow> decision \<Rightarrow> decision" where
  "named_decision s nids d = d\<lparr>dc_nodes := py_unique
     (map (\<lambda>i. id_at nids (bucket_of s i)) (filter (\<lambda>i. bucket_of s i \<in> fst ` set nids) (dc_units d))
      @ map (id_at nids) (filter (\<lambda>k. k \<in> fst ` set nids) (dc_nodes d)))\<rparr>"

definition build :: "synth_ctx \<Rightarrow> graph_info \<Rightarrow> bool \<Rightarrow> synth \<Rightarrow> synth_exn + synthesis" where
  "build cx info revised s =
     (let refs = node_refs s; bs = map (bucket_at s) refs in
      if bk_is_empty (pre_bucket s) \<and> after_pre s \<noteq> [] then Inl (Synthesis_error ''step 5'' [''nodes wait for PRE, which has nothing to do''])
      else
        let checked = map (\<lambda>b. (bk_key b, check_for cx (file_counts bs) b)) bs;
            checks = dict_of (map (\<lambda>(k, c, ds). (k, c)) checked);
            s = s\<lparr>decisions := decisions s @ concat (map (\<lambda>(k, c, ds). ds) checked)\<rparr>;
            ids = all_ids cx s in
        and_then (plan_of info revised (sorted_ablate cx) (map (node_of cx s ids checks (implemented_symbols bs)) bs) (graph_edges s ids) (build_log s ids)) (\<lambda>g.
        and_then (checked_graph cx s ids g) (\<lambda>derived.
        let node_ids' = dict_of (map (\<lambda>b. (bk_key b, id_at ids (bk_key b))) bs);
            ds = map (named_decision s node_ids') (decisions s);
            node_units = dict_of (map (\<lambda>b. (id_at ids (bk_key b), if bk_units b \<noteq> [] then bk_units b else bk_contributors b)) bs);
            work = dict_of (map (\<lambda>r. (id_at ids (bk_key (bucket_at s r)), work_of cx s r)) refs) in
        case measure_parallelism derived work of
          None \<Rightarrow> Inl Not_ended
        | Some p \<Rightarrow> (case judge_parallelism cx p of (one, p, d) \<Rightarrow>
            if one then single_collapsed cx info revised p (ds @ [d])
            else Inr \<lparr>sy_graph = derived, sy_decisions = ds @ [d], sy_node_units = node_units, sy_pre = map_of node_ids' PRE, sy_reg = map_of node_ids' REG,
                      sy_ablate = sorted_ablate cx, sy_parallelism = Some p\<rparr>))))"

section \<open>Synthesis\<close>

definition parse_ablate :: "string \<Rightarrow> string + string list" where
  "parse_ablate text =
     (let names = map (\<lambda>n. py_lower (py_strip n)) (filter (\<lambda>n. py_strip n \<noteq> []) (py_split text '',''));
          unknown = filter (\<lambda>n. n \<notin> set PROPERTIES) names
      in if unknown \<noteq> [] then Inl (''unknown properties: '' @ py_join '', '' unknown @ '' (use '' @ py_join '', '' PROPERTIES @ '')'') else Inr names)"

definition synthesize :: "facts \<Rightarrow> repo_index \<Rightarrow> graph_info \<Rightarrow> test_imports \<Rightarrow> string list \<Rightarrow> bool \<Rightarrow> synth_exn + synthesis" where
  "synthesize f idx info tests ablated revised =
     (let unknown = sort (py_unique (filter (\<lambda>n. n \<notin> set PROPERTIES) ablated));
          cx = init_ctx f idx (gi_final_checks info) tests (set ablated) in
      if unknown \<noteq> [] then Inl (Value_error (''unknown properties: '' @ py_join '', '' unknown))
      else case form_groups cx (init_decisions f (set ablated)) of
        None \<Rightarrow> Inl Not_ended
      | Some (gs, ds) \<Rightarrow>
          if length gs = 1 then single_group cx info revised (hd gs) ds
          else and_then (place_work cx gs ds) (build cx info revised))"

end
