(* ===== verification/Synth_Parts.thy ===== *)
theory Synth_Parts
  imports Synth_Build Revise_Props
begin

text \<open>
  A second invariant of the synthesis: the parts of the buckets are well-formed (paths, symbols, no duplicates), so that the nodes built from them are
  accepted by the classes of the graph. Every step keeps it, whether or not the step needs the invariant of \<open>Synth_Inv\<close>.
\<close>

section \<open>Well-formed parts\<close>

abbreviation good_symbol :: "string \<Rightarrow> bool" where
  "good_symbol sy \<equiv> isr (validate_symbol sy)"

abbreviation good_path :: "string \<Rightarrow> bool" where
  "good_path p \<equiv> isr (validate_repo_path p)"

definition ctx_valid :: "synth_ctx \<Rightarrow> bool" where
  "ctx_valid cx \<longleftrightarrow> (\<forall>u\<in>set (known_units cx). fact_unit_valid u) \<and> (\<forall>d\<in>set (cx_deps cx). good_symbol (ud_symbol d))"

definition sound_bucket :: "synth_ctx \<Rightarrow> bucket \<Rightarrow> bool" where
  "sound_bucket cx b \<longleftrightarrow> (\<forall>p\<in>set (bk_touch b). good_path p \<and> has_file (cx_index cx) p) \<and> distinct (bk_provides b)
     \<and> (\<forall>sy\<in>set (bk_provides b). good_symbol sy) \<and> bk_shared b = []"

definition sound :: "synth_ctx \<Rightarrow> synth \<Rightarrow> bool" where
  "sound cx s \<longleftrightarrow> (\<forall>b\<in>set (all_buckets s). sound_bucket cx b) \<and> bk_fill (pre_bucket s) = []
     \<and> (\<forall>w\<in>set (waits s). good_symbol (wt_symbol w)) \<and> (\<forall>x\<in>set (firsts s). good_symbol (snd x))"

text \<open>A step that returns keeps it.\<close>

definition keeps_parts :: "synth_ctx \<Rightarrow> ('a \<Rightarrow> synth) \<Rightarrow> ('a \<Rightarrow> synth_exn + 'a) \<Rightarrow> bool" where
  "keeps_parts cx st f \<longleftrightarrow> (\<forall>x y. f x = Inr y \<longrightarrow> sound cx (st x) \<longrightarrow> sound cx (st y))"

lemma keeps_partsD: "keeps_parts cx st f \<Longrightarrow> f x = Inr y \<Longrightarrow> sound cx (st x) \<Longrightarrow> sound cx (st y)"
  by (simp add: keeps_parts_def)

lemma keeps_for_each: "(\<And>x. x \<in> set xs \<Longrightarrow> keeps_parts cx st (f x)) \<Longrightarrow> keeps_parts cx st (for_each f xs)"
proof (induction xs)
  case (Cons x xs)
  have "sound cx (st z)" if "for_each f (x # xs) y = Inr z" "sound cx (st y)" for y z
  proof -
    from that(1) obtain y' where "f x y = Inr y'" "for_each f xs y' = Inr z" by (auto simp: and_then_def split: sum.splits)
    with that(2) Cons show ?thesis unfolding keeps_parts_def by (metis list.set_intros)
  qed
  then show ?case by (auto simp: keeps_parts_def)
qed (simp add: keeps_parts_def)

lemma good_symbol_path: "good_symbol sy \<Longrightarrow> good_path (sym_path sy)"
proof -
  assume "good_symbol sy"
  then obtain r where "parse_symbol sy = Inr r" by (auto simp: validate_symbol_def split: sum.splits)
  with parse_symbol_InrD(2)[OF this] show ?thesis by (simp add: sym_path_def)
qed

lemma sound_other [simp]:
  "sound cx (record_decision d s) = sound cx s" "sound cx (s\<lparr>after_pre := ap\<rparr>) = sound cx s" "sound cx (s\<lparr>before_reg := br\<rparr>) = sound cx s"
  "sound cx (s\<lparr>interfaces := itf\<rparr>) = sound cx s" "sound cx (s\<lparr>pre_registrations := pr\<rparr>) = sound cx s" "sound cx (s\<lparr>reg_registrations := rr\<rparr>) = sound cx s"
  "sound cx (s\<lparr>shared_edits := se\<rparr>) = sound cx s" "sound cx (s\<lparr>file_reasons := fr\<rparr>) = sound cx s" "sound cx (s\<lparr>parallel_files := pf\<rparr>) = sound cx s"
  by (simp_all add: sound_def all_buckets_def record_decision_def)

lemma sound_waits: "sound cx s \<Longrightarrow> (\<And>w. w \<in> set ws \<Longrightarrow> good_symbol (wt_symbol w)) \<Longrightarrow> sound cx (s\<lparr>waits := waits s @ ws\<rparr>)"
  by (auto simp: sound_def all_buckets_def)

lemma sound_firsts: "sound cx s \<Longrightarrow> (\<And>x. x \<in> set fs \<Longrightarrow> good_symbol (snd x)) \<Longrightarrow> sound cx (s\<lparr>firsts := firsts s @ fs\<rparr>)"
  by (auto simp: sound_def all_buckets_def)

lemma sound_change:
  assumes "sound cx s" "\<And>b. sound_bucket cx b \<Longrightarrow> sound_bucket cx (f b)" "r = Pre_b \<Longrightarrow> bk_fill (f (pre_bucket s)) = bk_fill (pre_bucket s)"
  shows "sound cx (change_at r f s)"
proof (cases r)
  case (Group_b n)
  have "set ((buckets s)[n := f (buckets s ! n)]) \<subseteq> f ` set (buckets s) \<union> set (buckets s)"
  proof (cases "n < length (buckets s)")
    case True
    then show ?thesis using set_update_subset_insert[of "buckets s" n "f (buckets s ! n)"] by auto
  qed (simp add: list_update_beyond)
  then show ?thesis using assms(1,2) Group_b by (auto simp: sound_def all_buckets_def)
qed (use assms in \<open>auto simp: sound_def all_buckets_def\<close>)

section \<open>The moves\<close>

lemma unit_symbols:
  assumes "ctx_valid cx"
  shows "sy \<in> set (u_provides (unit_of cx i)) \<Longrightarrow> good_symbol sy" "e \<in> set (u_edits (unit_of cx i)) \<Longrightarrow> sy \<in> set (fe_symbols e) \<Longrightarrow> good_symbol sy"
proof -
  have "fact_unit_valid (unit_of cx i) \<or> u_provides (unit_of cx i) = [] \<and> u_edits (unit_of cx i) = []"
    using assms by (auto simp: unit_of_def ctx_valid_def known_units_def split: option.splits dest!: map_of_SomeD)
  then show "sy \<in> set (u_provides (unit_of cx i)) \<Longrightarrow> good_symbol sy" "e \<in> set (u_edits (unit_of cx i)) \<Longrightarrow> sy \<in> set (fe_symbols e) \<Longrightarrow> good_symbol sy"
    by (auto simp: fact_unit_valid_def unique_valid fact_edit_valid_def list_all_iff)
qed

lemma target_good: "ctx_valid cx \<Longrightarrow> target_of cx i name = Some sy \<Longrightarrow> good_symbol sy"
proof -
  assume cx: "ctx_valid cx" and "target_of cx i name = Some sy"
  from find_in[OF this(2)[unfolded target_of_def Let_def]] have "sy \<in> set (u_provides (unit_of cx i) @ logic_symbols cx [i])" by simp
  then show ?thesis using unit_symbols[OF cx] by (auto simp: logic_symbols_def)
qed

lemma keeps_move_edit: "keeps_parts cx id (move_edit source target p)"
proof -
  have "sound cx (change_at target (\<lambda>b. b\<lparr>bk_edits := bk_edits b @ [p]\<rparr>) (change_at source (\<lambda>b. b\<lparr>bk_edits := rest\<rparr>) s))" if "sound cx s" for rest s
    by (intro sound_change that) (auto simp: sound_bucket_def)
  then show ?thesis by (auto simp: keeps_parts_def move_edit_def and_then_def split: sum.splits)
qed

lemma keeps_move_create: "source \<noteq> Pre_b \<Longrightarrow> keeps_parts cx id (move_create source target p)"
proof -
  assume s: "source \<noteq> Pre_b"
  have "sound cx (change_at source (\<lambda>b. b\<lparr>bk_fill := bk_fill b @ [p]\<rparr>)
         (change_at target (\<lambda>b. b\<lparr>bk_create := bk_create b @ [p]\<rparr>) (change_at source (\<lambda>b. b\<lparr>bk_create := rest\<rparr>) s)))" if "sound cx s" for rest s
    by (intro sound_change that) (use s in \<open>auto simp: sound_bucket_def\<close>)
  then show ?thesis by (auto simp: keeps_parts_def move_create_def and_then_def split: sum.splits)
qed

lemma sound_provide:
  assumes "sound cx s" "\<And>sy. sy \<in> set names \<Longrightarrow> good_symbol sy"
  shows "sound cx (change_at r (\<lambda>b. b\<lparr>bk_provides := py_unique (bk_provides b @ names), bk_contributors := g b\<rparr>) s)"
  by (rule sound_change[OF assms(1)]) (use assms(2) in \<open>auto simp: sound_bucket_def\<close>)

lemma keeps_add_interface:
  assumes "good_symbol sy"
  shows "keeps_parts cx id (add_interface cx sy users registered_as)"
  unfolding keeps_parts_def
proof (intro allI impI)
  fix s s' assume r: "add_interface cx sy users registered_as s = Inr s'" and s: "sound cx (id s)"
  show "sound cx (id s')"
  proof (cases "map_of (interfaces s) sy")
    case (Some item)
    with r s show ?thesis by (auto simp: add_interface_def)
  next
    case None
    let ?p = "sym_path sy"
    let ?first = "if \<not> has_file (cx_index cx) ?p
        then (case find (\<lambda>r. ?p \<in> set (bk_create (bucket_at s r))) (all_refs s) of
           None \<Rightarrow> Inr s | Some r \<Rightarrow> if r = Pre_b then Inr s else move_create r Pre_b ?p s)
        else Inr (if ?p \<in> set (bk_touch (pre_bucket s)) then s else change_at Pre_b (\<lambda>b. b\<lparr>bk_touch := bk_touch b @ [?p]\<rparr>) s)"
    obtain s1 where s1: "?first = Inr s1" using r None by (auto simp: add_interface_def Let_def and_then_def split: sum.splits)
    have "sound cx (change_at Pre_b (\<lambda>b. b\<lparr>bk_touch := bk_touch b @ [?p]\<rparr>) s)" if "has_file (cx_index cx) ?p"
      by (rule sound_change) (use s that good_symbol_path[OF assms] in \<open>auto simp: sound_bucket_def\<close>)
    moreover have "sound cx s1" if "move_create r Pre_b ?p s = Inr s1" "r \<noteq> Pre_b" for r
      using keeps_move_create[OF that(2)] that(1) s by (auto simp: keeps_parts_def)
    ultimately have "sound cx s1" using s1 s by (auto split: if_splits option.splits)
    then have "sound cx (change_at Pre_b (\<lambda>b. b\<lparr>bk_provides := py_unique (bk_provides b @ [sy]), bk_contributors := g b\<rparr>) s1)" for g
      by (rule sound_provide) (use assms in simp)
    then show ?thesis using r None s1 by (auto simp: add_interface_def Let_def and_then_def)
  qed
qed

lemma sound_drop: "sound cx s \<Longrightarrow> sound cx (drop_provides r names s)"
  unfolding drop_provides_def by (rule sound_change) (auto simp: sound_bucket_def)

lemma sound_note: "sound cx s \<Longrightarrow> sound cx (add_note r tx s)"
  unfolding add_note_def by (rule sound_change) (auto simp: sound_bucket_def)

lemma sound_gain: "sound cx s \<Longrightarrow> (\<And>sy. sy \<in> set names \<Longrightarrow> good_symbol sy) \<Longrightarrow> sound cx (gain r names i s)"
  unfolding gain_def by (rule sound_provide)

section \<open>The steps\<close>

lemma keeps_dep_step:
  assumes "good_symbol (gd_symbol d)"
  shows "keeps_parts cx fst (dep_step cx cs d)"
  unfolding keeps_parts_def
proof (intro allI impI)
  fix st st' assume r: "dep_step cx cs d st = Inr st'" and s: "sound cx (fst st)"
  obtain s orders where st: "st = (s, orders)" by (cases st)
  have s: "sound cx s" using s by (simp add: st)
  show "sound cx (fst st')"
  proof (cases "wait_rule cx s cs d")
    case (Some rule)
    have "sound cx (s\<lparr>waits := waits s @ [wait_of d]\<rparr>)" by (rule sound_waits[OF s]) (use assms in \<open>simp add: wait_of_def\<close>)
    with r Some show ?thesis by (auto simp: dep_step_def st Let_def)
  next
    case None
    show ?thesis
    proof (cases "registered_dep cx d")
      case True
      with r None s show ?thesis by (auto simp: dep_step_def st Let_def)
    next
      case False
      with r None obtain s1 where s1: "add_interface cx (gd_symbol d) [gd_user d] None s = Inr s1"
        "fst st' = (record_decision (decide ''P2'' ''interface_first'' (gd_provider_units d @ gd_user_units d) [PRE]) s1)
           \<lparr>firsts := firsts s1 @ [(gd_user d, gd_symbol d)]\<rparr>"
        by (auto simp: dep_step_def st Let_def and_then_def split: sum.splits)
      have "sound cx s1" using keeps_add_interface[OF assms] s1(1) s by (auto simp: keeps_parts_def)
      then have "sound cx (record_decision d' s1)" for d' by simp
      from sound_firsts[OF this, of "[(gd_user d, gd_symbol d)]"] assms show ?thesis by (simp add: s1(2))
    qed
  qed
qed

lemma keeps_register_first:
  assumes "ctx_valid cx" "\<And>sy. sy \<in> set (fe_symbols (pl_edit p)) \<Longrightarrow> good_symbol sy" "targets = targets_of cx i (fe_symbols (pl_edit p))"
  shows "keeps_parts cx id (register_first cx home p targets users)"
  unfolding keeps_parts_def
proof (intro allI impI)
  let ?names = "fe_symbols (pl_edit p)"
  let ?add = "\<lambda>(name, target) s. case target of None \<Rightarrow> Inr s | Some sy \<Rightarrow> add_interface cx sy [] (Some name) s"
  fix s s' assume r: "register_first cx home p targets users s = Inr s'" and s: "sound cx (id s)"
  from r obtain s1 where s1: "move_edit home Pre_b p s = Inr s1" by (auto simp: register_first_def Let_def and_then_def split: sum.splits)
  let ?s2 = "drop_provides home ?names (gain Pre_b ?names (pl_unit p) s1)"
  from r s1 obtain s3 where s3: "for_each ?add targets ?s2 = Inr s3" by (auto simp: register_first_def Let_def and_then_def split: sum.splits)
  have "sound cx s1" using keeps_move_edit s1 s by (auto simp: keeps_parts_def)
  then have "sound cx ?s2" using assms(2) by (intro sound_drop sound_gain)
  moreover have "keeps_parts cx id (for_each ?add targets)"
  proof (rule keeps_for_each)
    fix x assume "x \<in> set targets"
    then obtain name where x: "x = (name, target_of cx i name)" by (auto simp: assms(3) targets_of_def)
    show "keeps_parts cx id (?add x)" unfolding x
      by (cases "target_of cx i name") (auto simp: keeps_parts_def dest: keeps_add_interface[OF target_good[OF assms(1)], unfolded keeps_parts_def, rule_format])
  qed
  ultimately have "sound cx s3" using s3 by (auto simp: keeps_parts_def)
  then have ap: "sound cx (s3\<lparr>after_pre := ap\<rparr>)" for ap by simp
  have "sound cx (s3\<lparr>after_pre := ap, firsts := firsts s3 @ concat (map (\<lambda>m. map (Pair k) (filter (f m) ?names)) ms)\<rparr>)" for ap k f ms
  proof -
    have "good_symbol (snd x)" if "x \<in> set (concat (map (\<lambda>m. map (Pair k) (filter (f m) ?names)) ms))" for x using that assms(2) by auto
    then have "sound cx ((s3\<lparr>after_pre := ap\<rparr>)\<lparr>firsts := firsts (s3\<lparr>after_pre := ap\<rparr>) @ concat (map (\<lambda>m. map (Pair k) (filter (f m) ?names)) ms)\<rparr>)"
      by (rule sound_firsts[OF ap])
    then show ?thesis by simp
  qed
  then show "sound cx (id s')" using r s1 s3 by (auto simp: register_first_def Let_def and_then_def intro!: sound_note)
qed

lemma keeps_register_last:
  assumes "\<And>sy. sy \<in> set (fe_symbols (pl_edit p)) \<Longrightarrow> good_symbol sy"
  shows "keeps_parts cx id (register_last cx home p targets)"
  unfolding keeps_parts_def
proof (intro allI impI)
  fix s s' assume r: "register_last cx home p targets s = Inr s'" and s: "sound cx (id s)"
  from r obtain s1 where s1: "move_edit home Reg_b p s = Inr s1" by (auto simp: register_last_def Let_def and_then_def split: sum.splits)
  have "sound cx s1" using keeps_move_edit s1 s by (auto simp: keeps_parts_def)
  then have "sound cx (drop_provides home (fe_symbols (pl_edit p)) (gain Reg_b (fe_symbols (pl_edit p)) (pl_unit p) s1))"
    using assms by (intro sound_drop sound_gain)
  then show "sound cx (id s')" using r s1 by (auto simp: register_last_def Let_def and_then_def intro!: sound_note)
qed

lemma keeps_place_registration:
  assumes "ctx_valid cx" "(u, e) \<in> set (registration_edits cx)" "\<And>d. d \<in> set deps \<Longrightarrow> good_symbol (gd_symbol d)"
  shows "keeps_parts cx fst (place_registration cx deps (u, e))"
  unfolding keeps_parts_def
proof (intro allI impI)
  fix st st' assume r: "place_registration cx deps (u, e) st = Inr st'" and s: "sound cx (fst st)"
  obtain s orders where st: "st = (s, orders)" by (cases st)
  have s: "sound cx s" using s by (simp add: st)
  let ?p = "\<lparr>pl_unit = u_id u, pl_edit = e\<rparr>"
  let ?home = "by_key s (bucket_of s (u_id u))"
  let ?targets = "targets_of cx (u_id u) (fe_symbols e)"
  have names: "good_symbol sy" if "sy \<in> set (fe_symbols (pl_edit ?p))" for sy
  proof -
    have "fact_unit_valid u" "e \<in> set (u_edits u)" using assms(1,2) by (auto simp: registration_edits_def ctx_valid_def known_units_def)
    with that show ?thesis by (auto simp: fact_unit_valid_def fact_edit_valid_def unique_valid list_all_iff)
  qed
  have ws: "sound cx (s\<lparr>waits := waits s @ map wait_of (filter P (filter Q deps))\<rparr>)" for P Q
    by (rule sound_waits[OF s]) (use assms(3) in \<open>auto simp: wait_of_def\<close>)
  have first: "sound cx (s1\<lparr>firsts := firsts s1 @ concat (map (\<lambda>user. map (Pair user) (filter (P user) (fe_symbols e))) us)\<rparr>)"
    if "register_first cx ?home ?p ?targets users s = Inr s1" for s1 users P us
  proof -
    have "keeps_parts cx id (register_first cx ?home ?p ?targets users)" by (rule keeps_register_first[OF assms(1) names]) simp_all
    from keeps_partsD[OF this that] s have "sound cx s1" by simp
    then show ?thesis by (rule sound_firsts) (use names in auto)
  qed
  have last: "sound cx s1" if "register_last cx ?home ?p ?targets s = Inr s1" for s1
    using keeps_partsD[OF keeps_register_last[of ?p, OF names] that] s by simp
  show "sound cx (fst st')"
    using r s ws first last unfolding place_registration_def st Let_def prod.case
    by (auto simp: and_then_def split: if_splits sum.splits)
qed

lemma keeps_step2:
  assumes "ctx_valid cx"
  shows "keeps_parts cx id (step2 cx)"
  unfolding keeps_parts_def
proof (intro allI impI)
  fix s s' assume r: "step2 cx s = Inr s'" and s: "sound cx (id s)"
  have deps: "good_symbol (gd_symbol d)" if "d \<in> set (group_deps cx s)" for d
    using group_dep_symbol[OF that] assms by (auto simp: ctx_valid_def)
  from r obtain st orders cs where st: "for_each (dep_step cx cs) (group_deps cx s) (s, []) = Inr st"
      "for_each (place_registration cx (group_deps cx s)) (registration_edits cx) st = Inr (s', orders)"
    by (auto simp: step2_def Let_def and_then_def split: sum.splits)
  have "keeps_parts cx fst (for_each (dep_step cx cs) (group_deps cx s))" by (intro keeps_for_each keeps_dep_step deps)
  from keeps_partsD[OF this st(1)] s have st1: "sound cx (fst st)" by simp
  have "keeps_parts cx fst (for_each (place_registration cx (group_deps cx s)) (registration_edits cx))"
    by (intro keeps_for_each) (use keeps_place_registration[OF assms _ deps] in auto)
  from keeps_partsD[OF this st(2) st1] show "sound cx (id s')" by simp
qed

lemma keeps_share_entry:
  assumes "ctx_valid cx" "\<And>sy. sy \<in> set (fe_symbols (pl_edit (snd x))) \<Longrightarrow> good_symbol sy"
  shows "keeps_parts cx fst (share_entry cx x)"
  unfolding keeps_parts_def
proof (intro allI impI)
  fix st st' assume r: "share_entry cx x st = Inr st'" and s: "sound cx (fst st)"
  obtain s stayed ref p where st: "st = (s, stayed)" and x: "x = (ref, p)" by (cases st; cases x)
  have "sound cx s1" if "register_first cx ref p (targets_of cx (pl_unit p) (fe_symbols (pl_edit p))) users s = Inr s1" for s1 users
    using keeps_register_first[OF assms(1) _ refl, of p] assms(2) that s by (auto simp: keeps_parts_def x st)
  then show "sound cx (fst st')" using r s by (auto simp: share_entry_def st x Let_def and_then_def split: if_splits sum.splits)
qed

lemma keeps_share_kept:
  assumes "ctx_valid cx" "sound cx s" "share_kept_registrations cx s = Inr s'"
    and "\<And>b p. b \<in> set (buckets s) \<Longrightarrow> p \<in> set (bk_edits b) \<Longrightarrow> \<forall>sy\<in>set (fe_symbols (pl_edit p)). good_symbol sy"
  shows "sound cx s'"
proof -
  have entry: "\<forall>sy\<in>set (fe_symbols (pl_edit (snd y))). good_symbol sy" if "x \<in> set (kept_registrations s)" "y \<in> set (snd x)" for x y
  proof -
    have "y \<in> set (concat (map snd (kept_registrations s)))" using that by auto
    then have "y \<in> set (concat (map (\<lambda>r. map (Pair r) (filter (\<lambda>p. fe_kind (pl_edit p) = Registration) (bk_edits (bucket_at s r)))) (group_refs s)))"
      using mset_eq_setD[OF kept_registrations_entries[of s]] by blast
    then obtain n where "n < length (buckets s)" "snd y \<in> set (bk_edits (buckets s ! n))" by (auto simp: group_refs_def)
    then show ?thesis using assms(4) nth_mem by blast
  qed
  have "keeps_parts cx id (share_path cx x)" if "x \<in> set (kept_registrations s)" for x
    unfolding keeps_parts_def
  proof (intro allI impI)
    fix s1 s2 assume r: "share_path cx x s1 = Inr s2" and s1: "sound cx (id s1)"
    have "keeps_parts cx fst (for_each (share_entry cx) (snd x))" by (intro keeps_for_each keeps_share_entry assms(1)) (use entry[OF that] in blast)
    moreover have "sound cx (fold (stayed_decision f) stayed s) = sound cx s" for f stayed s
      by (induction stayed arbitrary: s) (auto simp: stayed_decision_def Let_def split: prod.splits)
    moreover have "s2 = s1 \<or> (\<exists>s3 stayed. for_each (share_entry cx) (snd x) (s1, []) = Inr (s3, stayed) \<and> s2 = fold (stayed_decision (fst x)) stayed s3)"
      using r by (cases x) (auto simp: share_path_def and_then_def split: if_splits sum.splits)
    ultimately show "sound cx (id s2)" using s1 keeps_partsD[of cx fst "for_each (share_entry cx) (snd x)" "(s1, [])"] by auto
  qed
  then have "keeps_parts cx id (for_each (share_path cx) (kept_registrations s))" by (rule keeps_for_each)
  with assms(2,3) show ?thesis by (auto simp: share_kept_registrations_def keeps_parts_def split: if_splits)
qed

lemma keeps_step3:
  assumes "ctx_valid cx"
  shows "keeps_parts cx id (step3 cx)"
proof -
  have move: "keeps_parts cx id (move_shared cx r p others)" for r p others
    unfolding keeps_parts_def
  proof (intro allI impI)
    fix s s' assume r': "move_shared cx r p others s = Inr s'" and s: "sound cx (id s)"
    let ?moved = "filter (\<lambda>sy. sym_path sy = fe_file (pl_edit p)) (u_provides (unit_of cx (pl_unit p)))"
    from r' obtain s1 where s1: "move_edit r Pre_b p s = Inr s1" by (auto simp: move_shared_def Let_def and_then_def split: sum.splits)
    have "sound cx s1" using keeps_move_edit s1 s by (auto simp: keeps_parts_def)
    then have g: "sound cx (gain Pre_b ?moved (pl_unit p) s1)" by (rule sound_gain) (use unit_symbols(1)[OF assms] in auto)
    then have "sound cx (change_at r (\<lambda>b. b\<lparr>bk_provides := filter P (bk_provides b)\<rparr>) (gain Pre_b ?moved (pl_unit p) s1))" for P
      by (rule sound_change) (auto simp: sound_bucket_def)
    with g show "sound cx (id s')" using r' s1 by (auto simp: move_shared_def Let_def and_then_def intro!: sound_note split: if_splits)
  qed
  have edit: "keeps_parts cx id (step3_edit cx fl keys k p)" for fl keys k p
    using move by (auto simp: keeps_parts_def step3_edit_def Let_def add_reason_def split: if_splits)
  have key: "keeps_parts cx id (step3_key cx fl keys k)" for fl keys k
    using keeps_for_each[of _ cx id "step3_edit cx fl keys k", OF edit] by (auto simp: keeps_parts_def step3_key_def)
  have "keeps_parts cx id (step3_file cx x)" for x
    using keeps_for_each[of _ cx id "step3_key cx f ks" for f ks, OF key] by (cases x) (auto simp: keeps_parts_def step3_file_def Let_def split: if_splits)
  from keeps_for_each[of _ cx id "step3_file cx", OF this] show ?thesis by (auto simp: keeps_parts_def step3_def)
qed

lemma make_buckets_sound:
  assumes "ctx_valid cx"
  shows "sound cx (make_buckets cx gs ds)"
proof -
  have "sound_bucket cx (group_bucket cx g)" for g
    using unit_symbols(1)[OF assms] by (auto simp: sound_bucket_def group_bucket_def Let_def empty_bucket_def)
  then show ?thesis by (auto simp: sound_def make_buckets_def all_buckets_def sound_bucket_def empty_bucket_def)
qed

section \<open>Shared files\<close>

text \<open>After \<open>share_files\<close> a bucket may share files.\<close>

definition ready_bucket :: "synth_ctx \<Rightarrow> bucket \<Rightarrow> bool" where
  "ready_bucket cx b \<longleftrightarrow> (\<forall>p\<in>set (bk_touch b). good_path p \<and> has_file (cx_index cx) p) \<and> distinct (bk_provides b)
     \<and> (\<forall>sy\<in>set (bk_provides b). good_symbol sy) \<and> distinct (bk_shared b) \<and> (\<forall>p\<in>set (bk_shared b). good_path p)"

definition ready :: "synth_ctx \<Rightarrow> synth \<Rightarrow> bool" where
  "ready cx s \<longleftrightarrow> (\<forall>b\<in>set (all_buckets s). ready_bucket cx b) \<and> bk_fill (pre_bucket s) = []
     \<and> (\<forall>w\<in>set (waits s). good_symbol (wt_symbol w)) \<and> (\<forall>x\<in>set (firsts s). good_symbol (snd x))"

definition shares_only :: "string set \<Rightarrow> synth \<Rightarrow> bool" where
  "shares_only done s \<longleftrightarrow> (\<forall>b\<in>set (all_buckets s). set (bk_shared b) \<subseteq> done)"

lemma ready_other [simp]:
  "ready cx (record_decision d s) = ready cx s" "ready cx (s\<lparr>file_reasons := fr\<rparr>) = ready cx s" "ready cx (s\<lparr>parallel_files := pf\<rparr>) = ready cx s"
  "shares_only D (record_decision d s) = shares_only D s" "shares_only D (s\<lparr>file_reasons := fr\<rparr>) = shares_only D s"
  "shares_only D (s\<lparr>parallel_files := pf\<rparr>) = shares_only D s"
  by (simp_all add: ready_def shares_only_def all_buckets_def record_decision_def)

definition in_range :: "synth \<Rightarrow> bref \<Rightarrow> bool" where
  "in_range s r \<longleftrightarrow> r \<in> set (group_refs s)"

lemma share_with_effect:
  assumes "ready cx s" "shares_only (insert fl D) s" "in_range s r" "fl \<notin> set (bk_shared (bucket_at s r))" "good_path fl"
  shows "ready cx (share_with fl syms r s)" "shares_only (insert fl D) (share_with fl syms r s)"
    "r' \<noteq> r \<Longrightarrow> bucket_at (share_with fl syms r s) r' = bucket_at s r'" "in_range (share_with fl syms r s) = in_range s"
proof -
  obtain n where n: "r = Group_b n" "n < length (buckets s)" using assms(3) by (auto simp: in_range_def group_refs_def)
  obtain tx where s': "share_with fl syms r s = s\<lparr>buckets := (buckets s)[n := (buckets s ! n)\<lparr>bk_shared := bk_shared (buckets s ! n) @ [fl],
      bk_notes := bk_notes (buckets s ! n) @ [tx]\<rparr>]\<rparr>"
    using n by (simp add: share_with_def Let_def add_note_def)
  have b: "buckets s ! n \<in> set (all_buckets s)" using n(2) by (simp add: all_buckets_def)
  let ?b = "(buckets s ! n)\<lparr>bk_shared := bk_shared (buckets s ! n) @ [fl], bk_notes := bk_notes (buckets s ! n) @ [tx]\<rparr>"
  have sub: "set ((buckets s)[n := ?b]) \<subseteq> insert ?b (set (buckets s))" by (rule set_update_subset_insert)
  have all: "\<forall>x\<in>set (all_buckets (share_with fl syms r s)). Q x" if "\<forall>x\<in>set (all_buckets s). Q x" "Q ?b" for Q
    using that sub unfolding s' all_buckets_def by auto
  have "ready_bucket cx (buckets s ! n)" using assms(1) b by (simp add: ready_def)
  then have "ready_bucket cx ?b" using assms(4,5) by (auto simp: ready_bucket_def n(1))
  with all[of "ready_bucket cx"] show "ready cx (share_with fl syms r s)" using assms(1) unfolding ready_def by (simp add: s')
  have "set (bk_shared ?b) \<subseteq> insert fl D" using assms(2) b by (auto simp: shares_only_def)
  with all[of "\<lambda>x. set (bk_shared x) \<subseteq> insert fl D"] show "shares_only (insert fl D) (share_with fl syms r s)" using assms(2) unfolding shares_only_def by simp
  show "r' \<noteq> r \<Longrightarrow> bucket_at (share_with fl syms r s) r' = bucket_at s r'" unfolding s' by (cases r') (simp_all add: n(1))
  show "in_range (share_with fl syms r s) = in_range s" by (simp add: s' in_range_def group_refs_def fun_eq_iff)
qed

lemma share_with_all:
  assumes "good_path fl"
  shows "ready cx s \<Longrightarrow> shares_only (insert fl D) s \<Longrightarrow> distinct rs \<Longrightarrow> (\<forall>r\<in>set rs. in_range s r \<and> fl \<notin> set (bk_shared (bucket_at s r))) \<Longrightarrow>
    ready cx (fold (share_with fl syms) rs s) \<and> shares_only (insert fl D) (fold (share_with fl syms) rs s)
    \<and> in_range (fold (share_with fl syms) rs s) = in_range s"
proof (induction rs arbitrary: s)
  case (Cons r rs)
  have r: "in_range s r" "fl \<notin> set (bk_shared (bucket_at s r))" using Cons.prems(4) by simp_all
  note eff = share_with_effect[where syms = syms, OF Cons.prems(1,2) r assms]
  have "\<forall>r'\<in>set rs. in_range (share_with fl syms r s) r' \<and> fl \<notin> set (bk_shared (bucket_at (share_with fl syms r s) r'))"
  proof
    fix r' assume r': "r' \<in> set rs"
    with Cons.prems(3) have "r' \<noteq> r" by auto
    with eff(3,4) Cons.prems(4) r' show "in_range (share_with fl syms r s) r' \<and> fl \<notin> set (bk_shared (bucket_at (share_with fl syms r s) r'))" by simp
  qed
  from Cons.IH[OF eff(1,2) _ this] Cons.prems(3) eff(4) show ?case by simp
qed simp

lemma share_file_effect:
  assumes "ready cx s" "shares_only D s" "fl \<notin> D" "good_path fl" "distinct rs" "\<forall>r\<in>set rs. in_range s r"
  shows "ready cx (share_file (fl, rs) s) \<and> shares_only (insert fl D) (share_file (fl, rs) s) \<and> in_range (share_file (fl, rs) s) = in_range s"
proof -
  have D: "shares_only (insert fl D) s" using assms(2) by (auto simp: shares_only_def)
  have "fl \<notin> set (bk_shared (bucket_at s r))" if "r \<in> set rs" for r
  proof -
    have "in_range s r" using assms(6) that by blast
    then obtain n where "r = Group_b n" "n < length (buckets s)" by (auto simp: in_range_def group_refs_def)
    then have "bucket_at s r \<in> set (all_buckets s)" by (simp add: all_buckets_def)
    then show ?thesis using assms(2,3) by (auto simp: shares_only_def)
  qed
  with assms(6) have "\<forall>r\<in>set rs. in_range s r \<and> fl \<notin> set (bk_shared (bucket_at s r))" by blast
  from share_with_all[OF assms(4,1) D assms(5) this] have w: "ready cx (fold (share_with fl syms) rs s)"
    "shares_only (insert fl D) (fold (share_with fl syms) rs s)" "in_range (fold (share_with fl syms) rs s) = in_range s" for syms by blast+
  have keep: "in_range (record_decision d s) = in_range s" "in_range (s\<lparr>file_reasons := fr\<rparr>) = in_range s" "in_range (s\<lparr>parallel_files := pf\<rparr>) = in_range s" for d s fr pf
    by (simp_all add: in_range_def group_refs_def fun_eq_iff record_decision_def)
  show ?thesis
  proof (cases "length rs < 2 \<or> why_not_parallel fl (map (bucket_at s) rs) \<noteq> []")
    case True
    with assms(1) D show ?thesis by (auto simp: share_file_def Let_def add_reason_def keep)
  next
    case False
    with w show ?thesis by (simp add: share_file_def Let_def keep)
  qed
qed

text \<open>The editors of a file: every group once.\<close>

lemma collected_at:
  "dict_get (fold (\<lambda>x d. dict_set (f x) (dict_get d (f x) [] @ [g x]) d) xs d) k [] = dict_get d k [] @ map g (filter (\<lambda>x. f x = k) xs)"
  by (induction xs arbitrary: d) (auto simp: dict_get_set)

lemma collected_keys:
  "distinct (map fst d) \<Longrightarrow> distinct (map fst (fold (\<lambda>x d. dict_set (f x) (dict_get d (f x) [] @ [g x]) d) xs d))
   \<and> fst ` set (fold (\<lambda>x d. dict_set (f x) (dict_get d (f x) [] @ [g x]) d) xs d) = fst ` set d \<union> f ` set xs"
proof (induction xs arbitrary: d)
  case (Cons x xs)
  have "distinct (map fst (dict_set (f x) (dict_get d (f x) [] @ [g x]) d))" using Cons.prems by (simp add: distinct_update)
  from Cons.IH[OF this] show ?case by (auto simp: dom_update)
qed simp

lemma distinct_files_pairs: "distinct rs \<Longrightarrow> (\<And>b. distinct (f b)) \<Longrightarrow> distinct (concat (map (\<lambda>r. map (\<lambda>p. (p, r)) (f (g r))) rs))"
  by (induction rs) (auto simp: distinct_map inj_on_def)

definition editor_pairs :: "synth \<Rightarrow> (string \<times> bref) list" where
  "editor_pairs s = concat (map (\<lambda>r. map (\<lambda>p. (p, r)) (bk_edit_files (bucket_at s r))) (group_refs s))"

lemma group_editor_refs_collected: "group_editor_refs s = fold (\<lambda>x d. dict_set (fst x) (dict_get d (fst x) [] @ [snd x]) d) (editor_pairs s) []"
  by (simp add: group_editor_refs_def editor_pairs_def fold_concat_map fold_map comp_def)

lemma group_editor_refs_ok:
  assumes "(fl, rs) \<in> set (group_editor_refs s)"
  shows "distinct rs" "\<forall>r\<in>set rs. in_range s r" "\<exists>b\<in>set (buckets s). fl \<in> set (bk_edit_files b)"
proof -
  have d: "distinct (map fst (group_editor_refs s))" "fst ` set (group_editor_refs s) = fst ` set (editor_pairs s)"
    unfolding group_editor_refs_collected using collected_keys[of "[]" fst snd "editor_pairs s"] by auto
  have "map_of (group_editor_refs s) fl = Some rs" using d(1) assms by simp
  then have "rs = dict_get (group_editor_refs s) fl []" by (simp add: dict_get_def)
  also have "\<dots> = map snd (filter (\<lambda>x. fst x = fl) (editor_pairs s))"
    unfolding group_editor_refs_collected collected_at by (simp add: dict_get_def)
  finally have rs: "rs = map snd (filter (\<lambda>x. fst x = fl) (editor_pairs s))" .
  have "distinct (editor_pairs s)"
  proof -
    have "distinct (group_refs s)" by (simp add: group_refs_def distinct_map inj_on_def)
    moreover have "distinct (bk_edit_files b)" for b by (simp add: bk_edit_files_def)
    ultimately show ?thesis unfolding editor_pairs_def by (intro distinct_files_pairs)
  qed
  then show "distinct rs" unfolding rs by (auto simp: distinct_map inj_on_def)
  show "\<forall>r\<in>set rs. in_range s r" by (auto simp: rs editor_pairs_def in_range_def)
  have "fl \<in> fst ` set (editor_pairs s)" using d(2) assms by (metis fst_conv image_eqI)
  then show "\<exists>b\<in>set (buckets s). fl \<in> set (bk_edit_files b)" by (auto simp: editor_pairs_def group_refs_def)
qed

lemma share_files_ready:
  assumes "sound cx s" "\<And>b p. b \<in> set (buckets s) \<Longrightarrow> p \<in> set (bk_edit_files b) \<Longrightarrow> good_path p"
  shows "ready cx (share_files cx s)"
proof -
  have start: "ready cx s" "shares_only {} s" using assms(1) by (auto simp: sound_def ready_def shares_only_def sound_bucket_def ready_bucket_def)
  have "distinct (map fst (group_editor_refs s))"
    unfolding group_editor_refs_collected using collected_keys[of "[]" fst snd "editor_pairs s"] by simp
  moreover have "distinct rs \<and> (\<forall>r\<in>set rs. in_range s r) \<and> good_path fl" if "(fl, rs) \<in> set (group_editor_refs s)" for fl rs
    using group_editor_refs_ok[OF that] assms(2) by blast
  moreover have "ready cx (fold share_file xs s')"
    if "ready cx s'" "shares_only D s'" "in_range s' = in_range s" "distinct (map fst xs)" "fst ` set xs \<inter> D = {}"
      "\<forall>(fl, rs)\<in>set xs. distinct rs \<and> (\<forall>r\<in>set rs. in_range s r) \<and> good_path fl" for xs s' D
    using that
  proof (induction xs arbitrary: s' D)
    case (Cons x xs)
    obtain fl rs where x: "x = (fl, rs)" by (cases x)
    have "fl \<notin> D" "good_path fl" "distinct rs" "\<forall>r\<in>set rs. in_range s' r" using Cons.prems(3,5,6) by (auto simp: x)
    from share_file_effect[OF Cons.prems(1,2) this] have
      eff: "ready cx (share_file x s')" "shares_only (insert fl D) (share_file x s')" "in_range (share_file x s') = in_range s'" by (simp_all add: x)
    have "ready cx (fold share_file xs (share_file x s'))"
      by (rule Cons.IH[OF eff(1,2)]) (use Cons.prems(3-6) eff(3) in \<open>auto simp: x\<close>)
    then show ?case by simp
  qed simp
  ultimately have "ready cx (fold share_file (group_editor_refs s) s)" using start by blast
  with start(1) show ?thesis by (simp add: share_files_def)
qed

lemma record_order_ready: "ready cx s \<Longrightarrow> ready cx (record_order cx s)"
proof (cases "off cx ''p3''")
  case False
  assume r: "ready cx s"
  show ?thesis unfolding record_order_def Let_def
    by (simp only: False if_False, rule fold_keeps[where P = "ready cx", OF r]) (simp split: prod.split)
qed (simp add: record_order_def)

section \<open>Placing\<close>

lemma placed_valid:
  assumes "ctx_valid cx" "work_ok cx gs s" "b \<in> set (all_buckets s)" "p \<in> set (bk_edits b)"
  shows "fact_edit_valid (pl_edit p)" "p \<in> set (all_placed cx)"
proof -
  have "mset (concat (map bk_edits (all_buckets s))) = mset (all_placed cx)" using assms(2) by (simp add: work_ok_def edits_kept_def)
  from mset_eq_setD[OF this] assms(3,4) show p: "p \<in> set (all_placed cx)" by auto
  then obtain u where "u \<in> set (known_units cx)" "pl_edit p \<in> set (u_edits u)" by (auto simp: all_placed_def)
  with assms(1) show "fact_edit_valid (pl_edit p)" by (auto simp: ctx_valid_def fact_unit_valid_def list_all_iff)
qed

lemma placing_ready:
  assumes "ctx_ok cx" "ctx_valid cx" "groups_ok cx gs" "place_work cx gs ds = Inr s"
  shows "ready cx s" "work_ok cx gs s"
proof -
  let ?s0 = "make_buckets cx gs ds"
  note s0 = make_buckets_ok[OF assms(1,3), of ds]
  obtain s1 where s1: "step2 cx ?s0 = Inr s1" "work_ok cx gs s1" "all_supported cx s1" using step2_ok[OF assms(1,3) s0] by auto
  obtain s2 where s2: "share_kept_registrations cx s1 = Inr s2" "work_ok cx gs s2" using share_kept_ok[OF assms(1) s1(2,3)] by blast
  obtain s3 where s3: "step3 cx s2 = Inr s3" "work_ok cx gs s3" using step3_ok[OF assms(1,3) s2(2)] by blast
  have "s = record_order cx (share_files cx s3)"
    using assms(4) s1(1) s2(1) s3(1) by (auto simp: place_work_def and_then_def check_invariants_def check_cycles_def Let_def split: if_splits)
  moreover have "sound cx s1" using keeps_partsD[OF keeps_step2[OF assms(2)] s1(1)] make_buckets_sound[OF assms(2)] by simp
  then have "sound cx s2"
    by (rule keeps_share_kept[OF assms(2) _ s2(1)])
      (use placed_valid(1)[OF assms(2) s1(2)] in \<open>auto simp: all_buckets_def fact_edit_valid_def unique_valid list_all_iff\<close>)
  then have "sound cx s3" using keeps_partsD[OF keeps_step3[OF assms(2)] s3(1)] by simp
  then have "ready cx (share_files cx s3)"
    by (rule share_files_ready) (use placed_valid(1)[OF assms(2) s3(2)] in \<open>auto simp: all_buckets_def bk_edit_files_def fact_edit_valid_def\<close>)
  ultimately show "ready cx s" using record_order_ready by simp
  show "work_ok cx gs s" using record_order_ok[OF share_files_ok[OF s3(2)]] \<open>s = _\<close> by simp
qed

end
