(* ===== verification/Synth_Result.thy ===== *)
theory Synth_Result
  imports Synth_Parts
begin

text \<open>
  What the whole synthesis gives for checked facts: no exception of Python or pydantic; either the facts contradict each other, or the built graph does not
  validate, or there is a graph. A split graph is validated, holds all the work of the facts, and is parallel enough; otherwise one agent does it all.
\<close>

section \<open>Ids\<close>

definition ids_valid :: "string dict \<Rightarrow> bool" where
  "ids_valid ids \<longleftrightarrow> (\<forall>i\<in>snd ` set ids. node_id_valid i)"

lemma dict_set_values: "snd ` set (dict_set k v d) \<subseteq> insert v (snd ` set d)"
  by (induction d) auto

lemma ids_valid_set: "ids_valid ids \<Longrightarrow> node_id_valid i \<Longrightarrow> ids_valid (dict_set k i ids)"
  unfolding ids_valid_def using dict_set_values[of k i ids] by blast

lemma id_at_valid: "ids_valid ids \<Longrightarrow> k \<in> fst ` set ids \<Longrightarrow> node_id_valid (id_at ids k)"
proof -
  assume ids: "ids_valid ids" "k \<in> fst ` set ids"
  then obtain i where "map_of ids k = Some i" by (metis domIff dom_map_of_conv_image_fst not_None_eq)
  with ids(1) show ?thesis by (force simp: ids_valid_def id_at_def dict_get_def dest: map_of_SomeD)
qed

lemma fresh_id_valid: "members \<noteq> [] \<Longrightarrow> list_all node_id_valid members \<Longrightarrow> node_id_valid (fresh_id members taken)"
  using new_id_fresh[of members taken] new_id_valid[of members taken] by (auto simp: fresh_id_def)

lemma all_ids_valid:
  assumes "\<forall>b\<in>set (buckets s). bk_units b \<noteq> [] \<and> list_all node_id_valid (bk_units b)"
  shows "ids_valid (all_ids cx s)" "insert PRE (insert REG (bk_key ` set (buckets s))) \<subseteq> fst ` set (all_ids cx s)"
proof -
  let ?taken = "map fst (cx_units cx)"
  have one: "ids_valid (group_id t b ids)" if "ids_valid ids" "bk_units b \<noteq> []" "list_all node_id_valid (bk_units b)" for t b ids
    unfolding group_id_def by (rule ids_valid_set[OF that(1)]) (use that(2,3) fresh_id_valid in \<open>auto split: list.splits\<close>)
  have "ids_valid (fold (group_id t) bs ids) \<and> bk_key ` set bs \<union> fst ` set ids \<subseteq> fst ` set (fold (group_id t) bs ids)"
    if "\<forall>b\<in>set bs. bk_units b \<noteq> [] \<and> list_all node_id_valid (bk_units b)" "ids_valid ids" for t bs ids
    using that
  proof (induction bs arbitrary: ids)
    case (Cons b bs)
    then have "ids_valid (group_id t b ids)" using one by simp
    from Cons.IH[OF _ this] Cons.prems show ?case by (auto simp: group_id_def dom_update)
  qed simp
  from this[OF assms, of "[]" ?taken] have groups: "ids_valid (fold (group_id ?taken) (buckets s) [])"
    "bk_key ` set (buckets s) \<subseteq> fst ` set (fold (group_id ?taken) (buckets s) [])" by (simp_all add: ids_valid_def)
  have "node_id_valid PRE" "node_id_valid REG" by (simp_all add: PRE_def REG_def node_id_valid_def)
  then have "node_id_valid (fresh_id [PRE] t)" "node_id_valid (fresh_id [REG] t)" for t using fresh_id_valid[of "[PRE]" t] fresh_id_valid[of "[REG]" t] by simp_all
  with groups(1) show "ids_valid (all_ids cx s)" unfolding all_ids_def Let_def by (simp add: ids_valid_set)
  show "insert PRE (insert REG (bk_key ` set (buckets s))) \<subseteq> fst ` set (all_ids cx s)"
    using groups(2) unfolding all_ids_def Let_def by (auto simp: dom_update)
qed

section \<open>Goals\<close>

definition has_text :: "string \<Rightarrow> bool" where
  "has_text s \<longleftrightarrow> (\<exists>c\<in>set s. \<not> char_isspace c)"

lemma not_blank_iff: "py_strip s \<noteq> [] \<longleftrightarrow> has_text s"
proof
  have "set (py_strip s) \<subseteq> set s" by (auto simp: py_strip_def py_rstrip_def py_lstrip_def dest!: set_dropWhileD)
  moreover assume "py_strip s \<noteq> []"
  moreover have "\<not> char_isspace (last (py_strip s))" if "py_strip s \<noteq> []"
    using that hd_dropWhile[of char_isspace "rev (py_lstrip s)"] by (simp add: py_strip_def py_rstrip_def last_rev)
  ultimately show "has_text s" unfolding has_text_def by (meson last_in_set subsetD)
next
  assume "has_text s"
  then obtain c where "c \<in> set s" "\<not> char_isspace c" by (auto simp: has_text_def)
  then show "py_strip s \<noteq> []" by (rule py_strip_nonempty)
qed

lemma rstrip_text: "has_text (py_rstrip s) = has_text s"
proof -
  have "(\<exists>c\<in>set (dropWhile char_isspace xs). \<not> char_isspace c) = (\<exists>c\<in>set xs. \<not> char_isspace c)" for xs by (induction xs) auto
  then show ?thesis by (simp add: has_text_def py_rstrip_def)
qed

lemma has_text_append: "has_text (s @ t) = (has_text s \<or> has_text t)"
  by (auto simp: has_text_def)

lemma strip_text: "has_text s \<Longrightarrow> has_text (py_strip s)"
proof -
  assume "has_text s"
  have "(\<exists>c\<in>set (dropWhile char_isspace xs). \<not> char_isspace c) = (\<exists>c\<in>set xs. \<not> char_isspace c)" for xs by (induction xs) auto
  then have "has_text (py_lstrip s) = has_text s" by (simp add: has_text_def py_lstrip_def)
  with rstrip_text \<open>has_text s\<close> show ?thesis by (simp add: py_strip_def)
qed

lemma join_text: "has_text x \<Longrightarrow> has_text (py_join sep (x # xs))"
  by (cases xs) (simp_all add: has_text_append)

lemma goal_text:
  assumes "\<And>i. bk_units b = [i] \<Longrightarrow> has_text (u_goal (unit_of cx i))"
  shows "has_text (goal_of cx s ids b)"
proof -
  have head: "has_text (CHR ''P'' # t)" "has_text (CHR ''R'' # t)" for t by (simp_all add: has_text_def char_isspace_def)
  have pre: "has_text (pre_goal cx s ids)" "has_text (reg_goal cx s ids)"
    unfolding pre_goal_def reg_goal_def by (rule join_text, simp add: head)+
  have merged: "has_text (merged_goal ps cs)" for ps cs using merged_goal_not_blank[of ps cs] by (simp add: not_blank_iff)
  let ?own = "case bk_units b of [i] \<Rightarrow> py_strip (u_goal (unit_of cx i))
    | is' \<Rightarrow> merged_goal (map (\<lambda>i. \<lparr>part_id = i, part_title = u_title (unit_of cx i), part_goal = u_goal (unit_of cx i)\<rparr>) is') []"
  have "has_text ?own" using assms merged by (auto split: list.splits intro: strip_text)
  with pre have body: "has_text (if bk_key b = PRE then pre_goal cx s ids else if bk_key b = REG then reg_goal cx s ids else ?own)" by simp
  have noted: "has_text (if bk_notes b \<noteq> [] then py_rstrip t @ newline @ newline @ py_join '' '' (bk_notes b) else t)" if "has_text t" for t
    using that by (simp add: has_text_append rstrip_text)
  have conv: "has_text (goal_with_conventions t cs)" if "has_text t" for t cs
    using that by (simp add: goal_with_conventions_def Let_def has_text_append rstrip_text)
  show ?thesis unfolding goal_of_def Let_def by (rule conv[OF noted[OF body]])
qed

section \<open>Nodes\<close>

lemma unit_paths:
  assumes "ctx_valid cx"
  shows "r \<in> set (u_context_files (unit_of cx i)) \<Longrightarrow> isr (validate_context_ref r)"
proof -
  have "fact_unit_valid (unit_of cx i) \<or> u_context_files (unit_of cx i) = []"
    using assms by (auto simp: unit_of_def ctx_valid_def known_units_def split: option.splits dest!: map_of_SomeD)
  then show "r \<in> set (u_context_files (unit_of cx i)) \<Longrightarrow> isr (validate_context_ref r)" by (auto simp: fact_unit_valid_def list_all_iff)
qed

lemma created_paths:
  assumes "ctx_ok cx" "ctx_valid cx" "work_ok cx gs s"
  shows "distinct (concat (map bk_create (all_buckets s)))"
    and "b \<in> set (all_buckets s) \<Longrightarrow> p \<in> set (bk_create b) \<Longrightarrow> good_path p \<and> \<not> has_file (cx_index cx) p"
proof -
  have m: "mset (concat (map bk_create (all_buckets s))) = mset (concat (map u_create (known_units cx)))"
    using assms(3) by (simp add: work_ok_def creates_kept_def)
  show "distinct (concat (map bk_create (all_buckets s)))" using mset_eq_imp_distinct_iff[OF m] assms(1) by (simp add: ctx_ok_def)
  show "good_path p \<and> \<not> has_file (cx_index cx) p" if "b \<in> set (all_buckets s)" "p \<in> set (bk_create b)"
  proof -
    from that mset_eq_setD[OF m] have "p \<in> set (concat (map u_create (known_units cx)))" by auto
    then obtain u where "u \<in> set (known_units cx)" "p \<in> set (u_create u)" by auto
    with assms(1,2) show ?thesis by (auto simp: ctx_ok_def ctx_valid_def fact_unit_valid_def unique_valid list_all_iff)
  qed
qed

lemma edited_paths:
  assumes "ctx_ok cx" "ctx_valid cx" "work_ok cx gs s" "b \<in> set (all_buckets s)" "p \<in> set (bk_edit_files b)"
  shows "good_path p \<and> has_file (cx_index cx) p"
proof -
  from assms(5) obtain q where q: "q \<in> set (bk_edits b)" "p = fe_file (pl_edit q)" by (auto simp: bk_edit_files_def)
  note v = placed_valid[OF assms(2-4) q(1)]
  from v(2) obtain u where "u \<in> set (known_units cx)" "pl_edit q \<in> set (u_edits u)" by (auto simp: all_placed_def)
  with ctx_ok_units(3)[OF assms(1)] v(1) show ?thesis by (auto simp: q(2) unit_edits_ok_def fact_edit_valid_def)
qed

lemma fill_not_created:
  assumes "ctx_ok cx" "ctx_valid cx" "work_ok cx gs s" "ready cx s" "b \<in> set (all_buckets s)" "p \<in> set (bk_fill b)"
  shows "good_path p" "p \<notin> set (bk_create b)"
proof -
  have pre: "p \<in> set (bk_create (pre_bucket s))" using assms(3,5,6) by (auto simp: work_ok_def creates_kept_def)
  have "pre_bucket s \<in> set (all_buckets s)" by (simp add: all_buckets_def)
  from created_paths(2)[OF assms(1-3) this pre] show "good_path p" by simp
  have "b \<noteq> pre_bucket s" using assms(4,6) by (auto simp: ready_def)
  then have "b \<in> set (buckets s @ [reg_bucket s])" using assms(5) by (simp add: all_buckets_def)
  moreover have "set (bk_create (pre_bucket s)) \<inter> set (concat (map bk_create (buckets s @ [reg_bucket s]))) = {}"
    using created_paths(1)[OF assms(1-3)] unfolding all_buckets_def by simp
  ultimately show "p \<notin> set (bk_create b)" using pre by auto
qed

lemma node_edit_set_ok:
  assumes "ctx_ok cx" "ctx_valid cx" "work_ok cx gs s" "ready cx s" "b \<in> set (all_buckets s)"
  shows "edit_set_valid \<lparr>any_file = False, modify = py_unique (bk_edit_files b @ bk_touch b @ bk_fill b), create = bk_create b,
     es_symbols = changed_symbols b, shared = bk_shared b\<rparr>"
proof -
  have rb: "ready_bucket cx b" using assms(4,5) by (simp add: ready_def)
  have "distinct (bk_create b)" using created_paths(1)[OF assms(1-3)] assms(5) distinct_concat_iff by (auto simp: distinct_concat_iff)
  moreover have "p \<notin> set (bk_create b)" "good_path p" if "p \<in> set (bk_edit_files b @ bk_touch b @ bk_fill b)" for p
    using that edited_paths[OF assms(1-3,5)] fill_not_created[OF assms] created_paths(2)[OF assms(1-3,5)] rb by (auto simp: ready_bucket_def)
  moreover have "good_symbol sy" if "sy \<in> set (changed_symbols b)" for sy
    using that placed_valid(1)[OF assms(2,3,5)] by (auto simp: changed_symbols_def fact_edit_valid_def unique_valid list_all_iff)
  ultimately show ?thesis using rb created_paths(2)[OF assms(1-3,5)]
    by (auto simp: edit_set_valid_def unique_valid list_all_iff ready_bucket_def changed_symbols_def)
qed

lemma node_of_valid:
  assumes "ctx_ok cx" "ctx_valid cx" "work_ok cx gs s" "ready cx s" "b \<in> set (all_buckets s)"
    and "\<And>i. bk_units b = [i] \<Longrightarrow> has_text (u_goal (unit_of cx i))" "node_id_valid (id_at ids (bk_key b))"
    and "\<And>c. c \<in> snd ` set checks \<Longrightarrow> check_valid c"
  shows "node_valid (node_of cx s ids checks implemented b)"
proof -
  let ?n = "node_of cx s ids checks implemented b"
  have rb: "ready_bucket cx b" using assms(4,5) by (simp add: ready_def)
  have "isr (goal_not_blank (goal ?n))" using goal_text[OF assms(6)] by (simp add: node_of_def Let_def goal_not_blank_def not_blank_iff)
  moreover have "edit_set_valid (node_edit_set ?n)" using node_edit_set_ok[OF assms(1-5)] by (simp add: node_of_def Let_def)
  moreover have "good_symbol sy" if "sy \<in> set (needed s implemented b) \<union> set (needed_impl s implemented b)" for sy
    using that assms(4) by (auto simp: needed_def needed_impl_def ready_def)
  then have "unique_symbols_valid (requires ?n)" "unique_symbols_valid (requires_impl ?n)"
    by (auto simp: node_of_def Let_def unique_valid list_all_iff)
  moreover have "unique_symbols_valid (provides ?n)" using rb by (auto simp: node_of_def Let_def unique_valid list_all_iff ready_bucket_def)
  moreover have "check_valid (node_check ?n)"
  proof (cases "map_of checks (bk_key b)")
    case (Some c)
    then have "c \<in> snd ` set checks" by (force dest: map_of_SomeD)
    with Some assms(8) show ?thesis by (simp add: node_of_def Let_def dict_get_def)
  qed (simp add: node_of_def Let_def dict_get_def check_valid_def DEFAULT_TIMEOUT_def)
  moreover have "list_all (\<lambda>r. isr (validate_context_ref r)) (context_files ?n)" "isr (reject_duplicate_paths (context_files ?n))"
    using unit_paths[OF assms(2)] by (auto simp: node_of_def Let_def context_of_def list_all_iff reject_duplicate_paths_def)
  moreover have "isr (requires_and_requires_impl_disjoint ?n)" by (auto simp: node_of_def Let_def)
  ultimately show ?thesis using assms(7) by (simp add: node_valid_def node_of_def Let_def)
qed

section \<open>The graph\<close>

lemma nodes_of_refs: "map (bucket_at s) (node_refs s) = filter (\<lambda>b. \<not> bk_is_empty b) (all_buckets s)"
proof -
  have "map (bucket_at s) (group_refs s) = buckets s" by (simp add: group_refs_def comp_def map_nth)
  then have all: "map (bucket_at s) (all_refs s) = all_buckets s" by (simp add: all_refs_def all_buckets_def)
  show ?thesis unfolding node_refs_def all[symmetric] filter_map comp_def ..
qed

lemma recorded_same [simp]:
  "all_buckets (s\<lparr>decisions := ds\<rparr>) = all_buckets s" "ready cx (s\<lparr>decisions := ds\<rparr>) = ready cx s" "work_ok cx gs (s\<lparr>decisions := ds\<rparr>) = work_ok cx gs s"
  by (simp_all add: all_buckets_def ready_def work_ok_def work_parts)

lemma dict_of_values: "snd ` set (dict_of kvs) \<subseteq> snd ` set kvs"
proof -
  have "snd ` set (fold (\<lambda>(k, v). dict_set k v) kvs d) \<subseteq> snd ` set kvs \<union> snd ` set d" for d
  proof (induction kvs arbitrary: d)
    case (Cons x kvs)
    from Cons[of "dict_set (fst x) (snd x) d"] dict_set_values[of "fst x" "snd x" d] show ?case by (cases x) auto
  qed simp
  from this[of "[]"] show ?thesis by (simp add: dict_of_def)
qed

lemma check_for_valid: "check_valid (fst (check_for cx counts b))"
  by (auto simp: check_for_def check_valid_def DEFAULT_TIMEOUT_def split: prod.splits)

definition built_nodes :: "synth_ctx \<Rightarrow> synth \<Rightarrow> node list" where
  "built_nodes cx s =
     (let bs = filter (\<lambda>b. \<not> bk_is_empty b) (all_buckets s) in
      map (node_of cx s (all_ids cx s) (dict_of (map (\<lambda>b. (bk_key b, fst (check_for cx (file_counts bs) b))) bs)) (implemented_symbols bs)) bs)"

lemma built_nodes_valid:
  assumes "ctx_ok cx" "ctx_valid cx" "groups_ok cx gs" "work_ok cx gs s" "ready cx s" "\<forall>u\<in>set (known_units cx). has_text (u_goal u)"
  shows "list_all node_valid (built_nodes cx s)"
proof -
  have shape: "group_shape gs s" using assms(4) by (simp add: work_ok_def)
  have members: "bk_units b \<noteq> [] \<and> set (bk_units b) \<subseteq> set (unit_ids cx)" if "b \<in> set (buckets s)" for b
  proof -
    have "bk_units b \<in> set gs" using that shape by (auto simp: group_shape_def)
    then show ?thesis using groups_distinct[OF assms(3)] assms(3) by (auto simp: groups_ok_def)
  qed
  have known: "u_id u = i \<Longrightarrow> node_id_valid i" if "u \<in> set (known_units cx)" for u i
    using that assms(2) by (auto simp: ctx_valid_def fact_unit_valid_def)
  have valid: "node_id_valid i" if "i \<in> set (unit_ids cx)" for i using ctx_ok_unit_of[OF assms(1) that] known by metis
  have "\<forall>b\<in>set (buckets s). bk_units b \<noteq> [] \<and> list_all node_id_valid (bk_units b)" using members valid by (auto simp: list_all_iff)
  note ids = all_ids_valid[OF this, of cx]
  let ?bs = "filter (\<lambda>b. \<not> bk_is_empty b) (all_buckets s)"
  let ?checks = "dict_of (map (\<lambda>b. (bk_key b, fst (check_for cx (file_counts ?bs) b))) ?bs)"
  have checks: "check_valid c" if "c \<in> snd ` set ?checks" for c using subsetD[OF dict_of_values that] check_for_valid by auto
  have "node_valid (node_of cx s (all_ids cx s) ?checks im b)" if b: "b \<in> set (all_buckets s)" for b im
  proof (rule node_of_valid[OF assms(1,2,4,5) b])
    have "bk_key (pre_bucket s) = PRE" "bk_key (reg_bucket s) = REG" using shape by (simp_all add: group_shape_def)
    then have "bk_key b \<in> insert PRE (insert REG (bk_key ` set (buckets s)))" using b by (auto simp: all_buckets_def)
    with ids(2) have "bk_key b \<in> fst ` set (all_ids cx s)" by blast
    then show "node_id_valid (id_at (all_ids cx s) (bk_key b))" by (rule id_at_valid[OF ids(1)])
    show "has_text (u_goal (unit_of cx i))" if "bk_units b = [i]" for i
    proof -
      have "b \<in> set (buckets s)" using b that shape by (auto simp: all_buckets_def group_shape_def)
      from members[OF this] that have "i \<in> set (unit_ids cx)" by simp
      then show ?thesis using ctx_ok_unit_of(1)[OF assms(1)] assms(6) by blast
    qed
  qed (use checks in blast)
  then show ?thesis unfolding built_nodes_def Let_def by (auto simp: list_all_iff)
qed

text \<open>All the work of the units is in the nodes.\<close>

definition carries :: "fact_unit list \<Rightarrow> graph \<Rightarrow> bool" where
  "carries us g \<longleftrightarrow> (\<forall>u\<in>set us. (\<forall>e\<in>set (u_edits u). \<exists>n\<in>set (nodes g). fe_file e \<in> set (modify (node_edit_set n)))
     \<and> (\<forall>p\<in>set (u_create u). \<exists>n\<in>set (nodes g). p \<in> set (create (node_edit_set n)))
     \<and> (\<forall>sy\<in>set (u_provides u). \<exists>n\<in>set (nodes g). sy \<in> set (provides n)))"

lemma built_nodes_carry:
  assumes "work_ok cx gs s" "nodes g = built_nodes cx s"
  shows "carries (known_units cx) g"
proof -
  have node: "\<exists>n\<in>set (nodes g). modify (node_edit_set n) = py_unique (bk_edit_files b @ bk_touch b @ bk_fill b)
      \<and> create (node_edit_set n) = bk_create b \<and> provides n = bk_provides b"
    if "b \<in> set (all_buckets s)" "x \<in> set (bk_files b)" for b x
    using that unfolding assms(2) built_nodes_def Let_def by (auto simp: node_of_def Let_def bk_is_empty_def intro!: bexI[of _ b])
  have kept: "mset (concat (map bk_edits (all_buckets s))) = mset (all_placed cx)"
    "mset (concat (map bk_create (all_buckets s))) = mset (concat (map u_create (known_units cx)))"
    "provides_kept cx s" using assms(1) by (simp_all add: work_ok_def edits_kept_def creates_kept_def)
  have edits: "\<exists>n\<in>set (nodes g). fe_file e \<in> set (modify (node_edit_set n))" if "u \<in> set (known_units cx)" "e \<in> set (u_edits u)" for u e
  proof -
    have "\<lparr>pl_unit = u_id u, pl_edit = e\<rparr> \<in> set (all_placed cx)" using that by (auto simp: all_placed_def)
    then obtain b where "b \<in> set (all_buckets s)" "\<lparr>pl_unit = u_id u, pl_edit = e\<rparr> \<in> set (bk_edits b)" using mset_eq_setD[OF kept(1)] by auto
    then have b: "b \<in> set (all_buckets s)" "fe_file e \<in> set (bk_edit_files b)" by (auto simp: bk_edit_files_def intro!: image_eqI)
    then have "fe_file e \<in> set (bk_files b)" by (auto simp: bk_files_def)
    from node[OF b(1) this] obtain n where "n \<in> set (nodes g)" "modify (node_edit_set n) = py_unique (bk_edit_files b @ bk_touch b @ bk_fill b)" by blast
    with b(2) show ?thesis by (intro bexI[of _ n]) simp_all
  qed
  have creates: "\<exists>n\<in>set (nodes g). p \<in> set (create (node_edit_set n))" if "u \<in> set (known_units cx)" "p \<in> set (u_create u)" for u p
  proof -
    have "p \<in> set (concat (map u_create (known_units cx)))" using that by auto
    then obtain b where b: "b \<in> set (all_buckets s)" "p \<in> set (bk_create b)" using mset_eq_setD[OF kept(2)] by auto
    then have "p \<in> set (bk_files b)" by (auto simp: bk_files_def)
    from node[OF b(1) this] obtain n where "n \<in> set (nodes g)" "create (node_edit_set n) = bk_create b" by blast
    with b(2) show ?thesis by (intro bexI[of _ n]) simp_all
  qed
  have "\<exists>n\<in>set (nodes g). sy \<in> set (provides n)" if "u \<in> set (known_units cx)" "sy \<in> set (u_provides u)" for u sy
  proof -
    have "sy \<in> set (bk_provides (pre_bucket s)) \<union> set (bk_provides (reg_bucket s)) \<or> (\<exists>b\<in>set (buckets s). sy \<in> set (bk_provides b))"
      using kept(3) that unfolding provides_kept_def by blast
    then obtain b where b: "b \<in> set (all_buckets s)" "sy \<in> set (bk_provides b)" by (auto simp: all_buckets_def)
    then have "sym_path sy \<in> set (bk_files b)" using kept(3) by (auto simp: provides_kept_def)
    from node[OF b(1) this] obtain n where "n \<in> set (nodes g)" "provides n = bk_provides b" by blast
    with b(2) show ?thesis by (intro bexI[of _ n]) simp_all
  qed
  with edits creates show ?thesis by (simp add: carries_def)
qed

section \<open>The single-agent plan\<close>

lemma single_node_valid: "node_valid (single_node req checks)"
proof -
  have "has_text (req @ newline @ newline @ SINGLE_INSTRUCTION)"
    unfolding has_text_append SINGLE_INSTRUCTION_def by (simp add: has_text_def char_isspace_def)
  then show ?thesis
    by (simp add: node_valid_def single_node_def node_id_valid_def goal_not_blank_def not_blank_iff edit_set_valid_def unique_valid check_valid_def
        DEFAULT_TIMEOUT_def reject_duplicate_paths_def)
qed

lemma single_plan_validates:
  assumes "nodes g = [single_node req checks]" "edges g = []"
  shows "report_ok (validate g (Some idx)) \<longleftrightarrow> checks = [] \<or> has_command checks"
proof -
  have base: "unique_nodes g = [single_node req checks]" "node_ids g = [''solve'']" "usable_edges g = []" "edge_rel g = {}"
    using assms by (simp_all add: unique_nodes_def node_ids_def single_node_def usable_edges_def edge_rel_def)
  have "has_command [''git diff --check'']" by code_simp
  then have "commands_ok g \<longleftrightarrow> checks = [] \<or> has_command checks" by (auto simp: commands_ok_def assms single_node_def)
  moreover have "structure_ok g" "conflicts_ordered g" "edit_sets_ok g" "symbols_ok g" "interfaces_ok g" "distinct (created_files g)"
    "files_ok g idx" "requires_ok g idx" "implementations_ok g idx" "acyclic (edge_rel g)"
    by (simp_all add: structure_ok_def conflicts_ordered_def edit_sets_ok_def symbols_ok_def interfaces_ok_def created_files_def files_ok_def
        requires_ok_def implementations_ok_def base assms acyclic_def, simp_all add: single_node_def)
  ultimately show ?thesis by (simp add: validate_ok_Some plan_ok_def plan_fits_def)
qed

section \<open>The outcome\<close>

definition one_agent :: "synthesis \<Rightarrow> bool" where
  "one_agent r = (case sy_parallelism r of None \<Rightarrow> True | Some p \<Rightarrow> collapsed p)"

definition outcome_ok :: "synth_ctx \<Rightarrow> graph_info \<Rightarrow> synth_exn + synthesis \<Rightarrow> bool" where
  "outcome_ok cx info res = (case res of
     Inl e \<Rightarrow> (\<exists>issues. e = Facts_conflict issues) \<or> (\<exists>problems. e = Synthesis_error ''step 5'' problems)
   | Inr r \<Rightarrow> graph_valid (sy_graph r)
       \<and> (if one_agent r then nodes (sy_graph r) = [single_node (gi_request info) (gi_final_checks info)] \<and> edges (sy_graph r) = []
          else report_ok (validate (sy_graph r) (Some (cx_index cx))) \<and> carries (known_units cx) (sy_graph r)
            \<and> (\<exists>p. sy_parallelism r = Some p \<and> chain (sy_graph r) (critical_path p)
                 \<and> (off cx ''p1'' \<or> 10000 * critical_work p \<le> 7001 * total_work p))))"

lemma single_plan_outcome:
  assumes "\<And>p. par = Some p \<Longrightarrow> collapsed p"
  shows "outcome_ok cx info (single_plan cx info revised members why ds par)"
  using assms single_node_valid by (auto simp: outcome_ok_def single_plan_def plan_of_def and_then_def Let_def graph_valid_def one_agent_def split: option.splits)

lemma single_collapsed_outcome: "collapsed p \<Longrightarrow> outcome_ok cx info (single_collapsed cx info revised p ds)"
  unfolding single_collapsed_def by (rule single_plan_outcome) simp

lemma work_of_nonneg:
  assumes "ctx_valid cx" "work_ok cx gs s"
  shows "0 \<le> work_of cx s r"
proof -
  have "0 \<le> lines_of b" if "b \<in> set (all_buckets s)" for b
    unfolding lines_of_def by (rule sum_list_nonneg) (use placed_valid(1)[OF assms that] in \<open>auto simp: fact_edit_valid_def\<close>)
  then show ?thesis by (auto simp: work_of_def all_buckets_def INTERFACE_LINES_def Let_def split: bref.split)
qed

lemma derived_nodes: "nodes (fst (derive_edges g idx)) = nodes g"
  by (rule derive_edges_grows[of g idx]) (auto dest: grows_nodes)

lemma checked_graph_cases:
  "checked_graph cx s ids g = Inr d \<Longrightarrow> report_ok (validate d (Some (cx_index cx))) \<and> nodes d = nodes g"
  "checked_graph cx s ids g = Inl e \<Longrightarrow> (\<exists>issues. e = Facts_conflict issues) \<or> (\<exists>problems. e = Synthesis_error ''step 5'' problems)"
  using derived_nodes[of g "cx_index cx"] by (auto simp: checked_graph_def Let_def report_ok_def split: prod.splits if_splits)

lemma build_outcome:
  assumes "ctx_ok cx" "ctx_valid cx" "groups_ok cx gs" "gs \<noteq> []" "work_ok cx gs s0" "ready cx s0" "\<forall>u\<in>set (known_units cx). has_text (u_goal u)"
  shows "outcome_ok cx info (build cx info revised s0)"
proof (cases "bk_is_empty (pre_bucket s0) \<and> after_pre s0 \<noteq> []")
  case True
  then show ?thesis by (simp add: build_def Let_def outcome_ok_def)
next
  case False
  let ?refs = "node_refs s0" let ?bs = "map (bucket_at s0) ?refs"
  let ?checked = "map (\<lambda>b. (bk_key b, check_for cx (file_counts ?bs) b)) ?bs"
  let ?s = "s0\<lparr>decisions := decisions s0 @ concat (map (\<lambda>(k, c, ds). ds) ?checked)\<rparr>"
  let ?ids = "all_ids cx ?s"
  let ?plan = "plan_of info revised (sorted_ablate cx) (built_nodes cx ?s) (graph_edges ?s ?ids) (build_log ?s ?ids)"
  have s: "work_ok cx gs ?s" "ready cx ?s" using assms(5,6) by simp_all
  have nodes: "map (node_of cx ?s ?ids (dict_of (map (\<lambda>(k, c, ds). (k, c)) ?checked)) (implemented_symbols ?bs)) ?bs = built_nodes cx ?s"
    unfolding built_nodes_def Let_def nodes_of_refs by (simp add: comp_def split_beta)
  have "buckets s0 \<noteq> []" using assms(4,5) by (auto simp: work_ok_def group_shape_def)
  then obtain b where "b \<in> set (buckets s0)" "\<not> bk_is_empty b" using assms(5) by (cases "buckets s0") (auto simp: work_ok_def bk_is_empty_def)
  then have "built_nodes cx ?s \<noteq> []" by (auto simp: built_nodes_def Let_def filter_empty_conv all_buckets_def)
  with built_nodes_valid[OF assms(1-3) s assms(7)] obtain g where g: "?plan = Inr g" "nodes g = built_nodes cx ?s" "graph_valid g"
    by (auto simp: plan_of_def Let_def graph_valid_def)
  show ?thesis
  proof (cases "checked_graph cx ?s ?ids g")
    case (Inl e)
    from checked_graph_cases(2)[OF Inl] show ?thesis using False g(1) Inl unfolding build_def Let_def nodes by (simp add: and_then_def outcome_ok_def)
  next
    case (Inr d)
    have d: "report_ok (validate d (Some (cx_index cx)))" "nodes d = built_nodes cx ?s" using checked_graph_cases(1)[OF Inr] g(2) by simp_all
    then have shape: "distinct (node_ids d)" "acyclic (edge_rel d)" by (simp_all add: validate_ok_Some plan_ok_def structure_ok_def)
    have gd: "graph_valid d" using g(2,3) d(2) by (simp add: graph_valid_def)
    let ?work = "dict_of (map (\<lambda>r. (id_at ?ids (bk_key (bucket_at ?s r)), work_of cx ?s r)) ?refs)"
    have "0 \<le> work_at ?work i" for i
    proof (cases "map_of ?work i")
      case (Some w)
      then have "w \<in> snd ` set ?work" by (force dest: map_of_SomeD)
      from subsetD[OF dict_of_values this] have "0 \<le> w" using work_of_nonneg[OF assms(2) s(1)] by auto
      with Some show ?thesis by (simp add: dict_get_def)
    qed (simp add: dict_get_def)
    then have "\<forall>i. 0 \<le> work_at ?work i" by blast
    from measure_parallelism_result[OF shape _ this] gd obtain p where
      p: "measure_parallelism d ?work = Some p" "chain d (critical_path p)" "chain_work ?work (critical_path p) = critical_work p"
        "critical_work p \<le> total_work p" "\<not> collapsed p"
        "work_share p = (if total_work p = 0 then 0 else rounded_share (critical_work p) (total_work p))"
      by (auto simp: graph_valid_def)
    have "0 \<le> critical_work p" unfolding p(3)[symmetric] chain_work_def using \<open>\<forall>i. 0 \<le> work_at ?work i\<close> by (intro sum_list_nonneg) auto
    from share_decides(2)[OF this p(4,6)] have share: "work_share p \<le> PARALLEL_PATH_MAX \<Longrightarrow> 10000 * critical_work p \<le> 7001 * total_work p"
      by (simp add: PARALLEL_PATH_MAX_def)
    have carried: "carries (known_units cx) d" by (rule built_nodes_carry[OF s(1) d(2)])
    obtain ds nu a b c where eq: "build cx info revised s0 = (case judge_parallelism cx p of (one, p', x) \<Rightarrow>
        if one then single_collapsed cx info revised p' (ds @ [x])
        else Inr \<lparr>sy_graph = d, sy_decisions = ds @ [x], sy_node_units = nu, sy_pre = a, sy_reg = b, sy_ablate = c, sy_parallelism = Some p'\<rparr>)"
      using False g(1) Inr p(1) unfolding build_def Let_def nodes by (simp add: and_then_def)
    show ?thesis
    proof (cases "\<not> off cx ''p1'' \<and> work_share p > PARALLEL_PATH_MAX")
      case True
      then show ?thesis unfolding eq by (simp add: judge_parallelism_def single_collapsed_outcome)
    next
      case False
      then have "build cx info revised s0 = Inr \<lparr>sy_graph = d, sy_decisions = ds @ [snd (snd (judge_parallelism cx p))], sy_node_units = nu, sy_pre = a,
          sy_reg = b, sy_ablate = c, sy_parallelism = Some p\<rparr>" unfolding eq by (auto simp: judge_parallelism_def)
      then show ?thesis using gd d(1) carried p(2,5) share False by (auto simp: outcome_ok_def one_agent_def)
    qed
  qed
qed

section \<open>Synthesis\<close>

lemma seen_unit_valid: "fact_unit_valid u \<Longrightarrow> fact_unit_valid (seen_unit f ablated u)"
proof -
  assume u: "fact_unit_valid u"
  have "fact_edit_valid (e\<lparr>fe_kind := Logic, fe_standalone := False\<rparr>) = fact_edit_valid e" for e by (simp add: fact_edit_valid_def)
  then have n: "fact_unit_valid (normalized u)" using u by (auto simp: fact_unit_valid_def normalized_def list_all_iff)
  have "fact_use_valid (use\<lparr>fu_need := ''interface''\<rparr>) = fact_use_valid use" for use by (simp add: fact_use_valid_def)
  then have "fact_unit_valid (class_uses_as_interface l (normalized u))" for l using n by (auto simp: fact_unit_valid_def class_uses_as_interface_def list_all_iff)
  with n show ?thesis by (simp add: seen_unit_def)
qed

lemma seen_unit_goal [simp]: "u_goal (seen_unit f ablated u) = u_goal u"
  by (simp add: seen_unit_def class_uses_as_interface_def normalized_def)

lemma init_ctx_known:
  assumes "distinct (map u_id (f_units f))"
  shows "known_units (init_ctx f idx checks tests ablated) = map (seen_unit f ablated) (f_units f)"
    "cx_deps (init_ctx f idx checks tests ablated) = unit_deps_of (map (seen_unit f ablated) (f_units f))"
  by (simp_all add: known_units_def init_ctx_def Let_def init_units_map[OF assms] comp_def)

lemma init_ctx_valid:
  assumes "facts_valid f" "distinct (map u_id (f_units f))"
  shows "ctx_valid (init_ctx f idx checks tests ablated)"
proof -
  have units: "\<forall>u\<in>set (map (seen_unit f ablated) (f_units f)). fact_unit_valid u"
    using assms(1) seen_unit_valid by (auto simp: facts_valid_def list_all_iff)
  have "good_symbol (ud_symbol d)" if "d \<in> set (unit_deps_of (map (seen_unit f ablated) (f_units f)))" for d
  proof -
    from unit_deps_provided[OF that] obtain u where "u \<in> set (map (seen_unit f ablated) (f_units f))" "ud_symbol d \<in> set (u_provides u)" by blast
    with units show ?thesis by (force simp: fact_unit_valid_def unique_valid list_all_iff)
  qed
  with units show ?thesis by (simp add: ctx_valid_def init_ctx_known[OF assms(2)])
qed

lemma carries_seen: "carries (map (seen_unit f ablated) us) g = carries us g"
proof -
  have files: "(\<forall>e\<in>set (u_edits u). Q (fe_file e)) = (\<forall>p\<in>set (u_edit_files u). Q p)" for u Q by (simp add: u_edit_files_def)
  have "(\<forall>e\<in>set (u_edits (normalized u)). Q (fe_file e)) = (\<forall>e\<in>set (u_edits u). Q (fe_file e))" for u Q unfolding files by simp
  from this[of _ "\<lambda>p. \<exists>n\<in>set (nodes g). p \<in> set (modify (node_edit_set n))"] show ?thesis by (simp add: carries_def)
qed

text \<open>C4: For checked facts whose goals are not blank and whose units are not called PRE or REG, the synthesis raises no error of Python or pydantic. It reports that
  the facts contradict each other, or that the graph it built does not validate, or it returns a graph that the classes accept. That graph is the single-agent
  plan, which validates exactly if the final checks are empty or hold a command, or it is a split graph that validates, in which every edit, every new
  file and every provided symbol of every unit belongs to a node, and, unless P1 is turned off, at most about 0.7 of the work lies on one chain.\<close>

theorem synthesis_outcome:
  assumes "facts_valid f" "facts_ok f items idx" "PRE \<notin> u_id ` set (f_units f)" "REG \<notin> u_id ` set (f_units f)"
    and "\<forall>u\<in>set (f_units f). py_strip (u_goal u) \<noteq> []" "set ablated \<subseteq> set PROPERTIES"
  shows "case synthesize f idx info tests ablated revised of
     Inl e \<Rightarrow> (\<exists>issues. e = Facts_conflict issues) \<or> (\<exists>problems. e = Synthesis_error ''step 5'' problems)
   | Inr r \<Rightarrow> graph_valid (sy_graph r)
       \<and> (if one_agent r
          then nodes (sy_graph r) = [single_node (gi_request info) (gi_final_checks info)] \<and> edges (sy_graph r) = []
            \<and> (report_ok (validate (sy_graph r) (Some idx)) \<longleftrightarrow> gi_final_checks info = [] \<or> has_command (gi_final_checks info))
          else report_ok (validate (sy_graph r) (Some idx)) \<and> carries (f_units f) (sy_graph r)
            \<and> (\<exists>p. sy_parallelism r = Some p \<and> chain (sy_graph r) (critical_path p)
                 \<and> (''p1'' \<in> set ablated \<or> 10000 * critical_work p \<le> 7001 * total_work p)))"
proof -
  let ?cx = "init_ctx f idx (gi_final_checks info) tests (set ablated)"
  have d: "distinct (map u_id (f_units f))" using assms(2) by (simp add: facts_ok_def)
  have cx: "ctx_ok ?cx" "ctx_valid ?cx" using init_ctx_ok[OF assms(2-4)] init_ctx_valid[OF assms(1) d] by blast+
  have fields: "cx_index ?cx = idx" "off ?cx ''p1'' \<longleftrightarrow> ''p1'' \<in> set ablated" "unit_ids ?cx = map u_id (f_units f)" "f_together (cx_facts ?cx) = f_together f"
    by (simp_all add: init_ctx_def Let_def off_def unit_ids_def)
  have "distinct (unit_ids ?cx)" "\<forall>t\<in>set (f_together (cx_facts ?cx)). set (tg_units t) \<subseteq> set (unit_ids ?cx)"
    using assms(2) by (simp_all add: fields facts_ok_def)
  from form_groups_result[OF this, of "init_decisions f (set ablated)"] obtain gs ds where
    gs: "form_groups ?cx (init_decisions f (set ablated)) = Some (gs, ds)" "groups_ok ?cx gs" by blast
  have "unit_ids ?cx \<noteq> []" using assms(1) by (simp add: fields facts_valid_def)
  then have "gs \<noteq> []" using groups_distinct[OF gs(2)] by auto
  have goals: "\<forall>u\<in>set (known_units ?cx). has_text (u_goal u)" using assms(5) by (simp add: init_ctx_known[OF d] not_blank_iff)
  have known: "filter (\<lambda>n. n \<notin> set PROPERTIES) ablated = []" using assms(6) by (auto simp: filter_empty_conv)
  have "outcome_ok ?cx info (synthesize f idx info tests ablated revised)"
  proof (cases "length gs = 1")
    case True
    then have "synthesize f idx info tests ablated revised = single_group ?cx info revised (hd gs) ds" by (simp add: synthesize_def Let_def known gs(1))
    then show ?thesis by (simp only: single_group_def) (rule single_plan_outcome, simp)
  next
    case False
    then have eq: "synthesize f idx info tests ablated revised = and_then (place_work ?cx gs ds) (build ?cx info revised)"
      by (simp add: synthesize_def Let_def known gs(1))
    from placing_keeps_the_invariants[OF cx(1) gs(2), of ds] show ?thesis
    proof
      assume "\<exists>s. place_work ?cx gs ds = Inr s \<and> work_ok ?cx gs s"
      then obtain s where s: "place_work ?cx gs ds = Inr s" by blast
      from build_outcome[OF cx gs(2) \<open>gs \<noteq> []\<close> placing_ready(2,1)[OF cx gs(2) s] goals] show ?thesis by (simp add: eq s and_then_def)
    qed (auto simp: eq and_then_def outcome_ok_def)
  qed
  then show ?thesis
    using single_plan_validates[of _ "gi_request info" "gi_final_checks info" idx]
    by (auto simp: outcome_ok_def fields init_ctx_known(1)[OF d] carries_seen split: sum.splits if_splits)
qed

end
