(* ===== verification/Synth_Witness.thy ===== *)
theory Synth_Witness
  imports Synth_Run
begin

text \<open>
  Facts about one feature in two units, each with logic of its own and a registration in \<open>reg.py\<close>: they satisfy the hypotheses of the properties of
  the synthesis. The same facts with a unit called \<open>PRE\<close> pass every check and break the synthesis.
\<close>

section \<open>Two units that register names in one file\<close>

definition w_edit :: "string \<Rightarrow> edit_kind \<Rightarrow> string list \<Rightarrow> int \<Rightarrow> fact_edit" where
  "w_edit p k syms n = \<lparr>fe_file = p, fe_kind = k, fe_symbols = syms, fe_lines = n, fe_standalone = True, fe_note = []\<rparr>"

definition w_unit :: "string \<Rightarrow> fact_edit list \<Rightarrow> string list \<Rightarrow> fact_unit" where
  "w_unit i es syms = \<lparr>u_id = i, u_item = ''I1'', u_title = ''t'', u_goal = ''g'', u_size = 80, u_edits = es, u_create = [], u_provides = syms, u_uses = [],
     u_tests = [], u_context_files = []\<rparr>"

definition w_reg :: fact_edit where
  "w_reg = w_edit ''r.py'' Registration [''r.py::g''] 2"

definition w_facts :: "string \<Rightarrow> facts" where
  "w_facts i = \<lparr>conventions = [],
     f_units = [w_unit ''U1'' [w_edit ''a.py'' Logic [''a.py::f''] 60] [''a.py::f''],
                w_unit i [w_edit ''b.py'' Logic [''b.py::g''] 60, w_reg] [''b.py::g'', ''r.py::g'']],
     f_together = []\<rparr>"

definition w_items :: "draft_item list" where
  "w_items = [\<lparr>di_id = ''I1'', di_title = ''t''\<rparr>]"

definition w_index :: repo_index where
  "w_index = \<lparr>commit = ''c'', files = {''a.py'', ''b.py'', ''r.py''}, symbols = {}, index_warnings = [], markdown_titles = []\<rparr>"

definition w_ctx :: "string \<Rightarrow> synth_ctx" where
  "w_ctx i = init_ctx (w_facts i) w_index [''pytest''] \<lparr>ti_imports = [], ti_sources = [], ti_conftests = [], ti_unresolved = []\<rparr> {}"




lemma w_facts_ok: "i \<noteq> ''U1'' \<Longrightarrow> facts_ok (w_facts i) w_items w_index"
proof -
  assume i: "i \<noteq> ''U1''"
  have syms: "sym_path ''a.py::f'' = ''a.py''" "sym_path ''b.py::g'' = ''b.py''" "sym_path ''r.py::g'' = ''r.py''" by code_simp+
  show ?thesis using i
    by (simp add: facts_ok_def w_facts_def w_unit_def w_items_def w_index_def w_edit_def w_reg_def unit_edits_ok_def unit_provides_ok_def u_edit_files_def
        has_file_def syms)
qed

theorem form_groups_partition_witness:
  "facts_ok (w_facts ''U2'') w_items w_index \<and> (\<exists>gs ds. form_groups (w_ctx ''U2'') [] = Some (gs, ds) \<and> mset (concat gs) = {#''U1'', ''U2''#} \<and> [] \<notin> set gs)"
proof -
  have ok: "facts_ok (w_facts ''U2'') w_items w_index" by (rule w_facts_ok) simp_all
  show ?thesis
    using form_groups_partition[OF ok w_ctx_def[of "''U2''"], of "[]"] ok by (auto simp: w_facts_def w_unit_def)
qed

theorem placing_checked_facts_witness:
  "facts_ok (w_facts ''U2'') w_items w_index \<and> PRE \<notin> u_id ` set (f_units (w_facts ''U2'')) \<and> REG \<notin> u_id ` set (f_units (w_facts ''U2''))
   \<and> (\<exists>gs ds. form_groups (w_ctx ''U2'') (init_decisions (w_facts ''U2'') {}) = Some (gs, ds)
        \<and> (\<forall>e step ps. place_work (w_ctx ''U2'') gs ds \<noteq> Inl (Value_error e) \<and> place_work (w_ctx ''U2'') gs ds \<noteq> Inl (Synthesis_error step ps)))"
proof -
  have ok: "facts_ok (w_facts ''U2'') w_items w_index" by (rule w_facts_ok) simp_all
  have ids: "PRE \<notin> u_id ` set (f_units (w_facts ''U2''))" "REG \<notin> u_id ` set (f_units (w_facts ''U2''))"
    by (simp_all add: w_facts_def w_unit_def PRE_def REG_def)
  from placing_checked_facts[OF ok ids w_ctx_def[of "''U2''"]] obtain gs ds where
    gs: "form_groups (w_ctx ''U2'') (init_decisions (w_facts ''U2'') {}) = Some (gs, ds)"
      "case place_work (w_ctx ''U2'') gs ds of Inl e \<Rightarrow> \<exists>issues. e = Facts_conflict issues | Inr s \<Rightarrow> True"
    by (elim exE conjE) (simp split: sum.splits)
  have "place_work (w_ctx ''U2'') gs ds \<noteq> Inl (Value_error e)" "place_work (w_ctx ''U2'') gs ds \<noteq> Inl (Synthesis_error step ps)" for e step ps
    using gs(2) by (auto split: sum.splits)
  with gs(1) ok ids show ?thesis by blast
qed

section \<open>A unit called PRE\<close>

text \<open>The key of a group is the id of its first unit, and \<open>by_key\<close> finds the PRE bucket under the key \<open>PRE\<close>: a registration of that unit is looked for in
  a bucket it is not in.\<close>

lemma registration_of_PRE_raises:
  assumes "bucket_of s (u_id u) = PRE" "bk_files (pre_bucket s) = []" "bk_units (pre_bucket s) = []" "bk_edits (pre_bucket s) = []" "\<not> off cx ''p2''"
  shows "place_registration cx [] (u, e) (s, orders) = Inl (Value_error ''list.remove(x): x not in list'')"
proof -
  have "by_key s PRE = Pre_b" by (simp add: by_key_def)
  then show ?thesis using assms
    by (simp add: place_registration_def Let_def dep_users_def is_all_of_def register_last_def move_edit_def list_remove_def and_then_def)
qed

definition w_start :: synth where
  "w_start = make_buckets (w_ctx ''PRE'') [[''U1''], [''PRE'']] []"

lemma w_start_deps: "group_deps (w_ctx ''PRE'') w_start = []"
  by code_simp

lemma w_start_registrations: "\<exists>u. registration_edits (w_ctx ''PRE'') = [(u, w_reg)] \<and> u_id u = ''PRE''"
proof -
  have "registration_edits (w_ctx ''PRE'') = [(w_unit ''PRE'' [w_edit ''b.py'' Logic [''b.py::g''] 60, w_reg] [''b.py::g'', ''r.py::g''], w_reg)]"
    by code_simp
  then show ?thesis by (simp add: w_unit_def)
qed

lemma w_start_invariants: "invariant_problems (w_ctx ''PRE'') w_start = []"
  by code_simp

lemma w_start_bucket: "bucket_of w_start ''PRE'' = PRE"
  by code_simp

lemma w_start_groups: "form_groups (w_ctx ''PRE'') (init_decisions (w_facts ''PRE'') {}) = Some ([[''U1''], [''PRE'']], [])"
  by code_simp

lemma w_start_raises: "place_work (w_ctx ''PRE'') [[''U1''], [''PRE'']] [] = Inl (Value_error ''list.remove(x): x not in list'')"
proof -
  obtain u where u: "registration_edits (w_ctx ''PRE'') = [(u, w_reg)]" "u_id u = ''PRE''" using w_start_registrations by blast
  have on: "\<not> off (w_ctx ''PRE'') ''p2''" by (simp add: w_ctx_def init_ctx_def off_def Let_def)
  have "place_registration (w_ctx ''PRE'') [] (u, w_reg) (w_start, []) = Inl (Value_error ''list.remove(x): x not in list'')"
  proof (rule registration_of_PRE_raises)
    show "bucket_of w_start (u_id u) = PRE" using w_start_bucket by (simp add: u)
  qed (simp_all add: on w_start_def bk_files_def bk_edit_files_def)
  then have "step2 (w_ctx ''PRE'') w_start = Inl (Value_error ''list.remove(x): x not in list'')"
    by (simp add: step2_def Let_def w_start_deps u and_then_def)
  then show ?thesis
    using w_start_invariants by (simp add: place_work_def check_invariants_def Let_def and_then_def flip: w_start_def)
qed


end
