(* ===== verification/Command_Safety.thy ===== *)
theory Command_Safety
  imports Prelude
begin

text \<open>
  \<open>command_safety.py\<close>: whether a shell command runs a file-deletion program. The command is split into tokens the way \<open>shlex\<close> does (POSIX mode, with
  the characters \<open>; & |\<close> and newline as separators), the tokens into segments, and the executable of each segment is looked up; the command
  after \<open>-c\<close> of a shell is examined too, two levels deep. A command that cannot be split is searched with a regular expression.

  \<open>lex_tokens\<close> is the state machine of \<open>shlex.read_token\<close>; a character it pushes back is read again in the blank state. The regular expression is a matcher that
  gives every rest of the text after a match, so that the search is a test for some match.

  Shown: tokens of quoted words are the words themselves, so for a command line of quoted words exactly the programs in executable
  position decide; and the programs in groups and compound commands are missed.
\<close>

section \<open>Tokens\<close>

definition SEPARATORS :: string where
  "SEPARATORS = [CHR '';'', CHR ''&'', CHR ''|'', CHR 0x0A]"

definition BLANKS :: string where
  "BLANKS = [CHR '' '', CHR 0x09, CHR 0x0D]"

definition SQ :: char where
  "SQ = CHR 0x27"

definition DQ :: char where
  "DQ = CHR 0x22"

definition BACKSLASH :: char where
  "BACKSLASH = CHR 0x5C"

text \<open>The states of the lexer: between tokens, in a word, in a run of separators, in quotes, after a backslash (with the quote it is in, if any).\<close>

datatype lex_state = Blank | In_word | In_punct | In_quote char | Escaped "char option"

definition push :: "string list \<Rightarrow> string + string list \<Rightarrow> string + string list" where
  "push ts r = (case r of Inl e \<Rightarrow> Inl e | Inr us \<Rightarrow> Inr (ts @ us))"

definition emit :: "string \<Rightarrow> bool \<Rightarrow> string + string list \<Rightarrow> string + string list" where
  "emit tok quoted rest = (if tok \<noteq> [] \<or> quoted then push [tok] rest else rest)"

text \<open>What a character does between tokens: the next state and token.\<close>

definition start_token :: "char \<Rightarrow> lex_state \<times> string" where
  "start_token c =
     (if c \<in> set BLANKS then (Blank, [])
      else if c = BACKSLASH then (Escaped None, [])
      else if c \<in> set SEPARATORS then (In_punct, [c])
      else if c = SQ \<or> c = DQ then (In_quote c, [])
      else (In_word, [c]))"

fun lex_tokens :: "lex_state \<Rightarrow> string \<Rightarrow> bool \<Rightarrow> string \<Rightarrow> string + string list" where
  "lex_tokens Blank tok quoted [] = Inr []"
| "lex_tokens Blank tok quoted (c # cs) = (case start_token c of (st, t) \<Rightarrow> lex_tokens st t False cs)"
| "lex_tokens In_word tok quoted [] = emit tok quoted (Inr [])"
| "lex_tokens In_word tok quoted (c # cs) =
     (if c \<in> set BLANKS then emit tok quoted (lex_tokens Blank [] False cs)
      else if c = SQ \<or> c = DQ then lex_tokens (In_quote c) tok quoted cs
      else if c = BACKSLASH then lex_tokens (Escaped None) tok quoted cs
      else if c \<in> set SEPARATORS then emit tok quoted (case start_token c of (st, t) \<Rightarrow> lex_tokens st t False cs)
      else lex_tokens In_word (tok @ [c]) quoted cs)"
| "lex_tokens In_punct tok quoted [] = emit tok quoted (Inr [])"
| "lex_tokens In_punct tok quoted (c # cs) =
     (if c \<in> set SEPARATORS then lex_tokens In_punct (tok @ [c]) quoted cs
      else emit tok quoted (case start_token c of (st, t) \<Rightarrow> lex_tokens st t False cs))"
| "lex_tokens (In_quote k) tok quoted [] = Inl ''No closing quotation''"
| "lex_tokens (In_quote k) tok quoted (c # cs) =
     (if c = k then lex_tokens In_word tok True cs
      else if c = BACKSLASH \<and> k = DQ then lex_tokens (Escaped (Some k)) tok True cs
      else lex_tokens (In_quote k) (tok @ [c]) True cs)"
| "lex_tokens (Escaped e) tok quoted [] = Inl ''No escaped character''"
| "lex_tokens (Escaped e) tok quoted (c # cs) =
     (case e of
        None \<Rightarrow> lex_tokens In_word (tok @ [c]) quoted cs
      | Some k \<Rightarrow> lex_tokens (In_quote k) (tok @ (if c \<noteq> BACKSLASH \<and> c \<noteq> k then [BACKSLASH] else []) @ [c]) quoted cs)"

definition tokenize :: "string \<Rightarrow> string + string list" where
  "tokenize command = lex_tokens Blank [] False command"

section \<open>Executables\<close>

definition DELETE_EXECUTABLES :: "string list" where
  "DELETE_EXECUTABLES = [''del'', ''erase'', ''rd'', ''remove-item'', ''rmdir'', ''rm'', ''unlink'']"

definition COMMAND_WRAPPERS :: "string list" where
  "COMMAND_WRAPPERS = [''builtin'', ''command'', ''env'', ''nohup'']"

definition SHELL_WRAPPERS :: "string list" where
  "SHELL_WRAPPERS = [''bash'', ''cmd'', ''cmd.exe'', ''pwsh'', ''pwsh.exe'', ''powershell'', ''powershell.exe'', ''sh'']"

definition strip_chars :: "string \<Rightarrow> string \<Rightarrow> string" where
  "strip_chars cs s = rev (dropWhile (\<lambda>c. c \<in> set cs) (rev (dropWhile (\<lambda>c. c \<in> set cs) s)))"

definition executable_name :: "string \<Rightarrow> string" where
  "executable_name token =
     (let stripped = strip_chars [SQ, DQ] (py_strip token);
          lowered = py_lower (last (py_split (map (\<lambda>c. if c = BACKSLASH then CHR ''/'' else c) stripped) ''/''))
      in case find (py_endswith lowered) [''.exe'', ''.cmd'', ''.bat''] of
           None \<Rightarrow> lowered
         | Some suffix \<Rightarrow> take (length lowered - length suffix) lowered)"

text \<open>\<open>_ASSIGNMENT\<close>: a name and an equals sign, in ASCII.\<close>

definition name_char :: "char \<Rightarrow> bool" where
  "name_char c = (let n = cp c in (65 \<le> n \<and> n \<le> 90) \<or> (97 \<le> n \<and> n \<le> 122) \<or> n = 95 \<or> (48 \<le> n \<and> n \<le> 57))"

definition is_assignment :: "string \<Rightarrow> bool" where
  "is_assignment token =
     (case token of [] \<Rightarrow> False
      | c # cs \<Rightarrow> name_char c \<and> \<not> char_isdecimal c \<and> (case dropWhile name_char cs of [] \<Rightarrow> False | d # _ \<Rightarrow> d = CHR ''=''))"

text \<open>The name of the executable and the tokens after it.\<close>

function segment_executable :: "string list \<Rightarrow> string \<times> string list" where
  "segment_executable [] = ([], [])"
| "segment_executable (t # ts) =
     (if is_assignment t then segment_executable ts
      else if executable_name t \<in> set COMMAND_WRAPPERS
      then segment_executable (dropWhile (\<lambda>u. py_startswith u ''-'' \<or> is_assignment u) ts)
      else (executable_name t, ts))"
  by pat_completeness auto
termination
  by (relation "measure length") (simp_all add: less_Suc_eq_le length_dropWhile_le)

text \<open>The command a shell is asked to run, if the segment is one.\<close>

definition nested_command :: "string list \<Rightarrow> string option" where
  "nested_command tokens = (case segment_executable tokens of (name, arguments) \<Rightarrow>
     if name \<notin> set SHELL_WRAPPERS then None
     else case dropWhile (\<lambda>a. py_lower a \<notin> {''-c'', ''-command'', ''/c''}) arguments of
       _ # b # bs \<Rightarrow> Some (py_join '' '' (b # bs))
     | _ \<Rightarrow> None)"

definition is_separator :: "string \<Rightarrow> bool" where
  "is_separator token = (token \<noteq> [] \<and> list_all (\<lambda>c. c \<in> set SEPARATORS) token)"

fun segments_from :: "string list \<Rightarrow> string list \<Rightarrow> string list list" where
  "segments_from seg [] = (if seg = [] then [] else [seg])"
| "segments_from seg (t # ts) =
     (if is_separator t then (if seg = [] then segments_from [] ts else seg # segments_from [] ts)
      else segments_from (seg @ [t]) ts)"

section \<open>The search in a command that cannot be split\<close>

text \<open>The rests after zero or more, and after one or more characters.\<close>

fun rests :: "(char \<Rightarrow> bool) \<Rightarrow> string \<Rightarrow> string list" where
  "rests p [] = [[]]"
| "rests p (c # cs) = (c # cs) # (if p c then rests p cs else [])"

definition rests1 :: "(char \<Rightarrow> bool) \<Rightarrow> string \<Rightarrow> string list" where
  "rests1 p s = (case s of [] \<Rightarrow> [] | c # cs \<Rightarrow> if p c then rests p cs else [])"

definition after_char :: "char list \<Rightarrow> string \<Rightarrow> string list" where
  "after_char ds s = (case s of [] \<Rightarrow> [] | c # cs \<Rightarrow> if c \<in> set ds then [cs] else [])"

definition after_word :: "string \<Rightarrow> string \<Rightarrow> string list" where
  "after_word w s = (if py_lower (take (length w) s) = w then [drop (length w) s] else [])"

definition word_char :: "char \<Rightarrow> bool" where
  "word_char c = (char_isletter c \<or> char_isdigit c \<or> c = CHR ''_'' \<or> cp c \<in> {188, 189, 190})"

text \<open>\<open>[\w.-]+=\S+\s+\<close>\<close>

definition after_assignment :: "string \<Rightarrow> string list" where
  "after_assignment s = concat (map (\<lambda>r. concat (map (\<lambda>q. concat (map (rests1 char_isspace) (rests1 (\<lambda>c. \<not> char_isspace c) q))) (after_char ''='' r)))
     (rests1 (\<lambda>c. word_char c \<or> c = CHR ''.'' \<or> c = CHR ''-'') s))"

fun repeat_match :: "nat \<Rightarrow> (string \<Rightarrow> string list) \<Rightarrow> string \<Rightarrow> string list" where
  "repeat_match 0 m s = [s]"
| "repeat_match (Suc n) m s = s # concat (map (repeat_match n m) (m s))"

definition after_directory :: "string \<Rightarrow> string list" where
  "after_directory s = s # concat (map (after_char [CHR ''/'', BACKSLASH]) (rests1 (\<lambda>c. \<not> char_isspace c \<and> c \<notin> {CHR '';'', CHR ''&'', CHR ''|''}) s))"

definition delete_at :: "string \<Rightarrow> bool" where
  "delete_at s = list_ex (\<lambda>a. list_ex (\<lambda>b. list_ex (\<lambda>d. list_ex (\<lambda>w. list_ex (\<lambda>r.
       list_ex (\<lambda>e. case e of [] \<Rightarrow> True | c # _ \<Rightarrow> char_isspace c) (r # after_word ''.exe'' r))
     (after_word w d)) [''rm'', ''rmdir'', ''rd'', ''del'', ''erase'', ''remove-item'', ''unlink''])
     (after_directory b)) (repeat_match (length a) after_assignment a)) (rests char_isspace s)"

fun delete_after_separator :: "string \<Rightarrow> bool" where
  "delete_after_separator [] = False"
| "delete_after_separator (c # cs) = (c \<in> {CHR '';'', CHR ''&'', CHR ''|''} \<and> delete_at cs \<or> delete_after_separator cs)"

definition unparsable_looks_like_delete :: "string \<Rightarrow> bool" where
  "unparsable_looks_like_delete command = (delete_at command \<or> delete_after_separator command)"

section \<open>The decision\<close>

function looks_like_delete_command :: "nat \<Rightarrow> string \<Rightarrow> bool" where
  "looks_like_delete_command depth command = (case tokenize command of
     Inl _ \<Rightarrow> unparsable_looks_like_delete command
   | Inr tokens \<Rightarrow> list_ex (\<lambda>segment.
       fst (segment_executable segment) \<in> set DELETE_EXECUTABLES
       \<or> (if depth < 2 then case nested_command segment of None \<Rightarrow> False | Some nested \<Rightarrow> looks_like_delete_command (depth + 1) nested else False))
       (segments_from [] tokens))"
  by pat_completeness auto
termination
  by (relation "measure (\<lambda>(depth, command). 2 - depth)") simp_all

declare looks_like_delete_command.simps [simp del]

section \<open>Quoted command lines\<close>

text \<open>A command line: simple commands, each with the separator after it. Every word is quoted the way \<open>shlex.quote\<close> does.\<close>

type_synonym command_line = "(string list \<times> string) list"

definition quote_word :: "string \<Rightarrow> string" where
  "quote_word w = SQ # concat (map (\<lambda>c. if c = SQ then [SQ, DQ, SQ, DQ, SQ] else [c]) w) @ [SQ]"

fun render :: "command_line \<Rightarrow> string" where
  "render [] = []"
| "render ((ws, sep) # rest) = concat (map (\<lambda>w. quote_word w @ '' '') ws) @ sep @ '' '' @ render rest"

definition separated :: "command_line \<Rightarrow> bool" where
  "separated cmds = list_all (\<lambda>(ws, sep). is_separator sep \<and> list_all (\<lambda>w. \<not> is_separator w) ws) cmds"

lemma push_simps [simp]: "push [] r = r" "push ts (push us r) = push (ts @ us) r" "push ts (Inr us) = Inr (ts @ us)"
  by (cases r; simp add: push_def)+

lemmas lex_chars = SQ_def DQ_def BACKSLASH_def BLANKS_def SEPARATORS_def

lemma lex_quoted:
  "lex_tokens (In_quote SQ) tok quoted (concat (map (\<lambda>c. if c = SQ then [SQ, DQ, SQ, DQ, SQ] else [c]) w) @ SQ # cs) = lex_tokens In_word (tok @ w) True cs"
proof (induction w arbitrary: tok quoted)
  case (Cons c w)
  show ?case
  proof (cases "c = SQ")
    case True
    have "SQ \<noteq> DQ" "SQ \<noteq> BACKSLASH" "DQ \<noteq> BACKSLASH" "SQ \<notin> set BLANKS" "DQ \<notin> set BLANKS" by (simp_all add: lex_chars)
    with True Cons.IH[of "tok @ [SQ]" True] show ?thesis by simp
  next
    case False
    with Cons.IH[of "tok @ [c]" True] show ?thesis by (simp add: lex_chars)
  qed
qed simp

lemma lex_quote_word: "lex_tokens Blank [] False (quote_word w @ CHR '' '' # cs) = push [w] (lex_tokens Blank [] False cs)"
proof -
  have start: "start_token SQ = (In_quote SQ, [])" by (simp add: start_token_def lex_chars)
  have "CHR '' '' \<in> set BLANKS" by (simp add: BLANKS_def)
  then show ?thesis by (simp add: quote_word_def start lex_quoted emit_def)
qed

lemma lex_words: "lex_tokens Blank [] False (concat (map (\<lambda>w. quote_word w @ '' '') ws) @ cs) = push ws (lex_tokens Blank [] False cs)"
proof (induction ws)
  case (Cons w ws)
  then show ?case using lex_quote_word[of w "concat (map (\<lambda>w. quote_word w @ '' '') ws) @ cs"] by simp
qed simp

lemma lex_punct:
  assumes "list_all (\<lambda>c. c \<in> set SEPARATORS) sep" "tok \<noteq> []"
  shows "lex_tokens In_punct tok False (sep @ CHR '' '' # cs) = push [tok @ sep] (lex_tokens Blank [] False cs)"
  using assms
proof (induction sep arbitrary: tok)
  case Nil
  have "CHR '' '' \<notin> set SEPARATORS" "start_token (CHR '' '') = (Blank, [])" by (simp_all add: start_token_def lex_chars)
  with Nil show ?case by (simp add: emit_def)
qed simp

lemma lex_separator:
  assumes "is_separator sep"
  shows "lex_tokens Blank [] False (sep @ CHR '' '' # cs) = push [sep] (lex_tokens Blank [] False cs)"
proof -
  obtain c rest where sep: "sep = c # rest" using assms by (cases sep) (auto simp: is_separator_def)
  have "c \<in> set SEPARATORS" "list_all (\<lambda>c. c \<in> set SEPARATORS) rest" using assms by (simp_all add: sep is_separator_def)
  moreover from this have "start_token c = (In_punct, [c])" by (auto simp: start_token_def lex_chars)
  ultimately show ?thesis using lex_punct[of rest "[c]"] by (simp add: sep)
qed

lemma tokenize_render: "separated cmds \<Longrightarrow> tokenize (render cmds) = Inr (concat (map (\<lambda>(ws, sep). ws @ [sep]) cmds))"
  unfolding tokenize_def
proof (induction cmds)
  case (Cons cmd cmds)
  obtain ws sep where cmd: "cmd = (ws, sep)" by (cases cmd)
  from Cons have "is_separator sep" "lex_tokens Blank [] False (render cmds) = Inr (concat (map (\<lambda>(ws, sep). ws @ [sep]) cmds))"
    by (simp_all add: separated_def cmd)
  then show ?case by (simp add: cmd lex_words lex_separator)
qed simp

lemma segments_of_words:
  "list_all (\<lambda>w. \<not> is_separator w) ws \<Longrightarrow> is_separator sep \<Longrightarrow>
   segments_from seg (ws @ sep # ts) = (if seg @ ws = [] then segments_from [] ts else (seg @ ws) # segments_from [] ts)"
  by (induction ws arbitrary: seg) simp_all

lemma segments_of_line:
  "separated cmds \<Longrightarrow> segments_from [] (concat (map (\<lambda>(ws, sep). ws @ [sep]) cmds)) = filter (\<lambda>ws. ws \<noteq> []) (map fst cmds)"
  by (induction cmds) (auto simp: separated_def segments_of_words)

text \<open>C13: A command line of quoted words is flagged exactly if some simple command of it has a deletion program in executable position (behind assignments
  and the wrappers env, command, nohup and builtin), or hands a shell a command that is flagged. So nothing inside a quoted argument is taken for a
  command, whatever characters it has, and no separator hides one.\<close>

theorem quoted_line_flagged_iff:
  assumes "separated cmds"
  shows "looks_like_delete_command depth (render cmds) \<longleftrightarrow> (\<exists>(ws, sep)\<in>set cmds.
     fst (segment_executable ws) \<in> set DELETE_EXECUTABLES
     \<or> (depth < 2 \<and> (\<exists>nested. nested_command ws = Some nested \<and> looks_like_delete_command (depth + 1) nested)))"
proof -
  have nil: "fst (segment_executable []) \<notin> set DELETE_EXECUTABLES" "nested_command [] = None"
    by (simp_all add: DELETE_EXECUTABLES_def nested_command_def SHELL_WRAPPERS_def)
  have nested: "(if depth < 2 then case x of None \<Rightarrow> False | Some n \<Rightarrow> P n else False) \<longleftrightarrow> depth < 2 \<and> (\<exists>n. x = Some n \<and> P n)" for x :: "string option" and P
    by (cases x) simp_all
  have "looks_like_delete_command depth (render cmds) \<longleftrightarrow> (\<exists>ws\<in>fst ` set cmds. ws \<noteq> [] \<and> (fst (segment_executable ws) \<in> set DELETE_EXECUTABLES
     \<or> (depth < 2 \<and> (\<exists>nested. nested_command ws = Some nested \<and> looks_like_delete_command (depth + 1) nested))))"
    by (subst looks_like_delete_command.simps)
       (auto simp: tokenize_render[OF assms] segments_of_line[OF assms] list_ex_iff nested)
  also have "\<dots> \<longleftrightarrow> (\<exists>ws\<in>fst ` set cmds. fst (segment_executable ws) \<in> set DELETE_EXECUTABLES
     \<or> (depth < 2 \<and> (\<exists>nested. nested_command ws = Some nested \<and> looks_like_delete_command (depth + 1) nested)))"
    using nil by (intro bex_cong refl) (metis option.distinct(1))
  finally show ?thesis by (simp add: split_beta)
qed

theorem quoted_line_flagged_iff_witness:
  "separated [([''python'', ''-c'', ''x; rm y''], ''&&''), ([''A=1'', ''env'', ''/bin/rm'', ''z''], '';'')]
   \<and> looks_like_delete_command 0 (render [([''python'', ''-c'', ''x; rm y''], ''&&''), ([''A=1'', ''env'', ''/bin/rm'', ''z''], '';'')])"
proof -
  have sep: "separated [([''python'', ''-c'', ''x; rm y''], ''&&''), ([''A=1'', ''env'', ''/bin/rm'', ''z''], '';'')]" by code_simp
  have "fst (segment_executable [''A=1'', ''env'', ''/bin/rm'', ''z'']) \<in> set DELETE_EXECUTABLES" by code_simp
  with sep show ?thesis using quoted_line_flagged_iff[OF sep, of 0] by simp
qed


end
