(* ===== verification/Hooks.thy ===== *)
theory Hooks
  imports Tools Schema Command_Safety
begin

text \<open>
  The permission layer in front of every tool, \<open>hooks.py\<close>: the validators of the safety policies, the permission hook, and the trigger that
  asks the hooks of an event in order.

  Parameters are where a path resolves to (\<open>safe_path\<close> and the worktree directory, which follow symbolic links), the approval mode and what the user
  answers. A validator may raise where the source does (an input that is not a text); printing is outside.

  Shown: exactly which calls the hook lets through.
\<close>

section \<open>Values\<close>

record tool_use =
  tu_id :: string
  tu_name :: string
  tu_input :: "(string \<times> pyval) list"

fun py_repr :: "pyval \<Rightarrow> string" where
  "py_repr Py_none = ''None''"
| "py_repr (Py_bool b) = (if b then ''True'' else ''False'')"
| "py_repr (Py_int n) = int_str n"
| "py_repr (Py_str s) = repr_str s"
| "py_repr (Py_list xs) = ''['' @ py_join '', '' (map py_repr xs) @ '']''"
| "py_repr (Py_dict d) = ''{'' @ py_join '', '' (map (\<lambda>(k, v). repr_str k @ '': '' @ py_repr v) d) @ ''}''"
| "py_repr (Py_tuple xs) = ''('' @ py_join '', '' (map py_repr xs) @ (if length xs = 1 then '',)'' else '')'')"
| "py_repr (Py_proxy d) = ''mappingproxy({'' @ py_join '', '' (map (\<lambda>(k, v). repr_str k @ '': '' @ py_repr v) d) @ ''})''"
| "py_repr (Py_set xs) = (if xs = [] then ''set()'' else ''{'' @ py_join '', '' (map py_repr xs) @ ''}'')"
| "py_repr (Py_frozenset xs) = ''frozenset('' @ (if xs = [] then [] else ''{'' @ py_join '', '' (map py_repr xs) @ ''}'') @ '')''"

definition py_str :: "pyval \<Rightarrow> string" where
  "py_str v = (case v of Py_str s \<Rightarrow> s | _ \<Rightarrow> py_repr v)"

definition py_truth :: "pyval \<Rightarrow> bool" where
  "py_truth v = (case v of Py_none \<Rightarrow> False | Py_bool b \<Rightarrow> b | Py_int n \<Rightarrow> n \<noteq> 0 | Py_str s \<Rightarrow> s \<noteq> [] | Py_list xs \<Rightarrow> xs \<noteq> [] | Py_dict d \<Rightarrow> d \<noteq> []
     | Py_tuple xs \<Rightarrow> xs \<noteq> [] | Py_proxy d \<Rightarrow> d \<noteq> [] | Py_set xs \<Rightarrow> xs \<noteq> [] | Py_frozenset xs \<Rightarrow> xs \<noteq> [])"

definition type_name :: "pyval \<Rightarrow> string" where
  "type_name v = (case v of Py_none \<Rightarrow> ''NoneType'' | Py_bool _ \<Rightarrow> ''bool'' | Py_int _ \<Rightarrow> ''int'' | Py_str _ \<Rightarrow> ''str'' | Py_list _ \<Rightarrow> ''list'' | Py_dict _ \<Rightarrow> ''dict''
     | Py_tuple _ \<Rightarrow> ''tuple'' | Py_proxy _ \<Rightarrow> ''mappingproxy'' | Py_set _ \<Rightarrow> ''set'' | Py_frozenset _ \<Rightarrow> ''frozenset'')"

text \<open>\<open>pattern in value\<close>\<close>

definition py_in :: "string \<Rightarrow> pyval \<Rightarrow> string + bool" where
  "py_in p v = (case v of
     Py_str s \<Rightarrow> Inr (py_contains p s)
   | Py_list xs \<Rightarrow> Inr (Py_str p \<in> set xs) | Py_tuple xs \<Rightarrow> Inr (Py_str p \<in> set xs) | Py_set xs \<Rightarrow> Inr (Py_str p \<in> set xs) | Py_frozenset xs \<Rightarrow> Inr (Py_str p \<in> set xs)
   | Py_dict d \<Rightarrow> Inr (p \<in> fst ` set d) | Py_proxy d \<Rightarrow> Inr (p \<in> fst ` set d)
   | _ \<Rightarrow> Inl (''TypeError: argument of type '' @ repr_str (type_name v) @ '' is not iterable''))"

section \<open>Rejections\<close>

text \<open>What a hook returns instead of \<open>None\<close>: a text, or the dictionary of a policy rejection (recoverable or not, message, guidance).\<close>

datatype rejection = Refusal string | Policy_rejection bool string string

definition recoverable_tool_rejection :: "string \<Rightarrow> string \<Rightarrow> rejection" where
  "recoverable_tool_rejection message guidance = Policy_rejection True message guidance"

definition noninteractive_permission_denial :: "string \<Rightarrow> rejection" where
  "noninteractive_permission_denial message = Policy_rejection False (''Permission denied: '' @ message)
     ''No interactive approver is available for this run. Continue only with operations that do not require approval.''"

record permission_env =
  approval_mode :: string
  user_answer :: string
  path_escapes :: "string \<Rightarrow> bool"
  worktree_inside :: "string \<Rightarrow> bool"

definition interactive :: "permission_env \<Rightarrow> bool" where
  "interactive h = (approval_mode h = ''interactive'')"

definition request_interactive_approval :: "permission_env \<Rightarrow> bool" where
  "request_interactive_approval h = (interactive h \<and> py_lower (py_strip (user_answer h)) \<in> {''y'', ''yes''})"

text \<open>The three lines that ask before something destructive.\<close>

definition ask_first :: "permission_env \<Rightarrow> string \<Rightarrow> rejection option" where
  "ask_first h message =
     (if \<not> interactive h then Some (noninteractive_permission_denial message)
      else if \<not> request_interactive_approval h then Some (Refusal ''Permission denied by user'') else None)"

section \<open>The policies\<close>

definition DENY_LIST :: "string list" where
  "DENY_LIST = [''rm -rf /'', ''sudo'', ''shutdown'', ''reboot'', ''mkfs'', ''dd if='']"

definition DESTRUCTIVE :: "string list" where
  "DESTRUCTIVE = [''> /etc/'', ''chmod 777'']"

definition looks_like_temp_cleanup :: "string \<Rightarrow> bool" where
  "looks_like_temp_cleanup command =
     (let lowered = py_lower command in
      list_ex (\<lambda>m. py_contains m lowered) [''temp'', ''tmp'', ''.tmp'', ''.aqours_code'' @ [BACKSLASH] @ ''tmp'', ''.aqours_code/tmp'']
      \<and> list_ex (\<lambda>t. py_contains t lowered) [''dir '', ''find '', ''findstr'', ''sort'', ''type '', ''glob''])"

definition standard_policy :: "permission_env \<Rightarrow> tool_use \<Rightarrow> string + rejection option" where
  "standard_policy h u = Inr None"

text \<open>The first pattern of a list that is in the value, or the exception of the test.\<close>

fun first_in :: "string list \<Rightarrow> pyval \<Rightarrow> string + string option" where
  "first_in [] v = Inr None"
| "first_in (p # ps) v = (case py_in p v of Inl e \<Rightarrow> Inl e | Inr True \<Rightarrow> Inr (Some p) | Inr False \<Rightarrow> first_in ps v)"

definition command_guard_policy :: "permission_env \<Rightarrow> tool_use \<Rightarrow> string + rejection option" where
  "command_guard_policy h u =
     (let command = dict_get (tu_input u) ''command'' (Py_str []) in
      if looks_like_delete_command 0 (py_str command)
      then (case command of
          Py_str text \<Rightarrow> Inr (Some (
            if looks_like_temp_cleanup text
            then recoverable_tool_rejection ''Tool not run: bash delete commands are disabled.''
              (''Continue without deleting files. Avoid temp files for read-only analysis; use glob/read_file or a read-only cmd command instead. ''
               @ ''Do not retry a delete command.'')
            else recoverable_tool_rejection ''Tool not run: the command contains a blocked deletion operation.''
              ''Rewrite the check without explicit deletion, or finish if existing evidence is sufficient.''))
        | _ \<Rightarrow> Inl (''AttributeError: '' @ repr_str (type_name command) @ '' object has no attribute '' @ repr_str ''lower''))
      else case first_in DENY_LIST command of
          Inl e \<Rightarrow> Inl e
        | Inr (Some p) \<Rightarrow> Inr (Some (recoverable_tool_rejection (''Tool not run: '' @ [SQ] @ p @ [SQ] @ '' is blocked by the bash policy.'')
              ''Rewrite the command without the blocked operation.''))
        | Inr None \<Rightarrow> (case first_in DESTRUCTIVE command of
              Inl e \<Rightarrow> Inl e
            | Inr None \<Rightarrow> Inr None
            | Inr (Some _) \<Rightarrow> Inr (ask_first h ''destructive bash command requires interactive approval'')))"

definition workspace_write_policy :: "permission_env \<Rightarrow> tool_use \<Rightarrow> string + rejection option" where
  "workspace_write_policy h u =
     (let p = dict_get (tu_input u) ''path'' (Py_str []) in
      Inr (if (case p of Py_str s \<Rightarrow> path_escapes h s | _ \<Rightarrow> True)
           then Some (recoverable_tool_rejection (''Tool not run: path escapes workspace: '' @ py_str p) ''Use a path inside the current workspace.'')
           else None))"

definition destructive_confirmation_policy :: "permission_env \<Rightarrow> tool_use \<Rightarrow> string + rejection option" where
  "destructive_confirmation_policy h u =
     Inr (if \<not> py_truth (dict_get (tu_input u) ''discard_changes'' Py_none) then None
          else ask_first h ''discarding Worktree changes requires interactive approval'')"

definition worktree_name_char :: "char \<Rightarrow> bool" where
  "worktree_name_char c = (let n = cp c in (65 \<le> n \<and> n \<le> 90) \<or> (97 \<le> n \<and> n \<le> 122) \<or> (48 \<le> n \<and> n \<le> 57) \<or> c \<in> {CHR ''.'', CHR ''_'', CHR ''-''})"

definition workspace_integration_policy :: "permission_env \<Rightarrow> tool_use \<Rightarrow> string + rejection option" where
  "workspace_integration_policy h u =
     (let name = py_strip (py_str (dict_get (tu_input u) ''name'' (Py_str []))) in
      Inr (if name = [] \<or> \<not> list_all worktree_name_char name
           then Some (recoverable_tool_rejection ''Tool not run: invalid Worktree name.'' ''Use the exact name of a managed Worktree.'')
           else if \<not> worktree_inside h name
           then Some (recoverable_tool_rejection ''Tool not run: Worktree escapes managed root.'' ''Use the exact name of a managed Worktree.'')
           else None))"

definition SAFETY_POLICY_VALIDATORS :: "(permission_env \<Rightarrow> tool_use \<Rightarrow> string + rejection option) dict" where
  "SAFETY_POLICY_VALIDATORS = [(''standard'', standard_policy), (''command_guard'', command_guard_policy), (''workspace_write'', workspace_write_policy),
     (''destructive_confirmation'', destructive_confirmation_policy), (''workspace_integration'', workspace_integration_policy)]"

definition SAFETY_POLICIES :: "string dict" where
  "SAFETY_POLICIES = [(''bash'', ''command_guard''), (''write_file'', ''workspace_write''), (''edit_file'', ''workspace_write''),
     (''remove_worktree'', ''destructive_confirmation''), (''integrate_worktree'', ''workspace_integration'')]"

section \<open>The hook\<close>

definition safety_policy_of :: "registry \<Rightarrow> string \<Rightarrow> string" where
  "safety_policy_of reg name = (case get_spec reg name of Inl _ \<Rightarrow> ''standard'' | Inr t \<Rightarrow> ts_safety_policy t)"

definition permission_hook :: "permission_env \<Rightarrow> registry \<Rightarrow> tool_use \<Rightarrow> string + rejection option" where
  "permission_hook h reg u =
     (let policy = safety_policy_of reg (tu_name u) in
      case map_of SAFETY_POLICY_VALIDATORS policy of
        None \<Rightarrow> Inr (Some (Refusal (''Permission denied: tool declares an unsupported safety policy '' @ [SQ] @ policy @ [SQ])))
      | Some validator \<Rightarrow> (case validator h u of
          Inl e \<Rightarrow> Inl e
        | Inr (Some r) \<Rightarrow> Inr (Some r)
        | Inr None \<Rightarrow>
            Inr (if py_startswith (tu_name u) ''mcp__'' \<and> py_contains ''deploy'' (tu_name u)
                 then ask_first h (tu_name u @ '' requires interactive approval'') else None)))"

definition log_hook :: "tool_use \<Rightarrow> string + rejection option" where
  "log_hook u = Inr None"

fun trigger_hooks :: "(tool_use \<Rightarrow> string + rejection option) list \<Rightarrow> tool_use \<Rightarrow> string + rejection option" where
  "trigger_hooks [] u = Inr None"
| "trigger_hooks (hook # hooks) u = (case hook u of Inl e \<Rightarrow> Inl e | Inr (Some r) \<Rightarrow> Inr (Some r) | Inr None \<Rightarrow> trigger_hooks hooks u)"

definition pre_tool_use :: "permission_env \<Rightarrow> registry \<Rightarrow> tool_use \<Rightarrow> string + rejection option" where
  "pre_tool_use h reg u = trigger_hooks [permission_hook h reg, log_hook] u"

section \<open>What is let through\<close>

lemma first_in_text: "first_in ps (Py_str s) = Inr (find (\<lambda>p. py_contains p s) ps)"
  by (induction ps) (simp_all add: py_in_def)

lemma ask_first_None: "ask_first h m = None \<longleftrightarrow> request_interactive_approval h"
  by (simp add: ask_first_def request_interactive_approval_def)

lemma find_none_iff: "find P xs = None \<longleftrightarrow> (\<forall>x\<in>set xs. \<not> P x)"
  by (induction xs) auto

definition command_allowed :: "permission_env \<Rightarrow> string \<Rightarrow> bool" where
  "command_allowed h s \<longleftrightarrow> \<not> looks_like_delete_command 0 s \<and> (\<forall>p\<in>set DENY_LIST. \<not> py_contains p s)
     \<and> ((\<exists>p\<in>set DESTRUCTIVE. py_contains p s) \<longrightarrow> request_interactive_approval h)"

lemma command_guard_None:
  assumes "dict_get (tu_input u) ''command'' (Py_str []) = Py_str s"
  shows "command_guard_policy h u = Inr None \<longleftrightarrow> command_allowed h s"
  using assms
  by (auto simp: command_guard_policy_def Let_def py_str_def first_in_text command_allowed_def find_none_iff ask_first_None split: option.splits)
     (metis find_none_iff option.distinct(1))+

text \<open>What each policy asks of a call with text inputs.\<close>

definition call_allowed :: "permission_env \<Rightarrow> string \<Rightarrow> tool_use \<Rightarrow> bool" where
  "call_allowed h policy u \<longleftrightarrow>
     policy \<in> set KNOWN_SAFETY_POLICIES
     \<and> (policy = ''command_guard'' \<longrightarrow> command_allowed h (py_str (dict_get (tu_input u) ''command'' (Py_str []))))
     \<and> (policy = ''workspace_write'' \<longrightarrow> \<not> path_escapes h (py_str (dict_get (tu_input u) ''path'' (Py_str []))))
     \<and> (policy = ''destructive_confirmation'' \<longrightarrow> py_truth (dict_get (tu_input u) ''discard_changes'' Py_none) \<longrightarrow> request_interactive_approval h)
     \<and> (policy = ''workspace_integration'' \<longrightarrow> (let name = py_strip (py_str (dict_get (tu_input u) ''name'' (Py_str []))) in
          name \<noteq> [] \<and> list_all worktree_name_char name \<and> worktree_inside h name))
     \<and> (py_startswith (tu_name u) ''mcp__'' \<and> py_contains ''deploy'' (tu_name u) \<longrightarrow> request_interactive_approval h)"

definition text_inputs :: "tool_use \<Rightarrow> bool" where
  "text_inputs u \<longleftrightarrow> (\<forall>k\<in>{''command'', ''path''}. \<exists>s. dict_get (tu_input u) k (Py_str []) = Py_str s)"

lemma pre_tool_use_allows_iff:
  assumes "text_inputs u"
  shows "pre_tool_use h reg u = Inr None \<longleftrightarrow> call_allowed h (safety_policy_of reg (tu_name u)) u"
proof -
  obtain s where s: "dict_get (tu_input u) ''command'' (Py_str []) = Py_str s" using assms by (auto simp: text_inputs_def)
  obtain p where p: "dict_get (tu_input u) ''path'' (Py_str []) = Py_str p" using assms by (auto simp: text_inputs_def)
  have hook: "pre_tool_use h reg u = Inr None \<longleftrightarrow> permission_hook h reg u = Inr None"
    by (simp add: pre_tool_use_def log_hook_def split: sum.split option.split)
  let ?pol = "safety_policy_of reg (tu_name u)"
  have deploy: "(if c then ask_first h m else None) = None \<longleftrightarrow> (c \<longrightarrow> request_interactive_approval h)" for c m by (simp add: ask_first_None)
  consider "?pol = ''standard''" | "?pol = ''command_guard''" | "?pol = ''workspace_write''" | "?pol = ''destructive_confirmation''"
    | "?pol = ''workspace_integration''" | "?pol \<notin> set KNOWN_SAFETY_POLICIES" by (auto simp: KNOWN_SAFETY_POLICIES_def)
  then show ?thesis
  proof cases
    case 2
    then show ?thesis unfolding hook permission_hook_def using command_guard_None[OF s, of h]
      by (auto simp: Let_def SAFETY_POLICY_VALIDATORS_def call_allowed_def KNOWN_SAFETY_POLICIES_def s py_str_def deploy ask_first_None split: sum.split option.split)
  next
    case 4
    have "(\<exists>r. ask_first h m = Some r) \<longleftrightarrow> \<not> request_interactive_approval h" for m using ask_first_None[of h m] by (cases "ask_first h m") auto
    with 4 show ?thesis unfolding hook permission_hook_def
      by (auto simp: Let_def SAFETY_POLICY_VALIDATORS_def call_allowed_def KNOWN_SAFETY_POLICIES_def destructive_confirmation_policy_def ask_first_None
          split: option.split)
  next
    case 6
    then show ?thesis unfolding hook permission_hook_def
      by (auto simp: Let_def SAFETY_POLICY_VALIDATORS_def call_allowed_def KNOWN_SAFETY_POLICIES_def)
  qed (auto simp: hook permission_hook_def Let_def SAFETY_POLICY_VALIDATORS_def call_allowed_def KNOWN_SAFETY_POLICIES_def standard_policy_def p py_str_def
      workspace_write_policy_def workspace_integration_policy_def deploy ask_first_None split: option.splits if_splits)
qed

end
