(* ===== verification/Agent_Loop.thy ===== *)
theory Agent_Loop
  imports Hooks Effects Model_Limits Compact
begin

text \<open>
  The turn loop of the lead agent, \<open>agent_loop\<close> of \<open>agent_loop.py\<close>, with every branch: scheduled prompts and background notifications, the
  call budget and the forced last answer, the model call with its retries (\<open>Model_Limits.with_retry\<close>), a prompt that is too long, a reply cut off at the
  token limit, the end of a turn, and the tools of a reply with the hooks in front of them, cached delegations, compaction, background runs and the
  bookkeeping of changes and reads.

  What the loop calls is a record of services over a state \<open>'w\<close> of their own: clocks, queues and threads, the todo list, the tool pool, context preparation and
  compaction, the model, hooks, handlers, the store for long results, JSON and the screening of review findings. An \<open>act\<close> may raise. The state
  of the loop has the conversation, the recovery counters and what it remembers between turns; the last fields record what was asked, let
  through, run and sent to the background, which the source writes to its trace. The rest of the trace and printing are outside.

  The appended assistant message and the reply share one content list in the source, so a warning added to the reply is in the message too.
  Tool outputs are texts, and the changed files of an integration are a list, as its handler returns them. Paths are POSIX paths.
\<close>

section \<open>Messages\<close>

datatype part = P_text string | P_use tool_use | P_result string string | P_other

datatype body = Said string | Parts "part list"

record turn_message =
  tm_role :: string
  tm_body :: body

definition user_says :: "string \<Rightarrow> turn_message" where
  "user_says t = \<lparr>tm_role = ''user'', tm_body = Said t\<rparr>"

definition user_parts :: "part list \<Rightarrow> turn_message" where
  "user_parts ps = \<lparr>tm_role = ''user'', tm_body = Parts ps\<rparr>"

definition assistant_parts :: "part list \<Rightarrow> turn_message" where
  "assistant_parts ps = \<lparr>tm_role = ''assistant'', tm_body = Parts ps\<rparr>"

definition part_texts :: "part list \<Rightarrow> string list" where
  "part_texts ps = concat (map (\<lambda>p. case p of P_text t \<Rightarrow> [t] | _ \<Rightarrow> []) ps)"

definition NL :: string where
  "NL = [CHR 0x0A]"

definition extract_text :: "part list \<Rightarrow> string" where
  "extract_text ps = py_strip (py_join NL (part_texts ps))"

fun uses_in :: "part list \<Rightarrow> tool_use list" where
  "uses_in [] = []"
| "uses_in (P_use u # ps) = u # uses_in ps"
| "uses_in (p # ps) = uses_in ps"

fun results_in :: "part list \<Rightarrow> string list" where
  "results_in [] = []"
| "results_in (P_result i c # ps) = i # results_in ps"
| "results_in (p # ps) = results_in ps"

definition has_tool_use :: "part list \<Rightarrow> bool" where
  "has_tool_use ps = (uses_in ps \<noteq> [])"

definition message_text :: "body \<Rightarrow> string" where
  "message_text b = (case b of Said t \<Rightarrow> t | Parts ps \<Rightarrow> if results_in ps \<noteq> [] then [] else py_join NL (part_texts ps))"

definition latest_user_instruction :: "turn_message list \<Rightarrow> string" where
  "latest_user_instruction ms =
     (case find (\<lambda>m. tm_role m = ''user'' \<and> message_text (tm_body m) \<noteq> []) (rev ms) of None \<Rightarrow> [] | Some m \<Rightarrow> message_text (tm_body m))"

record reply =
  rp_stop :: string
  rp_parts :: "part list"

record todo =
  td_id :: string
  td_status :: string
  td_content :: string

section \<open>Services and state\<close>

record request =
  rq_model :: string
  rq_messages :: "turn_message list"
  rq_tools :: "string list"
  rq_max_tokens :: int

record 'w services =
  sv_expired :: "('w, bool) act"
  sv_workers_alive :: "('w, bool) act"
  sv_fired :: "('w, (bool \<times> string) list) act"
  sv_notes :: "('w, string list) act"
  sv_wait_background :: "('w, bool) act"
  sv_wait_once :: "('w, bool) act"
  sv_budget :: "('w, client_budget) act"
  sv_todos :: "('w, todo list) act"
  sv_tools :: "('w, string list \<times> string list) act"
  sv_prepare :: "turn_message list \<Rightarrow> string list \<Rightarrow> ('w, turn_message list) act"
  sv_create :: "'w \<Rightarrow> turn_message list \<Rightarrow> string list \<Rightarrow> int \<Rightarrow> nat \<Rightarrow> recovery_state \<Rightarrow> py_exception + reply"
  sv_created :: "nat \<Rightarrow> 'w \<Rightarrow> 'w"
  sv_reactive :: "turn_message list \<Rightarrow> ('w, turn_message list) act"
  sv_compact :: "turn_message list \<Rightarrow> ('w, turn_message list) act"
  sv_pre :: "tool_use \<Rightarrow> ('w, rejection option) act"
  sv_post :: "tool_use \<Rightarrow> string \<Rightarrow> ('w, unit) act"
  sv_stop :: "turn_message list \<Rightarrow> ('w, unit) act"
  sv_handler :: "tool_use \<Rightarrow> ('w, string) act"
  sv_background :: "tool_use \<Rightarrow> ('w, string) act"
  sv_store :: "tool_use \<Rightarrow> string \<Rightarrow> ('w, string) act"
  sv_loads :: "string \<Rightarrow> pyval option"
  sv_dumps :: "pyval \<Rightarrow> string"
  sv_screen :: "(string \<times> pyval) list \<Rightarrow> ('w, string) act"

record agent_config =
  ac_provider :: string
  ac_fallback_model :: "string option"
  ac_max_retries :: nat
  ac_has_deadline :: bool
  ac_max_inline_tokens :: int
  ac_background_enabled :: bool
  ac_registry :: registry
  ac_multiagent :: bool
  ac_implementation_task :: bool

record 'w agent =
  world :: 'w
  msgs :: "turn_message list"
  recovery :: recovery_state
  max_tokens :: int
  todo_followup_sent :: bool
  budget_notice_sent :: bool
  explorer_attempted :: bool
  explorer_cached :: string
  mutation_revision :: nat
  reviewer_revision :: int
  reviewer_cached :: string
  changed_paths :: "string set"
  read_counts :: "nat dict"
  benefit_sent :: bool
  results :: "part list"
  final_text :: "string option"
  asked :: "request list"
  gated :: "(tool_use \<times> rejection option) list"
  ran :: "(tool_use \<times> nat \<times> string) list"
  backgrounded :: "tool_use list"

definition ask :: "('w, 'a) act \<Rightarrow> ('w agent, 'a) act" where
  "ask m = (\<lambda>s. case m (world s) of (r, w) \<Rightarrow> (r, s\<lparr>world := w\<rparr>))"

definition say :: "turn_message \<Rightarrow> ('w agent, unit) act" where
  "say m = upd_act (\<lambda>s. s\<lparr>msgs := msgs s @ [m]\<rparr>)"

definition finish_run :: "string \<Rightarrow> ('w agent, unit) act" where
  "finish_run t = upd_act (\<lambda>s. s\<lparr>final_text := Some t\<rparr>)"

section \<open>Settings\<close>

definition DEFAULT_MAX_TOKENS :: int where
  "DEFAULT_MAX_TOKENS = 8000"

definition ESCALATED_MAX_TOKENS :: int where
  "ESCALATED_MAX_TOKENS = 16000"

definition MAX_RECOVERY_RETRIES :: nat where
  "MAX_RECOVERY_RETRIES = 0"

definition DEEPSEEK_THINKING_ESCALATED_MAX_TOKENS :: int where
  "DEEPSEEK_THINKING_ESCALATED_MAX_TOKENS = 128000"

definition uses_deepseek_128k_output :: "string \<Rightarrow> string \<Rightarrow> bool" where
  "uses_deepseek_128k_output provider model =
     (py_lower provider = ''deepseek'' \<and> py_lower model \<in> {''deepseek-v4-flash'', ''deepseek-v4-pro'', ''deepseek-flash''})"

definition effective_initial_max_tokens :: "string \<Rightarrow> string \<Rightarrow> int \<Rightarrow> int" where
  "effective_initial_max_tokens provider model configured =
     (if uses_deepseek_128k_output provider model then max configured DEEPSEEK_THINKING_ESCALATED_MAX_TOKENS else configured)"

definition effective_escalated_max_tokens :: "string \<Rightarrow> string \<Rightarrow> int \<Rightarrow> int \<Rightarrow> int" where
  "effective_escalated_max_tokens provider model current configured =
     max current (max configured (if uses_deepseek_128k_output provider model then DEEPSEEK_THINKING_ESCALATED_MAX_TOKENS else configured))"

definition MUTATING_FILE_TOOLS :: "string list" where
  "MUTATING_FILE_TOOLS = [''write_file'', ''edit_file'']"

definition MAIN_MUTATION_TOOLS :: "string list" where
  "MAIN_MUTATION_TOOLS = MUTATING_FILE_TOOLS @ [''integrate_worktree'']"

definition ROLE_ALIASES :: "string dict" where
  "ROLE_ALIASES = [(''general'', ''general-purpose''), (''general_purpose'', ''general-purpose''), (''explorer'', ''explore''), (''reviewer'', ''review'')]"

definition normalize_agent_role :: "pyval \<Rightarrow> string" where
  "normalize_agent_role v =
     (let normalized = py_lower (py_strip (if py_truth v then py_str v else [])) in dict_get ROLE_ALIASES normalized normalized)"

section \<open>The start of a turn\<close>

definition case_timeout :: "string \<Rightarrow> ('w agent, 'a) act" where
  "case_timeout t = raise_exn (Exn ''CaseTimeoutError'' t)"

definition check_case_deadline :: "'w services \<Rightarrow> ('w agent, unit) act" where
  "check_case_deadline sv = bind_act (ask (sv_expired sv)) (\<lambda>expired.
     if \<not> expired then ret ()
     else bind_act (ask (sv_workers_alive sv)) (\<lambda>alive.
       case_timeout (if alive then ''eval case deadline exceeded while waiting for background tasks'' else ''eval case deadline exceeded'')))"

definition scheduled_prompt_text :: "bool \<times> string \<Rightarrow> string" where
  "scheduled_prompt_text job = ''['' @ (if fst job then ''Scheduled Once'' else ''Scheduled'') @ ''] '' @ snd job"

definition add_fired :: "(bool \<times> string) list \<Rightarrow> ('w agent, unit) act" where
  "add_fired jobs = upd_act (\<lambda>s. s\<lparr>msgs := msgs s @ map (\<lambda>j. user_says (scheduled_prompt_text j)) jobs\<rparr>)"

definition add_notes :: "string list \<Rightarrow> ('w agent, unit) act" where
  "add_notes notes = when_act (notes \<noteq> []) (say (user_parts (map P_text notes)))"

definition inject_background_notifications :: "'w services \<Rightarrow> ('w agent, unit) act" where
  "inject_background_notifications sv = bind_act (ask (sv_notes sv)) add_notes"

definition incomplete_todos :: "'w services \<Rightarrow> ('w agent, todo list) act" where
  "incomplete_todos sv = bind_act (ask (sv_todos sv)) (\<lambda>ts. ret (filter (\<lambda>t. td_status t \<noteq> ''completed'') ts))"

definition unresolved_text :: "todo list \<Rightarrow> string" where
  "unresolved_text ts = (if ts = [] then [] else '' Unresolved Todo work: '' @ py_join ''; '' (map (\<lambda>t. take 180 (td_content t)) (take 5 ts)))"

definition finalization_budget_message :: "budget \<Rightarrow> string" where
  "finalization_budget_message b =
     ''<finalization_budget>This task has entered its reserved finalization budget ('' @ int_str (bg_remaining_calls b) @ '' model calls remain; ''
     @ int_str (bg_reserve_calls b) @ '' are reserved). Do not start a new Explore, Plan, Review, persistent Teammate, broad repository scan, or ''
     @ ''model-generated compact summary. Continue directly from retained evidence. Use the remaining calls only for unresolved fixes, targeted ''
     @ ''verification, and one final answer.</finalization_budget>''"

definition finalization_deadline_message :: "todo list \<Rightarrow> string" where
  "finalization_deadline_message ts =
     ''<finalization_deadline>Exactly one model call remains. Tools are disabled for this call. Return the best accurate final answer now from ''
     @ ''retained context; state any unfinished Todo work honestly and do not request another action.'' @ unresolved_text ts @ ''</finalization_deadline>''"

definition stop_run :: "'w services \<Rightarrow> string \<Rightarrow> ('w agent, unit) act" where
  "stop_run sv t = bind_act (get_act msgs) (\<lambda>ms. seq_act (ask (sv_stop sv ms)) (finish_run t))"

text \<open>The budget of the turn: whether it is over, and whether this is the last call.\<close>

definition budget_guard :: "'w services \<Rightarrow> ('w agent, bool \<times> bool) act" where
  "budget_guard sv = bind_act (ask (sv_budget sv)) (\<lambda>c.
     case model_budget_snapshot c of
       None \<Rightarrow> ret (False, False)
     | Some b \<Rightarrow>
         if bg_remaining_calls b \<le> 0
         then bind_act (incomplete_todos sv) (\<lambda>ts.
           seq_act (stop_run sv (''Harness stopped before issuing an over-budget model request. The implementation changes made so far remain in the workspace.''
             @ unresolved_text ts)) (ret (True, False)))
         else bind_act (get_act budget_notice_sent) (\<lambda>sent.
           seq_act (when_act (finalization_reserve_active c \<and> \<not> sent)
               (seq_act (say (user_says (finalization_budget_message b))) (upd_act (\<lambda>s. s\<lparr>budget_notice_sent := True\<rparr>))))
             (if bg_remaining_calls b = 1
              then bind_act (incomplete_todos sv) (\<lambda>ts. seq_act (say (user_says (finalization_deadline_message ts))) (ret (False, True)))
              else ret (False, False))))"

section \<open>The model call\<close>

definition MAX_RETRIES_ERROR :: "nat \<Rightarrow> py_exception" where
  "MAX_RETRIES_ERROR k = \<lparr>ex_name = ''RuntimeError'', ex_text = ''Max retries ('' @ nat_str k @ '') exceeded'', ex_retry_managed = False\<rparr>"

text \<open>The attempts \<open>with_retry\<close> made: one more than it slept, unless all were retried.\<close>

definition attempts_made :: "'a retry_end \<Rightarrow> nat list \<Rightarrow> nat" where
  "attempts_made ended sleeps = length sleeps + (case ended of Max_retries _ \<Rightarrow> 0 | _ \<Rightarrow> 1)"

definition call_llm :: "agent_config \<Rightarrow> 'w services \<Rightarrow> string list \<Rightarrow> ('w agent, py_exception + reply) act" where
  "call_llm cfg sv tools = seq_act (check_case_deadline sv) (\<lambda>s.
     case with_retry (sv_create sv (world s) (msgs s) tools (max_tokens s)) (ac_fallback_model cfg) (ac_max_retries cfg) (recovery s) of
       (ended, st, sleeps) \<Rightarrow>
         (Inr (case ended of Returned r \<Rightarrow> Inr r | Raised e \<Rightarrow> Inl e | Max_retries k \<Rightarrow> Inl (MAX_RETRIES_ERROR k)),
          s\<lparr>world := sv_created sv (attempts_made ended sleeps) (world s), recovery := st,
            asked := asked s @ [\<lparr>rq_model = current_model (recovery s), rq_messages = msgs s, rq_tools = tools, rq_max_tokens = max_tokens s\<rparr>]\<rparr>))"

section \<open>The end of a turn\<close>

definition todo_line :: "bool \<Rightarrow> todo \<Rightarrow> string" where
  "todo_line with_status t = ''- ['' @ td_id t @ (if with_status then '' '' @ td_status t else []) @ ''] '' @ td_content t"

definition todo_completion_message :: "todo list \<Rightarrow> string" where
  "todo_completion_message ts =
     ''<todo_completion_reminder>You still have the following incomplete Todo items:'' @ NL @ py_join NL (map (todo_line True) (take 8 ts)) @ NL
     @ ''Complete them with the normal tools, or leave them pending and report the task as incomplete if they cannot be resolved.''
     @ ''</todo_completion_reminder>''"

definition todo_warning :: "todo list \<Rightarrow> part" where
  "todo_warning ts = P_text (NL @ NL @ ''[Todo checklist incomplete]'' @ NL @ ''The following planned work remains incomplete:'' @ NL
     @ py_join NL (map (todo_line False) (take 8 ts)))"

text \<open>\<open>_append_todo_warning\<close> on the reply whose message was just appended.\<close>

definition append_todo_warning :: "todo list \<Rightarrow> part list \<Rightarrow> ('w agent, part list) act" where
  "append_todo_warning ts ps =
     (if ts = [] then ret ps
      else seq_act (upd_act (\<lambda>s. s\<lparr>msgs := butlast (msgs s) @ [(last (msgs s))\<lparr>tm_body := Parts (ps @ [todo_warning ts])\<rparr>]\<rparr>))
             (ret (ps @ [todo_warning ts])))"

definition end_turn :: "'w services \<Rightarrow> part list \<Rightarrow> ('w agent, bool) act" where
  "end_turn sv ps = seq_act (stop_run sv (extract_text ps)) (ret False)"

text \<open>A reply without tools: wait for background work, remind of open todos once, or finish.\<close>

definition final_answer :: "agent_config \<Rightarrow> 'w services \<Rightarrow> part list \<Rightarrow> ('w agent, bool) act" where
  "final_answer cfg sv ps =
     bind_act (ask (sv_workers_alive sv)) (\<lambda>alive.
     seq_act (when_act (alive \<and> ac_has_deadline cfg) (bind_act (ask (sv_wait_background sv)) (\<lambda>ok.
         if ok then ret () else case_timeout ''eval case deadline exceeded while waiting for background tasks'')))
     (bind_act (ask (sv_notes sv)) (\<lambda>notes.
       if notes \<noteq> [] then seq_act (add_notes notes) (ret True)
       else bind_act (ask (sv_workers_alive sv)) (\<lambda>alive.
         if alive \<and> \<not> ac_has_deadline cfg then end_turn sv ps
         else bind_act (ask (sv_wait_once sv)) (\<lambda>imminent.
           if imminent then ret True
           else bind_act (incomplete_todos sv) (\<lambda>ts.
             bind_act (get_act todo_followup_sent) (\<lambda>sent.
               if ts \<noteq> [] \<and> \<not> sent
               then seq_act (say (user_says (todo_completion_message ts))) (seq_act (upd_act (\<lambda>s. s\<lparr>todo_followup_sent := True\<rparr>)) (ret True))
               else bind_act (append_todo_warning ts ps) (end_turn sv))))))))"

section \<open>Tools\<close>

definition input_of :: "tool_use \<Rightarrow> string \<Rightarrow> pyval" where
  "input_of u k = dict_get (tu_input u) k (Py_str [])"

definition delegated_role :: "tool_use \<Rightarrow> string" where
  "delegated_role u = (if tu_name u = ''delegate_agent'' then normalize_agent_role (input_of u ''role'')
     else if tu_name u = ''task'' then ''general-purpose'' else [])"

definition is_delegation :: "tool_use \<Rightarrow> bool" where
  "is_delegation u = (tu_name u \<in> {''delegate_agent'', ''task''})"

definition background_policy_of :: "registry \<Rightarrow> string \<Rightarrow> string" where
  "background_policy_of reg name = (case get_spec reg name of Inl _ \<Rightarrow> ''foreground'' | Inr t \<Rightarrow> ts_background_policy t)"

definition should_run_background :: "agent_config \<Rightarrow> tool_use \<Rightarrow> bool" where
  "should_run_background cfg u = (ac_background_enabled cfg \<and> background_policy_of (ac_registry cfg) (tu_name u) = ''explicit''
     \<and> tu_name u = ''bash'' \<and> py_truth (dict_get (tu_input u) ''run_in_background'' Py_none))"

text \<open>\<open>_materialize_tool_result\<close>: a result within the inline limit is itself, a longer one is stored and replaced by a reference.\<close>

definition materialize :: "agent_config \<Rightarrow> 'w services \<Rightarrow> tool_use \<Rightarrow> string \<Rightarrow> ('w agent, string) act" where
  "materialize cfg sv u out = (if estimate_context_tokens (int (length out)) \<le> ac_max_inline_tokens cfg then ret out else ask (sv_store sv u out))"

definition accept_result :: "agent_config \<Rightarrow> 'w services \<Rightarrow> tool_use \<Rightarrow> string \<Rightarrow> ('w agent, unit) act" where
  "accept_result cfg sv u out = bind_act (materialize cfg sv u out) (\<lambda>c. upd_act (\<lambda>s. s\<lparr>results := results s @ [P_result (tu_id u) c]\<rparr>))"

definition tool_json :: "'w services \<Rightarrow> string \<Rightarrow> (string \<times> pyval) list" where
  "tool_json sv out = (case sv_loads sv out of Some (Py_dict d) \<Rightarrow> d | _ \<Rightarrow> [])"

definition reuse_cached :: "agent_config \<Rightarrow> 'w services \<Rightarrow> tool_use \<Rightarrow> string \<Rightarrow> ('w agent, unit) act" where
  "reuse_cached cfg sv u cached = accept_result cfg sv u (sv_dumps sv (Py_dict (dict_set ''reused'' (Py_bool True) (tool_json sv cached))))"

definition tool_rejection_text :: "rejection \<Rightarrow> string" where
  "tool_rejection_text r = (case r of Refusal t \<Rightarrow> t
     | Policy_rejection _ message guidance \<Rightarrow> message @ (if guidance \<noteq> [] then NL @ ''Guidance: '' @ guidance else []))"

definition is_recoverable_tool_rejection :: "rejection \<Rightarrow> bool" where
  "is_recoverable_tool_rejection r = (case r of Policy_rejection True _ _ \<Rightarrow> True | _ \<Rightarrow> False)"

definition is_permission_denied_output :: "string \<Rightarrow> bool" where
  "is_permission_denied_output out = py_startswith (py_lower out) ''permission denied''"

text \<open>A hook result stops a call if Python takes it for true.\<close>

definition blocks :: "rejection option \<Rightarrow> bool" where
  "blocks r = (case r of None \<Rightarrow> False | Some (Refusal t) \<Rightarrow> t \<noteq> [] | Some _ \<Rightarrow> True)"

definition stop_after_permission_denied :: "'w services \<Rightarrow> string \<Rightarrow> ('w agent, unit) act" where
  "stop_after_permission_denied sv reason =
     seq_act (upd_act (\<lambda>s. s\<lparr>msgs := (if msgs s \<noteq> [] \<and> tm_role (last (msgs s)) = ''assistant''
         then butlast (msgs s) @ [(last (msgs s))\<lparr>tm_body := Parts [P_text reason]\<rparr>]
         else msgs s @ [assistant_parts [P_text reason]])\<rparr>))
       (stop_run sv reason)"

definition call_tool_handler :: "'w services \<Rightarrow> string list \<Rightarrow> tool_use \<Rightarrow> ('w agent, string) act" where
  "call_tool_handler sv hs u =
     (if tu_name u \<notin> set hs then ret (''Unknown: '' @ tu_name u)
      else catch_act (ask (sv_handler sv u)) (\<lambda>e. if exn_type e = ''TypeError'' then ret (''Error: '' @ exn_text e) else raise_exn e))"

definition text_list :: "pyval \<Rightarrow> string list" where
  "text_list v = (case v of Py_list xs \<Rightarrow> map py_str xs | _ \<Rightarrow> [])"

definition starts_with_any :: "string \<Rightarrow> string list \<Rightarrow> bool" where
  "starts_with_any s ps = list_ex (py_startswith s) ps"

text \<open>\<open>os.path.normpath\<close> for POSIX paths.\<close>

fun norm_parts :: "bool \<Rightarrow> string list \<Rightarrow> string list \<Rightarrow> string list" where
  "norm_parts rooted acc [] = acc"
| "norm_parts rooted acc (c # cs) =
     (if c = [] \<or> c = ''.'' then norm_parts rooted acc cs
      else if c \<noteq> ''..'' \<or> (\<not> rooted \<and> acc = []) \<or> (acc \<noteq> [] \<and> last acc = ''..'') then norm_parts rooted (acc @ [c]) cs
      else norm_parts rooted (butlast acc) cs)"

definition normpath :: "string \<Rightarrow> string" where
  "normpath p =
     (let slashes = (if \<not> py_startswith p ''/'' then [] else if py_startswith p ''//'' \<and> \<not> py_startswith p ''///'' then ''//'' else ''/'') in
      or_str (slashes @ py_join ''/'' (norm_parts (slashes \<noteq> []) [] (py_split p ''/''))) ''.'')"

definition read_key :: "tool_use \<Rightarrow> string" where
  "read_key u = py_lower (map (\<lambda>c. if c = BACKSLASH then CHR ''/'' else c) (normpath (py_strip (py_str (input_of u ''path'')))))"

text \<open>\<open>_runtime_role_benefit\<close>: whether the reads so far speak for an explorer.\<close>

definition read_scope :: "string \<Rightarrow> string" where
  "read_scope p =
     (let parts = filter (\<lambda>q. q \<noteq> []) (py_split (map (\<lambda>c. if c = BACKSLASH then CHR ''/'' else c) p) ''/'');
          parts = (if parts \<noteq> [] \<and> py_lower (hd parts) = ''workspace'' then tl parts else parts)
      in if length parts > 1 then hd parts else ''(root)'')"

definition evidence_ready :: "nat dict \<Rightarrow> bool" where
  "evidence_ready counts = (length counts \<ge> 8 \<and> sum_list (map (\<lambda>(p, n). n - 1) counts) \<ge> 2 \<and> length (py_unique (map (\<lambda>(p, n). read_scope p) counts)) \<ge> 2)"

definition note_read :: "agent_config \<Rightarrow> tool_use \<Rightarrow> string \<Rightarrow> ('w agent, unit) act" where
  "note_read cfg u out = when_act (tu_name u = ''read_file'' \<and> \<not> py_startswith (py_lower out) ''error:'') (upd_act (\<lambda>s.
     let counts = dict_set (read_key u) (dict_get (read_counts s) (read_key u) 0 + 1) (read_counts s) in
     s\<lparr>read_counts := counts,
       benefit_sent := (benefit_sent s \<or> ac_multiagent cfg \<and> \<not> explorer_attempted s \<and> ac_implementation_task cfg \<and> evidence_ready counts)\<rparr>))"

text \<open>What a delegation that did not fail leaves: the files it changed and the output the model sees.\<close>

definition note_delegation :: "'w services \<Rightarrow> tool_use \<Rightarrow> string \<Rightarrow> ('w agent, string list \<times> string) act" where
  "note_delegation sv u out =
     (if \<not> is_delegation u \<or> py_startswith out ''Error:'' then ret ([], out)
      else let delegation = tool_json sv out;
               changed = filter (\<lambda>p. p \<noteq> []) (map py_strip (text_list (dict_get delegation ''changed_files'' (Py_list []))))
        in if delegated_role u = ''explore''
           then seq_act (upd_act (\<lambda>s. s\<lparr>explorer_attempted := True, explorer_cached := out\<rparr>)) (ret (changed, out))
           else if delegated_role u = ''review''
           then seq_act (upd_act (\<lambda>s. s\<lparr>reviewer_revision := int (mutation_revision s), reviewer_cached := out\<rparr>))
             (bind_act (ask (sv_screen sv delegation)) (\<lambda>screened.
               seq_act (upd_act (\<lambda>s. s\<lparr>reviewer_cached := screened\<rparr>)) (ret (changed, screened))))
           else ret (changed, out))"

definition note_mutation :: "'w services \<Rightarrow> tool_use \<Rightarrow> string list \<Rightarrow> string \<Rightarrow> ('w agent, unit) act" where
  "note_mutation sv u by_agent out =
     (let integration = (if tu_name u = ''integrate_worktree'' then tool_json sv out else []);
          succeeded = (if tu_name u = ''integrate_worktree'' then dict_get integration ''status'' Py_none = Py_str ''integrated''
            else (tu_name u \<in> set MAIN_MUTATION_TOOLS \<or> by_agent \<noteq> []) \<and> \<not> starts_with_any (py_lower out) [''error:'', ''permission denied'', ''tool not run'']);
          path = py_strip (py_str (input_of u ''path''));
          integrated = (case dict_get integration ''changed_files'' (Py_list []) of Py_list xs \<Rightarrow> map py_str (filter py_truth xs) | _ \<Rightarrow> [])
      in when_act succeeded (upd_act (\<lambda>s. s\<lparr>mutation_revision := mutation_revision s + 1,
           changed_paths := changed_paths s \<union> set ((if path \<noteq> [] then [path] else []) @ integrated @ by_agent)\<rparr>)))"

datatype step_end = Next | Compacted | Denied

text \<open>\<open>compact_tool_use_preserved\<close>\<close>

definition mentions_call :: "string \<Rightarrow> turn_message list \<Rightarrow> bool" where
  "mentions_call i ms = list_ex (\<lambda>m. tm_role m = ''assistant'' \<and> (case tm_body m of Parts ps \<Rightarrow> i \<in> set (map tu_id (uses_in ps)) | Said _ \<Rightarrow> False)) ms"

definition compact_tool :: "agent_config \<Rightarrow> 'w services \<Rightarrow> tool_use \<Rightarrow> ('w agent, unit) act" where
  "compact_tool cfg sv u =
     bind_act (get_act msgs) (\<lambda>ms. bind_act (ask (sv_compact sv ms)) (\<lambda>ms'.
     seq_act (upd_act (\<lambda>s. s\<lparr>msgs := ms'\<rparr>))
     (bind_act (materialize cfg sv u ''[Compacted. Continue with summarized context.]'') (\<lambda>c.
       say (if mentions_call (tu_id u) ms' then user_parts [P_result (tu_id u) c] else user_says c)))))"

definition background_text :: "string \<Rightarrow> string" where
  "background_text bg_id = ''[Background task '' @ bg_id @ '' started] Result will arrive as a task_notification. Do not rerun the same command, ''
     @ ''poll with check_inbox, or launch a task/subagent just to wait; continue independent work or finish your turn.''"

text \<open>A call the hooks stopped, and a call they let through.\<close>

definition blocked_call :: "agent_config \<Rightarrow> 'w services \<Rightarrow> tool_use \<Rightarrow> rejection \<Rightarrow> ('w agent, step_end) act" where
  "blocked_call cfg sv u r =
     seq_act (accept_result cfg sv u (tool_rejection_text r))
       (if is_recoverable_tool_rejection r then ret Next
        else if is_permission_denied_output (tool_rejection_text r)
        then seq_act (stop_after_permission_denied sv (tool_rejection_text r)) (ret Denied)
        else ret Next)"

definition finish_call :: "agent_config \<Rightarrow> 'w services \<Rightarrow> tool_use \<Rightarrow> string \<Rightarrow> ('w agent, step_end) act" where
  "finish_call cfg sv u out =
     seq_act (note_read cfg u out)
     (seq_act (accept_result cfg sv u out)
       (if is_permission_denied_output out then seq_act (stop_after_permission_denied sv out) (ret Denied) else ret Next))"

definition allowed_call :: "agent_config \<Rightarrow> 'w services \<Rightarrow> string list \<Rightarrow> tool_use \<Rightarrow> ('w agent, step_end) act" where
  "allowed_call cfg sv hs u =
     (if should_run_background cfg u
      then bind_act (ask (sv_background sv u)) (\<lambda>bg_id.
        seq_act (upd_act (\<lambda>s. s\<lparr>backgrounded := backgrounded s @ [u]\<rparr>)) (seq_act (accept_result cfg sv u (background_text bg_id)) (ret Next)))
      else bind_act (call_tool_handler sv hs u) (\<lambda>out.
        seq_act (upd_act (\<lambda>s. s\<lparr>ran := ran s @ [(u, mutation_revision s, out)]\<rparr>))
        (seq_act (ask (sv_post sv u out))
        (bind_act (note_delegation sv u out) (\<lambda>(by_agent, out).
          seq_act (note_mutation sv u by_agent out) (finish_call cfg sv u out))))))"

definition tool_step :: "agent_config \<Rightarrow> 'w services \<Rightarrow> string list \<Rightarrow> tool_use \<Rightarrow> ('w agent, step_end) act" where
  "tool_step cfg sv hs u = bind_act (get_act id) (\<lambda>s.
     if is_delegation u \<and> delegated_role u = ''explore'' \<and> explorer_attempted s
     then seq_act (reuse_cached cfg sv u (explorer_cached s)) (ret Next)
     else if is_delegation u \<and> delegated_role u = ''review'' \<and> reviewer_revision s = int (mutation_revision s)
     then seq_act (reuse_cached cfg sv u (reviewer_cached s)) (ret Next)
     else if tu_name u = ''compact'' then seq_act (compact_tool cfg sv u) (ret Compacted)
     else bind_act (ask (sv_pre sv u)) (\<lambda>r.
       seq_act (upd_act (\<lambda>s. s\<lparr>gated := gated s @ [(u, r)]\<rparr>))
         (if blocks r then blocked_call cfg sv u (the r) else allowed_call cfg sv hs u)))"

fun tool_steps :: "agent_config \<Rightarrow> 'w services \<Rightarrow> string list \<Rightarrow> part list \<Rightarrow> ('w agent, step_end) act" where
  "tool_steps cfg sv hs [] = ret Next"
| "tool_steps cfg sv hs (p # ps) = seq_act (check_case_deadline sv) (case p of
     P_use u \<Rightarrow> bind_act (tool_step cfg sv hs u) (\<lambda>e. if e = Next then tool_steps cfg sv hs ps else ret e)
   | _ \<Rightarrow> tool_steps cfg sv hs ps)"

definition run_tools :: "agent_config \<Rightarrow> 'w services \<Rightarrow> string list \<Rightarrow> part list \<Rightarrow> ('w agent, bool) act" where
  "run_tools cfg sv hs ps =
     seq_act (upd_act (\<lambda>s. s\<lparr>results := []\<rparr>))
     (bind_act (tool_steps cfg sv hs ps) (\<lambda>e. case e of
        Denied \<Rightarrow> ret False
      | Compacted \<Rightarrow> ret True
      | Next \<Rightarrow> bind_act (ask (sv_notes sv)) (\<lambda>notes. bind_act (get_act results) (\<lambda>rs.
          seq_act (say (user_parts (rs @ map P_text notes))) (ret True)))))"

section \<open>A reply\<close>

definition cut_off :: "agent_config \<Rightarrow> 'w services \<Rightarrow> bool \<Rightarrow> part list \<Rightarrow> ('w agent, bool) act" where
  "cut_off cfg sv last_call ps = bind_act (get_act id) (\<lambda>s.
     let replayable = (extract_text ps \<noteq> [] \<or> has_tool_use ps);
         escalated = effective_escalated_max_tokens (ac_provider cfg) (current_model (recovery s)) (max_tokens s) ESCALATED_MAX_TOKENS
     in if last_call then seq_act (when_act replayable (say (assistant_parts ps))) (end_turn sv ps)
        else if \<not> has_escalated (recovery s) \<and> escalated > max_tokens s
        then seq_act (upd_act (\<lambda>s. s\<lparr>max_tokens := escalated, recovery := (recovery s)\<lparr>has_escalated := True\<rparr>\<rparr>)) (ret True)
        else seq_act (when_act replayable (say (assistant_parts ps)))
          (if recovery_count (recovery s) < MAX_RECOVERY_RETRIES
           then seq_act (say (user_says CONTINUATION_PROMPT))
             (seq_act (upd_act (\<lambda>s. s\<lparr>recovery := (recovery s)\<lparr>recovery_count := recovery_count (recovery s) + 1\<rparr>\<rparr>)) (ret True))
           else ret False))"

definition handle_reply :: "agent_config \<Rightarrow> 'w services \<Rightarrow> string list \<Rightarrow> bool \<Rightarrow> reply \<Rightarrow> ('w agent, bool) act" where
  "handle_reply cfg sv hs last_call r =
     (if rp_stop r = ''max_tokens'' then cut_off cfg sv last_call (rp_parts r)
      else seq_act (upd_act (\<lambda>s. s\<lparr>max_tokens := effective_initial_max_tokens (ac_provider cfg) (current_model (recovery s)) DEFAULT_MAX_TOKENS,
               recovery := (recovery s)\<lparr>has_escalated := False\<rparr>, msgs := msgs s @ [assistant_parts (rp_parts r)]\<rparr>))
        (if last_call
         then bind_act (incomplete_todos sv) (\<lambda>ts. bind_act (append_todo_warning ts (rp_parts r)) (end_turn sv))
         else if \<not> has_tool_use (rp_parts r) then final_answer cfg sv (rp_parts r)
         else run_tools cfg sv hs (rp_parts r)))"

definition handle_error :: "'w services \<Rightarrow> py_exception \<Rightarrow> ('w agent, bool) act" where
  "handle_error sv e =
     (if ex_name e = ''CaseTimeoutError'' then case_timeout (ex_text e)
      else bind_act (get_act id) (\<lambda>s.
        if is_prompt_too_long_error e \<and> \<not> has_attempted_reactive_compact (recovery s)
        then bind_act (ask (sv_reactive sv (msgs s))) (\<lambda>ms.
          seq_act (upd_act (\<lambda>s. s\<lparr>msgs := ms, recovery := (recovery s)\<lparr>has_attempted_reactive_compact := True\<rparr>\<rparr>)) (ret True))
        else seq_act (say (assistant_parts [P_text (''[Error] '' @ ex_name e @ '': '' @ ex_text e)])) (ret False)))"

section \<open>The loop\<close>

text \<open>One cycle; the result says whether the loop goes on.\<close>

definition agent_turn :: "agent_config \<Rightarrow> 'w services \<Rightarrow> ('w agent, bool) act" where
  "agent_turn cfg sv =
     seq_act (check_case_deadline sv)
     (bind_act (ask (sv_fired sv)) (\<lambda>jobs. seq_act (add_fired jobs)
     (seq_act (inject_background_notifications sv)
     (bind_act (budget_guard sv) (\<lambda>(over, last_call).
       if over then ret False
       else bind_act (ask (sv_tools sv)) (\<lambda>(offered, hs).
         bind_act (get_act msgs) (\<lambda>ms. bind_act (ask (sv_prepare sv ms offered)) (\<lambda>ms'.
         seq_act (upd_act (\<lambda>s. s\<lparr>msgs := ms'\<rparr>))
         (bind_act (call_llm cfg sv (if last_call then [] else offered)) (\<lambda>outcome. case outcome of
             Inl e \<Rightarrow> handle_error sv e
           | Inr r \<Rightarrow> handle_reply cfg sv hs last_call r))))))))))"

fun agent_turns :: "nat \<Rightarrow> agent_config \<Rightarrow> 'w services \<Rightarrow> 'w agent \<Rightarrow> ((exn + unit) \<times> 'w agent) option" where
  "agent_turns 0 cfg sv s = None"
| "agent_turns (Suc n) cfg sv s = (case agent_turn cfg sv s of
     (Inl e, s') \<Rightarrow> Some (Inl e, s')
   | (Inr False, s') \<Rightarrow> Some (Inr (), s')
   | (Inr True, s') \<Rightarrow> agent_turns n cfg sv s')"

text \<open>What \<open>agent_loop\<close> sets up before the loop. \<open>briefing\<close> is the advice for a complex task, if there is one to give.\<close>

definition start_agent :: "agent_config \<Rightarrow> string \<Rightarrow> string option \<Rightarrow> 'w \<Rightarrow> turn_message list \<Rightarrow> 'w agent" where
  "start_agent cfg primary briefing w ms =
     \<lparr>world = w, msgs = ms @ (case briefing of None \<Rightarrow> [] | Some t \<Rightarrow> [user_says t]),
      recovery = \<lparr>has_escalated = False, recovery_count = 0, consecutive_529 = 0, has_attempted_reactive_compact = False, current_model = primary\<rparr>,
      max_tokens = effective_initial_max_tokens (ac_provider cfg) primary DEFAULT_MAX_TOKENS, todo_followup_sent = False, budget_notice_sent = False,
      explorer_attempted = False, explorer_cached = [], mutation_revision = 0, reviewer_revision = - 1, reviewer_cached = [], changed_paths = {},
      read_counts = [], benefit_sent = False, results = [], final_text = None, asked = [], gated = [], ran = [], backgrounded = []\<rparr>"

definition agent_loop :: "nat \<Rightarrow> agent_config \<Rightarrow> 'w services \<Rightarrow> string \<Rightarrow> string option \<Rightarrow> 'w \<Rightarrow> turn_message list \<Rightarrow> ((exn + unit) \<times> 'w agent) option" where
  "agent_loop fuel cfg sv primary briefing w ms = agent_turns fuel cfg sv (start_agent cfg primary briefing w ms)"

end
