(* ===== verification/Agent_Log.thy ===== *)
theory Agent_Log
  imports Agent_Loop
begin

text \<open>
  What a run of the lead agent does with tools, as an abstract machine. \<open>tool_log\<close> keeps the calls shown to the hooks, the calls run and
  sent to the background, and the three marks the loop decides by (an explorer has answered, the revision a reviewer saw, the revision of the
  workspace); \<open>tool_event\<close> has one rule per thing that may happen. Every run of \<open>agent_loop\<close> is a run of that machine, for any services, so
  invariants of the machine, proved by rule induction, are facts of the code: nothing runs that the hooks did not let through, an explorer
  answers at most once, and a reviewer at most once per revision.
\<close>

section \<open>The machine\<close>

record tool_log =
  lg_gated :: "(tool_use \<times> rejection option) list"
  lg_ran :: "(tool_use \<times> nat \<times> string) list"
  lg_background :: "tool_use list"
  lg_explored :: bool
  lg_reviewed :: int
  lg_revision :: nat

definition log_of :: "'w agent \<Rightarrow> tool_log" where
  "log_of s = \<lparr>lg_gated = gated s, lg_ran = ran s, lg_background = backgrounded s, lg_explored = explorer_attempted s,
     lg_reviewed = reviewer_revision s, lg_revision = mutation_revision s\<rparr>"

definition answered_as :: "string \<Rightarrow> tool_use \<times> nat \<times> string \<Rightarrow> bool" where
  "answered_as agent_role run = (case run of (u, rv, out) \<Rightarrow> is_delegation u \<and> delegated_role u = agent_role \<and> \<not> py_startswith out ''Error:'')"

definition reused :: "tool_log \<Rightarrow> tool_use \<Rightarrow> bool" where
  "reused l u = (is_delegation u \<and> (delegated_role u = ''explore'' \<and> lg_explored l
     \<or> delegated_role u = ''review'' \<and> lg_reviewed l = int (lg_revision l)))"

definition let_through :: "tool_log \<Rightarrow> tool_use \<Rightarrow> bool" where
  "let_through l u = (\<exists>r. (u, r) \<in> set (lg_gated l) \<and> \<not> blocks r)"

text \<open>\<open>A u r\<close>: the hooks answer \<open>r\<close> to the call \<open>u\<close>.\<close>

inductive tool_event :: "(tool_use \<Rightarrow> rejection option \<Rightarrow> bool) \<Rightarrow> tool_log \<Rightarrow> tool_log \<Rightarrow> bool" for A where
  gate: "A u r \<Longrightarrow> tool_event A l (l\<lparr>lg_gated := lg_gated l @ [(u, r)]\<rparr>)"
| background: "let_through l u \<Longrightarrow> tool_event A l (l\<lparr>lg_background := lg_background l @ [u]\<rparr>)"
| run: "let_through l u \<Longrightarrow> \<not> reused l u \<Longrightarrow> rv = lg_revision l \<or> rv = Suc (lg_revision l) \<Longrightarrow> x = (u, lg_revision l, out) \<Longrightarrow>
    tool_event A l (l\<lparr>lg_ran := lg_ran l @ [x], lg_explored := lg_explored l \<or> answered_as ''explore'' x,
      lg_reviewed := (if answered_as ''review'' x then int (lg_revision l) else lg_reviewed l), lg_revision := rv\<rparr>)"

text \<open>A run may also end in the exception of a hook after the tool, before the marks are set.\<close>

inductive tool_run :: "(tool_use \<Rightarrow> rejection option \<Rightarrow> bool) \<Rightarrow> tool_log \<Rightarrow> tool_log \<Rightarrow> bool" for A where
  events: "(tool_event A)\<^sup>*\<^sup>* l l' \<Longrightarrow> tool_run A l l'"
| crash: "(tool_event A)\<^sup>*\<^sup>* l k \<Longrightarrow> let_through k u \<Longrightarrow> \<not> reused k u \<Longrightarrow> tool_run A l (k\<lparr>lg_ran := lg_ran k @ [(u, lg_revision k, out)]\<rparr>)"

section \<open>Its invariants\<close>

definition gate_inv :: "(tool_use \<Rightarrow> rejection option \<Rightarrow> bool) \<Rightarrow> tool_log \<Rightarrow> bool" where
  "gate_inv A l \<longleftrightarrow> (\<forall>(u, r)\<in>set (lg_gated l). A u r) \<and> (\<forall>u\<in>fst ` set (lg_ran l) \<union> set (lg_background l). let_through l u)"

definition explore_inv :: "tool_log \<Rightarrow> bool" where
  "explore_inv l \<longleftrightarrow> length (filter (answered_as ''explore'') (lg_ran l)) \<le> (if lg_explored l then 1 else 0)"

definition reviewed_revisions :: "(tool_use \<times> nat \<times> string) list \<Rightarrow> nat list" where
  "reviewed_revisions runs = map (\<lambda>x. fst (snd x)) (filter (answered_as ''review'') runs)"

definition review_inv :: "tool_log \<Rightarrow> bool" where
  "review_inv l \<longleftrightarrow> distinct (reviewed_revisions (lg_ran l)) \<and> (\<forall>n\<in>set (reviewed_revisions (lg_ran l)). int n \<le> lg_reviewed l)
     \<and> lg_reviewed l \<le> int (lg_revision l)"

lemma let_through_mono: "set (lg_gated l) \<subseteq> set (lg_gated k) \<Longrightarrow> let_through l u \<Longrightarrow> let_through k u"
  by (auto simp: let_through_def)

lemma let_through_same: "lg_gated k = lg_gated l \<Longrightarrow> let_through k = let_through l"
  by (auto simp: let_through_def fun_eq_iff)

lemma explore_reused: "answered_as ''explore'' (u, rv, out) \<Longrightarrow> \<not> reused l u \<Longrightarrow> \<not> lg_explored l"
  by (auto simp: answered_as_def reused_def)

lemma review_reused: "answered_as ''review'' (u, rv, out) \<Longrightarrow> \<not> reused l u \<Longrightarrow> lg_reviewed l \<noteq> int (lg_revision l)"
  by (auto simp: answered_as_def reused_def)

lemma reviewed_snoc: "reviewed_revisions (runs @ [x]) = reviewed_revisions runs @ (if answered_as ''review'' x then [fst (snd x)] else [])"
  by (simp add: reviewed_revisions_def)

lemma event_gate_inv: "tool_event A l l' \<Longrightarrow> gate_inv A l \<Longrightarrow> gate_inv A l'"
proof (induction rule: tool_event.induct)
  case (gate u r l)
  then show ?case using let_through_mono[of l "l\<lparr>lg_gated := lg_gated l @ [(u, r)]\<rparr>"] by (auto simp: gate_inv_def)
qed (auto simp: gate_inv_def let_through_def)

lemma event_explore_inv: "tool_event A l l' \<Longrightarrow> explore_inv l \<Longrightarrow> explore_inv l'"
proof (induction rule: tool_event.induct)
  case (run l u rv x out)
  then show ?case using explore_reused[of u "lg_revision l" out l] by (auto simp: explore_inv_def split: if_splits)
qed (auto simp: explore_inv_def)

lemma event_review_inv: "tool_event A l l' \<Longrightarrow> review_inv l \<Longrightarrow> review_inv l'"
proof (induction rule: tool_event.induct)
  case (run l u rv x out)
  then show ?case using review_reused[of u "lg_revision l" out l] by (auto simp: review_inv_def reviewed_snoc)
qed (auto simp: review_inv_def)

definition log_inv :: "(tool_use \<Rightarrow> rejection option \<Rightarrow> bool) \<Rightarrow> tool_log \<Rightarrow> bool" where
  "log_inv A l \<longleftrightarrow> gate_inv A l \<and> explore_inv l \<and> review_inv l"

lemma events_log_inv: "(tool_event A)\<^sup>*\<^sup>* l l' \<Longrightarrow> log_inv A l \<Longrightarrow> log_inv A l'"
  by (induction rule: rtranclp_induct) (auto simp: log_inv_def intro: event_gate_inv event_explore_inv event_review_inv)

lemma run_outcome:
  assumes "tool_run A l l'" "log_inv A l"
  shows "gate_inv A l'" "length (filter (answered_as ''explore'') (lg_ran l')) \<le> 1" "distinct (reviewed_revisions (lg_ran l'))"
proof -
  have "gate_inv A l' \<and> length (filter (answered_as ''explore'') (lg_ran l')) \<le> 1 \<and> distinct (reviewed_revisions (lg_ran l'))"
    using assms
  proof (induction rule: tool_run.induct)
    case (events l l')
    then have "log_inv A l'" by (rule events_log_inv)
    then show ?case by (auto simp: log_inv_def explore_inv_def review_inv_def split: if_splits)
  next
    case (crash l k u out)
    then have inv: "log_inv A k" by (blast intro: events_log_inv)
    let ?x = "(u, lg_revision k, out)"
    have "gate_inv A (k\<lparr>lg_ran := lg_ran k @ [?x]\<rparr>)" using inv crash.hyps(2) by (auto simp: log_inv_def gate_inv_def let_through_def)
    moreover have "length (filter (answered_as ''explore'') (lg_ran k @ [?x])) \<le> 1"
      using inv explore_reused[of u "lg_revision k" out k] crash.hyps(3) by (auto simp: log_inv_def explore_inv_def split: if_splits)
    moreover have "distinct (reviewed_revisions (lg_ran k @ [?x]))"
      using inv review_reused[of u "lg_revision k" out k] crash.hyps(3) by (auto simp: log_inv_def review_inv_def reviewed_snoc)
    ultimately show ?case by simp
  qed
  then show "gate_inv A l'" "length (filter (answered_as ''explore'') (lg_ran l')) \<le> 1" "distinct (reviewed_revisions (lg_ran l'))" by auto
qed

section \<open>Steps that leave the log alone\<close>

abbreviation same_log :: "tool_log \<Rightarrow> ('w agent, 'a) act \<Rightarrow> bool" where
  "same_log l \<equiv> keeps (\<lambda>s. log_of s = l)"

lemma log_of_upd [simp]:
  "log_of (s\<lparr>world := w\<rparr>) = log_of s" "log_of (s\<lparr>msgs := m\<rparr>) = log_of s" "log_of (s\<lparr>recovery := c\<rparr>) = log_of s"
  "log_of (s\<lparr>max_tokens := k\<rparr>) = log_of s" "log_of (s\<lparr>todo_followup_sent := b\<rparr>) = log_of s" "log_of (s\<lparr>budget_notice_sent := b\<rparr>) = log_of s"
  "log_of (s\<lparr>explorer_cached := t\<rparr>) = log_of s" "log_of (s\<lparr>reviewer_cached := t\<rparr>) = log_of s" "log_of (s\<lparr>changed_paths := ps\<rparr>) = log_of s"
  "log_of (s\<lparr>read_counts := d\<rparr>) = log_of s" "log_of (s\<lparr>benefit_sent := b\<rparr>) = log_of s" "log_of (s\<lparr>results := rs\<rparr>) = log_of s"
  "log_of (s\<lparr>final_text := ft\<rparr>) = log_of s" "log_of (s\<lparr>asked := qs\<rparr>) = log_of s"
  by (simp_all add: log_of_def)

lemma keeps_ask: "(\<And>s w. P s \<Longrightarrow> P (s\<lparr>world := w\<rparr>)) \<Longrightarrow> keeps P (ask m)"
  by (auto simp: keeps_def wp_def ask_def split: prod.splits sum.splits)

lemma same_log_ask: "same_log l (ask m)"
  by (rule keeps_ask) simp

lemma same_log_say: "same_log l (say m)"
  unfolding say_def by (rule keeps_upd) simp

lemma same_log_finish: "same_log l (finish_run t)"
  unfolding finish_run_def by (rule keeps_upd) simp

lemmas same_log_prims = same_log_ask same_log_say same_log_finish

lemma same_log_deadline: "same_log l (check_case_deadline sv)"
  unfolding check_case_deadline_def case_timeout_def by (intro keeps_rules same_log_prims)

lemma same_log_stop_run: "same_log l (stop_run sv t)"
  unfolding stop_run_def by (intro keeps_rules same_log_prims)

lemma same_log_todos: "same_log l (incomplete_todos sv)"
  unfolding incomplete_todos_def by (intro keeps_rules same_log_prims)

lemma same_log_notes: "same_log l (add_notes notes)"
  unfolding add_notes_def by (intro keeps_rules same_log_prims)

lemma same_log_inject: "same_log l (inject_background_notifications sv)"
  unfolding inject_background_notifications_def by (intro keeps_rules same_log_prims same_log_notes)

lemma same_log_fired: "same_log l (add_fired jobs)"
  unfolding add_fired_def by (rule keeps_upd) simp

lemma same_log_guard: "same_log l (budget_guard sv)"
  unfolding budget_guard_def
  by (intro keeps_bind same_log_prims) (auto split: option.split intro!: keeps_rules same_log_prims same_log_stop_run same_log_todos)

lemma same_log_warning: "same_log l (append_todo_warning ts ps)"
  unfolding append_todo_warning_def by (intro keeps_rules) simp

lemma same_log_end_turn: "same_log l (end_turn sv ps)"
  unfolding end_turn_def by (intro keeps_rules same_log_stop_run)

lemma same_log_final: "same_log l (final_answer cfg sv ps)"
  unfolding final_answer_def case_timeout_def
  by (intro keeps_rules same_log_prims same_log_notes same_log_todos same_log_warning same_log_end_turn) simp

lemma same_log_materialize: "same_log l (materialize cfg sv u out)"
  unfolding materialize_def by (intro keeps_rules same_log_prims)

lemma same_log_accept: "same_log l (accept_result cfg sv u out)"
  unfolding accept_result_def by (intro keeps_rules same_log_materialize) simp

lemma same_log_denied: "same_log l (stop_after_permission_denied sv t)"
  unfolding stop_after_permission_denied_def by (intro keeps_rules same_log_stop_run) simp

lemma same_log_handler: "same_log l (call_tool_handler sv hs u)"
  unfolding call_tool_handler_def by (intro keeps_rules same_log_prims)

lemma same_log_read: "same_log l (note_read cfg u out)"
  unfolding note_read_def Let_def by (intro keeps_rules) simp

lemma same_log_reuse: "same_log l (reuse_cached cfg sv u c)"
  unfolding reuse_cached_def by (rule same_log_accept)

lemma same_log_compact: "same_log l (compact_tool cfg sv u)"
  unfolding compact_tool_def by (intro keeps_rules same_log_prims same_log_materialize) simp

lemma same_log_blocked: "same_log l (blocked_call cfg sv u r)"
  unfolding blocked_call_def by (intro keeps_rules same_log_accept same_log_denied)

lemma same_log_cut_off: "same_log l (cut_off cfg sv last_call ps)"
  unfolding cut_off_def Let_def by (intro keeps_rules same_log_prims same_log_end_turn) simp_all

lemma same_log_error: "same_log l (handle_error sv e)"
  unfolding handle_error_def case_timeout_def by (intro keeps_rules same_log_prims) simp

lemma same_log_call: "same_log l (call_llm cfg sv tools)"
  unfolding call_llm_def by (intro keeps_seq same_log_deadline) (auto simp: keeps_def wp_def split: prod.split)

end
