(* ===== verification/Agent_Tools.thy ===== *)
theory Agent_Tools
  imports Agent_Log
begin

text \<open>
  The refinement between \<open>agent_loop\<close> and the machine of \<open>Agent_Log\<close>, and what follows from it for the tools of a run: the permission layer of
  \<open>Hooks\<close> stands before every call, and delegations to an explorer and to reviewers are bounded.
\<close>

text \<open>\<open>logs A m\<close>: from a log reached by events, \<open>m\<close> reaches another, or raises with a log the machine may end in.\<close>

definition logs :: "(tool_use \<Rightarrow> rejection option \<Rightarrow> bool) \<Rightarrow> ('w agent, 'a) act \<Rightarrow> bool" where
  "logs A m \<longleftrightarrow> (\<forall>l s. (tool_event A)\<^sup>*\<^sup>* l (log_of s) \<longrightarrow> wp m (\<lambda>_ t. (tool_event A)\<^sup>*\<^sup>* l (log_of t)) (\<lambda>_ t. tool_run A l (log_of t)) s)"

lemma logs_same: "(\<And>l. same_log l m) \<Longrightarrow> logs A m"
  unfolding logs_def
proof (intro allI impI)
  fix l and s :: "'a agent" assume same: "\<And>l. same_log l m" and reach: "(tool_event A)\<^sup>*\<^sup>* l (log_of s)"
  have "wp m (\<lambda>_ t. log_of t = log_of s) (\<lambda>_ t. log_of t = log_of s) s" using same[of "log_of s"] by (simp add: keeps_def)
  then show "wp m (\<lambda>_ t. (tool_event A)\<^sup>*\<^sup>* l (log_of t)) (\<lambda>_ t. tool_run A l (log_of t)) s"
    by (rule wp_mono) (use reach in \<open>auto intro: tool_run.events\<close>)
qed

lemma logs_bind: "logs A m \<Longrightarrow> (\<And>a. logs A (f a)) \<Longrightarrow> logs A (bind_act m f)"
  unfolding logs_def wp_bind
proof (intro allI impI)
  fix l and s :: "'a agent"
  assume m: "\<forall>l s. (tool_event A)\<^sup>*\<^sup>* l (log_of s) \<longrightarrow> wp m (\<lambda>_ t. (tool_event A)\<^sup>*\<^sup>* l (log_of t)) (\<lambda>_ t. tool_run A l (log_of t)) s"
    and f: "\<And>a. \<forall>l s. (tool_event A)\<^sup>*\<^sup>* l (log_of s) \<longrightarrow> wp (f a) (\<lambda>_ t. (tool_event A)\<^sup>*\<^sup>* l (log_of t)) (\<lambda>_ t. tool_run A l (log_of t)) s"
    and reach: "(tool_event A)\<^sup>*\<^sup>* l (log_of s)"
  show "wp m (\<lambda>a. wp (f a) (\<lambda>_ t. (tool_event A)\<^sup>*\<^sup>* l (log_of t)) (\<lambda>_ t. tool_run A l (log_of t))) (\<lambda>_ t. tool_run A l (log_of t)) s"
    by (rule wp_mono[OF m[rule_format, OF reach]]) (use f in auto)
qed

lemma logs_seq: "logs A m \<Longrightarrow> logs A k \<Longrightarrow> logs A (seq_act m k)"
  by (simp add: seq_act_def logs_bind)

lemma logs_if: "(b \<Longrightarrow> logs A m) \<Longrightarrow> (\<not> b \<Longrightarrow> logs A k) \<Longrightarrow> logs A (if b then m else k)"
  by simp

lemma logs_ret: "logs A (ret a)"
  by (rule logs_same) (rule keeps_ret)

section \<open>A call\<close>

lemma same_log_wp:
  assumes "\<And>l. same_log l m" "log_of s = l" "\<And>a t. log_of t = l \<Longrightarrow> Q a t" "\<And>e t. log_of t = l \<Longrightarrow> E e t"
  shows "wp m Q E s"
  by (rule keepsD[OF assms(1)[of l]]) (use assms in auto)

text \<open>The log after the marks of a delegation.\<close>

definition marked :: "tool_use \<Rightarrow> string \<Rightarrow> tool_log \<Rightarrow> tool_log" where
  "marked u out l = l\<lparr>lg_explored := lg_explored l \<or> answered_as ''explore'' (u, 0, out),
     lg_reviewed := (if answered_as ''review'' (u, 0, out) then int (lg_revision l) else lg_reviewed l)\<rparr>"

lemma note_delegation_log:
  "wp (note_delegation sv u out) (\<lambda>_ t. log_of t = marked u out (log_of s)) (\<lambda>_ t. log_of t = marked u out (log_of s)) s"
proof -
  have set_explored: "log_of (s\<lparr>explorer_attempted := True\<rparr>) = (log_of s)\<lparr>lg_explored := True\<rparr>" by (simp add: log_of_def)
  let ?r = "s\<lparr>reviewer_revision := int (mutation_revision s), reviewer_cached := out\<rparr>"
  have set_reviewed: "log_of (s\<lparr>reviewer_revision := int (mutation_revision s)\<rparr>) = (log_of s)\<lparr>lg_reviewed := int (lg_revision (log_of s))\<rparr>" by (simp add: log_of_def)
  consider "\<not> is_delegation u \<or> py_startswith out ''Error:''" | "is_delegation u" "\<not> py_startswith out ''Error:''" "delegated_role u = ''explore''"
    | "is_delegation u" "\<not> py_startswith out ''Error:''" "delegated_role u = ''review''"
    | "is_delegation u" "\<not> py_startswith out ''Error:''" "delegated_role u \<notin> {''explore'', ''review''}" by auto
  then show ?thesis
  proof cases
    case 3
    have m: "marked u out (log_of s) = log_of ?r" using 3 by (simp add: marked_def answered_as_def set_reviewed)
    show ?thesis unfolding m using 3
      by (simp add: note_delegation_def Let_def wp_simps) (rule same_log_wp[OF same_log_ask], auto simp: wp_simps log_of_def)
  qed (auto simp: note_delegation_def Let_def wp_simps marked_def answered_as_def set_explored)
qed

lemma note_mutation_log:
  "wp (note_mutation sv u fs out) (\<lambda>_ t. log_of t = log_of s \<or> log_of t = (log_of s)\<lparr>lg_revision := Suc (lg_revision (log_of s))\<rparr>) (\<lambda>_ _. False) s"
  unfolding note_mutation_def Let_def by (simp add: wp_simps log_of_def)

lemma logs_finish: "logs A (finish_call cfg sv u out)"
  unfolding finish_call_def by (intro logs_seq logs_if logs_ret logs_same same_log_read same_log_accept same_log_denied)

text \<open>A call the hooks let through is a background event or a run, cut short if something raises in between.\<close>

lemma allowed_call_log:
  assumes reach: "(tool_event A)\<^sup>*\<^sup>* l (log_of s)" and through: "let_through (log_of s) u" and fresh: "\<not> reused (log_of s) u"
  shows "wp (allowed_call cfg sv hs u) (\<lambda>_ t. (tool_event A)\<^sup>*\<^sup>* l (log_of t)) (\<lambda>_ t. tool_run A l (log_of t)) s"
proof -
  let ?l = "log_of s"
  have bg: "(tool_event A)\<^sup>*\<^sup>* l (?l\<lparr>lg_background := lg_background ?l @ [u]\<rparr>)"
    by (rule rtranclp.rtrancl_into_rtrancl[OF reach tool_event.background[OF through]])
  have in_back: "log_of (t\<lparr>backgrounded := backgrounded t @ [u]\<rparr>) = ?l\<lparr>lg_background := lg_background ?l @ [u]\<rparr>" if "log_of t = ?l" for t
    using that by (auto simp: log_of_def)
  define k where "k = (\<lambda>out. ?l\<lparr>lg_ran := lg_ran ?l @ [(u, lg_revision ?l, out)]\<rparr>)"
  have ranned: "log_of (t\<lparr>ran := ran t @ [(u, mutation_revision t, out)]\<rparr>) = k out" if "log_of t = ?l" for t out
    using that by (auto simp: log_of_def k_def)
  have crash: "tool_run A l (k out)" for out unfolding k_def by (rule tool_run.crash[OF reach through fresh])
  have done_: "(tool_event A)\<^sup>*\<^sup>* l ((marked u out (k out))\<lparr>lg_revision := n\<rparr>)" if "n = lg_revision ?l \<or> n = Suc (lg_revision ?l)" for out n
    by (rule rtranclp.rtrancl_into_rtrancl[OF reach])
       (use tool_event.run[OF through fresh that refl, of A out] in \<open>simp add: marked_def k_def answered_as_def cong: if_cong\<close>)
  have stay: "(tool_event A)\<^sup>*\<^sup>* l (marked u out (k out))" for out using done_[of "lg_revision ?l" out] by (simp add: marked_def k_def)
  have noted: "(tool_event A)\<^sup>*\<^sup>* l x" if "x = marked u out (k out) \<or> x = (marked u out (k out))\<lparr>lg_revision := Suc (lg_revision (marked u out (k out)))\<rparr>" for x out
    using that stay[of out] done_[of "Suc (lg_revision ?l)" out] by (auto simp: marked_def k_def)
  show ?thesis
  proof (cases "should_run_background cfg u")
    case True
    show ?thesis using True
      apply (simp add: allowed_call_def wp_simps)
      apply (rule same_log_wp[OF same_log_ask refl])
       apply (simp add: wp_simps)
       apply (rule same_log_wp[OF same_log_accept in_back])
      using bg by (auto simp: wp_simps intro: tool_run.events reach)
  next
    case False
    have marks: "wp (bind_act (note_delegation sv u out) (\<lambda>(by_agent, o'). seq_act (note_mutation sv u by_agent o') (finish_call cfg sv u o')))
        (\<lambda>_ t. (tool_event A)\<^sup>*\<^sup>* l (log_of t)) (\<lambda>_ t. tool_run A l (log_of t)) t" if "log_of t = k out" for out t
      unfolding wp_bind
      apply (rule wp_mono[OF note_delegation_log[of sv u out t]])
       apply (clarsimp simp: that wp_seq)
       apply (rule wp_mono[OF note_mutation_log])
        apply (rule logs_finish[unfolded logs_def, rule_format])
        apply (rule noted[of _ out])
        apply simp
       apply simp
      using stay[of out] by (auto simp: that intro: tool_run.events)
    show ?thesis using False
      apply (simp add: allowed_call_def wp_bind)
      apply (rule same_log_wp[OF same_log_handler refl])
       apply (simp add: wp_seq wp_upd)
       apply (rule same_log_wp[OF same_log_ask ranned], assumption)
        apply (rule marks, assumption)
      using crash by (auto intro: tool_run.events reach)
  qed
qed

lemma reused_log: "reused (log_of s) u \<longleftrightarrow> is_delegation u \<and> (delegated_role u = ''explore'' \<and> explorer_attempted s
    \<or> delegated_role u = ''review'' \<and> reviewer_revision s = int (mutation_revision s))"
  by (simp add: reused_def log_of_def)


lemma tool_step_log:
  assumes pre: "\<And>w. wp (sv_pre sv u) (\<lambda>r _. A u r) (\<lambda>_ _. True) w"
  shows "logs A (tool_step cfg sv hs u)"
  unfolding logs_def
proof (intro allI impI)
  fix l and s :: "'a agent" assume reach: "(tool_event A)\<^sup>*\<^sup>* l (log_of s)"
  let ?Q = "\<lambda>_ t. (tool_event A)\<^sup>*\<^sup>* l (log_of t)" and ?E = "\<lambda>_ t. tool_run A l (log_of t)"
  have same: "wp m ?Q ?E s" if "logs A m" for m :: "('a agent, step_end) act" using that reach by (simp add: logs_def)
  have gate: "wp (ask (sv_pre sv u)) (\<lambda>r t. log_of t = log_of s \<and> A u r) (\<lambda>_ t. log_of t = log_of s) s"
    using pre[of "world s"] by (auto simp: wp_def ask_def split: prod.splits sum.splits)
  have call: "wp (if blocks r then blocked_call cfg sv u (the r) else allowed_call cfg sv hs u) ?Q ?E (t\<lparr>gated := gated t @ [(u, r)]\<rparr>)"
    if t: "log_of t = log_of s" and A: "A u r" and fresh: "\<not> reused (log_of s) u" for r t
  proof -
    let ?t = "t\<lparr>gated := gated t @ [(u, r)]\<rparr>"
    have l: "log_of ?t = (log_of s)\<lparr>lg_gated := lg_gated (log_of s) @ [(u, r)]\<rparr>" unfolding t[symmetric] by (simp add: log_of_def)
    have r': "(tool_event A)\<^sup>*\<^sup>* l (log_of ?t)"
      unfolding l by (rule rtranclp.rtrancl_into_rtrancl[OF reach tool_event.gate[where A = A, OF A]])
    have blocked: "logs A (blocked_call cfg sv u (the r))" by (intro logs_same same_log_blocked)
    show ?thesis
    proof (cases "blocks r")
      case True with blocked r' show ?thesis by (simp add: logs_def)
    next
      case False
      have "let_through (log_of ?t) u" using False by (auto simp: l let_through_def)
      moreover have "\<not> reused (log_of ?t) u" using fresh by (simp add: l reused_def)
      ultimately show ?thesis using False allowed_call_log[OF r'] by simp
    qed
  qed
  show "wp (tool_step cfg sv hs u) ?Q ?E s"
  proof (cases "reused (log_of s) u \<or> tu_name u = ''compact''")
    case True
    have "logs A (seq_act (reuse_cached cfg sv u c) (ret Next))" "logs A (seq_act (compact_tool cfg sv u) (ret Compacted))" for c
      by (intro logs_seq logs_ret logs_same same_log_reuse same_log_compact)+
    with True show ?thesis by (auto simp: tool_step_def wp_bind wp_get wp_if reused_log intro!: same)
  next
    case False
    have "wp (bind_act (ask (sv_pre sv u)) (\<lambda>r. seq_act (upd_act (\<lambda>s. s\<lparr>gated := gated s @ [(u, r)]\<rparr>))
        (if blocks r then blocked_call cfg sv u (the r) else allowed_call cfg sv hs u))) ?Q ?E s"
      unfolding wp_bind by (rule wp_mono[OF gate]) (use call False in \<open>auto simp: wp_seq wp_upd intro: tool_run.events reach\<close>)
    with False show ?thesis by (auto simp: tool_step_def wp_bind wp_get wp_if reused_log)
  qed
qed

section \<open>The loop\<close>

lemmas logs_calls = logs_same[OF same_log_ask] logs_same[OF same_log_say] logs_same[OF same_log_deadline] logs_same[OF same_log_fired]
  logs_same[OF same_log_inject] logs_same[OF same_log_guard] logs_same[OF same_log_call] logs_same[OF same_log_error]
  logs_same[OF same_log_cut_off] logs_same[OF same_log_todos] logs_same[OF same_log_warning] logs_same[OF same_log_end_turn]
  logs_same[OF same_log_final] logs_same[OF keeps_get]

lemmas logs_rules = logs_bind logs_seq logs_if logs_ret logs_calls

lemma logs_upd: "(\<And>s. log_of (f s) = log_of s) \<Longrightarrow> logs A (upd_act f)"
  by (intro logs_same keeps_upd) simp

definition answers_of :: "'w services \<Rightarrow> tool_use \<Rightarrow> rejection option \<Rightarrow> bool" where
  "answers_of sv u r = (\<exists>w w'. sv_pre sv u w = (Inr r, w'))"

lemma pre_answers: "wp (sv_pre sv u) (\<lambda>r _. answers_of sv u r) (\<lambda>_ _. True) w"
  by (auto simp: wp_def answers_of_def split: prod.splits sum.splits)

lemma tool_steps_log: "logs (answers_of sv) (tool_steps cfg sv hs ps)"
proof (induction ps)
  case (Cons p ps)
  have "logs (answers_of sv) (bind_act (tool_step cfg sv hs u) (\<lambda>e. if e = Next then tool_steps cfg sv hs ps else ret e))" for u
    by (intro logs_bind tool_step_log logs_if Cons logs_ret pre_answers)
  with Cons show ?case by (cases p) (auto intro!: logs_seq logs_calls)
qed (simp add: logs_ret)

lemma run_tools_log: "logs (answers_of sv) (run_tools cfg sv hs ps)"
proof -
  have "logs (answers_of sv) (case e of Denied \<Rightarrow> ret False | Compacted \<Rightarrow> ret True
      | Next \<Rightarrow> bind_act (ask (sv_notes sv)) (\<lambda>notes. bind_act (get_act results) (\<lambda>rs. seq_act (say (user_parts (rs @ map P_text notes))) (ret True))))" for e
    by (cases e) (auto intro!: logs_rules)
  then show ?thesis unfolding run_tools_def by (intro logs_seq logs_bind tool_steps_log logs_upd) simp_all
qed

lemma handle_reply_log: "logs (answers_of sv) (handle_reply cfg sv hs last_call r)"
  unfolding handle_reply_def
  by (intro logs_rules run_tools_log logs_upd) simp

lemma agent_turn_log: "logs (answers_of sv) (agent_turn cfg sv)"
proof -
  have outcome: "logs (answers_of sv) (case out of Inl e \<Rightarrow> handle_error sv e | Inr r \<Rightarrow> handle_reply cfg sv hs last_call r)" for out hs last_call
    by (cases out) (auto intro: handle_reply_log logs_calls)
  have called: "logs (answers_of sv) (case p of (over, last_call) \<Rightarrow> if over then ret False else bind_act (ask (sv_tools sv)) (\<lambda>(offered, hs).
      bind_act (get_act msgs) (\<lambda>ms. bind_act (ask (sv_prepare sv ms offered)) (\<lambda>ms'. seq_act (upd_act (\<lambda>s. s\<lparr>msgs := ms'\<rparr>))
      (bind_act (call_llm cfg sv (if last_call then [] else offered)) (\<lambda>outcome. case outcome of
          Inl e \<Rightarrow> handle_error sv e | Inr r \<Rightarrow> handle_reply cfg sv hs last_call r))))))" for p
    by (cases p) (auto intro!: logs_rules outcome logs_upd)
  show ?thesis unfolding agent_turn_def
    by (intro logs_rules called)
qed

text \<open>Invariants of the loop: what every turn keeps, or leaves when it raises, holds at the end.\<close>

lemma agent_turns_inv:
  assumes "agent_turns n cfg sv s = Some (r, t)" "I s" "\<And>s. I s \<Longrightarrow> wp (agent_turn cfg sv) (\<lambda>go t. if go then I t else W t) (\<lambda>_. W) s"
  shows "W t"
  using assms(1,2)
proof (induction n arbitrary: s)
  case (Suc n)
  have turn: "wp (agent_turn cfg sv) (\<lambda>go t. if go then I t else W t) (\<lambda>_. W) s" by (rule assms(3)[OF Suc.prems(2)])
  obtain out s' where out: "agent_turn cfg sv s = (out, s')" by fastforce
  show ?case
  proof (cases out)
    case (Inl e) with Suc.prems(1) turn out show ?thesis by (simp add: wp_def)
  next
    case (Inr go) with turn out Suc show ?thesis by (cases go) (auto simp: wp_def)
  qed
qed simp

lemma agent_loop_log:
  assumes "agent_loop fuel cfg sv primary briefing w ms = Some (r, s)"
  shows "tool_run (answers_of sv) (log_of (start_agent cfg primary briefing w ms)) (log_of s)"
proof -
  let ?l = "log_of (start_agent cfg primary briefing w ms)"
  have turn: "wp (agent_turn cfg sv) (\<lambda>go t. if go then (tool_event (answers_of sv))\<^sup>*\<^sup>* ?l (log_of t) else tool_run (answers_of sv) ?l (log_of t))
      (\<lambda>_ t. tool_run (answers_of sv) ?l (log_of t)) s" if "(tool_event (answers_of sv))\<^sup>*\<^sup>* ?l (log_of s)" for s
    by (rule wp_mono[OF agent_turn_log[of sv cfg, unfolded logs_def, rule_format, OF that]]) (auto intro: tool_run.events)
  show ?thesis
    by (rule agent_turns_inv[OF assms[unfolded agent_loop_def], where I = "\<lambda>t. (tool_event (answers_of sv))\<^sup>*\<^sup>* ?l (log_of t)"]) (simp, rule turn)
qed

lemma start_log_inv: "log_inv A (log_of (start_agent cfg primary briefing w ms))"
  by (simp add: log_inv_def gate_inv_def explore_inv_def review_inv_def reviewed_revisions_def log_of_def start_agent_def)

lemmas agent_loop_outcome = run_outcome[OF agent_loop_log start_log_inv]


section \<open>Permissions and delegations\<close>

text \<open>The hooks of \<open>Hooks\<close> as a service: the approval mode, the user's answers and where paths lead may change from call to call.\<close>

definition hooked :: "('w \<Rightarrow> permission_env) \<Rightarrow> registry \<Rightarrow> tool_use \<Rightarrow> ('w, rejection option) act" where
  "hooked env reg u = (\<lambda>w. (case pre_tool_use (env w) reg u of Inl t \<Rightarrow> Inl (Exn ''TypeError'' t) | Inr r \<Rightarrow> Inr r, w))"

lemma ask_first_blocks: "ask_first h m = Some r \<Longrightarrow> blocks (Some r)"
  by (auto simp: ask_first_def noninteractive_permission_denial_def blocks_def split: if_splits)

lemma policies_block:
  "standard_policy h u = Inr (Some r) \<Longrightarrow> blocks (Some r)" "command_guard_policy h u = Inr (Some r) \<Longrightarrow> blocks (Some r)"
  "workspace_write_policy h u = Inr (Some r) \<Longrightarrow> blocks (Some r)" "destructive_confirmation_policy h u = Inr (Some r) \<Longrightarrow> blocks (Some r)"
  "workspace_integration_policy h u = Inr (Some r) \<Longrightarrow> blocks (Some r)"
  by (auto simp: standard_policy_def command_guard_policy_def workspace_write_policy_def destructive_confirmation_policy_def
      workspace_integration_policy_def Let_def recoverable_tool_rejection_def ask_first_blocks blocks_def
      split: if_splits sum.splits option.splits pyval.splits dest: ask_first_blocks)

lemma pre_tool_use_blocks:
  assumes "pre_tool_use h reg u = Inr (Some r)"
  shows "blocks (Some r)"
proof -
  have hook: "permission_hook h reg u = Inr (Some r)"
    using assms by (auto simp: pre_tool_use_def log_hook_def split: sum.splits option.splits)
  have known: "blocks (Some r)" if "v \<in> snd ` set SAFETY_POLICY_VALIDATORS" "v h u = Inr (Some r)" for v
    using that policies_block[of h u r] by (auto simp: SAFETY_POLICY_VALIDATORS_def)
  show ?thesis
  proof (cases "map_of SAFETY_POLICY_VALIDATORS (safety_policy_of reg (tu_name u))")
    case None
    with hook show ?thesis by (auto simp: permission_hook_def blocks_def)
  next
    case (Some v)
    then have v: "v \<in> snd ` set SAFETY_POLICY_VALIDATORS" by (force dest: map_of_SomeD)
    show ?thesis
      using hook Some known[OF v] by (auto simp: permission_hook_def dest: ask_first_blocks split: sum.splits option.splits if_splits)
  qed
qed


text \<open>C12: Delegation is bounded in every run, whatever the model asks for: an explorer gives at most one answer, and a reviewer gives at most one
  answer for each revision of the workspace. Further requests are served from the first answer.\<close>

theorem agent_delegations_bounded:
  assumes "agent_loop fuel cfg sv primary briefing w ms = Some (r, s)"
  shows "length (filter (answered_as ''explore'') (ran s)) \<le> 1 \<and> distinct (reviewed_revisions (ran s))"
  using agent_loop_outcome(2,3)[OF assms] by (simp add: log_of_def)

end
