(* ===== verification/Agent_Pairing.thy ===== *)
theory Agent_Pairing
  imports Agent_Tools
begin

text \<open>
  The contract of the model interfaces on a conversation: the calls of an assistant message have ids and are answered, in order, by the results
  of the next message, and there are no other results. \<open>awaits ids ms\<close> says that \<open>ms\<close> obeys it and ends with the calls \<open>ids\<close> open.

  Shown: every request of \<open>agent_loop\<close> obeys the contract, if preparing and compacting the context keep it and the model calls \<open>compact\<close> alone;
  and where the code itself breaks it.
\<close>

section \<open>The contract\<close>

fun body_parts :: "body \<Rightarrow> part list" where
  "body_parts (Said t) = []"
| "body_parts (Parts ps) = ps"

definition calls_of :: "turn_message \<Rightarrow> string list" where
  "calls_of m = (if tm_role m = ''assistant'' then map tu_id (uses_in (body_parts (tm_body m))) else [])"

definition results_of :: "turn_message \<Rightarrow> string list" where
  "results_of m = results_in (body_parts (tm_body m))"

fun open_after :: "string list \<Rightarrow> turn_message list \<Rightarrow> string list option" where
  "open_after ids [] = Some ids"
| "open_after ids (m # ms) = (if results_of m = ids \<and> (ids \<noteq> [] \<longrightarrow> tm_role m = ''user'') \<and> [] \<notin> set (calls_of m) then open_after (calls_of m) ms else None)"

definition awaits :: "string list \<Rightarrow> turn_message list \<Rightarrow> bool" where
  "awaits ids ms = (open_after [] ms = Some ids)"

definition paired :: "turn_message list \<Rightarrow> bool" where
  "paired ms = awaits [] ms"

lemma open_after_append: "open_after ids (ms @ ms') = (case open_after ids ms of None \<Rightarrow> None | Some k \<Rightarrow> open_after k ms')"
  by (induction ms arbitrary: ids) auto

lemma awaits_snoc: "awaits ids ms \<Longrightarrow> awaits ids' (ms @ [m]) \<longleftrightarrow> results_of m = ids \<and> (ids \<noteq> [] \<longrightarrow> tm_role m = ''user'') \<and> calls_of m = ids' \<and> [] \<notin> set ids'"
  by (auto simp: awaits_def open_after_append)

lemma results_in_append [simp]: "results_in (ps @ qs) = results_in ps @ results_in qs"
  by (induction ps rule: results_in.induct) auto

lemma uses_in_append [simp]: "uses_in (ps @ qs) = uses_in ps @ uses_in qs"
  by (induction ps rule: uses_in.induct) auto

lemma texts_have_no_calls [simp]: "results_in (map P_text ts) = []" "uses_in (map P_text ts) = []"
  by (induction ts) auto

lemma message_calls [simp]:
  "calls_of (user_says t) = []" "results_of (user_says t) = []" "calls_of (user_parts ps) = []" "results_of (user_parts ps) = results_in ps"
  "calls_of (assistant_parts ps) = map tu_id (uses_in ps)" "results_of (assistant_parts ps) = results_in ps"
  "tm_role (user_says t) = ''user''" "tm_role (user_parts ps) = ''user''"
  by (simp_all add: calls_of_def results_of_def user_says_def user_parts_def assistant_parts_def)

lemma paired_snoc:
  "paired ms \<Longrightarrow> paired (ms @ [user_says t])" "paired ms \<Longrightarrow> paired (ms @ [user_parts (map P_text ts)])"
  "awaits ids ms \<Longrightarrow> results_in ps = ids \<Longrightarrow> paired (ms @ [user_parts ps])"
  by (simp_all add: paired_def awaits_snoc)

lemma paired_prompts: "paired ms \<Longrightarrow> paired (ms @ map (\<lambda>j. user_says (f j)) js)"
  by (induction js rule: rev_induct) (auto simp: paired_snoc simp flip: append_assoc)

section \<open>What the loop relies on\<close>

definition compact_alone :: "part list \<Rightarrow> bool" where
  "compact_alone ps = (\<forall>u\<in>set (uses_in ps). tu_name u = ''compact'' \<longrightarrow> uses_in ps = [u])"

definition context_laws :: "'w services \<Rightarrow> bool" where
  "context_laws sv \<longleftrightarrow>
     (\<forall>ms tools w. paired ms \<longrightarrow> wp (sv_prepare sv ms tools) (\<lambda>ms' _. paired ms') (\<lambda>_ _. True) w)
     \<and> (\<forall>ms w. paired ms \<longrightarrow> wp (sv_reactive sv ms) (\<lambda>ms' _. paired ms') (\<lambda>_ _. True) w)
     \<and> (\<forall>ms w i. awaits [i] ms \<longrightarrow> wp (sv_compact sv ms) (\<lambda>ms' _. awaits (if mentions_call i ms' then [i] else []) ms') (\<lambda>_ _. True) w)"

text \<open>A reply has ids for its calls, no results, and \<open>compact\<close> only alone.\<close>

definition usable_reply :: "part list \<Rightarrow> bool" where
  "usable_reply ps \<longleftrightarrow> compact_alone ps \<and> results_in ps = [] \<and> [] \<notin> tu_id ` set (uses_in ps)"

definition model_laws :: "'w services \<Rightarrow> bool" where
  "model_laws sv \<longleftrightarrow> (\<forall>w ms tools k n st r. sv_create sv w ms tools k n st = Inr r \<longrightarrow> usable_reply (rp_parts r))"

section \<open>Steps outside the conversation\<close>

abbreviation all_paired :: "'w agent \<Rightarrow> bool" where
  "all_paired s \<equiv> \<forall>q\<in>set (asked s). paired (rq_messages q)"

abbreviation same_asked :: "request list \<Rightarrow> ('w agent, 'a) act \<Rightarrow> bool" where
  "same_asked qs \<equiv> keeps (\<lambda>s. asked s = qs)"

text \<open>The conversation, the results so far and the requests stay as they are.\<close>

abbreviation same_talk :: "turn_message list \<times> part list \<times> request list \<Rightarrow> ('w agent, 'a) act \<Rightarrow> bool" where
  "same_talk c \<equiv> keeps (\<lambda>s. (msgs s, results s, asked s) = c)"

lemma same_talk_ask: "same_talk c (ask m)"
  by (rule keeps_ask) simp

lemma same_talk_finish: "same_talk c (finish_run t)"
  unfolding finish_run_def by (rule keeps_upd) simp

lemma same_talk_deadline: "same_talk c (check_case_deadline sv)"
  unfolding check_case_deadline_def case_timeout_def by (intro keeps_rules same_talk_ask)

lemma same_talk_stop: "same_talk c (stop_run sv t)"
  unfolding stop_run_def by (intro keeps_rules same_talk_ask same_talk_finish)

lemma same_talk_todos: "same_talk c (incomplete_todos sv)"
  unfolding incomplete_todos_def by (intro keeps_rules same_talk_ask)

lemma same_talk_materialize: "same_talk c (materialize cfg sv u out)"
  unfolding materialize_def by (intro keeps_rules same_talk_ask)

lemma same_talk_handler: "same_talk c (call_tool_handler sv hs u)"
  unfolding call_tool_handler_def by (intro keeps_rules same_talk_ask)

lemma same_talk_delegation: "same_talk c (note_delegation sv u out)"
  unfolding note_delegation_def Let_def by (intro keeps_rules same_talk_ask) simp_all

lemma same_talk_mutation: "same_talk c (note_mutation sv u fs out)"
  unfolding note_mutation_def Let_def by (intro keeps_rules) simp

lemma same_talk_read: "same_talk c (note_read cfg u out)"
  unfolding note_read_def Let_def by (intro keeps_rules) simp

lemmas same_talk_calls = same_talk_ask same_talk_finish same_talk_deadline same_talk_stop same_talk_todos same_talk_materialize
  same_talk_handler same_talk_delegation same_talk_mutation same_talk_read

lemma talk_wp:
  assumes "\<And>c. same_talk c m" "P (msgs s) (results s) (asked s)"
    "\<And>a t. P (msgs t) (results t) (asked t) \<Longrightarrow> Q a t" "\<And>e t. P (msgs t) (results t) (asked t) \<Longrightarrow> E e t"
  shows "wp m Q E s"
  by (rule keepsD[OF assms(1)[of "(msgs s, results s, asked s)"]]) (use assms(2-) in auto)

lemma talk_keeps:
  assumes "\<And>c. same_talk c m"
  shows "keeps (\<lambda>s. P (msgs s) (results s) (asked s)) m"
  unfolding keeps_def by (auto intro!: talk_wp[OF assms, where P = P])

lemma ask_result:
  assumes "wp m (\<lambda>a _. R a) (\<lambda>_ _. True) (world s)"
  shows "wp (ask m) (\<lambda>a t. R a \<and> (\<exists>w. t = s\<lparr>world := w\<rparr>)) (\<lambda>_ t. \<exists>w. t = s\<lparr>world := w\<rparr>) s"
  using assms by (auto simp: wp_def ask_def split: prod.splits sum.splits)

section \<open>The tools of a reply\<close>

text \<open>With \<open>ms\<close> the conversation, \<open>ids\<close> the calls answered so far and \<open>qs\<close> the requests.\<close>

definition at_reply :: "turn_message list \<Rightarrow> string list \<Rightarrow> request list \<Rightarrow> 'w agent \<Rightarrow> bool" where
  "at_reply ms ids qs s \<longleftrightarrow> msgs s = ms \<and> results_in (results s) = ids \<and> asked s = qs"

lemma at_reply_asked: "at_reply ms ids qs s \<Longrightarrow> asked s = qs"
  by (simp add: at_reply_def)

lemma reply_wp:
  assumes "\<And>c. same_talk c m" "at_reply ms ids qs s" "\<And>a t. at_reply ms ids qs t \<Longrightarrow> Q a t" "\<And>e t. asked t = qs \<Longrightarrow> E e t"
  shows "wp m Q E s"
  by (rule talk_wp[OF assms(1), where P = "\<lambda>m r a. m = ms \<and> results_in r = ids \<and> a = qs"]) (use assms(2-) in \<open>auto simp: at_reply_def\<close>)

lemma accept_reply:
  assumes "at_reply ms ids qs s" "\<And>t. at_reply ms (ids @ [tu_id u]) qs t \<Longrightarrow> Q () t" "\<And>e t. asked t = qs \<Longrightarrow> E e t"
  shows "wp (accept_result cfg sv u out) Q E s"
  unfolding accept_result_def wp_bind
  by (rule reply_wp[OF same_talk_materialize assms(1)]) (auto simp: wp_simps at_reply_def assms(2,3))

text \<open>After a call: answered, or the run is over.\<close>

definition after_call :: "turn_message list \<Rightarrow> string list \<Rightarrow> request list \<Rightarrow> step_end \<Rightarrow> 'w agent \<Rightarrow> bool" where
  "after_call ms ids qs e t \<longleftrightarrow> asked t = qs \<and> e \<noteq> Compacted \<and> (e = Next \<longrightarrow> at_reply ms ids qs t)"

lemma same_asked_talk: "(\<And>c. same_talk c m) \<Longrightarrow> same_asked qs m"
  by (rule talk_keeps[where P = "\<lambda>_ _ a. a = qs"])

lemma same_asked_denied: "same_asked qs (stop_after_permission_denied sv t)"
  unfolding stop_after_permission_denied_def by (intro keeps_rules same_asked_talk[OF same_talk_stop]) simp

lemma denied_after:
  assumes "asked s = qs"
  shows "wp (seq_act (stop_after_permission_denied sv t) (ret Denied)) (after_call ms ids qs) (\<lambda>_ t. asked t = qs) s"
  unfolding wp_seq by (rule keepsD[OF same_asked_denied assms]) (simp_all add: wp_simps after_call_def)

lemma blocked_reply:
  assumes "at_reply ms ids qs s"
  shows "wp (blocked_call cfg sv u r) (after_call ms (ids @ [tu_id u]) qs) (\<lambda>_ t. asked t = qs) s"
  unfolding blocked_call_def wp_seq
  by (rule accept_reply[OF assms]) (auto simp: wp_ret after_call_def at_reply_asked intro: denied_after)

lemma finish_reply:
  assumes "at_reply ms ids qs s"
  shows "wp (finish_call cfg sv u out) (after_call ms (ids @ [tu_id u]) qs) (\<lambda>_ t. asked t = qs) s"
  unfolding finish_call_def wp_seq
  by (rule reply_wp[OF same_talk_read assms], rule accept_reply) (auto simp: wp_ret after_call_def at_reply_asked intro: denied_after)

lemma upd_reply:
  assumes "at_reply ms ids qs s" "\<And>s. (msgs (f s), results (f s), asked (f s)) = (msgs s, results s, asked s)" "\<And>t. at_reply ms ids qs t \<Longrightarrow> wp k Q E t"
  shows "wp (seq_act (upd_act f) k) Q E s"
  using assms by (simp add: wp_simps at_reply_def)

lemma allowed_reply:
  assumes at: "at_reply ms ids qs s"
  shows "wp (allowed_call cfg sv hs u) (after_call ms (ids @ [tu_id u]) qs) (\<lambda>_ t. asked t = qs) s"
proof (cases "should_run_background cfg u")
  case True
  show ?thesis unfolding allowed_call_def using True
    by (simp add: wp_bind, intro reply_wp[OF same_talk_ask at] upd_reply)
       (auto simp: wp_seq wp_ret after_call_def at_reply_asked intro!: accept_reply[where ms = ms and ids = ids and qs = qs])
next
  case False
  have marks: "wp (bind_act (note_delegation sv u out) (\<lambda>(by_agent, out). seq_act (note_mutation sv u by_agent out) (finish_call cfg sv u out)))
      (after_call ms (ids @ [tu_id u]) qs) (\<lambda>_ t. asked t = qs) t" if "at_reply ms ids qs t" for out t
    unfolding wp_bind
    by (rule reply_wp[OF same_talk_delegation that])
       (auto simp: wp_seq intro!: reply_wp[OF same_talk_mutation, where ms = ms and ids = ids and qs = qs] finish_reply)
  show ?thesis unfolding allowed_call_def using False
    by (simp add: wp_bind, intro reply_wp[OF same_talk_handler at] upd_reply)
       (auto simp: wp_seq intro!: reply_wp[OF same_talk_ask, where ms = ms and ids = ids and qs = qs] marks)
qed

text \<open>The compaction tool, called alone, leaves a conversation with every call answered.\<close>

lemma compact_reply:
  assumes laws: "context_laws sv" and at: "at_reply ms ids qs s" and aw: "awaits [tu_id u] ms"
  shows "wp (compact_tool cfg sv u) (\<lambda>_ t. asked t = qs \<and> paired (msgs t)) (\<lambda>_ t. asked t = qs) s"
proof -
  have call: "wp (ask (sv_compact sv ms)) (\<lambda>ms' t. asked t = qs \<and> awaits (if mentions_call (tu_id u) ms' then [tu_id u] else []) ms') (\<lambda>_ t. asked t = qs) s"
    by (rule wp_mono[OF ask_result[where R = "\<lambda>ms'. awaits (if mentions_call (tu_id u) ms' then [tu_id u] else []) ms'"]])
       (use laws aw at in \<open>auto simp: context_laws_def at_reply_def\<close>)
  have answer: "awaits [tu_id u] ms' \<Longrightarrow> paired (ms' @ [user_parts [P_result (tu_id u) c]])" "awaits [] ms' \<Longrightarrow> paired (ms' @ [user_says c])" for ms' c
    by (simp_all add: paired_def awaits_snoc)
  have store: "wp (materialize cfg sv u c) (\<lambda>a t. asked t = qs \<and> msgs t = ms') (\<lambda>_ t. asked t = qs) t" if "asked t = qs" "msgs t = ms'" for c ms' t
    by (rule talk_wp[OF same_talk_materialize, where P = "\<lambda>m r a. a = qs \<and> m = ms'"]) (use that in auto)
  have ms: "msgs s = ms" using at by (simp add: at_reply_def)
  show ?thesis
    unfolding compact_tool_def wp_bind wp_get ms
    apply (rule wp_mono[OF call])
     apply (simp add: wp_seq wp_upd wp_bind)
     apply (rule wp_mono[OF store])
        apply (auto simp: say_def wp_upd intro: answer)
    done
qed

lemma tool_step_reply:
  assumes "at_reply ms ids qs s" and "tu_name u \<noteq> ''compact''"
  shows "wp (tool_step cfg sv hs u) (after_call ms (ids @ [tu_id u]) qs) (\<lambda>_ t. asked t = qs) s"
proof -
  have cached: "wp (seq_act (reuse_cached cfg sv u c) (ret Next)) (after_call ms (ids @ [tu_id u]) qs) (\<lambda>_ t. asked t = qs) s" for c
    unfolding reuse_cached_def wp_seq by (rule accept_reply[OF assms(1)]) (auto simp: wp_ret after_call_def at_reply_asked)
  have gated: "wp (bind_act (ask (sv_pre sv u)) (\<lambda>r. seq_act (upd_act (\<lambda>s. s\<lparr>gated := gated s @ [(u, r)]\<rparr>))
      (if blocks r then blocked_call cfg sv u (the r) else allowed_call cfg sv hs u))) (after_call ms (ids @ [tu_id u]) qs) (\<lambda>_ t. asked t = qs) s"
    unfolding wp_bind by (rule reply_wp[OF same_talk_ask assms(1)]) (auto intro!: upd_reply[where ms = ms and ids = ids and qs = qs] blocked_reply allowed_reply)
  show ?thesis unfolding tool_step_def wp_bind wp_get using assms(2) cached gated by simp
qed

text \<open>What holds when the tools of a reply have been gone through.\<close>

definition after_tools :: "turn_message list \<Rightarrow> string list \<Rightarrow> request list \<Rightarrow> step_end \<Rightarrow> 'w agent \<Rightarrow> bool" where
  "after_tools ms ids qs e t \<longleftrightarrow> asked t = qs \<and> (e = Next \<longrightarrow> at_reply ms ids qs t) \<and> (e = Compacted \<longrightarrow> paired (msgs t))"

lemma tool_steps_reply:
  assumes laws: "context_laws sv"
  shows "at_reply ms ids qs s \<Longrightarrow> compact_alone ps \<Longrightarrow> awaits (ids @ map tu_id (uses_in ps)) ms \<Longrightarrow> (has_tool_use ps \<longrightarrow> ids = [] \<or> (\<forall>u\<in>set (uses_in ps). tu_name u \<noteq> ''compact'')) \<Longrightarrow>
    wp (tool_steps cfg sv hs ps) (after_tools ms (ids @ map tu_id (uses_in ps)) qs) (\<lambda>_ t. asked t = qs) s"
proof (induction ps arbitrary: ids s)
  case Nil
  then show ?case by (auto simp: wp_ret after_tools_def at_reply_asked)
next
  case (Cons p ps)
  show ?case
  proof (cases "\<exists>u. p = P_use u")
    case False
    then have same: "uses_in (p # ps) = uses_in ps" by (cases p) auto
    with Cons.prems have "compact_alone ps" "has_tool_use (p # ps) = has_tool_use ps" by (auto simp: compact_alone_def has_tool_use_def)
    then have step: "wp (tool_steps cfg sv hs ps) (after_tools ms (ids @ map tu_id (uses_in ps)) qs) (\<lambda>_ t. asked t = qs) t" if "at_reply ms ids qs t" for t
      using Cons.IH[OF that] Cons.prems(3,4) same by auto
    from False have "tool_steps cfg sv hs (p # ps) = seq_act (check_case_deadline sv) (tool_steps cfg sv hs ps)" by (cases p) auto
    then show ?thesis unfolding same wp_seq
      by (simp add: wp_seq) (rule reply_wp[OF same_talk_deadline Cons.prems(1)], auto intro: step)
  next
    case True
    then obtain u where p: "p = P_use u" by blast
    let ?ids = "ids @ [tu_id u]"
    have rest: "wp (bind_act (tool_step cfg sv hs u) (\<lambda>e. if e = Next then tool_steps cfg sv hs ps else ret e))
        (after_tools ms (ids @ map tu_id (uses_in (p # ps))) qs) (\<lambda>_ t. asked t = qs) t" if at: "at_reply ms ids qs t" for t
    proof (cases "tu_name u = ''compact''")
      case True
      then have "uses_in (p # ps) = [u]" "ids = []" using Cons.prems(2,4) p by (auto simp: compact_alone_def has_tool_use_def)
      then have aw: "awaits [tu_id u] ms" using Cons.prems(3) by simp
      have "\<not> is_delegation u" using True by (simp add: is_delegation_def)
      with True show ?thesis unfolding wp_bind tool_step_def wp_get
        by (simp add: wp_seq) (rule wp_mono[OF compact_reply[OF laws at aw]], auto simp: wp_ret after_tools_def)
    next
      case False
      have ih: "wp (tool_steps cfg sv hs ps) (after_tools ms (?ids @ map tu_id (uses_in ps)) qs) (\<lambda>_ t. asked t = qs) t'" if "at_reply ms ?ids qs t'" for t'
        using that Cons.prems(2-4) p by (intro Cons.IH) (auto simp: compact_alone_def has_tool_use_def)
      show ?thesis unfolding wp_bind
        by (rule wp_mono[OF tool_step_reply[OF at False]]) (use ih p in \<open>auto simp: wp_ret after_call_def after_tools_def at_reply_asked\<close>)
    qed
    show ?thesis by (simp add: p wp_seq) (rule reply_wp[OF same_talk_deadline Cons.prems(1)], use rest p in auto)
  qed
qed

section \<open>The loop\<close>

text \<open>\<open>goes m\<close>: from a paired conversation, \<open>m\<close> only goes on with a paired one; \<open>halts m\<close>: \<open>m\<close> does not go on.\<close>

abbreviation fine :: "'w agent \<Rightarrow> bool" where
  "fine s \<equiv> all_paired s \<and> paired (msgs s)"

definition goes :: "('w agent, bool) act \<Rightarrow> bool" where
  "goes m \<longleftrightarrow> (\<forall>s. fine s \<longrightarrow> wp m (\<lambda>go t. if go then fine t else all_paired t) (\<lambda>_. all_paired) s)"

definition halts :: "('w agent, bool) act \<Rightarrow> bool" where
  "halts m \<longleftrightarrow> (\<forall>s. all_paired s \<longrightarrow> wp m (\<lambda>go t. \<not> go \<and> all_paired t) (\<lambda>_. all_paired) s)"

lemma goes_bind: "keeps fine m \<Longrightarrow> (\<And>a. goes (f a)) \<Longrightarrow> goes (bind_act m f)"
  unfolding goes_def wp_bind by (intro allI impI) (erule (1) keepsD; blast)

lemma goes_seq: "keeps fine m \<Longrightarrow> goes k \<Longrightarrow> goes (seq_act m k)"
  by (simp add: seq_act_def goes_bind)

lemma goes_ret: "goes (ret b)"
  by (simp add: goes_def wp_ret)

lemma goes_if: "(b \<Longrightarrow> goes m) \<Longrightarrow> (\<not> b \<Longrightarrow> goes k) \<Longrightarrow> goes (if b then m else k)"
  by simp

lemma halts_goes: "halts m \<Longrightarrow> goes m"
  unfolding goes_def halts_def by (auto elim!: wp_mono)

lemma halts_bind: "keeps all_paired m \<Longrightarrow> (\<And>a. halts (f a)) \<Longrightarrow> halts (bind_act m f)"
  unfolding halts_def wp_bind by (intro allI impI) (erule (1) keepsD; blast)

lemma fine_talk: "(\<And>c. same_talk c m) \<Longrightarrow> keeps fine m"
  by (rule talk_keeps[where P = "\<lambda>m r a. (\<forall>q\<in>set a. paired (rq_messages q)) \<and> paired m"])

lemma all_paired_talk: "(\<And>c. same_talk c m) \<Longrightarrow> keeps all_paired m"
  by (rule talk_keeps[where P = "\<lambda>m r a. (\<forall>q\<in>set a. paired (rq_messages q))"])

lemma fine_say: "keeps fine (say (user_says t))" "keeps fine (say (user_parts (map P_text ts)))"
  unfolding say_def by (rule keeps_upd, simp add: paired_snoc)+

lemma fine_fired: "keeps fine (add_fired jobs)"
  unfolding add_fired_def by (rule keeps_upd) (simp add: paired_prompts)

lemma fine_notes: "keeps fine (add_notes notes)"
  unfolding add_notes_def by (intro keeps_rules fine_say)

lemmas fine_calls = fine_say fine_fired fine_notes fine_talk[OF same_talk_ask] fine_talk[OF same_talk_deadline] fine_talk[OF same_talk_stop]
  fine_talk[OF same_talk_todos]

lemma fine_inject: "keeps fine (inject_background_notifications sv)"
  unfolding inject_background_notifications_def by (intro keeps_rules fine_calls)

lemma fine_guard: "keeps fine (budget_guard sv)"
  unfolding budget_guard_def
  by (intro keeps_bind fine_calls) (auto split: option.split intro!: keeps_rules fine_calls)

lemma halts_end_turn: "halts (end_turn sv ps)"
  unfolding halts_def end_turn_def wp_seq by (auto intro!: keepsD[OF all_paired_talk[OF same_talk_stop]] simp: wp_ret)

lemma all_paired_warning: "keeps all_paired (append_todo_warning ts ps)"
  unfolding append_todo_warning_def by (intro keeps_rules) simp

lemma halts_warned: "halts (bind_act (append_todo_warning ts ps) (end_turn sv))"
  by (intro halts_bind all_paired_warning halts_end_turn)

lemma goes_final: "goes (final_answer cfg sv ps)"
  unfolding final_answer_def case_timeout_def
  by (intro goes_bind goes_seq goes_if goes_ret keeps_rules fine_calls halts_goes[OF halts_end_turn] halts_goes[OF halts_warned]) simp_all

lemma goes_error:
  assumes "context_laws sv"
  shows "goes (handle_error sv e)"
proof -
  have reactive: "wp (bind_act (ask (sv_reactive sv (msgs s))) (\<lambda>ms. seq_act (upd_act (\<lambda>s. s\<lparr>msgs := ms,
      recovery := (recovery s)\<lparr>has_attempted_reactive_compact := True\<rparr>\<rparr>)) (ret True)))
      (\<lambda>go t. if go then fine t else all_paired t) (\<lambda>_. all_paired) s" if "fine s" for s
    unfolding wp_bind
    by (rule wp_mono[OF ask_result[where R = paired]]) (use assms that in \<open>auto simp: context_laws_def wp_seq wp_upd wp_ret\<close>)
  show ?thesis unfolding goes_def handle_error_def case_timeout_def
    using reactive by (auto simp: wp_if wp_raise wp_bind wp_get wp_seq say_def wp_upd wp_ret)
qed

lemma goes_cut_off: "goes (cut_off cfg sv last_call ps)"
proof -
  have said: "halts (seq_act (when_act b (say m)) k)" if "halts k" for b m k
    unfolding seq_act_def using that by (intro halts_bind keeps_rules) (auto simp: say_def intro: keeps_upd)
  have stop: "halts (ret False)" by (simp add: halts_def wp_ret)
  show ?thesis unfolding cut_off_def Let_def MAX_RECOVERY_RETRIES_def
    by (intro goes_bind keeps_get goes_if goes_seq[OF keeps_upd] goes_ret halts_goes[OF said]) (auto intro: stop halts_end_turn)
qed

lemma all_paired_asked: "asked t = asked s \<Longrightarrow> all_paired s \<Longrightarrow> all_paired t"
  by simp

text \<open>From a reply whose calls are open, the tools lead to a paired conversation or to the end.\<close>

lemma run_tools_reply:
  assumes laws: "context_laws sv" and alone: "compact_alone ps" and aw: "awaits (map tu_id (uses_in ps)) (msgs s)" and ok: "all_paired s"
  shows "wp (run_tools cfg sv hs ps) (\<lambda>go t. if go then fine t else all_paired t) (\<lambda>_. all_paired) s"
proof -
  let ?s = "s\<lparr>results := []\<rparr>" and ?ids = "map tu_id (uses_in ps)"
  have steps: "wp (tool_steps cfg sv hs ps) (after_tools (msgs s) ?ids (asked s)) (\<lambda>_ t. asked t = asked s) ?s"
    using tool_steps_reply[OF laws, of "msgs s" "[]" "asked s" ?s ps cfg hs] alone aw by (simp add: at_reply_def)
  have noted: "wp (bind_act (ask (sv_notes sv)) (\<lambda>notes. bind_act (get_act results) (\<lambda>rs. seq_act (say (user_parts (rs @ map P_text notes))) (ret True))))
      (\<lambda>go t. if go then fine t else all_paired t) (\<lambda>_. all_paired) t" if "at_reply (msgs s) ?ids (asked s) t" for t
    unfolding wp_bind
    by (rule reply_wp[OF same_talk_ask that]) (use aw ok in \<open>auto simp: wp_bind wp_get wp_seq say_def wp_upd wp_ret at_reply_def paired_snoc(3)\<close>)
  show ?thesis unfolding run_tools_def wp_seq wp_upd wp_bind
    by (rule wp_mono[OF steps]) (use noted ok in \<open>auto simp: after_tools_def wp_ret split del: if_split split: step_end.split\<close>)
qed

lemma goes_reply:
  assumes laws: "context_laws sv" and reply: "usable_reply (rp_parts r)"
  shows "goes (handle_reply cfg sv hs last_call r)"
  unfolding goes_def
proof (intro allI impI)
  fix s :: "'a agent" assume s: "fine s"
  let ?Q = "\<lambda>go t. if go then fine t else all_paired t" and ?E = "\<lambda>_. all_paired"
  define t where "t = s\<lparr>max_tokens := effective_initial_max_tokens (ac_provider cfg) (current_model (recovery s)) DEFAULT_MAX_TOKENS,
    recovery := (recovery s)\<lparr>has_escalated := False\<rparr>, msgs := msgs s @ [assistant_parts (rp_parts r)]\<rparr>"
  have ok: "all_paired t" using s by (simp add: t_def)
  have aw: "awaits (map tu_id (uses_in (rp_parts r))) (msgs t)" using s reply awaits_snoc[of "[]" "msgs s"] by (auto simp: t_def paired_def usable_reply_def)
  have last_one: "wp (bind_act (incomplete_todos sv) (\<lambda>ts. bind_act (append_todo_warning ts (rp_parts r)) (end_turn sv))) ?Q ?E t"
  proof -
    have "halts (bind_act (incomplete_todos sv) (\<lambda>ts. bind_act (append_todo_warning ts (rp_parts r)) (end_turn sv)))"
      by (rule halts_bind[OF all_paired_talk[OF same_talk_todos] halts_warned])
    with ok show ?thesis unfolding halts_def by (auto elim!: wp_mono)
  qed
  have final: "wp (final_answer cfg sv (rp_parts r)) ?Q ?E t" if "\<not> has_tool_use (rp_parts r)"
    using goes_final[of cfg sv "rp_parts r"] ok aw that unfolding goes_def by (simp add: has_tool_use_def paired_def)
  have tools: "wp (run_tools cfg sv hs (rp_parts r)) ?Q ?E t" using reply by (intro run_tools_reply[OF laws _ aw ok]) (simp add: usable_reply_def)
  have cut: "wp (cut_off cfg sv last_call (rp_parts r)) ?Q ?E s" using goes_cut_off[of cfg sv last_call "rp_parts r"] s unfolding goes_def by blast
  show "wp (handle_reply cfg sv hs last_call r) ?Q ?E s"
    unfolding handle_reply_def wp_if wp_seq wp_upd t_def[symmetric] using last_one final tools cut by simp
qed

lemma with_retry_returned: "with_retry fn fallback n st = (Returned r, st', sleeps) \<Longrightarrow> \<exists>k c. fn k c = Inr r"
proof -
  have "retry_loop fn fallback k n st sl = (Returned r, st', sleeps) \<Longrightarrow> \<exists>k c. fn k c = Inr r" for k n st sl
    by (induction fn fallback k n st sl rule: retry_loop.induct) (auto split: sum.splits if_splits)
  then show "with_retry fn fallback n st = (Returned r, st', sleeps) \<Longrightarrow> \<exists>k c. fn k c = Inr r" by (simp add: with_retry_def)
qed

text \<open>The request carries a paired conversation, which the call leaves as it is.\<close>

lemma call_llm_fine:
  assumes "model_laws sv" "fine s"
  shows "wp (call_llm cfg sv tools) (\<lambda>out t. fine t \<and> (\<forall>r. out = Inr r \<longrightarrow> usable_reply (rp_parts r))) (\<lambda>_. all_paired) s"
  unfolding call_llm_def wp_seq
  apply (rule keepsD[OF fine_talk[OF same_talk_deadline] assms(2)])
   apply (clarsimp simp: wp_def split: prod.split retry_end.split)
   apply (drule with_retry_returned)
  using assms(1) by (auto simp: model_laws_def)

lemma goes_turn:
  assumes laws: "context_laws sv" "model_laws sv"
  shows "goes (agent_turn cfg sv)"
proof -
  have handled: "wp (bind_act (call_llm cfg sv tools) (\<lambda>outcome. case outcome of Inl e \<Rightarrow> handle_error sv e | Inr r \<Rightarrow> handle_reply cfg sv hs last_call r))
      (\<lambda>go t. if go then fine t else all_paired t) (\<lambda>_. all_paired) s" if "fine s" for tools hs last_call s
    unfolding wp_bind
  proof (rule wp_mono[OF call_llm_fine[OF laws(2) that]])
    fix a :: "py_exception + reply" and t :: "'a agent"
    assume "fine t \<and> (\<forall>r. a = Inr r \<longrightarrow> usable_reply (rp_parts r))"
    then show "wp (case a of Inl e \<Rightarrow> handle_error sv e | Inr r \<Rightarrow> handle_reply cfg sv hs last_call r)
        (\<lambda>go t. if go then fine t else all_paired t) (\<lambda>_. all_paired) t"
      using goes_error[OF laws(1)] goes_reply[OF laws(1)] unfolding goes_def by (cases a; simp only: sum.case; blast)
  qed simp
  have prepared: "goes (bind_act (get_act msgs) (\<lambda>ms. bind_act (ask (sv_prepare sv ms offered)) (\<lambda>ms'. seq_act (upd_act (\<lambda>s. s\<lparr>msgs := ms'\<rparr>))
      (bind_act (call_llm cfg sv tools) (\<lambda>outcome. case outcome of Inl e \<Rightarrow> handle_error sv e | Inr r \<Rightarrow> handle_reply cfg sv hs last_call r)))))"
    for offered tools hs last_call
    unfolding goes_def
  proof (intro allI impI, unfold wp_bind[where m = "get_act msgs"] wp_get wp_bind[where m = "ask m" for m])
    fix s :: "'a agent" assume s: "fine s"
    show "wp (ask (sv_prepare sv (msgs s) offered)) (\<lambda>a. wp (seq_act (upd_act (\<lambda>s. s\<lparr>msgs := a\<rparr>))
      (bind_act (call_llm cfg sv tools) (\<lambda>outcome. case outcome of Inl e \<Rightarrow> handle_error sv e | Inr r \<Rightarrow> handle_reply cfg sv hs last_call r)))
      (\<lambda>go t. if go then fine t else all_paired t) (\<lambda>_. all_paired)) (\<lambda>_. all_paired) s"
      by (rule wp_mono[OF ask_result[where R = paired]])
         (use laws(1) s in \<open>auto simp: context_laws_def wp_seq wp_upd split del: if_split intro!: handled\<close>)
  qed
  show ?thesis unfolding agent_turn_def
    by (intro goes_seq goes_bind fine_calls fine_inject fine_guard)
       (auto intro!: goes_if goes_ret goes_bind[OF fine_talk[OF same_talk_ask]] prepared)
qed

text \<open>Every request has a paired conversation, if the services keep it.\<close>

lemma agent_requests_paired:
  assumes "context_laws sv" "model_laws sv" "paired ms" "agent_loop fuel cfg sv primary briefing w ms = Some (r, s)"
  shows "\<forall>q\<in>set (asked s). paired (rq_messages q)"
proof (rule agent_turns_inv[OF assms(4)[unfolded agent_loop_def], where I = fine])
  show "fine (start_agent cfg primary briefing w ms)" using assms(3) by (auto simp: start_agent_def paired_snoc split: option.split)
  show "wp (agent_turn cfg sv) (\<lambda>go t. if go then fine t else all_paired t) (\<lambda>_. all_paired) t" if "fine t" for t
    using goes_turn[OF assms(1,2), of cfg] that unfolding goes_def by blast
qed

section \<open>The interface to the context\<close>

text \<open>What the loop relies on when it hands the conversation over to be prepared or compacted, and what it promises in return.\<close>

locale paired_context =
  fixes sv :: "'w services"
  assumes prepare_keeps: "paired ms \<Longrightarrow> wp (sv_prepare sv ms tools) (\<lambda>ms' _. paired ms') (\<lambda>_ _. True) w"
    and reactive_keeps: "paired ms \<Longrightarrow> wp (sv_reactive sv ms) (\<lambda>ms' _. paired ms') (\<lambda>_ _. True) w"
    and compact_keeps: "awaits [i] ms \<Longrightarrow> wp (sv_compact sv ms) (\<lambda>ms' _. awaits (if mentions_call i ms' then [i] else []) ms') (\<lambda>_ _. True) w"
begin

lemma requests_paired:
  assumes "model_laws sv" "paired ms" "agent_loop fuel cfg sv primary briefing w ms = Some (r, s)"
  shows "\<forall>q\<in>set (asked s). paired (rq_messages q)"
proof -
  have "context_laws sv" by (simp add: context_laws_def prepare_keeps reactive_keeps compact_keeps)
  from agent_requests_paired[OF this assms] show ?thesis .
qed

end

end
