(* ===== verification/Agent_Budget.thy ===== *)
theory Agent_Budget
  imports Agent_Pairing
begin

text \<open>
  The call budget of a run. \<open>left w\<close> is how many model calls the client still has; \<open>counts_calls\<close> says that the snapshot the loop reads
  tells this number, that a call to the model uses some of it, and that nothing gives any back. Between the check of the budget and the call of a turn, the
  loop prepares the context; that may spend calls on a summary but not the last one (\<open>can_spend_optional_calls\<close> keeps a reserve).

  Shown: a run ends within as many turns as there are calls, and one more to notice that there are none, and it sends no more requests than that.
\<close>

section \<open>The laws\<close>

definition spends :: "('w \<Rightarrow> int) \<Rightarrow> ('w, 'a) act \<Rightarrow> bool" where
  "spends left m \<longleftrightarrow> (\<forall>w. left (snd (m w)) \<le> left w)"

definition spares_last :: "('w \<Rightarrow> int) \<Rightarrow> ('w, 'a) act \<Rightarrow> bool" where
  "spares_last left m \<longleftrightarrow> spends left m \<and> (\<forall>w. 0 < left w \<longrightarrow> 0 < left (snd (m w)))"

definition tells_left :: "('w \<Rightarrow> int) \<Rightarrow> ('w, client_budget) act \<Rightarrow> bool" where
  "tells_left left m \<longleftrightarrow> spends left m
     \<and> (\<forall>w c w'. m w = (Inr c, w') \<longrightarrow> (\<exists>b. model_budget_snapshot c = Some b \<and> bg_remaining_calls b = left w'))"

definition counts_calls :: "('w \<Rightarrow> int) \<Rightarrow> 'w services \<Rightarrow> bool" where
  "counts_calls left sv \<longleftrightarrow> (\<forall>w. 0 \<le> left w) \<and> tells_left left (sv_budget sv)
     \<and> (\<forall>n w. 0 < n \<longrightarrow> 0 < left w \<longrightarrow> left (sv_created sv n w) < left w)
     \<and> spares_last left (sv_expired sv) \<and> spares_last left (sv_workers_alive sv) \<and> spares_last left (sv_todos sv) \<and> spares_last left (sv_tools sv)
     \<and> (\<forall>ms ts. spares_last left (sv_prepare sv ms ts))
     \<and> spends left (sv_fired sv) \<and> spends left (sv_notes sv) \<and> spends left (sv_wait_background sv) \<and> spends left (sv_wait_once sv)
     \<and> (\<forall>ms. spends left (sv_reactive sv ms)) \<and> (\<forall>ms. spends left (sv_compact sv ms)) \<and> (\<forall>ms. spends left (sv_stop sv ms))
     \<and> (\<forall>u. spends left (sv_pre sv u)) \<and> (\<forall>u out. spends left (sv_post sv u out)) \<and> (\<forall>u. spends left (sv_handler sv u))
     \<and> (\<forall>u. spends left (sv_background sv u)) \<and> (\<forall>u out. spends left (sv_store sv u out)) \<and> (\<forall>d. spends left (sv_screen sv d))"

section \<open>Steps that do not call the model\<close>

text \<open>At most \<open>k\<close> calls are left, and with the requests sent they are at most \<open>b\<close>.\<close>

definition calls_within :: "('w \<Rightarrow> int) \<Rightarrow> int \<Rightarrow> int \<Rightarrow> 'w agent \<Rightarrow> bool" where
  "calls_within left b k s \<longleftrightarrow> left (world s) \<le> k \<and> left (world s) + int (length (asked s)) \<le> b"

lemma within_upd [simp]:
  "calls_within left b k (s\<lparr>msgs := m\<rparr>) = calls_within left b k s" "calls_within left b k (s\<lparr>recovery := c\<rparr>) = calls_within left b k s"
  "calls_within left b k (s\<lparr>max_tokens := j\<rparr>) = calls_within left b k s" "calls_within left b k (s\<lparr>todo_followup_sent := x\<rparr>) = calls_within left b k s"
  "calls_within left b k (s\<lparr>budget_notice_sent := x\<rparr>) = calls_within left b k s" "calls_within left b k (s\<lparr>explorer_cached := t\<rparr>) = calls_within left b k s"
  "calls_within left b k (s\<lparr>reviewer_cached := t\<rparr>) = calls_within left b k s" "calls_within left b k (s\<lparr>changed_paths := ps\<rparr>) = calls_within left b k s"
  "calls_within left b k (s\<lparr>read_counts := d\<rparr>) = calls_within left b k s" "calls_within left b k (s\<lparr>benefit_sent := x\<rparr>) = calls_within left b k s"
  "calls_within left b k (s\<lparr>results := rs\<rparr>) = calls_within left b k s" "calls_within left b k (s\<lparr>final_text := ft\<rparr>) = calls_within left b k s"
  "calls_within left b k (s\<lparr>explorer_attempted := x\<rparr>) = calls_within left b k s" "calls_within left b k (s\<lparr>reviewer_revision := i\<rparr>) = calls_within left b k s"
  "calls_within left b k (s\<lparr>mutation_revision := n\<rparr>) = calls_within left b k s" "calls_within left b k (s\<lparr>gated := gs\<rparr>) = calls_within left b k s"
  "calls_within left b k (s\<lparr>agent.ran := xs\<rparr>) = calls_within left b k s" "calls_within left b k (s\<lparr>backgrounded := us\<rparr>) = calls_within left b k s"
  by (simp_all add: calls_within_def)

lemma within_ask: "spends left m \<Longrightarrow> keeps (calls_within left b k) (ask m)"
proof -
  assume m: "spends left m"
  have "calls_within left b k (s\<lparr>world := snd (m (world s))\<rparr>)" if "calls_within left b k s" for s
    using that m[unfolded spends_def, rule_format, of "world s"] by (simp add: calls_within_def)
  then show ?thesis unfolding keeps_def wp_def ask_def by (auto simp: case_prod_unfold split: sum.split)
qed

lemma spares_spends: "spares_last left m \<Longrightarrow> spends left m"
  by (simp add: spares_last_def)

lemma within_say: "keeps (calls_within left b k) (say m)" "keeps (calls_within left b k) (finish_run t)"
  unfolding say_def finish_run_def by (rule keeps_upd, simp)+

lemma within_services:
  assumes "counts_calls left sv"
  shows "keeps (calls_within left b k) (ask (sv_budget sv))" "keeps (calls_within left b k) (ask (sv_expired sv))" "keeps (calls_within left b k) (ask (sv_workers_alive sv))"
    "keeps (calls_within left b k) (ask (sv_todos sv))" "keeps (calls_within left b k) (ask (sv_tools sv))" "keeps (calls_within left b k) (ask (sv_prepare sv ms ts))"
    "keeps (calls_within left b k) (ask (sv_fired sv))" "keeps (calls_within left b k) (ask (sv_notes sv))" "keeps (calls_within left b k) (ask (sv_wait_background sv))"
    "keeps (calls_within left b k) (ask (sv_wait_once sv))" "keeps (calls_within left b k) (ask (sv_reactive sv ms))" "keeps (calls_within left b k) (ask (sv_compact sv ms))"
    "keeps (calls_within left b k) (ask (sv_stop sv ms))" "keeps (calls_within left b k) (ask (sv_pre sv u))" "keeps (calls_within left b k) (ask (sv_post sv u out))"
    "keeps (calls_within left b k) (ask (sv_handler sv u))" "keeps (calls_within left b k) (ask (sv_background sv u))" "keeps (calls_within left b k) (ask (sv_store sv u out))"
    "keeps (calls_within left b k) (ask (sv_screen sv d))"
  by (rule within_ask, use assms in \<open>simp add: counts_calls_def tells_left_def spares_last_def\<close>)+

lemma within_deadline: "counts_calls left sv \<Longrightarrow> keeps (calls_within left b k) (check_case_deadline sv)"
  unfolding check_case_deadline_def case_timeout_def by (intro keeps_rules within_services)

lemma within_todos: "counts_calls left sv \<Longrightarrow> keeps (calls_within left b k) (incomplete_todos sv)"
  unfolding incomplete_todos_def by (intro keeps_rules within_services)

lemma within_notes: "keeps (calls_within left b k) (add_notes notes)"
  unfolding add_notes_def by (intro keeps_rules within_say)

lemma within_inject: "counts_calls left sv \<Longrightarrow> keeps (calls_within left b k) (inject_background_notifications sv)"
  unfolding inject_background_notifications_def by (intro keeps_rules within_services within_notes)

lemma within_fired: "keeps (calls_within left b k) (add_fired jobs)"
  unfolding add_fired_def by (rule keeps_upd) simp

lemma within_stop: "counts_calls left sv \<Longrightarrow> keeps (calls_within left b k) (stop_run sv t)"
  unfolding stop_run_def by (intro keeps_rules within_services within_say)

lemma within_warning: "keeps (calls_within left b k) (append_todo_warning ts ps)"
  unfolding append_todo_warning_def by (intro keeps_rules) simp

lemma within_end_turn: "counts_calls left sv \<Longrightarrow> keeps (calls_within left b k) (end_turn sv ps)"
  unfolding end_turn_def by (intro keeps_rules within_stop)

lemma within_final: "counts_calls left sv \<Longrightarrow> keeps (calls_within left b k) (final_answer cfg sv ps)"
  unfolding final_answer_def case_timeout_def
  by (intro keeps_rules within_services within_say within_notes within_todos within_warning within_end_turn; simp)

lemma within_accept: "counts_calls left sv \<Longrightarrow> keeps (calls_within left b k) (accept_result cfg sv u out)"
  unfolding accept_result_def materialize_def by (intro keeps_rules within_services; simp)

lemma within_denied: "counts_calls left sv \<Longrightarrow> keeps (calls_within left b k) (stop_after_permission_denied sv t)"
  unfolding stop_after_permission_denied_def by (intro keeps_rules within_stop; simp)

lemma within_marks: "counts_calls left sv \<Longrightarrow> keeps (calls_within left b k) (note_delegation sv u out)"
  "keeps (calls_within left b k) (note_mutation sv u fs out)" "keeps (calls_within left b k) (note_read cfg u out)"
  unfolding note_delegation_def note_mutation_def note_read_def Let_def by (intro keeps_rules within_services; simp)+

lemma within_call: "counts_calls left sv \<Longrightarrow> keeps (calls_within left b k) (tool_step cfg sv hs u)"
  unfolding tool_step_def reuse_cached_def compact_tool_def materialize_def blocked_call_def allowed_call_def finish_call_def call_tool_handler_def
  by (intro keeps_rules within_services within_accept within_denied within_marks within_say; simp)

lemma within_steps: "counts_calls left sv \<Longrightarrow> keeps (calls_within left b k) (tool_steps cfg sv hs ps)"
proof (induction ps)
  case (Cons p ps)
  then show ?case by (cases p) (auto intro!: keeps_seq keeps_bind keeps_ret within_deadline within_call)
qed (simp add: keeps_ret)

lemma within_tools: "counts_calls left sv \<Longrightarrow> keeps (calls_within left b k) (run_tools cfg sv hs ps)"
  unfolding run_tools_def
  by (intro keeps_seq keeps_bind within_steps keeps_upd) (auto split: step_end.split intro!: keeps_rules within_services within_say)

lemma within_reply: "counts_calls left sv \<Longrightarrow> keeps (calls_within left b k) (handle_reply cfg sv hs last_call r)"
  unfolding handle_reply_def cut_off_def Let_def
  by (intro keeps_rules within_services within_say within_todos within_warning within_end_turn within_final within_tools; simp)

lemma within_error: "counts_calls left sv \<Longrightarrow> keeps (calls_within left b k) (handle_error sv e)"
  unfolding handle_error_def case_timeout_def by (intro keeps_rules within_services within_say; simp)

section \<open>A turn\<close>

text \<open>As before, with a call to spare.\<close>

abbreviation spare :: "('w \<Rightarrow> int) \<Rightarrow> int \<Rightarrow> int \<Rightarrow> 'w agent \<Rightarrow> bool" where
  "spare left b k s \<equiv> calls_within left b k s \<and> 0 < left (world s)"

lemma spare_ask: "spares_last left m \<Longrightarrow> keeps (spare left b k) (ask m)"
proof -
  assume m: "spares_last left m"
  have "spare left b k (s\<lparr>world := snd (m (world s))\<rparr>)" if "spare left b k s" for s
    using that m[unfolded spares_last_def spends_def] by (auto simp: calls_within_def intro: order_trans) (smt (verit))+
  then show ?thesis unfolding keeps_def wp_def ask_def by (auto simp: case_prod_unfold split: sum.split)
qed

lemma spare_services:
  assumes "counts_calls left sv"
  shows "keeps (spare left b k) (ask (sv_expired sv))" "keeps (spare left b k) (ask (sv_workers_alive sv))" "keeps (spare left b k) (ask (sv_todos sv))"
    "keeps (spare left b k) (ask (sv_tools sv))" "keeps (spare left b k) (ask (sv_prepare sv ms ts))"
  by (rule spare_ask, use assms in \<open>simp add: counts_calls_def\<close>)+

lemma spare_deadline: "counts_calls left sv \<Longrightarrow> keeps (spare left b k) (check_case_deadline sv)"
  unfolding check_case_deadline_def case_timeout_def by (intro keeps_rules spare_services)

lemma spare_upd: "(\<And>s. world (f s) = world s \<and> asked (f s) = asked s) \<Longrightarrow> keeps (spare left b k) (upd_act f)"
  by (rule keeps_upd) (simp add: calls_within_def)

text \<open>A turn that is not over after the check has a call left.\<close>

lemma guard_spares:
  assumes c: "counts_calls left sv" and s: "calls_within left b k s"
  shows "wp (budget_guard sv) (\<lambda>p t. calls_within left b k t \<and> (\<not> fst p \<longrightarrow> 0 < left (world t))) (\<lambda>_. calls_within left b k) s"
proof -
  let ?Q = "\<lambda>p t. calls_within left b k t \<and> (\<not> fst p \<longrightarrow> 0 < left (world t))" and ?E = "\<lambda>_. calls_within left b k"
  have told: "wp (ask (sv_budget sv)) (\<lambda>c t. calls_within left b k t \<and> (\<exists>n. model_budget_snapshot c = Some n \<and> bg_remaining_calls n = left (world t))) ?E s"
  proof -
    have "wp (ask (sv_budget sv)) (\<lambda>c t. \<exists>n. model_budget_snapshot c = Some n \<and> bg_remaining_calls n = left (world t)) (\<lambda>_ _. True) s"
      using c by (auto simp: counts_calls_def tells_left_def wp_def ask_def split: prod.split sum.split)
    from wp_conj[OF keeps_wp[OF within_services(1)[OF c, of b k] s] this] show ?thesis by (rule wp_mono) auto
  qed
  have over: "wp (bind_act (incomplete_todos sv) (\<lambda>ts. seq_act (stop_run sv (f ts)) (ret (True, False)))) ?Q ?E t" if "calls_within left b k t" for f t
    unfolding wp_bind by (rule keepsD[OF within_todos[OF c] that]) (auto simp: wp_seq wp_ret intro: keepsD[OF within_stop[OF c]])
  have said: "keeps (spare left b k) (say m)" for m unfolding say_def by (rule spare_upd) simp
  have go: "wp (bind_act (get_act budget_notice_sent) (\<lambda>sent. seq_act (when_act (x \<and> \<not> sent) (seq_act (say m) (upd_act (\<lambda>s. s\<lparr>budget_notice_sent := True\<rparr>))))
      (if y then bind_act (incomplete_todos sv) (\<lambda>ts. seq_act (say (g ts)) (ret (False, True))) else ret (False, False)))) ?Q ?E t"
    if "spare left b k t" for x y m g t
  proof -
    have "keeps (spare left b k) (bind_act (get_act budget_notice_sent) (\<lambda>sent. seq_act (when_act (x \<and> \<not> sent) (seq_act (say m) (upd_act (\<lambda>s. s\<lparr>budget_notice_sent := True\<rparr>))))
      (if y then bind_act (incomplete_todos sv) (\<lambda>ts. seq_act (say (g ts)) (ret (False, True))) else ret (False, False))))"
      unfolding incomplete_todos_def using c by (intro keeps_bind keeps_get keeps_seq keeps_when keeps_if keeps_ret said spare_upd spare_services) simp_all
    from keeps_wp[OF this that] show ?thesis by (rule wp_mono) auto
  qed
  show ?thesis unfolding budget_guard_def wp_bind
    by (rule wp_mono[OF told]) (auto intro!: over go[of _ _ _ True, unfolded if_True] go[of _ _ _ False, unfolded if_False] simp: wp_bind[symmetric])
qed

text \<open>\<open>with_retry\<close> calls the model at least once.\<close>

lemma attempts_positive:
  assumes "with_retry fn fallback n st = (ended, st', sleeps)" "0 < n"
  shows "0 < attempts_made ended sleeps"
proof -
  have longer: "length sl \<le> length sleeps" if "retry_loop fn fallback k m st sl = (ended, st', sleeps)" for k m st sl
    using that by (induction fn fallback k m st sl rule: retry_loop.induct) (fastforce split: sum.splits if_splits)+
  obtain m where m: "n = Suc m" using assms(2) by (cases n) auto
  show ?thesis using assms(1) unfolding with_retry_def m attempts_made_def
    by (auto split: sum.splits if_splits retry_end.split dest!: longer)
qed

lemma call_spends:
  assumes c: "counts_calls left sv" and cfg: "0 < ac_max_retries cfg" and s: "spare left b k s"
  shows "wp (call_llm cfg sv tools) (\<lambda>_. calls_within left b (k - 1)) (\<lambda>_. calls_within left b k) s"
proof -
  have drop: "left (sv_created sv n w) < left w" if "0 < n" "0 < left w" for n w using c that by (simp add: counts_calls_def)
  show ?thesis unfolding call_llm_def wp_seq
    apply (rule keepsD[OF spare_deadline[OF c] s])
     apply (clarsimp simp: wp_def split: prod.split)
     apply (frule attempts_positive[OF _ cfg])
     apply (drule (1) drop)
     apply (simp add: calls_within_def)
    apply simp
    done
qed

lemma turn_spends:
  assumes c: "counts_calls left sv" and cfg: "0 < ac_max_retries cfg" and s: "calls_within left b k s"
  shows "wp (agent_turn cfg sv) (\<lambda>go. calls_within left b (if go then k - 1 else k)) (\<lambda>_. calls_within left b k) s"
proof -
  let ?Q = "\<lambda>go. calls_within left b (if go then k - 1 else k)" and ?E = "\<lambda>_. calls_within left b k"
  have less: "calls_within left b (k - 1) t \<Longrightarrow> calls_within left b k t" for t by (simp add: calls_within_def)
  have handled: "wp (case out of Inl e \<Rightarrow> handle_error sv e | Inr r \<Rightarrow> handle_reply cfg sv hs last_call r) ?Q ?E t"
    if "calls_within left b (k - 1) t" for out hs last_call t
    using that by (cases out; simp only: sum.case) (auto intro!: keepsD[OF within_error[OF c]] keepsD[OF within_reply[OF c]] simp: less)
  have called: "wp (seq_act (upd_act (\<lambda>s. s\<lparr>msgs := ms\<rparr>)) (bind_act (call_llm cfg sv ts) (\<lambda>out. case out of Inl e \<Rightarrow> handle_error sv e
      | Inr r \<Rightarrow> handle_reply cfg sv hs last_call r))) ?Q ?E t" if "spare left b k t" for ms ts hs last_call t
    unfolding wp_seq wp_upd wp_bind
    by (rule wp_mono[OF call_spends[OF c cfg]]) (use that in \<open>auto simp: calls_within_def[of _ _ _ "t\<lparr>msgs := ms\<rparr>"] calls_within_def[of _ _ _ t] intro!: handled\<close>)
  have prepared: "wp (bind_act (ask (sv_tools sv)) (\<lambda>(offered, hs). bind_act (get_act msgs) (\<lambda>ms. bind_act (ask (sv_prepare sv ms offered)) (\<lambda>ms'.
      seq_act (upd_act (\<lambda>s. s\<lparr>msgs := ms'\<rparr>)) (bind_act (call_llm cfg sv (if last_call then [] else offered)) (\<lambda>out. case out of Inl e \<Rightarrow> handle_error sv e
      | Inr r \<Rightarrow> handle_reply cfg sv hs last_call r)))))) ?Q ?E t" if "spare left b k t" for last_call t
    unfolding wp_bind[where m = "ask m" for m]
    by (rule keepsD[OF spare_services(4)[OF c] that])
       (auto simp: wp_bind[where m = "get_act f" for f] wp_bind[where m = "ask m" for m] wp_get intro!: keepsD[OF spare_services(5)[OF c]] called)
  have guarded: "wp (bind_act (budget_guard sv) (\<lambda>(over, last_call). if over then ret False else bind_act (ask (sv_tools sv)) (\<lambda>(offered, hs).
      bind_act (get_act msgs) (\<lambda>ms. bind_act (ask (sv_prepare sv ms offered)) (\<lambda>ms'.
      seq_act (upd_act (\<lambda>s. s\<lparr>msgs := ms'\<rparr>)) (bind_act (call_llm cfg sv (if last_call then [] else offered)) (\<lambda>out. case out of Inl e \<Rightarrow> handle_error sv e
      | Inr r \<Rightarrow> handle_reply cfg sv hs last_call r))))))) ?Q ?E t" if "calls_within left b k t" for t
    unfolding wp_bind[where m = "budget_guard sv"]
    by (rule wp_mono[OF guard_spares[OF c that]]) (auto simp: wp_ret split: prod.split intro!: prepared)
  show ?thesis unfolding agent_turn_def wp_seq[where m = "check_case_deadline sv"] wp_bind[where m = "ask (sv_fired sv)"]
    by (rule keepsD[OF within_deadline[OF c] s], rule keepsD[OF within_services(7)[OF c]])
       (auto simp: wp_seq intro!: keepsD[OF within_fired, of left b k] keepsD[OF within_inject[OF c], of b k] guarded)
qed

section \<open>The run\<close>

lemma agent_turns_end:
  assumes c: "counts_calls left sv" and cfg: "0 < ac_max_retries cfg"
  shows "calls_within left b (int n) s \<Longrightarrow> \<exists>r t. agent_turns (Suc n) cfg sv s = Some (r, t) \<and> calls_within left b (int n) t"
proof (induction n arbitrary: s)
  case 0
  obtain out s' where out: "agent_turn cfg sv s = (out, s')" by fastforce
  have now: "calls_within left b (int 0) s'" and never: "out = Inr True \<Longrightarrow> left (world s') \<le> - 1"
    using turn_spends[OF c cfg 0] out by (auto simp: wp_def calls_within_def split: sum.splits if_splits)
  have "0 \<le> left (world s')" using c by (simp add: counts_calls_def)
  with never have "out \<noteq> Inr True" by auto
  with out now show ?case by (cases out) auto
next
  case (Suc n)
  obtain out s' where out: "agent_turn cfg sv s = (out, s')" by fastforce
  have now: "calls_within left b (int (Suc n)) s'" and more: "out = Inr True \<Longrightarrow> calls_within left b (int n) s'"
    using turn_spends[OF c cfg Suc.prems] out by (auto simp: wp_def calls_within_def split: sum.splits if_splits)
  have weaker: "calls_within left b (int n) t \<Longrightarrow> calls_within left b (int (Suc n)) t" for t by (simp add: calls_within_def)
  show ?case
  proof (cases "out = Inr True")
    case True
    obtain r t where rt: "agent_turns (Suc n) cfg sv s' = Some (r, t)" "calls_within left b (int n) t" using Suc.IH[OF more[OF True]] by blast
    have "agent_turns (Suc (Suc n)) cfg sv s = agent_turns (Suc n) cfg sv s'" using True out by (subst agent_turns.simps) simp
    with rt weaker show ?thesis by auto
  next
    case False
    then have "\<exists>r. agent_turns (Suc (Suc n)) cfg sv s = Some (r, s')" using out by (subst agent_turns.simps) (auto split: sum.split bool.split)
    with now show ?thesis by blast
  qed
qed

lemma agent_loop_bounded:
  assumes "counts_calls left sv" "0 < ac_max_retries cfg"
  shows "\<exists>r s. agent_loop (Suc (nat (left w))) cfg sv primary briefing w ms = Some (r, s) \<and> int (length (asked s)) \<le> left w"
proof -
  let ?s = "start_agent cfg primary briefing w ms"
  have nonneg: "0 \<le> left v" for v using assms(1) by (simp add: counts_calls_def)
  have "calls_within left (left w) (int (nat (left w))) ?s" using nonneg[of w] by (simp add: calls_within_def start_agent_def)
  from agent_turns_end[OF assms this] obtain r t where "agent_turns (Suc (nat (left w))) cfg sv ?s = Some (r, t)" "calls_within left (left w) (int (nat (left w))) t"
    by blast
  moreover from this(2) nonneg[of "world t"] have "int (length (asked t)) \<le> left w" by (simp add: calls_within_def)
  ultimately show ?thesis unfolding agent_loop_def by blast
qed

text \<open>C11: A run of the lead agent ends. If the client tells how many model calls are left, a call uses up at least one of them and only a call may
  use the last one, then the loop returns after at most that many turns and one more, and it has sent at most that many requests, whatever the
  model answers and whatever the tools do.\<close>

theorem agent_loop_within_budget:
  assumes "counts_calls left sv" "0 < ac_max_retries cfg"
  shows "\<exists>r s. agent_loop (Suc (nat (left w))) cfg sv primary briefing w ms = Some (r, s) \<and> int (length (asked s)) \<le> left w"
  by (rule agent_loop_bounded[OF assms])

end
