(* ===== verification/Agent_Context.thy ===== *)
theory Agent_Context
  imports Agent_Pairing Compact_Run
begin

text \<open>
  The compaction of \<open>Compact_Run\<close> on the conversation of the agent loop. The compaction sees it as the messages of \<open>Compact\<close>: \<open>chats\<close> numbers the
  messages, the identity of a message is its number, and what the compaction returns stands for the messages with those numbers and a new
  checkpoint. \<open>compact_messages\<close> is the compaction as a service of the loop, with the parameters it has in \<open>Compact_Run\<close>.

  Shown: in a conversation in which calls and results are paired, cutting at unit boundaries, taking out the latest instruction and moving whole
  units keep the pairing, and an open call at the end is still open or no longer mentioned.
\<close>

section \<open>The conversation as the compaction sees it\<close>

definition block_of :: "part \<Rightarrow> content_block" where
  "block_of p = (case p of P_text t \<Rightarrow> Text_block t | P_use u \<Rightarrow> Tool_use (tu_id u) | P_result i c \<Rightarrow> Tool_result i | P_other \<Rightarrow> Other_block)"

definition chat_of :: "nat \<times> turn_message \<Rightarrow> chat" where
  "chat_of x = (case x of (i, m) \<Rightarrow>
     \<lparr>uid = i, role = tm_role m, content = (case tm_body m of Said t \<Rightarrow> Plain t | Parts ps \<Rightarrow> Blocks (map block_of ps))\<rparr>)"

definition chats :: "turn_message list \<Rightarrow> chat list" where
  "chats ms = map chat_of (enum_from 0 ms)"

definition message_of :: "turn_message list \<Rightarrow> chat \<Rightarrow> turn_message" where
  "message_of ms c = (if uid c < length ms then ms ! uid c
     else \<lparr>tm_role = role c, tm_body = (case content c of Plain t \<Rightarrow> Said t | _ \<Rightarrow> Said [])\<rparr>)"

section \<open>Compaction keeps calls and results together\<close>

text \<open>A message of the view and what it stands for have the same calls and results.\<close>

definition stands :: "turn_message list \<Rightarrow> chat \<Rightarrow> bool" where
  "stands ms c \<longleftrightarrow> c \<in> set (chats ms) \<or> uid c = length ms \<and> role c = ''user'' \<and> (\<exists>t. content c = Plain t)"

lemma in_chats: "c \<in> set (chats ms) \<longleftrightarrow> (\<exists>i<length ms. c = chat_of (i, ms ! i))"
  by (force simp: chats_def enum_from_def set_zip image_iff)

lemma message_chat: "i < length ms \<Longrightarrow> message_of ms (chat_of (i, ms ! i)) = ms ! i"
  by (simp add: message_of_def chat_of_def)

lemma messages_chats: "map (message_of ms) (chats ms) = ms"
proof (rule nth_equalityI)
  show l: "length (map (message_of ms) (chats ms)) = length ms" by (simp add: chats_def enum_from_def)
  fix i assume "i < length (map (message_of ms) (chats ms))"
  then show "map (message_of ms) (chats ms) ! i = ms ! i" using l by (simp add: chats_def enum_from_def message_chat)
qed

lemma chats_distinct: "inj_on uid (set (chats ms))"
  by (auto simp: inj_on_def in_chats chat_of_def)

lemma block_kinds: "is_tool_use (block_of p) \<longleftrightarrow> uses_in [p] \<noteq> []" "is_tool_result (block_of p) \<longleftrightarrow> results_in [p] \<noteq> []"
  by (cases p; simp add: block_of_def)+

lemma some_use: "list_ex is_tool_use (map block_of ps) \<longleftrightarrow> uses_in ps \<noteq> []"
  by (induction ps rule: uses_in.induct) (auto simp: block_of_def)

lemma some_result: "list_ex is_tool_result (map block_of ps) \<longleftrightarrow> results_in ps \<noteq> []"
  by (induction ps rule: results_in.induct) (auto simp: block_of_def)

lemma use_ids: "set (concat (map use_id (map block_of ps))) = set (map tu_id (uses_in ps)) - {[]}"
  by (induction ps rule: uses_in.induct) (auto simp: block_of_def use_id_def)

lemma result_ids: "set (concat (map result_id (map block_of ps))) = set (results_in ps) - {[]}"
  by (induction ps rule: results_in.induct) (auto simp: block_of_def result_id_def)

lemma chat_uses: "message_has_tool_use (chat_of (i, m)) \<longleftrightarrow> calls_of m \<noteq> []" "tool_use_ids (chat_of (i, m)) = set (calls_of m) - {[]}"
  using some_use use_ids by (auto simp: message_has_tool_use_def tool_use_ids_def chat_of_def calls_of_def split: body.splits)

lemma chat_results: "is_tool_result_message (chat_of (i, m)) \<longleftrightarrow> tm_role m = ''user'' \<and> results_of m \<noteq> []"
  "tool_result_ids (chat_of (i, m)) = (if tm_role m = ''user'' then set (results_of m) - {[]} else {})"
  using some_result result_ids by (auto simp: is_tool_result_message_def tool_result_ids_def chat_of_def results_of_def split: body.splits)

lemma stands_calls:
  assumes "stands ms c"
  shows "message_has_tool_use c \<longleftrightarrow> calls_of (message_of ms c) \<noteq> []" "tool_use_ids c = set (calls_of (message_of ms c)) - {[]}"
    "tool_result_ids c = (if tm_role (message_of ms c) = ''user'' then set (results_of (message_of ms c)) - {[]} else {})"
    "tm_role (message_of ms c) = role c" "is_tool_result_message c \<longleftrightarrow> role c = ''user'' \<and> results_of (message_of ms c) \<noteq> []"
proof -
  have "(message_has_tool_use c \<longleftrightarrow> calls_of (message_of ms c) \<noteq> []) \<and> tool_use_ids c = set (calls_of (message_of ms c)) - {[]}
    \<and> tool_result_ids c = (if tm_role (message_of ms c) = ''user'' then set (results_of (message_of ms c)) - {[]} else {})
    \<and> tm_role (message_of ms c) = role c \<and> (is_tool_result_message c \<longleftrightarrow> role c = ''user'' \<and> results_of (message_of ms c) \<noteq> [])"
  proof (cases "c \<in> set (chats ms)")
    case True
    then obtain i where i: "i < length ms" "c = chat_of (i, ms ! i)" by (auto simp: in_chats)
    have "role (chat_of (i, ms ! i)) = tm_role (ms ! i)" by (simp add: chat_of_def)
    then show ?thesis unfolding i(2) message_chat[OF i(1)] chat_uses chat_results by simp
  next
    case False
    then obtain t where "uid c = length ms" "role c = ''user''" "content c = Plain t" using assms by (auto simp: stands_def)
    then show ?thesis
      by (simp add: message_has_tool_use_def tool_use_ids_def tool_result_ids_def is_tool_result_message_def message_of_def calls_of_def results_of_def)
  qed
  then show "message_has_tool_use c \<longleftrightarrow> calls_of (message_of ms c) \<noteq> []" "tool_use_ids c = set (calls_of (message_of ms c)) - {[]}"
    "tool_result_ids c = (if tm_role (message_of ms c) = ''user'' then set (results_of (message_of ms c)) - {[]} else {})"
    "tm_role (message_of ms c) = role c" "is_tool_result_message c \<longleftrightarrow> role c = ''user'' \<and> results_of (message_of ms c) \<noteq> []" by auto
qed

text \<open>Cutting off the first unit of a conversation leaves its open calls as they are.\<close>

lemma drop_unit:
  assumes st: "\<forall>c\<in>set cs. stands ms c" and ok: "open_after [] (map (message_of ms) cs) = Some ids"
    and us: "history_units cs = u # us" and ne: "concat us \<noteq> []"
  shows "open_after [] (map (message_of ms) (concat us)) = Some ids"
proof -
  obtain m cs' where cs: "cs = m # cs'" using us by (cases cs) auto
  show ?thesis
  proof (cases cs')
    case Nil
    then show ?thesis using us ne cs by simp
  next
    case (Cons f rest)
    have m: "stands ms m" and f: "stands ms f" using st cs Cons by auto
    show ?thesis
    proof (cases "answers m f")
      case True
      then have "concat us = rest" using us cs Cons concat_units[of rest] by simp
      moreover have "role f = ''user''" using True stands_calls(3,4)[OF f] by (auto simp: answers_def split: if_splits)
      ultimately show ?thesis using ok cs Cons stands_calls(4)[OF f] by (auto simp: calls_of_def split: if_splits)
    next
      case False
      then have c: "concat us = f # rest" using us cs Cons concat_units[of "f # rest"] by simp
      have "calls_of (message_of ms m) = []"
      proof (rule ccontr)
        assume calls: "calls_of (message_of ms m) \<noteq> []"
        with ok cs Cons have "results_of (message_of ms f) = calls_of (message_of ms m)" "tm_role (message_of ms f) = ''user''"
          "[] \<notin> set (calls_of (message_of ms m))" by (auto split: if_splits)
        with calls have "answers m f" using stands_calls[OF m] stands_calls[OF f] by (auto simp: answers_def)
        with False show False by simp
      qed
      then show ?thesis using ok cs Cons c by (auto split: if_splits)
    qed
  qed
qed

text \<open>So does taking out a message without calls and results.\<close>

lemma open_after_filter:
  assumes "\<forall>c\<in>set cs. \<not> P c \<longrightarrow> calls_of (f c) = [] \<and> results_of (f c) = []" "open_after ids (map f cs) = Some k"
  shows "open_after ids (map f (filter P cs)) = Some k"
  using assms by (induction cs arbitrary: ids) (auto split: if_splits)

definition ends_with :: "turn_message list \<Rightarrow> string list \<Rightarrow> chat list \<Rightarrow> bool" where
  "ends_with ms ids cs \<longleftrightarrow> (\<forall>c\<in>set cs. stands ms c) \<and> (cs = [] \<or> open_after [] (map (message_of ms) cs) = Some ids)"

lemma ends_drop_unit: "ends_with ms ids cs \<Longrightarrow> history_units cs = u # us \<Longrightarrow> ends_with ms ids (concat us)"
  using drop_unit[of cs ms ids u us] first_unit[of cs u us] by (auto simp: ends_with_def)

lemma units_of_rest: "history_units cs = u # us \<Longrightarrow> history_units (concat us) = us"
  by (cases cs rule: history_units.cases) (auto simp: concat_units split: if_splits)

lemma ends_drop_units: "ends_with ms ids cs \<Longrightarrow> ends_with ms ids (concat (drop k (history_units cs)))"
proof (induction k arbitrary: cs)
  case 0
  then show ?case by (simp add: concat_units)
next
  case (Suc k)
  show ?case
  proof (cases "history_units cs")
    case Nil
    then show ?thesis by (simp add: ends_with_def)
  next
    case (Cons u us)
    have "history_units (concat us) = us" using Cons units_of_rest by blast
    with Suc.IH[OF ends_drop_unit[OF Suc.prems Cons]] Cons show ?thesis by simp
  qed
qed

lemma ends_filter:
  assumes "ends_with ms ids cs" "\<forall>c\<in>set cs. \<not> P c \<longrightarrow> calls_of (message_of ms c) = [] \<and> results_of (message_of ms c) = []"
  shows "ends_with ms ids (filter P cs)"
  using assms open_after_filter[OF assms(2), of "[]" ids] by (cases "cs = []") (simp_all add: ends_with_def)

lemma ends_shrink: "ends_with ms ids tail \<Longrightarrow> shrink_tail fits prot prefix tail = (b, prefix', tail') \<Longrightarrow> ends_with ms ids tail'"
proof (induction fits prot prefix tail rule: shrink_tail.induct)
  case (1 fits prot prefix tail)
  show ?case
  proof (cases "fits tail")
    case True
    then show ?thesis using 1(2,3) by (simp add: shrink_tail.simps)
  next
    case False
    show ?thesis
    proof (cases "history_units tail")
      case Nil
      then show ?thesis using 1(2,3) False by (simp add: shrink_tail.simps)
    next
      case (Cons u us)
      with False 1(3) have "(if prot \<noteq> {} \<and> unit_tool_use_ids u = prot then (False, prefix, tail) else shrink_tail fits prot (prefix @ u) (concat us)) = (b, prefix', tail')"
        by (subst (asm) shrink_tail.simps) simp
      then show ?thesis using 1(1)[OF False Cons _ ends_drop_unit[OF 1(2) Cons]] 1(2) by (auto split: if_splits)
    qed
  qed
qed

text \<open>The latest instruction has neither calls nor results.\<close>

lemma latest_plain:
  assumes "latest_user_message (chats ms) = Some l"
  shows "stands ms l" "role l = ''user''" "calls_of (message_of ms l) = []" "results_of (message_of ms l) = []"
proof -
  have l: "l \<in> set (chats ms)" "is_user_instruction l" using latest_is_user[OF assms] by auto
  then show st: "stands ms l" by (simp add: stands_def)
  have u: "role l = ''user''" "\<not> is_tool_result_message l" using l(2) by (auto simp: is_user_instruction_def split: if_splits)
  then show "role l = ''user''" "results_of (message_of ms l) = []" using stands_calls(5)[OF st] by auto
  show "calls_of (message_of ms l) = []" using u(1) stands_calls(4)[OF st] by (simp add: calls_of_def)
qed

lemma ends_selected:
  assumes "awaits ids ms"
  shows "ends_with ms ids (sel_tail (select_prefix_and_recent_tail msize (chats ms)))"
proof -
  let ?cs = "chats ms" and ?l = "latest_user_message (chats ms)"
  have all: "ends_with ms ids ?cs" using assms by (simp add: ends_with_def stands_def messages_chats awaits_def)
  have plain: "calls_of (message_of ms c) = [] \<and> results_of (message_of ms c) = []" if c: "c \<in> set ?cs" "is_latest ?l c" for c
  proof -
    obtain l where l: "?l = Some l" "uid c = uid l" using c(2) by (auto simp: is_latest_def split: option.splits)
    then have "c = l" using chats_distinct[of ms] c(1) latest_is_user[OF l(1)] by (auto dest: inj_onD)
    with latest_plain[OF l(1)] show ?thesis by simp
  qed
  have "ends_with ms ids (filter (\<lambda>m. \<not> is_latest ?l m) (concat (drop k (history_units ?cs))))" for k
  proof -
    let ?t = "concat (drop k (history_units ?cs))"
    have t: "ends_with ms ids ?t" by (rule ends_drop_units[OF all])
    have "set ?t \<subseteq> set ?cs" using cut_append[of k ?cs] by (metis Un_upper2 set_append)
    with plain show ?thesis by (intro ends_filter[OF t]) auto
  qed
  then show ?thesis using all by (auto simp: select_prefix_and_recent_tail_def Let_def)
qed

text \<open>What \<open>compact\<close> makes of a conversation with open calls: either they are still open, or the conversation mentions no such call.\<close>

lemma awaits_mentions: "awaits [i] ms \<Longrightarrow> mentions_call i ms"
proof -
  assume a: "awaits [i] ms"
  obtain ms' m where ms: "ms = ms' @ [m]" using a by (cases ms rule: rev_cases) (auto simp: awaits_def)
  have "calls_of m = [i]" using a unfolding ms by (auto simp: awaits_def open_after_append split: option.splits if_splits)
  then show "mentions_call i ms" unfolding ms by (auto simp: mentions_call_def calls_of_def split: if_splits body.splits)
qed

lemma compact_awaits:
  assumes run: "compact cfg env reason target force allow (chats ms) w = (result, w')" and fresh: "fresh_uid env = length ms" and aw: "awaits ids ms"
  shows "map (message_of ms) result = ms \<or> awaits ids (map (message_of ms) result)
    \<or> awaits [] (map (message_of ms) result) \<and> (\<forall>i. \<not> mentions_call i (map (message_of ms) result))"
proof (cases "result = chats ms")
  case True
  then show ?thesis by (simp add: messages_chats)
next
  case False
  let ?l = "latest_user_message (chats ms)"
  from False compact_cases[OF run] obtain prefix tail summary where c: "compacted cfg env target (chats ms) prefix tail summary"
    and r: "result = assemble_compacted_history (fresh_uid env) summary tail ?l" by blast
  have tail: "ends_with ms ids tail"
    using c ends_shrink[OF ends_selected[OF aw]] by (auto simp: compacted_def Let_def)
  define head where "head = checkpoint_message (fresh_uid env) summary # (case ?l of None \<Rightarrow> [] | Some m \<Rightarrow> [m])"
  have point: "message_of ms (checkpoint_message (fresh_uid env) summary) = user_says (CONTEXT_CHECKPOINT_MARKER @ [CHR 0x0A] @ py_strip summary)"
    by (simp add: message_of_def checkpoint_message_def fresh user_says_def)
  have head: "open_after [] (map (message_of ms) head) = Some []" "\<forall>m\<in>set (map (message_of ms) head). tm_role m = ''user''"
    using point latest_plain[of ms] stands_calls(4) by (auto simp: head_def split: option.splits)
  have res: "result = head @ tail" by (simp add: r head_def assemble_compacted_history_def)
  show ?thesis
  proof (cases "tail = []")
    case True
    have "\<not> mentions_call i (map (message_of ms) head)" for i using head(2) by (auto simp: mentions_call_def list_ex_iff)
    then show ?thesis using True head(1) by (simp add: res awaits_def)
  next
    case False
    then have "awaits ids (map (message_of ms) result)" using tail head(1) by (simp add: res ends_with_def awaits_def open_after_append)
    then show ?thesis by blast
  qed
qed

section \<open>Compaction as a service\<close>

text \<open>Where the state of the compaction is kept, its configuration, its calls (which may look at the conversation and the state), and the target.\<close>

record 'w compaction =
  cp_get :: "'w \<Rightarrow> compact_state"
  cp_put :: "compact_state \<Rightarrow> 'w \<Rightarrow> 'w"
  cp_cfg :: compact_config
  cp_calls :: "'w \<Rightarrow> turn_message list \<Rightarrow> compact_calls"
  cp_target :: int

definition compact_messages :: "'w compaction \<Rightarrow> string \<Rightarrow> turn_message list \<Rightarrow> ('w, turn_message list) act" where
  "compact_messages kc reason ms = (\<lambda>w.
     let env = (cp_calls kc w ms)\<lparr>fresh_uid := length ms\<rparr> in
     case (if reason = ''reactive'' then reactive_compact (cp_cfg kc) env (Some (cp_target kc)) (chats ms) (cp_get kc w)
           else compact_history (cp_cfg kc) env reason (Some (cp_target kc)) None (chats ms) (cp_get kc w)) of
       (result, st) \<Rightarrow> (Inr (map (message_of ms) result), cp_put kc st w))"

lemma compact_messages_awaits:
  assumes "awaits ids ms"
  shows "wp (compact_messages kc reason ms) (\<lambda>ms' _. awaits ids ms' \<or> awaits [] ms' \<and> (\<forall>i. \<not> mentions_call i ms')) (\<lambda>_ _. True) w"
proof -
  let ?env = "(cp_calls kc w ms)\<lparr>fresh_uid := length ms\<rparr>"
  have fresh: "fresh_uid ?env = length ms" by simp
  have "awaits ids (map (message_of ms) result) \<or> awaits [] (map (message_of ms) result) \<and> (\<forall>i. \<not> mentions_call i (map (message_of ms) result))"
    if "compact (cp_cfg kc) ?env why target force allow (chats ms) st = (result, st')" for why target force allow st result st'
    using compact_awaits[OF that fresh assms] assms by auto
  then show ?thesis
    by (auto simp: wp_def compact_messages_def Let_def reactive_compact_def compact_history_def split: prod.split if_splits)
qed

lemma compact_messages_paired: "paired ms \<Longrightarrow> wp (compact_messages kc reason ms) (\<lambda>ms' _. paired ms') (\<lambda>_ _. True) w"
  using compact_messages_awaits[of "[]" ms kc reason w] unfolding paired_def by (rule wp_mono) auto

end
