(* ===== verification/Agent_Prepare.thy ===== *)
theory Agent_Prepare
  imports Agent_Context
begin

text \<open>
  \<open>prepare_context\<close> of \<open>agent_loop.py\<close>: what happens to the conversation before a request. Below the trigger nothing; otherwise a compaction, a second one at
  the hard limit, and then long tool results are moved to files, oldest first and the newest batch last, until the request fits or
  nothing is left to move, which is an error.

  Parameters are the size of a request in tokens, the store for a result (the path it has and the lines that describe it), its digest, its number of lines and
  JSON text. If a store raises, the results moved so far in the same batch are not kept by the model.

  Shown: the moving ends; what is returned fits; calls and results stay paired. With \<open>Agent_Context\<close>, the laws that the turn loop relies on are
  theorems about its own code.
\<close>

section \<open>Moving a result to a file\<close>

record 'w context_env =
  cx_tokens :: "'w \<Rightarrow> turn_message list \<Rightarrow> string list \<Rightarrow> int"
  cx_trigger :: int
  cx_limit :: int
  cx_store :: "tool_use \<Rightarrow> string \<Rightarrow> ('w, string \<times> string list) act"
  cx_digest :: "string \<Rightarrow> string"
  cx_lines :: "string \<Rightarrow> nat"
  cx_json :: "string \<Rightarrow> string"

definition TOOL_RESULT_PREVIEW_CHARS :: nat where
  "TOOL_RESULT_PREVIEW_CHARS = 4000"

definition TOOL_RESULT_REFERENCE_OVERHEAD_CHARS :: nat where
  "TOOL_RESULT_REFERENCE_OVERHEAD_CHARS = 2000"

definition EXTERNALIZED :: string where
  "EXTERNALIZED = ''[Tool result externalized]'' @ NL"

definition head_tail_preview :: "string \<Rightarrow> string \<times> string" where
  "head_tail_preview output = (take TOOL_RESULT_PREVIEW_CHARS output, drop (length output - TOOL_RESULT_PREVIEW_CHARS) output)"

definition externalized_result_text :: "'w context_env \<Rightarrow> string \<Rightarrow> string \<Rightarrow> string \<Rightarrow> string list \<Rightarrow> string" where
  "externalized_result_text cx tool_name output backing_path details =
     (case head_tail_preview output of (first, final) \<Rightarrow>
      EXTERNALIZED @ ''externalized: true'' @ NL @ ''incomplete: true'' @ NL @ ''tool: '' @ tool_name @ NL
      @ ''backing_path: '' @ cx_json cx backing_path @ NL @ ''original_chars: '' @ nat_str (length output) @ NL
      @ ''original_lines: '' @ nat_str (cx_lines cx output) @ NL
      @ ''original_estimated_tokens: '' @ int_str (estimate_context_tokens (int (length output))) @ NL
      @ ''digest: '' @ cx_digest cx output @ NL @ py_join NL details @ NL
      @ ''--- head preview ---'' @ NL @ first @ NL @ ''--- tail preview ---'' @ NL @ final @ NL @ ''--- end incomplete preview ---'' @ NL
      @ ''The preview is incomplete. Read exact ranges with read_file(path='' @ cx_json cx backing_path
      @ '', offset=<line>, limit=<count>), or locate text with bash rg -n <pattern> '' @ cx_json cx backing_path @ ''.'')"

definition movable :: "string \<Rightarrow> bool" where
  "movable c = (\<not> py_startswith c EXTERNALIZED \<and> \<not> length c \<le> 2 * TOOL_RESULT_PREVIEW_CHARS + TOOL_RESULT_REFERENCE_OVERHEAD_CHARS)"

text \<open>\<open>_externalize_result_block\<close> on a result and the call it answers.\<close>

definition externalize_result_block :: "'w context_env \<Rightarrow> string \<Rightarrow> string \<Rightarrow> tool_use \<Rightarrow> ('w, part option) act" where
  "externalize_result_block cx i c u =
     (if \<not> movable c then ret None
      else bind_act (cx_store cx u c) (\<lambda>(backing_path, details).
        ret (Some (P_result i (externalized_result_text cx (tu_name u) c backing_path details)))))"

text \<open>\<open>uses.get(tool_use_id)\<close>: the last call with that id, if it is not empty.\<close>

definition use_with_id :: "tool_use list \<Rightarrow> string \<Rightarrow> tool_use option" where
  "use_with_id us i = find (\<lambda>u. tu_id u = i \<and> i \<noteq> []) (rev us)"

definition externalize_part :: "'w context_env \<Rightarrow> tool_use list \<Rightarrow> part \<Rightarrow> ('w, part option) act" where
  "externalize_part cx us p = (case p of
     P_result i c \<Rightarrow> (case use_with_id us i of None \<Rightarrow> ret None | Some u \<Rightarrow> externalize_result_block cx i c u)
   | _ \<Rightarrow> ret None)"

fun externalize_first :: "'w context_env \<Rightarrow> tool_use list \<Rightarrow> part list \<Rightarrow> ('w, part list option) act" where
  "externalize_first cx us [] = ret None"
| "externalize_first cx us (p # ps) = bind_act (externalize_part cx us p) (\<lambda>r. case r of
     Some p' \<Rightarrow> ret (Some (p' # ps))
   | None \<Rightarrow> bind_act (externalize_first cx us ps) (\<lambda>r. ret (map_option ((#) p) r)))"

fun externalize_all :: "'w context_env \<Rightarrow> tool_use list \<Rightarrow> part list \<Rightarrow> ('w, nat \<times> part list) act" where
  "externalize_all cx us [] = ret (0, [])"
| "externalize_all cx us (p # ps) = bind_act (externalize_part cx us p) (\<lambda>r.
     bind_act (externalize_all cx us ps) (\<lambda>(n, ps'). ret (case r of Some p' \<Rightarrow> (Suc n, p' # ps') | None \<Rightarrow> (n, p # ps'))))"

section \<open>Which result\<close>

definition is_assistant :: "turn_message \<Rightarrow> bool" where
  "is_assistant m = (tm_role m = ''assistant'')"

text \<open>\<open>message_has_tool_use\<close> and \<open>is_tool_result_message\<close> on a message and the one after it.\<close>

definition exchange :: "turn_message \<Rightarrow> turn_message \<Rightarrow> bool" where
  "exchange m f = (calls_of m \<noteq> [] \<and> tm_role f = ''user'' \<and> results_of f \<noteq> [])"

definition uses_of :: "turn_message \<Rightarrow> tool_use list" where
  "uses_of m = uses_in (body_parts (tm_body m))"

definition with_parts :: "turn_message \<Rightarrow> part list \<Rightarrow> turn_message" where
  "with_parts m ps = m\<lparr>tm_body := Parts ps\<rparr>"

fun externalize_oldest :: "'w context_env \<Rightarrow> turn_message list \<Rightarrow> ('w, turn_message list option) act" where
  "externalize_oldest cx (m # f # rest) =
     bind_act (if list_ex is_assistant (f # rest) \<and> exchange m f then externalize_first cx (uses_of m) (body_parts (tm_body f)) else ret None) (\<lambda>r. case r of
         Some ps \<Rightarrow> ret (Some (m # with_parts f ps # rest))
       | None \<Rightarrow> bind_act (externalize_oldest cx (f # rest)) (\<lambda>r. ret (map_option ((#) m) r)))"
| "externalize_oldest cx ms = ret None"

fun externalize_newest :: "'w context_env \<Rightarrow> turn_message list \<Rightarrow> ('w, nat \<times> turn_message list) act" where
  "externalize_newest cx (m # f # rest) =
     (if list_ex is_assistant (f # rest) then bind_act (externalize_newest cx (f # rest)) (\<lambda>(n, ms). ret (n, m # ms))
      else if is_assistant m \<and> exchange m f \<and> set (map tu_id (uses_of m)) - {[]} \<noteq> {} \<and> set (results_of f) = set (map tu_id (uses_of m)) - {[]}
      then bind_act (externalize_all cx (uses_of m) (body_parts (tm_body f))) (\<lambda>(n, ps). ret (n, m # with_parts f ps # rest))
      else ret (0, m # f # rest))"
| "externalize_newest cx ms = ret (0, ms)"

definition externalize_step :: "'w context_env \<Rightarrow> turn_message list \<Rightarrow> ('w, nat \<times> turn_message list) act" where
  "externalize_step cx ms = bind_act (externalize_oldest cx ms) (\<lambda>r. case r of Some ms' \<Rightarrow> ret (1, ms') | None \<Rightarrow> externalize_newest cx ms)"

section \<open>A step moves something or changes nothing\<close>

definition movable_part :: "part \<Rightarrow> bool" where
  "movable_part p = (case p of P_result i c \<Rightarrow> movable c | _ \<Rightarrow> False)"

definition long_parts :: "part list \<Rightarrow> nat" where
  "long_parts ps = length (filter movable_part ps)"

definition long_results :: "turn_message list \<Rightarrow> nat" where
  "long_results ms = sum_list (map (\<lambda>m. long_parts (body_parts (tm_body m))) ms)"

lemma long_Cons: "long_parts (p # ps) = (if movable_part p then 1 else 0) + long_parts ps"
  by (simp add: long_parts_def)

text \<open>Parts with the same calls and results.\<close>

definition like_parts :: "part list \<Rightarrow> part list \<Rightarrow> bool" where
  "like_parts ps ps' \<longleftrightarrow> results_in ps' = results_in ps \<and> uses_in ps' = uses_in ps"

definition like_message :: "turn_message \<Rightarrow> turn_message \<Rightarrow> bool" where
  "like_message m m' \<longleftrightarrow> tm_role m' = tm_role m \<and> like_parts (body_parts (tm_body m)) (body_parts (tm_body m'))"

lemma like_refl [simp]: "like_parts ps ps" "like_message m m" "list_all2 like_message ms ms"
  by (simp_all add: like_parts_def like_message_def list_all2_same)

lemma like_with_parts: "like_parts (body_parts (tm_body f)) ps \<Longrightarrow> like_message f (with_parts f ps)"
  by (simp add: like_message_def with_parts_def)

definition like_part :: "part \<Rightarrow> part \<Rightarrow> bool" where
  "like_part p p' = like_parts [p] [p']"

lemma like_part_refl [simp]: "like_part p p"
  by (simp add: like_part_def)

lemma like_Cons: "like_part p p' \<Longrightarrow> like_parts ps ps' \<Longrightarrow> like_parts (p # ps) (p' # ps')"
  by (cases p; cases p') (simp_all add: like_parts_def like_part_def)

lemma like_open: "list_all2 like_message ms ms' \<Longrightarrow> open_after ids ms' = open_after ids ms"
proof (induction ms ms' arbitrary: ids rule: list_all2_induct)
  case (Cons m ms m' ms')
  have "results_of m' = results_of m" "calls_of m' = calls_of m" "tm_role m' = tm_role m"
    using Cons(1) by (simp_all add: like_message_def like_parts_def results_of_def calls_of_def)
  with Cons(3) show ?case by auto
qed simp

lemma moved_text: "\<not> movable (externalized_result_text cx nm out bp details)"
  by (simp add: movable_def externalized_result_text_def head_tail_preview_def py_startswith_def)

lemma part_moved: "wp (externalize_part cx us p) (\<lambda>r _. \<forall>p'. r = Some p' \<longrightarrow> like_part p p' \<and> movable_part p \<and> \<not> movable_part p') (\<lambda>_ _. True) w"
proof (cases p)
  case (P_result i c)
  show ?thesis
  proof (cases "\<exists>u. use_with_id us i = Some u \<and> movable c")
    case True
    then obtain u where u: "use_with_id us i = Some u" "movable c" by blast
    have "externalize_part cx us p = bind_act (cx_store cx u c) (\<lambda>(bp, details). ret (Some (P_result i (externalized_result_text cx (tu_name u) c bp details))))"
      using u by (simp add: P_result externalize_part_def externalize_result_block_def)
    then show ?thesis
      by (simp add: wp_bind) (rule wp_any, auto simp: wp_ret P_result like_part_def like_parts_def movable_part_def moved_text u(2))
  next
    case False
    then have "externalize_part cx us p = ret None"
      by (auto simp: P_result externalize_part_def externalize_result_block_def split: option.split)
    then show ?thesis by (simp add: wp_ret)
  qed
qed (simp_all add: externalize_part_def wp_ret)

lemma first_moved:
  "wp (externalize_first cx us ps) (\<lambda>r _. \<forall>ps'. r = Some ps' \<longrightarrow> like_parts ps ps' \<and> long_parts ps' < long_parts ps) (\<lambda>_ _. True) w"
proof (induction ps arbitrary: w)
  case (Cons p ps)
  have rest: "wp (bind_act (externalize_first cx us ps) (\<lambda>r. ret (map_option ((#) p) r)))
      (\<lambda>r _. \<forall>ps'. r = Some ps' \<longrightarrow> like_parts (p # ps) ps' \<and> long_parts ps' < long_parts (p # ps)) (\<lambda>_ _. True) v" for v
    unfolding wp_bind by (rule wp_mono[OF Cons.IH]) (auto simp: wp_ret long_Cons intro: like_Cons)
  show ?case unfolding externalize_first.simps wp_bind[where m = "externalize_part cx us p"]
  proof (rule wp_mono[OF part_moved])
    fix r v assume r: "\<forall>p'. r = Some p' \<longrightarrow> like_part p p' \<and> movable_part p \<and> \<not> movable_part p'"
    show "wp (case r of Some p' \<Rightarrow> ret (Some (p' # ps)) | None \<Rightarrow> bind_act (externalize_first cx us ps) (\<lambda>r. ret (map_option ((#) p) r)))
        (\<lambda>r _. \<forall>ps'. r = Some ps' \<longrightarrow> like_parts (p # ps) ps' \<and> long_parts ps' < long_parts (p # ps)) (\<lambda>_ _. True) v"
    proof (cases r)
      case None
      then show ?thesis by (simp only: option.case) (rule rest)
    next
      case (Some p')
      with r show ?thesis by (auto simp: wp_ret long_Cons intro!: like_Cons)
    qed
  qed simp
qed (simp add: wp_ret)

lemma all_moved:
  "wp (externalize_all cx us ps) (\<lambda>r _. like_parts ps (snd r) \<and> long_parts (snd r) + fst r \<le> long_parts ps) (\<lambda>_ _. True) w"
proof (induction ps arbitrary: w)
  case (Cons p ps)
  show ?case unfolding externalize_all.simps wp_bind
  proof (rule wp_mono[OF part_moved])
    fix r v assume r: "\<forall>p'. r = Some p' \<longrightarrow> like_part p p' \<and> movable_part p \<and> \<not> movable_part p'"
    show "wp (externalize_all cx us ps) (\<lambda>a. wp (case a of (n, ps') \<Rightarrow> ret (case r of Some p' \<Rightarrow> (Suc n, p' # ps') | None \<Rightarrow> (n, p # ps')))
        (\<lambda>r _. like_parts (p # ps) (snd r) \<and> long_parts (snd r) + fst r \<le> long_parts (p # ps)) (\<lambda>_ _. True)) (\<lambda>_ _. True) v"
      by (rule wp_mono[OF Cons.IH]) (use r in \<open>auto simp: wp_ret long_Cons split: option.split intro!: like_Cons\<close>)
  qed simp
qed (simp add: wp_ret)

lemma oldest_moved:
  "wp (externalize_oldest cx ms) (\<lambda>r _. \<forall>ms'. r = Some ms' \<longrightarrow> list_all2 like_message ms ms' \<and> long_results ms' < long_results ms) (\<lambda>_ _. True) w"
proof (induction cx ms arbitrary: w rule: externalize_oldest.induct)
  case (1 cx m f rest)
  have rest: "wp (bind_act (externalize_oldest cx (f # rest)) (\<lambda>r. ret (map_option ((#) m) r)))
      (\<lambda>r _. \<forall>ms'. r = Some ms' \<longrightarrow> list_all2 like_message (m # f # rest) ms' \<and> long_results ms' < long_results (m # f # rest)) (\<lambda>_ _. True) v" for v
    unfolding wp_bind by (rule wp_mono[OF 1]) (auto simp: wp_ret long_results_def)
  have found: "wp (if list_ex is_assistant (f # rest) \<and> exchange m f then externalize_first cx (uses_of m) (body_parts (tm_body f)) else ret None)
      (\<lambda>r _. \<forall>ps'. r = Some ps' \<longrightarrow> like_parts (body_parts (tm_body f)) ps' \<and> long_parts ps' < long_parts (body_parts (tm_body f))) (\<lambda>_ _. True) w"
    by (simp add: wp_ret first_moved)
  show ?case unfolding externalize_oldest.simps wp_bind[where f = "case_option x y" for x y]
  proof (rule wp_mono[OF found])
    fix r v assume r: "\<forall>ps'. r = Some ps' \<longrightarrow> like_parts (body_parts (tm_body f)) ps' \<and> long_parts ps' < long_parts (body_parts (tm_body f))"
    show "wp (case r of Some ps \<Rightarrow> ret (Some (m # with_parts f ps # rest)) | None \<Rightarrow> bind_act (externalize_oldest cx (f # rest)) (\<lambda>r. ret (map_option ((#) m) r)))
      (\<lambda>r _. \<forall>ms'. r = Some ms' \<longrightarrow> list_all2 like_message (m # f # rest) ms' \<and> long_results ms' < long_results (m # f # rest)) (\<lambda>_ _. True) v"
    proof (cases r)
      case None
      then show ?thesis by (simp only: option.case) (rule rest)
    next
      case (Some ps)
      with r like_with_parts[of f ps] show ?thesis by (simp add: wp_ret long_results_def with_parts_def)
    qed
  qed simp
qed (simp_all add: wp_ret)

lemma newest_moved:
  "wp (externalize_newest cx ms) (\<lambda>r _. list_all2 like_message ms (snd r) \<and> long_results (snd r) + fst r \<le> long_results ms) (\<lambda>_ _. True) w"
proof (induction cx ms arbitrary: w rule: externalize_newest.induct)
  case (1 cx m f rest)
  have later: "wp (bind_act (externalize_newest cx (f # rest)) (\<lambda>(n, ms). ret (n, m # ms)))
      (\<lambda>r _. list_all2 like_message (m # f # rest) (snd r) \<and> long_results (snd r) + fst r \<le> long_results (m # f # rest)) (\<lambda>_ _. True) w"
    if "list_ex is_assistant (f # rest)"
    unfolding wp_bind by (rule wp_mono[OF 1[OF that]]) (auto simp: wp_ret long_results_def)
  have here: "wp (bind_act (externalize_all cx (uses_of m) (body_parts (tm_body f))) (\<lambda>(n, ps). ret (n, m # with_parts f ps # rest)))
      (\<lambda>r _. list_all2 like_message (m # f # rest) (snd r) \<and> long_results (snd r) + fst r \<le> long_results (m # f # rest)) (\<lambda>_ _. True) w"
    unfolding wp_bind by (rule wp_mono[OF all_moved])
      (auto simp: wp_ret long_results_def with_parts_def intro: like_with_parts[unfolded with_parts_def])
  show ?case using later here by (simp add: wp_ret)
qed (simp_all add: wp_ret)

lemma step_moved:
  "wp (externalize_step cx ms) (\<lambda>r _. list_all2 like_message ms (snd r) \<and> long_results (snd r) + min 1 (fst r) \<le> long_results ms) (\<lambda>_ _. True) w"
proof -
  have newest: "wp (externalize_newest cx ms) (\<lambda>r _. list_all2 like_message ms (snd r) \<and> long_results (snd r) + min 1 (fst r) \<le> long_results ms) (\<lambda>_ _. True) v" for v
    by (rule wp_mono[OF newest_moved]) auto
  show ?thesis unfolding externalize_step_def wp_bind
    by (rule wp_mono[OF oldest_moved]) (auto split: option.split simp: wp_ret intro: newest[unfolded One_nat_def])
qed

section \<open>Until the request fits\<close>

lemma step_shrinks: "externalize_step cx ms w = (Inr (n, ms'), w') \<Longrightarrow> n \<noteq> 0 \<Longrightarrow> long_results ms' < long_results ms"
  using step_moved[of cx ms w] by (auto simp: wp_def)

function externalize_loop :: "'w context_env \<Rightarrow> string list \<Rightarrow> turn_message list \<Rightarrow> ('w, turn_message list) act" where
  "externalize_loop cx tools ms w =
     (if cx_tokens cx w ms tools < cx_limit cx then (Inr ms, w)
      else case externalize_step cx ms w of
        (Inl e, w') \<Rightarrow> (Inl e, w')
      | (Inr (n, ms'), w') \<Rightarrow> if n = 0 then (Inr ms', w') else externalize_loop cx tools ms' w')"
  by pat_completeness auto

termination
  by (relation "measure (\<lambda>(cx, tools, ms, w). long_results ms)") (auto dest: step_shrinks[OF sym])

declare externalize_loop.simps [simp del]

definition prepare_context :: "'w context_env \<Rightarrow> 'w compaction \<Rightarrow> turn_message list \<Rightarrow> string list \<Rightarrow> ('w, turn_message list) act" where
  "prepare_context cx kc ms tools = bind_act (get_act (\<lambda>w. cx_tokens cx w ms tools)) (\<lambda>before.
     if before < cx_trigger cx then ret ms
     else bind_act (compact_messages kc ''automatic'' ms) (\<lambda>ms.
       bind_act (get_act (\<lambda>w. cx_tokens cx w ms tools)) (\<lambda>after.
       bind_act (if after \<ge> cx_limit cx then compact_messages kc ''reactive'' ms else ret ms) (\<lambda>ms.
       bind_act (externalize_loop cx tools ms) (\<lambda>ms.
       bind_act (get_act (\<lambda>w. cx_tokens cx w ms tools)) (\<lambda>after.
         if after \<ge> cx_limit cx
         then raise_exn (Exn ''RuntimeError'' (''Agent context remains above the hard limit after compaction and tool-result externalization: ''
           @ int_str after @ '' >= '' @ int_str (cx_limit cx) @ '' estimated tokens''))
         else ret ms))))))"

text \<open>The loop keeps calls and results, and leaves a request that fits or nothing to move.\<close>

lemma loop_keeps: "wp (externalize_loop cx tools ms) (\<lambda>ms' _. \<forall>ids. open_after ids ms' = open_after ids ms) (\<lambda>_ _. True) w"
proof (induction cx tools ms w rule: externalize_loop.induct)
  case (1 cx tools ms w)
  show ?case
  proof (cases "cx_tokens cx w ms tools < cx_limit cx")
    case True
    then show ?thesis by (simp add: wp_def externalize_loop.simps)
  next
    case False
    have step: "case externalize_step cx ms w of (Inl e, w') \<Rightarrow> True | (Inr r, w') \<Rightarrow> list_all2 like_message ms (snd r)"
      using step_moved[of cx ms w] by (auto simp: wp_def split: prod.splits sum.splits)
    obtain out w' where out: "externalize_step cx ms w = (out, w')" by fastforce
    show ?thesis
    proof (cases out)
      case (Inl e)
      then show ?thesis using False out by (simp add: wp_def externalize_loop.simps)
    next
      case (Inr r)
      obtain n ms' where r: "r = (n, ms')" by fastforce
      have like: "open_after ids ms' = open_after ids ms" for ids using step like_open by (auto simp: out Inr r)
      show ?thesis
      proof (cases "n = 0")
        case True
        then show ?thesis using False out Inr r like by (simp add: wp_def externalize_loop.simps)
      next
        case n: False
        have "externalize_loop cx tools ms w = externalize_loop cx tools ms' w'" using False out Inr r n by (subst externalize_loop.simps) simp
        moreover have "wp (externalize_loop cx tools ms') (\<lambda>ms'' _. \<forall>ids. open_after ids ms'' = open_after ids ms') (\<lambda>_ _. True) w'"
          by (rule 1[OF False out[unfolded Inr r, symmetric] refl refl n])
        ultimately show ?thesis using like by (auto simp: wp_def)
      qed
    qed
  qed
qed

lemma wp_then:
  assumes "wp m (\<lambda>a _. P a) (\<lambda>_ _. True) w" "\<And>a v. P a \<Longrightarrow> wp (f a) Q (\<lambda>_ _. True) v"
  shows "wp (bind_act m f) Q (\<lambda>_ _. True) w"
  unfolding wp_bind by (rule wp_mono[OF assms(1)]) (auto intro: assms(2))

lemma prepare_paired:
  assumes "paired ms"
  shows "wp (prepare_context cx kc ms tools) (\<lambda>ms' _. paired ms') (\<lambda>_ _. True) w"
proof -
  have loop: "wp (externalize_loop cx tools ms') (\<lambda>ms'' _. paired ms'') (\<lambda>_ _. True) v" if "paired ms'" for ms' v
    by (rule wp_mono[OF loop_keeps]) (use that in \<open>auto simp: paired_def awaits_def\<close>)
  have second: "wp (if b then compact_messages kc ''reactive'' ms' else ret ms') (\<lambda>ms'' _. paired ms'') (\<lambda>_ _. True) v" if "paired ms'" for b ms' v
    by (cases b) (auto simp: wp_ret that intro: compact_messages_paired)
  have rest: "wp (bind_act (get_act g) (\<lambda>after. bind_act (if after \<ge> cx_limit cx then compact_messages kc ''reactive'' ms' else ret ms') (\<lambda>ms.
       bind_act (externalize_loop cx tools ms) (\<lambda>ms. bind_act (get_act (\<lambda>w. cx_tokens cx w ms tools)) (\<lambda>after.
         if after \<ge> cx_limit cx then raise_exn (e after) else ret ms))))) (\<lambda>ms' _. paired ms') (\<lambda>_ _. True) v"
    if "paired ms'" for g ms' e v
    unfolding wp_bind[where m = "get_act g"] wp_get
    by (intro wp_then[where P = paired, OF second] wp_then[where P = paired, OF loop] that) (auto simp: wp_bind wp_get wp_raise wp_ret)
  show ?thesis
    unfolding prepare_context_def wp_bind[where m = "get_act g" for g] wp_get
    using assms by (auto simp: wp_ret intro!: wp_then[where P = paired, OF compact_messages_paired] rest)
qed

text \<open>C10: What \<open>prepare_context\<close> returns fits: the request is below the hard limit, or it was below the trigger and is unchanged. It always
  ends, with that conversation or with an exception.\<close>

theorem prepare_context_fits:
  "case prepare_context cx kc ms tools w of (Inl e, w') \<Rightarrow> True
   | (Inr ms', w') \<Rightarrow> cx_tokens cx w' ms' tools < cx_limit cx \<or> ms' = ms \<and> w' = w \<and> cx_tokens cx w ms tools < cx_trigger cx"
proof -
  let ?Q = "\<lambda>ms' w'. cx_tokens cx w' ms' tools < cx_limit cx \<or> ms' = ms \<and> w' = w \<and> cx_tokens cx w ms tools < cx_trigger cx"
  have fin: "wp (bind_act (get_act (\<lambda>w. cx_tokens cx w ms' tools)) (\<lambda>after. if after \<ge> cx_limit cx then raise_exn (e after) else ret ms')) ?Q (\<lambda>_ _. True) v" for ms' e v
    by (simp add: wp_bind wp_get wp_raise wp_ret)
  have "wp (prepare_context cx kc ms tools) ?Q (\<lambda>_ _. True) w"
  proof (cases "cx_tokens cx w ms tools < cx_trigger cx")
    case True
    then show ?thesis by (simp add: prepare_context_def wp_bind wp_get wp_ret)
  next
    case False
    show ?thesis unfolding prepare_context_def
      by (subst wp_bind, subst wp_get, subst if_not_P[OF False]) (intro fin wp_then[where P = "\<lambda>_. True"] wp_True)
  qed
  then show ?thesis by (auto simp: wp_def split: prod.splits sum.splits)
qed

section \<open>The laws of the loop\<close>

definition with_context :: "'w context_env \<Rightarrow> 'w compaction \<Rightarrow> 'w services \<Rightarrow> 'w services" where
  "with_context cx kc sv = sv\<lparr>sv_prepare := prepare_context cx kc, sv_reactive := compact_messages kc ''reactive'', sv_compact := compact_messages kc ''manual''\<rparr>"

interpretation prepared: paired_context "with_context cx kc sv" for cx kc sv
proof unfold_locales
  show "paired ms \<Longrightarrow> wp (sv_prepare (with_context cx kc sv) ms tools) (\<lambda>ms' _. paired ms') (\<lambda>_ _. True) w" for ms tools w
    by (simp add: with_context_def prepare_paired)
  show "paired ms \<Longrightarrow> wp (sv_reactive (with_context cx kc sv) ms) (\<lambda>ms' _. paired ms') (\<lambda>_ _. True) w" for ms w
    by (simp add: with_context_def compact_messages_paired)
  show "wp (sv_compact (with_context cx kc sv) ms) (\<lambda>ms' _. awaits (if mentions_call i ms' then [i] else []) ms') (\<lambda>_ _. True) w"
    if "awaits [i] ms" for i ms w
    unfolding with_context_def
    by simp (rule wp_mono[OF compact_messages_awaits[OF that]], auto dest: awaits_mentions)
qed

text \<open>C9: Every request the lead agent sends has a conversation in which each tool call is answered by exactly its results, in order, in the next
  message, and no result is without its call: however tools fail, are blocked, run in the background or are answered from a cache, and however
  often the conversation is compacted or long results are moved out of it. The context is prepared and compacted by the code; what is
  left to assume is that the model gives its calls ids and calls \<open>compact\<close> alone.\<close>

theorem prepared_requests_paired:
  assumes "model_laws sv" "paired ms" "agent_loop fuel cfg (with_context cx kc sv) primary briefing w ms = Some (r, s)"
  shows "\<forall>q\<in>set (asked s). paired (rq_messages q)"
proof -
  have "model_laws (with_context cx kc sv)" using assms(1) by (simp add: model_laws_def with_context_def)
  from prepared.requests_paired[OF this assms(2,3)] show ?thesis .
qed

end
