(* ===== verification/Agent_Demo.thy ===== *)
theory Agent_Demo
  imports Agent_Budget Agent_Prepare
begin

text \<open>
  Runs of \<open>agent_loop\<close> on a scripted model, evaluated: an ordinary run, to which the theorems about the loop are applied, and two runs in
  which the loop itself leaves a tool call without its result.
\<close>

section \<open>A scripted model\<close>

text \<open>The state is the number of calls made; reply \<open>n\<close> of the script answers call \<open>n\<close>, out of a budget of 20.\<close>

definition demo_left :: "nat \<Rightarrow> int" where
  "demo_left n = max 0 (20 - int n)"

definition demo_env :: permission_env where
  "demo_env = \<lparr>approval_mode = ''non_interactive'', user_answer = [], path_escapes = (\<lambda>p. True), worktree_inside = (\<lambda>n. False)\<rparr>"

definition demo_cfg :: agent_config where
  "demo_cfg = \<lparr>ac_provider = ''anthropic'', ac_fallback_model = None, ac_max_retries = 3, ac_has_deadline = False, ac_max_inline_tokens = 1000,
     ac_background_enabled = True, ac_registry = [(''bash'', bash_tool)], ac_multiagent = True, ac_implementation_task = False\<rparr>"

definition demo_services :: "(nat \<Rightarrow> reply) \<Rightarrow> nat services" where
  "demo_services script = \<lparr>sv_expired = ret False, sv_workers_alive = ret False, sv_fired = ret [], sv_notes = ret [],
     sv_wait_background = ret True, sv_wait_once = ret False,
     sv_budget = (\<lambda>n. (Inr (Budget \<lparr>raw_max_calls = Some 20, raw_call_count = Some (int n), raw_retries = None, raw_source = ''demo''\<rparr>), n)),
     sv_todos = ret [], sv_tools = ret ([''bash'', ''delegate_agent''], [''bash'', ''delegate_agent'']),
     sv_prepare = (\<lambda>ms ts. ret ms), sv_create = (\<lambda>n ms ts k i st. Inr (script n)), sv_created = (\<lambda>i n. n + i),
     sv_reactive = ret, sv_compact = ret, sv_pre = hooked (\<lambda>n. demo_env) (ac_registry demo_cfg), sv_post = (\<lambda>u out. ret ()), sv_stop = (\<lambda>ms. ret ()),
     sv_handler = (\<lambda>u. ret ''fine''), sv_background = (\<lambda>u. ret ''bg1''), sv_store = (\<lambda>u out. ret ''stored''),
     sv_loads = (\<lambda>t. None), sv_dumps = (\<lambda>v. ''{}''), sv_screen = (\<lambda>d. ret ''{}'')\<rparr>"

definition call_bash :: "string \<Rightarrow> string \<Rightarrow> tool_use" where
  "call_bash i c = \<lparr>tu_id = i, tu_name = ''bash'', tu_input = [(''command'', Py_str c)]\<rparr>"

definition call_explorer :: "string \<Rightarrow> tool_use" where
  "call_explorer i = \<lparr>tu_id = i, tu_name = ''delegate_agent'', tu_input = [(''role'', Py_str ''Explorer'')]\<rparr>"

definition call_compact :: "string \<Rightarrow> tool_use" where
  "call_compact i = \<lparr>tu_id = i, tu_name = ''compact'', tu_input = []\<rparr>"

definition demo_reply :: "string \<Rightarrow> part list \<Rightarrow> reply" where
  "demo_reply stop ps = \<lparr>rp_stop = stop, rp_parts = ps\<rparr>"

definition demo_run :: "(nat \<Rightarrow> reply) \<Rightarrow> ((exn + unit) \<times> nat agent) option" where
  "demo_run script = agent_loop 3 demo_cfg (demo_services script) ''m'' None 0 [user_says ''go'']"

lemmas act_defs = bind_act_def seq_act_def ret_def get_act_def upd_act_def when_act_def raise_exn_def catch_act_def ask_def say_def

lemmas start_of_turn_defs = agent_turn_def check_case_deadline_def add_fired_def inject_background_notifications_def add_notes_def budget_guard_def
  model_budget_snapshot_def finalization_reserve_active_def Let_def FINALIZATION_RESERVE_MIN_def FINALIZATION_RESERVE_MAX_def fifth_up_def call_llm_def
  with_retry_def attempts_made_def

text \<open>A turn with calls to spare is the handling of the next reply.\<close>

definition called :: "nat agent \<Rightarrow> nat agent" where
  "called s = s\<lparr>world := Suc (world s), recovery := (recovery s)\<lparr>consecutive_529 := 0\<rparr>,
     asked := asked s @ [\<lparr>rq_model = current_model (recovery s), rq_messages = msgs s, rq_tools = [''bash'', ''delegate_agent''], rq_max_tokens = max_tokens s\<rparr>]\<rparr>"

lemma demo_turn:
  assumes "world s < 10"
  shows "agent_turn demo_cfg (demo_services script) s
    = handle_reply demo_cfg (demo_services script) [''bash'', ''delegate_agent''] False (script (world s)) (called s)"
proof -
  have "\<not> 20 - int (world s) \<le> 4" "\<not> 20 \<le> int (world s)" "20 - int (world s) \<noteq> 1" using assms by auto
  then show ?thesis
    by (simp add: start_of_turn_defs act_defs demo_services_def demo_cfg_def numeral_3_eq_3 called_def)
qed

lemmas reply_defs = handle_reply_def has_tool_use_def final_answer_def incomplete_todos_def append_todo_warning_def end_turn_def stop_run_def finish_run_def
  run_tools_def

lemma demo_quiet [simp]: "check_case_deadline (demo_services script) s = (Inr (), s)" "sv_notes (demo_services script) = ret []"
  by (simp_all add: check_case_deadline_def act_defs demo_services_def)

lemma demo_final: "handle_reply demo_cfg (demo_services script) hs False (demo_reply ''end_turn'' [P_text t]) s
    = (Inr False, s\<lparr>max_tokens := effective_initial_max_tokens ''anthropic'' (current_model (recovery s)) DEFAULT_MAX_TOKENS,
        recovery := (recovery s)\<lparr>has_escalated := False\<rparr>, msgs := msgs s @ [assistant_parts [P_text t]], final_text := Some (extract_text [P_text t])\<rparr>)"
  by (simp add: reply_defs act_defs demo_reply_def demo_services_def demo_cfg_def)

section \<open>An ordinary run\<close>

definition demo_script :: "nat \<Rightarrow> reply" where
  "demo_script n = (if n = 0 then demo_reply ''tool_use'' [P_text ''look'', P_use (call_bash ''a'' ''ls''), P_use (call_explorer ''b''), P_use (call_explorer ''c'')]
     else demo_reply ''end_turn'' [P_text ''done''])"

lemma hooks_ls: "pre_tool_use demo_env [(''bash'', bash_tool)] (call_bash i ''ls'') = Inr None"
proof -
  have "text_inputs (call_bash i ''ls'')" by (simp add: text_inputs_def call_bash_def dict_get_def)
  moreover have "call_allowed demo_env ''command_guard'' (call_bash i ''ls'')"
  proof -
    have c: "command_allowed demo_env ''ls''" "\<not> py_startswith ''bash'' ''mcp__''" by code_simp+
    show ?thesis using c by (simp add: call_allowed_def call_bash_def py_str_def KNOWN_SAFETY_POLICIES_def dict_get_def)
  qed
  moreover have "safety_policy_of [(''bash'', bash_tool)] (tu_name (call_bash i ''ls'')) = ''command_guard''"
    by (simp add: safety_policy_of_def get_spec_def call_bash_def bash_tool_def)
  ultimately show ?thesis using pre_tool_use_allows_iff[of "call_bash i ''ls''" demo_env "[(''bash'', bash_tool)]"] by simp
qed

lemma hooks_explorer: "pre_tool_use demo_env [(''bash'', bash_tool)] (call_explorer i) = Inr None"
proof -
  have n: "\<not> py_startswith ''delegate_agent'' ''mcp__''" by code_simp
  show ?thesis using n by (simp add: pre_tool_use_def permission_hook_def safety_policy_of_def get_spec_def call_explorer_def SAFETY_POLICY_VALIDATORS_def
      standard_policy_def log_hook_def)
qed

lemma demo_texts: "\<not> py_startswith ''fine'' ''Error:''" "\<not> is_permission_denied_output ''fine''" "py_startswith (py_lower ''fine'') ''error:'' = False"
  "normalize_agent_role (Py_str ''Explorer'') = ''explore''" "starts_with_any (py_lower ''fine'') [''error:'', ''permission denied'', ''tool not run''] = False"
  by code_simp+

lemmas step_defs = tool_step_def reuse_cached_def allowed_call_def call_tool_handler_def finish_call_def note_delegation_def note_mutation_def note_read_def
  accept_result_def materialize_def is_delegation_def delegated_role_def input_of_def should_run_background_def tool_json_def hooked_def blocks_def
  MAIN_MUTATION_TOOLS_def MUTATING_FILE_TOOLS_def background_policy_of_def get_spec_def dict_get_def estimate_context_tokens_def py_truth_def Let_def

lemma demo_bash: "tool_step demo_cfg (demo_services script) [''bash'', ''delegate_agent''] (call_bash i ''ls'') s
    = (Inr Next, s\<lparr>gated := gated s @ [(call_bash i ''ls'', None)], agent.ran := agent.ran s @ [(call_bash i ''ls'', mutation_revision s, ''fine'')],
        results := results s @ [P_result i ''fine'']\<rparr>)"
  using hooks_ls[of i] by (simp add: step_defs act_defs demo_services_def demo_cfg_def call_bash_def bash_tool_def demo_texts)

lemma demo_explore: "\<not> explorer_attempted s \<Longrightarrow> tool_step demo_cfg (demo_services script) [''bash'', ''delegate_agent''] (call_explorer i) s
    = (Inr Next, s\<lparr>gated := gated s @ [(call_explorer i, None)], agent.ran := agent.ran s @ [(call_explorer i, mutation_revision s, ''fine'')],
        explorer_attempted := True, explorer_cached := ''fine'', results := results s @ [P_result i ''fine'']\<rparr>)"
  using hooks_explorer[of i] by (simp add: step_defs act_defs demo_services_def demo_cfg_def call_explorer_def bash_tool_def demo_texts text_list_def)

lemma demo_explored: "explorer_attempted s \<Longrightarrow> tool_step demo_cfg (demo_services script) hs (call_explorer i) s
    = (Inr Next, s\<lparr>results := results s @ [P_result i ''{}'']\<rparr>)"
  by (simp add: step_defs act_defs demo_services_def demo_cfg_def call_explorer_def demo_texts)

definition demo_start :: "nat agent" where
  "demo_start = start_agent demo_cfg ''m'' None 0 [user_says ''go'']"

text \<open>What the run shows: the tools run and the conversations sent.\<close>

lemma demo_run_ends:
  "\<exists>s. demo_run demo_script = Some (Inr (), s)
     \<and> agent.ran s = [(call_bash ''a'' ''ls'', 0, ''fine''), (call_explorer ''b'', 0, ''fine'')]
     \<and> map rq_messages (asked s) = [[user_says ''go''], [user_says ''go'', assistant_parts (rp_parts (demo_script 0)),
          user_parts [P_result ''a'' ''fine'', P_result ''b'' ''fine'', P_result ''c'' ''{}'']]]"
proof -
  let ?sv = "demo_services demo_script" and ?hs = "[''bash'', ''delegate_agent'']"
  have one: "agent_turn demo_cfg ?sv demo_start = handle_reply demo_cfg ?sv ?hs False (demo_script 0) (called demo_start)"
    using demo_turn[of demo_start demo_script] by (simp add: demo_start_def start_agent_def)
  define s1 where "s1 = snd (handle_reply demo_cfg ?sv ?hs False (demo_script 0) (called demo_start))"
  have first: "handle_reply demo_cfg ?sv ?hs False (demo_script 0) (called demo_start) = (Inr True, s1)" "world s1 = 1"
    "agent.ran s1 = [(call_bash ''a'' ''ls'', 0, ''fine''), (call_explorer ''b'', 0, ''fine'')]"
    "map rq_messages (asked s1) = [[user_says ''go'']]"
    "msgs s1 = [user_says ''go'', assistant_parts (rp_parts (demo_script 0)), user_parts [P_result ''a'' ''fine'', P_result ''b'' ''fine'', P_result ''c'' ''{}'']]"
    unfolding s1_def
    by (simp_all add: demo_script_def demo_reply_def reply_defs act_defs demo_bash demo_explore demo_explored called_def demo_start_def start_agent_def)
  have two: "agent_turn demo_cfg ?sv s1 = handle_reply demo_cfg ?sv ?hs False (demo_script 1) (called s1)"
    using demo_turn[of s1 demo_script] first by simp
  show ?thesis unfolding demo_run_def agent_loop_def demo_start_def[symmetric] numeral_3_eq_3
    using first by (simp add: one two demo_script_def demo_final called_def)
qed

section \<open>The theorems on this run\<close>


theorem agent_delegations_bounded_witness:
  "\<exists>s. demo_run demo_script = Some (Inr (), s) \<and> filter (answered_as ''explore'') (agent.ran s) = [(call_explorer ''b'', 0, ''fine'')]
     \<and> length (filter (answered_as ''explore'') (agent.ran s)) \<le> 1"
proof -
  obtain s where s: "demo_run demo_script = Some (Inr (), s)" "agent.ran s = [(call_bash ''a'' ''ls'', 0, ''fine''), (call_explorer ''b'', 0, ''fine'')]"
    using demo_run_ends by auto
  have "filter (answered_as ''explore'') (agent.ran s) = [(call_explorer ''b'', 0, ''fine'')]"
    unfolding s(2) by (simp add: answered_as_def is_delegation_def delegated_role_def call_bash_def call_explorer_def input_of_def dict_get_def demo_texts)
  with agent_delegations_bounded[OF s(1)[unfolded demo_run_def]] s(1) show ?thesis by blast
qed

lemma demo_model_laws: "model_laws (demo_services demo_script)"
  by (auto simp: model_laws_def demo_services_def demo_script_def demo_reply_def compact_alone_def usable_reply_def call_bash_def call_explorer_def)

lemma demo_paired: "paired [user_says t]"
  by (simp add: paired_def awaits_def)

lemma demo_counts: "counts_calls demo_left (demo_services script)"
proof -
  have quiet: "spares_last demo_left (ret a)" "spends demo_left (ret a)" for a :: 'a by (simp_all add: spares_last_def spends_def ret_def)
  have "tells_left demo_left (sv_budget (demo_services script))"
    by (auto simp: tells_left_def spends_def demo_services_def model_budget_snapshot_def Let_def demo_left_def)
  moreover have "spends demo_left (hooked (\<lambda>n. demo_env) r u)" for r u by (simp add: spends_def hooked_def)
  moreover have "demo_left (sv_created (demo_services script) n w) < demo_left w" if "0 < n" "0 < demo_left w" for n w
    using that by (auto simp: demo_left_def demo_services_def)
  moreover have "0 \<le> demo_left w" for w by (simp add: demo_left_def)
  moreover have "spares_last demo_left (\<lambda>n. (Inr x, n))" for x :: 'x by (simp add: spares_last_def spends_def)
  ultimately show ?thesis unfolding counts_calls_def by (simp add: demo_services_def, simp add: spares_last_def spends_def ret_def)
qed

definition demo_cx :: "nat context_env" where
  "demo_cx = \<lparr>cx_tokens = (\<lambda>n ms ts. 50), cx_trigger = 100, cx_limit = 200, cx_store = (\<lambda>u out. ret (''out.txt'', [])),
     cx_digest = (\<lambda>t. ''d''), cx_lines = (\<lambda>t. 1), cx_json = (\<lambda>t. t)\<rparr>"

definition demo_compaction :: "nat compaction" where
  "demo_compaction = \<lparr>cp_get = (\<lambda>n. \<lparr>memory = None, transcripts = [], compact_events = [], summary_requests = []\<rparr>), cp_put = (\<lambda>st n. n),
     cp_cfg = \<lparr>cfg_trigger_tokens = 100, cfg_summary_input_limit = 1000, cfg_summary_max_tokens = 100\<rparr>,
     cp_calls = (\<lambda>n ms. \<lparr>estimate_size = length, request_size = length, digest = (\<lambda>ms a b. ''d''), summary_model = (\<lambda>p. Inr ''summary''),
       model_client = No_budget_method, fresh_uid = 0\<rparr>), cp_target = 100\<rparr>"

lemma demo_compaction_quiet: "snd (compact_messages demo_compaction why ms n) = n"
  by (simp add: compact_messages_def Let_def demo_compaction_def split: prod.split)

lemma demo_prepare: "prepare_context demo_cx kc ms ts = ret ms"
  by (simp add: prepare_context_def demo_cx_def bind_act_def get_act_def ret_def)

lemma demo_context_counts: "counts_calls demo_left (with_context demo_cx demo_compaction (demo_services script))"
proof -
  have "spends demo_left (compact_messages demo_compaction why ms)" for why ms by (simp add: spends_def demo_compaction_quiet)
  moreover have "spares_last demo_left (ret ms)" for ms :: "turn_message list" by (simp add: spares_last_def spends_def ret_def)
  ultimately show ?thesis using demo_counts[of script] unfolding counts_calls_def with_context_def by (simp add: demo_prepare)
qed

theorem prepared_requests_paired_witness:
  "\<exists>r s. agent_loop 21 demo_cfg (with_context demo_cx demo_compaction (demo_services demo_script)) ''m'' None 0 [user_says ''go''] = Some (r, s)
     \<and> (\<forall>q\<in>set (asked s). paired (rq_messages q))"
proof -
  have retries: "0 < ac_max_retries demo_cfg" by (simp add: demo_cfg_def)
  have fuel: "Suc (nat (demo_left 0)) = 21" by (simp add: demo_left_def)
  obtain r s where run: "agent_loop 21 demo_cfg (with_context demo_cx demo_compaction (demo_services demo_script)) ''m'' None 0 [user_says ''go''] = Some (r, s)"
    using agent_loop_bounded[OF demo_context_counts retries, of 0 demo_script "''m''" None "[user_says ''go'']"] unfolding fuel by blast
  from prepared_requests_paired[OF demo_model_laws demo_paired run] run show ?thesis by blast
qed

theorem agent_loop_within_budget_witness:
  "\<exists>r s. agent_loop (Suc (nat (demo_left 18))) demo_cfg (demo_services (\<lambda>n. demo_reply ''tool_use'' [P_use (call_bash ''a'' ''ls'')])) ''m'' None 18 [user_says ''go'']
     = Some (r, s) \<and> int (length (asked s)) \<le> 2"
proof -
  have "0 < ac_max_retries demo_cfg" by (simp add: demo_cfg_def)
  from agent_loop_within_budget[OF demo_counts this, where w = 18] show ?thesis by (simp add: demo_left_def)
qed

section \<open>Where the loop breaks the contract\<close>

definition compacting_script :: "nat \<Rightarrow> reply" where
  "compacting_script n = (if n = 0 then demo_reply ''tool_use'' [P_use (call_bash ''a'' ''ls''), P_use (call_compact ''k'')]
     else demo_reply ''end_turn'' [P_text ''done''])"

definition compacted_text :: string where
  "compacted_text = ''[Compacted. Continue with summarized context.]''"

lemma demo_compact: "tool_step demo_cfg (demo_services script) hs (call_compact i) s
    = (Inr Compacted, s\<lparr>msgs := msgs s @ [if mentions_call i (msgs s) then user_parts [P_result i compacted_text] else user_says compacted_text]\<rparr>)"
  by (simp add: step_defs act_defs compact_tool_def demo_services_def demo_cfg_def call_compact_def compacted_text_def)


definition cut_script :: "nat \<Rightarrow> reply" where
  "cut_script n = demo_reply ''max_tokens'' [P_use (call_bash ''a'' ''ls'')]"

lemma demo_limits: "effective_initial_max_tokens ''anthropic'' ''m'' DEFAULT_MAX_TOKENS = 8000" "effective_escalated_max_tokens ''anthropic'' ''m'' 8000 ESCALATED_MAX_TOKENS = 16000"
  by code_simp+

lemma cut_reply: "handle_reply demo_cfg (demo_services script) hs False (cut_script n) s =
    (if \<not> has_escalated (recovery s) \<and> effective_escalated_max_tokens ''anthropic'' (current_model (recovery s)) (max_tokens s) ESCALATED_MAX_TOKENS > max_tokens s
     then (Inr True, s\<lparr>max_tokens := effective_escalated_max_tokens ''anthropic'' (current_model (recovery s)) (max_tokens s) ESCALATED_MAX_TOKENS,
       recovery := (recovery s)\<lparr>has_escalated := True\<rparr>\<rparr>)
     else (Inr False, s\<lparr>msgs := msgs s @ [assistant_parts [P_use (call_bash ''a'' ''ls'')]]\<rparr>))"
  by (simp add: handle_reply_def cut_off_def cut_script_def demo_reply_def act_defs demo_cfg_def has_tool_use_def MAX_RECOVERY_RETRIES_def Let_def)


end
