(* ===== verification/Spec2Isabelle.thy ===== *)
theory Spec2Isabelle
  imports Witnesses Run_Findings Revise_Witness Cron_Sched Tasks Compare Compact_Run Tools Synth_Demo Agent_Demo
begin

text \<open>
  Aqours Code is a coding agent: a lead agent works on a repository by talking to a language model and running tools, and for larger
  tasks a planner produces a graph of work nodes that workers carry out in parallel in git worktrees. This library models the parts of it
  (Python, under \<open>src/aqours_code\<close>) that decide something, and proves what they promise. All definitions compute, so each theorem with
  hypotheses is applied to a concrete input by evaluation.

  \<^bold>\<open>The parts and how they meet.\<close>

  A task graph plan (\<open>taskgraph/schema.py\<close>) is written by a planner, or built from facts about the work (\<open>facts.py\<close>, \<open>synthesize.py\<close>). It is checked
  (\<open>validate.py\<close>), completed with edges (\<open>derive.py\<close>), merged where nodes are too small (\<open>revise.py\<close>), and executed (\<open>coordinator.py\<close>): the scheduler starts
  nodes whose upstream is merged, each node run lets a worker edit a worktree (with a context pack, \<open>context_pack.py\<close>), runs its checks
  (\<open>checks.py\<close>), and merges it into the integration branch with git (\<open>gitops.py\<close>). \<open>affected.py\<close> picks tests, \<open>compare.py\<close> measures plans.

  The lead agent (\<open>agent_loop.py\<close>) takes prompts from the user and from a schedule (\<open>cron.py\<close>), prepares and compacts the conversation (\<open>compact.py\<close>),
  calls the model under a budget with retries (\<open>model_budget.py\<close>, \<open>recovery.py\<close>), and runs the tools of a reply (\<open>tool_registry.py\<close>)
  behind permission hooks (\<open>hooks.py\<close>, \<open>command_safety.py\<close>). It talks to teammates by mailboxes (\<open>message_bus.py\<close>, \<open>protocol.py\<close>) and
  shares tasks and worktrees with them (\<open>task_system.py\<close>, \<open>autonomous.py\<close>, \<open>worktree_system.py\<close>).

  \<^bold>\<open>Foundations.\<close>

  \<^item> \<open>Prelude\<close>: Python strings, lists, dictionaries (association lists in insertion order, \<open>dict_get\<close>, \<open>dict_set\<close>), ordered sets; their lemmas in \<open>py_simps\<close>
    and \<open>reach_simps\<close>. Characters are the first 256 code points; \<open>py_lower\<close>, \<open>py_strip\<close>, \<open>py_split\<close> and the rest are what Python does on them.
  \<^item> \<open>Effects\<close>: code with state that may raise, as \<open>act\<close> (\<open>bind_act\<close>, \<open>catch_act\<close>, \<open>finally_act\<close>), and its weakest preconditions (\<open>wp\<close>, \<open>keeps\<close>).

  \<^bold>\<open>The task graph.\<close>

  \<^item> \<open>Schema\<close>, \<open>Repo_Index\<close> (\<open>schema.py\<close>, queries of \<open>repo_index.py\<close>): paths, symbols, nodes, edges and what their validators accept.
  \<^item> \<open>Graph_Ops\<close> (helpers of \<open>validate.py\<close>): ancestors, conflicts, cycles. \<open>find_cycles\<close> reports exactly the cycles; the locale \<open>ancestry\<close> is the
    interface of reachability for the passes that add edges, interpreted on \<open>anc\<close>.
  \<^item> \<open>Validate\<close> (\<open>validate.py\<close>): all rules V1-V14 and warnings; \<open>validate\<close> reports no error exactly for plans with the declarative meaning of the rules.
  \<^item> \<open>Derive\<close> (\<open>derive.py\<close>): the four passes, as interpretations of the locale \<open>derivation_pass\<close>; they keep a plan sound and acyclic and order conflicting
    nodes and implementers.
  \<^item> \<open>Revise\<close>, \<open>Revise_Props\<close> (\<open>revise.py\<close>): merging nodes until no rule applies ends, keeps validity and exactly the order of the other nodes.
  \<^item> \<open>Facts\<close> (\<open>facts.py\<close>), \<open>Synth_Groups\<close>, \<open>Synth_Groups_Props\<close>, \<open>Synth_Buckets\<close>, \<open>Synth_Inv\<close>, \<open>Synth_Moves\<close>, \<open>Synth_Steps\<close>, \<open>Synth_Run\<close>, \<open>Synth_Witness\<close>
    (\<open>synthesize.py\<close> up to the placed groups): the fact checks have their declarative meaning; grouping units gives a partition (the loops are
    interpretations of the locale \<open>shrinking_loop\<close>); for checked facts placing the edits cannot fail internally and puts every edit in exactly one node.
  \<^item> \<open>Parallelism\<close>, \<open>Synth_Build\<close>, \<open>Synth_Parts\<close>, \<open>Synth_Result\<close>, \<open>Synth_Demo\<close> (the rest of \<open>synthesize.py\<close>, \<open>single.py\<close>): checks, goals, nodes and edges, the
    validated graph, the heaviest chain and the choice of a single agent. \<open>synthesize\<close> is the composition of all steps; for checked facts with goals it
    raises only its own two errors, and a split graph it returns validates, holds all the work and is parallel enough. \<open>Synth_Parts\<close> has the
    second invariant this needs: the parts of the nodes stay well-formed.
  \<^item> \<open>Scheduler\<close>, \<open>Sched_Safety\<close> (\<open>coordinator.py\<close>, \<open>execute\<close>): the main thread and the workers as interleaved steps. No conflicting nodes at once, upstream
    first, no infinite or stuck run, every node ends with an outcome.
  \<^item> \<open>Gitops\<close>, \<open>Checks\<close>, \<open>Node_Run\<close>, \<open>Integration\<close>, \<open>Node_Safety\<close> (\<open>gitops.py\<close>, \<open>checks.py\<close>, \<open>coordinator.py\<close>, \<open>prompting.py\<close>): one node run with attempts, conflict
    resolution, post-merge checks and undo, over a git program that is a parameter. A run settles, its attempts are bounded, the integration
    branch is restored, a merged node passed its checks. \<open>Sched_Safety\<close> shows that a node run is what the scheduler allows a worker to do.
  \<^item> \<open>Context_Pack\<close>, \<open>Affected\<close>, \<open>Compare\<close>: the pack is within its byte limit, affected tests are exactly those reached, depths are longest chains.

  \<^bold>\<open>The agent.\<close>

  \<^item> \<open>Agent_Loop\<close> (\<open>agent_loop.py\<close>): \<open>agent_loop\<close> with every branch, over a record of services (clock, queues, todo list, model, hooks, handlers, stores) with a
    state of their own. \<open>agent_turn\<close> is one cycle of the loop, \<open>agent_turns\<close> repeats it with fuel.
  \<^item> \<open>Agent_Log\<close>, \<open>Agent_Tools\<close>: an abstract machine of what a run does with tools and the proof that the loop refines it, for all services. Nothing runs that
    the hooks did not let through; with the hooks of \<open>Hooks\<close> that means the safety policy of each tool; delegations are bounded.
  \<^item> \<open>Agent_Pairing\<close>, \<open>Agent_Context\<close>, \<open>Agent_Prepare\<close> (\<open>prepare_context\<close>): every request pairs calls and results. The locale \<open>paired_context\<close> has what the loop
    needs of context preparation; it is interpreted on \<open>prepare_context\<close> and the compaction of \<open>Compact_Run\<close>. What is prepared fits the limit.
  \<^item> \<open>Agent_Budget\<close>: a run ends within its model calls. \<open>Agent_Demo\<close>: scripted runs, and two in which the code breaks the contract.
  \<^item> \<open>Compact\<close>, \<open>Compact_Run\<close> (\<open>compact.py\<close>), \<open>Model_Limits\<close> (\<open>model_budget.py\<close>, \<open>recovery.py\<close>): the cut of a history, one compaction, budgets and retries.
  \<^item> \<open>Command_Safety\<close>, \<open>Hooks\<close>, \<open>Tools\<close> (\<open>command_safety.py\<close>, \<open>hooks.py\<close>, \<open>tool_registry.py\<close>): which commands count as deletions (with the \<open>shlex\<close> tokenizer), which
    calls the hook lets through, which tools a delegated agent gets.
  \<^item> \<open>Cron\<close>, \<open>Cron_Props\<close>, \<open>Cron_Sched\<close> (\<open>cron.py\<close>): expressions mean their schedule, a tick fires each due job once, a restart restores durable jobs.
  \<^item> \<open>Bus\<close> (\<open>message_bus.py\<close>, \<open>protocol.py\<close>): delivery of messages, through the locale \<open>mailbox\<close>. \<open>Tasks\<close> (\<open>task_system.py\<close>, \<open>autonomous.py\<close>, \<open>worktree_system.py\<close>):
    claims, blockers, worktree names.

  \<open>Fixtures\<close>, \<open>Witnesses\<close>, \<open>Revise_Witness\<close>, \<open>Synth_Witness\<close>, \<open>Synth_Demo\<close> and \<open>Run_Findings\<close> have concrete plans, runs and counterexamples.

  \<^bold>\<open>Bounds and fuel.\<close>

  Loops with a measure are functions with a termination proof (segments of a command, shrinking a tail, moving results). \<open>kahn_loop\<close> has one unit of fuel per
  node, since no node becomes ready twice; the merging loops of \<open>revise.py\<close> and \<open>synthesize.py\<close> one per node or group, since each round removes one; the
  attempts and repairs of a node run have the limits of the code; \<open>agent_turns\<close> has the calls that are left and one more (\<open>agent_loop_bounded\<close>). In each
  case it is proved that the fuel is enough. Python integers are \<open>int\<close> or \<open>nat\<close>; the program has no fixed-width integers. The one float
  that decides something, the share of the heaviest chain, is computed exactly on integers (\<open>rounded_share\<close>). \<open>heaviest\<close> has one unit of fuel per node and one
  more, since a chain of an acyclic plan repeats no node. Surrogates and characters beyond 255 are outside the models of strings.

  \<^bold>\<open>Not modelled.\<close>

  Printing, trace events (\<open>trace.py\<close>, \<open>trace_analysis.py\<close>) and prompt texts, which nothing reads back. Processes, containers and HTTP (\<open>command_executor.py\<close>,
  \<open>docker_utils.py\<close>, \<open>sandbox.py\<close>, \<open>model_api.py\<close>, \<open>model_broker.py\<close>): effects outside, present as parameters where a modelled part calls them. JSON and
  pydantic parsing, \<open>ast\<close> and git, which are other people's code. The planners (\<open>planner.py\<close>, \<open>planner_v3.py\<close>), subagents, teammate threads and team runs
  (\<open>subagent.py\<close>, \<open>teammate.py\<close>, \<open>team.py\<close>), which are prompts around the same loop. Building the index from a repository, the reasons
  and numbers of synthesis decisions, reports over finished runs, the command lines, and the evaluations and
  scripts outside \<open>src/aqours_code\<close>. The components of the manifest say for each part what is in and what is out.
\<close>

end
